(* ===== verification/Prelude.thy ===== *)
theory Prelude
  imports Main "HOL-Library.Word" "HOL-Library.Monad_Syntax"
begin

text \<open>
  What every component shares: the machine integers and byte strings of the Rust code, the
  standard-library functions the sources call (big-endian conversions, checked addition, slices
  that panic out of range, UTF-8 validation, integer parsing, splitting), the collections of
  simplification facts, and the interfaces (locales) that components provide and use.

  A Rust \<open>str\<close> or byte slice is the list of its bytes. A computation that can panic returns an
  option (\<open>None\<close> is the panic); a \<open>Result\<close> is a sum (\<open>Inl\<close> is the error).
\<close>

unbundle bit_operations_syntax

type_synonym u8 = "8 word"
type_synonym u16 = "16 word"
type_synonym u32 = "32 word"
type_synonym u64 = "64 word"
type_synonym bytes = "8 word list"

text \<open>A fallible computation that may also panic: \<open>None\<close> is the panic.\<close>

type_synonym ('e, 'a) panicking = "('e + 'a) option"

named_theorems codec_simps \<open>round-trip equations of the byte codecs\<close>
named_theorems arbiter_simps \<open>unfoldings of the input arbiter's operations\<close>
named_theorems meta_simps \<open>unfoldings of the lifecycle transitions\<close>

subsection \<open>Strings and list helpers\<close>

definition ascii :: "string \<Rightarrow> bytes" where
  "ascii s = map of_char s"

definition starts_with :: "'a list \<Rightarrow> 'a list \<Rightarrow> bool" where
  "starts_with p xs \<longleftrightarrow> take (length p) xs = p"

definition strip_prefix :: "'a list \<Rightarrow> 'a list \<Rightarrow> 'a list option" where
  "strip_prefix p xs = (if starts_with p xs then Some (drop (length p) xs) else None)"

text \<open>\<open>slice::split\<close> on one separator: always at least one field.\<close>

fun split_on :: "'a \<Rightarrow> 'a list \<Rightarrow> 'a list list" where
  "split_on s [] = [[]]"
| "split_on s (x # xs) =
     (if x = s then [] # split_on s xs
      else (case split_on s xs of f # fs \<Rightarrow> (x # f) # fs | [] \<Rightarrow> [[x]]))"

lemma split_on_nonempty [simp]: "split_on s xs \<noteq> []"
  by (induction xs) (auto split: list.splits)

lemma split_on_no_sep: "s \<notin> set xs \<Longrightarrow> split_on s xs = [xs]"
  by (induction xs) auto

lemma split_on_append_sep:
  "s \<notin> set xs \<Longrightarrow> split_on s (xs @ s # ys) = xs # split_on s ys"
  by (induction xs) auto

text \<open>\<open>str::split_once\<close> on one separator byte.\<close>

fun split_once :: "'a \<Rightarrow> 'a list \<Rightarrow> ('a list \<times> 'a list) option" where
  "split_once s [] = None"
| "split_once s (x # xs) =
     (if x = s then Some ([], xs)
      else map_option (\<lambda>(a, b). (x # a, b)) (split_once s xs))"

lemma split_once_append [simp]:
  "s \<notin> set xs \<Longrightarrow> split_once s (xs @ s # ys) = Some (xs, ys)"
  by (induction xs) auto

lemma split_once_Some:
  "split_once s xs = Some (a, b) \<Longrightarrow> xs = a @ s # b \<and> s \<notin> set a"
  by (induction xs arbitrary: a) (auto split: if_splits)

lemma split_once_None: "split_once s xs = None \<longleftrightarrow> s \<notin> set xs"
  by (induction xs) auto

text \<open>A slice expression \<open>bytes[a..b]\<close>: out of range panics.\<close>

definition subslice :: "nat \<Rightarrow> nat \<Rightarrow> 'a list \<Rightarrow> 'a list option" where
  "subslice a b xs = (if a \<le> b \<and> b \<le> length xs then Some (take (b - a) (drop a xs)) else None)"

definition at_index :: "'a list \<Rightarrow> nat \<Rightarrow> 'a option" where
  "at_index xs i = (if i < length xs then Some (xs ! i) else None)"

lemma subslice_Some [simp]: "a \<le> b \<Longrightarrow> b \<le> length xs \<Longrightarrow> subslice a b xs = Some (take (b - a) (drop a xs))"
  by (simp add: subslice_def)

lemma at_index_Some [simp]: "i < length xs \<Longrightarrow> at_index xs i = Some (xs ! i)"
  by (simp add: at_index_def)

lemma find_SomeD: "find P xs = Some x \<Longrightarrow> x \<in> set xs \<and> P x"
  by (induction xs) (auto split: if_splits)

subsection \<open>Big-endian integers\<close>

text \<open>\<open>be_bytes n x\<close> is the \<open>n\<close>-byte big-endian form of \<open>x\<close>; \<open>be_val\<close> reads one back.\<close>

fun be_bytes :: "nat \<Rightarrow> nat \<Rightarrow> bytes" where
  "be_bytes 0 x = []"
| "be_bytes (Suc n) x = of_nat (x div 256 ^ n) # be_bytes n x"

fun be_val :: "bytes \<Rightarrow> nat" where
  "be_val [] = 0"
| "be_val (b # bs) = unat b * 256 ^ length bs + be_val bs"

lemma length_be_bytes [simp]: "length (be_bytes n x) = n"
  by (induction n) auto

lemma be_val_less: "be_val bs < 256 ^ length bs"
proof (induction bs)
  case Nil
  then show ?case by simp
next
  case (Cons b bs)
  have "unat b \<le> 255"
    using unsigned_less [of b, where ?'a = nat] by simp
  then have "unat b * 256 ^ length bs \<le> 255 * 256 ^ length bs"
    by (rule mult_le_mono1)
  then have "unat b * 256 ^ length bs + be_val bs < 255 * 256 ^ length bs + 256 ^ length bs"
    using Cons.IH by (rule add_le_less_mono)
  then show ?case by simp
qed

lemma unat_of_nat_u8: "unat (of_nat x :: u8) = x mod 256"
  by (simp add: unat_of_nat)

lemma be_val_be_bytes: "be_val (be_bytes n x) = x mod 256 ^ n"
proof (induction n)
  case 0
  then show ?case by simp
next
  case (Suc n)
  have "x mod 256 ^ Suc n = (x div 256 ^ n) mod 256 * 256 ^ n + x mod 256 ^ n"
    using mod_mult2_eq [of x "256 ^ n" 256] by (simp add: mult.commute)
  with Suc show ?case by (simp add: unat_of_nat_u8)
qed

lemma be_bytes_mod: "k \<le> n \<Longrightarrow> be_bytes k (x mod 256 ^ n) = be_bytes k x"
proof (induction k)
  case 0
  then show ?case by simp
next
  case (Suc k)
  have "(256::nat) ^ n = 256 ^ k * 256 ^ (n - k)"
    using Suc.prems by (simp flip: power_add)
  then have "x mod 256 ^ n div 256 ^ k = (x div 256 ^ k) mod 256 ^ (n - k)"
    by (simp add: mod_mult2_eq)
  moreover have "(256::nat) dvd 256 ^ (n - k)"
    using Suc.prems by (auto intro: dvd_power)
  ultimately have "x mod 256 ^ n div 256 ^ k mod 256 = x div 256 ^ k mod 256"
    by (simp add: mod_mod_cancel)
  then have "(of_nat (x mod 256 ^ n div 256 ^ k) :: u8) = of_nat (x div 256 ^ k)"
    by (metis of_nat_unat unat_of_nat_u8 ucast_id)
  with Suc show ?case by simp
qed

lemma be_bytes_be_val: "be_bytes (length bs) (be_val bs) = bs"
proof (induction bs)
  case Nil
  then show ?case by simp
next
  case (Cons b bs)
  have lt: "be_val bs < 256 ^ length bs" by (rule be_val_less)
  have "be_bytes (length bs) (be_val (b # bs)) = be_bytes (length bs) (be_val bs)"
    using be_bytes_mod [of "length bs" "length bs" "be_val (b # bs)"] lt by simp
  moreover have "be_val (b # bs) div 256 ^ length bs = unat b"
    using lt by simp
  ultimately show ?case using Cons by simp
qed

definition be16 :: "u16 \<Rightarrow> bytes" where
  "be16 w = be_bytes 2 (unat w)"

definition be32 :: "u32 \<Rightarrow> bytes" where
  "be32 w = be_bytes 4 (unat w)"

definition be64 :: "u64 \<Rightarrow> bytes" where
  "be64 w = be_bytes 8 (unat w)"

definition from_be16 :: "bytes \<Rightarrow> u16" where
  "from_be16 bs = of_nat (be_val bs)"

definition from_be32 :: "bytes \<Rightarrow> u32" where
  "from_be32 bs = of_nat (be_val bs)"

definition from_be64 :: "bytes \<Rightarrow> u64" where
  "from_be64 bs = of_nat (be_val bs)"

lemma length_be [simp]: "length (be16 a) = 2" "length (be32 b) = 4" "length (be64 c) = 8"
  by (simp_all add: be16_def be32_def be64_def)

lemma unat_lt_256_pow: "unat (a :: u16) < 256 ^ 2" "unat (b :: u32) < 256 ^ 4" "unat (c :: u64) < 256 ^ 8"
  using unsigned_less [of a, where ?'a = nat] unsigned_less [of b, where ?'a = nat]
    unsigned_less [of c, where ?'a = nat] by simp_all

lemma from_be [codec_simps]:
  "from_be16 (be16 a) = a" "from_be32 (be32 b) = b" "from_be64 (be64 c) = c"
  using unat_lt_256_pow(1) [of a] unat_lt_256_pow(2) [of b] unat_lt_256_pow(3) [of c]
  by (simp_all add: from_be16_def from_be32_def from_be64_def be16_def be32_def be64_def
      be_val_be_bytes)

lemma unat_of_be_val:
  "length x = 2 \<Longrightarrow> unat (of_nat (be_val x) :: u16) = be_val x"
  "length x = 4 \<Longrightarrow> unat (of_nat (be_val x) :: u32) = be_val x"
  "length x = 8 \<Longrightarrow> unat (of_nat (be_val x) :: u64) = be_val x"
  using be_val_less [of x] by (auto simp: unat_of_nat)

lemma be_from:
  "length x = 2 \<Longrightarrow> be16 (from_be16 x) = x"
  "length y = 4 \<Longrightarrow> be32 (from_be32 y) = y"
  "length z = 8 \<Longrightarrow> be64 (from_be64 z) = z"
  using be_bytes_be_val [of x] be_bytes_be_val [of y] be_bytes_be_val [of z]
  by (simp_all add: from_be16_def from_be32_def from_be64_def be16_def be32_def be64_def
      unat_of_be_val)

subsection \<open>Checked and saturating arithmetic\<close>

text \<open>\<open>checked_add(1)\<close> and \<open>saturating_add(1)\<close> on an unsigned word.\<close>

definition checked_succ :: "'w::len word \<Rightarrow> 'w word option" where
  "checked_succ w = (if w = - 1 then None else Some (w + 1))"

definition saturating_succ :: "'w::len word \<Rightarrow> 'w word" where
  "saturating_succ w = (if w = - 1 then w else w + 1)"

definition saturating_add :: "'w::len word \<Rightarrow> 'w word \<Rightarrow> 'w word" where
  "saturating_add a b = (if unat a + unat b < 2 ^ LENGTH('w) then a + b else - 1)"

lemma unat_succ: "(w :: 'w::len word) \<noteq> - 1 \<Longrightarrow> unat (w + 1) = Suc (unat w)"
  by (metis add.commute add_eq_0_iff unatSuc)

lemma checked_succ_Some: "checked_succ w = Some v \<Longrightarrow> unat v = Suc (unat w)"
  by (auto simp: checked_succ_def unat_succ split: if_splits)

lemma checked_succ_None: "checked_succ w = None \<longleftrightarrow> w = - 1"
  by (simp add: checked_succ_def)

lemma saturating_succ_ge: "w \<le> saturating_succ w"
  by (auto simp: saturating_succ_def unat_succ word_le_nat_alt)

lemma unat_saturating_add:
  "unat (saturating_add a b) = min (unat a + unat b) (2 ^ LENGTH('w) - 1)" for a b :: "'w::len word"
  by (auto simp: saturating_add_def unat_word_ariths unsigned_minus_1_eq_mask mask_eq_exp_minus_1)

subsection \<open>Results in the panic monad\<close>

text \<open>A fallible computation that returns a result took no early return.\<close>

named_theorems panic_simps \<open>when a computation with early returns ends in a result\<close>

lemma panic_if [panic_simps]:
  "(if c then Some (Inl e) else m) = Some (Inr z) \<longleftrightarrow> \<not> c \<and> m = Some (Inr z)"
  by simp

lemma panic_option [panic_simps]:
  "(case x of None \<Rightarrow> Some (Inl e) | Some y \<Rightarrow> f y) = Some (Inr z) \<longleftrightarrow>
     (\<exists>y. x = Some y \<and> f y = Some (Inr z))"
  by (cases x) simp_all

lemma panic_sum [panic_simps]:
  "(case x of Inl a \<Rightarrow> Some (Inl (g a)) | Inr y \<Rightarrow> f y) = Some (Inr z) \<longleftrightarrow>
     (\<exists>y. x = Inr y \<and> f y = Some (Inr z))"
  by (cases x) simp_all

lemmas panic_bind [panic_simps] = bind_eq_Some_conv

subsection \<open>I/O errors and answers of a nonblocking write\<close>

text \<open>
  The \<open>io::ErrorKind\<close>s the sources name, and every other one. \<open>io_answer\<close> is what a
  nonblocking write attempt returns.
\<close>

datatype error_kind = WouldBlock | Interrupted | InvalidData | InvalidInput | PermissionDenied
  | UnexpectedEof | OtherKind nat

datatype io_answer = WroteBytes nat | WriteError error_kind

end
