(* ===== verification/Interfaces.thy ===== *)
theory Interfaces
  imports Prelude
begin

text \<open>
  The contracts that several components provide and their clients rely on, each a locale with
  the client's lemmas proved once: a self-delimiting codec, an incremental consumer whose result
  does not depend on how its input is cut into pieces, a labelled transition system with an
  inductive invariant, and a checked counter.
\<close>

subsection \<open>Self-delimiting codecs\<close>

text \<open>Read \<open>n\<close> items one after another off the front of a stream.\<close>

fun read_items :: "(bytes \<Rightarrow> ('a \<times> bytes) option) \<Rightarrow> nat \<Rightarrow> bytes \<Rightarrow> ('a list \<times> bytes) option" where
  "read_items dec 0 bs = Some ([], bs)"
| "read_items dec (Suc n) bs =
     (case dec bs of
        None \<Rightarrow> None
      | Some (x, rest) \<Rightarrow> map_option (\<lambda>(xs, r). (x # xs, r)) (read_items dec n rest))"

locale stream_codec =
  fixes enc :: "'a \<Rightarrow> bytes"
    and dec :: "bytes \<Rightarrow> ('a \<times> bytes) option"
    and ok :: "'a \<Rightarrow> bool"
  assumes dec_enc: "ok a \<Longrightarrow> dec (enc a @ rest) = Some (a, rest)"
begin

lemma enc_inj: "ok a \<Longrightarrow> ok b \<Longrightarrow> enc a = enc b \<Longrightarrow> a = b"
  by (metis dec_enc option.inject prod.inject)

lemma enc_prefix_free: "ok a \<Longrightarrow> ok b \<Longrightarrow> enc a @ r = enc b @ s \<Longrightarrow> a = b \<and> r = s"
  by (metis dec_enc option.inject prod.inject)

lemma read_items_concat:
  "list_all ok xs \<Longrightarrow> read_items dec (length xs) (concat (map enc xs) @ rest) = Some (xs, rest)"
  by (induction xs) (auto simp: dec_enc)

lemma concat_enc_inj:
  assumes "list_all ok xs" "list_all ok ys" "length xs = length ys"
    and "concat (map enc xs) = concat (map enc ys)"
  shows "xs = ys"
  by (metis assms read_items_concat option.inject prod.inject)

end

subsection \<open>Incremental consumers\<close>

text \<open>
  A consumer is fed pieces of its input and emits output as it goes. Feeding a list of pieces
  threads the state and concatenates the output.
\<close>

fun feed_pieces :: "('s \<Rightarrow> 'i list \<Rightarrow> 's \<times> 'o list) \<Rightarrow> 's \<Rightarrow> 'i list list \<Rightarrow> 's \<times> 'o list" where
  "feed_pieces feed s [] = (s, [])"
| "feed_pieces feed s (p # ps) =
     (let (s1, o1) = feed s p; (s2, o2) = feed_pieces feed s1 ps in (s2, o1 @ o2))"

text \<open>\<open>inv s rest\<close>: in state \<open>s\<close> the consumer may be fed \<open>rest\<close>, in any pieces.\<close>

locale incremental =
  fixes feed :: "'s \<Rightarrow> 'i list \<Rightarrow> 's \<times> 'o list"
    and inv :: "'s \<Rightarrow> 'i list \<Rightarrow> bool"
  assumes feed_Nil: "inv s [] \<Longrightarrow> feed s [] = (s, [])"
    and feed_append: "inv s (a @ b) \<Longrightarrow>
      feed s (a @ b) = (let (s1, o1) = feed s a; (s2, o2) = feed s1 b in (s2, o1 @ o2))"
    and feed_inv: "inv s (a @ b) \<Longrightarrow> inv (fst (feed s a)) b"
begin

lemma feed_pieces_concat: "inv s (concat ps) \<Longrightarrow> feed_pieces feed s ps = feed s (concat ps)"
proof (induction ps arbitrary: s)
  case Nil
  then show ?case by (simp add: feed_Nil)
next
  case (Cons p ps)
  then have inv: "inv s (p @ concat ps)" by simp
  then have "feed_pieces feed (fst (feed s p)) ps = feed (fst (feed s p)) (concat ps)"
    using Cons.IH feed_inv by blast
  then show ?case
    using feed_append [OF inv] by (simp add: split_def Let_def)
qed

lemma pieces_irrelevant:
  "inv s (concat ps) \<Longrightarrow> concat ps = concat qs \<Longrightarrow> feed_pieces feed s ps = feed_pieces feed s qs"
  by (simp add: feed_pieces_concat)

end

subsection \<open>Transition systems with an inductive invariant\<close>

text \<open>A component driven by operations: \<open>run_ops\<close> applies a list of them in order.\<close>

definition run_ops :: "('op \<Rightarrow> 's \<Rightarrow> 's) \<Rightarrow> 'op list \<Rightarrow> 's \<Rightarrow> 's" where
  "run_ops apply_op ops s = foldl (\<lambda>t x. apply_op x t) s ops"

lemma run_ops_simps [simp]:
  "run_ops f [] s = s"
  "run_ops f (x # xs) s = run_ops f xs (f x s)"
  "run_ops f (xs @ ys) s = run_ops f ys (run_ops f xs s)"
  by (simp_all add: run_ops_def)

locale op_system =
  fixes apply_op :: "'op \<Rightarrow> 's \<Rightarrow> 's"
    and inv :: "'s \<Rightarrow> bool"
    and allowed :: "'op \<Rightarrow> bool"
  assumes op_inv: "allowed x \<Longrightarrow> inv s \<Longrightarrow> inv (apply_op x s)"
begin

lemma run_inv: "list_all allowed xs \<Longrightarrow> inv s \<Longrightarrow> inv (run_ops apply_op xs s)"
  by (induction xs arbitrary: s) (auto intro: op_inv)

end

text \<open>
  A system with a relation that every operation respects, such as "the epoch does not decrease"
  or "a terminal status is kept": it relates any state of a run to every later one.
\<close>

locale monotone_system = op_system +
  fixes rel :: "'s \<Rightarrow> 's \<Rightarrow> bool"
  assumes rel_refl: "rel s s"
    and rel_trans: "rel s t \<Longrightarrow> rel t u \<Longrightarrow> rel s u"
    and op_rel: "allowed x \<Longrightarrow> inv s \<Longrightarrow> rel s (apply_op x s)"
begin

lemma run_rel: "list_all allowed xs \<Longrightarrow> inv s \<Longrightarrow> rel s (run_ops apply_op xs s)"
proof (induction xs arbitrary: s)
  case Nil
  then show ?case by (simp add: rel_refl)
next
  case (Cons x xs)
  then have "rel s (apply_op x s)" and "rel (apply_op x s) (run_ops apply_op xs (apply_op x s))"
    by (auto intro: op_rel op_inv)
  then show ?case using rel_trans by auto
qed

end

subsection \<open>Exclusive ownership\<close>

text \<open>
  A system that grants authority by keys stamped with an epoch: a key authorizes only at the
  system's own epoch, and a key that starts to authorize is stamped later than the epoch it was
  granted in. The clients rely on what follows: a key once lost is lost for good.
\<close>

locale ownership =
  fixes step :: "'op \<Rightarrow> 's \<Rightarrow> 's"
    and auth :: "'s \<Rightarrow> 'k \<Rightarrow> bool"
    and epoch :: "'s \<Rightarrow> nat"
    and key_epoch :: "'k \<Rightarrow> nat"
  assumes auth_epoch: "auth s k \<Longrightarrow> key_epoch k = epoch s"
    and epoch_mono: "epoch s \<le> epoch (step x s)"
    and auth_new: "\<not> auth s k \<Longrightarrow> auth (step x s) k \<Longrightarrow> epoch s < key_epoch k"

sublocale ownership \<subseteq> monotone_system step "\<lambda>_. True" "\<lambda>_. True" "\<lambda>s t. epoch s \<le> epoch t"
  by unfold_locales (auto intro: epoch_mono)

context ownership
begin

lemma run_epoch_mono: "epoch s \<le> epoch (run_ops step xs s)"
  by (rule run_rel) (simp_all add: list_all_iff)

lemma lost_for_good: "key_epoch k \<le> epoch s \<Longrightarrow> \<not> auth s k \<Longrightarrow> \<not> auth (run_ops step xs s) k"
proof (induction xs arbitrary: s)
  case Nil
  then show ?case by simp
next
  case (Cons x xs)
  have "\<not> auth (step x s) k"
    using Cons.prems auth_new leD by blast
  moreover have "key_epoch k \<le> epoch (step x s)"
    using Cons.prems(1) epoch_mono le_trans by blast
  ultimately show ?case
    using Cons.IH by simp
qed

lemma held_throughout:
  assumes "key_epoch k \<le> epoch s" and "auth (run_ops step (xs @ ys) s) k"
  shows "auth (run_ops step xs s) k"
proof (rule ccontr)
  assume "\<not> auth (run_ops step xs s) k"
  moreover have "key_epoch k \<le> epoch (run_ops step xs s)"
    using assms(1) run_epoch_mono le_trans by blast
  ultimately show False
    using assms(2) lost_for_good by simp
qed

lemma superseded: "auth s k \<Longrightarrow> epoch s < epoch t \<Longrightarrow> \<not> auth t k"
  using auth_epoch [of s k] auth_epoch [of t k] by auto

end

subsection \<open>Checked counters\<close>

text \<open>A counter whose successor is the next number or, at the end of its range, nothing.\<close>

locale checked_counter =
  fixes val :: "'c \<Rightarrow> nat"
    and succ :: "'c \<Rightarrow> 'c option"
  assumes val_inj: "val a = val b \<Longrightarrow> a = b"
    and succ_val: "succ a = Some b \<Longrightarrow> val b = Suc (val a)"
begin

lemma succ_neq: "succ a = Some b \<Longrightarrow> a \<noteq> b"
  using succ_val by force

lemma succ_unique: "succ a = Some b \<Longrightarrow> val c = Suc (val a) \<Longrightarrow> c = b"
  by (simp add: succ_val val_inj)

lemma succ_inj: "succ a = Some c \<Longrightarrow> succ b = Some c \<Longrightarrow> a = b"
  using succ_val [of a c] succ_val [of b c] by (simp add: val_inj)

end

end
