(* ===== verification/Std_Text.thy ===== *)
theory Std_Text
  imports Prelude
begin

text \<open>
  The parts of Rust's \<open>str\<close> the sources use, on byte lists: UTF-8 validation, lossy decoding and
  iteration over characters (as code points), ASCII classes, white space, and the integer
  parsers \<open>parse::<u32>()\<close>, \<open>parse::<u64>()\<close> and \<open>parse::<i32>()\<close>.
\<close>

subsection \<open>UTF-8\<close>

definition cont_byte :: "u8 \<Rightarrow> bool" where
  "cont_byte b \<longleftrightarrow> 128 \<le> b \<and> b \<le> 191"

text \<open>
  The first character of a non-empty byte string: whether it is a well-formed UTF-8 sequence,
  and how many bytes it (or the maximal ill-formed prefix) takes.
\<close>

definition utf8_second_ok :: "u8 \<Rightarrow> u8 \<Rightarrow> bool" where
  "utf8_second_ok b c \<longleftrightarrow>
     (if b = 224 then 160 \<le> c \<and> c \<le> 191
      else if b = 237 then 128 \<le> c \<and> c \<le> 159
      else if b = 240 then 144 \<le> c \<and> c \<le> 191
      else if b = 244 then 128 \<le> c \<and> c \<le> 143
      else cont_byte c)"

definition utf8_width :: "u8 \<Rightarrow> nat" where
  "utf8_width b =
     (if b < 128 then 1 else if 194 \<le> b \<and> b \<le> 223 then 2
      else if 224 \<le> b \<and> b \<le> 239 then 3 else if 240 \<le> b \<and> b \<le> 244 then 4 else 0)"

fun utf8_tail :: "nat \<Rightarrow> nat \<Rightarrow> bytes \<Rightarrow> bool \<times> nat" where
  "utf8_tail taken 0 bs = (True, taken)"
| "utf8_tail taken (Suc n) [] = (False, taken)"
| "utf8_tail taken (Suc n) (c # cs) =
     (if cont_byte c then utf8_tail (Suc taken) n cs else (False, taken))"

fun utf8_step :: "u8 \<Rightarrow> bytes \<Rightarrow> bool \<times> nat" where
  "utf8_step b rest =
     (if utf8_width b = 0 then (False, 1)
      else if utf8_width b = 1 then (True, 1)
      else (case rest of
              [] \<Rightarrow> (False, 1)
            | c # cs \<Rightarrow> if utf8_second_ok b c then utf8_tail 2 (utf8_width b - 2) cs
                       else (False, 1)))"

fun utf8_valid :: "bytes \<Rightarrow> bool" where
  "utf8_valid [] = True"
| "utf8_valid (b # bs) =
     (fst (utf8_step b bs) \<and> utf8_valid (drop (snd (utf8_step b bs) - 1) bs))"

definition utf8_replacement :: bytes where
  "utf8_replacement = [239, 191, 189]"

text \<open>\<open>String::from_utf8_lossy\<close>: each maximal ill-formed prefix becomes U+FFFD.\<close>

fun utf8_lossy :: "bytes \<Rightarrow> bytes" where
  "utf8_lossy [] = []"
| "utf8_lossy (b # bs) =
     (if fst (utf8_step b bs) then b # take (snd (utf8_step b bs) - 1) bs else utf8_replacement)
     @ utf8_lossy (drop (snd (utf8_step b bs) - 1) bs)"

fun utf8_code :: "bytes \<Rightarrow> nat" where
  "utf8_code [b] = unat b"
| "utf8_code [b, c] = unat b mod 32 * 64 + unat c mod 64"
| "utf8_code [b, c, d] = unat b mod 16 * 4096 + unat c mod 64 * 64 + unat d mod 64"
| "utf8_code [b, c, d, e] =
     unat b mod 8 * 262144 + unat c mod 64 * 4096 + unat d mod 64 * 64 + unat e mod 64"
| "utf8_code bs = 0"

text \<open>\<open>str::chars\<close>, as code points.\<close>

fun utf8_chars :: "bytes \<Rightarrow> nat list" where
  "utf8_chars [] = []"
| "utf8_chars (b # bs) =
     utf8_code (b # take (snd (utf8_step b bs) - 1) bs)
     # utf8_chars (drop (snd (utf8_step b bs) - 1) bs)"

lemma utf8_lossy_valid: "utf8_valid bs \<Longrightarrow> utf8_lossy bs = bs"
  by (induction bs rule: utf8_valid.induct) (auto simp del: utf8_step.simps)

lemma utf8_step_ascii [simp]: "b < 128 \<Longrightarrow> utf8_step b bs = (True, 1)"
  by (simp add: utf8_width_def)

lemma utf8_valid_ascii: "\<forall>b \<in> set bs. b < 128 \<Longrightarrow> utf8_valid bs"
  by (induction bs) (auto simp del: utf8_step.simps)

lemma utf8_chars_ascii: "\<forall>b \<in> set bs. b < 128 \<Longrightarrow> utf8_chars bs = map unat bs"
  by (induction bs) (auto simp del: utf8_step.simps)

declare utf8_step.simps [simp del]

subsection \<open>Character classes\<close>

definition is_digit :: "u8 \<Rightarrow> bool" where
  "is_digit b \<longleftrightarrow> 48 \<le> b \<and> b \<le> 57"

text \<open>\<open>char::is_whitespace\<close>: the code points with the property White\_Space.\<close>

definition is_whitespace :: "nat \<Rightarrow> bool" where
  "is_whitespace c \<longleftrightarrow>
     9 \<le> c \<and> c \<le> 13 \<or> c \<in> {32, 133, 160, 5760, 8232, 8233, 8239, 8287, 12288}
     \<or> 8192 \<le> c \<and> c \<le> 8202"

definition is_ascii_alnum :: "nat \<Rightarrow> bool" where
  "is_ascii_alnum c \<longleftrightarrow> 48 \<le> c \<and> c \<le> 57 \<or> 65 \<le> c \<and> c \<le> 90 \<or> 97 \<le> c \<and> c \<le> 122"

subsection \<open>Integer parsing\<close>

definition digits_val :: "bytes \<Rightarrow> nat" where
  "digits_val ds = foldl (\<lambda>n d. n * 10 + (unat d - 48)) 0 ds"

text \<open>
  \<open>str::parse\<close> for an unsigned type with maximum \<open>mx\<close>: an optional plus sign, then one or more
  ASCII digits whose value fits.
\<close>

definition parse_digits :: "nat \<Rightarrow> bytes \<Rightarrow> nat option" where
  "parse_digits mx ds =
     (if ds = [] \<or> \<not> list_all is_digit ds \<or> mx < digits_val ds then None
      else Some (digits_val ds))"

definition parse_uint :: "nat \<Rightarrow> bytes \<Rightarrow> nat option" where
  "parse_uint mx s = parse_digits mx (case s of b # bs \<Rightarrow> if b = 43 then bs else s | [] \<Rightarrow> [])"

text \<open>\<open>parse::<i32>()\<close>.\<close>

definition parse_i32 :: "bytes \<Rightarrow> int option" where
  "parse_i32 s =
     (case s of
        b # bs \<Rightarrow> if b = 45 then map_option (\<lambda>n. - int n) (parse_digits (2 ^ 31) bs)
                  else map_option int (parse_uint (2 ^ 31 - 1) s)
      | [] \<Rightarrow> None)"

text \<open>Decimal rendering of a natural number, as \<open>Display\<close> writes an unsigned integer.\<close>

fun show_nat :: "nat \<Rightarrow> bytes" where
  "show_nat n = (if n < 10 then [of_nat (48 + n)] else show_nat (n div 10) @ [of_nat (48 + n mod 10)])"

declare show_nat.simps [simp del]

lemma digits_val_snoc: "digits_val (ds @ [d]) = digits_val ds * 10 + (unat d - 48)"
  by (simp add: digits_val_def)

lemma unat_digit: "n < 10 \<Longrightarrow> unat (of_nat (48 + n) :: u8) = 48 + n"
  by (simp add: unat_of_nat_u8 del: of_nat_add)

lemma is_digit_of_nat: "n < 10 \<Longrightarrow> is_digit (of_nat (48 + n))"
  unfolding is_digit_def word_le_nat_alt
  by (simp add: unat_of_nat_u8 del: of_nat_add)

lemma show_nat_digits: "list_all is_digit (show_nat n)"
  by (induction n rule: show_nat.induct)
     (subst show_nat.simps, auto simp: is_digit_of_nat simp del: of_nat_add)

lemma show_nat_nonempty: "show_nat n \<noteq> []"
  by (subst show_nat.simps) simp

lemma digits_val_show_nat: "digits_val (show_nat n) = n"
proof (induction n rule: show_nat.induct)
  case (1 n)
  show ?case
  proof (cases "n < 10")
    case True
    then show ?thesis
      by (subst show_nat.simps) (simp add: digits_val_def unat_digit del: of_nat_add)
  next
    case False
    with "1" show ?thesis
      by (subst show_nat.simps) (simp add: digits_val_snoc unat_digit del: of_nat_add)
  qed
qed

lemma length_show_nat: "n < 10 ^ Suc k \<Longrightarrow> length (show_nat n) \<le> Suc k"
proof (induction k arbitrary: n)
  case 0
  then show ?case by (subst show_nat.simps) simp
next
  case (Suc k)
  show ?case
  proof (cases "n < 10")
    case False
    have "n div 10 < 10 ^ Suc k" using Suc.prems by (simp add: less_mult_imp_div_less)
    then show ?thesis using Suc.IH False by (subst show_nat.simps) simp
  qed (subst show_nat.simps, simp)
qed

lemma parse_digits_show_nat: "n \<le> mx \<Longrightarrow> parse_digits mx (show_nat n) = Some n"
  using show_nat_digits show_nat_nonempty by (simp add: parse_digits_def digits_val_show_nat)

lemma show_nat_head: "\<exists>b bs. show_nat n = b # bs \<and> is_digit b"
  using show_nat_digits [of n] show_nat_nonempty [of n] by (cases "show_nat n") auto

lemma parse_uint_show_nat: "n \<le> mx \<Longrightarrow> parse_uint mx (show_nat n) = Some n"
  using show_nat_head [of n] parse_digits_show_nat [of n mx]
  by (auto simp: parse_uint_def is_digit_def)

lemma parse_i32_show_nat: "n < 2 ^ 31 \<Longrightarrow> parse_i32 (show_nat n) = Some (int n)"
  using show_nat_head [of n] parse_uint_show_nat [of n "2 ^ 31 - 1"]
  by (auto simp: parse_i32_def is_digit_def)

end
