(* ===== verification/Ids.thy ===== *)
theory Ids
  imports Std_Text
begin

text \<open>
  The identifiers of \<open>src/src/model/ids.rs\<close>, and the event kinds of
  \<open>src/src/model/event.rs\<close>, which share their dotted grammar: run ids, generations, session
  and namespace names, annotation sources, process identities, epoch timestamps and kinds, with
  the validation each constructor applies. A UUID is the list of its 16 bytes; the version
  number, which the \<open>uuid\<close> crate computes, is the parameter \<open>ver\<close>.
\<close>

subsection \<open>Run ids\<close>

datatype run_id = RunId (run_uuid: bytes)

definition from_v7 :: "(bytes \<Rightarrow> nat) \<Rightarrow> bytes \<Rightarrow> run_id option" where
  "from_v7 ver uuid = (if ver uuid = 7 then Some (RunId uuid) else None)"

text \<open>Deserialization: the error carries the version found.\<close>

definition deserialize_run_id :: "(bytes \<Rightarrow> nat) \<Rightarrow> bytes \<Rightarrow> nat + run_id" where
  "deserialize_run_id ver uuid = (if ver uuid \<noteq> 7 then Inl (ver uuid) else Inr (RunId uuid))"

definition run_id_ok :: "(bytes \<Rightarrow> nat) \<Rightarrow> run_id \<Rightarrow> bool" where
  "run_id_ok ver r \<longleftrightarrow> length (run_uuid r) = 16 \<and> ver (run_uuid r) = 7"

lemma from_v7_Some: "from_v7 ver u = Some r \<longleftrightarrow> ver u = 7 \<and> r = RunId u"
  by (auto simp: from_v7_def)

lemma from_v7_ok [simp]: "run_id_ok ver r \<Longrightarrow> from_v7 ver (run_uuid r) = Some r"
  by (simp add: from_v7_def run_id_ok_def)

subsection \<open>Generations\<close>

datatype generation = Generation (generation_u64: u64)

definition first_generation :: generation where
  "first_generation = Generation 1"

definition generation_from_u64 :: "u64 \<Rightarrow> generation" where
  "generation_from_u64 n = (if n = 0 then first_generation else Generation n)"

definition next_generation :: "generation \<Rightarrow> generation" where
  "next_generation g = Generation (saturating_succ (generation_u64 g))"

definition deserialize_generation :: "u64 \<Rightarrow> generation option" where
  "deserialize_generation n = (if n = 0 then None else Some (Generation n))"

subsection \<open>Session and namespace names\<close>

datatype name_error = NameEmpty | NameTooLong | NameContainsSlash | NameContainsDot
  | NameContainsWhitespace | NameStartsWithUnderscore

datatype session_name = SessionName (session_str: bytes)
datatype namespace = Namespace (namespace_str: bytes)

definition max_session_name_len :: nat where "max_session_name_len = 255"
definition max_namespace_len :: nat where "max_namespace_len = 255"

definition validate_session_name :: "bytes \<Rightarrow> name_error + unit" where
  "validate_session_name name =
     (if name = [] then Inl NameEmpty
      else if max_session_name_len < length name then Inl NameTooLong
      else if 47 \<in> set name then Inl NameContainsSlash
      else if 46 \<in> set name then Inl NameContainsDot
      else if list_ex is_whitespace (utf8_chars name) then Inl NameContainsWhitespace
      else if starts_with [95] name then Inl NameStartsWithUnderscore
      else Inr ())"

definition new_session_name :: "bytes \<Rightarrow> name_error + session_name" where
  "new_session_name name =
     (case validate_session_name name of Inl e \<Rightarrow> Inl e | Inr _ \<Rightarrow> Inr (SessionName name))"

definition validate_namespace :: "bytes \<Rightarrow> name_error + unit" where
  "validate_namespace name =
     (if name = [] then Inl NameEmpty
      else if max_namespace_len < length name then Inl NameTooLong
      else if 47 \<in> set name then Inl NameContainsSlash
      else if 46 \<in> set name then Inl NameContainsDot
      else if list_ex is_whitespace (utf8_chars name) then Inl NameContainsWhitespace
      else if starts_with [95] name then Inl NameStartsWithUnderscore
      else Inr ())"

definition new_namespace :: "bytes \<Rightarrow> name_error + namespace" where
  "new_namespace name =
     (case validate_namespace name of Inl e \<Rightarrow> Inl e | Inr _ \<Rightarrow> Inr (Namespace name))"

definition default_namespace :: namespace where
  "default_namespace = Namespace (ascii ''default'')"

lemma validate_session_name_Inr:
  "validate_session_name name = Inr u \<longleftrightarrow>
     name \<noteq> [] \<and> length name \<le> 255 \<and> 47 \<notin> set name \<and> 46 \<notin> set name
     \<and> \<not> list_ex is_whitespace (utf8_chars name) \<and> \<not> starts_with [95] name"
  by (auto simp: validate_session_name_def max_session_name_len_def)

lemma new_session_name_Inr:
  "new_session_name name = Inr s \<longleftrightarrow> validate_session_name name = Inr () \<and> s = SessionName name"
  by (auto simp: new_session_name_def split: sum.splits)

subsection \<open>The dotted grammar of sources and kinds\<close>

fun contains_sub :: "'a list \<Rightarrow> 'a list \<Rightarrow> bool" where
  "contains_sub p [] = (p = [])"
| "contains_sub p (x # xs) = (starts_with p (x # xs) \<or> contains_sub p xs)"

datatype dotted_error = DottedEmpty | DottedTooLong | DottedInvalidChar nat | DottedNoDot
  | DottedEmptySegment

datatype source_error = SourceGrammar dotted_error | SourceReservedPrefix

datatype source_id = Source (source_str: bytes)

definition max_source_len :: nat where "max_source_len = 128"

definition source_char :: "nat \<Rightarrow> bool" where
  "source_char c \<longleftrightarrow> is_ascii_alnum c \<or> c = 46 \<or> c = 45"

definition ends_with_byte :: "u8 \<Rightarrow> bytes \<Rightarrow> bool" where
  "ends_with_byte b s \<longleftrightarrow> s \<noteq> [] \<and> last s = b"

definition validate_source_grammar :: "bytes \<Rightarrow> dotted_error + unit" where
  "validate_source_grammar s =
     (if s = [] then Inl DottedEmpty
      else if max_source_len < length s then Inl DottedTooLong
      else (case find (\<lambda>c. \<not> source_char c) (utf8_chars s) of
              Some c \<Rightarrow> Inl (DottedInvalidChar c)
            | None \<Rightarrow>
                if 46 \<notin> set s then Inl DottedNoDot
                else if starts_with [46] s \<or> ends_with_byte 46 s \<or> contains_sub [46, 46] s
                then Inl DottedEmptySegment
                else Inr ()))"

definition tendr_prefix :: bytes where
  "tendr_prefix = ascii ''tendr.''"

text \<open>User input (\<open>Source::new\<close>), internal call sites (\<open>Source::trusted\<close>), stored records.\<close>

definition new_source :: "bytes \<Rightarrow> source_error + source_id" where
  "new_source s =
     (case validate_source_grammar s of
        Inl e \<Rightarrow> Inl (SourceGrammar e)
      | Inr _ \<Rightarrow> if starts_with tendr_prefix s then Inl SourceReservedPrefix else Inr (Source s))"

definition trusted_source :: "bytes \<Rightarrow> source_error + source_id" where
  "trusted_source s =
     (case validate_source_grammar s of
        Inl e \<Rightarrow> Inl (SourceGrammar e)
      | Inr _ \<Rightarrow> Inr (Source s))"

definition deserialize_source :: "bytes \<Rightarrow> dotted_error + source_id" where
  "deserialize_source s =
     (case validate_source_grammar s of Inl e \<Rightarrow> Inl e | Inr _ \<Rightarrow> Inr (Source s))"

datatype kind_error = KindGrammar dotted_error | KindReservedPrefix bytes

datatype event_kind = Kind (kind_str: bytes)

definition max_kind_len :: nat where "max_kind_len = 128"

definition kind_char :: "nat \<Rightarrow> bool" where
  "kind_char c \<longleftrightarrow> is_ascii_alnum c \<or> c = 46 \<or> c = 45 \<or> c = 95"

definition reserved_kind_prefixes :: "bytes list" where
  "reserved_kind_prefixes =
     map ascii [''run.'', ''log.'', ''exec.'', ''session.'', ''pty.'', ''callback.'', ''segment.'',
       ''cursor.'', ''tendr.'']"

definition validate_kind_grammar :: "bytes \<Rightarrow> dotted_error + unit" where
  "validate_kind_grammar s =
     (if s = [] then Inl DottedEmpty
      else if max_kind_len < length s then Inl DottedTooLong
      else (case find (\<lambda>c. \<not> kind_char c) (utf8_chars s) of
              Some c \<Rightarrow> Inl (DottedInvalidChar c)
            | None \<Rightarrow>
                if 46 \<notin> set s then Inl DottedNoDot
                else if starts_with [46] s \<or> ends_with_byte 46 s \<or> contains_sub [46, 46] s
                then Inl DottedEmptySegment
                else Inr ()))"

definition new_kind :: "bytes \<Rightarrow> kind_error + event_kind" where
  "new_kind s =
     (case validate_kind_grammar s of Inl e \<Rightarrow> Inl (KindGrammar e) | Inr _ \<Rightarrow> Inr (Kind s))"

definition new_user_kind :: "bytes \<Rightarrow> kind_error + event_kind" where
  "new_user_kind s =
     (case validate_kind_grammar s of
        Inl e \<Rightarrow> Inl (KindGrammar e)
      | Inr _ \<Rightarrow>
          (case find (\<lambda>p. starts_with p s) reserved_kind_prefixes of
             Some p \<Rightarrow> Inl (KindReservedPrefix p)
           | None \<Rightarrow> Inr (Kind s)))"

subsection \<open>Process identities and epoch timestamps\<close>

record process_identity =
  pid :: u32
  start_time_ns :: u64

definition already_exited :: "u32 \<Rightarrow> process_identity" where
  "already_exited p = \<lparr>pid = p, start_time_ns = 0\<rparr>"

datatype epoch_timestamp = EpochTimestamp (epoch_secs: u64)

definition serialize_epoch :: "epoch_timestamp \<Rightarrow> bytes" where
  "serialize_epoch t = show_nat (unat (epoch_secs t))"

definition epoch_visit_u64 :: "u64 \<Rightarrow> epoch_timestamp" where
  "epoch_visit_u64 v = EpochTimestamp v"

definition epoch_visit_str :: "bytes \<Rightarrow> epoch_timestamp option" where
  "epoch_visit_str s =
     map_option (\<lambda>n. EpochTimestamp (of_nat n)) (parse_uint (2 ^ 64 - 1) s)"

subsection \<open>The grammar in terms of segments\<close>

text \<open>No empty segment: neither end is a dot and no two dots are adjacent.\<close>

lemma split_on_Cons_cases:
  obtains f fs where "split_on s xs = f # fs"
  by (cases "split_on s xs") auto

lemma two_starts [simp]: "starts_with [a, b] (x # xs) \<longleftrightarrow> x = a \<and> starts_with [b] xs"
  by (auto simp: starts_with_def)

lemma one_starts [simp]: "starts_with [a] (x # xs) \<longleftrightarrow> x = a" "\<not> starts_with [a] []"
  by (auto simp: starts_with_def)

lemma hd_split_empty: "hd (split_on s xs) = [] \<longleftrightarrow> xs = [] \<or> starts_with [s] xs"
  by (cases xs) (auto split: list.splits)

lemma tl_split_empty:
  "[] \<in> set (tl (split_on s xs)) \<longleftrightarrow> xs \<noteq> [] \<and> last xs = s \<or> contains_sub [s, s] xs"
proof (induction xs)
  case Nil
  then show ?case by simp
next
  case (Cons x xs)
  obtain f fs where f: "split_on s xs = f # fs" by (rule split_on_Cons_cases)
  have "f = [] \<longleftrightarrow> xs = [] \<or> starts_with [s] xs"
    using hd_split_empty [of s xs] f by simp
  with Cons f show ?case by auto
qed

lemma no_empty_segment:
  "xs \<noteq> [] \<Longrightarrow>
     [] \<in> set (split_on s xs) \<longleftrightarrow> starts_with [s] xs \<or> last xs = s \<or> contains_sub [s, s] xs"
  using tl_split_empty [of s xs] hd_split_empty [of s xs]
  by (cases "split_on s xs") auto

lemma two_segments: "s \<in> set xs \<longleftrightarrow> 2 \<le> length (split_on s xs)"
  by (induction xs) (auto split: list.splits)

lemma validate_source_grammar_iff:
  "validate_source_grammar s = Inr () \<longleftrightarrow>
     length s \<le> 128 \<and> list_all source_char (utf8_chars s)
     \<and> 2 \<le> length (split_on 46 s) \<and> [] \<notin> set (split_on 46 s)"
proof (cases "s = []")
  case False
  then show ?thesis
    using no_empty_segment [OF False, of 46] two_segments [of 46 s]
    by (auto simp: validate_source_grammar_def max_source_len_def ends_with_byte_def find_None_iff
        list_all_iff split: option.splits dest: find_SomeD)
qed (simp add: validate_source_grammar_def)

lemma validate_kind_grammar_iff:
  "validate_kind_grammar s = Inr () \<longleftrightarrow>
     length s \<le> 128 \<and> list_all kind_char (utf8_chars s)
     \<and> 2 \<le> length (split_on 46 s) \<and> [] \<notin> set (split_on 46 s)"
proof (cases "s = []")
  case False
  then show ?thesis
    using no_empty_segment [OF False, of 46] two_segments [of 46 s]
    by (auto simp: validate_kind_grammar_def max_kind_len_def ends_with_byte_def find_None_iff
        list_all_iff split: option.splits dest: find_SomeD)
qed (simp add: validate_kind_grammar_def)

lemma epoch_roundtrip: "epoch_visit_str (serialize_epoch t) = Some t"
proof -
  have "unat (epoch_secs t) \<le> 2 ^ 64 - 1"
    using unsigned_less [of "epoch_secs t", where ?'a = nat] by simp
  then show ?thesis
    by (cases t) (simp add: epoch_visit_str_def serialize_epoch_def parse_uint_show_nat)
qed

lemma next_generation_nonzero:
  "generation_u64 g \<noteq> 0 \<Longrightarrow> generation_u64 (next_generation g) \<noteq> 0"
  using saturating_succ_ge [of "generation_u64 g"]
  by (auto simp: next_generation_def)

end
