(* ===== verification/Pty_Control.thy ===== *)
theory Pty_Control
  imports Interfaces Ids
begin

text \<open>
  The PTY input controller of \<open>src/src/model/pty_control.rs\<close>: who may write to a PTY, and what a
  write acknowledgement means. The arbiter, its handles and requests are records; each \<open>&mut self\<close>
  method returns its result with the new state. Sizes (\<open>usize\<close>, the length of a \<open>Vec\<close>) are
  naturals. The PTY is a sink that answers each nonblocking write attempt from a script, which
  is the environment's choice, and logs the bytes it took.
\<close>

subsection \<open>Types\<close>

datatype controller_epoch = ControllerEpoch (epoch_get: u64)
datatype holder_id = HolderId (holder_get: u64)
datatype request_id = RequestId (request_get: u64)

datatype controller_kind = Human | Agent

datatype controller_state = Unowned controller_epoch
  | Owned controller_epoch holder_id controller_kind

record handle_key =
  key_run :: run_id
  key_epoch :: controller_epoch
  key_holder :: holder_id

record controller_handle =
  handle_key :: handle_key
  handle_kind :: controller_kind

datatype stale_reason = RunMismatch | StaleUnowned | EpochMismatch | HolderMismatch

datatype control_error = Busy holder_id controller_kind controller_epoch | Stale stale_reason
  | EpochExhausted

record takeover_result =
  takeover_handle :: controller_handle
  takeover_retired :: "(holder_id \<times> controller_kind) option"

datatype incomplete_reason = NotAuthorized stale_reason | DeadlineExceeded | SinkClosed
  | SinkFailed error_kind

datatype input_outcome = Accepted request_id controller_epoch nat
  | Incomplete request_id controller_epoch nat nat incomplete_reason

record pending_input =
  req_id :: request_id
  req_key :: handle_key
  req_kind :: controller_kind
  req_bytes :: bytes
  req_accepted :: nat
  req_outcome :: "input_outcome option"

datatype write_step_result = StepPending | StepDone input_outcome

record input_arbiter =
  arb_run :: run_id
  arb_state :: controller_state

definition epoch_zero :: controller_epoch where
  "epoch_zero = ControllerEpoch 0"

definition next_epoch :: "controller_epoch \<Rightarrow> control_error + controller_epoch" where
  "next_epoch e =
     (case checked_succ (epoch_get e) of None \<Rightarrow> Inl EpochExhausted | Some n \<Rightarrow> Inr (ControllerEpoch n))"

fun state_epoch :: "controller_state \<Rightarrow> controller_epoch" where
  "state_epoch (Unowned e) = e"
| "state_epoch (Owned e h k) = e"

subsection \<open>Requests\<close>

text \<open>\<open>PendingInput::new\<close>: None is \<open>InputError::Empty\<close>.\<close>

definition new_pending :: "request_id \<Rightarrow> controller_handle \<Rightarrow> bytes \<Rightarrow> pending_input option" where
  "new_pending rid h bs =
     (if bs = [] then None
      else Some \<lparr>req_id = rid, req_key = handle_key h, req_kind = handle_kind h, req_bytes = bs,
                 req_accepted = 0, req_outcome = None\<rparr>)"

definition finish_incomplete :: "incomplete_reason \<Rightarrow> pending_input \<Rightarrow> input_outcome \<times> pending_input" where
  "finish_incomplete reason p =
     (case req_outcome p of
        Some done \<Rightarrow> (done, p)
      | None \<Rightarrow>
          let verdict = Incomplete (req_id p) (key_epoch (req_key p)) (req_accepted p)
                (length (req_bytes p)) reason
          in (verdict, p\<lparr>req_outcome := Some verdict\<rparr>))"

definition expire :: "pending_input \<Rightarrow> input_outcome \<times> pending_input" where
  "expire p = finish_incomplete DeadlineExceeded p"

text \<open>Its two debug assertions hold at the only call, \<open>write_step_asserts\<close> below.\<close>

definition record_written :: "nat \<Rightarrow> pending_input \<Rightarrow> pending_input" where
  "record_written n p =
     (let q = p\<lparr>req_accepted := req_accepted p + n\<rparr>
      in if req_accepted q = length (req_bytes q)
         then q\<lparr>req_outcome := Some (Accepted (req_id q) (key_epoch (req_key q)) (req_accepted q))\<rparr>
         else q)"

subsection \<open>The arbiter\<close>

definition resume_arbiter :: "run_id \<Rightarrow> controller_state \<Rightarrow> input_arbiter" where
  "resume_arbiter r s = \<lparr>arb_run = r, arb_state = s\<rparr>"

definition new_arbiter :: "run_id \<Rightarrow> input_arbiter" where
  "new_arbiter r = resume_arbiter r (Unowned epoch_zero)"

definition own :: "controller_epoch \<Rightarrow> holder_id \<Rightarrow> controller_kind \<Rightarrow> input_arbiter
    \<Rightarrow> controller_handle \<times> input_arbiter" where
  "own e h k a =
     (\<lparr>handle_key = \<lparr>key_run = arb_run a, key_epoch = e, key_holder = h\<rparr>, handle_kind = k\<rparr>,
      a\<lparr>arb_state := Owned e h k\<rparr>)"

definition claim :: "holder_id \<Rightarrow> controller_kind \<Rightarrow> input_arbiter
    \<Rightarrow> (control_error + controller_handle) \<times> input_arbiter" where
  "claim h k a =
     (case arb_state a of
        Owned e owner owner_kind \<Rightarrow> (Inl (Busy owner owner_kind e), a)
      | Unowned e \<Rightarrow>
          (case next_epoch e of
             Inl err \<Rightarrow> (Inl err, a)
           | Inr e' \<Rightarrow> let (hd, a') = own e' h k a in (Inr hd, a')))"

definition takeover :: "holder_id \<Rightarrow> input_arbiter
    \<Rightarrow> (control_error + takeover_result) \<times> input_arbiter" where
  "takeover h a =
     (case next_epoch (state_epoch (arb_state a)) of
        Inl err \<Rightarrow> (Inl err, a)
      | Inr e' \<Rightarrow>
          let retired = (case arb_state a of Unowned e \<Rightarrow> None | Owned e owner k \<Rightarrow> Some (owner, k));
              (hd, a') = own e' h Human a
          in (Inr \<lparr>takeover_handle = hd, takeover_retired = retired\<rparr>, a'))"

definition stale_reason :: "handle_key \<Rightarrow> input_arbiter \<Rightarrow> stale_reason option" where
  "stale_reason key a =
     (if key_run key \<noteq> arb_run a then Some RunMismatch
      else (case arb_state a of
              Unowned e \<Rightarrow> Some StaleUnowned
            | Owned e h k \<Rightarrow>
                if e \<noteq> key_epoch key then Some EpochMismatch
                else if h \<noteq> key_holder key then Some HolderMismatch
                else None))"

definition authorize :: "handle_key \<Rightarrow> input_arbiter \<Rightarrow> control_error + unit" where
  "authorize key a = (case stale_reason key a of None \<Rightarrow> Inr () | Some r \<Rightarrow> Inl (Stale r))"

definition release_handle :: "controller_handle \<Rightarrow> input_arbiter \<Rightarrow> (control_error + unit) \<times> input_arbiter"
where
  "release_handle h a =
     (case authorize (handle_key h) a of
        Inl e \<Rightarrow> (Inl e, a)
      | Inr _ \<Rightarrow> (Inr (), a\<lparr>arb_state := Unowned (key_epoch (handle_key h))\<rparr>))"

subsection \<open>The sink and the write step\<close>

text \<open>
  One nonblocking write attempt on the PTY master. A byte count says how many bytes of the
  offered prefix the kernel took. \<open>write(2)\<close> never returns a count beyond the buffer; such an
  answer, which the write step refuses, is taken to deliver nothing. With no answer left the
  buffer is full.
\<close>

record pty_sink =
  script :: "io_answer list"
  delivered :: bytes

definition try_write :: "bytes \<Rightarrow> pty_sink \<Rightarrow> io_answer \<times> pty_sink" where
  "try_write bs s =
     (case script s of
        [] \<Rightarrow> (WriteError WouldBlock, s)
      | ans # rest \<Rightarrow>
          (ans, s\<lparr>script := rest,
                  delivered := delivered s @
                    (case ans of WroteBytes n \<Rightarrow> if n \<le> length bs then take n bs else []
                               | WriteError e \<Rightarrow> [])\<rparr>))"

definition write_step :: "input_arbiter \<Rightarrow> pending_input \<Rightarrow> pty_sink
    \<Rightarrow> write_step_result \<times> pending_input \<times> pty_sink" where
  "write_step a p s =
     (case req_outcome p of
        Some verdict \<Rightarrow> (StepDone verdict, p, s)
      | None \<Rightarrow>
     (case stale_reason (req_key p) a of
        Some r \<Rightarrow> (let (verdict, p') = finish_incomplete (NotAuthorized r) p in (StepDone verdict, p', s))
      | None \<Rightarrow>
          let remaining = length (req_bytes p) - req_accepted p;
              (ans, s') = try_write (drop (req_accepted p) (req_bytes p)) s;
              finish = (\<lambda>r. let (verdict, p') = finish_incomplete r p in (StepDone verdict, p', s'))
          in (case ans of
                WroteBytes n \<Rightarrow>
                  if n = 0 then finish SinkClosed
                  else if remaining < n then finish (SinkFailed InvalidData)
                  else (let p' = record_written n p
                        in (case req_outcome p' of
                              None \<Rightarrow> (StepPending, p', s')
                            | Some verdict \<Rightarrow> (StepDone verdict, p', s')))
              | WriteError e \<Rightarrow>
                  if e = WouldBlock \<or> e = Interrupted then (StepPending, p, s')
                  else finish (SinkFailed e))))"

lemmas arbiter_defs [arbiter_simps] =
  claim_def takeover_def release_handle_def authorize_def own_def stale_reason_def

subsection \<open>Ownership\<close>

datatype arbiter_op = OpClaim holder_id controller_kind | OpTakeover holder_id
  | OpRelease controller_handle

fun apply_arbiter :: "arbiter_op \<Rightarrow> input_arbiter \<Rightarrow> input_arbiter" where
  "apply_arbiter (OpClaim h k) a = snd (claim h k a)"
| "apply_arbiter (OpTakeover h) a = snd (takeover h a)"
| "apply_arbiter (OpRelease h) a = snd (release_handle h a)"

definition authorizes :: "input_arbiter \<Rightarrow> handle_key \<Rightarrow> bool" where
  "authorizes a key \<longleftrightarrow> stale_reason key a = None"

definition epoch_of :: "input_arbiter \<Rightarrow> nat" where
  "epoch_of a = unat (epoch_get (state_epoch (arb_state a)))"

definition epoch_of_key :: "handle_key \<Rightarrow> nat" where
  "epoch_of_key key = unat (epoch_get (key_epoch key))"

lemma authorizes_iff:
  "authorizes a key \<longleftrightarrow>
     key_run key = arb_run a \<and> (\<exists>k. arb_state a = Owned (key_epoch key) (key_holder key) k)"
  by (auto simp: authorizes_def stale_reason_def split: controller_state.splits)

lemma arb_run_kept [simp]: "arb_run (apply_arbiter x a) = arb_run a"
  by (cases x) (auto simp: arbiter_simps Let_def split: controller_state.splits sum.splits)

lemma next_epoch_Inr: "next_epoch e = Inr e' \<Longrightarrow> unat (epoch_get e') = Suc (unat (epoch_get e))"
  by (auto simp: next_epoch_def checked_succ_Some split: option.splits)

lemma arbiter_epoch_mono: "epoch_of a \<le> epoch_of (apply_arbiter x a)"
  by (cases x; cases "arb_state a")
     (auto simp: arbiter_simps epoch_of_def Let_def split: sum.splits dest!: next_epoch_Inr)

lemma arbiter_auth_new:
  "\<not> authorizes a key \<Longrightarrow> authorizes (apply_arbiter x a) key \<Longrightarrow> epoch_of a < epoch_of_key key"
  by (cases x; cases "arb_state a")
     (auto simp: authorizes_iff arbiter_simps epoch_of_def epoch_of_key_def Let_def
       split: if_splits sum.splits dest!: next_epoch_Inr)

interpretation arbiter: ownership apply_arbiter authorizes epoch_of epoch_of_key
proof unfold_locales
  show "epoch_of_key key = epoch_of a" if "authorizes a key" for a key
    using that by (auto simp: authorizes_iff epoch_of_def epoch_of_key_def)
qed (rule arbiter_epoch_mono, rule arbiter_auth_new)

interpretation epochs: checked_counter "unat \<circ> epoch_get"
  "\<lambda>e. case next_epoch e of Inl err \<Rightarrow> None | Inr e' \<Rightarrow> Some e'"
proof unfold_locales
  show "a = b" if "(unat \<circ> epoch_get) a = (unat \<circ> epoch_get) b" for a b
    using that by (simp add: controller_epoch.expand unsigned_word_eqI)
  show "(unat \<circ> epoch_get) b = Suc ((unat \<circ> epoch_get) a)"
    if "(case next_epoch a of Inl err \<Rightarrow> None | Inr e' \<Rightarrow> Some e') = Some b" for a b
    using that by (auto split: sum.splits dest: next_epoch_Inr)
qed

subsection \<open>Requests and their acknowledgement\<close>

text \<open>
  A well-formed request: not empty, its accepted count within the total, undecided while bytes
  remain, and an outcome that reports exactly what was accepted.
\<close>

fun outcome_exact :: "pending_input \<Rightarrow> input_outcome \<Rightarrow> bool" where
  "outcome_exact p (Accepted r e n) =
     (r = req_id p \<and> e = key_epoch (req_key p) \<and> n = length (req_bytes p) \<and> req_accepted p = n)"
| "outcome_exact p (Incomplete r e acc tot reason) =
     (r = req_id p \<and> e = key_epoch (req_key p) \<and> acc = req_accepted p
      \<and> tot = length (req_bytes p) \<and> acc < tot)"

definition request_ok :: "pending_input \<Rightarrow> bool" where
  "request_ok p \<longleftrightarrow>
     req_accepted p \<le> length (req_bytes p)
     \<and> (case req_outcome p of None \<Rightarrow> req_accepted p < length (req_bytes p)
                          | Some v \<Rightarrow> outcome_exact p v)"

text \<open>What stays the same about a request while it is served.\<close>

definition same_request :: "pending_input \<Rightarrow> pending_input \<Rightarrow> bool" where
  "same_request p q \<longleftrightarrow>
     req_id q = req_id p \<and> req_key q = req_key p \<and> req_kind q = req_kind p \<and> req_bytes q = req_bytes p"

lemma new_pending_ok: "new_pending rid h bs = Some p \<Longrightarrow> request_ok p"
  by (auto simp: new_pending_def request_ok_def split: if_splits)

lemma finish_incomplete_ok:
  assumes "request_ok p" and "finish_incomplete r p = (v, q)"
  shows "request_ok q" and "same_request p q" and "req_accepted q = req_accepted p"
    and "req_outcome q = Some v" and "req_outcome p = Some w \<Longrightarrow> q = p"
  using assms
  by (auto simp: finish_incomplete_def request_ok_def same_request_def Let_def split: option.splits)

lemma record_written_ok:
  assumes "request_ok p" and "req_outcome p = None" and "n \<le> length (req_bytes p) - req_accepted p"
  shows "request_ok (record_written n p)" and "same_request p (record_written n p)"
    and "req_accepted (record_written n p) = req_accepted p + n"
  using assms by (auto simp: record_written_def request_ok_def same_request_def Let_def)

text \<open>The effect of one write step, in one place.\<close>

lemma write_step_decided:
  "req_outcome p = Some v \<Longrightarrow> write_step a p s = (StepDone v, p, s)"
  by (simp add: write_step_def)

lemma write_step_stale:
  "req_outcome p = None \<Longrightarrow> stale_reason (req_key p) a = Some r \<Longrightarrow>
     write_step a p s =
       (let (v, q) = finish_incomplete (NotAuthorized r) p in (StepDone v, q, s))"
  by (simp add: write_step_def)

lemma try_write_delivered:
  "try_write bs s = (ans, s') \<Longrightarrow>
     delivered s' = delivered s @ (case ans of WroteBytes n \<Rightarrow> if n \<le> length bs then take n bs else []
                                             | WriteError e \<Rightarrow> [])"
  by (auto simp: try_write_def split: list.splits)

lemma write_step_effect:
  assumes ok: "request_ok p" and step: "write_step a p s = (res, q, s')"
  shows "request_ok q" (is ?ok) and "same_request p q" (is ?same)
    and "req_accepted p \<le> req_accepted q" (is ?le)
    and "delivered s' = delivered s @ take (req_accepted q - req_accepted p)
           (drop (req_accepted p) (req_bytes p))" (is ?del)
    and "req_accepted q \<noteq> req_accepted p \<Longrightarrow> authorizes a (req_key p)" (is "_ \<Longrightarrow> ?auth")
    and "req_outcome q = (case res of StepPending \<Rightarrow> None | StepDone v \<Rightarrow> Some v)" (is ?out)
proof -
  let ?bs = "drop (req_accepted p) (req_bytes p)"
  have "?ok \<and> ?same \<and> ?le \<and> ?del \<and> (req_accepted q \<noteq> req_accepted p \<longrightarrow> ?auth) \<and> ?out"
  proof (cases "req_outcome p")
    case (Some v)
    with ok step show ?thesis by (auto simp: write_step_decided same_request_def)
  next
    case None
    show ?thesis
    proof (cases "stale_reason (req_key p) a")
      case (Some r)
      obtain v q' where f: "finish_incomplete (NotAuthorized r) p = (v, q')" by fastforce
      with step None Some have "res = StepDone v" "q = q'" "s' = s"
        by (simp_all add: write_step_stale)
      with finish_incomplete_ok [OF ok f] show ?thesis by simp
    next
      case auth: None
      obtain ans t where tw: "try_write ?bs s = (ans, t)" by fastforce
      note del = try_write_delivered [OF tw]
      have finish: ?thesis if "finish_incomplete r p = (v, q)" "res = StepDone v" "s' = t"
          "delivered t = delivered s" for r v
        using finish_incomplete_ok [OF ok that(1)] that by simp
      show ?thesis
      proof (cases ans)
        case (WriteError e)
        show ?thesis
        proof (cases "e = WouldBlock \<or> e = Interrupted")
          case True
          then show ?thesis
            using step None auth tw del WriteError ok
            by (auto simp: write_step_def same_request_def)
        next
          case False
          obtain v q' where f: "finish_incomplete (SinkFailed e) p = (v, q')" by fastforce
          with False show ?thesis
            using step None auth tw del WriteError by (intro finish) (auto simp: write_step_def)
        qed
      next
        case (WroteBytes n)
        consider "n = 0" | "length ?bs < n" | "0 < n" "n \<le> length ?bs" by linarith
        then show ?thesis
        proof cases
          case 1
          obtain v q' where f: "finish_incomplete SinkClosed p = (v, q')" by fastforce
          with 1 show ?thesis
            using step None auth tw del WroteBytes by (intro finish) (auto simp: write_step_def)
        next
          case 2
          obtain v q' where f: "finish_incomplete (SinkFailed InvalidData) p = (v, q')" by fastforce
          with 2 show ?thesis
            using step None auth tw del WroteBytes by (intro finish) (auto simp: write_step_def)
        next
          case 3
          then have r: "req_accepted (record_written n p) = req_accepted p + n"
            and "request_ok (record_written n p)" "same_request p (record_written n p)"
            using record_written_ok [OF ok None] by simp_all
          moreover have "q = record_written n p" "s' = t"
              "req_outcome q = (case res of StepPending \<Rightarrow> None | StepDone v \<Rightarrow> Some v)"
            using 3 step None auth tw WroteBytes
            by (auto simp: write_step_def Let_def split: option.splits)
          ultimately show ?thesis
            using 3 auth del WroteBytes by (auto simp: authorizes_def)
        qed
      qed
    qed
  qed
  then show ?ok ?same ?le ?del ?out "req_accepted q \<noteq> req_accepted p \<Longrightarrow> ?auth"
    by blast+
qed

text \<open>
  The life of one request: ownership changes by anyone, write steps and the caller's deadline, in
  any order, on an arbiter, the request and a sink that answers as it likes.
\<close>

datatype drive_op = DriveControl arbiter_op | DriveWrite | DriveExpire

type_synonym drive_state = "input_arbiter \<times> pending_input \<times> pty_sink"

fun drive :: "drive_op \<Rightarrow> drive_state \<Rightarrow> drive_state" where
  "drive (DriveControl x) (a, p, s) = (apply_arbiter x a, p, s)"
| "drive DriveWrite (a, p, s) = (let (res, p', s') = write_step a p s in (a, p', s'))"
| "drive DriveExpire (a, p, s) = (a, snd (expire p), s)"

text \<open>The request is well-formed and the sink took exactly its accepted prefix after \<open>d\<close>.\<close>

definition exact :: "bytes \<Rightarrow> drive_state \<Rightarrow> bool" where
  "exact d st = (case st of (a, p, s) \<Rightarrow>
     request_ok p \<and> delivered s = d @ take (req_accepted p) (req_bytes p))"

text \<open>How the request moves: its identity stays, its progress and its outcome are only added to.\<close>

definition advances :: "drive_state \<Rightarrow> drive_state \<Rightarrow> bool" where
  "advances st st' = (case (st, st') of ((a, p, s), (a', p', s')) \<Rightarrow>
     same_request p p' \<and> req_accepted p \<le> req_accepted p' \<and> epoch_of a \<le> epoch_of a'
     \<and> (\<forall>v. req_outcome p = Some v \<longrightarrow> p' = p))"

lemma take_plus_diff: "i \<le> j \<Longrightarrow> take i xs @ take (j - i) (drop i xs) = take j xs"
  by (metis le_add_diff_inverse take_add)

lemma drive_exact: "exact d st \<Longrightarrow> exact d (drive x st)"
proof (cases st)
  case (fields a p s)
  assume inv: "exact d st"
  then have ok: "request_ok p" and del: "delivered s = d @ take (req_accepted p) (req_bytes p)"
    by (simp_all add: exact_def fields)
  show ?thesis
  proof (cases x)
    case DriveWrite
    obtain res q t where w: "write_step a p s = (res, q, t)" by (cases "write_step a p s")
    show ?thesis
      using write_step_effect [OF ok w] del
      by (simp add: DriveWrite fields w exact_def take_plus_diff same_request_def)
  next
    case DriveExpire
    obtain v q where f: "finish_incomplete DeadlineExceeded p = (v, q)" by fastforce
    then show ?thesis
      using finish_incomplete_ok [OF ok f] del
      by (simp add: DriveExpire fields exact_def expire_def same_request_def)
  qed (use inv in \<open>simp add: exact_def fields\<close>)
qed

lemma drive_advances: "exact d st \<Longrightarrow> advances st (drive x st)"
proof (cases st)
  case (fields a p s)
  assume "exact d st"
  then have ok: "request_ok p" by (simp add: exact_def fields)
  show ?thesis
  proof (cases x)
    case DriveWrite
    obtain res q t where w: "write_step a p s = (res, q, t)" by (cases "write_step a p s")
    have "q = p" if "req_outcome p = Some v" for v
      using w that by (simp add: write_step_decided)
    then show ?thesis
      using write_step_effect [OF ok w] by (auto simp: DriveWrite fields w advances_def)
  next
    case DriveExpire
    obtain v q where f: "finish_incomplete DeadlineExceeded p = (v, q)" by fastforce
    then show ?thesis
      using finish_incomplete_ok [OF ok f]
      by (auto simp: DriveExpire fields advances_def expire_def)
  qed (simp add: advances_def fields same_request_def arbiter_epoch_mono)
qed

lemma advances_trans: "advances st tt \<Longrightarrow> advances tt uu \<Longrightarrow> advances st uu"
  by (cases st; cases tt; cases uu) (auto simp: advances_def same_request_def)

interpretation request: monotone_system drive "exact d" "\<lambda>_. True" advances for d
proof unfold_locales
  show "advances st st" for st
    by (cases st) (simp add: advances_def same_request_def)
qed (auto intro: drive_exact drive_advances advances_trans)

lemma drive_run_exact: "exact d st \<Longrightarrow> exact d (run_ops drive xs st)"
  by (rule request.run_inv) (simp_all add: list_all_iff)

lemma drive_run_advances: "exact d st \<Longrightarrow> advances st (run_ops drive xs st)"
  by (rule request.run_rel [where d = d]) (simp_all add: list_all_iff)

lemma exact_start: "new_pending rid h bs = Some p \<Longrightarrow> exact (delivered s) (a, p, s)"
  using new_pending_ok [of rid h bs p]
  by (auto simp: exact_def new_pending_def split: if_splits)

text \<open>A request whose key is lost, and whose epoch the arbiter has reached, writes nothing more.\<close>

definition revoked_at :: "handle_key \<Rightarrow> bytes \<Rightarrow> drive_state \<Rightarrow> bool" where
  "revoked_at key d st = (case st of (a, p, s) \<Rightarrow>
     request_ok p \<and> req_key p = key \<and> delivered s = d
     \<and> epoch_of_key key \<le> epoch_of a \<and> \<not> authorizes a key)"

lemma drive_revoked: "revoked_at key d st \<Longrightarrow> revoked_at key d (drive x st)"
proof (cases st)
  case (fields a p s)
  assume inv: "revoked_at key d st"
  then have ok: "request_ok p" and na: "\<not> authorizes a (req_key p)"
    by (simp_all add: revoked_at_def fields)
  show ?thesis
  proof (cases x)
    case (DriveControl y)
    have "\<not> authorizes (apply_arbiter y a) key"
      using inv arbiter.lost_for_good [of key a "[y]"] by (simp add: revoked_at_def fields)
    moreover have "epoch_of_key key \<le> epoch_of (apply_arbiter y a)"
      using inv arbiter_epoch_mono [of a y] by (simp add: revoked_at_def fields)
    ultimately show ?thesis
      using inv by (simp add: revoked_at_def fields DriveControl)
  next
    case DriveWrite
    obtain res q t where w: "write_step a p s = (res, q, t)" by (cases "write_step a p s")
    have "req_accepted q = req_accepted p"
      using write_step_effect(5) [OF ok w] na by blast
    then show ?thesis
      using write_step_effect(1,2,4) [OF ok w] inv
      by (simp add: DriveWrite fields w revoked_at_def same_request_def)
  next
    case DriveExpire
    obtain v q where f: "finish_incomplete DeadlineExceeded p = (v, q)" by fastforce
    then show ?thesis
      using finish_incomplete_ok [OF ok f] inv
      by (simp add: DriveExpire fields revoked_at_def expire_def same_request_def)
  qed
qed

interpretation revoked: op_system drive "revoked_at key d" "\<lambda>_. True" for key d
  by unfold_locales (rule drive_revoked)

text \<open>How many ownership grants a run of operations makes.\<close>

fun grants :: "arbiter_op \<Rightarrow> input_arbiter \<Rightarrow> bool" where
  "grants (OpClaim h k) a = (case claim h k a of (Inr nh, a') \<Rightarrow> True | _ \<Rightarrow> False)"
| "grants (OpTakeover h) a = (case takeover h a of (Inr t, a') \<Rightarrow> True | _ \<Rightarrow> False)"
| "grants (OpRelease h) a = False"

fun count_grants :: "arbiter_op list \<Rightarrow> input_arbiter \<Rightarrow> nat" where
  "count_grants [] a = 0"
| "count_grants (x # xs) a = (if grants x a then 1 else 0) + count_grants xs (apply_arbiter x a)"

lemma grant_epoch: "epoch_of (apply_arbiter x a) = epoch_of a + (if grants x a then 1 else 0)"
  by (cases x; cases "arb_state a")
     (auto simp: arbiter_simps epoch_of_def Let_def split: sum.splits dest!: next_epoch_Inr)

lemma count_grants_epoch: "epoch_of (run_ops apply_arbiter xs a) = epoch_of a + count_grants xs a"
  by (induction xs arbitrary: a) (simp_all add: grant_epoch)

lemma no_grant_state:
  "\<not> grants x a \<Longrightarrow> arb_state (apply_arbiter x a) \<noteq> arb_state a \<Longrightarrow>
     arb_state (apply_arbiter x a) = Unowned (state_epoch (arb_state a))"
  by (cases x; cases "arb_state a")
     (auto simp: arbiter_simps Let_def split: sum.splits if_splits)

lemma claim_authorizes: "claim h k a = (Inr nh, a') \<Longrightarrow> authorizes a' (handle_key nh)"
  by (auto simp: authorizes_iff arbiter_simps Let_def split: controller_state.splits sum.splits)

lemma takeover_authorizes:
  "takeover h a = (Inr t, a') \<Longrightarrow> authorizes a' (handle_key (takeover_handle t))"
  by (auto simp: authorizes_iff arbiter_simps Let_def split: controller_state.splits sum.splits)

lemma takeover_epoch: "takeover h a = (Inr t, a') \<Longrightarrow> epoch_of a < epoch_of a'"
  using grant_epoch [of "OpTakeover h" a] by simp

text \<open>Progress: how much a request still needs.\<close>

definition left_to_write :: "pending_input \<Rightarrow> nat" where
  "left_to_write p = (if req_outcome p = None then length (req_bytes p) - req_accepted p else 0)"

definition taking :: "pty_sink \<Rightarrow> bool" where
  "taking s = list_all (\<lambda>x. case x of WroteBytes n \<Rightarrow> 0 < n | WriteError e \<Rightarrow> False) (script s)"

lemma left_to_write_zero: "request_ok p \<Longrightarrow> left_to_write p = 0 \<longleftrightarrow> req_outcome p \<noteq> None"
  by (auto simp: left_to_write_def request_ok_def)

lemma finish_left: "request_ok p \<Longrightarrow> finish_incomplete r p = (v, q) \<Longrightarrow> left_to_write q = 0"
  using finish_incomplete_ok [of p r v q] by (simp add: left_to_write_def)

lemma taking_step:
  assumes "request_ok p" and "taking s" and "script s \<noteq> []" and "write_step a p s = (res, q, s')"
  shows "taking s' \<and> (left_to_write q = 0 \<or> left_to_write q < left_to_write p
           \<and> length (script s') = length (script s) - 1)"
proof (cases "req_outcome p")
  case (Some v)
  with assms show ?thesis by (auto simp: write_step_decided left_to_write_def)
next
  case None
  obtain n rest where sc: "script s = WroteBytes n # rest" "0 < n" "taking (s\<lparr>script := rest\<rparr>)"
    using assms(2,3) by (cases "script s") (auto simp: taking_def split: io_answer.splits)
  obtain v0 q0 where f0: "finish_incomplete (SinkFailed InvalidData) p = (v0, q0)" by fastforce
  show ?thesis
  proof (cases "stale_reason (req_key p) a")
    case (Some r)
    obtain v q' where "finish_incomplete (NotAuthorized r) p = (v, q')" by fastforce
    with finish_left [OF assms(1) this] assms None Some show ?thesis
      by (auto simp: write_step_stale)
  next
    case auth: None
    show ?thesis
      using assms(4) sc None auth finish_left [OF assms(1) f0] record_written_ok [OF assms(1) None, of n]
      by (auto simp: write_step_def try_write_def f0 taking_def left_to_write_def Let_def
          same_request_def request_ok_def split: if_splits option.splits)
  qed
qed

lemma taking_run:
  "request_ok p \<Longrightarrow> taking s \<Longrightarrow> left_to_write p \<le> length (script s) \<Longrightarrow>
     left_to_write p \<le> n \<Longrightarrow>
     req_outcome (fst (snd (run_ops drive (replicate n DriveWrite) (a, p, s)))) \<noteq> None"
proof (induction n arbitrary: p s)
  case 0
  then show ?case by (simp add: left_to_write_zero)
next
  case (Suc n)
  obtain res q t where w: "write_step a p s = (res, q, t)" by (cases "write_step a p s")
  have ok: "request_ok q" by (rule write_step_effect(1) [OF Suc.prems(1) w])
  show ?case
  proof (cases "left_to_write p = 0")
    case True
    then obtain v where "req_outcome p = Some v"
      using Suc.prems(1) left_to_write_zero by auto
    then have "q = p \<and> t = s" using w by (simp add: write_step_decided)
    then show ?thesis using Suc True w by simp
  next
    case False
    then have "script s \<noteq> []" using Suc.prems(3) by auto
    from taking_step [OF Suc.prems(1,2) this w] Suc.prems(3,4) False
    show ?thesis using Suc.IH [OF ok, of t] w by fastforce
  qed
qed

subsection \<open>Properties\<close>

text \<open>A concrete run for the witnesses: an agent claims the PTY and queues three bytes.\<close>

definition demo_arbiter :: input_arbiter where
  "demo_arbiter = \<lparr>arb_run = RunId [], arb_state = Owned (ControllerEpoch 1) (HolderId 1) Agent\<rparr>"

definition demo_handle :: controller_handle where
  "demo_handle = \<lparr>handle_key = \<lparr>key_run = RunId [], key_epoch = ControllerEpoch 1,
     key_holder = HolderId 1\<rparr>, handle_kind = Agent\<rparr>"

definition demo_request :: pending_input where
  "demo_request = \<lparr>req_id = RequestId 1, req_key = handle_key demo_handle, req_kind = Agent,
     req_bytes = [65, 66, 67], req_accepted = 0, req_outcome = None\<rparr>"

lemmas demo_defs = demo_arbiter_def demo_handle_def demo_request_def

lemma demo_new: "new_pending (RequestId 1) demo_handle [65, 66, 67] = Some demo_request"
  by (simp add: new_pending_def demo_defs)

lemma demo_claim: "claim (HolderId 1) Agent (new_arbiter (RunId [])) = (Inr demo_handle, demo_arbiter)"
  by (simp add: arbiter_simps new_arbiter_def resume_arbiter_def epoch_zero_def next_epoch_def
      checked_succ_def demo_defs)

text \<open>Acknowledgements are exact. Whatever happens between its write steps (claims, takeovers
  and releases by anyone, its own deadline, and any answers of the PTY), the PTY has taken exactly
  the accepted prefix of the request; an \<open>Accepted\<close> outcome means every byte was written, and an
  \<open>Incomplete\<close> one reports exactly how many were, fewer than the total.\<close>

theorem input_ack_exact:
  assumes "new_pending rid h bs = Some p"
    and "run_ops drive xs (a, p, s) = (a', q, s')"
  shows "delivered s' = delivered s @ take (req_accepted q) bs
    \<and> (req_outcome q = Some (Accepted r e n) \<longrightarrow>
         r = rid \<and> n = length bs \<and> delivered s' = delivered s @ bs)
    \<and> (req_outcome q = Some (Incomplete r e acc tot why) \<longrightarrow>
         r = rid \<and> tot = length bs \<and> acc < tot \<and> delivered s' = delivered s @ take acc bs)"
proof -
  have "exact (delivered s) (a', q, s')"
    using drive_run_exact [OF exact_start [OF assms(1), of s a], of xs] assms(2) by simp
  moreover have "same_request p q"
    using drive_run_advances [OF exact_start [OF assms(1), of s a], of xs] assms(2)
    by (simp add: advances_def)
  moreover have "req_bytes p = bs" "req_id p = rid"
    using assms(1) by (auto simp: new_pending_def split: if_splits)
  ultimately show ?thesis
    by (auto simp: exact_def same_request_def request_ok_def)
qed

theorem input_ack_exact_witness:
  "delivered (snd (snd (run_ops drive
      [DriveWrite, DriveControl (OpTakeover (HolderId 2)), DriveWrite]
      (demo_arbiter, demo_request, \<lparr>script = [WroteBytes 2, WroteBytes 1], delivered = [90]\<rparr>))))
    = [90, 65, 66]"
proof -
  let ?s = "\<lparr>script = [WroteBytes 2, WroteBytes 1], delivered = [90]\<rparr>"
  let ?ops = "[DriveWrite, DriveControl (OpTakeover (HolderId 2)), DriveWrite]"
  obtain a' q s' where r: "run_ops drive ?ops (demo_arbiter, demo_request, ?s) = (a', q, s')"
    by (cases "run_ops drive ?ops (demo_arbiter, demo_request, ?s)")
  then have "req_accepted q = 2"
    by (auto simp: demo_defs write_step_def try_write_def stale_reason_def record_written_def
        takeover_def next_epoch_def checked_succ_def own_def finish_incomplete_def Let_def)
  with input_ack_exact [OF demo_new r] r show ?thesis by simp
qed

text \<open>A takeover revokes for good. A request of the superseded controller writes nothing after
  the takeover, however the run goes on (the old holder and anyone else may claim again), and its
  key never authorizes again.\<close>

theorem takeover_revokes:
  assumes "authorizes a (req_key p)" and "request_ok p"
    and "takeover h a = (Inr t, a1)"
    and "run_ops drive xs (a1, p, s) = (a', q, s')"
  shows "delivered s' = delivered s \<and> \<not> authorizes a' (req_key p)"
proof -
  have "revoked_at (req_key p) (delivered s) (a1, p, s)"
    using assms(1-3) arbiter.superseded arbiter.auth_epoch [of a "req_key p"] takeover_epoch [of h a t a1]
    by (auto simp: revoked_at_def)
  then have "revoked_at (req_key p) (delivered s) (run_ops drive xs (a1, p, s))"
    by (intro revoked.run_inv) (simp_all add: list_all_iff)
  with assms(4) show ?thesis by (simp add: revoked_at_def)
qed

theorem takeover_revokes_witness:
  "delivered (snd (snd (run_ops drive [DriveControl (OpClaim (HolderId 1) Agent), DriveWrite, DriveWrite]
      (snd (takeover (HolderId 2) demo_arbiter), demo_request,
       \<lparr>script = [WroteBytes 2, WroteBytes 1], delivered = [90]\<rparr>)))) = [90]"
proof -
  let ?s = "\<lparr>script = [WroteBytes 2, WroteBytes 1], delivered = [90]\<rparr>"
  obtain t a1 where t: "takeover (HolderId 2) demo_arbiter = (Inr t, a1)"
    by (simp add: demo_defs takeover_def next_epoch_def checked_succ_def own_def)
  have auth: "authorizes demo_arbiter (req_key demo_request)"
    by (simp add: authorizes_iff demo_defs)
  obtain a' q s' where r: "run_ops drive [DriveControl (OpClaim (HolderId 1) Agent), DriveWrite,
      DriveWrite] (a1, demo_request, ?s) = (a', q, s')"
    by (cases "run_ops drive [DriveControl (OpClaim (HolderId 1) Agent), DriveWrite, DriveWrite]
        (a1, demo_request, ?s)")
  from takeover_revokes [OF auth new_pending_ok [OF demo_new] t r] r t show ?thesis by simp
qed

text \<open>The epoch counts grants: over any sequence of claims, takeovers and releases it advances by
  exactly the number of ownership grants, so it never decreases or wraps, and an operation that
  fails leaves the arbiter as it was.\<close>

theorem epoch_counts_grants:
  "epoch_of (run_ops apply_arbiter xs a) = epoch_of a + count_grants xs a
   \<and> (claim h k a = (Inl e, a1) \<longrightarrow> a1 = a) \<and> (takeover h a = (Inl e, a2) \<longrightarrow> a2 = a)
   \<and> (release_handle hh a = (Inl e, a3) \<longrightarrow> a3 = a)"
  using count_grants_epoch
  by (auto simp: arbiter_simps Let_def split: controller_state.splits sum.splits if_splits)

theorem epoch_counts_grants_witness:
  "snd (claim (HolderId 2) Human demo_arbiter) = demo_arbiter"
proof -
  have c: "claim (HolderId 2) Human demo_arbiter
      = (Inl (Busy (HolderId 1) Agent (ControllerEpoch 1)), demo_arbiter)"
    by (simp add: demo_defs claim_def)
  with epoch_counts_grants [THEN conjunct2, THEN conjunct1, rule_format, OF c] show ?thesis by simp
qed

text \<open>A handle authorizes exactly from its grant until the next grant or its release: after
  any sequence of operations it authorizes if and only if the controller state is still the one
  its own claim made, and no two grants of a run ever issue the same key.\<close>

theorem handle_authorizes_iff_current:
  assumes "claim h k a = (Inr nh, a1)"
  shows "(authorizes (run_ops apply_arbiter xs a1) (handle_key nh)
      \<longleftrightarrow> arb_state (run_ops apply_arbiter xs a1) = arb_state a1)
    \<and> (claim h' k' (run_ops apply_arbiter xs a1) = (Inr nh', a2) \<longrightarrow>
         handle_key nh' \<noteq> handle_key nh)
    \<and> (takeover h' (run_ops apply_arbiter xs a1) = (Inr t, a3) \<longrightarrow>
         handle_key (takeover_handle t) \<noteq> handle_key nh)" (is "?iff \<and> ?claim \<and> ?takeover")
proof -
  let ?b = "run_ops apply_arbiter xs a1"
  have auth: "authorizes a1 (handle_key nh)" by (rule claim_authorizes [OF assms])
  then have ek: "epoch_of_key (handle_key nh) = epoch_of a1" by (rule arbiter.auth_epoch)
  have mono: "epoch_of a1 \<le> epoch_of ?b" by (rule arbiter.run_epoch_mono)
  have run: "arb_run ?b = arb_run a1"
    by (induction xs arbitrary: a1) simp_all
  have ?iff
  proof
    assume "arb_state ?b = arb_state a1"
    with auth run show "authorizes ?b (handle_key nh)" by (simp add: authorizes_iff)
  next
    assume b: "authorizes ?b (handle_key nh)"
    have "arb_state (run_ops apply_arbiter ys a1) = arb_state a1"
      if "authorizes (run_ops apply_arbiter ys a1) (handle_key nh)" for ys
      using that
    proof (induction ys rule: rev_induct)
      case (snoc y ys)
      let ?c = "run_ops apply_arbiter ys a1"
      have c: "authorizes ?c (handle_key nh)"
        using arbiter.held_throughout [of "handle_key nh" a1 ys "[y]"] snoc.prems ek by simp
      have "epoch_of (apply_arbiter y ?c) = epoch_of ?c"
        using arbiter.auth_epoch [OF c] arbiter.auth_epoch [OF snoc.prems] by simp
      then have "\<not> grants y ?c" using grant_epoch [of y ?c] by (auto split: if_splits)
      then have "arb_state (apply_arbiter y ?c) = arb_state ?c"
        using no_grant_state [of y ?c] snoc.prems by (fastforce simp: authorizes_iff)
      with snoc.IH [OF c] show ?case by simp
    qed simp
    from this [OF b] show "arb_state ?b = arb_state a1" .
  qed
  moreover have ?claim
    using arbiter.auth_epoch [OF claim_authorizes] ek mono grant_epoch [of "OpClaim h' k'" ?b] by force
  moreover have ?takeover
    using arbiter.auth_epoch [OF takeover_authorizes] ek mono takeover_epoch [of h' ?b t a3] by force
  ultimately show ?thesis by blast
qed

theorem handle_authorizes_iff_current_witness:
  "\<not> authorizes (run_ops apply_arbiter [OpRelease demo_handle] demo_arbiter) (handle_key demo_handle)"
  unfolding handle_authorizes_iff_current [OF demo_claim, THEN conjunct1]
  by (simp add: demo_defs release_handle_def authorize_def stale_reason_def)

text \<open>A write makes progress: when the PTY takes at least one byte per attempt, a request is
  decided after at most as many write steps as it has bytes, whoever owns the PTY.\<close>

theorem write_decided_in_bounded_steps:
  assumes "new_pending rid h bs = Some p" and "taking s" and "length bs \<le> length (script s)"
  shows "req_outcome (fst (snd (run_ops drive (replicate (length bs) DriveWrite) (a, p, s)))) \<noteq> None"
proof (rule taking_run [OF new_pending_ok [OF assms(1)] assms(2)])
  have "left_to_write p \<le> length bs"
    using assms(1) by (auto simp: new_pending_def left_to_write_def split: if_splits)
  then show "left_to_write p \<le> length (script s)" "left_to_write p \<le> length bs"
    using assms(3) by simp_all
qed

theorem write_decided_in_bounded_steps_witness:
  "req_outcome (fst (snd (run_ops drive (replicate (length [65, 66, 67 :: u8]) DriveWrite)
     (demo_arbiter, demo_request, \<lparr>script = replicate 3 (WroteBytes 1), delivered = []\<rparr>)))) \<noteq> None"
  by (rule write_decided_in_bounded_steps [OF demo_new]) (simp_all add: taking_def numeral_3_eq_3)

end
