(* ===== verification/Recording_Types.thy ===== *)
theory Recording_Types
  imports Ids Interfaces
begin

text \<open>
  The data of a PTY recording (\<open>src/src/recording.rs\<close>): geometry, sequence numbers, \<open>TERM\<close> names,
  records and segment headers, with the rules their constructors enforce. The types are those of
  the source; \<open>geometry_ok\<close>, \<open>term_ok\<close> and \<open>record_ok\<close> say what a \<open>NonZero\<close> field or a checked
  constructor guarantees.
\<close>

text \<open>Terminal dimensions: both are at least one.\<close>

datatype geometry = Geometry (geo_rows: u16) (geo_cols: u16)

definition new_geometry :: "u16 \<Rightarrow> u16 \<Rightarrow> geometry option" where
  "new_geometry r c = (if r = 0 \<or> c = 0 then None else Some (Geometry r c))"

definition geometry_ok :: "geometry \<Rightarrow> bool" where
  "geometry_ok g \<longleftrightarrow> geo_rows g \<noteq> 0 \<and> geo_cols g \<noteq> 0"

lemma new_geometry_ok [simp]: "geometry_ok g \<Longrightarrow> new_geometry (geo_rows g) (geo_cols g) = Some g"
  by (simp add: new_geometry_def geometry_ok_def)

lemma new_geometry_Some: "new_geometry r c = Some g \<Longrightarrow> geometry_ok g \<and> geo_rows g = r \<and> geo_cols g = c"
  by (auto simp: new_geometry_def geometry_ok_def split: if_splits)

text \<open>A record's position in the run, from one.\<close>

datatype sequence = Sequence (seq_get: u64)

definition first_sequence :: sequence where
  "first_sequence = Sequence 1"

definition new_sequence :: "u64 \<Rightarrow> sequence option" where
  "new_sequence v = (if v = 0 then None else Some (Sequence v))"

definition next_sequence :: "sequence \<Rightarrow> sequence option" where
  "next_sequence s = map_option Sequence (checked_succ (seq_get s))"

lemma next_sequence_val: "next_sequence s = Some t \<Longrightarrow> unat (seq_get t) = Suc (unat (seq_get s))"
  by (auto simp: next_sequence_def checked_succ_Some)

lemma new_sequence_Some: "new_sequence v = Some s \<longleftrightarrow> v \<noteq> 0 \<and> s = Sequence v"
  by (auto simp: new_sequence_def)

interpretation sequences: checked_counter "unat \<circ> seq_get" next_sequence
proof unfold_locales
  show "a = b" if "(unat \<circ> seq_get) a = (unat \<circ> seq_get) b" for a b
    using that by (simp add: sequence.expand unsigned_word_eqI)
qed (simp add: next_sequence_val)

text \<open>The child's \<open>TERM\<close>: at most 256 bytes, each in 0x21 to 0x7E.\<close>

datatype term_name = TermName (term_bytes: bytes)

datatype term_name_error = TermTooLong | TermInvalidByte

definition max_term_len :: nat where "max_term_len = 256"

definition term_byte :: "u8 \<Rightarrow> bool" where
  "term_byte b \<longleftrightarrow> 33 \<le> b \<and> b \<le> 126"

definition new_term_name :: "bytes \<Rightarrow> term_name_error + term_name" where
  "new_term_name v =
     (if max_term_len < length v then Inl TermTooLong
      else if \<not> list_all term_byte v then Inl TermInvalidByte
      else Inr (TermName v))"

definition term_ok :: "term_name \<Rightarrow> bool" where
  "term_ok t \<longleftrightarrow> length (term_bytes t) \<le> 256 \<and> list_all term_byte (term_bytes t)"

lemma new_term_name_ok [simp]: "term_ok t \<Longrightarrow> new_term_name (term_bytes t) = Inr t"
  by (simp add: new_term_name_def term_ok_def max_term_len_def)

lemma new_term_name_Inr: "new_term_name v = Inr t \<Longrightarrow> term_ok t \<and> term_bytes t = v"
  by (auto simp: new_term_name_def term_ok_def max_term_len_def split: if_splits)

text \<open>Records. A repaint correlation is non-zero.\<close>

datatype resize_cause = CauseUser | CauseRepaint u32

datatype record_kind = Output bytes | Resize geometry resize_cause | Input bytes

record rec =
  rec_sequence :: sequence
  rec_elapsed :: u64
  rec_kind :: record_kind

record segment_header =
  hdr_run_id :: run_id
  hdr_index :: u32
  hdr_first :: sequence
  hdr_origin :: u64
  hdr_geometry :: geometry
  hdr_input :: bool
  hdr_term :: term_name

fun cause_ok :: "resize_cause \<Rightarrow> bool" where
  "cause_ok CauseUser = True"
| "cause_ok (CauseRepaint c) = (c \<noteq> 0)"

fun kind_ok :: "record_kind \<Rightarrow> bool" where
  "kind_ok (Resize g c) = (geometry_ok g \<and> cause_ok c)"
| "kind_ok _ = True"

definition header_ok :: "(bytes \<Rightarrow> nat) \<Rightarrow> segment_header \<Rightarrow> bool" where
  "header_ok ver h \<longleftrightarrow>
     run_id_ok ver (hdr_run_id h) \<and> seq_get (hdr_first h) \<noteq> 0 \<and> geometry_ok (hdr_geometry h)
     \<and> term_ok (hdr_term h)"

end
