(* ===== verification/Pty_Input.thy ===== *)
theory Pty_Input
  imports Pty_Control Recording_Types "HOL-Library.Multiset"
begin

text \<open>
  The single PTY input writer of \<open>src/src/pty_input.rs\<close>: two bounded queues, the thread that owns
  the arbiter and the PTY, and what the senders can do. The state is everything the threads
  share and the writer thread keeps; an event is one critical section of a sender or one stage of
  the writer loop, so a list of events is an interleaving. A reply channel is a number; \<open>replies\<close>
  and \<open>hooks\<close> log what the writer sent on channels and to its \<open>ControlHooks\<close>. The fields
  \<open>granted\<close>, \<open>submitted\<close> and \<open>finished\<close> are history variables: no operation reads them.
\<close>

subsection \<open>Types\<close>

type_synonym chan = nat

datatype trigger = AttachTrigger | TakeoverTrigger

datatype hook = HookHumanControl trigger | HookHumanReleased
  | HookRetire holder_id controller_kind controller_epoch
  | HookInputRevoked controller_kind nat nat

datatype reply = ReplyClaim chan "control_error + controller_handle"
  | ReplyTakeover chan "control_error + takeover_result"
  | ReplyOutcome chan input_outcome
  | ReplyDone chan

datatype control = CtlClaim holder_id controller_kind chan
  | CtlTakeover holder_id chan
  | CtlResize handle_key geometry
  | CtlDisconnect controller_handle

text \<open>A queued request with where to report its outcome.\<close>

type_synonym queued = "pending_input \<times> chan option"

datatype input_item = InWrite queued | InEnd controller_handle "chan option"

definition control_capacity :: nat where "control_capacity = 16"
definition input_capacity :: nat where "input_capacity = 32"

text \<open>Where the writer thread is: waiting for work, or serving what it took off the queues.\<close>

datatype phase = TopOfLoop | Serving "control list" "input_item option"

record writer =
  controls :: "control list"
  inputs :: "input_item list"
  next_holder_id :: u64
  next_request_id :: u64
  arbiter :: input_arbiter
  pty :: pty_sink
  current :: "queued option"
  phase :: phase
  hooks :: "hook list"
  replies :: "reply list"
  resizes :: "geometry list"
  granted :: "controller_handle list"
  submitted :: "queued list"
  finished :: "queued list"

subsection \<open>The senders\<close>

definition spawn_writer :: "run_id \<Rightarrow> pty_sink \<Rightarrow> writer" where
  "spawn_writer r s =
     \<lparr>controls = [], inputs = [], next_holder_id = 1, next_request_id = 1,
      arbiter = new_arbiter r, pty = s, current = None, phase = TopOfLoop,
      hooks = [], replies = [], resizes = [], granted = [], submitted = [], finished = []\<rparr>"

definition next_holder :: "writer \<Rightarrow> holder_id \<times> writer" where
  "next_holder w = (HolderId (next_holder_id w), w\<lparr>next_holder_id := next_holder_id w + 1\<rparr>)"

definition request :: "controller_handle \<Rightarrow> bytes \<Rightarrow> writer \<Rightarrow> pending_input option \<times> writer" where
  "request h bs w =
     (new_pending (RequestId (next_request_id w)) h bs,
      w\<lparr>next_request_id := next_request_id w + 1\<rparr>)"

text \<open>A push into a full queue waits: None, and the state stays.\<close>

definition push_control :: "control \<Rightarrow> writer \<Rightarrow> writer option" where
  "push_control c w =
     (if control_capacity \<le> length (controls w) then None
      else Some (w\<lparr>controls := controls w @ [c]\<rparr>))"

definition push_input :: "input_item \<Rightarrow> writer \<Rightarrow> writer option" where
  "push_input i w =
     (if input_capacity \<le> length (inputs w) then None
      else Some (w\<lparr>inputs := inputs w @ [i],
        submitted := submitted w @ (case i of InWrite q \<Rightarrow> [q] | InEnd h c \<Rightarrow> [])\<rparr>))"

definition claim_request :: "holder_id \<Rightarrow> controller_kind \<Rightarrow> chan \<Rightarrow> writer \<Rightarrow> writer option" where
  "claim_request h k c w = push_control (CtlClaim h k c) w"

definition takeover_request :: "holder_id \<Rightarrow> chan \<Rightarrow> writer \<Rightarrow> writer option" where
  "takeover_request h c w = push_control (CtlTakeover h c) w"

definition resize_request :: "controller_handle \<Rightarrow> geometry \<Rightarrow> writer \<Rightarrow> writer option" where
  "resize_request h g w = push_control (CtlResize (handle_key h) g) w"

text \<open>
  \<open>submit\<close> and \<open>write_nowait\<close> (no channel). The request takes its id before the push waits for
  space, so a waiting sender holds its request: the second component, when nothing was pushed.
\<close>

definition submit :: "controller_handle \<Rightarrow> bytes \<Rightarrow> chan option \<Rightarrow> writer \<Rightarrow> writer \<times> queued option" where
  "submit h bs c w =
     (case request h bs w of
        (None, w1) \<Rightarrow> (w1, None)
      | (Some p, w1) \<Rightarrow>
          (case push_input (InWrite (p, c)) w1 of Some w2 \<Rightarrow> (w2, None) | None \<Rightarrow> (w1, Some (p, c))))"

text \<open>
  \<open>write_nowait_unless\<close>: when the queue is full and \<open>abandon\<close> answers true, nothing is queued and
  the call returns false; otherwise it waits with its request (Inl).
\<close>

definition write_nowait_unless ::
  "controller_handle \<Rightarrow> bytes \<Rightarrow> bool \<Rightarrow> writer \<Rightarrow> writer \<times> (queued + bool)" where
  "write_nowait_unless h bs abandon w =
     (case request h bs w of
        (None, w1) \<Rightarrow> (w1, Inr True)
      | (Some p, w1) \<Rightarrow>
          (case push_input (InWrite (p, None)) w1 of
             Some w2 \<Rightarrow> (w2, Inr True)
           | None \<Rightarrow> if abandon then (w1, Inr False) else (w1, Inl (p, None))))"

definition end_of_input :: "controller_handle \<Rightarrow> chan option \<Rightarrow> writer \<Rightarrow> writer option" where
  "end_of_input h done w = push_input (InEnd h done) w"

definition disconnect_request :: "controller_handle \<Rightarrow> writer \<Rightarrow> writer option" where
  "disconnect_request h w = push_control (CtlDisconnect h) w"

subsection \<open>The writer thread\<close>

definition emit_hooks :: "hook list \<Rightarrow> writer \<Rightarrow> writer" where
  "emit_hooks hs w = w\<lparr>hooks := hooks w @ hs\<rparr>"

definition answer :: "reply list \<Rightarrow> writer \<Rightarrow> writer" where
  "answer rs w = w\<lparr>replies := replies w @ rs\<rparr>"

definition release :: "controller_handle \<Rightarrow> writer \<Rightarrow> writer" where
  "release h w =
     (let (res, a) = release_handle h (arbiter w); w1 = w\<lparr>arbiter := a\<rparr>
      in (case res of
            Inr _ \<Rightarrow> if handle_kind h = Human then emit_hooks [HookHumanReleased] w1 else w1
          | Inl e \<Rightarrow> w1))"

text \<open>\<open>apply_control\<close>; the loop serves a disconnect itself.\<close>

fun apply_control :: "control \<Rightarrow> writer \<Rightarrow> writer" where
  "apply_control (CtlClaim h k c) w =
     (let (res, a) = claim h k (arbiter w); w1 = w\<lparr>arbiter := a\<rparr>;
          w2 = (case res of
                  Inr nh \<Rightarrow> (if handle_kind nh = Human then emit_hooks [HookHumanControl AttachTrigger] w1 else w1)
                              \<lparr>granted := granted w @ [nh]\<rparr>
                | Inl e \<Rightarrow> w1)
      in answer [ReplyClaim c res] w2)"
| "apply_control (CtlTakeover h c) w =
     (let (res, a) = takeover h (arbiter w); w1 = w\<lparr>arbiter := a\<rparr>;
          w2 = (case res of
                  Inr t \<Rightarrow>
                    (let w3 = emit_hooks [HookHumanControl TakeoverTrigger] w1
                     in (case takeover_retired t of
                           Some (old, k) \<Rightarrow>
                             emit_hooks [HookRetire old k (key_epoch (handle_key (takeover_handle t)))] w3
                         | None \<Rightarrow> w3)\<lparr>granted := granted w @ [takeover_handle t]\<rparr>)
                | Inl e \<Rightarrow> w1)
      in answer [ReplyTakeover c res] w2)"
| "apply_control (CtlResize key g) w =
     (case authorize key (arbiter w) of Inr _ \<Rightarrow> w\<lparr>resizes := resizes w @ [g]\<rparr> | Inl e \<Rightarrow> w)"
| "apply_control (CtlDisconnect h) w = w"

fun belongs :: "holder_id \<Rightarrow> input_item \<Rightarrow> bool" where
  "belongs h (InWrite q) = (key_holder (req_key (fst q)) = h)"
| "belongs h (InEnd eh d) = (key_holder (handle_key eh) = h)"

text \<open>Finish one cancelled item, adding what it accepted and its total to the sums.\<close>

fun cancel_item :: "input_item \<Rightarrow> writer \<times> nat \<times> nat \<Rightarrow> writer \<times> nat \<times> nat" where
  "cancel_item (InWrite (p, c)) (w, acc, tot) =
     (let (res, p', s) = write_step (arbiter w) p (pty w);
          w1 = w\<lparr>pty := s, finished := finished w @ [(p', c)]\<rparr>
      in (case res of
            StepPending \<Rightarrow> (w1, acc, tot)
          | StepDone v \<Rightarrow>
              (let w2 = (case c of Some ch \<Rightarrow> answer [ReplyOutcome ch v] w1 | None \<Rightarrow> w1)
               in (case v of
                     Incomplete r e a t why \<Rightarrow> (w2, acc + a, tot + t)
                   | Accepted r e n \<Rightarrow> (w2, acc, tot)))))"
| "cancel_item (InEnd h d) (w, acc, tot) =
     ((case d of Some ch \<Rightarrow> answer [ReplyDone ch] w | None \<Rightarrow> w), acc, tot)"

definition disconnect ::
  "controller_handle \<Rightarrow> input_item option \<Rightarrow> writer \<Rightarrow> writer \<times> input_item option" where
  "disconnect h next_end w =
     (let holder = key_holder (handle_key h);
          w1 = release h w;
          theirs = filter (belongs holder) (inputs w1);
          w2 = w1\<lparr>inputs := filter (\<lambda>i. \<not> belongs holder i) (inputs w1)\<rparr>;
          (ended, next_end') = (case next_end of
             Some i \<Rightarrow> if belongs holder i then ([i], None) else ([], next_end)
           | None \<Rightarrow> ([], None));
          (in_flight, kept) = (case current w2 of
             Some q \<Rightarrow> if belongs holder (InWrite q) then ([InWrite q], None) else ([], Some q)
           | None \<Rightarrow> ([], None));
          w3 = w2\<lparr>current := kept\<rparr>;
          (w4, acc, tot) = fold cancel_item (theirs @ ended @ in_flight) (w3, 0, 0)
      in (if 0 < tot then emit_hooks [HookInputRevoked (handle_kind h) acc tot] w4 else w4, next_end'))"

text \<open>The three stages of an iteration: take work off the queues, serve one control, finish.\<close>

definition dequeue :: "writer \<Rightarrow> writer" where
  "dequeue w =
     (if controls w = [] \<and> inputs w = [] \<and> current w = None then w
      else (let cs = controls w;
                (next, rest) = (if current w = None
                  then (case inputs w of [] \<Rightarrow> (None, []) | i # is \<Rightarrow> (Some i, is))
                  else (None, inputs w));
                w1 = w\<lparr>controls := [], inputs := rest\<rparr>
            in (case next of
                  Some (InWrite q) \<Rightarrow> w1\<lparr>current := Some q, phase := Serving cs None\<rparr>
                | _ \<Rightarrow> w1\<lparr>phase := Serving cs next\<rparr>)))"

definition serve :: "control \<Rightarrow> control list \<Rightarrow> input_item option \<Rightarrow> writer \<Rightarrow> writer" where
  "serve c cs next_end w =
     (case c of
        CtlDisconnect h \<Rightarrow>
          (let (w1, next_end') = disconnect h next_end w in w1\<lparr>phase := Serving cs next_end'\<rparr>)
      | _ \<Rightarrow> (apply_control c w)\<lparr>phase := Serving cs next_end\<rparr>)"

definition finish :: "input_item option \<Rightarrow> writer \<Rightarrow> writer" where
  "finish next_end w =
     (case next_end of
        Some (InEnd h d) \<Rightarrow>
          (let w1 = release h w
           in (case d of Some ch \<Rightarrow> answer [ReplyDone ch] w1 | None \<Rightarrow> w1)\<lparr>phase := TopOfLoop\<rparr>)
      | _ \<Rightarrow>
          (case current w of
             None \<Rightarrow> w\<lparr>phase := TopOfLoop\<rparr>
           | Some (p, c) \<Rightarrow>
               (let (res, p', s) = write_step (arbiter w) p (pty w);
                    w1 = w\<lparr>pty := s, phase := TopOfLoop\<rparr>
                in (case res of
                      StepPending \<Rightarrow> w1\<lparr>current := Some (p', c)\<rparr>
                    | StepDone v \<Rightarrow>
                        (let w2 = w1\<lparr>current := None, finished := finished w @ [(p', c)]\<rparr>;
                             w3 = (case v of
                                     Incomplete r e a t (NotAuthorized why) \<Rightarrow>
                                       emit_hooks [HookInputRevoked (req_kind p') a t] w2
                                   | _ \<Rightarrow> w2)
                         in (case c of Some ch \<Rightarrow> answer [ReplyOutcome ch v] w3 | None \<Rightarrow> w3))))))"

definition writer_runs :: "writer \<Rightarrow> writer" where
  "writer_runs w =
     (case phase w of
        TopOfLoop \<Rightarrow> dequeue w
      | Serving (c # cs) next_end \<Rightarrow> serve c cs next_end w
      | Serving [] next_end \<Rightarrow> finish next_end w)"

subsection \<open>Events and the discipline of the clients\<close>

text \<open>
  An event is one critical section of a sender or one stage of the writer. \<open>EvPush\<close> is a sender
  that had to wait and now finds space. A client claims with a holder id of its own (from
  \<open>next_holder\<close>) until one claim is granted, and uses only handles it was granted: a handle is
  minted by the arbiter and is not \<open>Clone\<close>.
\<close>

datatype writer_event = EvNextHolder
  | EvClaim holder_id controller_kind chan
  | EvTakeover holder_id chan
  | EvResize controller_handle geometry
  | EvSubmit controller_handle bytes "chan option"
  | EvSubmitUnless controller_handle bytes bool
  | EvPush queued
  | EvEnd controller_handle "chan option"
  | EvDisconnect controller_handle
  | EvWriter

fun exec_event :: "writer_event \<Rightarrow> writer \<Rightarrow> writer" where
  "exec_event EvNextHolder w = snd (next_holder w)"
| "exec_event (EvClaim h k c) w = case_option w id (claim_request h k c w)"
| "exec_event (EvTakeover h c) w = case_option w id (takeover_request h c w)"
| "exec_event (EvResize h g) w = case_option w id (resize_request h g w)"
| "exec_event (EvSubmit h bs c) w = fst (submit h bs c w)"
| "exec_event (EvSubmitUnless h bs ab) w = fst (write_nowait_unless h bs ab w)"
| "exec_event (EvPush q) w = case_option w id (push_input (InWrite q) w)"
| "exec_event (EvEnd h d) w = case_option w id (end_of_input h d w)"
| "exec_event (EvDisconnect h) w = case_option w id (disconnect_request h w)"
| "exec_event EvWriter w = writer_runs w"

fun claimant :: "control \<Rightarrow> holder_id list" where
  "claimant (CtlClaim h k c) = [h]"
| "claimant (CtlTakeover h c) = [h]"
| "claimant _ = []"

fun serving :: "phase \<Rightarrow> control list" where
  "serving TopOfLoop = []"
| "serving (Serving cs n) = cs"

fun staged :: "phase \<Rightarrow> input_item list" where
  "staged TopOfLoop = []"
| "staged (Serving cs n) = (case n of Some i \<Rightarrow> [i] | None \<Rightarrow> [])"

definition claimants :: "writer \<Rightarrow> holder_id list" where
  "claimants w = concat (map claimant (serving (phase w) @ controls w))"

definition holder_of :: "controller_handle \<Rightarrow> holder_id" where
  "holder_of h = key_holder (handle_key h)"

definition holders :: "writer \<Rightarrow> holder_id list" where
  "holders w = map holder_of (granted w) @ claimants w"

definition fresh_request :: "pending_input \<Rightarrow> bool" where
  "fresh_request p \<longleftrightarrow> req_accepted p = 0 \<and> req_outcome p = None \<and> req_bytes p \<noteq> []"

fun client_ok :: "writer_event \<Rightarrow> writer \<Rightarrow> bool" where
  "client_ok (EvClaim h k c) w \<longleftrightarrow> h \<notin> set (holders w)"
| "client_ok (EvTakeover h c) w \<longleftrightarrow> h \<notin> set (holders w)"
| "client_ok (EvResize h g) w \<longleftrightarrow> h \<in> set (granted w)"
| "client_ok (EvSubmit h bs c) w \<longleftrightarrow> h \<in> set (granted w)"
| "client_ok (EvSubmitUnless h bs ab) w \<longleftrightarrow> h \<in> set (granted w)"
| "client_ok (EvPush q) w \<longleftrightarrow>
     fresh_request (fst q) \<and> req_key (fst q) \<in> handle_key ` set (granted w)"
| "client_ok (EvEnd h d) w \<longleftrightarrow> h \<in> set (granted w)"
| "client_ok (EvDisconnect h) w \<longleftrightarrow> h \<in> set (granted w)"
| "client_ok _ w \<longleftrightarrow> True"

definition writer_step :: "writer_event \<Rightarrow> writer \<Rightarrow> writer" where
  "writer_step e w = (if client_ok e w then exec_event e w else w)"

definition writer_run :: "run_id \<Rightarrow> pty_sink \<Rightarrow> writer_event list \<Rightarrow> writer" where
  "writer_run r s es = run_ops writer_step es (spawn_writer r s)"

subsection \<open>What a cancellation does\<close>

fun item_key :: "input_item \<Rightarrow> handle_key" where
  "item_key (InWrite q) = req_key (fst q)"
| "item_key (InEnd h d) = handle_key h"

fun undecided :: "input_item \<Rightarrow> bool" where
  "undecided (InWrite q) \<longleftrightarrow> request_ok (fst q) \<and> req_outcome (fst q) = None"
| "undecided (InEnd h d) \<longleftrightarrow> True"

text \<open>A request stopped because its key does not authorize, and what its sender is told.\<close>

definition revoke :: "input_arbiter \<Rightarrow> queued \<Rightarrow> queued" where
  "revoke a q =
     (let p = fst q; r = the (stale_reason (req_key p) a)
      in (p\<lparr>req_outcome := Some (Incomplete (req_id p) (key_epoch (req_key p)) (req_accepted p)
            (length (req_bytes p)) (NotAuthorized r))\<rparr>, snd q))"

fun revoked_requests :: "input_arbiter \<Rightarrow> input_item \<Rightarrow> queued list" where
  "revoked_requests a (InWrite q) = [revoke a q]"
| "revoked_requests a (InEnd h d) = []"

fun cancel_answer :: "input_arbiter \<Rightarrow> input_item \<Rightarrow> reply list" where
  "cancel_answer a (InWrite q) =
     (case snd q of None \<Rightarrow> [] | Some ch \<Rightarrow> [ReplyOutcome ch (the (req_outcome (fst (revoke a q))))])"
| "cancel_answer a (InEnd h d) = (case d of None \<Rightarrow> [] | Some ch \<Rightarrow> [ReplyDone ch])"

fun item_accepted :: "input_item \<Rightarrow> nat" where
  "item_accepted (InWrite q) = req_accepted (fst q)"
| "item_accepted (InEnd h d) = 0"

fun item_total :: "input_item \<Rightarrow> nat" where
  "item_total (InWrite q) = length (req_bytes (fst q))"
| "item_total (InEnd h d) = 0"

lemma write_step_revokes:
  "req_outcome p = None \<Longrightarrow> \<not> authorizes a (req_key p) \<Longrightarrow>
     write_step a p s =
       (StepDone (the (req_outcome (fst (revoke a (p, c))))), fst (revoke a (p, c)), s)"
  by (auto simp: write_step_def authorizes_def finish_incomplete_def revoke_def Let_def)

lemma cancel_item_revokes:
  assumes "undecided i" and "\<not> authorizes (arbiter w) (item_key i)"
  shows "cancel_item i (w, acc, tot) =
     (w\<lparr>finished := finished w @ revoked_requests (arbiter w) i,
        replies := replies w @ cancel_answer (arbiter w) i\<rparr>,
      acc + item_accepted i, tot + item_total i)"
proof (cases i)
  case (InWrite q)
  obtain p c where q: "q = (p, c)" by (cases q)
  show ?thesis
    using assms write_step_revokes [of p "arbiter w" "pty w" c]
    by (cases c) (auto simp: InWrite q answer_def revoke_def Let_def)
qed (auto simp: answer_def split: option.splits)

lemma cancel_all:
  assumes "list_all undecided is" and "\<forall>i\<in>set is. \<not> authorizes (arbiter w) (item_key i)"
  shows "fold cancel_item is (w, acc, tot) =
     (w\<lparr>finished := finished w @ concat (map (revoked_requests (arbiter w)) is),
        replies := replies w @ concat (map (cancel_answer (arbiter w)) is)\<rparr>,
      acc + sum_list (map item_accepted is), tot + sum_list (map item_total is))"
  using assms
proof (induction "is" arbitrary: w acc tot)
  case (Cons i rest)
  then show ?case by (simp add: cancel_item_revokes)
qed simp

end
