(* ===== verification/Pty_Input_Inv.thy ===== *)
theory Pty_Input_Inv
  imports Pty_Input
begin

text \<open>
  The invariant of the PTY input writer of theory \<open>Pty_Input\<close> and its properties: bounded queues,
  exact delivery in the order requests are served, one answer for every request, a disconnect that
  leaves nothing of its holder behind, and takeovers that no full PTY can delay.
\<close>

subsection \<open>Vocabulary\<close>

definition flight :: "queued option \<Rightarrow> queued list" where
  "flight c = (case c of Some q \<Rightarrow> [q] | None \<Rightarrow> [])"

lemma flight_simps [simp]: "flight None = []" "flight (Some q) = [q]"
  by (simp_all add: flight_def)

fun writes :: "input_item list \<Rightarrow> queued list" where
  "writes [] = []"
| "writes (InWrite q # is) = q # writes is"
| "writes (InEnd h d # is) = writes is"

lemma writes_append [simp]: "writes (xs @ ys) = writes xs @ writes ys"
  by (induction xs rule: writes.induct) simp_all

lemma writes_map [simp]: "writes (map InWrite qs) = qs"
  by (induction qs) simp_all

text \<open>Every item that is queued, staged or being written.\<close>

definition items :: "writer \<Rightarrow> input_item list" where
  "items w = inputs w @ staged (phase w) @ map InWrite (flight (current w))"

definition keys :: "writer \<Rightarrow> handle_key set" where
  "keys w = handle_key ` set (granted w)"

text \<open>The bytes of a request the PTY took, what never changes of it, and what its sender was told.\<close>

definition sent :: "queued \<Rightarrow> bytes" where
  "sent q = take (req_accepted (fst q)) (req_bytes (fst q))"

definition ident :: "queued \<Rightarrow> request_id \<times> handle_key \<times> bytes \<times> chan option" where
  "ident q = (req_id (fst q), req_key (fst q), req_bytes (fst q), snd q)"

definition told :: "queued \<Rightarrow> (chan \<times> input_outcome) list" where
  "told q = (case (snd q, req_outcome (fst q)) of (Some c, Some v) \<Rightarrow> [(c, v)] | _ \<Rightarrow> [])"

fun outcome_replies :: "reply list \<Rightarrow> (chan \<times> input_outcome) list" where
  "outcome_replies [] = []"
| "outcome_replies (ReplyOutcome c v # rs) = (c, v) # outcome_replies rs"
| "outcome_replies (_ # rs) = outcome_replies rs"

lemma outcome_replies_append [simp]:
  "outcome_replies (xs @ ys) = outcome_replies xs @ outcome_replies ys"
  by (induction xs rule: outcome_replies.induct) simp_all

fun is_end :: "input_item \<Rightarrow> bool" where
  "is_end (InWrite q) = False"
| "is_end (InEnd h d) = True"

fun fresh_item :: "input_item \<Rightarrow> bool" where
  "fresh_item (InWrite q) = fresh_request (fst q)"
| "fresh_item (InEnd h d) = True"

fun control_handles :: "control \<Rightarrow> controller_handle list" where
  "control_handles (CtlDisconnect h) = [h]"
| "control_handles _ = []"

subsection \<open>The invariant\<close>

definition bounded_inv :: "writer \<Rightarrow> bool" where
  "bounded_inv w \<longleftrightarrow> length (controls w) \<le> control_capacity \<and> length (inputs w) \<le> input_capacity"

definition keys_inv :: "writer \<Rightarrow> bool" where
  "keys_inv w \<longleftrightarrow>
     distinct (holders w)
     \<and> (\<forall>i\<in>set (items w). item_key i \<in> keys w)
     \<and> (\<forall>c\<in>set (serving (phase w) @ controls w). set (control_handles c) \<subseteq> set (granted w))"

definition flow_inv :: "bytes \<Rightarrow> writer \<Rightarrow> bool" where
  "flow_inv d w \<longleftrightarrow>
     (\<forall>i\<in>set (inputs w). fresh_item i)
     \<and> (\<forall>i\<in>set (staged (phase w)). is_end i \<and> current w = None)
     \<and> (\<forall>q\<in>set (flight (current w)). undecided (InWrite q))
     \<and> (\<forall>q\<in>set (finished w). request_ok (fst q) \<and> req_outcome (fst q) \<noteq> None)
     \<and> delivered (pty w) = d @ concat (map sent (finished w @ flight (current w)))
     \<and> outcome_replies (replies w) = concat (map told (finished w))
     \<and> mset (map ident (submitted w)) = mset (map ident (finished w @ writes (inputs w) @ flight (current w)))"

definition writer_inv :: "bytes \<Rightarrow> writer \<Rightarrow> bool" where
  "writer_inv d w \<longleftrightarrow> bounded_inv w \<and> keys_inv w \<and> flow_inv d w"

lemmas inv_defs = writer_inv_def bounded_inv_def keys_inv_def flow_inv_def

lemma fresh_undecided: "fresh_item i \<Longrightarrow> undecided i"
  by (cases i) (auto simp: fresh_request_def request_ok_def)

lemma fresh_sent: "fresh_request (fst q) \<Longrightarrow> sent q = []"
  by (simp add: fresh_request_def sent_def)

lemma writer_inv_spawn: "writer_inv (delivered s) (spawn_writer r s)"
  by (simp add: inv_defs spawn_writer_def holders_def claimants_def items_def)

subsection \<open>What each operation touches\<close>

lemma release_fields [simp]:
  "arbiter (release h w) = apply_arbiter (OpRelease h) (arbiter w)"
  "controls (release h w) = controls w" "inputs (release h w) = inputs w"
  "pty (release h w) = pty w" "current (release h w) = current w" "phase (release h w) = phase w"
  "replies (release h w) = replies w" "granted (release h w) = granted w"
  "submitted (release h w) = submitted w" "finished (release h w) = finished w"
  by (auto simp: release_def emit_hooks_def Let_def split: prod.splits sum.splits)

lemma release_fails_for: "\<not> authorizes (apply_arbiter (OpRelease h) a) (handle_key h)"
  by (auto simp: authorizes_iff arbiter_simps split: controller_state.splits if_splits)

lemma request_fields: "request h bs w = (o', w1) \<Longrightarrow> w1 = w\<lparr>next_request_id := next_request_id w + 1\<rparr>"
  by (simp add: request_def)

lemma request_Some:
  "request h bs w = (Some p, w1) \<Longrightarrow> fresh_request p \<and> req_key p = handle_key h"
  by (auto simp: request_def new_pending_def fresh_request_def split: if_splits)

lemma holders_fields:
  "granted w' = granted w \<Longrightarrow> phase w' = phase w \<Longrightarrow> controls w' = controls w \<Longrightarrow> holders w' = holders w"
  by (simp add: holders_def claimants_def)

lemma writer_inv_ids [simp]:
  "writer_inv d (w\<lparr>next_holder_id := x\<rparr>) = writer_inv d w"
  "writer_inv d (w\<lparr>next_request_id := x\<rparr>) = writer_inv d w"
  "writer_inv d (w\<lparr>hooks := y\<rparr>) = writer_inv d w"
  "writer_inv d (w\<lparr>resizes := z\<rparr>) = writer_inv d w"
  unfolding inv_defs holders_def claimants_def items_def keys_def by simp_all

lemma push_control_inv:
  assumes "writer_inv d w" and "push_control c w = Some w'"
    and "set (claimant c) \<inter> set (holders w) = {}" and "set (control_handles c) \<subseteq> set (granted w)"
  shows "writer_inv d w'"
proof -
  have "w' = w\<lparr>controls := controls w @ [c]\<rparr>" "length (controls w) < control_capacity"
    using assms(2) by (auto simp: push_control_def split: if_splits)
  with assms(1,3,4) show ?thesis
    by (cases c) (auto simp: inv_defs holders_def claimants_def items_def keys_def)
qed

lemma push_input_inv:
  assumes "writer_inv d w" and "push_input i w = Some w'"
    and "fresh_item i" and "item_key i \<in> keys w"
  shows "writer_inv d w'"
proof -
  have w': "w' = w\<lparr>inputs := inputs w @ [i], submitted := submitted w @ writes [i]\<rparr>"
    and len: "length (inputs w) < input_capacity"
    using assms(2) by (cases i; auto simp: push_input_def split: if_splits)+
  have "bounded_inv w'"
    using assms(1) len by (simp add: w' writer_inv_def bounded_inv_def)
  moreover have "keys_inv w'"
    using assms(1,4) unfolding writer_inv_def keys_inv_def
    by (simp add: w' holders_def claimants_def items_def keys_def)
  moreover have "flow_inv d w'"
    using assms(1,3) by (cases i) (simp_all add: w' writer_inv_def flow_inv_def)
  ultimately show ?thesis by (simp add: writer_inv_def)
qed

lemma submit_inv:
  assumes "writer_inv d w" and "h \<in> set (granted w)"
  shows "writer_inv d (fst (submit h bs c w))" and "writer_inv d (fst (write_nowait_unless h bs ab w))"
proof -
  obtain o' w1 where r: "request h bs w = (o', w1)" by fastforce
  have w1: "writer_inv d w1" "keys w1 = keys w"
    using assms(1) request_fields [OF r] by (simp_all add: keys_def)
  have "handle_key h \<in> keys w" using assms(2) by (simp add: keys_def)
  then have "writer_inv d w2" if "o' = Some p" "push_input (InWrite (p, c)) w1 = Some w2" for p c w2
    using push_input_inv [OF w1(1) that(2)] request_Some [of h bs w p w1] r that(1) w1(2) by simp
  then show "writer_inv d (fst (submit h bs c w))" and "writer_inv d (fst (write_nowait_unless h bs ab w))"
    using w1 r by (auto simp: submit_def write_nowait_unless_def split: option.splits)
qed

subsection \<open>The stages of the writer keep the invariant\<close>

lemma writer_invI: "bounded_inv w \<Longrightarrow> keys_inv w \<Longrightarrow> flow_inv d w \<Longrightarrow> writer_inv d w"
  by (simp add: writer_inv_def)

lemma dequeue_inv:
  assumes "writer_inv d w" and "phase w = TopOfLoop"
  shows "writer_inv d (dequeue w)"
proof (cases "controls w = [] \<and> inputs w = [] \<and> current w = None")
  case False
  show ?thesis
  proof (cases "current w = None \<and> inputs w \<noteq> []")
    case True
    then obtain i rest where i: "inputs w = i # rest" and c: "current w = None"
      by (cases "inputs w") auto
    show ?thesis
    proof (cases i)
      case (InWrite q)
      have w': "dequeue w = w\<lparr>controls := [], inputs := rest, current := Some q,
          phase := Serving (controls w) None\<rparr>"
        using False i c InWrite by (simp add: dequeue_def)
      have "sent q = []" "undecided (InWrite q)"
        using assms(1) fresh_sent [of q] fresh_undecided [of "InWrite q"] i InWrite
        by (auto simp: writer_inv_def flow_inv_def)
      then show ?thesis
        using assms i c InWrite unfolding w' inv_defs holders_def claimants_def items_def keys_def
        by (intro conjI) simp_all
    next
      case (InEnd h dn)
      have w': "dequeue w = w\<lparr>controls := [], inputs := rest, phase := Serving (controls w) (Some i)\<rparr>"
        using False i c InEnd by (simp add: dequeue_def)
      show ?thesis
        using assms i c InEnd unfolding w' inv_defs holders_def claimants_def items_def keys_def
        by (intro conjI) simp_all
    qed
  next
    case ne: False
    then have w': "dequeue w = w\<lparr>controls := [], phase := Serving (controls w) None\<rparr>"
      using False by (auto simp: dequeue_def)
    show ?thesis
      using assms unfolding w' inv_defs holders_def claimants_def items_def keys_def
      by (intro conjI) simp_all
  qed
qed (use assms in \<open>simp add: dequeue_def\<close>)

lemma keys_inv_mono:
  assumes inv: "keys_inv w" and "distinct (holders w')"
    and it: "set (items w') \<subseteq> set (items w)" and g: "set (granted w) \<subseteq> set (granted w')"
    and cs: "set (serving (phase w') @ controls w') \<subseteq> set (serving (phase w) @ controls w)"
  shows "keys_inv w'"
proof -
  have "item_key i \<in> keys w'" if "i \<in> set (items w')" for i
  proof -
    have "item_key i \<in> keys w" using inv it that by (auto simp: keys_inv_def)
    then show ?thesis using g by (auto simp: keys_def)
  qed
  moreover have "set (control_handles c) \<subseteq> set (granted w')"
    if "c \<in> set (serving (phase w') @ controls w')" for c
    using inv cs g that unfolding keys_inv_def by (meson subset_iff)
  ultimately show ?thesis using assms(2) by (simp add: keys_inv_def)
qed

text \<open>A grant adds its handle, whose holder was a claimant; nothing else that matters moves.\<close>

lemma apply_control_fields:
  "controls (apply_control c w) = controls w" "inputs (apply_control c w) = inputs w"
  "pty (apply_control c w) = pty w" "current (apply_control c w) = current w"
  "phase (apply_control c w) = phase w" "submitted (apply_control c w) = submitted w"
  "finished (apply_control c w) = finished w"
  "outcome_replies (replies (apply_control c w)) = outcome_replies (replies w)"
  by (cases c; auto simp: answer_def emit_hooks_def Let_def split: prod.splits sum.splits option.splits)+

lemma claim_holder: "claim h k a = (Inr nh, a') \<Longrightarrow> holder_of nh = h"
  by (auto simp: holder_of_def arbiter_simps Let_def split: controller_state.splits sum.splits)

lemma takeover_holder: "takeover h a = (Inr t, a') \<Longrightarrow> holder_of (takeover_handle t) = h"
  by (auto simp: holder_of_def arbiter_simps Let_def split: controller_state.splits sum.splits)

lemma apply_control_granted:
  "granted (apply_control c w) = granted w
   \<or> (\<exists>nh. granted (apply_control c w) = granted w @ [nh] \<and> claimant c = [holder_of nh])"
proof (cases c)
  case (CtlClaim h k ch)
  then show ?thesis
    by (cases "claim h k (arbiter w)"; cases "fst (claim h k (arbiter w))")
       (auto simp: answer_def emit_hooks_def Let_def claim_holder)
next
  case (CtlTakeover h ch)
  then show ?thesis
    by (cases "takeover h (arbiter w)"; cases "fst (takeover h (arbiter w))")
       (auto simp: answer_def emit_hooks_def Let_def takeover_holder split: option.splits)
qed (auto split: sum.splits)

lemma serve_control_inv:
  assumes inv: "writer_inv d w" and ph: "phase w = Serving (c # cs) ne"
    and "control_handles c = []"
  shows "writer_inv d (serve c cs ne w)"
proof -
  have w': "serve c cs ne w = (apply_control c w)\<lparr>phase := Serving cs ne\<rparr>"
    using assms(3) by (cases c) (simp_all add: serve_def)
  have g: "set (granted w) \<subseteq> set (granted (apply_control c w))"
    using apply_control_granted [of c w] by auto
  have bounded: "bounded_inv (serve c cs ne w)"
    using inv by (simp add: w' writer_inv_def bounded_inv_def apply_control_fields)
  obtain rest where
      "holders w = map holder_of (granted w) @ claimant c @ rest"
      "holders (serve c cs ne w) = map holder_of (granted (apply_control c w)) @ rest"
    using ph by (simp add: w' holders_def claimants_def apply_control_fields)
  moreover have "map holder_of (granted (apply_control c w)) \<in>
      {map holder_of (granted w), map holder_of (granted w) @ claimant c}"
    using apply_control_granted [of c w] by auto
  moreover have "distinct (holders w)"
    using inv by (simp add: writer_inv_def keys_inv_def)
  ultimately have "distinct (holders (serve c cs ne w))"
    by (elim insertE emptyE) (simp_all add: Int_Un_distrib)
  then have "keys_inv (serve c cs ne w)"
  proof (rule keys_inv_mono [rotated])
    show "keys_inv w" using inv by (simp add: writer_inv_def)
  qed (use ph g in \<open>auto simp: w' items_def apply_control_fields\<close>)
  moreover have "flow_inv d (serve c cs ne w)"
    using inv ph by (simp add: w' writer_inv_def flow_inv_def apply_control_fields)
  ultimately show ?thesis using bounded by (intro writer_invI)
qed

text \<open>One key per holder: a granted handle is the only granted one of its holder.\<close>

lemma one_handle_per_holder:
  "distinct (holders w) \<Longrightarrow> g \<in> set (granted w) \<Longrightarrow> h \<in> set (granted w) \<Longrightarrow> holder_of g = holder_of h \<Longrightarrow> g = h"
  by (auto simp: holders_def distinct_map dest: inj_onD)

lemma belongs_holder: "belongs o' i \<longleftrightarrow> key_holder (item_key i) = o'"
  by (cases i) auto

lemma belongs_key:
  assumes "keys_inv w" and "h \<in> set (granted w)" and "i \<in> set (items w)" and "belongs (holder_of h) i"
  shows "item_key i = handle_key h"
proof -
  obtain g where g: "g \<in> set (granted w)" "item_key i = handle_key g"
    using assms(1,3) by (auto simp: keys_inv_def keys_def)
  with assms one_handle_per_holder [of w g h] show ?thesis
    by (auto simp: keys_inv_def belongs_holder holder_of_def)
qed

text \<open>What a disconnect leaves: the state after it, spelled out.\<close>

definition cancelled :: "controller_handle \<Rightarrow> input_item option \<Rightarrow> writer \<Rightarrow> input_item list" where
  "cancelled h ne w =
     filter (belongs (holder_of h))
       (inputs w @ (case ne of Some i \<Rightarrow> [i] | None \<Rightarrow> []) @ map InWrite (flight (current w)))"

definition after_disconnect :: "controller_handle \<Rightarrow> input_item option \<Rightarrow> writer \<Rightarrow> writer" where
  "after_disconnect h ne w =
     (let w1 = release h w; cs = cancelled h ne w
      in w1\<lparr>inputs := filter (\<lambda>i. \<not> belongs (holder_of h) i) (inputs w),
            current := (case current w of
              Some q \<Rightarrow> if belongs (holder_of h) (InWrite q) then None else Some q | None \<Rightarrow> None),
            finished := finished w @ concat (map (revoked_requests (arbiter w1)) cs),
            replies := replies w @ concat (map (cancel_answer (arbiter w1)) cs)\<rparr>)"

lemma disconnect_result:
  assumes "list_all undecided (cancelled h ne w)"
    and "\<forall>i\<in>set (cancelled h ne w). \<not> authorizes (arbiter (release h w)) (item_key i)"
  shows "disconnect h ne w =
     (let w4 = after_disconnect h ne w; tot = sum_list (map item_total (cancelled h ne w));
          acc = sum_list (map item_accepted (cancelled h ne w))
      in (if 0 < tot then emit_hooks [HookInputRevoked (handle_kind h) acc tot] w4 else w4,
          case ne of Some i \<Rightarrow> if belongs (holder_of h) i then None else ne | None \<Rightarrow> None))"
proof -
  let ?c = "cancelled h ne w"
  let ?w3 = "(release h w)\<lparr>inputs := filter (\<lambda>i. \<not> belongs (holder_of h) i) (inputs w),
            current := (case current w of
              Some q \<Rightarrow> if belongs (holder_of h) (InWrite q) then None else Some q | None \<Rightarrow> None)\<rparr>"
  have f: "fold cancel_item ?c (?w3, 0, 0) =
     (after_disconnect h ne w, sum_list (map item_accepted ?c), sum_list (map item_total ?c))"
    using cancel_all [of ?c ?w3 0 0] assms by (simp add: after_disconnect_def Let_def)
  have d: "disconnect h ne w =
     (let (w4, acc, tot) = fold cancel_item ?c (?w3, 0, 0)
      in (if 0 < tot then emit_hooks [HookInputRevoked (handle_kind h) acc tot] w4 else w4,
          case ne of Some i \<Rightarrow> if belongs (holder_of h) i then None else ne | None \<Rightarrow> None))"
    by (cases ne; cases "current w")
       (simp_all add: disconnect_def cancelled_def holder_of_def Let_def)
  show ?thesis unfolding d f by (simp add: Let_def)
qed

lemma revoked_writes: "concat (map (revoked_requests a) cs) = map (revoke a) (writes cs)"
  by (induction cs rule: writes.induct) simp_all

lemma revoke_simps [simp]: "sent (revoke a q) = sent q" "ident (revoke a q) = ident q"
  by (simp_all add: sent_def ident_def revoke_def Let_def)

lemma revoke_ok: "undecided (InWrite q) \<Longrightarrow> request_ok (fst (revoke a q)) \<and> req_outcome (fst (revoke a q)) \<noteq> None"
  by (auto simp: revoke_def request_ok_def Let_def)

lemma cancel_answer_told:
  "outcome_replies (concat (map (cancel_answer a) cs)) = concat (map told (map (revoke a) (writes cs)))"
proof (induction cs rule: writes.induct)
  case (2 q "is")
  then show ?case by (auto simp: told_def revoke_def Let_def split: option.splits)
qed (auto split: option.splits)

lemma mset_writes_filter:
  "mset (writes xs) = mset (writes (filter P xs)) + mset (writes (filter (\<lambda>i. \<not> P i) xs))"
  by (induction xs rule: writes.induct) auto

lemma image_mset_writes_filter:
  "image_mset f (mset (writes xs)) =
     image_mset f (mset (writes (filter P xs))) + image_mset f (mset (writes (filter (\<lambda>i. \<not> P i) xs)))"
  by (simp add: mset_writes_filter [of xs P])

lemma writes_all_end: "\<forall>i\<in>set xs. is_end i \<Longrightarrow> writes xs = []"
  by (induction xs rule: writes.induct) auto

lemma sent_all_fresh: "\<forall>i\<in>set xs. fresh_item i \<Longrightarrow> concat (map sent (writes xs)) = []"
  by (induction xs rule: writes.induct) (auto simp: fresh_sent)

lemma writes_set: "q \<in> set (writes xs) \<longleftrightarrow> InWrite q \<in> set xs"
  by (induction xs rule: writes.induct) auto

text \<open>Everything a disconnect cancels is undecided and no longer authorizes.\<close>

lemma cancelled_items:
  assumes "phase w = Serving (CtlDisconnect h # cs) ne"
  shows "cancelled h ne w = filter (belongs (holder_of h)) (items w)"
  using assms by (simp add: cancelled_def items_def)

lemma cancelled_ready:
  assumes inv: "writer_inv d w" and ph: "phase w = Serving (CtlDisconnect h # cs) ne"
  shows "list_all undecided (cancelled h ne w)"
    and "\<forall>i\<in>set (cancelled h ne w). \<not> authorizes (arbiter (release h w)) (item_key i)"
proof -
  have "h \<in> set (granted w)"
    using inv ph by (simp add: writer_inv_def keys_inv_def)
  then have "item_key i = handle_key h" if "i \<in> set (cancelled h ne w)" for i
    using belongs_key [of w h i] inv that by (auto simp: cancelled_items [OF ph] writer_inv_def)
  then show "\<forall>i\<in>set (cancelled h ne w). \<not> authorizes (arbiter (release h w)) (item_key i)"
    using release_fails_for [of h "arbiter w"] by simp
  have "undecided i" if "i \<in> set (items w)" for i
  proof -
    have "undecided j" if "is_end j" for j using that by (cases j) simp_all
    then show ?thesis
      using that inv fresh_undecided unfolding writer_inv_def flow_inv_def items_def by fastforce
  qed
  then show "list_all undecided (cancelled h ne w)"
    by (simp add: list_all_iff cancelled_items [OF ph])
qed

definition left_end :: "controller_handle \<Rightarrow> input_item option \<Rightarrow> input_item option" where
  "left_end h ne = (case ne of Some i \<Rightarrow> if belongs (holder_of h) i then None else ne | None \<Rightarrow> None)"

definition left_current :: "controller_handle \<Rightarrow> queued option \<Rightarrow> queued option" where
  "left_current h c =
     (case c of Some q \<Rightarrow> if belongs (holder_of h) (InWrite q) then None else Some q | None \<Rightarrow> None)"

lemma serve_disconnect:
  assumes inv: "writer_inv d w" and ph: "phase w = Serving (CtlDisconnect h # cs) ne"
  shows "\<exists>hs. serve (CtlDisconnect h) cs ne w =
     (after_disconnect h ne w)\<lparr>phase := Serving cs (left_end h ne), hooks := hs\<rparr>"
proof -
  let ?v = "(after_disconnect h ne w)\<lparr>phase := Serving cs (left_end h ne)\<rparr>"
  have d: "serve (CtlDisconnect h) cs ne w =
      (let (w1, ne') = disconnect h ne w in w1\<lparr>phase := Serving cs ne'\<rparr>)"
    by (simp add: serve_def)
  have "serve (CtlDisconnect h) cs ne w = ?v\<lparr>hooks := hooks (serve (CtlDisconnect h) cs ne w)\<rparr>"
    unfolding d disconnect_result [OF cancelled_ready [OF inv ph]]
    by (simp add: Let_def left_end_def emit_hooks_def)
  then show ?thesis by (rule exI [where x = "hooks (serve (CtlDisconnect h) cs ne w)"])
qed

lemma serve_disconnect_inv:
  assumes inv: "writer_inv d w" and ph: "phase w = Serving (CtlDisconnect h # cs) ne"
  shows "writer_inv d (serve (CtlDisconnect h) cs ne w)"
proof -
  let ?b = "belongs (holder_of h)"
  let ?a = "arbiter (release h w)"
  define v where "v = (after_disconnect h ne w)\<lparr>phase := Serving cs (left_end h ne)\<rparr>"
  obtain hs where s: "serve (CtlDisconnect h) cs ne w = v\<lparr>hooks := hs\<rparr>"
    using serve_disconnect [OF inv ph] by (auto simp: v_def)
  note v = v_def [unfolded after_disconnect_def Let_def, folded left_current_def]
  have fi: "flow_inv d w" using inv by (simp add: writer_inv_def)
  have "bounded_inv v"
    using inv by (auto simp: writer_inv_def bounded_inv_def v intro: le_trans [OF length_filter_le])
  moreover have "keys_inv v"
  proof (rule keys_inv_mono)
    show "keys_inv w" using inv by (simp add: writer_inv_def)
    then show "distinct (holders v)"
      using ph by (simp add: keys_inv_def holders_def claimants_def v)
  qed (use ph in \<open>auto simp: v items_def left_end_def left_current_def split: option.splits if_splits\<close>)
  moreover have "flow_inv d v"
  proof -
    let ?cs = "cancelled h ne w"
    have fr: "\<forall>i\<in>set (inputs w). fresh_item i" using fi by (simp add: flow_inv_def)
    have st: "\<forall>i\<in>set (filter ?b (staged (phase w))). is_end i" using fi by (simp add: flow_inv_def)
    have w: "writes ?cs = writes (filter ?b (inputs w)) @ filter (?b \<circ> InWrite) (flight (current w))"
      using writes_all_end [OF st] by (simp add: cancelled_items [OF ph] items_def filter_map)
    have fl: "flight (current w) =
        filter (?b \<circ> InWrite) (flight (current w)) @ flight (left_current h (current w))"
      by (cases "current w") (simp_all add: left_current_def)
    have fin: "finished v = finished w @ map (revoke ?a) (writes ?cs)"
      and inp: "inputs v = filter (\<lambda>i. \<not> ?b i) (inputs w)"
      and cur: "current v = left_current h (current w)" and pv: "pty v = pty w"
      and sub: "submitted v = submitted w"
      and rep: "outcome_replies (replies v) =
        outcome_replies (replies w) @ concat (map told (map (revoke ?a) (writes ?cs)))"
      by (simp_all add: v revoked_writes cancel_answer_told)
    have sent: "concat (map sent (finished v @ flight (current v))) =
        concat (map sent (finished w @ flight (current w)))"
    proof -
      have r: "map sent (map (revoke ?a) qs) = map sent qs" for qs by simp
      have f: "concat (map sent (writes (filter ?b (inputs w)))) = []"
        using fr by (intro sent_all_fresh) simp
      have g: "concat (map sent (flight (current w))) =
          concat (map sent (filter (?b \<circ> InWrite) (flight (current w))))
          @ concat (map sent (flight (left_current h (current w))))"
        by (subst (1) fl) (simp only: map_append concat_append)
      show ?thesis
        by (simp only: g fin cur w r f map_append concat_append append_assoc append_Nil)
    qed
    have ids: "mset (map ident (finished v @ writes (inputs v) @ flight (current v))) =
        mset (map ident (finished w @ writes (inputs w) @ flight (current w)))"
    proof -
      have r: "map ident (map (revoke ?a) qs) = map ident qs" for qs by simp
      have g: "mset (map ident (flight (current w))) =
          mset (map ident (filter (?b \<circ> InWrite) (flight (current w))))
          + mset (map ident (flight (left_current h (current w))))"
        by (subst (1) fl) (simp only: map_append mset_append)
      have i: "mset (map ident (writes (inputs w))) =
          mset (map ident (writes (filter ?b (inputs w))))
          + mset (map ident (writes (filter (\<lambda>i. \<not> ?b i) (inputs w))))"
        by (simp add: image_mset_writes_filter [of ident "inputs w" ?b])
      show ?thesis
        by (simp only: g i fin inp cur w r map_append mset_append ac_simps)
    qed
    have "\<forall>q\<in>set (writes ?cs). undecided (InWrite q)"
      using cancelled_ready(1) [OF inv ph] by (auto simp only: list_all_iff writes_set)
    then have "\<forall>q\<in>set (finished v). request_ok (fst q) \<and> req_outcome (fst q) \<noteq> None"
      using fi revoke_ok by (auto simp: fin flow_inv_def)
    moreover have "\<forall>i\<in>set (staged (phase v)). is_end i \<and> current v = None"
      using fi ph by (auto simp: flow_inv_def v left_end_def left_current_def split: option.splits if_splits)
    moreover have "\<forall>q\<in>set (flight (current v)). undecided (InWrite q)"
      using fi by (auto simp: flow_inv_def cur left_current_def split: option.splits)
    moreover have "\<forall>i\<in>set (inputs v). fresh_item i" using fr by (simp add: inp)
    moreover have "delivered (pty v) = d @ concat (map sent (finished v @ flight (current v)))"
      using fi unfolding sent pv flow_inv_def by blast
    moreover have "outcome_replies (replies v) = concat (map told (finished v))"
      using fi unfolding rep fin flow_inv_def by simp
    moreover have "mset (map ident (submitted v)) =
        mset (map ident (finished v @ writes (inputs v) @ flight (current v)))"
      using fi unfolding ids sub flow_inv_def by blast
    ultimately show ?thesis unfolding flow_inv_def by blast
  qed
  ultimately show ?thesis unfolding s by (simp add: writer_invI)
qed

text \<open>The end of an iteration: an end marker releases, a write takes one step.\<close>

lemma replies_same: "v\<lparr>replies := replies v\<rparr> = v"
  by simp

lemma finish_inv:
  assumes inv: "writer_inv d w" and ph: "phase w = Serving [] ne"
  shows "writer_inv d (finish ne w)"
proof (cases ne)
  case (Some i)
  then obtain h dn where i: "i = InEnd h dn"
    using inv ph by (cases i) (simp_all add: writer_inv_def flow_inv_def)
  obtain rs where rs: "outcome_replies rs = []" and
    w': "finish ne w = (release h w)\<lparr>replies := replies w @ rs, phase := TopOfLoop\<rparr>"
  proof
    let ?rs = "case dn of Some x \<Rightarrow> [ReplyDone x] | None \<Rightarrow> []"
    show "outcome_replies ?rs = []" by (cases dn) simp_all
    show "finish ne w = (release h w)\<lparr>replies := replies w @ ?rs, phase := TopOfLoop\<rparr>"
      using Some i replies_same [of "release h w", unfolded release_fields]
      by (cases dn) (simp_all add: finish_def answer_def Let_def)
  qed
  show ?thesis
  proof (rule writer_invI)
    show "keys_inv (finish ne w)"
      by (rule keys_inv_mono [of w]) (use inv ph in \<open>auto simp: w' keys_def items_def
        holders_def claimants_def writer_inv_def keys_inv_def\<close>)
  qed (use inv ph rs in \<open>simp_all add: w' writer_inv_def bounded_inv_def flow_inv_def\<close>)
next
  case None
  show ?thesis
  proof (cases "current w")
    case c: None
    then have "finish ne w = w\<lparr>phase := TopOfLoop\<rparr>" using None by (simp add: finish_def)
    then show ?thesis
      using inv ph None
      by (simp add: inv_defs holders_def claimants_def items_def keys_def)
  next
    case c: (Some pc)
    obtain p ch where pc: "pc = (p, ch)" by (cases pc)
    obtain res q s where ws: "write_step (arbiter w) p (pty w) = (res, q, s)"
      by (cases "write_step (arbiter w) p (pty w)")
    have ok: "request_ok p" and un: "req_outcome p = None"
      using inv c pc by (simp_all add: writer_inv_def flow_inv_def)
    note eff = write_step_effect [OF ok ws]
    have same: "req_key q = req_key p" "req_bytes q = req_bytes p" "req_id q = req_id p"
      using eff(2) by (simp_all add: same_request_def)
    have del: "delivered s = d @ concat (map sent (finished w)) @ sent (q, ch)"
      using eff(3,4) inv c pc same
      by (simp add: writer_inv_def flow_inv_def sent_def take_plus_diff)
    have id: "ident (q, ch) = ident (p, ch)" using same by (simp add: ident_def)
    have key: "req_key q \<in> handle_key ` set (granted w)"
      using inv c pc same by (auto simp: writer_inv_def keys_inv_def items_def keys_def)
    show ?thesis
    proof (cases res)
      case StepPending
      then have w': "finish ne w = w\<lparr>pty := s, phase := TopOfLoop, current := Some (q, ch)\<rparr>"
        using None c pc ws by (simp add: finish_def)
      show ?thesis
      proof (rule writer_invI)
        show "keys_inv (finish ne w)"
          using inv ph None c pc key same unfolding w'
          by (simp add: writer_inv_def keys_inv_def holders_def claimants_def items_def keys_def)
      qed (use inv ph None c pc StepPending eff(1,6) del id in
          \<open>unfold w', simp_all add: writer_inv_def bounded_inv_def flow_inv_def\<close>)
    next
      case (StepDone v)
      obtain rs hs where rs: "outcome_replies rs = told (q, ch)" and
        w': "finish ne w = w\<lparr>pty := s, phase := TopOfLoop, current := None,
              finished := finished w @ [(q, ch)], replies := replies w @ rs, hooks := hs\<rparr>"
      proof
        let ?rs = "case ch of Some x \<Rightarrow> [ReplyOutcome x v] | None \<Rightarrow> []"
        show "outcome_replies ?rs = told (q, ch)"
          using eff(6) StepDone by (cases ch) (simp_all add: told_def)
        show "finish ne w = w\<lparr>pty := s, phase := TopOfLoop, current := None,
              finished := finished w @ [(q, ch)], replies := replies w @ ?rs,
              hooks := hooks (finish ne w)\<rparr>"
          using None c pc ws StepDone
          by (cases ch; cases v; simp add: finish_def answer_def emit_hooks_def Let_def
              split: incomplete_reason.splits)
      qed
      show ?thesis
      proof (rule writer_invI)
        show "keys_inv (finish ne w)"
          using inv ph None c pc unfolding w'
          by (simp add: writer_inv_def keys_inv_def holders_def claimants_def items_def keys_def)
      qed (use inv ph None c pc StepDone eff(1,6) del id rs in
          \<open>unfold w', simp_all add: writer_inv_def bounded_inv_def flow_inv_def\<close>)
    qed
  qed
qed

lemma writer_runs_inv: "writer_inv d w \<Longrightarrow> writer_inv d (writer_runs w)"
proof (cases "phase w")
  case TopOfLoop
  then show "writer_inv d w \<Longrightarrow> ?thesis" by (simp add: writer_runs_def dequeue_inv)
next
  case (Serving cs ne)
  assume inv: "writer_inv d w"
  show ?thesis
  proof (cases cs)
    case Nil
    with Serving inv show ?thesis by (simp add: writer_runs_def finish_inv)
  next
    case (Cons c rest)
    with Serving inv show ?thesis
      by (cases c) (simp_all add: writer_runs_def serve_control_inv serve_disconnect_inv)
  qed
qed

lemma writer_step_inv: "writer_inv d w \<Longrightarrow> writer_inv d (writer_step e w)"
proof (cases "client_ok e w")
  case True
  assume inv: "writer_inv d w"
  note push = push_control_inv [OF inv] push_input_inv [OF inv]
  show ?thesis
  proof (cases e)
    case (EvSubmit h bs c)
    with True inv show ?thesis by (simp add: writer_step_def submit_inv)
  next
    case (EvSubmitUnless h bs ab)
    with True inv show ?thesis by (simp add: writer_step_def submit_inv)
  next
    case EvWriter
    with inv show ?thesis by (simp add: writer_step_def writer_runs_inv)
  qed (use True inv in \<open>auto simp: writer_step_def next_holder_def claim_request_def
      takeover_request_def resize_request_def end_of_input_def disconnect_request_def keys_def
      split: option.splits intro: push\<close>)
qed (simp add: writer_step_def)

interpretation writer: op_system writer_step "writer_inv d" "\<lambda>_. True" for d
  by unfold_locales (rule writer_step_inv)

lemma writer_run_inv: "writer_inv (delivered s) (writer_run r s es)"
  unfolding writer_run_def by (rule writer.run_inv) (simp_all add: list_all_iff writer_inv_spawn)

subsection \<open>Epochs of granted handles\<close>

text \<open>Every stage moves the arbiter by operations of the arbiter, and every grant is recorded.\<close>

definition epochs_inv :: "writer \<Rightarrow> bool" where
  "epochs_inv w \<longleftrightarrow> (\<forall>h\<in>set (granted w). epoch_of_key (handle_key h) \<le> epoch_of (arbiter w))"

definition arbiter_moves :: "writer \<Rightarrow> writer \<Rightarrow> bool" where
  "arbiter_moves w w' \<longleftrightarrow>
     (\<exists>xs. arbiter w' = run_ops apply_arbiter xs (arbiter w))
     \<and> (\<forall>h\<in>set (granted w'). h \<in> set (granted w) \<or> epoch_of_key (handle_key h) \<le> epoch_of (arbiter w'))"

lemma arbiter_movesI:
  "arbiter w' = run_ops apply_arbiter xs (arbiter w) \<Longrightarrow> granted w' = granted w \<Longrightarrow> arbiter_moves w w'"
  by (auto simp: arbiter_moves_def)

lemma arbiter_moves_epochs: "arbiter_moves w w' \<Longrightarrow> epochs_inv w \<Longrightarrow> epochs_inv w'"
  unfolding arbiter_moves_def epochs_inv_def by (metis arbiter.run_epoch_mono le_trans)

lemma apply_control_moves: "arbiter_moves w (apply_control c w)"
proof (cases c)
  case (CtlClaim h k ch)
  obtain res a where cl: "claim h k (arbiter w) = (res, a)" by fastforce
  have a: "arbiter (apply_control c w) = run_ops apply_arbiter [OpClaim h k] (arbiter w)"
    using cl CtlClaim by (simp add: answer_def emit_hooks_def Let_def split: sum.splits)
  have "epoch_of_key (handle_key nh) \<le> epoch_of a" if "res = Inr nh" for nh
    using arbiter.auth_epoch [OF claim_authorizes] cl that by simp
  moreover have "granted (apply_control c w) = granted w @ (case res of Inr nh \<Rightarrow> [nh] | Inl e \<Rightarrow> [])"
    using cl CtlClaim by (simp add: answer_def emit_hooks_def Let_def split: sum.splits)
  ultimately have "\<forall>h\<in>set (granted (apply_control c w)).
      h \<in> set (granted w) \<or> epoch_of_key (handle_key h) \<le> epoch_of (arbiter (apply_control c w))"
    using a cl by (auto split: sum.splits)
  with a show ?thesis unfolding arbiter_moves_def by blast
next
  case (CtlTakeover h ch)
  obtain res a where cl: "takeover h (arbiter w) = (res, a)" by fastforce
  have a: "arbiter (apply_control c w) = run_ops apply_arbiter [OpTakeover h] (arbiter w)"
    using cl CtlTakeover by (simp add: answer_def emit_hooks_def Let_def split: sum.splits option.splits)
  have "epoch_of_key (handle_key (takeover_handle t)) \<le> epoch_of a" if "res = Inr t" for t
    using arbiter.auth_epoch [OF takeover_authorizes] cl that by simp
  moreover have "granted (apply_control c w) =
      granted w @ (case res of Inr t \<Rightarrow> [takeover_handle t] | Inl e \<Rightarrow> [])"
    using cl CtlTakeover by (simp add: answer_def emit_hooks_def Let_def split: sum.splits option.splits)
  ultimately have "\<forall>h\<in>set (granted (apply_control c w)).
      h \<in> set (granted w) \<or> epoch_of_key (handle_key h) \<le> epoch_of (arbiter (apply_control c w))"
    using a cl by (auto split: sum.splits)
  with a show ?thesis unfolding arbiter_moves_def by blast
next
  case (CtlResize key g)
  then show ?thesis
    by (intro arbiter_movesI [where xs = "[]"]) (simp_all split: sum.splits)
next
  case (CtlDisconnect h)
  then show ?thesis by (intro arbiter_movesI [where xs = "[]"]) simp_all
qed

lemma serve_moves:
  assumes "writer_inv d w" and "phase w = Serving (c # cs) ne"
  shows "arbiter_moves w (serve c cs ne w)"
proof (cases "\<exists>h. c = CtlDisconnect h")
  case True
  then obtain h where c: "c = CtlDisconnect h" by blast
  obtain hs where "serve c cs ne w =
      (after_disconnect h ne w)\<lparr>phase := Serving cs (left_end h ne), hooks := hs\<rparr>"
    using serve_disconnect [OF assms [unfolded c]] by (auto simp: c)
  then show ?thesis
    by (intro arbiter_movesI [where xs = "[OpRelease h]"]) (simp_all add: after_disconnect_def Let_def)
next
  case False
  then have "serve c cs ne w = (apply_control c w)\<lparr>phase := Serving cs ne\<rparr>"
    by (cases c) (simp_all add: serve_def)
  with apply_control_moves [of w c] show ?thesis by (simp add: arbiter_moves_def)
qed

lemma finish_moves: "arbiter_moves w (finish ne w)"
proof (cases "\<exists>h dn. ne = Some (InEnd h dn)")
  case True
  then obtain h dn where "ne = Some (InEnd h dn)" by blast
  then show ?thesis
    by (intro arbiter_movesI [where xs = "[OpRelease h]"])
       (simp_all add: finish_def answer_def Let_def split: option.splits)
next
  case False
  then have "arbiter (finish ne w) = arbiter w \<and> granted (finish ne w) = granted w"
    by (auto simp: finish_def answer_def emit_hooks_def Let_def split: option.splits input_item.splits
        prod.splits write_step_result.splits input_outcome.splits incomplete_reason.splits)
  then show ?thesis by (intro arbiter_movesI [where xs = "[]"]) simp_all
qed

lemma writer_step_moves: "writer_inv d w \<Longrightarrow> arbiter_moves w (writer_step e w)"
proof (cases "e = EvWriter")
  case True
  assume inv: "writer_inv d w"
  show ?thesis
  proof (cases "phase w")
    case TopOfLoop
    then show ?thesis
      by (intro arbiter_movesI [where xs = "[]"])
         (auto simp: True writer_step_def writer_runs_def dequeue_def Let_def
           split: list.splits input_item.splits)
  next
    case (Serving cs ne)
    then show ?thesis
      using serve_moves [OF inv] finish_moves
      by (cases cs) (simp_all add: True writer_step_def writer_runs_def)
  qed
next
  case False
  then show ?thesis
    by (intro arbiter_movesI [where xs = "[]"]; cases e)
       (auto simp: writer_step_def next_holder_def claim_request_def takeover_request_def
         resize_request_def end_of_input_def disconnect_request_def submit_def request_def
         write_nowait_unless_def push_control_def push_input_def split: option.splits)
qed

definition full_inv :: "bytes \<Rightarrow> writer \<Rightarrow> bool" where
  "full_inv d w \<longleftrightarrow> writer_inv d w \<and> epochs_inv w"

interpretation full: monotone_system writer_step "full_inv d" "\<lambda>_. True"
  "\<lambda>w w'. \<exists>xs. arbiter w' = run_ops apply_arbiter xs (arbiter w)" for d
proof unfold_locales
  show "full_inv d (writer_step e w)" if "full_inv d w" for e w
    using that writer_step_inv writer_step_moves arbiter_moves_epochs unfolding full_inv_def by blast
  show "\<exists>xs. arbiter (writer_step e w) = run_ops apply_arbiter xs (arbiter w)" if "full_inv d w" for e w
    using that writer_step_moves unfolding full_inv_def arbiter_moves_def by blast
  show "\<exists>xs. arbiter w = run_ops apply_arbiter xs (arbiter w)" for w
    by (rule exI [where x = "[]"]) simp
  show "\<exists>xs. arbiter u = run_ops apply_arbiter xs (arbiter s)"
    if "\<exists>xs. arbiter t = run_ops apply_arbiter xs (arbiter s)"
      "\<exists>xs. arbiter u = run_ops apply_arbiter xs (arbiter t)" for s t u
    using that by (metis run_ops_simps(3))
qed

lemma writer_run_full: "full_inv (delivered s) (writer_run r s es)"
  unfolding writer_run_def
  by (rule full.run_inv)
     (simp_all add: list_all_iff full_inv_def writer_inv_spawn, simp add: epochs_inv_def spawn_writer_def)

lemma full_run_arbiter:
  "full_inv d w \<Longrightarrow> \<exists>xs. arbiter (run_ops writer_step es w) = run_ops apply_arbiter xs (arbiter w)"
  by (rule full.run_rel) (simp_all add: list_all_iff)

subsection \<open>A takeover is served within a bounded number of stages\<close>

text \<open>
  \<open>due ctl n w\<close>: the control \<open>ctl\<close> is waiting, and at most \<open>n\<close> stages of the writer come before
  and with its service. Nothing a sender does, and no answer of the PTY, makes it wait longer.
\<close>

definition due :: "control \<Rightarrow> nat \<Rightarrow> writer \<Rightarrow> bool" where
  "due ctl n w \<longleftrightarrow>
     (\<exists>pre post. serving (phase w) = pre @ ctl # post \<and> Suc (length pre) \<le> n)
     \<or> (\<exists>pre post. controls w = pre @ ctl # post
          \<and> (case phase w of TopOfLoop \<Rightarrow> 1 | Serving cs ne \<Rightarrow> length cs + 2) + Suc (length pre) \<le> n)"

definition takeover_served :: "chan \<Rightarrow> writer \<Rightarrow> bool" where
  "takeover_served ch w \<longleftrightarrow> (\<exists>res. ReplyTakeover ch res \<in> set (replies w))"

lemma serve_fields:
  assumes "writer_inv d w" and "phase w = Serving (c # cs) ne"
  shows "controls (serve c cs ne w) = controls w" and "\<exists>ne'. phase (serve c cs ne w) = Serving cs ne'"
    and "set (replies w) \<subseteq> set (replies (serve c cs ne w))"
proof -
  have "controls (serve c cs ne w) = controls w \<and> (\<exists>ne'. phase (serve c cs ne w) = Serving cs ne')
      \<and> set (replies w) \<subseteq> set (replies (serve c cs ne w))"
  proof (cases "\<exists>h. c = CtlDisconnect h")
    case True
    then obtain h where c: "c = CtlDisconnect h" by blast
    obtain hs where "serve c cs ne w =
        (after_disconnect h ne w)\<lparr>phase := Serving cs (left_end h ne), hooks := hs\<rparr>"
      using serve_disconnect [OF assms [unfolded c]] by (auto simp: c)
    then show ?thesis by (simp add: after_disconnect_def Let_def)
  next
    case False
    then have s: "serve c cs ne w = (apply_control c w)\<lparr>phase := Serving cs ne\<rparr>"
      by (cases c) (simp_all add: serve_def)
    have "set (replies w) \<subseteq> set (replies (apply_control c w))"
      by (cases c) (auto simp: answer_def emit_hooks_def Let_def split: prod.splits sum.splits option.splits)
    with s show ?thesis by (simp add: apply_control_fields)
  qed
  then show "controls (serve c cs ne w) = controls w" and "\<exists>ne'. phase (serve c cs ne w) = Serving cs ne'"
    and "set (replies w) \<subseteq> set (replies (serve c cs ne w))" by blast+
qed

lemma finish_fields:
  "controls (finish ne w) = controls w" "phase (finish ne w) = TopOfLoop"
  "set (replies w) \<subseteq> set (replies (finish ne w))"
  by (auto simp: finish_def answer_def emit_hooks_def Let_def split: option.splits input_item.splits
      prod.splits write_step_result.splits input_outcome.splits incomplete_reason.splits)

lemma sender_fields:
  assumes "e \<noteq> EvWriter"
  shows "\<exists>more. controls (writer_step e w) = controls w @ more" and "phase (writer_step e w) = phase w"
    and "replies (writer_step e w) = replies w"
  using assms
  by (cases e; auto simp: writer_step_def next_holder_def claim_request_def takeover_request_def
      resize_request_def end_of_input_def disconnect_request_def submit_def request_def
      write_nowait_unless_def push_control_def push_input_def split: option.splits)+

lemma dequeue_fields:
  assumes "controls w \<noteq> []"
  shows "\<exists>ne. phase (dequeue w) = Serving (controls w) ne"
  using assms by (auto simp: dequeue_def Let_def split: list.splits input_item.splits)

lemma dequeue_replies: "replies (dequeue w) = replies w"
  by (auto simp: dequeue_def Let_def split: list.splits input_item.splits)

lemma replies_grow:
  assumes "writer_inv d w" shows "set (replies w) \<subseteq> set (replies (writer_step e w))"
proof (cases "e = EvWriter")
  case True
  show ?thesis
  proof (cases "phase w")
    case (Serving cs ne)
    then show ?thesis
      using serve_fields(3) [OF assms] finish_fields(3)
      by (cases cs) (simp_all add: True writer_step_def writer_runs_def)
  qed (simp add: True writer_step_def writer_runs_def dequeue_replies)
qed (simp add: sender_fields(3))

lemma due_sender: "e \<noteq> EvWriter \<Longrightarrow> due ctl n w \<Longrightarrow> due ctl n (writer_step e w)"
  using sender_fields(1,2) [of e w] unfolding due_def by (metis append_Cons append_assoc)

lemma due_writer:
  assumes "writer_inv d w" and "due (CtlTakeover h ch) (Suc n) w"
  shows "due (CtlTakeover h ch) n (writer_step EvWriter w) \<or> takeover_served ch (writer_step EvWriter w)"
proof -
  let ?c = "CtlTakeover h ch"
  have st: "writer_step EvWriter w = writer_runs w" by (simp add: writer_step_def)
  show ?thesis
  proof (cases "phase w")
    case TopOfLoop
    then obtain pre post where c: "controls w = pre @ ?c # post" "Suc (length pre) \<le> n"
      using assms(2) by (auto simp: due_def)
    then obtain ne where "phase (dequeue w) = Serving (controls w) ne"
      using dequeue_fields [of w] by auto
    with c TopOfLoop st show ?thesis by (auto simp: due_def writer_runs_def)
  next
    case (Serving cs ne)
    show ?thesis
    proof (cases cs)
      case Nil
      then obtain pre post where "controls w = pre @ ?c # post" "2 + length pre \<le> n"
        using assms(2) Serving by (auto simp: due_def)
      then have "due ?c n (finish ne w)"
        by (auto simp: due_def finish_fields)
      with Nil Serving st show ?thesis by (simp add: writer_runs_def)
    next
      case (Cons c rest)
      with Serving st have r: "writer_step EvWriter w = serve c rest ne w"
        by (simp add: writer_runs_def)
      note f = serve_fields [OF assms(1) Serving [unfolded Cons]]
      obtain ne' where ph: "phase (serve c rest ne w) = Serving rest ne'" using f(2) by blast
      consider (now) "c = ?c"
        | (later) pre post where "rest = pre @ ?c # post" "Suc (length pre) \<le> n"
        | (queued) pre post where "controls w = pre @ ?c # post"
            "length rest + 2 + Suc (length pre) \<le> n"
        using assms(2) Serving Cons by (auto simp: due_def Cons_eq_append_conv)
      then show ?thesis
      proof cases
        case now
        obtain res a where t: "takeover h (arbiter w) = (res, a)" by fastforce
        have "ReplyTakeover ch res \<in> set (replies (serve ?c rest ne w))"
          using t by (simp add: serve_def answer_def Let_def)
        with now r show ?thesis unfolding takeover_served_def by auto
      next
        case later
        with ph r show ?thesis by (auto simp: due_def)
      next
        case queued
        with ph f(1) r show ?thesis by (auto simp: due_def)
      qed
    qed
  qed
qed

lemma due_run:
  "full_inv d w \<Longrightarrow> due (CtlTakeover h ch) n w \<or> takeover_served ch w \<Longrightarrow> n \<le> count_list es EvWriter \<Longrightarrow>
     takeover_served ch (run_ops writer_step es w)"
proof (induction es arbitrary: w n)
  case Nil
  then show ?case by (auto simp: due_def split: phase.splits)
next
  case (Cons e es)
  have w: "writer_inv d w" and inv: "full_inv d (writer_step e w)"
    using Cons.prems(1) full.op_inv by (auto simp: full_inv_def)
  have mono: "takeover_served ch w \<Longrightarrow> takeover_served ch (writer_step e w)"
    using replies_grow [OF w, of e] by (auto simp: takeover_served_def)
  show ?case
  proof (cases "e = EvWriter")
    case True
    show ?thesis
    proof (cases n)
      case 0
      then have "takeover_served ch w"
        using Cons.prems(2) by (auto simp: due_def split: phase.splits)
      then show ?thesis using Cons.IH [OF inv, of 0] mono by simp
    next
      case (Suc k)
      then show ?thesis
        using Cons.IH [OF inv, of k] Cons.prems(2,3) due_writer [OF w] mono True by auto
    qed
  next
    case False
    then show ?thesis
      using Cons.IH [OF inv, of n] Cons.prems(2,3) due_sender [OF False] mono by auto
  qed
qed

subsection \<open>Who writes\<close>

lemma finish_writes:
  assumes "writer_inv d w" and "phase w = Serving [] ne"
    and "delivered (pty (finish ne w)) \<noteq> delivered (pty w)"
  shows "\<exists>q. current w = Some q \<and> ne = None \<and> authorizes (arbiter w) (req_key (fst q))"
proof (cases "\<exists>h dn. ne = Some (InEnd h dn)")
  case True
  then have "pty (finish ne w) = pty w"
    by (auto simp: finish_def answer_def Let_def split: option.splits)
  with assms(3) show ?thesis by simp
next
  case False
  then have ne: "ne = None"
    using assms(1,2) by (cases ne) (auto simp: writer_inv_def flow_inv_def elim: is_end.elims)
  show ?thesis
  proof (cases "current w")
    case None
    with assms(3) ne show ?thesis by (simp add: finish_def)
  next
    case (Some pc)
    obtain p c where pc: "pc = (p, c)" by (cases pc)
    obtain res q s where ws: "write_step (arbiter w) p (pty w) = (res, q, s)"
      by (cases "write_step (arbiter w) p (pty w)")
    have "pty (finish ne w) = s"
      using ne Some pc ws by (auto simp: finish_def answer_def emit_hooks_def Let_def
          split: option.splits write_step_result.splits input_outcome.splits incomplete_reason.splits)
    then have "req_accepted q \<noteq> req_accepted p"
      using assms(3) write_step_effect(4) [OF _ ws] assms(1) Some pc
      by (auto simp: writer_inv_def flow_inv_def)
    then show ?thesis
      using write_step_effect(5) [OF _ ws] assms(1) Some pc ne by (auto simp: writer_inv_def flow_inv_def)
  qed
qed

lemma pty_only_finish:
  assumes "writer_inv d w" and "pty (writer_step e w) \<noteq> pty w"
  shows "e = EvWriter \<and> (\<exists>ne. phase w = Serving [] ne)"
proof (cases "e = EvWriter")
  case True
  then have r: "writer_step e w = writer_runs w" by (simp add: writer_step_def)
  show ?thesis
  proof (cases "phase w")
    case TopOfLoop
    with assms(2) r show ?thesis
      by (auto simp: writer_runs_def dequeue_def Let_def split: list.splits input_item.splits)
  next
    case (Serving cs ne)
    show ?thesis
    proof (cases cs)
      case (Cons c rest)
      have "pty (serve c rest ne w) = pty w"
      proof (cases "\<exists>h. c = CtlDisconnect h")
        case True
        then obtain h where c: "c = CtlDisconnect h" by blast
        show ?thesis
          using serve_disconnect [OF assms(1) Serving [unfolded Cons c]]
          by (auto simp: c after_disconnect_def Let_def)
      next
        case False
        then have "serve c rest ne w = (apply_control c w)\<lparr>phase := Serving rest ne\<rparr>"
          by (cases c) (simp_all add: serve_def)
        then show ?thesis by (simp add: apply_control_fields)
      qed
      with Cons Serving assms(2) r show ?thesis by (simp add: writer_runs_def)
    qed (use True Serving in simp)
  qed
next
  case False
  then have "pty (writer_step e w) = pty w"
    by (cases e) (auto simp: writer_step_def next_holder_def claim_request_def takeover_request_def
      resize_request_def end_of_input_def disconnect_request_def submit_def request_def
      write_nowait_unless_def push_control_def push_input_def split: option.splits)
  with assms(2) show ?thesis by simp
qed

subsection \<open>Properties\<close>

text \<open>A run for the witnesses: an agent claims and queues input, of which the PTY takes two bytes.\<close>

definition demo_sink :: pty_sink where
  "demo_sink = \<lparr>script = [WroteBytes 2, WriteError WouldBlock, WroteBytes 1], delivered = []\<rparr>"

definition demo_events :: "writer_event list" where
  "demo_events =
     [EvNextHolder, EvClaim (HolderId 1) Agent 0, EvWriter, EvWriter, EvWriter,
      EvSubmit demo_handle [65, 66, 67] (Some 1), EvWriter, EvWriter]"

text \<open>C34: The PTY receives exactly what is acknowledged, in order. After any interleaving of clients
  and writer, the bytes the PTY took are the accepted prefixes of the finished requests, in the
  order they finished, then the accepted prefix of the one being written; and every finished
  request has an outcome that reports its counts exactly.\<close>

theorem writer_delivery_exact:
  "delivered (pty (writer_run r s es)) =
     delivered s
     @ concat (map sent (finished (writer_run r s es) @ flight (current (writer_run r s es))))
   \<and> list_all (\<lambda>q. \<exists>v. req_outcome (fst q) = Some v \<and> outcome_exact (fst q) v)
       (finished (writer_run r s es))"
proof -
  have "flow_inv (delivered s) (writer_run r s es)"
    using writer_run_inv by (simp add: writer_inv_def)
  then show ?thesis
    by (auto simp: flow_inv_def list_all_iff request_ok_def split: option.splits)
qed

text \<open>No request is lost and none is answered twice. The requests submitted are, as a multiset,
  those finished, those queued and the one being written, unchanged in id, key and bytes; the
  outcome replies sent are exactly the outcomes of the finished requests that have a channel, once
  each and in that order.\<close>

theorem writer_conserves_requests:
  "mset (map ident (submitted (writer_run r s es))) =
     mset (map ident (finished (writer_run r s es) @ writes (inputs (writer_run r s es))
       @ flight (current (writer_run r s es))))
   \<and> outcome_replies (replies (writer_run r s es)) = concat (map told (finished (writer_run r s es)))"
  using writer_run_inv [of s r es] by (simp add: writer_inv_def flow_inv_def)

text \<open>The queues are bounded: at most 16 controls and 32 input items wait, whatever the clients do.\<close>

theorem writer_queues_bounded:
  "length (controls (writer_run r s es)) \<le> 16 \<and> length (inputs (writer_run r s es)) \<le> 32"
  using writer_run_inv [of s r es]
  by (simp add: writer_inv_def bounded_inv_def control_capacity_def input_capacity_def)

text \<open>Only the owner writes. If a step of a reachable system adds to what the PTY received, it is
  the writer finishing an iteration with no control left to serve, and the key of the request it
  writes authorizes at that moment.\<close>

theorem writer_only_owner_writes:
  assumes "w = writer_run r s es" and "delivered (pty (writer_step e w)) \<noteq> delivered (pty w)"
  shows "e = EvWriter \<and> phase w = Serving [] None
    \<and> (\<exists>q. current w = Some q \<and> authorizes (arbiter w) (req_key (fst q)))"
proof -
  have inv: "writer_inv (delivered s) w" using assms(1) writer_run_inv by simp
  have "pty (writer_step e w) \<noteq> pty w" using assms(2) by auto
  from pty_only_finish [OF inv this] obtain ne where e: "e = EvWriter" and ph: "phase w = Serving [] ne"
    by blast
  with assms(2) have "delivered (pty (finish ne w)) \<noteq> delivered (pty w)"
    by (simp add: writer_step_def writer_runs_def)
  from finish_writes [OF inv ph this] e ph show ?thesis by auto
qed

theorem writer_only_owner_writes_witness:
  "\<exists>q. current (writer_run (RunId []) demo_sink (butlast demo_events)) = Some q
    \<and> authorizes (arbiter (writer_run (RunId []) demo_sink (butlast demo_events))) (req_key (fst q))"
proof -
  let ?w = "writer_run (RunId []) demo_sink (butlast demo_events)"
  have "delivered (pty (writer_step EvWriter ?w)) = [65, 66]" "delivered (pty ?w) = []"
    by code_simp+
  then have "delivered (pty (writer_step EvWriter ?w)) \<noteq> delivered (pty ?w)" by simp
  from writer_only_owner_writes [OF refl this] show ?thesis by blast
qed

text \<open>A disconnect leaves nothing behind. When the writer serves it, no queued, staged or
  half-written item of that holder remains, the PTY receives nothing meanwhile, and the handle
  never authorizes again, however the run goes on.\<close>

theorem disconnect_clears_holder:
  assumes "w = writer_run r s es" and "phase w = Serving (CtlDisconnect h # cs) ne"
  shows "list_all (\<lambda>i. key_holder (item_key i) \<noteq> holder_of h) (items (writer_runs w))
    \<and> pty (writer_runs w) = pty w
    \<and> \<not> authorizes (arbiter (run_ops writer_step es' (writer_runs w))) (handle_key h)"
proof -
  have full: "full_inv (delivered s) w" using assms(1) writer_run_full by simp
  then have inv: "writer_inv (delivered s) w" by (simp add: full_inv_def)
  have r: "writer_runs w = serve (CtlDisconnect h) cs ne w"
    using assms(2) by (simp add: writer_runs_def)
  obtain hs where s: "writer_runs w =
      (after_disconnect h ne w)\<lparr>phase := Serving cs (left_end h ne), hooks := hs\<rparr>"
    using serve_disconnect [OF inv assms(2)] r by auto
  have "list_all (\<lambda>i. key_holder (item_key i) \<noteq> holder_of h) (items (writer_runs w))"
    unfolding s by (auto simp: items_def after_disconnect_def Let_def left_end_def list_all_iff
        belongs_holder split: option.splits if_splits)
  moreover have "pty (writer_runs w) = pty w" unfolding s by (simp add: after_disconnect_def Let_def)
  moreover have "\<not> authorizes (arbiter (run_ops writer_step es' (writer_runs w))) (handle_key h)"
  proof -
    have step: "writer_runs w = writer_step EvWriter w" by (simp add: writer_step_def)
    have full': "full_inv (delivered s) (writer_runs w)"
      unfolding step using full full.op_inv by blast
    have a: "arbiter (writer_runs w) = apply_arbiter (OpRelease h) (arbiter w)"
      unfolding s by (simp add: after_disconnect_def Let_def)
    have "h \<in> set (granted w)" using inv assms(2) by (simp add: writer_inv_def keys_inv_def)
    then have "epoch_of_key (handle_key h) \<le> epoch_of (arbiter (writer_runs w))"
      using full arbiter_epoch_mono [of "arbiter w" "OpRelease h"] unfolding a
      by (fastforce simp: full_inv_def epochs_inv_def)
    moreover have "\<not> authorizes (arbiter (writer_runs w)) (handle_key h)"
      unfolding a by (rule release_fails_for)
    ultimately show ?thesis
      using full_run_arbiter [OF full', of es'] arbiter.lost_for_good by auto
  qed
  ultimately show ?thesis by blast
qed

theorem disconnect_clears_holder_witness:
  "items (writer_runs (writer_run (RunId []) demo_sink
      (demo_events @ [EvSubmit demo_handle [68] None, EvDisconnect demo_handle, EvWriter]))) = []"
proof -
  let ?w = "writer_run (RunId []) demo_sink
      (demo_events @ [EvSubmit demo_handle [68] None, EvDisconnect demo_handle, EvWriter])"
  have ph: "phase ?w = Serving [CtlDisconnect demo_handle] None"
    by code_simp
  have "list_all (\<lambda>i. key_holder (item_key i) = HolderId 1) (items (writer_runs ?w))"
    by code_simp
  moreover have "list_all (\<lambda>i. key_holder (item_key i) \<noteq> holder_of demo_handle) (items (writer_runs ?w))"
    using disconnect_clears_holder [OF refl ph] by blast
  ultimately show ?thesis
    by (cases "items (writer_runs ?w)") (simp_all add: holder_of_def demo_handle_def)
qed

text \<open>C35: A takeover is not delayed by input. From any reachable state in which it waits, it has been
  served and answered once the writer has run as many stages as there are controls before it, plus
  two: neither queued input nor a PTY that takes no bytes nor further requests can hold it up.\<close>

theorem takeover_not_delayed:
  assumes "w = writer_run r s es"
    and "CtlTakeover h ch \<in> set (serving (phase w) @ controls w)"
    and "length (serving (phase w) @ controls w) + 2 \<le> count_list es' EvWriter"
  shows "takeover_served ch (run_ops writer_step es' w)"
proof (rule due_run [OF _ _ assms(3)])
  show "full_inv (delivered s) w" using assms(1) writer_run_full by simp
  have "due (CtlTakeover h ch) (length (serving (phase w) @ controls w) + 2) w"
  proof (cases "CtlTakeover h ch \<in> set (serving (phase w))")
    case True
    then obtain pre post where c: "serving (phase w) = pre @ CtlTakeover h ch # post"
      by (auto dest: split_list)
    moreover from c have "Suc (length pre) \<le> length (serving (phase w) @ controls w) + 2" by simp
    ultimately show ?thesis unfolding due_def by blast
  next
    case False
    then obtain pre post where c: "controls w = pre @ CtlTakeover h ch # post"
      using assms(2) by (auto dest: split_list)
    moreover from c have "(case phase w of TopOfLoop \<Rightarrow> 1 | Serving cs ne \<Rightarrow> length cs + 2)
        + Suc (length pre) \<le> length (serving (phase w) @ controls w) + 2"
      by (cases "phase w") simp_all
    ultimately show ?thesis unfolding due_def by blast
  qed
  then show "due (CtlTakeover h ch) (length (serving (phase w) @ controls w) + 2) w
      \<or> takeover_served ch w" ..
qed

theorem takeover_not_delayed_witness:
  "takeover_served 7 (run_ops writer_step (EvWriter # EvWriter # EvSubmit demo_handle [68] None # [EvWriter])
     (writer_run (RunId []) demo_sink (demo_events @ [EvTakeover (HolderId 2) 7])))"
proof -
  let ?w = "writer_run (RunId []) demo_sink (demo_events @ [EvTakeover (HolderId 2) 7])"
  have q: "CtlTakeover (HolderId 2) 7 \<in> set (serving (phase ?w) @ controls ?w)"
    and n: "length (serving (phase ?w) @ controls ?w) = 1"
    by code_simp+
  show ?thesis
    by (rule takeover_not_delayed [OF refl q]) (simp only: n, simp)
qed

end
