(* ===== verification/Recording.thy ===== *)
theory Recording
  imports Recording_Types "HOL-Library.Monad_Syntax"
begin

text \<open>
  The recording codec of \<open>src/src/recording.rs\<close>. Two functions of other crates are parameters:
  \<open>crc\<close> (\<open>crc32c::crc32c\<close>) and \<open>ver\<close> (\<open>Uuid::get_version_num\<close>). What can panic in Rust (a slice or an
  index out of range, an \<open>expect\<close>) is in the option monad, None being the panic, around the sum of
  error and result; an early return is \<open>Some (Inl e)\<close>. Offsets and lengths are naturals.
\<close>

definition format_version :: u16 where "format_version = 1"
definition max_payload :: nat where "max_payload = 65536"
definition rec_magic :: bytes where "rec_magic = ascii ''TNDRREC'' @ [0]"

subsection \<open>Encoding\<close>

datatype encode_error = EncFirstSequence | EncSequence u64 u64 | EncSequenceExhausted
  | EncElapsedRegressed u64 u64 | EncEmptyPayload | EncPayloadTooLarge nat | EncInputNotRecorded
  | EncEmptySegmentRotation | EncSegmentIndexExhausted

record segment_encoder =
  enc_header :: segment_header
  enc_next :: "sequence option"
  enc_last :: "u64 option"
  enc_geometry :: geometry
  enc_records :: u64

definition new_encoder :: "segment_header \<Rightarrow> encode_error + segment_encoder" where
  "new_encoder h =
     (if hdr_index h = 0 \<and> hdr_first h \<noteq> first_sequence then Inl EncFirstSequence
      else Inr \<lparr>enc_header = h, enc_next = Some (hdr_first h), enc_last = None,
                enc_geometry = hdr_geometry h, enc_records = 0\<rparr>)"

text \<open>\<open>u16::try_from(n).expect(..)\<close> and its 32-bit form.\<close>

definition expect_u16 :: "nat \<Rightarrow> u16 option" where
  "expect_u16 n = (if n < 2 ^ 16 then Some (of_nat n) else None)"

definition expect_u32 :: "nat \<Rightarrow> u32 option" where
  "expect_u32 n = (if n < 2 ^ 32 then Some (of_nat n) else None)"

definition header_bytes :: "(bytes \<Rightarrow> u32) \<Rightarrow> segment_encoder \<Rightarrow> bytes option" where
  "header_bytes crc e = do {
     let h = enc_header e;
     let trm = term_bytes (hdr_term h);
     term_len \<leftarrow> expect_u16 (length trm);
     header_len \<leftarrow> expect_u16 (60 + length trm);
     let flags = (if hdr_input h then 1 else 0 :: u16);
     let out = rec_magic @ be16 format_version @ be16 header_len @ be16 flags
       @ run_uuid (hdr_run_id h) @ be32 (hdr_index h) @ be64 (seq_get (hdr_first h))
       @ be64 (hdr_origin h) @ be16 (geo_rows (hdr_geometry h)) @ be16 (geo_cols (hdr_geometry h))
       @ be16 term_len @ trm;
     Some (out @ be32 (crc out))
   }"

definition checked_payload :: "bytes \<Rightarrow> encode_error + bytes" where
  "checked_payload bs =
     (if bs = [] then Inl EncEmptyPayload
      else if max_payload < length bs then Inl (EncPayloadTooLarge (length bs))
      else Inr bs)"

text \<open>The kind byte and the payload of a record.\<close>

fun record_payload :: "record_kind \<Rightarrow> bool \<Rightarrow> encode_error + (u8 \<times> bytes)" where
  "record_payload (Output bs) inp =
     (case checked_payload bs of Inl e \<Rightarrow> Inl e | Inr b \<Rightarrow> Inr (1, b))"
| "record_payload (Input bs) inp =
     (case checked_payload bs of Inl e \<Rightarrow> Inl e
      | Inr b \<Rightarrow> if \<not> inp then Inl EncInputNotRecorded else Inr (3, b))"
| "record_payload (Resize g c) inp =
     (let (cause, corr) = (case c of CauseUser \<Rightarrow> (1, 0) | CauseRepaint n \<Rightarrow> (2, n))
      in Inr (2, be16 (geo_rows g) @ be16 (geo_cols g) @ [cause] @ be32 corr))"

text \<open>The bytes of a record: length word and its complement, kind, sequence, time, payload, checksum.\<close>

definition record_bytes :: "(bytes \<Rightarrow> u32) \<Rightarrow> u8 \<Rightarrow> bytes \<Rightarrow> rec \<Rightarrow> bytes option" where
  "record_bytes crc kind payload r = do {
     w \<leftarrow> expect_u32 (17 + length payload);
     let out = be32 w @ be32 (NOT w) @ [kind] @ be64 (seq_get (rec_sequence r))
       @ be64 (rec_elapsed r) @ payload;
     Some (out @ be32 (crc out))
   }"

text \<open>The rest of \<open>encode\<close>, once sequence and time are accepted.\<close>

definition encode_checked :: "(bytes \<Rightarrow> u32) \<Rightarrow> rec \<Rightarrow> segment_encoder \<Rightarrow> sequence
    \<Rightarrow> ((encode_error + bytes) \<times> segment_encoder) option" where
  "encode_checked crc r e expected =
     (case record_payload (rec_kind r) (hdr_input (enc_header e)) of
        Inl err \<Rightarrow> Some (Inl err, e)
      | Inr (kind, payload) \<Rightarrow> do {
          out \<leftarrow> record_bytes crc kind payload r;
          Some (Inr out, e\<lparr>enc_next := next_sequence expected, enc_last := Some (rec_elapsed r),
            enc_geometry := (case rec_kind r of Resize g c \<Rightarrow> g | _ \<Rightarrow> enc_geometry e),
            enc_records := enc_records e + 1\<rparr>)
        })"

definition encode :: "(bytes \<Rightarrow> u32) \<Rightarrow> rec \<Rightarrow> segment_encoder
    \<Rightarrow> ((encode_error + bytes) \<times> segment_encoder) option" where
  "encode crc r e =
     (case enc_next e of
        None \<Rightarrow> Some (Inl EncSequenceExhausted, e)
      | Some expected \<Rightarrow>
          if rec_sequence r \<noteq> expected
          then Some (Inl (EncSequence (seq_get expected) (seq_get (rec_sequence r))), e)
          else (case enc_last e of
             Some previous \<Rightarrow>
               if rec_elapsed r < previous
               then Some (Inl (EncElapsedRegressed previous (rec_elapsed r)), e)
               else encode_checked crc r e expected
           | None \<Rightarrow> encode_checked crc r e expected))"

definition next_segment :: "segment_encoder \<Rightarrow> encode_error + segment_encoder" where
  "next_segment e =
     (if enc_records e = 0 then Inl EncEmptySegmentRotation
      else (case enc_next e of
              None \<Rightarrow> Inl EncSequenceExhausted
            | Some s \<Rightarrow>
                (case checked_succ (hdr_index (enc_header e)) of
                   None \<Rightarrow> Inl EncSegmentIndexExhausted
                 | Some i \<Rightarrow>
                     Inr \<lparr>enc_header = (enc_header e)\<lparr>hdr_index := i, hdr_first := s,
                             hdr_geometry := enc_geometry e\<rparr>,
                          enc_next = Some s, enc_last = enc_last e,
                          enc_geometry = enc_geometry e, enc_records = 0\<rparr>)))"

subsection \<open>Decoding\<close>

datatype segment_end = Clean | Truncated nat

record decoded_segment =
  seg_header :: segment_header
  seg_records :: "rec list"
  seg_end :: segment_end

record decoded_recording =
  dec_header :: segment_header
  dec_segment_count :: u32
  dec_records :: "rec list"
  dec_end :: segment_end

datatype corruption = HeaderIncomplete | HeaderLength | HeaderChecksum | LengthCheck | LengthBounds
  | RecordChecksum | TruncatedInteriorSegment

datatype violation = HeaderLengthMismatch | ReservedFlags | RunIdVersion | FirstSequence
  | ZeroGeometry | TermByte | UnknownKind u8 | PayloadSize | UnknownResizeCause u8 | Correlation
  | InputNotRecorded | SequenceViolation | ElapsedRegressed | NoSegments | SegmentIndex | SegmentRun
  | SegmentOrigin | SegmentFlags | SegmentTerm | SegmentFirstSequence | SegmentGeometry
  | SegmentElapsed | EmptyInteriorSegment

datatype decode_error_kind = BadMagic | UnsupportedVersion u16 | Corrupt corruption
  | Invalid violation

record decode_error =
  err_kind :: decode_error_kind
  err_segment :: "u32 option"
  err_offset :: nat
  err_last :: "sequence option"

record segment_summary =
  sum_header_len :: nat
  sum_next :: "sequence option"
  sum_last :: "sequence option"
  sum_elapsed :: "u64 option"
  sum_geometry :: geometry

record continuity =
  con_position :: u32
  con_previous :: "(segment_header \<times> segment_summary) option"

definition error_at :: "decode_error_kind \<Rightarrow> nat \<Rightarrow> sequence option \<Rightarrow> decode_error" where
  "error_at k offset last_seq = \<lparr>err_kind = k, err_segment = None, err_offset = offset, err_last = last_seq\<rparr>"

definition check_header_continuity :: "segment_header \<Rightarrow> continuity \<Rightarrow> violation option" where
  "check_header_continuity h c =
     (if hdr_index h \<noteq> con_position c then Some SegmentIndex
      else (case con_previous c of
              None \<Rightarrow> None
            | Some (first, prev) \<Rightarrow>
                if hdr_run_id h \<noteq> hdr_run_id first then Some SegmentRun
                else if hdr_origin h \<noteq> hdr_origin first then Some SegmentOrigin
                else if hdr_input h \<noteq> hdr_input first then Some SegmentFlags
                else if hdr_term h \<noteq> hdr_term first then Some SegmentTerm
                else if sum_next prev \<noteq> Some (hdr_first h) then Some SegmentFirstSequence
                else if hdr_geometry h \<noteq> sum_geometry prev then Some SegmentGeometry
                else None))"

definition be_u16 :: "bytes \<Rightarrow> nat \<Rightarrow> u16 option" where
  "be_u16 bs at = map_option from_be16 (subslice at (at + 2) bs)"

definition be_u32 :: "bytes \<Rightarrow> nat \<Rightarrow> u32 option" where
  "be_u32 bs at = map_option from_be32 (subslice at (at + 4) bs)"

definition be_u64 :: "bytes \<Rightarrow> nat \<Rightarrow> u64 option" where
  "be_u64 bs at = map_option from_be64 (subslice at (at + 8) bs)"

text \<open>The header's fields, once its length and checksum are accepted.\<close>

definition decode_header_fields :: "(bytes \<Rightarrow> nat) \<Rightarrow> bytes \<Rightarrow> nat
    \<Rightarrow> (decode_error_kind, segment_header \<times> nat) panicking" where
  "decode_header_fields ver bs header_len = do {
     tl16 \<leftarrow> be_u16 bs 54;
     let term_len = unat tl16;
     if 60 + term_len \<noteq> header_len then Some (Inl (Invalid HeaderLengthMismatch)) else do {
     flags \<leftarrow> be_u16 bs 12;
     if flags AND NOT 1 \<noteq> 0 then Some (Inl (Invalid ReservedFlags)) else do {
     run \<leftarrow> subslice 14 30 bs;
     case from_v7 ver run of None \<Rightarrow> Some (Inl (Invalid RunIdVersion)) | Some rid \<Rightarrow> do {
     index \<leftarrow> be_u32 bs 30;
     first_raw \<leftarrow> be_u64 bs 34;
     case new_sequence first_raw of None \<Rightarrow> Some (Inl (Invalid FirstSequence)) | Some first \<Rightarrow>
     if index = 0 \<and> first \<noteq> first_sequence then Some (Inl (Invalid FirstSequence)) else do {
     rows \<leftarrow> be_u16 bs 50;
     cols \<leftarrow> be_u16 bs 52;
     case new_geometry rows cols of None \<Rightarrow> Some (Inl (Invalid ZeroGeometry)) | Some geo \<Rightarrow> do {
     trm \<leftarrow> subslice 56 (56 + term_len) bs;
     case (if utf8_valid trm then new_term_name trm else Inl TermInvalidByte) of
       Inl e \<Rightarrow> Some (Inl (Invalid TermByte))
     | Inr name \<Rightarrow> do {
     origin \<leftarrow> be_u64 bs 42;
     Some (Inr (\<lparr>hdr_run_id = rid, hdr_index = index, hdr_first = first, hdr_origin = origin,
       hdr_geometry = geo, hdr_input = (flags AND 1 \<noteq> 0), hdr_term = name\<rparr>, header_len))
     }}}}}}}"

definition decode_header :: "(bytes \<Rightarrow> u32) \<Rightarrow> (bytes \<Rightarrow> nat) \<Rightarrow> bytes
    \<Rightarrow> (decode_error_kind, segment_header \<times> nat) panicking" where
  "decode_header crc ver bs =
     (if length bs < 60 then Some (Inl (Corrupt HeaderIncomplete)) else do {
      magic \<leftarrow> subslice 0 8 bs;
      if magic \<noteq> rec_magic then Some (Inl BadMagic) else do {
      version \<leftarrow> be_u16 bs 8;
      if version \<noteq> format_version then Some (Inl (UnsupportedVersion version)) else do {
      hl16 \<leftarrow> be_u16 bs 10;
      let header_len = unat hl16;
      if \<not> (60 \<le> header_len \<and> header_len \<le> 60 + max_term_len)
      then Some (Inl (Corrupt HeaderLength))
      else if length bs < header_len then Some (Inl (Corrupt HeaderIncomplete)) else do {
      let crc_at = header_len - 4;
      covered \<leftarrow> subslice 0 crc_at bs;
      stored \<leftarrow> be_u32 bs crc_at;
      if crc covered \<noteq> stored then Some (Inl (Corrupt HeaderChecksum))
      else decode_header_fields ver bs header_len
      }}}})"

text \<open>The payload of a record by its kind byte.\<close>

definition decode_payload :: "u8 \<Rightarrow> bytes \<Rightarrow> bool \<Rightarrow> (violation, record_kind) panicking" where
  "decode_payload kind payload inp =
     (if kind = 1 then
        (if payload = [] then Some (Inl PayloadSize) else Some (Inr (Output payload)))
      else if kind = 3 then
        (if payload = [] then Some (Inl PayloadSize)
         else if \<not> inp then Some (Inl InputNotRecorded)
         else Some (Inr (Input payload)))
      else if kind = 2 then
        (if length payload \<noteq> 9 then Some (Inl PayloadSize) else do {
         rows \<leftarrow> be_u16 payload 0;
         cols \<leftarrow> be_u16 payload 2;
         case new_geometry rows cols of None \<Rightarrow> Some (Inl ZeroGeometry) | Some geo \<Rightarrow> do {
         corr \<leftarrow> be_u32 payload 5;
         cause \<leftarrow> at_index payload 4;
         if cause = 1 \<and> corr = 0 then Some (Inr (Resize geo CauseUser))
         else if cause = 2 then
           (if corr = 0 then Some (Inl Correlation) else Some (Inr (Resize geo (CauseRepaint corr))))
         else if cause = 1 then Some (Inl Correlation)
         else Some (Inl (UnknownResizeCause cause))
         }})
      else Some (Inl (UnknownKind kind)))"

definition decode_body :: "bytes \<Rightarrow> segment_header \<Rightarrow> segment_summary \<Rightarrow> (violation, rec) panicking"
where
  "decode_body body h s = do {
     kind \<leftarrow> at_index body 0;
     seq_raw \<leftarrow> be_u64 body 1;
     elapsed \<leftarrow> be_u64 body 9;
     payload \<leftarrow> subslice 17 (length body) body;
     res \<leftarrow> decode_payload kind payload (hdr_input h);
     case res of Inl v \<Rightarrow> Some (Inl v) | Inr k \<Rightarrow>
     (case sum_next s of
        None \<Rightarrow> Some (Inl SequenceViolation)
      | Some expected \<Rightarrow>
          if seq_get expected \<noteq> seq_raw then Some (Inl SequenceViolation)
          else if (case sum_elapsed s of Some previous \<Rightarrow> elapsed < previous | None \<Rightarrow> False)
          then Some (Inl ElapsedRegressed)
          else Some (Inr \<lparr>rec_sequence = expected, rec_elapsed = elapsed, rec_kind = k\<rparr>))
   }"

text \<open>
  One turn of the loop over records at \<open>pos\<close>: the segment ends here, or a record of a length.
  \<open>fresh\<close> says that no record was decoded yet.
\<close>

definition decode_step :: "(bytes \<Rightarrow> u32) \<Rightarrow> bytes \<Rightarrow> segment_header \<Rightarrow> u64 option \<Rightarrow> nat
    \<Rightarrow> segment_summary \<Rightarrow> bool \<Rightarrow> (decode_error, segment_end + rec \<times> nat) panicking" where
  "decode_step crc bs h previous pos s fresh =
     (if length bs < pos then None
      else let remaining = length bs - pos in
      if remaining = 0 then Some (Inr (Inl Clean))
      else if remaining < 8 then Some (Inr (Inl (Truncated pos)))
      else do {
      word \<leftarrow> be_u32 bs pos;
      check \<leftarrow> be_u32 bs (pos + 4);
      if check \<noteq> NOT word then Some (Inl (error_at (Corrupt LengthCheck) pos (sum_last s)))
      else let body_len = unat word in
      if \<not> (17 \<le> body_len \<and> body_len \<le> 17 + max_payload)
      then Some (Inl (error_at (Corrupt LengthBounds) pos (sum_last s)))
      else let record_len = 8 + body_len + 4 in
      if remaining < record_len then Some (Inr (Inl (Truncated pos)))
      else do {
      let crc_at = pos + 8 + body_len;
      covered \<leftarrow> subslice pos crc_at bs;
      stored \<leftarrow> be_u32 bs crc_at;
      if crc covered \<noteq> stored then Some (Inl (error_at (Corrupt RecordChecksum) pos (sum_last s)))
      else do {
      body \<leftarrow> subslice (pos + 8) crc_at bs;
      res \<leftarrow> decode_body body h s;
      case res of
        Inl v \<Rightarrow> Some (Inl (error_at (Invalid v) pos (sum_last s)))
      | Inr r \<Rightarrow>
          if fresh \<and> (case previous of Some p \<Rightarrow> rec_elapsed r < p | None \<Rightarrow> False)
          then Some (Inl (error_at (Invalid SegmentElapsed) pos None))
          else Some (Inr (Inr (r, record_len)))
      }}})"

definition advance_summary :: "rec \<Rightarrow> segment_summary \<Rightarrow> segment_summary" where
  "advance_summary r s =
     s\<lparr>sum_next := next_sequence (rec_sequence r), sum_last := Some (rec_sequence r),
       sum_elapsed := Some (rec_elapsed r),
       sum_geometry := (case rec_kind r of Resize g c \<Rightarrow> g | _ \<Rightarrow> sum_geometry s)\<rparr>"

lemma decode_step_record:
  assumes "decode_step crc bs h previous pos s fresh = Some (Inr (Inr (r, len)))"
  obtains w where "be_u32 bs pos = Some w" and "be_u32 bs (pos + 4) = Some (NOT w)"
    and "17 \<le> unat w" and "unat w \<le> 17 + max_payload" and "len = 12 + unat w"
    and "pos + len \<le> length bs"
    and "be_u32 bs (pos + 8 + unat w) = Some (crc (take (8 + unat w) (drop pos bs)))"
    and "decode_body (take (unat w) (drop (pos + 8) bs)) h s = Some (Inr r)"
    and "fresh \<Longrightarrow> (case previous of Some p \<Rightarrow> p \<le> rec_elapsed r | None \<Rightarrow> True)"
  using assms
  by (auto simp: decode_step_def Let_def not_less split: if_splits sum.splits Option.bind_splits option.splits)

lemma decode_step_len:
  "decode_step crc bs h previous pos s fresh = Some (Inr (Inr (r, len))) \<Longrightarrow> 29 \<le> len \<and> pos + len \<le> length bs"
  by (erule decode_step_record) simp

function decode_loop :: "(bytes \<Rightarrow> u32) \<Rightarrow> bytes \<Rightarrow> segment_header \<Rightarrow> u64 option \<Rightarrow> nat
    \<Rightarrow> segment_summary \<Rightarrow> rec list
    \<Rightarrow> (decode_error, rec list \<times> segment_end \<times> segment_summary) panicking" where
  "decode_loop crc bs h previous pos s records =
     (case decode_step crc bs h previous pos s (records = []) of
        None \<Rightarrow> None
      | Some (Inl e) \<Rightarrow> Some (Inl e)
      | Some (Inr (Inl ending)) \<Rightarrow> Some (Inr (records, ending, s))
      | Some (Inr (Inr (r, len))) \<Rightarrow>
          decode_loop crc bs h previous (pos + len) (advance_summary r s) (records @ [r]))"
  by pat_completeness auto
termination
  by (relation "measure (\<lambda>(crc, bs, h, previous, pos, s, records). length bs - pos)")
     (auto dest!: decode_step_len)

declare decode_loop.simps [simp del]

definition decode_segment_with_summary :: "(bytes \<Rightarrow> u32) \<Rightarrow> (bytes \<Rightarrow> nat) \<Rightarrow> bytes \<Rightarrow> continuity option
    \<Rightarrow> (decode_error, decoded_segment \<times> segment_summary) panicking" where
  "decode_segment_with_summary crc ver bs cont = do {
     res \<leftarrow> decode_header crc ver bs;
     case res of
       Inl k \<Rightarrow> Some (Inl (error_at k 0 None))
     | Inr (h, header_len) \<Rightarrow>
     (case (case cont of None \<Rightarrow> None | Some c \<Rightarrow> check_header_continuity h c) of
        Some v \<Rightarrow> Some (Inl (error_at (Invalid v) 0 None))
      | None \<Rightarrow> do {
          let previous = (case cont of None \<Rightarrow> None
            | Some c \<Rightarrow> (case con_previous c of None \<Rightarrow> None | Some (first, prev) \<Rightarrow> sum_elapsed prev));
          let s = \<lparr>sum_header_len = header_len, sum_next = Some (hdr_first h), sum_last = None,
                   sum_elapsed = None, sum_geometry = hdr_geometry h\<rparr>;
          out \<leftarrow> decode_loop crc bs h previous header_len s [];
          case out of
            Inl e \<Rightarrow> Some (Inl e)
          | Inr (records, ending, s') \<Rightarrow>
              Some (Inr (\<lparr>seg_header = h, seg_records = records, seg_end = ending\<rparr>, s'))
        })
   }"

definition decode_segment :: "(bytes \<Rightarrow> u32) \<Rightarrow> (bytes \<Rightarrow> nat) \<Rightarrow> bytes
    \<Rightarrow> (decode_error, decoded_segment) panicking" where
  "decode_segment crc ver bs =
     map_option (map_sum id fst) (decode_segment_with_summary crc ver bs None)"

text \<open>The loop over segments, with what it carries from one to the next.\<close>

fun or_else :: "'a option \<Rightarrow> 'a option \<Rightarrow> 'a option" where
  "or_else (Some x) y = Some x"
| "or_else None y = y"

fun decode_segments :: "(bytes \<Rightarrow> u32) \<Rightarrow> (bytes \<Rightarrow> nat) \<Rightarrow> bytes list \<Rightarrow> segment_header option
    \<Rightarrow> segment_summary option \<Rightarrow> rec list \<Rightarrow> segment_end \<Rightarrow> u32
    \<Rightarrow> (decode_error, decoded_recording) panicking" where
  "decode_segments crc ver [] first previous records ending position =
     (case first of
        None \<Rightarrow> None
      | Some h \<Rightarrow> Some (Inr \<lparr>dec_header = h, dec_segment_count = position, dec_records = records,
                          dec_end = ending\<rparr>))"
| "decode_segments crc ver (bs # rest) first previous records ending position =
     (let last_so_far = (case previous of None \<Rightarrow> None | Some p \<Rightarrow> sum_last p);
          cont = \<lparr>con_position = position,
                  con_previous = (case (first, previous) of (Some f, Some p) \<Rightarrow> Some (f, p) | _ \<Rightarrow> None)\<rparr>
      in (case decode_segment_with_summary crc ver bs (Some cont) of
            None \<Rightarrow> None
          | Some (Inl e) \<Rightarrow>
              Some (Inl (e\<lparr>err_segment := Some position, err_last := or_else (err_last e) last_so_far\<rparr>))
          | Some (Inr (seg, s)) \<Rightarrow>
              (case (seg_end seg, rest) of
                 (Truncated offset, _ # _) \<Rightarrow>
                   Some (Inl \<lparr>err_kind = Corrupt TruncatedInteriorSegment, err_segment = Some position,
                              err_offset = offset, err_last = or_else (sum_last s) last_so_far\<rparr>)
               | _ \<Rightarrow>
                   if seg_records seg = [] \<and> rest \<noteq> []
                   then Some (Inl \<lparr>err_kind = Invalid EmptyInteriorSegment, err_segment = Some position,
                              err_offset = sum_header_len s, err_last = last_so_far\<rparr>)
                   else (case checked_succ position of
                           None \<Rightarrow> Some (Inl \<lparr>err_kind = Invalid SegmentIndex,
                             err_segment = Some position, err_offset = 0, err_last = last_so_far\<rparr>)
                         | Some position' \<Rightarrow>
                             decode_segments crc ver rest
                               (case first of None \<Rightarrow> Some (seg_header seg) | Some f \<Rightarrow> Some f)
                               (Some s) (records @ seg_records seg) (seg_end seg) position'))))"

definition decode_recording :: "(bytes \<Rightarrow> u32) \<Rightarrow> (bytes \<Rightarrow> nat) \<Rightarrow> bytes list
    \<Rightarrow> (decode_error, decoded_recording) panicking" where
  "decode_recording crc ver segments =
     (if segments = [] then Some (Inl (error_at (Invalid NoSegments) 0 None))
      else decode_segments crc ver segments None None [] Clean 0)"

end
