(* ===== verification/Event_Time.thy ===== *)
theory Event_Time
  imports Std_Text "HOL-Library.Signed_Division"
begin

text \<open>
  The timestamps of the event log (\<open>src/src/model/event.rs\<close>): microseconds since the epoch,
  printed in the fixed-width RFC 3339 form and parsed back from exactly that form, through
  conversions between days and civil dates, whose signed division truncates (\<open>sdiv\<close>). They are on unbounded integers: a day
  count below \<open>2 ^ 64 / 86400\<close>, as every \<open>u64\<close> number of seconds gives, keeps every intermediate
  value of the code within an \<open>i64\<close>.
\<close>

subsection \<open>Civil dates\<close>

definition civil_from_days :: "int \<Rightarrow> int \<times> nat \<times> nat" where
  "civil_from_days z0 =
     (let z = z0 + 719468;
          era = (if z \<ge> 0 then z else z - 146096) sdiv 146097;
          doe = nat (z - era * 146097);
          yoe = (doe - doe div 1460 + doe div 36524 - doe div 146096) div 365;
          y = int yoe + era * 400;
          doy = doe - (365 * yoe + yoe div 4 - yoe div 100);
          mp = (5 * doy + 2) div 153;
          d = doy - (153 * mp + 2) div 5 + 1;
          m = (if mp < 10 then mp + 3 else mp - 9)
      in (if m \<le> 2 then y + 1 else y, m, d))"

definition days_from_civil :: "int \<Rightarrow> nat \<Rightarrow> nat \<Rightarrow> int" where
  "days_from_civil y0 m d =
     (let y = (if m \<le> 2 then y0 - 1 else y0);
          era = (if y \<ge> 0 then y else y - 399) sdiv 400;
          yoe = nat (y - era * 400);
          doy = (153 * (if m > 2 then m - 3 else m + 9) + 2) div 5 + d - 1;
          doe = yoe * 365 + yoe div 4 - yoe div 100 + doy
      in era * 146097 + int doe - 719468)"

subsection \<open>Timestamps\<close>

datatype event_timestamp = EventTimestamp (ts_secs: u64) (ts_micros: u32)

text \<open>The derived order compares the fields in their order.\<close>

instantiation event_timestamp :: linorder
begin

definition less_event_timestamp :: "event_timestamp \<Rightarrow> event_timestamp \<Rightarrow> bool" where
  "a < b \<longleftrightarrow> ts_secs a < ts_secs b \<or> ts_secs a = ts_secs b \<and> ts_micros a < ts_micros b"

definition less_eq_event_timestamp :: "event_timestamp \<Rightarrow> event_timestamp \<Rightarrow> bool" where
  "a \<le> b \<longleftrightarrow> ts_secs a < ts_secs b \<or> ts_secs a = ts_secs b \<and> ts_micros a \<le> ts_micros b"

instance
  by standard (auto simp: less_event_timestamp_def less_eq_event_timestamp_def
      event_timestamp.expand)

end

text \<open>\<open>{n:0w}\<close> for an unsigned number.\<close>

definition pad_num :: "nat \<Rightarrow> nat \<Rightarrow> bytes" where
  "pad_num w n = replicate (w - length (show_nat n)) 0x30 @ show_nat n"

definition show_timestamp :: "event_timestamp \<Rightarrow> bytes" where
  "show_timestamp t =
     (let secs = unat (ts_secs t); (y, mo, d) = civil_from_days (int (secs div 86400)); r = secs mod 86400
      in pad_num 4 (nat y) @ 0x2d # pad_num 2 mo @ 0x2d # pad_num 2 d @ 0x54 #
         pad_num 2 (r div 3600) @ 0x3a # pad_num 2 (r mod 3600 div 60) @ 0x3a #
         pad_num 2 (r mod 60) @ 0x2e # pad_num 6 (unat (ts_micros t)) @ [0x5a])"

text \<open>The closure \<open>num\<close> of the parser: a part of the string that is all digits, as a number.\<close>

definition ts_num :: "nat \<Rightarrow> nat \<Rightarrow> bytes \<Rightarrow> nat option" where
  "ts_num a b s =
     (let part = take (b - a) (drop a s)
      in if list_all is_digit part then parse_uint (2 ^ 64 - 1) part else None)"

text \<open>\<open>None\<close> is \<open>TimestampParseError\<close>.\<close>

definition parse_timestamp :: "bytes \<Rightarrow> event_timestamp option" where
  "parse_timestamp s =
     (if length s \<noteq> 27 \<or> s ! 4 \<noteq> 0x2d \<or> s ! 7 \<noteq> 0x2d \<or> s ! 10 \<noteq> 0x54 \<or> s ! 13 \<noteq> 0x3a \<or>
         s ! 16 \<noteq> 0x3a \<or> s ! 19 \<noteq> 0x2e \<or> s ! 26 \<noteq> 0x5a then None
      else do {
        year \<leftarrow> ts_num 0 4 s;
        month \<leftarrow> ts_num 5 7 s;
        day \<leftarrow> ts_num 8 10 s;
        hour \<leftarrow> ts_num 11 13 s;
        minute \<leftarrow> ts_num 14 16 s;
        sec \<leftarrow> ts_num 17 19 s;
        micros \<leftarrow> ts_num 20 26 s;
        if \<not> (1 \<le> month \<and> month \<le> 12) \<or> \<not> (1 \<le> day \<and> day \<le> 31) then None
        else if 23 < hour \<or> 59 < minute \<or> 59 < sec then None
        else let days = days_from_civil (int year) month day in
          if civil_from_days days \<noteq> (int year, month, day) then None
          else if days < 0 then None
          else Some (EventTimestamp
            (of_nat (nat days * 86400 + hour * 3600 + minute * 60 + sec)) (of_nat micros))
      })"

text \<open>\<open>parse_flexible\<close>: up to nine digits of a fraction, cut or padded to six.\<close>

definition parse_flexible :: "bytes \<Rightarrow> event_timestamp option" where
  "parse_flexible s =
     (if s = [] \<or> List.last s \<noteq> 0x5a then None
      else let rest = butlast s;
               (secs_part, fraction) = (case split_once 0x2e rest of
                  Some (sp, f) \<Rightarrow> (sp, f) | None \<Rightarrow> (rest, []))
           in if 9 < length fraction \<or> \<not> list_all is_digit fraction then None
              else let micros = take 6 fraction @ replicate (6 - length fraction) 0x30
                   in parse_timestamp (secs_part @ 0x2e # micros @ [0x5a]))"

definition ts_epoch_secs :: "event_timestamp \<Rightarrow> u64" where
  "ts_epoch_secs t = ts_secs t"

definition ts_epoch_micros :: "event_timestamp \<Rightarrow> u64" where
  "ts_epoch_micros t = ts_secs t * 1000000 + ucast (ts_micros t)"

subsection \<open>From days to a date and back\<close>

text \<open>
  A day of a 400-year era, which starts on the first of March, is in one of its four centuries,
  25 four-year blocks and their years; the 366th day of a year is a leap day.
\<close>

definition era_day :: "nat \<Rightarrow> nat \<Rightarrow> nat \<Rightarrow> nat \<Rightarrow> bool" where
  "era_day c q r t \<longleftrightarrow> c < 4 \<and> q < 25 \<and> r < 4 \<and> t < 366 \<and> (t = 365 \<longrightarrow> r = 3 \<and> (q < 24 \<or> c = 3))"

lemma capped_div:
  fixes x :: nat
  assumes "x < k * n + e" "e \<le> k" "0 < n" "0 < k"
  obtains q r where "x = k * q + r" "q < n" "r < k + e" "r < k \<or> q = n - 1"
proof (cases "x div k < n")
  case True
  have "x = k * (x div k) + x mod k" "x mod k < k" using assms(4) by simp_all
  with True that [of "x div k" "x mod k"] show thesis by linarith
next
  case False
  then have "k * n \<le> x" using assms(4) by (simp add: not_less less_eq_div_iff_mult_less_eq mult.commute)
  moreover have "k * n = k * (n - 1) + k" using assms(3) by (cases n) simp_all
  ultimately show thesis using assms that [of "n - 1" "x - k * (n - 1)"] by linarith
qed

lemma era_day_of:
  assumes "doe < 146097"
  obtains c q r t where "doe = 36524 * c + 1461 * q + 365 * r + t" "era_day c q r t"
proof -
  from assms obtain c x where c: "doe = 36524 * c + x" "c < 4" "x < 36525" "x < 36524 \<or> c = 3"
    using capped_div [of doe 36524 4 1] by auto
  from c(3) obtain q w where q: "x = 1461 * q + w" "q < 25" "w < 1461"
    using capped_div [of x 1461 25 0] by auto
  from q(3) obtain r t where r: "w = 365 * r + t" "r < 4" "t < 366" "t < 365 \<or> r = 3"
    using capped_div [of w 365 4 1] by auto
  have "q < 24 \<or> c = 3" if "t = 365"
    using that r(1,4) q(1,2) c(4) by linarith
  then have "era_day c q r t" using c q r by (auto simp: era_day_def)
  then show thesis using that [of c q r t] c(1) q(1) r(1) by simp
qed

lemma year_balance:
  fixes doe :: nat
  assumes "doe + c = y + g + t" "e = g + z" "D - F = c" "F \<le> D" "e \<le> doe" "z \<le> t"
  shows "doe - e + D - F = y + (t - z)"
  using assms by linarith

lemma era_year:
  assumes "era_day c q r t"
  shows "(let doe = 36524 * c + 1461 * q + 365 * r + t
          in (doe - doe div 1460 + doe div 36524 - doe div 146096) div 365) = 100 * c + 4 * q + r"
proof -
  let ?w = "24 * c + q + 365 * r + t"
  define doe where "doe = 36524 * c + 1461 * q + 365 * r + t"
  have b: "c < 4" "q < 25" "r < 4" "t < 366" "t = 365 \<longrightarrow> r = 3 \<and> (q < 24 \<or> c = 3)"
    using assms by (auto simp: era_day_def)
  have "doe = 1460 * (25 * c + q) + ?w" by (simp add: doe_def)
  then have e: "doe div 1460 = 25 * c + q + ?w div 1460" by simp
  have w: "?w div 1460 = (if t = 365 \<or> 1460 \<le> ?w then 1 else 0)" "t = 365 \<longrightarrow> 1460 \<le> ?w"
    "1460 \<le> ?w \<longrightarrow> 0 < t"
    using b by auto
  have c: "doe div 36524 - doe div 146096 = c \<and> doe div 146096 \<le> doe div 36524"
  proof (cases "1461 * q + 365 * r + t < 36524")
    case True
    then have "doe div 36524 = c" "doe div 146096 = 0" using b(1) by (simp_all add: doe_def)
    then show ?thesis by simp
  next
    case False
    then have "q = 24" "r = 3" "t = 365" using b by linarith+
    then have "c = 3" using b by simp
    then show ?thesis using \<open>q = 24\<close> \<open>r = 3\<close> \<open>t = 365\<close> by (simp add: doe_def)
  qed
  have "doe + c = 365 * (100 * c + 4 * q + r) + (25 * c + q) + t" by (simp add: doe_def)
  moreover have t: "?w div 1460 \<le> t \<and> t - ?w div 1460 < 365" using w b(4) by auto
  ultimately have "doe - doe div 1460 + doe div 36524 - doe div 146096 =
      365 * (100 * c + 4 * q + r) + (t - ?w div 1460)"
    by (intro year_balance [OF _ e]) (use c div_le_dividend [of doe 1460] in simp_all)
  moreover have "z < 365 \<Longrightarrow> (365 * y + z) div 365 = y" for y z :: nat by simp
  then have "(365 * (100 * c + 4 * q + r) + (t - ?w div 1460)) div 365 = 100 * c + 4 * q + r"
    using t by blast
  ultimately show ?thesis unfolding Let_def doe_def [symmetric] by (simp only:)
qed

lemma sdiv_floor: "0 < k \<Longrightarrow> (if z \<ge> 0 then z else z - (k - 1)) sdiv k = z div k" for z k :: int
proof (cases "z \<ge> 0")
  case True
  assume "0 < k"
  with True show ?thesis by (simp add: signed_divide_int_def sgn_if)
next
  case False
  assume k: "0 < k"
  have "k - 1 - z = k * (- (z div k)) + (k - 1 - z mod k)"
    by (simp add: minus_mod_eq_mult_div [symmetric] algebra_simps)
  moreover have "0 \<le> k - 1 - z mod k" "k - 1 - z mod k < k" using pos_mod_bound [OF k, of z] pos_mod_sign [OF k, of z] by linarith+
  ultimately have "(k - 1 - z) div k = - (z div k)"
    using k by (metis div_mult_self2 div_pos_pos_trivial add.commute add_0_right less_irrefl)
  then show ?thesis using False k by (simp add: signed_divide_int_def sgn_if)
qed

lemma sdiv_era:
  "(if z \<ge> 0 then z else z - 146096) sdiv 146097 = (z :: int) div 146097"
  "(if z \<ge> 0 then z else z - 399) sdiv 400 = (z :: int) div 400"
  using sdiv_floor [of 146097 z] sdiv_floor [of 400 z] by (cases "z \<ge> 0"; simp)+

text \<open>Month and day of the \<open>t\<close>th day from the first of March.\<close>

definition month_index :: "nat \<Rightarrow> nat" where
  "month_index t = (5 * t + 2) div 153"

definition month_day :: "nat \<Rightarrow> nat" where
  "month_day t = t - (153 * month_index t + 2) div 5 + 1"

lemma month_bounds:
  assumes "t < 366"
  shows "month_index t \<le> 11" "1 \<le> month_day t" "month_day t \<le> 31"
    "(153 * month_index t + 2) div 5 + month_day t - 1 = t"
  using assms by (simp_all add: month_index_def month_day_def)


lemma split_days:
  obtains E c q r t where "z + 719468 = E * 146097 + int (36524 * c + 1461 * q + 365 * r + t)"
    "era_day c q r t"
proof -
  have "nat ((z + 719468) mod 146097) < 146097" by (simp add: nat_less_iff)
  then obtain c q r t where "nat ((z + 719468) mod 146097) = 36524 * c + 1461 * q + 365 * r + t"
      "era_day c q r t"
    by (rule era_day_of)
  moreover have "z + 719468 = (z + 719468) div 146097 * 146097 + int (nat ((z + 719468) mod 146097))"
    by simp
  ultimately show thesis using that by metis
qed

text \<open>Era, year of the era and day of the year, as the conversions see them.\<close>

lemma civil_split:
  assumes z: "z + 719468 = E * 146097 + int (36524 * c + 1461 * q + 365 * r + t)" and d: "era_day c q r t"
  shows "civil_from_days z =
    (E * 400 + int (100 * c + 4 * q + r) + (if month_index t < 10 then 0 else 1),
     if month_index t < 10 then month_index t + 3 else month_index t - 9, month_day t)"
proof -
  let ?doe = "36524 * c + 1461 * q + 365 * r + t" and ?y = "100 * c + 4 * q + r"
  have b: "c < 4" "q < 25" "r < 4" "t < 366" using d by (auto simp: era_day_def)
  have lt: "?doe < 146097" using d by (auto simp: era_day_def)
  have era: "(if z + 719468 \<ge> 0 then z + 719468 else z + 719468 - 146096) sdiv 146097 = E"
  proof -
    have "(z + 719468) div 146097 = E" unfolding z using lt by simp
    then show ?thesis unfolding sdiv_era .
  qed
  have doe: "nat (z + 719468 - E * 146097) = ?doe" unfolding z by (simp only: add_diff_cancel_left' nat_int)
  have year: "(?doe - ?doe div 1460 + ?doe div 36524 - ?doe div 146096) div 365 = ?y"
    using era_year [OF d] by (simp only: Let_def)
  have "?y div 4 = 25 * c + q" "?y div 100 = c" using b by simp_all
  then have doy: "?doe - (365 * ?y + ?y div 4 - ?y div 100) = t" by simp
  show ?thesis
    unfolding civil_from_days_def Let_def era doe year doy
      month_index_def [symmetric] month_day_def [symmetric]
    using month_bounds(1) [OF b(4)] by (simp add: add.commute) linarith
qed

lemma days_split:
  assumes d: "era_day c q r t"
  shows "days_from_civil (E * 400 + int (100 * c + 4 * q + r) + (if month_index t < 10 then 0 else 1))
     (if month_index t < 10 then month_index t + 3 else month_index t - 9) (month_day t) =
    E * 146097 + int (36524 * c + 1461 * q + 365 * r + t) - 719468"
proof -
  let ?y = "100 * c + 4 * q + r"
  define y0 m where "y0 = E * 400 + int ?y + (if month_index t < 10 then 0 else 1)"
    and "m = (if month_index t < 10 then month_index t + 3 else month_index t - 9)"
  have b: "c < 4" "q < 25" "r < 4" "t < 366" using d by (auto simp: era_day_def)
  note mb = month_bounds [OF b(4)]
  have y: "(if m \<le> 2 then y0 - 1 else y0) = E * 400 + int ?y"
    using mb(1) by (auto simp: y0_def m_def)
  have "(E * 400 + int ?y) div 400 = E" using b by simp
  then have era: "(if E * 400 + int ?y \<ge> 0 then E * 400 + int ?y else E * 400 + int ?y - 399) sdiv 400 = E"
    unfolding sdiv_era .
  have yoe: "nat (E * 400 + int ?y - E * 400) = ?y" by simp
  have mp: "(if m > 2 then m - 3 else m + 9) = month_index t" using mb(1) by (auto simp: m_def)
  have "?y div 4 = 25 * c + q" "?y div 100 = c" using b by simp_all
  then have doe: "?y * 365 + ?y div 4 - ?y div 100 + t = 36524 * c + 1461 * q + 365 * r + t" by simp
  show ?thesis
    unfolding days_from_civil_def Let_def y0_def [symmetric] m_def [symmetric] y era yoe mp mb(4) doe ..
qed

lemma days_civil: "(case civil_from_days z of (y, m, d) \<Rightarrow> days_from_civil y m d) = z"
proof -
  obtain E c q r t where z: "z + 719468 = E * 146097 + int (36524 * c + 1461 * q + 365 * r + t)"
    "era_day c q r t" by (rule split_days)
  show ?thesis unfolding civil_split [OF z] prod.case days_split [OF z(2)] using z(1) by linarith
qed

lemma civil_bounds:
  assumes "civil_from_days z = (y, m, d)"
  shows "1 \<le> m \<and> m \<le> 12 \<and> 1 \<le> d \<and> d \<le> 31"
proof -
  obtain E c q r t where z: "z + 719468 = E * 146097 + int (36524 * c + 1461 * q + 365 * r + t)"
    "era_day c q r t" by (rule split_days)
  have "t < 366" using z(2) by (simp add: era_day_def)
  from month_bounds [OF this] show ?thesis using assms civil_split [OF z] by (auto split: if_splits)
qed


subsection \<open>Fixed-width numbers\<close>

lemma foldl_digits: "foldl (\<lambda>n d. n * 10 + (unat (d :: u8) - 48)) n ds = n * 10 ^ length ds + digits_val ds"
proof (induction ds rule: rev_induct)
  case Nil
  then show ?case by (simp add: digits_val_def)
next
  case (snoc d ds)
  then show ?case by (simp add: digits_val_snoc algebra_simps)
qed

lemma digits_val_Cons: "digits_val (d # ds) = (unat d - 48) * 10 ^ length ds + digits_val ds"
  using foldl_digits [of "unat d - 48" ds] by (simp add: digits_val_def)

lemma is_digit_bounds: "is_digit b \<longleftrightarrow> 48 \<le> unat b \<and> unat b \<le> 57"
  by (simp add: is_digit_def word_le_nat_alt)

lemma digits_val_less: "list_all is_digit ds \<Longrightarrow> digits_val ds < 10 ^ length ds"
proof (induction ds)
  case Nil
  then show ?case by (simp add: digits_val_def)
next
  case (Cons d ds)
  then have "unat d - 48 \<le> 9" by (auto simp: is_digit_bounds)
  then have "(unat d - 48) * 10 ^ length ds \<le> 9 * 10 ^ length ds"
    by (rule mult_le_mono1)
  then have "(unat d - 48) * 10 ^ length ds + digits_val ds < 9 * 10 ^ length ds + 10 ^ length ds"
    using Cons by (intro add_le_less_mono) simp_all
  then show ?case by (simp add: digits_val_Cons)
qed

lemma lex_step: "(a :: nat) < k \<Longrightarrow> b < k \<Longrightarrow> x * k + a < y * k + b \<longleftrightarrow> x < y \<or> x = y \<and> a < b"
proof -
  assume "a < k" "b < k"
  then have "(x * k + a) div k = x" "(y * k + b) div k = y" by simp_all
  moreover have "x * k + a < y * k + b \<Longrightarrow> (x * k + a) div k \<le> (y * k + b) div k"
    by (intro div_le_mono) simp
  moreover have "x < y \<Longrightarrow> x * k + a < y * k + b"
  proof -
    assume "x < y"
    then have "Suc x * k \<le> y * k" by (intro mult_le_mono1) simp
    then show ?thesis using \<open>a < k\<close> by simp
  qed
  ultimately show ?thesis by (metis add_less_cancel_left nat_less_le)
qed

lemma digit_step: "(a :: nat) < k \<Longrightarrow> b < k \<Longrightarrow> x * k + a = y * k + b \<longleftrightarrow> x = y \<and> a = b"
  using lex_step [of a k b x y] lex_step [of b k a y x] by (metis nat_neq_iff)

text \<open>Digit strings of one length compare as their values, and are determined by them.\<close>

lemma digits_lex:
  assumes "length ds = length es" "list_all is_digit ds" "list_all is_digit es"
  shows "ord_class.lexordp (ds @ x) (es @ y) \<longleftrightarrow>
    digits_val ds < digits_val es \<or> digits_val ds = digits_val es \<and> ord_class.lexordp x y"
  using assms
proof (induction ds es rule: list_induct2)
  case Nil
  then show ?case by (simp add: digits_val_def)
next
  case (Cons d ds e es)
  have v: "digits_val ds < 10 ^ length es" "digits_val es < 10 ^ length es"
    using digits_val_less [of ds] digits_val_less [of es] Cons by simp_all
  have "unat d < unat e \<longleftrightarrow> unat d - 48 < unat e - 48" "unat d = unat e \<longleftrightarrow> unat d - 48 = unat e - 48"
    "unat e < unat d \<longleftrightarrow> unat e - 48 < unat d - 48"
    using Cons.prems by (auto simp: is_digit_bounds)
  moreover have "digits_val (d # ds) < digits_val (e # es) \<longleftrightarrow>
      unat d - 48 < unat e - 48 \<or> unat d - 48 = unat e - 48 \<and> digits_val ds < digits_val es"
    using lex_step [OF v] Cons.hyps by (simp add: digits_val_Cons)
  moreover have "digits_val (d # ds) = digits_val (e # es) \<longleftrightarrow>
      unat d - 48 = unat e - 48 \<and> digits_val ds = digits_val es"
    using digit_step [OF v] Cons.hyps by (simp add: digits_val_Cons)
  ultimately show ?case using Cons
    by (auto simp: word_less_nat_alt word_unat_eq_iff)
qed

lemma digits_inj:
  assumes "length ds = length es" "list_all is_digit ds" "list_all is_digit es"
    "digits_val ds = digits_val es"
  shows "ds = es"
  using assms
proof (induction ds es rule: list_induct2)
  case (Cons d ds e es)
  then have v: "digits_val ds < 10 ^ length es" "digits_val es < 10 ^ length es"
    using digits_val_less [of ds] digits_val_less [of es] by simp_all
  have "unat d - 48 = unat e - 48 \<and> digits_val ds = digits_val es"
    using Cons.prems(3) Cons.hyps digit_step [OF v] by (simp add: digits_val_Cons)
  then show ?case using Cons
    by (auto simp: is_digit_bounds word_unat_eq_iff)
qed simp

lemma digits_val_zeros: "digits_val (replicate k 0x30 @ ds) = digits_val ds"
  by (induction k) (simp_all add: digits_val_Cons)

lemma pad_num_digits:
  assumes "n < 10 ^ w" "0 < w"
  shows "length (pad_num w n) = w" "list_all is_digit (pad_num w n)" "digits_val (pad_num w n) = n"
proof -
  have "length (show_nat n) \<le> w" using assms length_show_nat [of n "w - 1"] by simp
  then show "length (pad_num w n) = w" by (simp add: pad_num_def)
  show "list_all is_digit (pad_num w n)"
    using show_nat_digits [of n] by (auto simp: pad_num_def list_all_iff is_digit_def)
  show "digits_val (pad_num w n) = n"
    by (simp add: pad_num_def digits_val_zeros digits_val_show_nat)
qed

lemma pad_num_parse:
  "list_all is_digit ds \<Longrightarrow> length ds = w \<Longrightarrow> 0 < w \<Longrightarrow> pad_num w (digits_val ds) = ds"
  using pad_num_digits [of "digits_val ds" w] digits_val_less [of ds] digits_inj [of _ ds] by simp

subsection \<open>Printing and parsing\<close>

text \<open>The timestamps up to the end of the year 9999, whose form is 27 bytes long.\<close>

definition printable :: "event_timestamp \<Rightarrow> bool" where
  "printable t \<longleftrightarrow> unat (ts_secs t) < 253402300800 \<and> unat (ts_micros t) < 1000000"

lemma civil_year:
  assumes "0 \<le> z" "z < 2932897" "civil_from_days z = (y, m, d)"
  shows "0 \<le> y \<and> y \<le> 9999"
proof -
  obtain E c q r t where z: "z + 719468 = E * 146097 + int (36524 * c + 1461 * q + 365 * r + t)"
    "era_day c q r t" by (rule split_days)
  have b: "c < 4" "q < 25" "r < 4" "t < 366" "36524 * c + 1461 * q + 365 * r + t < 146097"
    using z(2) by (auto simp: era_day_def)
  have E: "0 \<le> E" "E \<le> 24" using z(1) b(5) assms(1,2) by linarith+
  have y: "y = E * 400 + int (100 * c + 4 * q + r) + (if month_index t < 10 then 0 else 1)"
    using assms(3) civil_split [OF z] by simp
  have Y: "100 * c + 4 * q + r \<le> 399" using b by linarith
  have "month_index t < 10" if "E = 24" "100 * c + 4 * q + r = 399"
  proof -
    have "c = 3" "q = 24" "r = 3" using that(2) b by linarith+
    then have "t \<le> 305" using z(1) that(1) assms(2) by simp
    then show ?thesis by (simp add: month_index_def)
  qed
  then consider "month_index t < 10" | "100 * c + 4 * q + r \<le> 398" | "E \<le> 23"
    using Y E by linarith
  moreover define e :: int where "e = (if month_index t < 10 then 0 else 1)"
  then have "0 \<le> e" "e \<le> 1" "month_index t < 10 \<Longrightarrow> e = 0" by simp_all
  moreover have "y = E * 400 + int (100 * c + 4 * q + r) + e" using y by (simp add: e_def)
  ultimately show ?thesis using Y E by cases linarith+
qed

lemma ts_num_part:
  assumes "take (b - a) (drop a s) = p" "list_all is_digit p" "p \<noteq> []" "length p \<le> 6"
  shows "ts_num a b s = Some (digits_val p)"
proof -
  have "digits_val p < 10 ^ 6"
    using digits_val_less [OF assms(2)] assms(4) by (meson less_le_trans one_le_numeral power_increasing)
  moreover have "p ! 0 \<noteq> 43" using assms(2,3) by (cases p) (auto simp: is_digit_def)
  ultimately have "parse_uint (2 ^ 64 - 1) p = Some (digits_val p)"
    using assms(2,3) by (cases p) (auto simp: parse_uint_def parse_digits_def)
  then show ?thesis using assms by (simp add: ts_num_def Let_def)
qed

definition ts_string :: "bytes \<Rightarrow> bytes \<Rightarrow> bytes \<Rightarrow> bytes \<Rightarrow> bytes \<Rightarrow> bytes \<Rightarrow> bytes \<Rightarrow> bytes" where
  "ts_string A B C D E F G =
     A @ 0x2d # B @ 0x2d # C @ 0x54 # D @ 0x3a # E @ 0x3a # F @ 0x2e # G @ [0x5a]"

definition ts_digits :: "bytes list \<Rightarrow> bool" where
  "ts_digits ps \<longleftrightarrow> list_all (list_all is_digit) ps \<and> map length ps = [4, 2, 2, 2, 2, 2, 6]"

text \<open>The fields of a date and time that the parser accepts.\<close>

definition ts_fields :: "nat \<Rightarrow> nat \<Rightarrow> nat \<Rightarrow> nat \<Rightarrow> nat \<Rightarrow> nat \<Rightarrow> bool" where
  "ts_fields y mo d h mi s \<longleftrightarrow> 1 \<le> mo \<and> mo \<le> 12 \<and> 1 \<le> d \<and> d \<le> 31 \<and> h \<le> 23 \<and> mi \<le> 59 \<and> s \<le> 59 \<and>
     civil_from_days (days_from_civil (int y) mo d) = (int y, mo, d) \<and>
     0 \<le> days_from_civil (int y) mo d"

lemma parse_ts_string:
  assumes "ts_digits [A, B, C, D, E, F, G]"
  shows "parse_timestamp (ts_string A B C D E F G) =
    (if ts_fields (digits_val A) (digits_val B) (digits_val C) (digits_val D) (digits_val E) (digits_val F)
     then Some (EventTimestamp
       (of_nat (nat (days_from_civil (int (digits_val A)) (digits_val B) (digits_val C)) * 86400 +
          digits_val D * 3600 + digits_val E * 60 + digits_val F))
       (of_nat (digits_val G)))
     else None)"
proof -
  let ?s = "ts_string A B C D E F G"
  have len: "length A = 4" "length B = 2" "length C = 2" "length D = 2" "length E = 2" "length F = 2"
      "length G = 6"
    and dig: "list_all is_digit A" "list_all is_digit B" "list_all is_digit C" "list_all is_digit D"
      "list_all is_digit E" "list_all is_digit F" "list_all is_digit G"
    using assms by (simp_all add: ts_digits_def)
  have "ts_num 0 4 ?s = Some (digits_val A)" "ts_num 5 7 ?s = Some (digits_val B)"
      "ts_num 8 10 ?s = Some (digits_val C)" "ts_num 11 13 ?s = Some (digits_val D)"
      "ts_num 14 16 ?s = Some (digits_val E)" "ts_num 17 19 ?s = Some (digits_val F)"
      "ts_num 20 26 ?s = Some (digits_val G)"
    by (rule ts_num_part; use len dig in \<open>auto simp: ts_string_def\<close>)+
  moreover have "length ?s = 27" "?s ! 4 = 0x2d" "?s ! 7 = 0x2d" "?s ! 10 = 0x54" "?s ! 13 = 0x3a"
      "?s ! 16 = 0x3a" "?s ! 19 = 0x2e" "?s ! 26 = 0x5a"
    using len by (simp_all add: ts_string_def nth_append)
  ultimately show ?thesis
    unfolding parse_timestamp_def by (auto simp: ts_fields_def Let_def)
qed

lemma parse_timestamp_shape:
  assumes "parse_timestamp s = Some t"
  obtains A B C D E F G where "s = ts_string A B C D E F G" "ts_digits [A, B, C, D, E, F, G]"
proof -
  have len: "length s = 27" and sep: "s ! 4 = 0x2d" "s ! 7 = 0x2d" "s ! 10 = 0x54" "s ! 13 = 0x3a"
      "s ! 16 = 0x3a" "s ! 19 = 0x2e" "s ! 26 = 0x5a"
    using assms by (auto simp: parse_timestamp_def split: if_splits)
  have dig: "list_all is_digit (take 4 (drop 0 s))" "list_all is_digit (take 2 (drop 5 s))"
      "list_all is_digit (take 2 (drop 8 s))" "list_all is_digit (take 2 (drop 11 s))"
      "list_all is_digit (take 2 (drop 14 s))" "list_all is_digit (take 2 (drop 17 s))"
      "list_all is_digit (take 6 (drop 20 s))"
    using assms by (auto simp: parse_timestamp_def ts_num_def bind_eq_Some_conv Let_def split: if_splits)
  have step: "drop k s = take n (drop k s) @ s ! (k + n) # drop (k + n + 1) s" if "k + n < 27" for k n
    using that len by (metis Cons_nth_drop_Suc Suc_eq_plus1 append_take_drop_id drop_drop add.commute)
  have "s = ts_string (take 4 (drop 0 s)) (take 2 (drop 5 s)) (take 2 (drop 8 s)) (take 2 (drop 11 s))
      (take 2 (drop 14 s)) (take 2 (drop 17 s)) (take 6 (drop 20 s))"
    using step [of 0 4] step [of 5 2] step [of 8 2] step [of 11 2] step [of 14 2] step [of 17 2]
      step [of 20 6] sep len by (simp add: ts_string_def)
  moreover have "ts_digits [take 4 (drop 0 s), take 2 (drop 5 s), take 2 (drop 8 s), take 2 (drop 11 s),
      take 2 (drop 14 s), take 2 (drop 17 s), take 6 (drop 20 s)]"
    using dig len by (simp add: ts_digits_def)
  ultimately show thesis by (rule that)
qed

lemma show_ts_string:
  assumes "printable t"
    and "civil_from_days (int (unat (ts_secs t) div 86400)) = (y, mo, d)"
  defines "r \<equiv> unat (ts_secs t) mod 86400"
  defines "ps \<equiv> [pad_num 4 (nat y), pad_num 2 mo, pad_num 2 d, pad_num 2 (r div 3600),
      pad_num 2 (r mod 3600 div 60), pad_num 2 (r mod 60), pad_num 6 (unat (ts_micros t))]"
  shows "show_timestamp t = ts_string (ps ! 0) (ps ! 1) (ps ! 2) (ps ! 3) (ps ! 4) (ps ! 5) (ps ! 6)"
    and "ts_digits ps"
    and "map digits_val ps = [nat y, mo, d, r div 3600, r mod 3600 div 60, r mod 60, unat (ts_micros t)]"
    and "int (nat y) = y"
proof -
  have "int (unat (ts_secs t) div 86400) < 2932897"
    using assms(1) less_mult_imp_div_less [of "unat (ts_secs t)" 2932897 86400]
    by (simp add: printable_def)
  then have y: "0 \<le> y" "y \<le> 9999" using civil_year [OF _ _ assms(2)] by simp_all
  then show "int (nat y) = y" by simp
  have r: "r < 86400" by (simp add: r_def)
  have m: "mo \<le> 12" "d \<le> 31" using civil_bounds [OF assms(2)] by auto
  have b: "nat y < 10 ^ 4" "mo < 10 ^ 2" "d < 10 ^ 2" "r div 3600 < 10 ^ 2" "r mod 3600 div 60 < 10 ^ 2"
      "r mod 60 < 10 ^ 2" "unat (ts_micros t) < 10 ^ 6"
    using y m r assms(1) by (simp_all add: printable_def less_mult_imp_div_less)
  show "show_timestamp t = ts_string (ps ! 0) (ps ! 1) (ps ! 2) (ps ! 3) (ps ! 4) (ps ! 5) (ps ! 6)"
    by (simp add: show_timestamp_def ts_string_def Let_def assms(2) ps_def r_def)
  show "ts_digits ps"
    using pad_num_digits(1,2) [OF b(1)] pad_num_digits(1,2) [OF b(2)] pad_num_digits(1,2) [OF b(3)]
      pad_num_digits(1,2) [OF b(4)] pad_num_digits(1,2) [OF b(5)] pad_num_digits(1,2) [OF b(6)]
      pad_num_digits(1,2) [OF b(7)] by (simp add: ts_digits_def ps_def)
  show "map digits_val ps = [nat y, mo, d, r div 3600, r mod 3600 div 60, r mod 60, unat (ts_micros t)]"
    using pad_num_digits(3) [OF b(1)] pad_num_digits(3) [OF b(2)] pad_num_digits(3) [OF b(3)]
      pad_num_digits(3) [OF b(4)] pad_num_digits(3) [OF b(5)] pad_num_digits(3) [OF b(6)]
      pad_num_digits(3) [OF b(7)] by (simp add: ps_def)
qed

lemma hms: "(n :: nat) = n div 86400 * 86400 + (n mod 86400) div 3600 * 3600 +
    (n mod 86400) mod 3600 div 60 * 60 + (n mod 86400) mod 60"
proof -
  have "(n mod 86400) mod 60 = (n mod 86400) mod 3600 mod 60"
    by (simp add: mod_mod_cancel)
  then show ?thesis using div_mult_mod_eq [of n 86400] div_mult_mod_eq [of "n mod 86400" 3600]
      div_mult_mod_eq [of "n mod 86400 mod 3600" 60] by linarith
qed

lemma parse_show:
  assumes "printable t"
  shows "parse_timestamp (show_timestamp t) = Some t"
proof -
  obtain y mo d where c: "civil_from_days (int (unat (ts_secs t) div 86400)) = (y, mo, d)"
    by (metis prod_cases3)
  note S = show_ts_string [OF assms c]
  define r where "r = unat (ts_secs t) mod 86400"
  have days: "days_from_civil y mo d = int (unat (ts_secs t) div 86400)"
    using days_civil [of "int (unat (ts_secs t) div 86400)"] c by simp
  have r: "r < 86400" by (simp add: r_def)
  have "r mod 3600 < 3600" by simp
  then have "r div 3600 \<le> 23" "r mod 3600 div 60 \<le> 59" "r mod 60 \<le> 59"
    using r by linarith+
  then have f: "ts_fields (nat y) mo d (r div 3600) (r mod 3600 div 60) (r mod 60)"
    using civil_bounds [OF c] days c S(4) r
    by (simp add: ts_fields_def less_mult_imp_div_less)
  have "nat (days_from_civil y mo d) * 86400 + r div 3600 * 3600 + r mod 3600 div 60 * 60 + r mod 60 =
      unat (ts_secs t)"
    using hms [of "unat (ts_secs t)"] unfolding days r_def by simp
  moreover have "parse_timestamp (show_timestamp t) =
    Some (EventTimestamp (of_nat (nat (days_from_civil y mo d) * 86400 + r div 3600 * 3600 +
        r mod 3600 div 60 * 60 + r mod 60)) (of_nat (unat (ts_micros t))))"
    unfolding S(1) using S(2,3,4) f
    by (subst parse_ts_string) (simp_all add: r_def)
  ultimately show ?thesis by (cases t) simp
qed

lemma unat_ts_fields:
  assumes "ts_fields y mo d h mi s" "y < 10000"
  shows "nat (days_from_civil (int y) mo d) * 86400 + h * 3600 + mi * 60 + s < 253402300800"
proof -
  have b: "mo \<le> 12" "1 \<le> d" "d \<le> 31" "h \<le> 23" "mi \<le> 59" "s \<le> 59" using assms(1) by (auto simp: ts_fields_def)
  define n where "n = nat (days_from_civil (int y) mo d)"
  have "int y \<le> 9999" using assms(2) by simp
  have "n < 2932897"
  proof (rule ccontr)
    assume "\<not> n < 2932897"
    then have ge: "2932897 \<le> days_from_civil (int y) mo d" by (simp add: n_def)
    let ?z = "days_from_civil (int y) mo d"
    obtain E c q r t where z: "?z + 719468 = E * 146097 + int (36524 * c + 1461 * q + 365 * r + t)"
      "era_day c q r t" by (rule split_days)
    have c: "civil_from_days ?z = (int y, mo, d)" using assms(1) by (simp add: ts_fields_def)
    have yE: "int y = E * 400 + int (100 * c + 4 * q + r) + (if month_index t < 10 then 0 else 1)"
      using civil_split [OF z] c by simp
    have era: "c < 4" "q < 25" "r < 4" "t < 366" "36524 * c + 1461 * q + 365 * r + t < 146097"
      using z(2) by (auto simp: era_day_def)
    have "24 \<le> E" using z(1) era(5) ge by linarith
    moreover have "E < 25" using yE \<open>int y \<le> 9999\<close> by (auto split: if_splits)
    ultimately have E: "E = 24" by simp
    then have "146037 \<le> 36524 * c + 1461 * q + 365 * r + t" using z(1) ge by simp
    then have crt: "c = 3" "q = 24" "r = 3" "306 \<le> t" using era by linarith+
    then have "10 \<le> month_index t" by (simp add: month_index_def)
    then show False using yE E crt \<open>int y \<le> 9999\<close> by simp
  qed
  then show ?thesis using b unfolding n_def [symmetric] by linarith
qed

lemma day_parts:
  fixes q :: nat
  assumes "p < 86400"
  shows "(q * 86400 + p) div 86400 = q" "(q * 86400 + p) mod 86400 = p"
  using assms by simp_all

lemma hms_parts:
  fixes h m l :: nat
  assumes "m \<le> 59" "l \<le> 59"
  shows "(h * 3600 + m * 60 + l) div 3600 = h" "(h * 3600 + m * 60 + l) mod 3600 div 60 = m"
    "(h * 3600 + m * 60 + l) mod 60 = l"
proof -
  have a: "h * 3600 + m * 60 + l = h * 3600 + (m * 60 + l)" "m * 60 + l < 3600" using assms by simp_all
  then show "(h * 3600 + m * 60 + l) div 3600 = h" by simp
  have "(h * 3600 + (m * 60 + l)) mod 3600 = m * 60 + l" using a(2) by simp
  then show "(h * 3600 + m * 60 + l) mod 3600 div 60 = m" unfolding a(1) using assms by simp
  have "h * 3600 + m * 60 + l = (h * 60 + m) * 60 + l" by simp
  then show "(h * 3600 + m * 60 + l) mod 60 = l" using assms(2) by (simp only: mod_mult_self3) simp
qed

lemma show_parse:
  assumes "parse_timestamp s = Some t"
  shows "printable t \<and> show_timestamp t = s"
proof -
  obtain A B C D E F G where s: "s = ts_string A B C D E F G" and d: "ts_digits [A, B, C, D, E, F, G]"
    using parse_timestamp_shape [OF assms] by metis
  let ?secs = "nat (days_from_civil (int (digits_val A)) (digits_val B) (digits_val C)) * 86400 +
      digits_val D * 3600 + digits_val E * 60 + digits_val F"
  have f: "ts_fields (digits_val A) (digits_val B) (digits_val C) (digits_val D) (digits_val E) (digits_val F)"
    and t: "t = EventTimestamp (of_nat ?secs) (of_nat (digits_val G))"
    using assms parse_ts_string [OF d] s by (auto split: if_splits)
  have dl: "digits_val A < 10000" "digits_val G < 1000000"
    using digits_val_less [of A] digits_val_less [of G] d by (simp_all add: ts_digits_def)
  have "?secs < 253402300800" using unat_ts_fields [OF f dl(1)] .
  then have "unat (of_nat ?secs :: u64) = ?secs" by (subst unat_of_nat) simp
  then have u: "unat (ts_secs t) = ?secs" "unat (ts_micros t) = digits_val G"
    using t dl(2) by (simp_all only: event_timestamp.sel) (simp add: unat_of_nat)
  then have p: "printable t" using \<open>?secs < 253402300800\<close> dl by (simp add: printable_def)
  have b: "digits_val D \<le> 23" "digits_val E \<le> 59" "digits_val F \<le> 59" using f by (auto simp: ts_fields_def)
  have "digits_val D * 3600 + digits_val E * 60 + digits_val F < 86400" using b by linarith
  from day_parts [OF this]
  have div: "?secs div 86400 = nat (days_from_civil (int (digits_val A)) (digits_val B) (digits_val C))"
    "?secs mod 86400 = digits_val D * 3600 + digits_val E * 60 + digits_val F"
    by (simp_all only: add.assoc)
  have r: "(digits_val D * 3600 + digits_val E * 60 + digits_val F) div 3600 = digits_val D"
    "(digits_val D * 3600 + digits_val E * 60 + digits_val F) mod 3600 div 60 = digits_val E"
    "(digits_val D * 3600 + digits_val E * 60 + digits_val F) mod 60 = digits_val F"
    using hms_parts [OF b(2,3)] by simp_all
  have "civil_from_days (int (?secs div 86400)) = (int (digits_val A), digits_val B, digits_val C)"
    unfolding div using f by (simp add: ts_fields_def)
  moreover have "pad_num 4 (digits_val A) = A" "pad_num 2 (digits_val B) = B" "pad_num 2 (digits_val C) = C"
    "pad_num 2 (digits_val D) = D" "pad_num 2 (digits_val E) = E" "pad_num 2 (digits_val F) = F"
    "pad_num 6 (digits_val G) = G"
    using d by (simp_all add: ts_digits_def pad_num_parse)
  ultimately have "show_timestamp t = s"
    unfolding show_timestamp_def u Let_def s ts_string_def div(2) r by simp
  with p show ?thesis by simp
qed

lemma era_day_mono:
  assumes "era_day c q r t" "era_day c' q' r' t'"
    and lt: "36524 * c + 1461 * q + 365 * r + t < 36524 * c' + 1461 * q' + 365 * r' + t'"
  shows "100 * c + 4 * q + r < 100 * c' + 4 * q' + r' \<or>
    100 * c + 4 * q + r = 100 * c' + 4 * q' + r' \<and> t < t'"
proof -
  have b: "c < 4" "q < 25" "r < 4" "t < 366" "t = 365 \<longrightarrow> r = 3 \<and> (q < 24 \<or> c = 3)"
    using assms(1) by (auto simp: era_day_def)
  have b': "c' < 4" "q' < 25" "r' < 4" "t' < 366" "t' = 365 \<longrightarrow> r' = 3 \<and> (q' < 24 \<or> c' = 3)"
    using assms(2) by (auto simp: era_day_def)
  have w': "1461 * q' + 365 * r' + t' < 36524 \<or> c' = 3" "365 * r' + t' < 1461" "t' < 365 \<or> r' = 3"
    using b' by linarith+
  have "c \<le> c'"
  proof (rule ccontr)
    assume "\<not> c \<le> c'"
    then have "36524 * c' + 36524 \<le> 36524 * c" "c' \<noteq> 3" using b(1) by linarith+
    then show False using lt w'(1) by linarith
  qed
  moreover have "q \<le> q'" if "c = c'"
  proof (rule ccontr)
    assume "\<not> q \<le> q'"
    then have "1461 * q' + 1461 \<le> 1461 * q" by linarith
    then show False using lt w'(2) that by linarith
  qed
  moreover have "r \<le> r'" if "c = c'" "q = q'"
  proof (rule ccontr)
    assume "\<not> r \<le> r'"
    then have "365 * r' + 365 \<le> 365 * r" "r' \<noteq> 3" using b(3) by linarith+
    then show False using lt w'(3) that by linarith
  qed
  ultimately consider "c < c'" | "c = c'" "q < q'" | "c = c'" "q = q'" "r < r'"
    | "c = c'" "q = q'" "r = r'" by linarith
  then show ?thesis using b(2,3) b'(2,3) lt by cases linarith+
qed

lemma month_mono:
  assumes "t < t'" "t' < 366"
  shows "month_index t < month_index t' \<or> month_index t = month_index t' \<and> month_day t < month_day t'"
proof -
  have "month_index t \<le> month_index t'"
    unfolding month_index_def using assms(1) by (intro div_le_mono) simp
  moreover have "month_day t < month_day t'" if "month_index t = month_index t'"
    using month_bounds(2,4) [of t] month_bounds(2,4) [of t'] assms that by linarith
  ultimately show ?thesis by linarith
qed

text \<open>Later days have later dates.\<close>

lemma civil_mono:
  assumes "z1 < z2" "civil_from_days z1 = (y1, m1, d1)" "civil_from_days z2 = (y2, m2, d2)"
  shows "y1 < y2 \<or> y1 = y2 \<and> (m1 < m2 \<or> m1 = m2 \<and> d1 < d2)"
proof -
  obtain E c q r t where z: "z1 + 719468 = E * 146097 + int (36524 * c + 1461 * q + 365 * r + t)"
    "era_day c q r t" by (rule split_days)
  obtain E' c' q' r' t' where z': "z2 + 719468 = E' * 146097 + int (36524 * c' + 1461 * q' + 365 * r' + t')"
    "era_day c' q' r' t'" by (rule split_days)
  define Y Y' where "Y = E * 400 + int (100 * c + 4 * q + r)" and "Y' = E' * 400 + int (100 * c' + 4 * q' + r')"
  have b: "t < 366" "t' < 366" "36524 * c + 1461 * q + 365 * r + t < 146097"
      "36524 * c' + 1461 * q' + 365 * r' + t' < 146097" "100 * c + 4 * q + r \<le> 399"
    using z(2) z'(2) by (auto simp: era_day_def)
  have "E \<le> E'" using assms(1) z(1) z'(1) b(3,4) by linarith
  then consider "E < E'" | "E = E'" by linarith
  then have "Y < Y' \<or> Y = Y' \<and> t < t'"
  proof cases
    case 1
    then show ?thesis using b(5) unfolding Y_def Y'_def by linarith
  next
    case 2
    then have "36524 * c + 1461 * q + 365 * r + t < 36524 * c' + 1461 * q' + 365 * r' + t'"
      using assms(1) z(1) z'(1) by linarith
    from era_day_mono [OF z(2) z'(2) this] show ?thesis using 2 unfolding Y_def Y'_def by linarith
  qed
  moreover have c1: "y1 = Y + (if month_index t < 10 then 0 else 1)"
      "m1 = (if month_index t < 10 then month_index t + 3 else month_index t - 9)" "d1 = month_day t"
    using civil_split [OF z] assms(2) by (simp_all add: Y_def)
  moreover have c2: "y2 = Y' + (if month_index t' < 10 then 0 else 1)"
      "m2 = (if month_index t' < 10 then month_index t' + 3 else month_index t' - 9)" "d2 = month_day t'"
    using civil_split [OF z'] assms(3) by (simp_all add: Y'_def)
  ultimately show ?thesis
    using month_bounds(1) [OF b(1)] month_bounds(1) [OF b(2)] month_mono [OF _ b(2), of t]
    by (auto split: if_splits)
qed

lemma hms_lex_vars:
  fixes q h m l q' h' m' l' :: nat
  assumes "q * 86400 + h * 3600 + m * 60 + l < q' * 86400 + h' * 3600 + m' * 60 + l'"
    "h < 24" "m < 60" "l < 60" "h' < 24" "m' < 60" "l' < 60"
  shows "q < q' \<or> q = q' \<and> (h < h' \<or> h = h' \<and> (m < m' \<or> m = m' \<and> l < l'))"
proof -
  have "((q * 24 + h) * 60 + m) * 60 + l < ((q' * 24 + h') * 60 + m') * 60 + l'"
    using assms(1) by simp
  then show ?thesis using assms(2-) by (simp add: lex_step) linarith
qed

lemma hms_lex:
  assumes "(a :: nat) < b"
  shows "a div 86400 < b div 86400 \<or> a div 86400 = b div 86400 \<and>
    (a mod 86400 div 3600 < b mod 86400 div 3600 \<or> a mod 86400 div 3600 = b mod 86400 div 3600 \<and>
     (a mod 86400 mod 3600 div 60 < b mod 86400 mod 3600 div 60 \<or>
      a mod 86400 mod 3600 div 60 = b mod 86400 mod 3600 div 60 \<and> a mod 86400 mod 60 < b mod 86400 mod 60))"
proof (rule hms_lex_vars)
  have b: "n mod 86400 mod 60 < 60" "n mod 86400 mod 3600 div 60 < 60" "n mod 86400 div 3600 < 24" for n :: nat
    by (simp_all add: less_mult_imp_div_less)
  show "a mod 86400 div 3600 < 24" "a mod 86400 mod 3600 div 60 < 60" "a mod 86400 mod 60 < 60"
    "b mod 86400 div 3600 < 24" "b mod 86400 mod 3600 div 60 < 60" "b mod 86400 mod 60 < 60"
    by (rule b)+
  show "a div 86400 * 86400 + a mod 86400 div 3600 * 3600 + a mod 86400 mod 3600 div 60 * 60 +
      a mod 86400 mod 60 < b div 86400 * 86400 + b mod 86400 div 3600 * 3600 +
      b mod 86400 mod 3600 div 60 * 60 + b mod 86400 mod 60"
    unfolding hms [symmetric] by (rule assms)
qed

lemma ts_string_lex:
  assumes "ts_digits [A, B, C, D, E, F, G]" "ts_digits [A', B', C', D', E', F', G']"
  shows "ord_class.lexordp (ts_string A B C D E F G) (ts_string A' B' C' D' E' F' G') \<longleftrightarrow>
    ord_class.lexordp (map digits_val [A, B, C, D, E, F, G]) (map digits_val [A', B', C', D', E', F', G'])"
proof -
  have len: "length A = length A'" "length B = length B'" "length C = length C'" "length D = length D'"
      "length E = length E'" "length F = length F'" "length G = length G'"
    and dig: "list_all is_digit A" "list_all is_digit B" "list_all is_digit C" "list_all is_digit D"
      "list_all is_digit E" "list_all is_digit F" "list_all is_digit G" "list_all is_digit A'"
      "list_all is_digit B'" "list_all is_digit C'" "list_all is_digit D'" "list_all is_digit E'"
      "list_all is_digit F'" "list_all is_digit G'"
    using assms by (simp_all add: ts_digits_def)
  have tail: "ord_class.lexordp (x # xs) (x # ys) = ord_class.lexordp xs ys" for x :: u8 and xs ys
    by simp
  show ?thesis
    unfolding ts_string_def
    by (simp add: digits_lex len dig) auto
qed

lemma seven_lex:
  fixes y :: nat
  assumes "q < q' \<longrightarrow> y < y' \<or> y = y' \<and> (mo < mo' \<or> mo = mo' \<and> d < d')"
    and "q = q' \<longrightarrow> y = y' \<and> mo = mo' \<and> d = d'"
    and "q < q' \<or> q = q' \<and> (h < h' \<or> h = h' \<and> (m < m' \<or> m = m' \<and> (l < l' \<or> l = l' \<and> u < u')))"
  shows "ord_class.lexordp [y, mo, d, h, m, l, u] [y', mo', d', h', m', l', u']"
  using assms by auto

lemma show_less:
  assumes "printable t" "printable u" "t < u"
  shows "ord_class.lexordp (show_timestamp t) (show_timestamp u)"
proof -
  obtain y mo d where c: "civil_from_days (int (unat (ts_secs t) div 86400)) = (y, mo, d)"
    by (metis prod_cases3)
  obtain y' mo' d' where c': "civil_from_days (int (unat (ts_secs u) div 86400)) = (y', mo', d')"
    by (metis prod_cases3)
  note S = show_ts_string [OF assms(1) c] and S' = show_ts_string [OF assms(2) c']
  have "unat (ts_secs t) < unat (ts_secs u) \<or> unat (ts_secs t) = unat (ts_secs u) \<and>
      unat (ts_micros t) < unat (ts_micros u)"
    using assms(3) by (auto simp: less_event_timestamp_def word_less_nat_alt)
  moreover have "(nat y < nat y' \<or> nat y = nat y' \<and> (mo < mo' \<or> mo = mo' \<and> d < d'))"
    if "unat (ts_secs t) div 86400 < unat (ts_secs u) div 86400"
  proof -
    from that have "int (unat (ts_secs t) div 86400) < int (unat (ts_secs u) div 86400)" by simp
    from civil_mono [OF this c c'] S(4) S'(4) show ?thesis by linarith
  qed
  moreover have "y = y' \<and> mo = mo' \<and> d = d'"
    if "unat (ts_secs t) div 86400 = unat (ts_secs u) div 86400"
    using c c' that by simp
  moreover have "unat (ts_secs t) div 86400 < unat (ts_secs u) div 86400 \<or>
      unat (ts_secs t) div 86400 = unat (ts_secs u) div 86400 \<and>
      (unat (ts_secs t) mod 86400 div 3600 < unat (ts_secs u) mod 86400 div 3600 \<or>
       unat (ts_secs t) mod 86400 div 3600 = unat (ts_secs u) mod 86400 div 3600 \<and>
       (unat (ts_secs t) mod 86400 mod 3600 div 60 < unat (ts_secs u) mod 86400 mod 3600 div 60 \<or>
        unat (ts_secs t) mod 86400 mod 3600 div 60 = unat (ts_secs u) mod 86400 mod 3600 div 60 \<and>
        (unat (ts_secs t) mod 86400 mod 60 < unat (ts_secs u) mod 86400 mod 60 \<or>
         unat (ts_secs t) mod 86400 mod 60 = unat (ts_secs u) mod 86400 mod 60 \<and>
         unat (ts_micros t) < unat (ts_micros u))))"
    using calculation(1) hms_lex [of "unat (ts_secs t)" "unat (ts_secs u)"] by metis
  ultimately have "ord_class.lexordp
      [nat y, mo, d, unat (ts_secs t) mod 86400 div 3600, unat (ts_secs t) mod 86400 mod 3600 div 60,
       unat (ts_secs t) mod 86400 mod 60, unat (ts_micros t)]
      [nat y', mo', d', unat (ts_secs u) mod 86400 div 3600, unat (ts_secs u) mod 86400 mod 3600 div 60,
       unat (ts_secs u) mod 86400 mod 60, unat (ts_micros u)]"
    by (intro seven_lex) simp_all
  then show ?thesis
    unfolding S(1) S'(1) S(3) [symmetric] S'(3) [symmetric]
    using ts_string_lex [OF S(2)] S'(2) by simp
qed

subsection \<open>Properties\<close>

text \<open>C31: The printed form is canonical: the parser accepts exactly the strings that some timestamp
  of the years 1970 to 9999 prints, and returns that timestamp, so impossible dates, other
  widths and dates before the epoch are refused.\<close>

theorem timestamp_canonical:
  "parse_timestamp s = Some t \<longleftrightarrow> printable t \<and> show_timestamp t = s"
  using parse_show [of t] show_parse [of s t] by auto

text \<open>Printed timestamps sort as bytes in the order of the times they name.\<close>

theorem timestamp_order:
  assumes "printable t" and "printable u"
  shows "ord_class.lexordp (show_timestamp t) (show_timestamp u) \<longleftrightarrow> t < u"
proof
  assume lex: "ord_class.lexordp (show_timestamp t) (show_timestamp u)"
  show "t < u"
  proof (rule ccontr)
    assume "\<not> t < u"
    then consider "u < t" | "t = u" by fastforce
    then show False
    proof cases
      case 1
      then show ?thesis using show_less [OF assms(2,1)] lex lexordp_antisym [where xs = "show_timestamp t"]
        by blast
    qed (use lex lexordp_irreflexive' [of "show_timestamp t"] in simp)
  qed
qed (rule show_less [OF assms])

theorem timestamp_order_witness:
  "printable (EventTimestamp 951782399 5) \<and> printable (EventTimestamp 951782400 0) \<and>
   ord_class.lexordp (show_timestamp (EventTimestamp 951782399 5)) (show_timestamp (EventTimestamp 951782400 0))"
proof -
  have "printable (EventTimestamp 951782399 5)" "printable (EventTimestamp 951782400 0)"
    by (simp_all add: printable_def)
  moreover have "EventTimestamp 951782399 5 < EventTimestamp 951782400 0"
    by (simp add: less_event_timestamp_def)
  ultimately show ?thesis using timestamp_order by blast
qed

end
