(* ===== verification/Recorder.thy ===== *)
theory Recorder
  imports Recording Interfaces Event_Time "HOL-Library.List_Lexorder"
begin

text \<open>
  The exact PTY recorder (\<open>src/src/recorder.rs\<close>): producers sequence records into a bounded backlog
  under a lock, a writer thread encodes them, rotates segments and appends them to storage, and a
  recording ends once, at the last completed append. The threads are the interleaving of the steps
  in \<open>recorder_op\<close>: each is one critical section, or one stretch of the writer's storage work; what
  storage answers and which waits are due are arguments of the steps. The brief locked updates
  inside \<open>prepare\<close> (segment count, last sync) fall together with its end.

  File sizes are natural numbers; the saturating addition of the size check is written out.
\<close>

subsection \<open>Limits and outcomes\<close>

record recorder_limits =
  lim_segment_bytes :: nat
  lim_max_bytes :: nat
  lim_backlog_bytes :: nat
  lim_close_timeout :: nat

text \<open>The close timeout is in seconds.\<close>

definition default_limits :: recorder_limits where
  "default_limits = \<lparr>lim_segment_bytes = 64 * 2 ^ 20, lim_max_bytes = 2 ^ 30,
     lim_backlog_bytes = 16 * 2 ^ 20, lim_close_timeout = 5\<rparr>"

text \<open>An \<open>io::ErrorKind\<close>, by its debug name.\<close>

type_synonym io_kind = bytes

datatype stop_reason = SizeLimit | WriteFailed io_kind | BacklogFull | Stalled

fun stop_reason_str :: "stop_reason \<Rightarrow> bytes" where
  "stop_reason_str SizeLimit = ascii ''size_limit''"
| "stop_reason_str (WriteFailed k) = ascii ''write_failed''"
| "stop_reason_str BacklogFull = ascii ''backlog_full''"
| "stop_reason_str Stalled = ascii ''stalled''"

record stopped =
  last_recorded :: "sequence option"
  stop_cause :: stop_reason

record recorder_summary =
  sm_recorded :: "sequence option"
  sm_synced :: "sequence option"
  sm_stopped :: "stopped option"
  sm_segments :: u32

subsection \<open>Segment files\<close>

definition segment_prefix :: bytes where "segment_prefix = ascii ''seg-''"
definition segment_suffix :: bytes where "segment_suffix = ascii ''.tndrrec''"

definition segment_file_name :: "nat \<Rightarrow> bytes" where
  "segment_file_name index = segment_prefix @ pad_num 8 index @ segment_suffix"

definition strip_suffix :: "bytes \<Rightarrow> bytes \<Rightarrow> bytes option" where
  "strip_suffix s xs = map_option rev (strip_prefix (rev s) (rev xs))"

definition is_segment_name :: "bytes \<Rightarrow> bool" where
  "is_segment_name name =
     (case strip_prefix segment_prefix name of
        None \<Rightarrow> False
      | Some rest \<Rightarrow>
          (case strip_suffix segment_suffix rest of
             None \<Rightarrow> False
           | Some i \<Rightarrow> length i = 8 \<and> list_all is_digit i))"

text \<open>The published segments of a directory listing, in recording order.\<close>

definition list_segments :: "bytes list \<Rightarrow> bytes list" where
  "list_segments names = sort (filter is_segment_name names)"

subsection \<open>The shared sequencer\<close>

text \<open>
  \<open>rs_reports\<close> and \<open>rs_sequenced\<close> are histories: the calls of the stop callback and the records that
  were given a sequence number.
\<close>

record rec_shared =
  rs_next :: "sequence option"
  rs_backlog :: "rec list"
  rs_backlog_bytes :: nat
  rs_accepting :: bool
  rs_appended :: "sequence option"
  rs_synced :: "sequence option"
  rs_segments :: u32
  rs_stopped :: "stopped option"
  rs_on_stop :: bool
  rs_writer_done :: bool
  rs_reports :: "stopped list"
  rs_sequenced :: "rec list"

definition resize_cost :: nat where "resize_cost = 16"

definition record_cost :: "rec \<Rightarrow> nat" where
  "record_cost r = (case rec_kind r of Output bs \<Rightarrow> length bs | Input bs \<Rightarrow> length bs | Resize g c \<Rightarrow> resize_cost)"

definition stop_recording :: "stop_reason \<Rightarrow> rec_shared \<Rightarrow> rec_shared" where
  "stop_recording reason s =
     (if rs_stopped s \<noteq> None then s
      else let st = \<lparr>last_recorded = rs_appended s, stop_cause = reason\<rparr>
        in s\<lparr>rs_stopped := Some st, rs_backlog := [], rs_backlog_bytes := 0, rs_on_stop := False,
             rs_reports := (if rs_on_stop s then rs_reports s @ [st] else rs_reports s)\<rparr>)"

text \<open>Elapsed nanoseconds saturate at the \<open>u64\<close> maximum.\<close>

definition elapsed_u64 :: "nat \<Rightarrow> u64" where
  "elapsed_u64 ns = (if ns < 2 ^ 64 then of_nat ns else - 1)"

definition saturating_usize :: "nat \<Rightarrow> nat" where
  "saturating_usize n = min (2 ^ 64 - 1) n"

definition enqueue :: "recorder_limits \<Rightarrow> nat \<Rightarrow> record_kind \<Rightarrow> rec_shared \<Rightarrow> rec_shared" where
  "enqueue lim clock kind s =
     (if rs_stopped s \<noteq> None \<or> \<not> rs_accepting s then s
      else (case rs_next s of
        None \<Rightarrow> stop_recording SizeLimit s
      | Some n \<Rightarrow>
          let r = \<lparr>rec_sequence = n, rec_elapsed = elapsed_u64 clock, rec_kind = kind\<rparr>
          in if lim_backlog_bytes lim < saturating_usize (rs_backlog_bytes s + record_cost r)
             then stop_recording BacklogFull s
             else s\<lparr>rs_next := next_sequence n, rs_backlog := rs_backlog s @ [r],
                    rs_backlog_bytes := rs_backlog_bytes s + record_cost r,
                    rs_sequenced := rs_sequenced s @ [r]\<rparr>))"

function chunks :: "nat \<Rightarrow> 'a list \<Rightarrow> 'a list list" where
  "chunks n xs = (if n = 0 \<or> xs = [] then [] else take n xs # chunks n (drop n xs))"
  by pat_completeness auto

termination
  by (relation "measure (\<lambda>(n, xs). length xs)") auto

declare chunks.simps [simp del]

text \<open>\<open>Recorder::output\<close>: the clock moves on by \<open>ticks\<close> before each chunk.\<close>

fun output_chunks :: "recorder_limits \<Rightarrow> nat list \<Rightarrow> bytes list \<Rightarrow> nat \<times> rec_shared \<Rightarrow> nat \<times> rec_shared" where
  "output_chunks lim ticks [] (clock, s) = (clock, s)"
| "output_chunks lim ticks (c # cs) (clock, s) =
     (let now = clock + (case ticks of [] \<Rightarrow> 0 | t # ts \<Rightarrow> t)
      in output_chunks lim (tl ticks) cs (now, enqueue lim now (Output c) s))"

definition record_output :: "recorder_limits \<Rightarrow> nat list \<Rightarrow> bytes \<Rightarrow> nat \<times> rec_shared \<Rightarrow> nat \<times> rec_shared" where
  "record_output lim ticks bs st = output_chunks lim ticks (chunks max_payload bs) st"

text \<open>\<open>applied\<close> is the window-size change itself, \<open>Some\<close> its error.\<close>

definition resize_applied :: "recorder_limits \<Rightarrow> io_kind option \<Rightarrow> geometry \<Rightarrow> resize_cause \<Rightarrow> nat
    \<Rightarrow> rec_shared \<Rightarrow> io_kind option \<times> rec_shared" where
  "resize_applied lim applied g c clock s =
     (case applied of Some e \<Rightarrow> (Some e, s) | None \<Rightarrow> (None, enqueue lim clock (Resize g c) s))"

definition start_shared :: "segment_header \<Rightarrow> rec_shared" where
  "start_shared h = \<lparr>rs_next = Some (hdr_first h), rs_backlog = [], rs_backlog_bytes = 0, rs_accepting = True,
     rs_appended = None, rs_synced = None, rs_segments = 0, rs_stopped = None, rs_on_stop = True,
     rs_writer_done = False, rs_reports = [], rs_sequenced = []\<rparr>"

definition summary_of :: "rec_shared \<Rightarrow> recorder_summary" where
  "summary_of s = \<lparr>sm_recorded = rs_appended s, sm_synced = rs_synced s, sm_stopped = rs_stopped s,
     sm_segments = rs_segments s\<rparr>"

subsection \<open>The writer's storage side\<close>

text \<open>\<open>rw_file\<close>: which published segment is open; \<open>rw_recorded\<close>: the records appended (a history).\<close>

record rec_writer =
  rw_encoder :: segment_encoder
  rw_file :: "nat option"
  rw_segment_len :: nat
  rw_total_len :: nat
  rw_last :: "sequence option"
  rw_unsynced :: bool
  rw_recorded :: "rec list"

definition new_writer :: "segment_encoder \<Rightarrow> rec_writer" where
  "new_writer e = \<lparr>rw_encoder = e, rw_file = None, rw_segment_len = 0, rw_total_len = 0, rw_last = None,
     rw_unsynced = False, rw_recorded = []\<rparr>"

text \<open>
  What storage answers: a segment may be renamed into place and its directory then fail to sync; a
  failed write leaves a part of the record; a cut may succeed and the seek after it fail.
\<close>

datatype publish_answer = Published | PublishRefused io_kind | PublishedUnsynced io_kind
datatype append_answer = AppendWhole | AppendTorn nat io_kind
datatype cut_answer = CutBack | CutNotDone | CutUnseeked

definition over_size :: "recorder_limits \<Rightarrow> rec_writer \<Rightarrow> nat \<Rightarrow> bool" where
  "over_size lim w adding \<longleftrightarrow> lim_max_bytes lim < saturating_usize (rw_total_len w + saturating_usize adding)"

definition publish_segment :: "recorder_limits \<Rightarrow> publish_answer \<Rightarrow> bytes \<Rightarrow> u32 \<Rightarrow> rec_writer \<Rightarrow> bytes list
    \<Rightarrow> rec_shared \<Rightarrow> stop_reason option \<times> rec_writer \<times> bytes list \<times> rec_shared" where
  "publish_segment lim ans header index w disk s =
     (if over_size lim w (length header) then (Some SizeLimit, w, disk, s)
      else (case ans of
        PublishRefused k \<Rightarrow> (Some (WriteFailed k), w, disk, s)
      | PublishedUnsynced k \<Rightarrow> (Some (WriteFailed k), w, disk @ [header], s)
      | Published \<Rightarrow>
          (None, w\<lparr>rw_file := Some (length disk), rw_segment_len := length header,
                   rw_total_len := rw_total_len w + length header\<rparr>, disk @ [header],
           s\<lparr>rs_segments := index + 1\<rparr>)))"

text \<open>\<open>None\<close> is the panic of an \<open>expect\<close>; the first component of a result is the reason to stop.\<close>

definition sync_segment :: "io_kind option \<Rightarrow> rec_writer \<Rightarrow> rec_shared
    \<Rightarrow> (stop_reason option \<times> rec_writer \<times> rec_shared) option" where
  "sync_segment ans w s =
     (if \<not> rw_unsynced w then Some (None, w, s)
      else if rw_file w = None then None
      else (case ans of
        Some k \<Rightarrow> Some (Some (WriteFailed k), w, s)
      | None \<Rightarrow> Some (None, w\<lparr>rw_unsynced := False\<rparr>, s\<lparr>rs_synced := rw_last w\<rparr>)))"

definition append_record :: "append_answer \<Rightarrow> bytes \<Rightarrow> rec_writer \<Rightarrow> bytes list
    \<Rightarrow> (stop_reason option \<times> rec_writer \<times> bytes list) option" where
  "append_record ans bs w disk =
     (case rw_file w of
        None \<Rightarrow> None
      | Some i \<Rightarrow>
          (case ans of
             AppendTorn k e \<Rightarrow>
               Some (Some (WriteFailed e), w, disk[i := disk ! i @ take (min k (length bs - 1)) bs])
           | AppendWhole \<Rightarrow>
               Some (None, w\<lparr>rw_segment_len := rw_segment_len w + length bs,
                             rw_total_len := rw_total_len w + length bs, rw_unsynced := True\<rparr>,
                     disk[i := disk ! i @ bs])))"

definition cut_back :: "cut_answer \<Rightarrow> nat \<Rightarrow> rec_writer \<Rightarrow> bytes list \<Rightarrow> rec_writer \<times> bytes list" where
  "cut_back ans len w disk =
     (case rw_file w of
        None \<Rightarrow> (w, disk)
      | Some i \<Rightarrow>
          (case ans of
             CutNotDone \<Rightarrow> (w, disk)
           | CutUnseeked \<Rightarrow> (w, disk[i := take len (disk ! i)])
           | CutBack \<Rightarrow>
               (w\<lparr>rw_total_len := rw_total_len w - (rw_segment_len w - len), rw_segment_len := len\<rparr>,
                disk[i := take len (disk ! i)])))"

definition invalid_record :: stop_reason where
  "invalid_record = WriteFailed (ascii ''InvalidData'')"

text \<open>The record encoded into the open segment, within the size limit.\<close>

definition prepare_here :: "(bytes \<Rightarrow> u32) \<Rightarrow> recorder_limits \<Rightarrow> rec \<Rightarrow> rec_writer \<times> bytes list \<times> rec_shared
    \<Rightarrow> ((stop_reason + bytes) \<times> rec_writer \<times> bytes list \<times> rec_shared) option" where
  "prepare_here crc lim r st =
     (case st of (w, disk, s) \<Rightarrow>
        (case encode crc r (rw_encoder w) of
           None \<Rightarrow> None
         | Some (Inl e, enc) \<Rightarrow> Some (Inl invalid_record, w\<lparr>rw_encoder := enc\<rparr>, disk, s)
         | Some (Inr bs, enc) \<Rightarrow>
             (if over_size lim w (length bs) then Some (Inl SizeLimit, w\<lparr>rw_encoder := enc\<rparr>, disk, s)
              else Some (Inr bs, w\<lparr>rw_encoder := enc\<rparr>, disk, s))))"

text \<open>The record encoded as the first of a new segment, synced and published first.\<close>

definition prepare_next :: "(bytes \<Rightarrow> u32) \<Rightarrow> recorder_limits \<Rightarrow> io_kind option \<Rightarrow> publish_answer \<Rightarrow> rec
    \<Rightarrow> segment_encoder \<Rightarrow> rec_writer \<times> bytes list \<times> rec_shared
    \<Rightarrow> ((stop_reason + bytes) \<times> rec_writer \<times> bytes list \<times> rec_shared) option" where
  "prepare_next crc lim synced published r next st =
     (case st of (w, disk, s) \<Rightarrow>
        (case encode crc r next of
           None \<Rightarrow> None
         | Some (Inl e, enc) \<Rightarrow> Some (Inl invalid_record, w, disk, s)
         | Some (Inr bs, enc) \<Rightarrow>
             (case header_bytes crc enc of
                None \<Rightarrow> None
              | Some header \<Rightarrow>
                  if over_size lim w (length header + length bs) then Some (Inl SizeLimit, w, disk, s)
                  else (case sync_segment synced w s of
                    None \<Rightarrow> None
                  | Some (Some reason, w1, s1) \<Rightarrow> Some (Inl reason, w1, disk, s1)
                  | Some (None, w1, s1) \<Rightarrow>
                      (case publish_segment lim published header (hdr_index (enc_header enc)) w1 disk s1 of
                         (Some reason, w2, disk2, s2) \<Rightarrow> Some (Inl reason, w2, disk2, s2)
                       | (None, w2, disk2, s2) \<Rightarrow> Some (Inr bs, w2\<lparr>rw_encoder := enc\<rparr>, disk2, s2))))))"

definition prepare_record :: "(bytes \<Rightarrow> u32) \<Rightarrow> recorder_limits \<Rightarrow> io_kind option \<Rightarrow> publish_answer \<Rightarrow> rec
    \<Rightarrow> rec_writer \<times> bytes list \<times> rec_shared
    \<Rightarrow> ((stop_reason + bytes) \<times> rec_writer \<times> bytes list \<times> rec_shared) option" where
  "prepare_record crc lim synced published r st =
     (case st of (w, disk, s) \<Rightarrow>
        (if lim_segment_bytes lim \<le> rw_segment_len w then
           (case next_segment (rw_encoder w) of
              Inr next \<Rightarrow> prepare_next crc lim synced published r next st
            | Inl e \<Rightarrow> prepare_here crc lim r st)
         else prepare_here crc lim r st))"

subsection \<open>The threads\<close>

text \<open>
  Where the writer stands: publishing the first segment, looking for a record, syncing while idle,
  holding a record, having attempted its append from segment length \<open>before\<close>, syncing on schedule,
  at the last sync, and at its end; \<open>WPanicked\<close> after a panic.
\<close>

datatype writer_stage = WStart | WLook | WIdleSync | WHolds rec
  | WAttempted rec nat bool "stop_reason option" | WScheduledSync | WLastSync | WEnding | WDone | WPanicked

record recorder_sys =
  ry_shared :: rec_shared
  ry_writer :: rec_writer
  ry_disk :: "bytes list"
  ry_stage :: writer_stage
  ry_clock :: nat

text \<open>The start: an encoder that refuses the header stops the recording before any segment.\<close>

definition start_recorder :: "segment_header \<Rightarrow> encode_error + recorder_sys" where
  "start_recorder h = map_sum id (\<lambda>e.
     \<lparr>ry_shared = start_shared h, ry_writer = new_writer e, ry_disk = [], ry_stage = WStart, ry_clock = 0\<rparr>)
     (new_encoder h)"

definition refused_start :: "segment_header \<Rightarrow> rec_shared" where
  "refused_start h = (stop_recording (WriteFailed (ascii ''InvalidInput'')) (start_shared h))\<lparr>rs_writer_done := True\<rparr>"

datatype recorder_op =
    OpOutput "nat list" bytes
  | OpResize nat "io_kind option" geometry resize_cause
  | OpClose
  | OpCloseTimeout
  | OpPublishFirst publish_answer
  | OpLook bool
  | OpIdleSync "io_kind option"
  | OpAttempt "io_kind option" publish_answer append_answer
  | OpSettle cut_answer bool
  | OpScheduledSync "io_kind option"
  | OpLastSync "io_kind option"
  | OpWriterEnd

definition stop_for :: "stop_reason option \<Rightarrow> rec_shared \<Rightarrow> rec_shared" where
  "stop_for reason s = (case reason of None \<Rightarrow> s | Some r \<Rightarrow> stop_recording r s)"

text \<open>\<open>next_record\<close>, one look under the lock; \<open>due\<close> says whether an idle sync is.\<close>

definition look :: "bool \<Rightarrow> recorder_sys \<Rightarrow> recorder_sys" where
  "look due y =
     (let s = ry_shared y in
      if rs_stopped s \<noteq> None then y\<lparr>ry_stage := WLastSync\<rparr>
      else (case rs_backlog s of
        r # rs \<Rightarrow> y\<lparr>ry_shared := s\<lparr>rs_backlog := rs, rs_backlog_bytes := rs_backlog_bytes s - record_cost r\<rparr>,
                   ry_stage := WHolds r\<rparr>
      | [] \<Rightarrow>
          if \<not> rs_accepting s then y\<lparr>ry_stage := WLastSync\<rparr>
          else if rw_unsynced (ry_writer y) \<and> due then y\<lparr>ry_stage := WIdleSync\<rparr>
          else y))"

text \<open>A sync that, when it fails, stops the recording; then on to the given stage.\<close>

definition sync_then :: "io_kind option \<Rightarrow> writer_stage \<Rightarrow> writer_stage \<Rightarrow> recorder_sys \<Rightarrow> recorder_sys" where
  "sync_then ans ok failed y =
     (case sync_segment ans (ry_writer y) (ry_shared y) of
        None \<Rightarrow> y\<lparr>ry_stage := WPanicked\<rparr>
      | Some (reason, w, s) \<Rightarrow>
          y\<lparr>ry_writer := w, ry_shared := stop_for reason s,
            ry_stage := (if reason = None then ok else failed)\<rparr>)"

definition publish_first :: "(bytes \<Rightarrow> u32) \<Rightarrow> recorder_limits \<Rightarrow> publish_answer \<Rightarrow> recorder_sys \<Rightarrow> recorder_sys" where
  "publish_first crc lim ans y =
     (case header_bytes crc (rw_encoder (ry_writer y)) of
        None \<Rightarrow> y\<lparr>ry_stage := WPanicked\<rparr>
      | Some header \<Rightarrow>
          (case publish_segment lim ans header 0 (ry_writer y) (ry_disk y) (ry_shared y) of
             (reason, w, disk, s) \<Rightarrow>
               y\<lparr>ry_writer := w, ry_disk := disk, ry_shared := stop_for reason s,
                 ry_stage := (if reason = None then WLook else WEnding)\<rparr>))"

definition attempt :: "(bytes \<Rightarrow> u32) \<Rightarrow> recorder_limits \<Rightarrow> io_kind option \<Rightarrow> publish_answer \<Rightarrow> append_answer
    \<Rightarrow> rec \<Rightarrow> recorder_sys \<Rightarrow> recorder_sys" where
  "attempt crc lim synced published appended r y =
     (case prepare_record crc lim synced published r (ry_writer y, ry_disk y, ry_shared y) of
        None \<Rightarrow> y\<lparr>ry_stage := WPanicked\<rparr>
      | Some (Inl reason, w, disk, s) \<Rightarrow>
          y\<lparr>ry_writer := w, ry_disk := disk, ry_shared := s,
            ry_stage := WAttempted r (rw_segment_len w) False (Some reason)\<rparr>
      | Some (Inr bs, w, disk, s) \<Rightarrow>
          (case append_record appended bs w disk of
             None \<Rightarrow> y\<lparr>ry_stage := WPanicked\<rparr>
           | Some (reason, w2, disk2) \<Rightarrow>
               y\<lparr>ry_writer := w2, ry_disk := disk2, ry_shared := s,
                 ry_stage := WAttempted r (rw_segment_len w) True reason\<rparr>))"

text \<open>After the attempt, under the lock: a stop meanwhile, a failure, or one more record appended.\<close>

definition settle :: "cut_answer \<Rightarrow> bool \<Rightarrow> rec \<Rightarrow> nat \<Rightarrow> bool \<Rightarrow> stop_reason option \<Rightarrow> recorder_sys \<Rightarrow> recorder_sys" where
  "settle answer due r before attempted reason y =
     (let s = ry_shared y;
          (w', disk') = (if attempted then cut_back answer before (ry_writer y) (ry_disk y)
                         else (ry_writer y, ry_disk y))
      in if rs_stopped s \<noteq> None then y\<lparr>ry_writer := w', ry_disk := disk', ry_stage := WLastSync\<rparr>
         else (case reason of
           Some why \<Rightarrow>
             y\<lparr>ry_writer := w', ry_disk := disk', ry_shared := stop_recording why s, ry_stage := WLastSync\<rparr>
         | None \<Rightarrow>
             y\<lparr>ry_shared := s\<lparr>rs_appended := Some (rec_sequence r)\<rparr>,
               ry_writer := (ry_writer y)\<lparr>rw_last := Some (rec_sequence r), rw_recorded := rw_recorded (ry_writer y) @ [r]\<rparr>,
               ry_stage := (if due then WScheduledSync else WLook)\<rparr>))"

fun recorder_step :: "(bytes \<Rightarrow> u32) \<Rightarrow> recorder_limits \<Rightarrow> recorder_op \<Rightarrow> recorder_sys \<Rightarrow> recorder_sys" where
  "recorder_step crc lim (OpOutput ticks bs) y =
     (case record_output lim ticks bs (ry_clock y, ry_shared y) of
        (clock, s) \<Rightarrow> y\<lparr>ry_clock := clock, ry_shared := s\<rparr>)"
| "recorder_step crc lim (OpResize tick applied g c) y =
     y\<lparr>ry_clock := ry_clock y + tick,
       ry_shared := snd (resize_applied lim applied g c (ry_clock y + tick) (ry_shared y))\<rparr>"
| "recorder_step crc lim OpClose y = y\<lparr>ry_shared := (ry_shared y)\<lparr>rs_accepting := False\<rparr>\<rparr>"
| "recorder_step crc lim OpCloseTimeout y =
     (if rs_accepting (ry_shared y) \<or> rs_writer_done (ry_shared y) then y
      else y\<lparr>ry_shared := stop_recording Stalled (ry_shared y)\<rparr>)"
| "recorder_step crc lim (OpPublishFirst ans) y = (if ry_stage y = WStart then publish_first crc lim ans y else y)"
| "recorder_step crc lim (OpLook due) y = (if ry_stage y = WLook then look due y else y)"
| "recorder_step crc lim (OpIdleSync ans) y =
     (if ry_stage y = WIdleSync then sync_then ans WLook WLastSync y else y)"
| "recorder_step crc lim (OpAttempt synced published appended) y =
     (case ry_stage y of WHolds r \<Rightarrow> attempt crc lim synced published appended r y | _ \<Rightarrow> y)"
| "recorder_step crc lim (OpSettle answer due) y =
     (case ry_stage y of
        WAttempted r before attempted reason \<Rightarrow> settle answer due r before attempted reason y | _ \<Rightarrow> y)"
| "recorder_step crc lim (OpScheduledSync ans) y =
     (if ry_stage y = WScheduledSync then sync_then ans WLook WLastSync y else y)"
| "recorder_step crc lim (OpLastSync ans) y =
     (if ry_stage y = WLastSync then sync_then ans WEnding WEnding y else y)"
| "recorder_step crc lim OpWriterEnd y =
     (if ry_stage y = WEnding
      then y\<lparr>ry_stage := WDone, ry_shared := (ry_shared y)\<lparr>rs_writer_done := True\<rparr>\<rparr> else y)"

end
