(* ===== verification/Recording_Props.thy ===== *)
theory Recording_Props
  imports Recording
begin

text \<open>
  What the recording codec guarantees: decoding never panics; a segment an encoder writes decodes
  to its records; a missing tail is found and only the incomplete record is dropped; rotated
  segments decode as one recording; what decodes follows the rules and re-encodes to itself.
\<close>

subsection \<open>Reading fields\<close>

lemma be_u_in_range:
  "at + 2 \<le> length bs \<Longrightarrow> be_u16 bs at = Some (from_be16 (take 2 (drop at bs)))"
  "at + 4 \<le> length bs \<Longrightarrow> be_u32 bs at = Some (from_be32 (take 4 (drop at bs)))"
  "at + 8 \<le> length bs \<Longrightarrow> be_u64 bs at = Some (from_be64 (take 8 (drop at bs)))"
  by (simp_all add: be_u16_def be_u32_def be_u64_def)

lemma be_u_drop:
  "drop at bs = be16 a @ rest \<Longrightarrow> be_u16 bs at = Some a"
  "drop at bs = be32 b @ rest \<Longrightarrow> be_u32 bs at = Some b"
  "drop at bs = be64 c @ rest \<Longrightarrow> be_u64 bs at = Some c"
proof -
  have len: "drop at bs = x @ rest \<Longrightarrow> x \<noteq> [] \<Longrightarrow> at + length x \<le> length bs" for x
  proof -
    assume "drop at bs = x @ rest" "x \<noteq> []"
    then have "length bs - at = length x + length rest" "0 < length x"
      by (metis length_append length_drop) (simp add: \<open>x \<noteq> []\<close>)
    then show "at + length x \<le> length bs" by linarith
  qed
  show "drop at bs = be16 a @ rest \<Longrightarrow> be_u16 bs at = Some a"
    using len [of "be16 a"] by (cases "be16 a = []") (auto simp: be_u_in_range codec_simps dest: arg_cong [of _ _ length])
  show "drop at bs = be32 b @ rest \<Longrightarrow> be_u32 bs at = Some b"
    using len [of "be32 b"] by (cases "be32 b = []") (auto simp: be_u_in_range codec_simps dest: arg_cong [of _ _ length])
  show "drop at bs = be64 c @ rest \<Longrightarrow> be_u64 bs at = Some c"
    using len [of "be64 c"] by (cases "be64 c = []") (auto simp: be_u_in_range codec_simps dest: arg_cong [of _ _ length])
qed

subsection \<open>Decoding never panics\<close>

lemma decode_header_fields_total:
  "60 \<le> length bs \<Longrightarrow> header_len \<le> length bs \<Longrightarrow> decode_header_fields ver bs header_len \<noteq> None"
  by (auto simp: decode_header_fields_def be_u_in_range Let_def split: option.splits sum.splits)

lemma decode_header_total: "decode_header crc ver bs \<noteq> None"
  using decode_header_fields_total [of bs]
  by (auto simp: decode_header_def be_u_in_range Let_def)

lemma decode_header_len:
  "decode_header crc ver bs = Some (Inr (h, n)) \<Longrightarrow> 60 \<le> n \<and> n \<le> length bs"
  by (auto simp: decode_header_def decode_header_fields_def Let_def
      split: if_splits option.splits sum.splits Option.bind_splits)

lemma decode_payload_total: "decode_payload kind payload inp \<noteq> None"
  by (auto simp: decode_payload_def be_u_in_range split: option.splits)

lemma decode_body_total: "17 \<le> length body \<Longrightarrow> decode_body body h s \<noteq> None"
  using decode_payload_total [of "body ! 0" "drop 17 body" "hdr_input h"]
  by (cases "body = []") (auto simp: decode_body_def be_u_in_range split: option.splits sum.splits)

lemma decode_step_total:
  assumes "pos \<le> length bs" shows "decode_step crc bs h previous pos s fresh \<noteq> None"
proof -
  have total: "(decode_body body h s = None) = False" if "17 \<le> length body" for body
    using decode_body_total that by blast
  show ?thesis
    using assms by (auto simp: total decode_step_def be_u_in_range Let_def
        split: option.splits sum.splits Option.bind_splits)
qed

lemma decode_loop_total: "pos \<le> length bs \<Longrightarrow> decode_loop crc bs h previous pos s records \<noteq> None"
proof (induction crc bs h previous pos s records rule: decode_loop.induct)
  case (1 crc bs h previous pos s records)
  obtain res where res: "decode_step crc bs h previous pos s (records = []) = Some res"
    using decode_step_total [OF "1.prems"] by blast
  show ?case
  proof (cases res)
    case (Inr x)
    show ?thesis
    proof (cases x)
      case (Inr p)
      obtain r len where p: "p = (r, len)" by (cases p)
      have "pos + len \<le> length bs"
        using decode_step_len res \<open>res = Inr x\<close> Inr p by blast
      then show ?thesis
        using "1.IH" [OF res \<open>res = Inr x\<close> Inr p [symmetric]] res \<open>res = Inr x\<close> Inr p
        by (subst decode_loop.simps) simp
    qed (use res Inr in \<open>simp add: decode_loop.simps\<close>)
  qed (use res in \<open>simp add: decode_loop.simps\<close>)
qed

lemma decode_segment_with_summary_total: "decode_segment_with_summary crc ver bs cont \<noteq> None"
proof -
  obtain res where res: "decode_header crc ver bs = Some res" using decode_header_total by blast
  show ?thesis
  proof (cases res)
    case (Inr x)
    obtain h n where x: "x = (h, n)" by (cases x)
    have "decode_loop crc bs h previous n s [] \<noteq> None" for previous s
      using decode_header_len res Inr x decode_loop_total by blast
    then have total: "(decode_loop crc bs h previous n s [] = None) = False" for previous s
      by blast
    from res Inr x show ?thesis
      by (auto simp: total decode_segment_with_summary_def Let_def split: option.splits sum.splits
          Option.bind_splits)
  qed (use res in \<open>simp add: decode_segment_with_summary_def\<close>)
qed

lemma decode_segments_total:
  "segments \<noteq> [] \<or> first \<noteq> None \<Longrightarrow>
     decode_segments crc ver segments first previous records ending position \<noteq> None"
proof (induction crc ver segments first previous records ending position rule: decode_segments.induct)
  case (2 crc ver bs rest first previous records ending position)
  then show ?case
    using decode_segment_with_summary_total [of crc ver bs]
    by (auto simp: Let_def split: option.splits sum.splits segment_end.splits list.splits)
qed auto

subsection \<open>Headers and records round-trip\<close>

lemma expect_u_Some [simp]:
  "n < 2 ^ 16 \<Longrightarrow> expect_u16 n = Some (of_nat n)" "n < 2 ^ 32 \<Longrightarrow> expect_u32 n = Some (of_nat n)"
  by (simp_all add: expect_u16_def expect_u32_def)

lemma rec_magic_length [simp]: "length rec_magic = 8"
  by (simp add: rec_magic_def ascii_def)

lemma term_utf8: "list_all term_byte t \<Longrightarrow> utf8_valid t"
  by (rule utf8_valid_ascii) (auto simp: list_all_iff term_byte_def word_le_nat_alt word_less_nat_alt)

text \<open>The bytes of a well-formed header, before its checksum.\<close>

definition header_fields :: "segment_header \<Rightarrow> bytes" where
  "header_fields h =
     rec_magic @ be16 format_version @ be16 (of_nat (60 + length (term_bytes (hdr_term h))))
       @ be16 (if hdr_input h then 1 else 0)
       @ run_uuid (hdr_run_id h) @ be32 (hdr_index h) @ be64 (seq_get (hdr_first h))
       @ be64 (hdr_origin h) @ be16 (geo_rows (hdr_geometry h)) @ be16 (geo_cols (hdr_geometry h))
       @ be16 (of_nat (length (term_bytes (hdr_term h)))) @ term_bytes (hdr_term h)"

lemma header_bytes_fields:
  "term_ok (hdr_term (enc_header e)) \<Longrightarrow>
     header_bytes crc e = Some (header_fields (enc_header e) @ be32 (crc (header_fields (enc_header e))))"
  by (simp add: header_bytes_def header_fields_def term_ok_def Let_def)

lemma header_roundtrip:
  assumes ok: "header_ok ver h" and first: "hdr_index h = 0 \<longrightarrow> hdr_first h = first_sequence"
  shows "decode_header crc ver (header_fields h @ be32 (crc (header_fields h)) @ rest)
    = Some (Inr (h, length (header_fields h) + 4))"
proof -
  let ?t = "term_bytes (hdr_term h)"
  let ?bs = "header_fields h @ be32 (crc (header_fields h)) @ rest"
  have t: "length ?t \<le> 256" "list_all term_byte ?t" and tok: "term_ok (hdr_term h)"
    using ok by (simp_all add: header_ok_def term_ok_def)
  have u: "length (run_uuid (hdr_run_id h)) = 16" and rok: "run_id_ok ver (hdr_run_id h)"
    using ok by (simp_all add: header_ok_def run_id_ok_def)
  have len: "length (header_fields h) = 56 + length ?t"
    using u by (simp add: header_fields_def)
  have un: "unat (of_nat (60 + length ?t) :: u16) = 60 + length ?t"
      "unat (of_nat (length ?t) :: u16) = length ?t"
    using t(1) by (simp_all only: unat_of_nat) simp_all
  have rd: "be_u16 ?bs 8 = Some format_version" "be_u16 ?bs 10 = Some (of_nat (60 + length ?t))"
    "be_u16 ?bs 12 = Some (if hdr_input h then 1 else 0)" "be_u16 ?bs 54 = Some (of_nat (length ?t))"
    "be_u32 ?bs 30 = Some (hdr_index h)" "be_u64 ?bs 34 = Some (seq_get (hdr_first h))"
    "be_u64 ?bs 42 = Some (hdr_origin h)" "be_u16 ?bs 50 = Some (geo_rows (hdr_geometry h))"
    "be_u16 ?bs 52 = Some (geo_cols (hdr_geometry h))"
    "be_u32 ?bs (56 + length ?t) = Some (crc (header_fields h))"
    by (rule be_u_drop; simp add: header_fields_def u)+
  have sl: "take 8 ?bs = rec_magic" "take 16 (drop 14 ?bs) = run_uuid (hdr_run_id h)"
    "take (length ?t) (drop 56 ?bs) = ?t" "take (56 + length ?t) ?bs = header_fields h"
    using u by (simp_all add: header_fields_def)
  have fields: "decode_header_fields ver ?bs (60 + length ?t) = Some (Inr (h, 60 + length ?t))"
    using rd sl un ok rok tok first term_utf8 [OF t(2)] len
    by (auto simp: decode_header_fields_def Let_def header_ok_def new_sequence_def)
  show ?thesis
    using rd(1,2,10) sl(1,4) un(1) t(1) len fields
    by (simp add: decode_header_def Let_def max_term_len_def)
qed

text \<open>The bytes of a record, before its checksum.\<close>

definition record_fields :: "u8 \<Rightarrow> bytes \<Rightarrow> rec \<Rightarrow> bytes" where
  "record_fields kind payload r =
     be32 (of_nat (17 + length payload)) @ be32 (NOT (of_nat (17 + length payload)))
       @ [kind] @ be64 (seq_get (rec_sequence r)) @ be64 (rec_elapsed r) @ payload"

lemma record_bytes_fields:
  "length payload \<le> max_payload \<Longrightarrow>
     record_bytes crc kind payload r =
       Some (record_fields kind payload r @ be32 (crc (record_fields kind payload r)))"
  by (simp add: record_bytes_def record_fields_def Let_def max_payload_def)

lemma record_fields_length: "length (record_fields kind payload r) = 25 + length payload"
  by (simp add: record_fields_def)

lemma record_payload_size:
  "record_payload k inp = Inr (kind, payload) \<Longrightarrow> length payload \<le> max_payload"
  by (cases k) (auto simp: checked_payload_def max_payload_def split: if_splits sum.splits resize_cause.splits)

lemma payload_roundtrip:
  assumes "record_payload k inp = Inr (kind, payload)" and "kind_ok k"
  shows "decode_payload kind payload inp = Some (Inr k)"
proof (cases k)
  case (Resize g c)
  obtain cause corr where c: "(cause, corr) = (case c of CauseUser \<Rightarrow> (1 :: u8, 0 :: u32) | CauseRepaint n \<Rightarrow> (2, n))"
    by (cases c) auto
  have p: "payload = be16 (geo_rows g) @ be16 (geo_cols g) @ [cause] @ be32 corr" "kind = 2"
    using assms(1) Resize c by (auto split: resize_cause.splits)
  have "be_u16 payload 0 = Some (geo_rows g)" "be_u16 payload 2 = Some (geo_cols g)"
    "be_u32 payload 5 = Some corr"
    by (rule be_u_drop; simp add: p)+
  moreover have "at_index payload 4 = Some cause" "length payload = 9"
    by (simp_all add: p nth_append)
  ultimately show ?thesis
    using Resize assms(2) c p(2) by (cases c) (auto simp: decode_payload_def)
qed (use assms in \<open>auto simp: decode_payload_def checked_payload_def split: if_splits sum.splits\<close>)

lemma body_roundtrip:
  assumes "record_payload (rec_kind r) (hdr_input h) = Inr (kind, payload)" and "kind_ok (rec_kind r)"
    and "sum_next s = Some (rec_sequence r)"
    and "case sum_elapsed s of Some previous \<Rightarrow> previous \<le> rec_elapsed r | None \<Rightarrow> True"
  shows "decode_body (drop 8 (record_fields kind payload r)) h s = Some (Inr r)"
proof -
  let ?b = "drop 8 (record_fields kind payload r)"
  have b: "?b = [kind] @ be64 (seq_get (rec_sequence r)) @ be64 (rec_elapsed r) @ payload"
    by (simp add: record_fields_def)
  have "be_u64 ?b 1 = Some (seq_get (rec_sequence r))" "be_u64 ?b 9 = Some (rec_elapsed r)"
    unfolding b by (rule be_u_drop; simp)+
  moreover have "at_index ?b 0 = Some kind" "subslice 17 (length ?b) ?b = Some payload"
    unfolding b by simp_all
  ultimately show ?thesis
    using payload_roundtrip [OF assms(1,2)] assms(3,4)
    by (auto simp: decode_body_def split: option.splits)
qed

lemma encode_ok:
  assumes "encode crc r e = Some (Inr out, e')"
  obtains kind payload where
    "record_payload (rec_kind r) (hdr_input (enc_header e)) = Inr (kind, payload)"
    and "out = record_fields kind payload r @ be32 (crc (record_fields kind payload r))"
    and "enc_next e = Some (rec_sequence r)"
    and "case enc_last e of Some previous \<Rightarrow> previous \<le> rec_elapsed r | None \<Rightarrow> True"
    and "e' = e\<lparr>enc_next := next_sequence (rec_sequence r), enc_last := Some (rec_elapsed r),
            enc_geometry := (case rec_kind r of Resize g c \<Rightarrow> g | _ \<Rightarrow> enc_geometry e),
            enc_records := enc_records e + 1\<rparr>"
proof -
  from assms obtain expected where n: "enc_next e = Some expected" "expected = rec_sequence r"
    and l: "case enc_last e of Some previous \<Rightarrow> previous \<le> rec_elapsed r | None \<Rightarrow> True"
    and c: "encode_checked crc r e expected = Some (Inr out, e')"
    by (auto simp: encode_def split: option.splits if_splits)
  from c obtain kind payload where p: "record_payload (rec_kind r) (hdr_input (enc_header e)) = Inr (kind, payload)"
    by (auto simp: encode_checked_def split: sum.splits)
  show thesis
    by (rule that [OF p _ _ l])
       (use c p n record_bytes_fields [OF record_payload_size [OF p]] in
         \<open>auto simp: encode_checked_def\<close>)
qed

lemma encode_succeeds:
  assumes "record_payload (rec_kind r) (hdr_input (enc_header e)) = Inr (kind, payload)"
    and "enc_next e = Some (rec_sequence r)"
    and "case enc_last e of Some previous \<Rightarrow> previous \<le> rec_elapsed r | None \<Rightarrow> True"
  shows "encode crc r e = Some (Inr (record_fields kind payload r @ be32 (crc (record_fields kind payload r))),
    e\<lparr>enc_next := next_sequence (rec_sequence r), enc_last := Some (rec_elapsed r),
      enc_geometry := (case rec_kind r of Resize g c \<Rightarrow> g | _ \<Rightarrow> enc_geometry e),
      enc_records := enc_records e + 1\<rparr>)"
  using assms record_bytes_fields [OF record_payload_size [OF assms(1)], where crc = crc and r = r]
  by (cases "enc_last e") (auto simp: encode_def encode_checked_def leD)

text \<open>
  A decoder that has read what the encoder wrote: the same next sequence, geometry and time; at the
  start of a segment the time is that of the previous segment.
\<close>

definition tracks :: "segment_encoder \<Rightarrow> segment_summary \<Rightarrow> u64 option \<Rightarrow> bool \<Rightarrow> bool" where
  "tracks e s previous fresh \<longleftrightarrow>
     sum_next s = enc_next e \<and> sum_geometry s = enc_geometry e
     \<and> (if fresh then sum_elapsed s = None \<and> previous = enc_last e else sum_elapsed s = enc_last e)"

lemma decode_step_encoded:
  assumes enc: "encode crc r e = Some (Inr out, e')" and ok: "kind_ok (rec_kind r)"
    and tr: "tracks e s previous fresh" and bs: "drop pos bs = out @ rest" "pos \<le> length bs"
  shows "decode_step crc bs (enc_header e) previous pos s fresh = Some (Inr (Inr (r, length out)))"
    and "tracks e' (advance_summary r s) previous False" and "enc_header e' = enc_header e"
proof -
  obtain kind payload where p: "record_payload (rec_kind r) (hdr_input (enc_header e)) = Inr (kind, payload)"
    and out: "out = record_fields kind payload r @ be32 (crc (record_fields kind payload r))"
    and nx: "enc_next e = Some (rec_sequence r)"
    and el: "case enc_last e of Some previous \<Rightarrow> previous \<le> rec_elapsed r | None \<Rightarrow> True"
    and e': "e' = e\<lparr>enc_next := next_sequence (rec_sequence r), enc_last := Some (rec_elapsed r),
            enc_geometry := (case rec_kind r of Resize g c \<Rightarrow> g | _ \<Rightarrow> enc_geometry e),
            enc_records := enc_records e + 1\<rparr>"
    by (rule encode_ok [OF enc])
  let ?f = "record_fields kind payload r"
  let ?w = "of_nat (17 + length payload) :: u32"
  have size: "length payload \<le> 65536" using record_payload_size [OF p] by (simp add: max_payload_def)
  have w: "unat ?w = 17 + length payload"
    using size by (simp only: unat_of_nat) simp
  have len: "length ?f = 25 + length payload" by (rule record_fields_length)
  have blen: "length bs = pos + length out + length rest"
    using arg_cong [OF bs(1), of length] bs(2) by simp
  have dr: "drop (pos + k) bs = drop k (out @ rest)" for k
    using bs(1) by (metis add.commute drop_drop)
  have rd: "be_u32 bs pos = Some ?w" "be_u32 bs (pos + 4) = Some (NOT ?w)"
    "be_u32 bs (pos + 8 + (17 + length payload)) = Some (crc ?f)"
  proof -
    show "be_u32 bs pos = Some ?w"
      by (rule be_u_drop(2) [of _ _ _ "drop 4 (out @ rest)"]) (simp add: bs(1) out record_fields_def)
    show "be_u32 bs (pos + 4) = Some (NOT ?w)"
      by (rule be_u_drop(2) [of _ _ _ "drop 8 (out @ rest)"]) (simp add: dr out record_fields_def)
    show "be_u32 bs (pos + 8 + (17 + length payload)) = Some (crc ?f)"
    proof (rule be_u_drop(2) [of _ _ _ rest])
      have "drop (pos + (25 + length payload)) bs = be32 (crc ?f) @ rest"
        unfolding dr out using len by simp
      then show "drop (pos + 8 + (17 + length payload)) bs = be32 (crc ?f) @ rest"
        by (simp add: ac_simps)
    qed
  qed
  have cov: "take (8 + (17 + length payload)) (drop pos bs) = ?f"
    using len by (simp add: bs(1) out)
  have bod: "take (17 + length payload) (drop (pos + 8) bs) = drop 8 ?f"
    using len by (simp add: dr out)
  have "decode_body (drop 8 ?f) (enc_header e) s = Some (Inr r)"
    using tr el nx by (intro body_roundtrip [OF p ok]) (auto simp: tracks_def split: if_splits)
  then show "decode_step crc bs (enc_header e) previous pos s fresh = Some (Inr (Inr (r, length out)))"
    using rd cov bod w len blen tr el out size
    by (auto simp: decode_step_def Let_def max_payload_def tracks_def split: option.splits)
  show "tracks e' (advance_summary r s) previous False" and "enc_header e' = enc_header e"
    using tr by (auto simp: tracks_def e' advance_summary_def split: record_kind.splits)
qed

subsection \<open>Segments round-trip\<close>

text \<open>Encode records one after another, stopping at the first error.\<close>

fun encode_all :: "(bytes \<Rightarrow> u32) \<Rightarrow> rec list \<Rightarrow> segment_encoder
    \<Rightarrow> ((encode_error + bytes) \<times> segment_encoder) option" where
  "encode_all crc [] e = Some (Inr [], e)"
| "encode_all crc (r # rs) e = do {
     (res, e1) \<leftarrow> encode crc r e;
     case res of
       Inl err \<Rightarrow> Some (Inl err, e1)
     | Inr out \<Rightarrow> do {
         (res2, e2) \<leftarrow> encode_all crc rs e1;
         Some (map_sum id (\<lambda>more. out @ more) res2, e2)
       }
   }"

lemma encode_all_Cons:
  assumes "encode_all crc (r # rs) e = Some (Inr out, e')"
  obtains out1 e1 out2 where "encode crc r e = Some (Inr out1, e1)"
    and "encode_all crc rs e1 = Some (Inr out2, e')" and "out = out1 @ out2"
  using assms by (auto split: Option.bind_splits sum.splits simp: map_sum_def)

lemma encode_length: "encode crc r e = Some (Inr out, e') \<Longrightarrow> 29 \<le> length out"
  by (erule encode_ok) (simp add: record_fields_length)

lemma decode_loop_encoded:
  assumes "encode_all crc rs e = Some (Inr out, e')" and "list_all (kind_ok \<circ> rec_kind) rs"
    and "tracks e s previous (records = [])" and "drop pos bs = out @ rest" and "pos \<le> length bs"
  shows "decode_loop crc bs (enc_header e) previous pos s records =
      decode_loop crc bs (enc_header e) previous (pos + length out) (fold advance_summary rs s) (records @ rs)
    \<and> tracks e' (fold advance_summary rs s) previous (records @ rs = []) \<and> enc_header e' = enc_header e
    \<and> pos + length out \<le> length bs"
  using assms
proof (induction rs arbitrary: e s records pos out)
  case (Cons r rs)
  obtain out1 e1 out2 where o1: "encode crc r e = Some (Inr out1, e1)"
    and o2: "encode_all crc rs e1 = Some (Inr out2, e')" and out: "out = out1 @ out2"
    by (rule encode_all_Cons [OF Cons.prems(1)])
  have ok: "kind_ok (rec_kind r)" using Cons.prems(2) by simp
  have d1: "drop pos bs = out1 @ (out2 @ rest)" using Cons.prems(4) out by simp
  note st = decode_step_encoded [OF o1 ok Cons.prems(3) d1 Cons.prems(5)]
  have d2: "drop (pos + length out1) bs = out2 @ rest"
    using d1 by (metis add.commute append_eq_conv_conj drop_drop)
  have le: "pos + length out1 \<le> length bs"
    using decode_step_len [OF st(1)] by simp
  have "decode_loop crc bs (enc_header e) previous pos s records =
      decode_loop crc bs (enc_header e) previous (pos + length out1) (advance_summary r s) (records @ [r])"
    by (subst decode_loop.simps) (simp add: st(1))
  moreover have "tracks e1 (advance_summary r s) previous (records @ [r] = [])"
    using st(2) by simp
  ultimately show ?case
    using Cons.IH [OF o2 _ _ d2 le, of "advance_summary r s" "records @ [r]"] Cons.prems(2) st(3) out
    by (simp add: add.assoc)
qed simp

text \<open>What one segment decodes to, given the bytes after the records.\<close>

lemma decode_loop_end:
  "pos = length bs \<Longrightarrow> decode_loop crc bs h previous pos s records = Some (Inr (records, Clean, s))"
  by (subst decode_loop.simps) (simp add: decode_step_def)

lemma decode_loop_truncated:
  assumes enc: "encode crc r e = Some (Inr out, e')" and "0 < k" "k < length out"
    and bs: "drop pos bs = take k out" "pos \<le> length bs"
  shows "decode_loop crc bs h previous pos s records = Some (Inr (records, Truncated pos, s))"
proof -
  obtain kind payload where out: "out = record_fields kind payload r @ be32 (crc (record_fields kind payload r))"
    and p: "record_payload (rec_kind r) (hdr_input (enc_header e)) = Inr (kind, payload)"
    by (rule encode_ok [OF enc])
  let ?w = "of_nat (17 + length payload) :: u32"
  have size: "length payload \<le> 65536" using record_payload_size [OF p] by (simp add: max_payload_def)
  have w: "unat ?w = 17 + length payload" using size by (simp only: unat_of_nat) simp
  have len: "length out = 29 + length payload" by (simp add: out record_fields_length)
  have blen: "length bs = pos + k"
    using arg_cong [OF bs(1), of length] bs(2) assms(3) by simp
  have "decode_step crc bs h previous pos s (records = []) = Some (Inr (Inl (Truncated pos)))"
  proof (cases "k < 8")
    case True
    with blen assms(2) show ?thesis by (simp add: decode_step_def)
  next
    case False
    have k4: "take k out = be32 ?w @ take (k - 4) (drop 4 out)"
      using False by (simp add: out record_fields_def)
    have "be_u32 bs pos = Some ?w"
      by (rule be_u_drop(2)) (use k4 bs(1) in simp)
    moreover have "be_u32 bs (pos + 4) = Some (NOT ?w)"
    proof (rule be_u_drop(2))
      have "drop (pos + 4) bs = drop 4 (take k out)" using bs(1) by (metis add.commute drop_drop)
      also have "\<dots> = be32 (NOT ?w) @ take (k - 8) (drop 8 out)"
        using False by (simp add: out record_fields_def drop_take)
      finally show "drop (pos + 4) bs = be32 (NOT ?w) @ take (k - 8) (drop 8 out)" .
    qed
    ultimately show ?thesis
      using w size blen False assms(3) len by (simp add: decode_step_def Let_def max_payload_def)
  qed
  then show ?thesis by (subst decode_loop.simps) simp
qed

text \<open>An encoder at the start of a segment, and what stays true of it.\<close>

definition encoder_ok :: "(bytes \<Rightarrow> nat) \<Rightarrow> segment_encoder \<Rightarrow> bool" where
  "encoder_ok ver e \<longleftrightarrow>
     header_ok ver (enc_header e) \<and> geometry_ok (enc_geometry e)
     \<and> (hdr_index (enc_header e) = 0 \<longrightarrow> hdr_first (enc_header e) = first_sequence)
     \<and> (\<forall>s. enc_next e = Some s \<longrightarrow> seq_get s \<noteq> 0)"

definition at_start :: "segment_encoder \<Rightarrow> bool" where
  "at_start e \<longleftrightarrow>
     enc_next e = Some (hdr_first (enc_header e)) \<and> enc_geometry e = hdr_geometry (enc_header e)
     \<and> enc_records e = 0"

lemma next_sequence_nonzero: "next_sequence s = Some t \<Longrightarrow> seq_get t \<noteq> 0"
  using next_sequence_val [of s t] by auto

lemma new_encoder_ok:
  "new_encoder h = Inr e \<Longrightarrow> header_ok ver h \<Longrightarrow> encoder_ok ver e \<and> at_start e \<and> enc_header e = h \<and> enc_last e = None"
  by (auto simp: new_encoder_def encoder_ok_def at_start_def header_ok_def split: if_splits)

lemma encode_encoder_ok:
  assumes "encode crc r e = Some (res, e')" and "encoder_ok ver e" and "kind_ok (rec_kind r)"
  shows "encoder_ok ver e' \<and> enc_header e' = enc_header e"
proof (cases res)
  case (Inl err)
  then have "e' = e"
    using assms(1) by (auto simp: encode_def encode_checked_def split: option.splits if_splits sum.splits
        Option.bind_splits)
  with assms(2) show ?thesis by simp
next
  case (Inr out)
  from assms(1) [unfolded this] show ?thesis
    by (rule encode_ok) (use assms(2,3) in \<open>auto simp: encoder_ok_def next_sequence_nonzero
        split: record_kind.splits\<close>)
qed

lemma encode_all_ok:
  "encode_all crc rs e = Some (Inr out, e') \<Longrightarrow> encoder_ok ver e \<Longrightarrow> list_all (kind_ok \<circ> rec_kind) rs \<Longrightarrow>
     encoder_ok ver e' \<and> enc_header e' = enc_header e"
proof (induction rs arbitrary: e out)
  case (Cons r rs)
  obtain out1 e1 out2 where o1: "encode crc r e = Some (Inr out1, e1)"
    and o2: "encode_all crc rs e1 = Some (Inr out2, e')"
    by (rule encode_all_Cons [OF Cons.prems(1)])
  have "encoder_ok ver e1 \<and> enc_header e1 = enc_header e"
    using encode_encoder_ok [OF o1 Cons.prems(2)] Cons.prems(3) by simp
  with Cons.IH [OF o2] Cons.prems(3) show ?case by simp
qed simp

definition segment_bytes :: "(bytes \<Rightarrow> u32) \<Rightarrow> segment_encoder \<Rightarrow> rec list
    \<Rightarrow> ((encode_error + bytes) \<times> segment_encoder) option" where
  "segment_bytes crc e rs = do {
     hb \<leftarrow> header_bytes crc e;
     (res, e') \<leftarrow> encode_all crc rs e;
     Some (map_sum id (\<lambda>out. hb @ out) res, e')
   }"

lemma segment_bytes_parts:
  assumes "segment_bytes crc e rs = Some (Inr bs, e')" and "encoder_ok ver e"
  obtains out where "encode_all crc rs e = Some (Inr out, e')"
    and "bs = (header_fields (enc_header e) @ be32 (crc (header_fields (enc_header e)))) @ out"
  using assms header_bytes_fields [of e crc]
  by (auto simp: segment_bytes_def map_sum_def encoder_ok_def header_ok_def
      split: Option.bind_splits sum.splits prod.splits)

text \<open>Decoding up to where the written records end, whatever follows them.\<close>

lemma decode_written:
  assumes w: "segment_bytes crc e rs = Some (Inr bs, e')" and ok: "encoder_ok ver e" and st: "at_start e"
    and kinds: "list_all (kind_ok \<circ> rec_kind) rs"
    and chk: "case cont of None \<Rightarrow> True | Some c \<Rightarrow> check_header_continuity (enc_header e) c = None"
    and prev: "previous = (case cont of None \<Rightarrow> None
            | Some c \<Rightarrow> (case con_previous c of None \<Rightarrow> None | Some (f, p) \<Rightarrow> sum_elapsed p))"
    and last: "previous = enc_last e"
  obtains s where "tracks e' s previous (rs = [])"
    and "decode_segment_with_summary crc ver (bs @ tail) cont =
      (case decode_loop crc (bs @ tail) (enc_header e) previous (length bs) s rs of
         None \<Rightarrow> None
       | Some (Inl err) \<Rightarrow> Some (Inl err)
       | Some (Inr (records, ending, s')) \<Rightarrow>
           Some (Inr (\<lparr>seg_header = enc_header e, seg_records = records, seg_end = ending\<rparr>, s')))"
proof -
  let ?h = "enc_header e"
  let ?hb = "header_fields ?h @ be32 (crc (header_fields ?h))"
  obtain out where o: "encode_all crc rs e = Some (Inr out, e')" and bs: "bs = ?hb @ out"
    by (rule segment_bytes_parts [OF w ok])
  let ?init = "\<lparr>sum_header_len = length ?hb, sum_next = Some (hdr_first ?h), sum_last = None,
              sum_elapsed = None, sum_geometry = hdr_geometry ?h\<rparr>"
  let ?fin = "fold advance_summary rs ?init"
  have hdr: "decode_header crc ver (bs @ tail) = Some (Inr (?h, length ?hb))"
    using header_roundtrip [of ver ?h crc "out @ tail"] ok by (simp add: bs encoder_ok_def)
  have t0: "tracks e ?init previous ([] = ([] :: rec list))"
    using st last by (simp add: tracks_def at_start_def)
  have d: "drop (length ?hb) (bs @ tail) = out @ tail" by (simp add: bs)
  have le: "length ?hb \<le> length (bs @ tail)" by (simp add: bs)
  note l = decode_loop_encoded [OF o kinds t0 d le]
  show thesis
  proof (rule that)
    show "tracks e' ?fin previous (rs = [])" using l by simp
    have "length ?hb + length out = length bs" by (simp add: bs)
    then have "decode_loop crc (bs @ tail) ?h previous (length ?hb) ?init [] =
        decode_loop crc (bs @ tail) ?h previous (length bs) ?fin rs"
      using l by (simp only: append_Nil)
    then show "decode_segment_with_summary crc ver (bs @ tail) cont =
      (case decode_loop crc (bs @ tail) ?h previous (length bs) ?fin rs of
         None \<Rightarrow> None
       | Some (Inl err) \<Rightarrow> Some (Inl err)
       | Some (Inr (records, ending, s')) \<Rightarrow>
           Some (Inr (\<lparr>seg_header = ?h, seg_records = records, seg_end = ending\<rparr>, s')))"
      using hdr chk prev
      by (auto simp: decode_segment_with_summary_def Let_def split: option.splits sum.splits)
  qed
qed

subsection \<open>Recordings round-trip\<close>

text \<open>Write groups of records as one segment each, rotating between them.\<close>

fun write_recording :: "(bytes \<Rightarrow> u32) \<Rightarrow> segment_encoder \<Rightarrow> rec list list
    \<Rightarrow> (encode_error, bytes list) panicking" where
  "write_recording crc e [] = Some (Inr [])"
| "write_recording crc e (rs # later) = do {
     (res, e') \<leftarrow> segment_bytes crc e rs;
     case res of
       Inl err \<Rightarrow> Some (Inl err)
     | Inr bs \<Rightarrow>
         if later = [] then Some (Inr [bs])
         else (case next_segment e' of
                 Inl err \<Rightarrow> Some (Inl err)
               | Inr e2 \<Rightarrow> map_option (map_sum id (\<lambda>files. bs # files)) (write_recording crc e2 later))
   }"

lemma write_recording_Cons:
  assumes "write_recording crc e (rs # later) = Some (Inr files)"
  shows "\<exists>bs e'. segment_bytes crc e rs = Some (Inr bs, e') \<and> (later = [] \<longrightarrow> files = [bs])
    \<and> (later \<noteq> [] \<longrightarrow> (\<exists>e2 rest. next_segment e' = Inr e2
         \<and> write_recording crc e2 later = Some (Inr rest) \<and> files = bs # rest))"
proof -
  obtain res e' where s: "segment_bytes crc e rs = Some (res, e')"
    using assms by (cases "segment_bytes crc e rs") auto
  then obtain bs where bs: "res = Inr bs" using assms by (cases res) auto
  show ?thesis
  proof (cases "later = []")
    case True
    then show ?thesis using assms s bs by simp
  next
    case False
    then obtain e2 where e2: "next_segment e' = Inr e2"
      using assms s bs by (cases "next_segment e'") auto
    then obtain r where "write_recording crc e2 later = Some r" "map_sum id (\<lambda>files. bs # files) r = Inr files"
      using assms s bs False by auto
    then show ?thesis using s bs e2 False by (cases r) auto
  qed
qed

definition continues :: "segment_header option \<Rightarrow> segment_summary option \<Rightarrow> segment_encoder \<Rightarrow> bool" where
  "continues first previous e \<longleftrightarrow>
     (case (first, previous) of
        (None, None) \<Rightarrow> enc_last e = None
      | (Some f, Some p) \<Rightarrow>
          hdr_run_id (enc_header e) = hdr_run_id f \<and> hdr_origin (enc_header e) = hdr_origin f
          \<and> hdr_input (enc_header e) = hdr_input f \<and> hdr_term (enc_header e) = hdr_term f
          \<and> sum_next p = Some (hdr_first (enc_header e)) \<and> sum_geometry p = hdr_geometry (enc_header e)
          \<and> sum_elapsed p = enc_last e
      | _ \<Rightarrow> False)"

lemma next_segment_ok:
  assumes "next_segment e = Inr e2" and "encoder_ok ver e"
  shows "encoder_ok ver e2 \<and> at_start e2 \<and> enc_records e \<noteq> 0 \<and> enc_last e2 = enc_last e
    \<and> enc_next e = Some (hdr_first (enc_header e2)) \<and> enc_geometry e = hdr_geometry (enc_header e2)
    \<and> checked_succ (hdr_index (enc_header e)) = Some (hdr_index (enc_header e2))
    \<and> hdr_run_id (enc_header e2) = hdr_run_id (enc_header e) \<and> hdr_origin (enc_header e2) = hdr_origin (enc_header e)
    \<and> hdr_input (enc_header e2) = hdr_input (enc_header e) \<and> hdr_term (enc_header e2) = hdr_term (enc_header e)"
proof -
  have nz: "checked_succ w = Some v \<Longrightarrow> v \<noteq> 0" for w v :: u32
    using checked_succ_Some [of w v] by auto
  from assms show ?thesis
    by (auto simp: next_segment_def encoder_ok_def at_start_def header_ok_def
        split: if_splits option.splits dest: nz)
qed

lemma checked_succ_in_range:
  "unat (w :: u32) + n < 2 ^ 32 \<Longrightarrow> 0 < n \<Longrightarrow> checked_succ w = Some (w + 1)"
proof -
  assume "unat w + n < 2 ^ 32" "0 < n"
  moreover have "unat (- 1 :: u32) = 2 ^ 32 - 1"
    by (simp add: unsigned_minus_1_eq_mask mask_eq_exp_minus_1)
  ultimately have "w \<noteq> - 1" by auto
  then show ?thesis by (simp add: checked_succ_def)
qed

lemma decode_segments_written:
  assumes "write_recording crc e groups = Some (Inr files)" and "groups \<noteq> []"
    and "encoder_ok ver e" and "at_start e" and "list_all (list_all (kind_ok \<circ> rec_kind)) groups"
    and "hdr_index (enc_header e) = position" and "unat position + length groups < 2 ^ 32"
    and "continues first previous e"
  shows "decode_segments crc ver files first previous acc ending position =
    Some (Inr \<lparr>dec_header = (case first of None \<Rightarrow> enc_header e | Some f \<Rightarrow> f),
               dec_segment_count = position + of_nat (length groups),
               dec_records = acc @ concat groups, dec_end = Clean\<rparr>)"
  using assms
proof (induction groups arbitrary: e files first previous acc ending position)
  case (Cons rs later)
  note ok = Cons.prems(3) and st = Cons.prems(4)
  obtain bs e' where w: "segment_bytes crc e rs = Some (Inr bs, e')"
    and single: "later = [] \<longrightarrow> files = [bs]"
    and many: "later \<noteq> [] \<longrightarrow> (\<exists>e2 rest. next_segment e' = Inr e2
      \<and> write_recording crc e2 later = Some (Inr rest) \<and> files = bs # rest)"
    using write_recording_Cons [OF Cons.prems(1)] by blast
  define cont where "cont = \<lparr>con_position = position,
    con_previous = (case (first, previous) of (Some f, Some p) \<Rightarrow> Some (f, p) | _ \<Rightarrow> None)\<rparr>"
  define prev where "prev = (case con_previous cont of None \<Rightarrow> None | Some (f, p) \<Rightarrow> sum_elapsed p)"
  have kinds: "list_all (kind_ok \<circ> rec_kind) rs" using Cons.prems(5) by (simp add: comp_def)
  have chk: "check_header_continuity (enc_header e) cont = None"
    using Cons.prems(6,8) by (auto simp: check_header_continuity_def cont_def continues_def split: option.splits)
  have last: "prev = enc_last e"
    using Cons.prems(8) by (auto simp: prev_def cont_def continues_def split: option.splits)
  obtain s where tr: "tracks e' s prev (rs = [])"
    and d: "decode_segment_with_summary crc ver (bs @ []) (Some cont) =
      (case decode_loop crc (bs @ []) (enc_header e) prev (length bs) s rs of
         None \<Rightarrow> None
       | Some (Inl err) \<Rightarrow> Some (Inl err)
       | Some (Inr (records, ending, s')) \<Rightarrow>
           Some (Inr (\<lparr>seg_header = enc_header e, seg_records = records, seg_end = ending\<rparr>, s')))"
    by (rule decode_written [OF w ok st kinds, of "Some cont" prev "[]"])
       (use chk last in \<open>simp_all add: prev_def\<close>)
  have seg: "decode_segment_with_summary crc ver bs (Some cont) =
      Some (Inr (\<lparr>seg_header = enc_header e, seg_records = rs, seg_end = Clean\<rparr>, s))"
    using d by (simp add: decode_loop_end)
  have succ: "checked_succ position = Some (position + 1)"
    by (rule checked_succ_in_range [OF Cons.prems(7)]) simp
  have step: "decode_segments crc ver (bs # rest) first previous acc ending position =
      decode_segments crc ver rest (case first of None \<Rightarrow> Some (enc_header e) | Some f \<Rightarrow> Some f) (Some s)
        (acc @ rs) Clean (position + 1)" if "rs = [] \<Longrightarrow> rest = []" for rest
    using that seg succ by (cases first) (auto simp: Let_def cont_def)
  show ?case
  proof (cases "later = []")
    case True
    then show ?thesis using step [of "[]"] single by (simp split: option.splits)
  next
    case False
    then obtain e2 rest where e2: "next_segment e' = Inr e2" and w2: "write_recording crc e2 later = Some (Inr rest)"
      and files: "files = bs # rest" using many by blast
    obtain out where enc: "encode_all crc rs e = Some (Inr out, e')"
      by (rule segment_bytes_parts [OF w ok])
    have ok': "encoder_ok ver e'" and hd': "enc_header e' = enc_header e"
      using encode_all_ok [OF enc ok kinds] by simp_all
    note n = next_segment_ok [OF e2 ok']
    have rs: "rs \<noteq> []"
      using enc n st by (auto simp: at_start_def)
    have idx: "hdr_index (enc_header e2) = position + 1"
      using n hd' Cons.prems(6) succ by simp
    have un: "unat (position + 1) = Suc (unat position)"
      using succ checked_succ_Some by blast
    have cont2: "continues (case first of None \<Rightarrow> Some (enc_header e) | Some f \<Rightarrow> Some f) (Some s) e2"
      using tr rs n hd' Cons.prems(8) by (auto simp: continues_def tracks_def split: option.splits)
    have "decode_segments crc ver rest (case first of None \<Rightarrow> Some (enc_header e) | Some f \<Rightarrow> Some f)
        (Some s) (acc @ rs) Clean (position + 1) = Some (Inr
          \<lparr>dec_header = (case (case first of None \<Rightarrow> Some (enc_header e) | Some f \<Rightarrow> Some f) of
              None \<Rightarrow> enc_header e2 | Some f \<Rightarrow> f),
           dec_segment_count = position + 1 + of_nat (length later),
           dec_records = (acc @ rs) @ concat later, dec_end = Clean\<rparr>)"
      using n Cons.prems(5,7) un by (intro Cons.IH [OF w2 False _ _ _ idx _ cont2]) simp_all
    then show ?thesis
      using step [of rest] rs files by (simp add: ac_simps split: option.splits)
  qed
qed simp

subsection \<open>What decodes is what an encoder writes\<close>

lemma be_u_read:
  "be_u16 bs at = Some a \<Longrightarrow> take 2 (drop at bs) = be16 a \<and> at + 2 \<le> length bs"
  "be_u32 bs at = Some b \<Longrightarrow> take 4 (drop at bs) = be32 b \<and> at + 4 \<le> length bs"
  "be_u64 bs at = Some c \<Longrightarrow> take 8 (drop at bs) = be64 c \<and> at + 8 \<le> length bs"
  by (auto simp: be_u16_def be_u32_def be_u64_def subslice_def be_from split: if_splits)

lemma flag_word: "(f :: u16) AND NOT 1 = 0 \<Longrightarrow> (if f AND 1 \<noteq> 0 then 1 else 0) = f"
proof -
  assume a: "f AND NOT 1 = 0"
  have "f = (f AND 1) OR (f AND NOT 1)"
    by (simp add: bit_eq_iff bit_simps) blast
  with a have f: "f AND 1 = f" by simp
  have "f AND 1 = of_bool (odd f)" by (simp add: and_one_eq mod2_eq_if)
  with f have "f = of_bool (odd f)" by simp
  with f show ?thesis by (cases "odd f") simp_all
qed

lemma take_take_drop: "take i xs @ take j (drop i xs) = take (i + j) xs"
  by (simp add: take_add)

lemma decode_header_fields_read:
  assumes "decode_header_fields ver bs n = Some (Inr (h, m))"
  shows "m = n" and "n = 60 + length (term_bytes (hdr_term h))"
    and "be_u16 bs 54 = Some (of_nat (length (term_bytes (hdr_term h))))"
    and "be_u16 bs 12 = Some (if hdr_input h then 1 else 0)"
    and "subslice 14 30 bs = Some (run_uuid (hdr_run_id h))" and "ver (run_uuid (hdr_run_id h)) = 7"
    and "be_u32 bs 30 = Some (hdr_index h)" and "be_u64 bs 34 = Some (seq_get (hdr_first h))"
    and "seq_get (hdr_first h) \<noteq> 0" and "hdr_index h = 0 \<longrightarrow> hdr_first h = first_sequence"
    and "be_u16 bs 50 = Some (geo_rows (hdr_geometry h))" and "be_u16 bs 52 = Some (geo_cols (hdr_geometry h))"
    and "geometry_ok (hdr_geometry h)" and "be_u64 bs 42 = Some (hdr_origin h)"
    and "subslice 56 (56 + length (term_bytes (hdr_term h))) bs = Some (term_bytes (hdr_term h))"
    and "term_ok (hdr_term h)"
proof -
  obtain tl16 flags run rid index first_raw first rows cols geo trm name origin where
    r: "be_u16 bs 54 = Some tl16" "60 + unat tl16 = n" "be_u16 bs 12 = Some flags" "flags AND NOT 1 = 0"
      "subslice 14 30 bs = Some run" "from_v7 ver run = Some rid" "be_u32 bs 30 = Some index"
      "be_u64 bs 34 = Some first_raw" "new_sequence first_raw = Some first"
      "\<not> (index = 0 \<and> first \<noteq> first_sequence)" "be_u16 bs 50 = Some rows" "be_u16 bs 52 = Some cols"
      "new_geometry rows cols = Some geo" "subslice 56 (56 + unat tl16) bs = Some trm"
      "new_term_name trm = Inr name" "be_u64 bs 42 = Some origin"
    and h: "h = \<lparr>hdr_run_id = rid, hdr_index = index, hdr_first = first, hdr_origin = origin,
       hdr_geometry = geo, hdr_input = (flags AND 1 \<noteq> 0), hdr_term = name\<rparr>" "m = n"
    using assms unfolding decode_header_fields_def Let_def panic_simps
    by (auto split: if_split_asm)
  have name: "term_ok name" "term_bytes name = trm"
    using r(15) new_term_name_Inr by blast+
  have trm: "length trm = unat tl16"
    using r(14) by (auto simp: subslice_def split: if_splits)
  have geo: "geometry_ok geo" "geo_rows geo = rows" "geo_cols geo = cols"
    using r(13) new_geometry_Some by blast+
  show "m = n" and "n = 60 + length (term_bytes (hdr_term h))"
    and "be_u16 bs 54 = Some (of_nat (length (term_bytes (hdr_term h))))"
    and "be_u16 bs 12 = Some (if hdr_input h then 1 else 0)"
    and "subslice 14 30 bs = Some (run_uuid (hdr_run_id h))" and "ver (run_uuid (hdr_run_id h)) = 7"
    and "be_u32 bs 30 = Some (hdr_index h)" and "be_u64 bs 34 = Some (seq_get (hdr_first h))"
    and "seq_get (hdr_first h) \<noteq> 0" and "hdr_index h = 0 \<longrightarrow> hdr_first h = first_sequence"
    and "be_u16 bs 50 = Some (geo_rows (hdr_geometry h))" and "be_u16 bs 52 = Some (geo_cols (hdr_geometry h))"
    and "geometry_ok (hdr_geometry h)" and "be_u64 bs 42 = Some (hdr_origin h)"
    and "subslice 56 (56 + length (term_bytes (hdr_term h))) bs = Some (term_bytes (hdr_term h))"
    and "term_ok (hdr_term h)"
    using r name trm geo flag_word [OF r(4)]
    by (auto simp: h from_v7_Some new_sequence_Some)
qed

lemma decode_header_canonical:
  assumes d: "decode_header crc ver bs = Some (Inr (h, n))"
  shows "take n bs = header_fields h @ be32 (crc (header_fields h)) \<and> header_ok ver h
    \<and> (hdr_index h = 0 \<longrightarrow> hdr_first h = first_sequence) \<and> n \<le> length bs"
proof -
  obtain hl16 stored where m: "subslice 0 8 bs = Some rec_magic" and v: "be_u16 bs 8 = Some format_version"
    and hl: "be_u16 bs 10 = Some hl16" and n: "unat hl16 \<le> length bs" "60 \<le> unat hl16"
    and st: "be_u32 bs (unat hl16 - 4) = Some stored" and c: "crc (take (unat hl16 - 4) bs) = stored"
    and f: "decode_header_fields ver bs (unat hl16) = Some (Inr (h, n))"
    using d by (auto simp: decode_header_def Let_def subslice_def split: if_splits Option.bind_splits)
  note r = decode_header_fields_read [OF f]
  let ?t = "term_bytes (hdr_term h)"
  have n': "unat hl16 = 60 + length ?t" "n = 60 + length ?t" using r(1,2) by simp_all
  have hl': "hl16 = of_nat (60 + length ?t)" by (simp flip: n'(1) del: of_nat_add)
  have u: "take 16 (drop 14 bs) = run_uuid (hdr_run_id h)"
    using r(5) by (auto simp: subslice_def split: if_splits)
  have u16: "length (run_uuid (hdr_run_id h)) = 16"
    using r(5) unfolding u [symmetric] by (auto simp: subslice_def split: if_splits)
  have t: "take (length ?t) (drop 56 bs) = ?t" using r(15) by (auto simp: subslice_def split: if_splits)
  have mg: "take 8 bs = rec_magic" using m by (auto simp: subslice_def split: if_splits)
  have "header_fields h = take 8 bs @ take 2 (drop 8 bs) @ take 2 (drop 10 bs) @ take 2 (drop 12 bs)
      @ take 16 (drop 14 bs) @ take 4 (drop 30 bs) @ take 8 (drop 34 bs) @ take 8 (drop 42 bs)
      @ take 2 (drop 50 bs) @ take 2 (drop 52 bs) @ take 2 (drop 54 bs) @ take (length ?t) (drop 56 bs)"
    using be_u_read(1) [OF v] be_u_read(1) [OF hl] be_u_read(1) [OF r(4)] be_u_read(2) [OF r(7)]
      be_u_read(3) [OF r(8)] be_u_read(3) [OF r(14)] be_u_read(1) [OF r(11)] be_u_read(1) [OF r(12)]
      be_u_read(1) [OF r(3)] u mg t hl'
    by (simp only: header_fields_def)
  also have "\<dots> = take (56 + length ?t) bs"
    by (simp add: take_take_drop append_assoc [symmetric] del: append_assoc)
  finally have hf: "header_fields h = take (56 + length ?t) bs" .
  moreover have "take 4 (drop (56 + length ?t) bs) = be32 (crc (header_fields h))"
    using be_u_read(2) [OF st] c n' hf by simp
  ultimately have "take n bs = header_fields h @ be32 (crc (header_fields h))"
    using take_add [of "56 + length ?t" 4 bs] n' by (simp add: add.commute)
  moreover have "header_ok ver h"
    using r u16 by (simp add: header_ok_def run_id_ok_def)
  ultimately show ?thesis using r(1,10) n by simp
qed

lemma resize_payload_bytes:
  assumes "length payload = 9" and "be_u16 payload 0 = Some a" and "be_u16 payload 2 = Some b"
    and "be_u32 payload 5 = Some c" and "at_index payload 4 = Some d"
  shows "payload = be16 a @ be16 b @ [d] @ be32 c"
proof -
  have "payload = take 2 payload @ take 2 (drop 2 payload) @ take 1 (drop 4 payload) @ take 4 (drop 5 payload)"
    using assms(1) by (simp add: take_take_drop append_assoc [symmetric] del: append_assoc)
  moreover have "take 1 (drop 4 payload) = [d]"
    using assms(1,5) by (simp add: take_Suc hd_drop_conv_nth)
  ultimately show ?thesis
    using be_u_read(1) [OF assms(2)] be_u_read(1) [OF assms(3)] be_u_read(2) [OF assms(4)] by simp
qed

lemma payload_canonical:
  assumes "decode_payload kind payload inp = Some (Inr k)" and "length payload \<le> max_payload"
  shows "record_payload k inp = Inr (kind, payload) \<and> kind_ok k"
proof -
  consider "kind = 1" | "kind = 3" | "kind = 2"
    using assms(1) by (auto simp: decode_payload_def split: if_splits)
  then show ?thesis
  proof cases
    case 3
    obtain rows cols geo corr cause where len: "length payload = 9"
      and r: "be_u16 payload 0 = Some rows" "be_u16 payload 2 = Some cols" "new_geometry rows cols = Some geo"
        "be_u32 payload 5 = Some corr" "at_index payload 4 = Some cause"
      and k: "k = Resize geo CauseUser \<and> cause = 1 \<and> corr = 0 \<or>
        k = Resize geo (CauseRepaint corr) \<and> cause = 2 \<and> corr \<noteq> 0"
      using assms(1) 3 by (auto simp: decode_payload_def panic_simps split: if_splits)
    from resize_payload_bytes [OF len r(1,2,4,5)] new_geometry_Some [OF r(3)] k 3
    show ?thesis by auto
  qed (use assms in \<open>auto simp: decode_payload_def checked_payload_def split: if_splits\<close>)
qed

lemma decode_body_read:
  assumes "decode_body body h s = Some (Inr r)" and "length body \<le> 17 + max_payload"
  shows "\<exists>kind payload. record_payload (rec_kind r) (hdr_input h) = Inr (kind, payload) \<and> kind_ok (rec_kind r)
    \<and> sum_next s = Some (rec_sequence r)
    \<and> (case sum_elapsed s of Some previous \<Rightarrow> previous \<le> rec_elapsed r | None \<Rightarrow> True)
    \<and> body = [kind] @ be64 (seq_get (rec_sequence r)) @ be64 (rec_elapsed r) @ payload"
proof -
  obtain kind seq_raw elapsed payload k expected where
    b: "at_index body 0 = Some kind" "be_u64 body 1 = Some seq_raw" "be_u64 body 9 = Some elapsed"
      "subslice 17 (length body) body = Some payload" and p: "decode_payload kind payload (hdr_input h) = Some (Inr k)"
    and q: "sum_next s = Some expected" "seq_get expected = seq_raw"
      "case sum_elapsed s of Some previous \<Rightarrow> previous \<le> elapsed | None \<Rightarrow> True"
      "r = \<lparr>rec_sequence = expected, rec_elapsed = elapsed, rec_kind = k\<rparr>"
    using assms(1) by (auto simp: decode_body_def panic_simps not_less split: if_splits option.splits)
  have pl: "payload = drop 17 body" "17 \<le> length body"
    using b(4) by (auto simp: subslice_def split: if_splits)
  have "take 1 body = [kind]"
    using b(1) by (cases body) (simp_all add: at_index_def)
  moreover have "body = take 1 body @ take 8 (drop 1 body) @ take 8 (drop 9 body) @ drop 17 body"
    using pl(2) by (simp add: take_take_drop append_assoc [symmetric] del: append_assoc)
  ultimately have "body = [kind] @ be64 (seq_get (rec_sequence r)) @ be64 (rec_elapsed r) @ payload"
    using be_u_read(3) [OF b(2)] be_u_read(3) [OF b(3)] pl q by simp
  moreover have "record_payload (rec_kind r) (hdr_input h) = Inr (kind, payload) \<and> kind_ok (rec_kind r)"
    using payload_canonical [OF p] assms(2) pl q by simp
  ultimately show ?thesis using q by (auto split: option.splits)
qed

lemma decode_step_canonical:
  assumes d: "decode_step crc bs h previous pos s fresh = Some (Inr (Inr (r, len)))"
    and tr: "tracks e s previous fresh" and hd: "enc_header e = h"
  shows "\<exists>e'. encode crc r e = Some (Inr (take len (drop pos bs)), e') \<and> tracks e' (advance_summary r s) previous False
    \<and> enc_header e' = h \<and> kind_ok (rec_kind r) \<and> pos + len \<le> length bs"
proof -
  obtain w where w: "be_u32 bs pos = Some w" "be_u32 bs (pos + 4) = Some (NOT w)" "17 \<le> unat w"
    "unat w \<le> 17 + max_payload" "len = 12 + unat w" "pos + len \<le> length bs"
    and st: "be_u32 bs (pos + 8 + unat w) = Some (crc (take (8 + unat w) (drop pos bs)))"
    and b: "decode_body (take (unat w) (drop (pos + 8) bs)) h s = Some (Inr r)"
    and fr: "fresh \<Longrightarrow> (case previous of Some p \<Rightarrow> p \<le> rec_elapsed r | None \<Rightarrow> True)"
    by (rule decode_step_record [OF d]) blast
  let ?body = "take (unat w) (drop (pos + 8) bs)"
  have bl: "length ?body = unat w" using w by simp
  obtain kind payload where p: "record_payload (rec_kind r) (hdr_input h) = Inr (kind, payload)"
    and ok: "kind_ok (rec_kind r)" and nx: "sum_next s = Some (rec_sequence r)"
    and el: "case sum_elapsed s of Some previous \<Rightarrow> previous \<le> rec_elapsed r | None \<Rightarrow> True"
    and body: "?body = [kind] @ be64 (seq_get (rec_sequence r)) @ be64 (rec_elapsed r) @ payload"
    using decode_body_read [OF b] w(4) bl by auto
  have plen: "unat w = 17 + length payload" using arg_cong [OF body, of length] bl by simp
  then have wp: "w = of_nat (17 + length payload)" by (simp flip: plen del: of_nat_add)
  have "take (8 + unat w) (drop pos bs) = take 4 (drop pos bs) @ take 4 (drop (pos + 4) bs) @ ?body"
    using take_add [of 4 4 "drop pos bs"] by (simp add: take_add add.commute [of pos])
  also have "\<dots> = record_fields kind payload r"
    using be_u_read(2) [OF w(1)] be_u_read(2) [OF w(2)] body wp by (simp add: record_fields_def)
  finally have f: "take (8 + unat w) (drop pos bs) = record_fields kind payload r" .
  have "take len (drop pos bs) = take (8 + unat w) (drop pos bs) @ take 4 (drop (pos + 8 + unat w) bs)"
    using take_add [of "8 + unat w" 4 "drop pos bs"] w(5) by (simp add: ac_simps)
  then have out: "take len (drop pos bs) = record_fields kind payload r @ be32 (crc (record_fields kind payload r))"
    using be_u_read(2) [OF st] f by simp
  have rb: "record_bytes crc kind payload r = Some (take len (drop pos bs))"
    using record_bytes_fields [OF record_payload_size [OF p]] out by simp
  have en: "enc_next e = Some (rec_sequence r)" using tr nx by (simp add: tracks_def)
  have le: "case enc_last e of Some previous \<Rightarrow> previous \<le> rec_elapsed r | None \<Rightarrow> True"
    using tr el fr by (auto simp: tracks_def split: if_splits)
  obtain e' where enc: "encode crc r e = Some (Inr (take len (drop pos bs)), e')"
    using en le p rb hd by (cases "enc_last e") (auto simp: encode_def encode_checked_def leD)
  have dd: "drop pos bs = take len (drop pos bs) @ drop (pos + len) bs"
    by (simp add: add.commute flip: drop_drop)
  have pb: "pos \<le> length bs" using w by simp
  from decode_step_encoded [OF enc ok tr dd pb] enc ok hd w(6) show ?thesis by auto
qed

lemma decode_step_ends:
  assumes "decode_step crc bs h previous pos s fresh = Some (Inr (Inl ending))"
  shows "pos \<le> length bs \<and> (ending = Clean \<and> pos = length bs \<or> ending = Truncated pos \<and> pos < length bs
    \<and> (length bs - pos < 8 \<or> (\<exists>w. be_u32 bs pos = Some w \<and> length bs - pos < 12 + unat w)))"
  using assms
  by (auto simp: decode_step_def Let_def not_less split: if_splits sum.splits option.splits Option.bind_splits)

text \<open>Every run of the loop to a result re-encodes to what it read.\<close>

lemma decode_loop_canonical:
  assumes "decode_loop crc bs h previous pos s records = Some (Inr (all, ending, s'))"
    and "tracks e s previous (records = [])" and "enc_header e = h"
  shows "\<exists>rs e' stop. all = records @ rs \<and> list_all (kind_ok \<circ> rec_kind) rs
    \<and> encode_all crc rs e = Some (Inr (take (stop - pos) (drop pos bs)), e') \<and> pos \<le> stop \<and> stop \<le> length bs
    \<and> (ending = Clean \<and> stop = length bs \<or> ending = Truncated stop \<and> stop < length bs
       \<and> (length bs - stop < 8 \<or> (\<exists>w. be_u32 bs stop = Some w \<and> length bs - stop < 12 + unat w)))"
  using assms
proof (induction crc bs h previous pos s records arbitrary: e rule: decode_loop.induct)
  case (1 crc bs h previous pos s records)
  obtain res where res: "decode_step crc bs h previous pos s (records = []) = Some (Inr res)"
    using "1.prems"(1) by (subst (asm) decode_loop.simps) (auto split: option.splits sum.splits)
  show ?case
  proof (cases res)
    case (Inl stopped)
    with res "1.prems"(1) have "all = records \<and> ending = stopped"
      by (subst (asm) decode_loop.simps) simp
    then show ?thesis
      using decode_step_ends [OF res [unfolded Inl]]
      by (intro exI [of _ "[]"] exI [of _ e] exI [of _ pos]) auto
  next
    case (Inr p)
    obtain r len where p: "p = (r, len)" by (cases p)
    have st: "decode_step crc bs h previous pos s (records = []) = Some (Inr (Inr (r, len)))"
      using res Inr p by simp
    obtain e1 where enc: "encode crc r e = Some (Inr (take len (drop pos bs)), e1)"
      and tr: "tracks e1 (advance_summary r s) previous False" and hd: "enc_header e1 = h"
      and ok: "kind_ok (rec_kind r)" and le: "pos + len \<le> length bs"
      using decode_step_canonical [OF st "1.prems"(2,3)] by blast
    have rest: "decode_loop crc bs h previous (pos + len) (advance_summary r s) (records @ [r])
        = Some (Inr (all, ending, s'))"
      using "1.prems"(1) st by (subst (asm) decode_loop.simps) simp
    have tr': "tracks e1 (advance_summary r s) previous (records @ [r] = [])" using tr by simp
    obtain rs e' stop where ih: "all = (records @ [r]) @ rs" "list_all (kind_ok \<circ> rec_kind) rs"
      "encode_all crc rs e1 = Some (Inr (take (stop - (pos + len)) (drop (pos + len) bs)), e')"
      "pos + len \<le> stop" "stop \<le> length bs"
      "ending = Clean \<and> stop = length bs \<or> ending = Truncated stop \<and> stop < length bs
       \<and> (length bs - stop < 8 \<or> (\<exists>w. be_u32 bs stop = Some w \<and> length bs - stop < 12 + unat w))"
      using "1.IH" [OF res refl Inr p [symmetric] rest tr' hd] by blast
    have "take (stop - pos) (drop pos bs) =
        take len (drop pos bs) @ take (stop - (pos + len)) (drop (pos + len) bs)"
      using take_add [of len "stop - (pos + len)" "drop pos bs"] ih(4) by (simp add: add.commute)
    then have "encode_all crc (r # rs) e = Some (Inr (take (stop - pos) (drop pos bs)), e')"
      using enc ih(3) by simp
    then show ?thesis
      using ih ok by (intro exI [of _ "r # rs"] exI [of _ e'] exI [of _ stop]) (auto simp: comp_def)
  qed
qed

subsection \<open>Properties\<close>

text \<open>
  Concrete parameters and a segment for the witnesses: the version number of a UUID is the high
  half of its seventh byte; a checksum that counts bytes stands for the CRC.
\<close>

definition demo_ver :: "bytes \<Rightarrow> nat" where
  "demo_ver u = unat (u ! 6) div 16"

definition demo_crc :: "bytes \<Rightarrow> u32" where
  "demo_crc bs = of_nat (length bs)"

definition demo_header :: segment_header where
  "demo_header = \<lparr>hdr_run_id = RunId (replicate 6 1 @ 112 # replicate 9 2), hdr_index = 0,
     hdr_first = first_sequence, hdr_origin = 5, hdr_geometry = Geometry 24 80, hdr_input = False,
     hdr_term = TermName (ascii ''xterm'')\<rparr>"

definition demo_encoder :: segment_encoder where
  "demo_encoder = \<lparr>enc_header = demo_header, enc_next = Some first_sequence, enc_last = None,
     enc_geometry = Geometry 24 80, enc_records = 0\<rparr>"

definition demo_record :: rec where
  "demo_record = \<lparr>rec_sequence = first_sequence, rec_elapsed = 9, rec_kind = Output [104, 105]\<rparr>"

definition demo_resize :: rec where
  "demo_resize = \<lparr>rec_sequence = Sequence 2, rec_elapsed = 9,
     rec_kind = Resize (Geometry 30 100) (CauseRepaint 7)\<rparr>"

lemma demo_header_ok: "header_ok demo_ver demo_header"
  by code_simp

lemma demo_encoder_new: "new_encoder demo_header = Inr demo_encoder"
  by (simp add: new_encoder_def demo_header_def demo_encoder_def)

definition demo_encoder2 :: segment_encoder where
  "demo_encoder2 = demo_encoder\<lparr>enc_next := Some (Sequence 2), enc_last := Some 9, enc_records := 1\<rparr>"

lemmas demo_rec_defs = demo_header_def demo_encoder_def demo_encoder2_def demo_record_def demo_resize_def

lemma demo_kinds: "list_all (kind_ok \<circ> rec_kind) [demo_record]" "list_all (kind_ok \<circ> rec_kind) [demo_resize]"
  by (simp_all add: demo_record_def demo_resize_def geometry_ok_def)

lemma demo_segment:
  obtains bs where "segment_bytes demo_crc demo_encoder [demo_record] = Some (Inr bs, demo_encoder2)"
proof -
  have "record_payload (rec_kind demo_record) (hdr_input (enc_header demo_encoder)) = Inr (1, [104, 105])"
    by (simp add: demo_rec_defs checked_payload_def max_payload_def)
  from encode_succeeds [OF this, of demo_crc]
  obtain out where "encode demo_crc demo_record demo_encoder = Some (Inr out, demo_encoder2)"
    by (simp add: demo_rec_defs first_sequence_def next_sequence_def checked_succ_def)
  moreover have "term_ok (hdr_term (enc_header demo_encoder))"
    using demo_header_ok by (simp add: header_ok_def demo_encoder_def)
  note header_bytes_fields [OF this, of demo_crc]
  ultimately show thesis by (simp add: segment_bytes_def that)
qed

lemma demo_next:
  obtains out e' where "encode demo_crc demo_resize demo_encoder2 = Some (Inr out, e')" and "length out = 38"
proof -
  have p: "record_payload (rec_kind demo_resize) (hdr_input (enc_header demo_encoder2))
      = Inr (2, be16 30 @ be16 100 @ [2] @ be32 7)"
    by (simp add: demo_resize_def)
  show thesis
    by (rule that, rule encode_succeeds [OF p]) (simp_all add: demo_rec_defs record_fields_length)
qed

text \<open>Decoding never panics: on every list of byte strings, whatever the checksum and UUID
  functions are, each decoder returns a value or an error.\<close>

theorem decode_never_panics:
  "decode_segment crc ver bs \<noteq> None \<and> decode_recording crc ver segments \<noteq> None"
  using decode_segment_with_summary_total [of crc ver bs None] decode_segments_total [of segments]
  by (auto simp: decode_segment_def decode_recording_def)

lemma written_decodes:
  assumes "header_ok ver h" and "new_encoder h = Inr e" and "list_all (kind_ok \<circ> rec_kind) rs"
    and "segment_bytes crc e rs = Some (Inr bs, e')"
  shows "\<exists>s. decode_segment crc ver (bs @ tail) =
      (case decode_loop crc (bs @ tail) h None (length bs) s rs of
         None \<Rightarrow> None
       | Some (Inl err) \<Rightarrow> Some (Inl err)
       | Some (Inr (records, ending, s')) \<Rightarrow>
           Some (Inr \<lparr>seg_header = h, seg_records = records, seg_end = ending\<rparr>))"
proof -
  note n = new_encoder_ok [OF assms(2,1)]
  obtain s where "decode_segment_with_summary crc ver (bs @ tail) None =
      (case decode_loop crc (bs @ tail) (enc_header e) None (length bs) s rs of
         None \<Rightarrow> None
       | Some (Inl err) \<Rightarrow> Some (Inl err)
       | Some (Inr (records, ending, s')) \<Rightarrow>
           Some (Inr (\<lparr>seg_header = enc_header e, seg_records = records, seg_end = ending\<rparr>, s')))"
    by (rule decode_written [OF assms(4) _ _ assms(3), of ver None None tail]) (use n in simp_all)
  then show ?thesis
    using n by (intro exI [of _ s]) (auto simp: decode_segment_def split: option.splits sum.splits)
qed

lemma written_decodes_clean:
  assumes "header_ok ver h" and "new_encoder h = Inr e" and "list_all (kind_ok \<circ> rec_kind) rs"
    and "segment_bytes crc e rs = Some (Inr bs, e')"
  shows "decode_segment crc ver bs = Some (Inr \<lparr>seg_header = h, seg_records = rs, seg_end = Clean\<rparr>)"
  using written_decodes [OF assms, of "[]"] by (simp add: decode_loop_end)

text \<open>A segment round-trips: the bytes an encoder writes for a header and a list of records decode
  to exactly that header and those records, ending cleanly.\<close>

theorem segment_roundtrip:
  assumes "header_ok ver h" and "new_encoder h = Inr e" and "list_all (kind_ok \<circ> rec_kind) rs"
    and "segment_bytes crc e rs = Some (Inr bs, e')"
  shows "decode_segment crc ver bs = Some (Inr \<lparr>seg_header = h, seg_records = rs, seg_end = Clean\<rparr>)"
  using assms by (rule written_decodes_clean)

theorem segment_roundtrip_witness:
  "\<exists>bs e'. segment_bytes demo_crc demo_encoder [demo_record] = Some (Inr bs, e') \<and>
     decode_segment demo_crc demo_ver bs =
       Some (Inr \<lparr>seg_header = demo_header, seg_records = [demo_record], seg_end = Clean\<rparr>)"
  by (rule demo_segment) (use segment_roundtrip [OF demo_header_ok demo_encoder_new demo_kinds(1)] in blast)

text \<open>A crash loses at most the record being written: a segment followed by any proper, non-empty
  prefix of its next record decodes to all the records before it, and the missing tail is located
  at the byte where that record starts.\<close>

theorem truncated_tail_found:
  assumes "header_ok ver h" and "new_encoder h = Inr e" and "list_all (kind_ok \<circ> rec_kind) rs"
    and "segment_bytes crc e rs = Some (Inr bs, e')"
    and "encode crc r e' = Some (Inr out, e'')" and "0 < k" and "k < length out"
  shows "decode_segment crc ver (bs @ take k out) =
    Some (Inr \<lparr>seg_header = h, seg_records = rs, seg_end = Truncated (length bs)\<rparr>)"
proof -
  let ?all = "bs @ take k out"
  have "decode_loop crc ?all h None (length bs) s rs = Some (Inr (rs, Truncated (length bs), s))" for s
    by (rule decode_loop_truncated [OF assms(5-7)]) simp_all
  then show ?thesis using written_decodes [OF assms(1-4), of "take k out"] by auto
qed

theorem truncated_tail_found_witness:
  "\<exists>bs out. decode_segment demo_crc demo_ver (bs @ take 37 out) =
     Some (Inr \<lparr>seg_header = demo_header, seg_records = [demo_record], seg_end = Truncated (length bs)\<rparr>)"
proof -
  obtain bs where b: "segment_bytes demo_crc demo_encoder [demo_record] = Some (Inr bs, demo_encoder2)"
    by (rule demo_segment)
  obtain out e' where o: "encode demo_crc demo_resize demo_encoder2 = Some (Inr out, e')" and l: "length out = 38"
    by (rule demo_next)
  from truncated_tail_found [OF demo_header_ok demo_encoder_new demo_kinds(1) b o, of 37] l
  show ?thesis by auto
qed

text \<open>C36: A rotated recording round-trips: groups of records written as successive segments, each
  encoder continuing the previous one, decode as one recording with all records in order.\<close>

theorem recording_roundtrip:
  assumes "header_ok ver h" and "hdr_index h = 0" and "new_encoder h = Inr e"
    and "list_all (list_all (kind_ok \<circ> rec_kind)) groups" and "groups \<noteq> []" and "length groups < 2 ^ 32"
    and "write_recording crc e groups = Some (Inr files)"
  shows "decode_recording crc ver files =
    Some (Inr \<lparr>dec_header = h, dec_segment_count = of_nat (length groups),
               dec_records = concat groups, dec_end = Clean\<rparr>)"
proof -
  note n = new_encoder_ok [OF assms(3,1)]
  obtain rs later where g: "groups = rs # later" using assms(5) by (cases groups) auto
  have "files \<noteq> []" using write_recording_Cons [OF assms(7) [unfolded g]] by blast
  moreover have "continues None None e" using n by (simp add: continues_def)
  ultimately show ?thesis
    using decode_segments_written [OF assms(7,5) _ _ assms(4), of ver 0 None None "[]" Clean] n assms(2,6)
    by (simp add: decode_recording_def)
qed

theorem recording_roundtrip_witness:
  "\<exists>files. write_recording demo_crc demo_encoder [[demo_record], [demo_resize]] = Some (Inr files) \<and>
     decode_recording demo_crc demo_ver files =
       Some (Inr \<lparr>dec_header = demo_header, dec_segment_count = 2,
                  dec_records = [demo_record, demo_resize], dec_end = Clean\<rparr>)"
proof -
  obtain bs where b: "segment_bytes demo_crc demo_encoder [demo_record] = Some (Inr bs, demo_encoder2)"
    by (rule demo_segment)
  define e2 where "e2 = demo_encoder2\<lparr>enc_header := demo_header\<lparr>hdr_index := 1, hdr_first := Sequence 2\<rparr>,
    enc_records := 0\<rparr>"
  have n: "next_segment demo_encoder2 = Inr e2"
    by (simp add: next_segment_def demo_rec_defs e2_def checked_succ_def)
  have p: "record_payload (rec_kind demo_resize) (hdr_input (enc_header e2))
      = Inr (2, be16 30 @ be16 100 @ [2] @ be32 7)"
    by (simp add: demo_resize_def)
  have "term_ok (hdr_term (enc_header e2))"
    using demo_header_ok by (simp add: header_ok_def e2_def)
  then obtain bs2 e3 where "segment_bytes demo_crc e2 [demo_resize] = Some (Inr bs2, e3)"
    using encode_succeeds [OF p, of demo_crc] header_bytes_fields [of e2 demo_crc]
    by (simp add: segment_bytes_def demo_rec_defs e2_def)
  then obtain files where w: "write_recording demo_crc demo_encoder [[demo_record], [demo_resize]]
      = Some (Inr files)"
    using b n by simp
  have ok: "list_all (list_all (kind_ok \<circ> rec_kind)) [[demo_record], [demo_resize]]"
    using demo_kinds by simp
  have "hdr_index demo_header = 0" by (simp add: demo_header_def)
  from recording_roundtrip [OF demo_header_ok this demo_encoder_new ok _ _ w] w show ?thesis by simp
qed

text \<open>C37: The format is canonical and the decoder sound: whatever decodes as a segment is, up to its
  truncated tail, byte for byte what an encoder writes for the decoded header and records, so those
  obey every rule of the encoder; and the tail is called truncated only when bytes of a record are
  missing, never because of a checksum.\<close>

theorem decoded_segment_canonical:
  assumes "decode_segment crc ver bs = Some (Inr seg)"
  shows "\<exists>e e' stop. new_encoder (seg_header seg) = Inr e
    \<and> segment_bytes crc e (seg_records seg) = Some (Inr (take stop bs), e')
    \<and> (seg_end seg = Clean \<and> stop = length bs \<or> seg_end seg = Truncated stop \<and> stop < length bs
       \<and> (length bs - stop < 8 \<or> (\<exists>w. be_u32 bs stop = Some w \<and> length bs - stop < 12 + unat w)))"
proof -
  obtain s' where "decode_segment_with_summary crc ver bs None = Some (Inr (seg, s'))"
    using assms unfolding decode_segment_def
    by (cases "decode_segment_with_summary crc ver bs None"; cases "the (decode_segment_with_summary crc ver bs None)") auto
  then obtain h n records ending where dh: "decode_header crc ver bs = Some (Inr (h, n))"
    and dl: "decode_loop crc bs h None n \<lparr>sum_header_len = n, sum_next = Some (hdr_first h),
      sum_last = None, sum_elapsed = None, sum_geometry = hdr_geometry h\<rparr> [] = Some (Inr (records, ending, s'))"
    and seg: "seg = \<lparr>seg_header = h, seg_records = records, seg_end = ending\<rparr>"
    by (auto simp: decode_segment_with_summary_def panic_simps)
  note c = decode_header_canonical [OF dh]
  define e where "e = \<lparr>enc_header = h, enc_next = Some (hdr_first h), enc_last = None,
    enc_geometry = hdr_geometry h, enc_records = 0\<rparr>"
  have new: "new_encoder h = Inr e" using c by (simp add: new_encoder_def e_def)
  obtain rs e' stop where r: "records = rs" "encode_all crc rs e = Some (Inr (take (stop - n) (drop n bs)), e')"
    "n \<le> stop" and fin: "ending = Clean \<and> stop = length bs \<or> ending = Truncated stop \<and> stop < length bs
       \<and> (length bs - stop < 8 \<or> (\<exists>w. be_u32 bs stop = Some w \<and> length bs - stop < 12 + unat w))"
    using decode_loop_canonical [OF dl, of e] by (auto simp: tracks_def e_def)
  have "header_bytes crc e = Some (take n bs)"
    using header_bytes_fields [of e crc] c by (simp add: header_ok_def e_def)
  then have "segment_bytes crc e records = Some (Inr (take n bs @ take (stop - n) (drop n bs)), e')"
    using r by (simp add: segment_bytes_def)
  also have "take n bs @ take (stop - n) (drop n bs) = take stop bs"
    using r(3) by (simp add: take_take_drop)
  finally show ?thesis using new fin seg by auto
qed

theorem decoded_segment_canonical_witness:
  "\<exists>bs e e'. new_encoder demo_header = Inr e \<and> segment_bytes demo_crc e [demo_record] = Some (Inr bs, e')"
proof -
  obtain bs where b: "segment_bytes demo_crc demo_encoder [demo_record] = Some (Inr bs, demo_encoder2)"
    by (rule demo_segment)
  from decoded_segment_canonical [OF written_decodes_clean [OF demo_header_ok demo_encoder_new demo_kinds(1) b]]
  show ?thesis by auto
qed

text \<open>The encoder is safe to retry: encoding a record never panics, and when it refuses one it
  leaves its state unchanged.\<close>

theorem encode_error_unchanged:
  "encode crc r e \<noteq> None \<and> (encode crc r e = Some (Inl err, e') \<longrightarrow> e' = e)"
proof -
  have "record_bytes crc kind payload r \<noteq> None"
    if "record_payload (rec_kind r) (hdr_input (enc_header e)) = Inr (kind, payload)" for kind payload
    using record_bytes_fields [OF record_payload_size [OF that]] by simp
  then show ?thesis
    by (auto simp: encode_def encode_checked_def split: option.splits if_splits sum.splits
        Option.bind_splits)
qed

theorem encode_error_unchanged_witness:
  "snd (the (encode demo_crc demo_resize demo_encoder)) = demo_encoder"
proof -
  have "encode demo_crc demo_resize demo_encoder = Some (Inl (EncSequence 1 2), demo_encoder)"
    by (simp add: encode_def demo_encoder_def demo_resize_def first_sequence_def)
  with encode_error_unchanged [THEN conjunct2, rule_format, OF this] show ?thesis by simp
qed

end
