(* ===== verification/Recorder_Props.thy ===== *)
theory Recorder_Props
  imports Recorder Recording_Props
begin

text \<open>
  The recorder is exact: in every interleaving of its producers, its writer and its close, the
  segments on disk are the encoding of the records appended, a prefix of the records sequenced,
  and the declared end of the recording is that prefix. The invariant ties the queue to the
  history of sequenced records and the files to a run of the encoder.
\<close>

subsection \<open>Writing one record at a time\<close>

fun write_run :: "(bytes \<Rightarrow> u32) \<Rightarrow> segment_encoder \<Rightarrow> rec list list \<Rightarrow> (bytes list \<times> segment_encoder) option" where
  "write_run crc e [] = None"
| "write_run crc e [rs] =
     (case segment_bytes crc e rs of Some (Inr bs, e') \<Rightarrow> Some ([bs], e') | _ \<Rightarrow> None)"
| "write_run crc e (rs # g # gs) =
     (case segment_bytes crc e rs of
        Some (Inr bs, e') \<Rightarrow>
          (case next_segment e' of
             Inr e2 \<Rightarrow> map_option (\<lambda>(fs, e3). (bs # fs, e3)) (write_run crc e2 (g # gs))
           | Inl err \<Rightarrow> None)
      | _ \<Rightarrow> None)"

lemma write_run_recording:
  "write_run crc e gs = Some (fs, e') \<Longrightarrow> write_recording crc e gs = Some (Inr fs) \<and> length fs = length gs \<and> gs \<noteq> []"
  by (induction crc e gs arbitrary: fs rule: write_run.induct)
     (auto split: option.splits sum.splits)

lemma encode_all_snoc:
  "encode_all crc rs e = Some (Inr out, e1) \<Longrightarrow> encode crc r e1 = Some (Inr bs, e2) \<Longrightarrow>
   encode_all crc (rs @ [r]) e = Some (Inr (out @ bs), e2)"
proof (induction rs arbitrary: e out)
  case (Cons x rs)
  obtain out1 ex out2 where x: "encode crc x e = Some (Inr out1, ex)"
    "encode_all crc rs ex = Some (Inr out2, e1)" "out = out1 @ out2"
    by (rule encode_all_Cons [OF Cons.prems(1)])
  from Cons.IH [OF x(2) Cons.prems(2)] show ?case by (simp add: x(1,3))
qed simp

lemma segment_bytes_snoc:
  assumes "segment_bytes crc e g = Some (Inr f, e1)" "encode crc r e1 = Some (Inr bs, e2)"
  shows "segment_bytes crc e (g @ [r]) = Some (Inr (f @ bs), e2)"
proof -
  obtain hb out where "header_bytes crc e = Some hb" "encode_all crc g e = Some (Inr out, e1)" "f = hb @ out"
    using assms(1) by (auto simp: segment_bytes_def map_sum_def split: Option.bind_splits sum.splits prod.splits)
  then show ?thesis using encode_all_snoc [OF _ assms(2)] by (simp add: segment_bytes_def)
qed

lemma write_run_snoc:
  "write_run crc e (gs @ [g]) = Some (fs, e1) \<Longrightarrow> encode crc r e1 = Some (Inr bs, e2) \<Longrightarrow>
   write_run crc e (gs @ [g @ [r]]) = Some (butlast fs @ [List.last fs @ bs], e2)"
proof (induction gs arbitrary: e fs)
  case Nil
  then show ?case by (auto simp: segment_bytes_snoc split: option.splits sum.splits)
next
  case (Cons x gs)
  obtain y ys where ys: "gs @ [g] = y # ys" by (cases "gs @ [g]") auto
  obtain z zs where zs: "gs @ [g @ [r]] = z # zs" by (cases "gs @ [g @ [r]]") auto
  obtain b ex e3 fs1 where x: "segment_bytes crc e x = Some (Inr b, ex)" "next_segment ex = Inr e3"
    "write_run crc e3 (gs @ [g]) = Some (fs1, e1)" "fs = b # fs1"
    using Cons.prems(1) by (auto simp: ys split: option.splits sum.splits)
  have "fs1 \<noteq> []" using write_run_recording [OF x(3)] by auto
  with Cons.IH [OF x(3) Cons.prems(2)] show ?case using x by (simp add: zs)
qed

lemma write_run_rotate:
  "write_run crc e gs = Some (fs, e1) \<Longrightarrow> next_segment e1 = Inr e2 \<Longrightarrow> header_bytes crc e2 = Some hb \<Longrightarrow>
   write_run crc e (gs @ [[]]) = Some (fs @ [hb], e2)"
proof (induction crc e gs arbitrary: fs rule: write_run.induct)
  case (2 crc e rs)
  then show ?case by (auto simp: segment_bytes_def split: option.splits sum.splits)
next
  case (3 crc e rs g gs)
  then show ?case by (auto split: option.splits sum.splits)
qed simp

text \<open>The sequence numbers and the last time of records in order.\<close>

fun chained :: "sequence option \<Rightarrow> rec list \<Rightarrow> bool" where
  "chained s [] \<longleftrightarrow> True"
| "chained s (r # rs) \<longleftrightarrow> s = Some (rec_sequence r) \<and> chained (next_sequence (rec_sequence r)) rs"

definition chain_end :: "sequence option \<Rightarrow> rec list \<Rightarrow> sequence option" where
  "chain_end s rs = (if rs = [] then s else next_sequence (rec_sequence (List.last rs)))"

lemma chained_append: "chained s (xs @ ys) \<longleftrightarrow> chained s xs \<and> chained (chain_end s xs) ys"
  by (induction xs arbitrary: s) (auto simp: chain_end_def)

lemma chain_end_snoc [simp]: "chain_end s (xs @ [r]) = next_sequence (rec_sequence r)"
  by (simp add: chain_end_def)

definition last_seq :: "rec list \<Rightarrow> sequence option" where
  "last_seq rs = (if rs = [] then None else Some (rec_sequence (List.last rs)))"

definition last_elapsed :: "rec list \<Rightarrow> u64 option" where
  "last_elapsed rs = (if rs = [] then None else Some (rec_elapsed (List.last rs)))"

lemma last_snoc [simp]: "last_seq (xs @ [r]) = Some (rec_sequence r)" "last_elapsed (xs @ [r]) = Some (rec_elapsed r)"
  "last_seq [] = None" "last_elapsed [] = None"
  by (simp_all add: last_seq_def last_elapsed_def)

text \<open>What the files of a run hold, and the encoder at its end.\<close>

definition holds_run :: "(bytes \<Rightarrow> u32) \<Rightarrow> (bytes \<Rightarrow> nat) \<Rightarrow> segment_header \<Rightarrow> segment_encoder \<Rightarrow> rec list
    \<Rightarrow> bytes list \<Rightarrow> segment_encoder \<Rightarrow> bool" where
  "holds_run crc ver h e0 A fs e \<longleftrightarrow>
     (\<exists>gs. write_run crc e0 gs = Some (fs, e) \<and> concat gs = A) \<and> fs \<noteq> [] \<and> encoder_ok ver e \<and>
     hdr_input (enc_header e) = hdr_input h \<and> enc_next e = chain_end (Some (hdr_first h)) A \<and>
     enc_last e = last_elapsed A"

definition recordable :: "bool \<Rightarrow> rec \<Rightarrow> bool" where
  "recordable inp r \<longleftrightarrow> kind_ok (rec_kind r) \<and> (\<exists>x. record_payload (rec_kind r) inp = Inr x)"

lemma holds_run_first:
  assumes "header_ok ver h" "new_encoder h = Inr e0" "header_bytes crc e0 = Some hb"
  shows "holds_run crc ver h e0 [] [hb] e0"
proof -
  have "write_run crc e0 [[]] = Some ([hb], e0)" using assms(3) by (simp add: segment_bytes_def)
  then show ?thesis using new_encoder_ok [OF assms(2,1)] assms(2)
    by (auto simp: holds_run_def at_start_def chain_end_def intro!: exI [of _ "[[]]"])
qed

text \<open>The next record in order never fails to encode.\<close>

lemma holds_run_encodes:
  assumes "holds_run crc ver h e0 A fs e" "recordable (hdr_input h) r"
    and "chained (chain_end (Some (hdr_first h)) A) [r]" "\<forall>t. last_elapsed A = Some t \<longrightarrow> t \<le> rec_elapsed r"
  obtains bs e' where "encode crc r e = Some (Inr bs, e')"
    "holds_run crc ver h e0 (A @ [r]) (butlast fs @ [List.last fs @ bs]) e'" "bs \<noteq> []"
proof -
  obtain gs where gs: "write_run crc e0 gs = Some (fs, e)" "concat gs = A" "fs \<noteq> []" "encoder_ok ver e"
      "hdr_input (enc_header e) = hdr_input h" "enc_next e = chain_end (Some (hdr_first h)) A"
      "enc_last e = last_elapsed A"
    using assms(1) by (auto simp: holds_run_def)
  have ne: "gs \<noteq> []" using write_run_recording [OF gs(1)] by simp
  then have split: "gs = butlast gs @ [List.last gs]" by simp
  obtain x where "record_payload (rec_kind r) (hdr_input (enc_header e)) = Inr x"
    using assms(2) gs(5) by (auto simp: recordable_def)
  then obtain kind payload where p: "record_payload (rec_kind r) (hdr_input (enc_header e)) = Inr (kind, payload)"
    by (cases x) auto
  have "case enc_last e of Some previous \<Rightarrow> previous \<le> rec_elapsed r | None \<Rightarrow> True"
    using assms(4) gs(7) by (auto split: option.splits)
  then obtain bs e' where e: "encode crc r e = Some (Inr bs, e')" "enc_next e' = next_sequence (rec_sequence r)"
      "enc_last e' = Some (rec_elapsed r)"
    using encode_succeeds [OF p _, of crc] assms(3) gs(6) by auto
  have "write_run crc e0 (butlast gs @ [List.last gs @ [r]]) = Some (butlast fs @ [List.last fs @ bs], e')"
    using write_run_snoc [of crc e0 "butlast gs" "List.last gs"] split gs(1) e(1) by simp
  moreover have "concat (butlast gs @ [List.last gs @ [r]]) = A @ [r]"
    using arg_cong [OF split, of concat] gs(2) by simp
  moreover have "encoder_ok ver e' \<and> enc_header e' = enc_header e"
    using encode_encoder_ok [OF e(1) gs(4)] assms(2) by (simp add: recordable_def)
  ultimately have "holds_run crc ver h e0 (A @ [r]) (butlast fs @ [List.last fs @ bs]) e'"
    using e gs(5) by (auto simp: holds_run_def)
  moreover have "bs \<noteq> []" using encode_length [OF e(1)] by auto
  ultimately show ?thesis using that e(1) by blast
qed

lemma holds_run_rotates:
  assumes "holds_run crc ver h e0 A fs e" "next_segment e = Inr e2"
  obtains hb where "header_bytes crc e2 = Some hb" "holds_run crc ver h e0 A (fs @ [hb]) e2"
proof -
  obtain gs where gs: "write_run crc e0 gs = Some (fs, e)" "concat gs = A" "fs \<noteq> []" "encoder_ok ver e"
      "hdr_input (enc_header e) = hdr_input h" "enc_next e = chain_end (Some (hdr_first h)) A"
      "enc_last e = last_elapsed A"
    using assms(1) by (auto simp: holds_run_def)
  note n = next_segment_ok [OF assms(2) gs(4)]
  then obtain hb where hb: "header_bytes crc e2 = Some hb"
    using header_bytes_fields [of e2 crc] by (auto simp: encoder_ok_def header_ok_def)
  have "enc_next e2 = enc_next e" using n by (simp add: at_start_def)
  moreover have "concat (gs @ [[]]) = A" using gs(2) by simp
  ultimately have "holds_run crc ver h e0 A (fs @ [hb]) e2"
    using write_run_rotate [OF gs(1) assms(2) hb] n gs by (auto simp: holds_run_def)
  then show ?thesis using that hb by blast
qed

lemma holds_run_decodes:
  assumes "holds_run crc ver h e0 A fs e" "header_ok ver h" "new_encoder h = Inr e0" "hdr_index h = 0"
    and "list_all (kind_ok \<circ> rec_kind) A" "length fs < 2 ^ 32"
  shows "decode_recording crc ver fs = Some (Inr \<lparr>dec_header = h, dec_segment_count = of_nat (length fs),
    dec_records = A, dec_end = Clean\<rparr>)"
proof -
  obtain gs where gs: "write_run crc e0 gs = Some (fs, e)" "concat gs = A" "fs \<noteq> []"
    using assms(1) by (auto simp: holds_run_def)
  note w = write_run_recording [OF gs(1)] and n = new_encoder_ok [OF assms(3,2)]
  have k: "list_all (list_all (kind_ok \<circ> rec_kind)) gs"
    using assms(5) gs(2) by (auto simp: list_all_iff)
  have "continues None None e0" using n by (simp add: continues_def)
  from decode_segments_written [OF conjunct1 [OF w] _ _ _ k _ _ this, of ver 0 "[]" Clean]
  show ?thesis using w n gs assms(4,6) by (simp add: decode_recording_def)
qed

end
