(* ===== verification/Recorder_Inv.thy ===== *)
theory Recorder_Inv
  imports Recorder_Props
begin

text \<open>
  The invariant of the recorder under every interleaving of its steps, and its properties: the
  recording is exact and complete, it ends once, and it stays within its limits.
\<close>

subsection \<open>The queue\<close>

text \<open>
  \<open>A\<close> is what was appended, \<open>fl\<close> what the writer holds: with the backlog, they are the sequenced
  records in order, up to those a stop discarded.
\<close>

definition in_order :: "segment_header \<Rightarrow> nat \<Rightarrow> rec_shared \<Rightarrow> bool" where
  "in_order h clock s \<longleftrightarrow>
     chained (Some (hdr_first h)) (rs_sequenced s) \<and>
     rs_next s = chain_end (Some (hdr_first h)) (rs_sequenced s) \<and>
     sorted (map rec_elapsed (rs_sequenced s)) \<and>
     list_all (\<lambda>r. rec_elapsed r \<le> elapsed_u64 clock) (rs_sequenced s) \<and>
     list_all (recordable (hdr_input h)) (rs_sequenced s)"

definition accounted :: "rec list \<Rightarrow> rec list \<Rightarrow> rec_shared \<Rightarrow> bool" where
  "accounted A fl s \<longleftrightarrow>
     (\<exists>D. rs_sequenced s = A @ fl @ rs_backlog s @ D \<and> (rs_stopped s = None \<longrightarrow> D = []))"

definition ends_once :: "rec_shared \<Rightarrow> bool" where
  "ends_once s \<longleftrightarrow>
     (case rs_stopped s of
        None \<Rightarrow> rs_on_stop s \<and> rs_reports s = []
      | Some st \<Rightarrow> rs_backlog s = [] \<and> last_recorded st = rs_appended s \<and> \<not> rs_on_stop s \<and> rs_reports s = [st])"

definition backlog_bounded :: "recorder_limits \<Rightarrow> rec_shared \<Rightarrow> bool" where
  "backlog_bounded lim s \<longleftrightarrow>
     rs_backlog_bytes s = sum_list (map record_cost (rs_backlog s)) \<and>
     (lim_backlog_bytes lim < 2 ^ 64 - 1 \<longrightarrow> rs_backlog_bytes s \<le> lim_backlog_bytes lim)"

definition queue_inv :: "segment_header \<Rightarrow> recorder_limits \<Rightarrow> rec list \<Rightarrow> rec list \<Rightarrow> nat \<Rightarrow> rec_shared \<Rightarrow> bool" where
  "queue_inv h lim A fl clock s \<longleftrightarrow>
     in_order h clock s \<and> accounted A fl s \<and> ends_once s \<and> backlog_bounded lim s \<and> rs_appended s = last_seq A"

lemma elapsed_mono: "a \<le> b \<Longrightarrow> elapsed_u64 a \<le> elapsed_u64 b"
proof (cases "b < 2 ^ 64")
  case True
  then show "a \<le> b \<Longrightarrow> ?thesis" by (simp add: elapsed_u64_def word_le_nat_alt unat_of_nat)
qed (simp add: elapsed_u64_def)

lemma in_order_later: "in_order h clock s \<Longrightarrow> clock \<le> clock' \<Longrightarrow> in_order h clock' s"
  using elapsed_mono [of clock clock'] by (auto simp: in_order_def list_all_iff intro: order_trans)

lemma queue_inv_later: "queue_inv h lim A fl clock s \<Longrightarrow> clock \<le> clock' \<Longrightarrow> queue_inv h lim A fl clock' s"
  using in_order_later by (auto simp: queue_inv_def)

text \<open>The queue does not depend on the fields the writer and the close keep.\<close>

lemma queue_frame:
  assumes "rs_next s' = rs_next s" "rs_backlog s' = rs_backlog s" "rs_backlog_bytes s' = rs_backlog_bytes s"
    "rs_appended s' = rs_appended s" "rs_stopped s' = rs_stopped s" "rs_on_stop s' = rs_on_stop s"
    "rs_reports s' = rs_reports s" "rs_sequenced s' = rs_sequenced s"
  shows "queue_inv h lim A fl clock s' = queue_inv h lim A fl clock s"
  unfolding queue_inv_def in_order_def accounted_def ends_once_def backlog_bounded_def assms ..

lemma stop_keeps [simp]:
  "rs_next (stop_recording r s) = rs_next s" "rs_sequenced (stop_recording r s) = rs_sequenced s"
  "rs_appended (stop_recording r s) = rs_appended s" "rs_synced (stop_recording r s) = rs_synced s"
  "rs_accepting (stop_recording r s) = rs_accepting s" "rs_writer_done (stop_recording r s) = rs_writer_done s"
  "rs_segments (stop_recording r s) = rs_segments s" "rs_stopped (stop_recording r s) \<noteq> None"
  by (simp_all add: stop_recording_def Let_def)

lemma stop_queue: "queue_inv h lim A fl clock s \<Longrightarrow> queue_inv h lim A fl clock (stop_recording r s)"
  by (auto simp: queue_inv_def in_order_def accounted_def ends_once_def backlog_bounded_def stop_recording_def Let_def
      split: option.splits)

lemma stop_for_queue: "queue_inv h lim A fl clock s \<Longrightarrow> queue_inv h lim A fl clock (stop_for r s)"
  by (auto simp: stop_for_def stop_queue split: option.splits)

text \<open>Discarding the record in flight after a stop.\<close>

lemma drop_flight:
  "queue_inv h lim A fl clock s \<Longrightarrow> rs_stopped s \<noteq> None \<Longrightarrow> queue_inv h lim A [] clock s"
  by (auto simp: queue_inv_def accounted_def ends_once_def)

lemma sorted_snoc: "sorted (xs @ [x]) \<longleftrightarrow> sorted xs \<and> (\<forall>y\<in>set xs. y \<le> x)" for x :: "'a::linorder"
  by (simp add: sorted_append)

definition kind_recordable :: "bool \<Rightarrow> record_kind \<Rightarrow> bool" where
  "kind_recordable inp k \<longleftrightarrow> kind_ok k \<and> (\<exists>x. record_payload k inp = Inr x)"

lemma enqueue_keeps [simp]:
  "rs_appended (enqueue lim c k s) = rs_appended s" "rs_synced (enqueue lim c k s) = rs_synced s"
  "rs_accepting (enqueue lim c k s) = rs_accepting s" "rs_writer_done (enqueue lim c k s) = rs_writer_done s"
  "rs_segments (enqueue lim c k s) = rs_segments s"
  by (simp_all add: enqueue_def Let_def split: option.splits)

lemma enqueue_queue:
  assumes "queue_inv h lim A fl clock s" "kind_recordable (hdr_input h) k"
  shows "queue_inv h lim A fl clock (enqueue lim clock k s)"
proof (cases "rs_stopped s \<noteq> None \<or> \<not> rs_accepting s \<or> rs_next s = None")
  case True
  then show ?thesis using assms(1) stop_queue [OF assms(1)]
    by (auto simp: enqueue_def split: option.splits)
next
  case False
  then obtain n where n: "rs_next s = Some n" "rs_stopped s = None" by auto
  define r where "r = \<lparr>rec_sequence = n, rec_elapsed = elapsed_u64 clock, rec_kind = k\<rparr>"
  show ?thesis
  proof (cases "lim_backlog_bytes lim < saturating_usize (rs_backlog_bytes s + record_cost r)")
    case True
    then have "enqueue lim clock k s = stop_recording BacklogFull s"
      using False n by (simp add: enqueue_def r_def Let_def)
    then show ?thesis using stop_queue [OF assms(1)] by simp
  next
    case room: False
    have e: "enqueue lim clock k s = s\<lparr>rs_next := next_sequence n, rs_backlog := rs_backlog s @ [r],
        rs_backlog_bytes := rs_backlog_bytes s + record_cost r, rs_sequenced := rs_sequenced s @ [r]\<rparr>"
      using False n room by (simp add: enqueue_def Let_def flip: r_def)
    have q: "in_order h clock s" "accounted A fl s" "ends_once s" "backlog_bounded lim s"
      "rs_appended s = last_seq A" using assms(1) by (simp_all add: queue_inv_def)
    have "in_order h clock (enqueue lim clock k s)"
      using q(1) n assms(2) unfolding e
      by (auto simp: in_order_def chained_append sorted_snoc r_def recordable_def kind_recordable_def list_all_iff)
    moreover have "backlog_bounded lim (enqueue lim clock k s)"
      using q(4) room unfolding e by (auto simp: backlog_bounded_def saturating_usize_def)
    moreover have "accounted A fl (enqueue lim clock k s)" "ends_once (enqueue lim clock k s)"
      using q(2,3) n(2) unfolding e by (auto simp: accounted_def ends_once_def)
    ultimately show ?thesis using q(5) by (simp add: queue_inv_def)
  qed
qed

lemma chunk_recordable: "c \<in> set (chunks max_payload bs) \<Longrightarrow> kind_recordable inp (Output c)"
proof (induction "max_payload" bs rule: chunks.induct)
  case (1 xs)
  have "c \<in> set (take max_payload xs # chunks max_payload (drop max_payload xs)) \<and> xs \<noteq> []"
    using "1.prems" by (subst (asm) chunks.simps) (auto split: if_splits)
  moreover have "xs \<noteq> [] \<Longrightarrow> kind_recordable inp (Output (take max_payload xs))"
    by (auto simp: kind_recordable_def checked_payload_def max_payload_def)
  ultimately show ?case using "1.hyps" by (auto simp: max_payload_def)
qed

lemma output_chunks_queue:
  "queue_inv h lim A fl clock s \<Longrightarrow> \<forall>c\<in>set cs. kind_recordable (hdr_input h) (Output c) \<Longrightarrow>
   output_chunks lim ticks cs (clock, s) = (clock', s') \<Longrightarrow>
   queue_inv h lim A fl clock' s' \<and> rs_accepting s' = rs_accepting s \<and> rs_synced s' = rs_synced s \<and>
   rs_writer_done s' = rs_writer_done s"
proof (induction cs arbitrary: ticks clock s)
  case (Cons c cs)
  define now where "now = clock + (case ticks of [] \<Rightarrow> 0 | t # ts \<Rightarrow> t)"
  have "queue_inv h lim A fl now s" using Cons.prems(1) by (rule queue_inv_later) (simp add: now_def)
  then have "queue_inv h lim A fl now (enqueue lim now (Output c) s)"
    using Cons.prems(2) by (intro enqueue_queue) simp_all
  from Cons.IH [OF this] Cons.prems(2,3) show ?case by (simp add: Let_def flip: now_def)
qed simp


subsection \<open>The disk\<close>

definition sizes :: "bytes list \<Rightarrow> nat" where
  "sizes disk = sum_list (map length disk)"

text \<open>The limits leave room below the saturation of the counters.\<close>

definition lim_ok :: "recorder_limits \<Rightarrow> bool" where
  "lim_ok lim \<longleftrightarrow> lim_max_bytes lim < 2 ^ 64 - 1 \<and> lim_backlog_bytes lim < 2 ^ 64 - 1"

text \<open>The files hold \<open>A\<close>, and the writer's open segment is the last of them.\<close>

definition ready :: "(bytes \<Rightarrow> u32) \<Rightarrow> (bytes \<Rightarrow> nat) \<Rightarrow> segment_header \<Rightarrow> segment_encoder \<Rightarrow> recorder_limits
    \<Rightarrow> rec_writer \<Rightarrow> bytes list \<Rightarrow> bool" where
  "ready crc ver h e0 lim w disk \<longleftrightarrow>
     holds_run crc ver h e0 (rw_recorded w) disk (rw_encoder w) \<and> rw_file w = Some (length disk - 1) \<and>
     rw_segment_len w = length (List.last disk) \<and> rw_total_len w = sizes disk \<and> rw_total_len w \<le> lim_max_bytes lim"

text \<open>The files hold \<open>A\<close>, or nothing was published.\<close>

definition at_rest :: "(bytes \<Rightarrow> u32) \<Rightarrow> (bytes \<Rightarrow> nat) \<Rightarrow> segment_header \<Rightarrow> segment_encoder \<Rightarrow> recorder_limits
    \<Rightarrow> rec_writer \<Rightarrow> bytes list \<Rightarrow> bool" where
  "at_rest crc ver h e0 lim w disk \<longleftrightarrow>
     (if disk = [] then rw_recorded w = [] else \<exists>e. holds_run crc ver h e0 (rw_recorded w) disk e) \<and>
     sizes disk \<le> lim_max_bytes lim"

text \<open>The files hold \<open>A\<close> followed by \<open>k\<close> bytes of the record \<open>r\<close>.\<close>

definition overrun :: "(bytes \<Rightarrow> u32) \<Rightarrow> (bytes \<Rightarrow> nat) \<Rightarrow> segment_header \<Rightarrow> segment_encoder \<Rightarrow> recorder_limits
    \<Rightarrow> rec \<Rightarrow> nat \<Rightarrow> bool \<Rightarrow> rec_writer \<Rightarrow> bytes list \<Rightarrow> bool" where
  "overrun crc ver h e0 lim r before whole w disk \<longleftrightarrow>
     (\<exists>fs e bs k. holds_run crc ver h e0 (rw_recorded w) fs e \<and> k \<le> length bs \<and>
        disk = butlast fs @ [List.last fs @ take k bs] \<and> before = length (List.last fs) \<and>
        rw_file w = Some (length fs - 1) \<and> sizes disk \<le> lim_max_bytes lim \<and>
        (whole \<longrightarrow> k = length bs \<and> holds_run crc ver h e0 (rw_recorded w @ [r]) disk (rw_encoder w) \<and>
           rw_segment_len w = before + k \<and> rw_total_len w = sizes disk \<and> rw_unsynced w))"

fun disk_inv :: "(bytes \<Rightarrow> u32) \<Rightarrow> (bytes \<Rightarrow> nat) \<Rightarrow> segment_header \<Rightarrow> segment_encoder \<Rightarrow> recorder_limits
    \<Rightarrow> writer_stage \<Rightarrow> rec_writer \<Rightarrow> bytes list \<Rightarrow> bool" where
  "disk_inv crc ver h e0 lim WStart w disk = (w = new_writer e0 \<and> disk = [])"
| "disk_inv crc ver h e0 lim (WAttempted r before attempted reason) w disk =
     (if attempted then overrun crc ver h e0 lim r before (reason = None) w disk
      else reason \<noteq> None \<and> at_rest crc ver h e0 lim w disk)"
| "disk_inv crc ver h e0 lim WLastSync w disk = at_rest crc ver h e0 lim w disk"
| "disk_inv crc ver h e0 lim WEnding w disk = at_rest crc ver h e0 lim w disk"
| "disk_inv crc ver h e0 lim WDone w disk = at_rest crc ver h e0 lim w disk"
| "disk_inv crc ver h e0 lim WPanicked w disk = False"
| "disk_inv crc ver h e0 lim stage w disk = ready crc ver h e0 lim w disk"

text \<open>What the writer holds, and how it comes to its end.\<close>

fun in_flight :: "writer_stage \<Rightarrow> rec list" where
  "in_flight (WHolds r) = [r]"
| "in_flight (WAttempted r before attempted reason) = [r]"
| "in_flight stage = []"

definition sync_inv :: "rec_writer \<Rightarrow> rec_shared \<Rightarrow> bool" where
  "sync_inv w s \<longleftrightarrow> (rw_unsynced w \<longrightarrow> rw_file w \<noteq> None) \<and> (\<not> rw_unsynced w \<longrightarrow> rs_synced s = rw_last w) \<and>
     rw_last w = last_seq (rw_recorded w)"

definition end_inv :: "writer_stage \<Rightarrow> rec_writer \<Rightarrow> rec_shared \<Rightarrow> bool" where
  "end_inv stage w s \<longleftrightarrow>
     (stage \<in> {WLastSync, WEnding, WDone} \<and> rs_stopped s = None \<longrightarrow> \<not> rs_accepting s \<and> rs_backlog s = []) \<and>
     (stage \<in> {WEnding, WDone} \<and> rs_stopped s = None \<longrightarrow> \<not> rw_unsynced w)"

definition recorder_inv :: "(bytes \<Rightarrow> u32) \<Rightarrow> (bytes \<Rightarrow> nat) \<Rightarrow> segment_header \<Rightarrow> segment_encoder \<Rightarrow> recorder_limits
    \<Rightarrow> recorder_sys \<Rightarrow> bool" where
  "recorder_inv crc ver h e0 lim y \<longleftrightarrow>
     queue_inv h lim (rw_recorded (ry_writer y)) (in_flight (ry_stage y)) (ry_clock y) (ry_shared y) \<and>
     disk_inv crc ver h e0 lim (ry_stage y) (ry_writer y) (ry_disk y) \<and>
     sync_inv (ry_writer y) (ry_shared y) \<and> end_inv (ry_stage y) (ry_writer y) (ry_shared y)"

text \<open>Storage that can cut an unfinished record off again, and well-formed window sizes.\<close>

fun op_ok :: "recorder_op \<Rightarrow> bool" where
  "op_ok (OpSettle answer due) = (answer \<noteq> CutNotDone)"
| "op_ok (OpResize tick applied g c) = (geometry_ok g \<and> cause_ok c)"
| "op_ok x = True"

subsection \<open>Producers\<close>

text \<open>A producer leaves the writer's side of the invariant alone: it changes nothing after a stop or close.\<close>

lemma sync_end_shared:
  assumes "sync_inv w s" "end_inv st w s" "rs_synced s' = rs_synced s" "rs_accepting s' = rs_accepting s"
    "rs_stopped s \<noteq> None \<or> \<not> rs_accepting s \<Longrightarrow> s' = s"
  shows "sync_inv w s' \<and> end_inv st w s'"
proof (cases "rs_stopped s \<noteq> None \<or> \<not> rs_accepting s")
  case True
  then show ?thesis using assms(1,2,5) by simp
next
  case False
  then have "st \<notin> {WLastSync, WEnding, WDone}" using assms(2) by (auto simp: end_inv_def)
  then show ?thesis using assms(1,3) by (simp add: sync_inv_def end_inv_def)
qed

lemma enqueue_idle: "\<not> rs_accepting s \<Longrightarrow> enqueue lim c k s = s"
  by (simp add: enqueue_def)

lemma enqueue_stopped: "rs_stopped s \<noteq> None \<Longrightarrow> enqueue lim c k s = s"
  by (simp add: enqueue_def)

lemma output_chunks_idle:
  "\<not> rs_accepting s \<or> rs_stopped s \<noteq> None \<Longrightarrow> snd (output_chunks lim ticks cs (clock, s)) = s"
  by (induction cs arbitrary: ticks clock) (auto simp: enqueue_idle enqueue_stopped Let_def)

lemma output_step:
  assumes "recorder_inv crc ver h e0 lim y"
  shows "recorder_inv crc ver h e0 lim (recorder_step crc lim (OpOutput ticks bs) y)"
proof -
  obtain clock s where o: "output_chunks lim ticks (chunks max_payload bs) (ry_clock y, ry_shared y) = (clock, s)"
    by (metis surj_pair)
  have inv: "queue_inv h lim (rw_recorded (ry_writer y)) (in_flight (ry_stage y)) (ry_clock y) (ry_shared y)"
    using assms by (simp add: recorder_inv_def)
  have q: "queue_inv h lim (rw_recorded (ry_writer y)) (in_flight (ry_stage y)) clock s \<and>
      rs_accepting s = rs_accepting (ry_shared y) \<and> rs_synced s = rs_synced (ry_shared y)"
    using output_chunks_queue [OF inv _ o] chunk_recordable by blast
  have "rs_stopped (ry_shared y) \<noteq> None \<or> \<not> rs_accepting (ry_shared y) \<Longrightarrow> s = ry_shared y"
    using output_chunks_idle [of "ry_shared y" lim ticks "chunks max_payload bs" "ry_clock y"] o by auto
  then have "sync_inv (ry_writer y) s \<and> end_inv (ry_stage y) (ry_writer y) s"
    using assms q by (intro sync_end_shared [of _ "ry_shared y"]) (simp_all add: recorder_inv_def)
  then show ?thesis using assms q by (simp add: recorder_inv_def record_output_def o)
qed

lemma resize_step:
  assumes "recorder_inv crc ver h e0 lim y" "geometry_ok g" "cause_ok c"
  shows "recorder_inv crc ver h e0 lim (recorder_step crc lim (OpResize tick applied g c) y)"
proof -
  define clock where "clock = ry_clock y + tick"
  have k: "kind_recordable (hdr_input h) (Resize g c)"
    using assms(2,3) by (auto simp: kind_recordable_def Let_def split: resize_cause.splits)
  define s where "s = snd (resize_applied lim applied g c clock (ry_shared y))"
  have q0: "queue_inv h lim (rw_recorded (ry_writer y)) (in_flight (ry_stage y)) clock (ry_shared y)"
    using assms(1) queue_inv_later by (auto simp: recorder_inv_def clock_def)
  then have q: "queue_inv h lim (rw_recorded (ry_writer y)) (in_flight (ry_stage y)) clock s"
    using enqueue_queue [OF q0 k] by (auto simp: s_def resize_applied_def split: option.splits)
  have "rs_stopped (ry_shared y) \<noteq> None \<or> \<not> rs_accepting (ry_shared y) \<Longrightarrow> s = ry_shared y"
    by (auto simp: s_def resize_applied_def enqueue_idle enqueue_stopped split: option.splits)
  moreover have "rs_accepting s = rs_accepting (ry_shared y)" "rs_synced s = rs_synced (ry_shared y)"
    by (auto simp: s_def resize_applied_def split: option.splits)
  ultimately have "sync_inv (ry_writer y) s \<and> end_inv (ry_stage y) (ry_writer y) s"
    using assms(1) by (intro sync_end_shared [of _ "ry_shared y"]) (simp_all add: recorder_inv_def)
  then show ?thesis using assms(1) q by (simp add: recorder_inv_def flip: clock_def s_def)
qed

lemma stop_sync_end:
  "sync_inv w s \<Longrightarrow> sync_inv w (stop_recording r s)" "end_inv st w (stop_recording r s)"
  by (auto simp: sync_inv_def end_inv_def)

lemma close_steps:
  assumes "recorder_inv crc ver h e0 lim y"
  shows "recorder_inv crc ver h e0 lim (recorder_step crc lim OpClose y)"
    and "recorder_inv crc ver h e0 lim (recorder_step crc lim OpCloseTimeout y)"
proof -
  show "recorder_inv crc ver h e0 lim (recorder_step crc lim OpClose y)"
    using assms queue_frame [of "(ry_shared y)\<lparr>rs_accepting := False\<rparr>" "ry_shared y"]
    by (simp add: recorder_inv_def sync_inv_def end_inv_def)
  show "recorder_inv crc ver h e0 lim (recorder_step crc lim OpCloseTimeout y)"
    using assms stop_queue stop_sync_end by (auto simp: recorder_inv_def)
qed

subsection \<open>Syncs\<close>

lemma sync_segment_result:
  assumes "sync_inv w s"
  obtains reason u x where "sync_segment ans w s = Some (reason, w\<lparr>rw_unsynced := u\<rparr>, s\<lparr>rs_synced := x\<rparr>)"
    "sync_inv (w\<lparr>rw_unsynced := u\<rparr>) (s\<lparr>rs_synced := x\<rparr>)" "reason = None \<longrightarrow> \<not> u"
proof (cases "rw_unsynced w \<and> ans = None")
  case True
  then have "sync_segment ans w s = Some (None, w\<lparr>rw_unsynced := False\<rparr>, s\<lparr>rs_synced := rw_last w\<rparr>)"
    using assms by (auto simp: sync_segment_def sync_inv_def)
  then show ?thesis by (rule that) (use assms in \<open>simp_all add: sync_inv_def\<close>)
next
  case False
  define reason where "reason = (if rw_unsynced w then map_option WriteFailed ans else None)"
  have "sync_segment ans w s = Some (reason, w\<lparr>rw_unsynced := rw_unsynced w\<rparr>, s\<lparr>rs_synced := rs_synced s\<rparr>)"
    using assms False by (cases ans) (auto simp: sync_segment_def sync_inv_def reason_def)
  then show ?thesis by (rule that) (use assms False in \<open>auto simp: reason_def\<close>)
qed

lemma unsynced_irrelevant [simp]:
  "ready crc ver h e0 lim (w\<lparr>rw_unsynced := u\<rparr>) disk = ready crc ver h e0 lim w disk"
  "at_rest crc ver h e0 lim (w\<lparr>rw_unsynced := u\<rparr>) disk = at_rest crc ver h e0 lim w disk"
  by (simp_all add: ready_def at_rest_def)

lemma synced_irrelevant [simp]: "queue_inv h lim A fl clock (s\<lparr>rs_synced := x\<rparr>) = queue_inv h lim A fl clock s"
  by (rule queue_frame) simp_all

lemma segments_irrelevant [simp]: "queue_inv h lim A fl clock (s\<lparr>rs_segments := x\<rparr>) = queue_inv h lim A fl clock s"
  by (rule queue_frame) simp_all

lemma ready_at_rest: "ready crc ver h e0 lim w disk \<Longrightarrow> at_rest crc ver h e0 lim w disk"
  unfolding ready_def at_rest_def by (auto simp: holds_run_def [of crc ver h e0 _ "[]"])

lemma stop_for_sync_end:
  "sync_inv w s \<Longrightarrow> sync_inv w (stop_for r s)" "r \<noteq> None \<Longrightarrow> end_inv st w (stop_for r s)"
  by (auto simp: stop_for_def stop_sync_end split: option.splits)

text \<open>A sync keeps the invariant, if the stages it goes to ask no more than that it succeeded.\<close>

lemma sync_then_inv:
  assumes inv: "recorder_inv crc ver h e0 lim y" and flight: "in_flight (ry_stage y) = []"
    and stages: "in_flight good = []" "in_flight failed = []"
    and disk: "\<And>u. disk_inv crc ver h e0 lim good ((ry_writer y)\<lparr>rw_unsynced := u\<rparr>) (ry_disk y) \<and>
      disk_inv crc ver h e0 lim failed ((ry_writer y)\<lparr>rw_unsynced := u\<rparr>) (ry_disk y)"
    and ends: "\<And>w' x. \<not> rw_unsynced w' \<Longrightarrow> end_inv good w' ((ry_shared y)\<lparr>rs_synced := x\<rparr>)"
  shows "recorder_inv crc ver h e0 lim (sync_then ans good failed y)"
proof -
  obtain reason u x where s: "sync_segment ans (ry_writer y) (ry_shared y) =
      Some (reason, (ry_writer y)\<lparr>rw_unsynced := u\<rparr>, (ry_shared y)\<lparr>rs_synced := x\<rparr>)"
    and keep: "sync_inv ((ry_writer y)\<lparr>rw_unsynced := u\<rparr>) ((ry_shared y)\<lparr>rs_synced := x\<rparr>)"
    and none: "reason = None \<longrightarrow> \<not> u"
    by (rule sync_segment_result [of "ry_writer y" "ry_shared y" ans]) (use inv in \<open>simp add: recorder_inv_def\<close>)
  have q: "queue_inv h lim (rw_recorded (ry_writer y)) [] (ry_clock y) (stop_for reason ((ry_shared y)\<lparr>rs_synced := x\<rparr>))"
    using inv flight by (intro stop_for_queue) (simp add: recorder_inv_def)
  show ?thesis
  proof (cases reason)
    case None
    then show ?thesis using q keep none disk stages ends
      by (simp add: sync_then_def s recorder_inv_def stop_for_def)
  next
    case (Some r)
    then show ?thesis using q keep disk stages stop_for_sync_end [where r = reason]
      by (simp add: sync_then_def s recorder_inv_def)
  qed
qed

lemma sync_steps:
  assumes "recorder_inv crc ver h e0 lim y"
  shows "recorder_inv crc ver h e0 lim (recorder_step crc lim (OpIdleSync ans) y)"
    and "recorder_inv crc ver h e0 lim (recorder_step crc lim (OpScheduledSync ans) y)"
    and "recorder_inv crc ver h e0 lim (recorder_step crc lim (OpLastSync ans) y)"
proof -
  have ends: "end_inv WLook w s" for w s by (simp add: end_inv_def)
  have rest: "disk_inv crc ver h e0 lim (ry_stage y) w disk \<Longrightarrow> ry_stage y \<in> {WIdleSync, WScheduledSync} \<Longrightarrow>
    ready crc ver h e0 lim w disk" for w disk by auto
  have now: "disk_inv crc ver h e0 lim (ry_stage y) (ry_writer y) (ry_disk y)"
    using assms by (simp add: recorder_inv_def)
  have "recorder_inv crc ver h e0 lim (sync_then ans WLook WLastSync y)"
    if "ry_stage y \<in> {WIdleSync, WScheduledSync}"
    by (rule sync_then_inv [OF assms]) (use that rest [OF now that] ready_at_rest ends in auto)
  then show "recorder_inv crc ver h e0 lim (recorder_step crc lim (OpIdleSync ans) y)"
    and "recorder_inv crc ver h e0 lim (recorder_step crc lim (OpScheduledSync ans) y)"
    using assms by simp_all
  have "recorder_inv crc ver h e0 lim (sync_then ans WEnding WEnding y)" if last: "ry_stage y = WLastSync"
  proof (rule sync_then_inv [OF assms])
    show "end_inv WEnding w' ((ry_shared y)\<lparr>rs_synced := x\<rparr>)" if "\<not> rw_unsynced w'" for w' x
      using assms last that by (simp add: recorder_inv_def end_inv_def)
  qed (use now last in simp_all)
  then show "recorder_inv crc ver h e0 lim (recorder_step crc lim (OpLastSync ans) y)"
    using assms by simp
qed

subsection \<open>Publishing, looking and ending\<close>

lemma not_over_size:
  "\<not> over_size lim w n \<Longrightarrow> lim_ok lim \<Longrightarrow> rw_total_len w + n \<le> lim_max_bytes lim"
  by (auto simp: over_size_def lim_ok_def saturating_usize_def)

lemma sizes_append [simp]: "sizes (xs @ ys) = sizes xs + sizes ys" "sizes [x] = length x" "sizes [] = 0"
  by (simp_all add: sizes_def)

lemma publish_first_step:
  assumes inv: "recorder_inv crc ver h e0 lim y" and ok: "header_ok ver h" "new_encoder h = Inr e0" "lim_ok lim"
  shows "recorder_inv crc ver h e0 lim (recorder_step crc lim (OpPublishFirst ans) y)"
proof (cases "ry_stage y = WStart")
  case True
  have w: "ry_writer y = new_writer e0" "ry_disk y = []" using inv True by (simp_all add: recorder_inv_def)
  have "encoder_ok ver e0" using new_encoder_ok [OF ok(2,1)] by simp
  then obtain hb where hb: "header_bytes crc e0 = Some hb"
    using header_bytes_fields [of e0 crc] by (auto simp: encoder_ok_def header_ok_def)
  note first = holds_run_first [OF ok(1,2) hb]
  obtain reason w' disk s where p: "publish_segment lim ans hb 0 (ry_writer y) (ry_disk y) (ry_shared y) =
      (reason, w', disk, s)" by (metis prod_cases4)
  have enc: "rw_encoder (new_writer e0) = e0" "rw_recorded (new_writer e0) = []" "rw_total_len (new_writer e0) = 0"
    "\<not> rw_unsynced (new_writer e0)" by (simp_all add: new_writer_def)
  have q: "queue_inv h lim [] [] (ry_clock y) (ry_shared y)" "sync_inv (new_writer e0) (ry_shared y)"
    using inv True w enc by (simp_all add: recorder_inv_def)
  have fit: "\<not> over_size lim (new_writer e0) (length hb) \<Longrightarrow> length hb \<le> lim_max_bytes lim"
    using not_over_size [OF _ ok(3)] enc(3) by force
  have "queue_inv h lim (rw_recorded w') [] (ry_clock y) s \<and> sync_inv w' s \<and>
    (if reason = None then ready crc ver h e0 lim w' disk else at_rest crc ver h e0 lim w' disk)"
    using p w q first fit enc
    by (auto simp: publish_segment_def ready_def at_rest_def sync_inv_def
        split: if_splits publish_answer.splits)
  then show ?thesis using stop_for_queue stop_for_sync_end [where w = w' and s = s and r = reason]
    by (auto simp: True publish_first_def w enc hb p [unfolded w] recorder_inv_def stop_for_def end_inv_def)
qed (use inv in simp)

lemma look_step:
  assumes "recorder_inv crc ver h e0 lim y"
  shows "recorder_inv crc ver h e0 lim (recorder_step crc lim (OpLook due) y)"
proof (cases "ry_stage y = WLook")
  case True
  note inv = assms [unfolded recorder_inv_def True]
  show ?thesis
  proof (cases "rs_stopped (ry_shared y) = None \<and> rs_backlog (ry_shared y) \<noteq> []")
    case False
    then show ?thesis using inv ready_at_rest
      by (auto simp: True look_def Let_def recorder_inv_def end_inv_def)
  next
    case more: True
    then obtain r rs where r: "rs_backlog (ry_shared y) = r # rs" by (cases "rs_backlog (ry_shared y)") auto
    define s where "s = (ry_shared y)\<lparr>rs_backlog := rs, rs_backlog_bytes := rs_backlog_bytes (ry_shared y) - record_cost r\<rparr>"
    have l: "recorder_step crc lim (OpLook due) y = y\<lparr>ry_shared := s, ry_stage := WHolds r\<rparr>"
      using more r by (simp add: True look_def s_def Let_def)
    have "queue_inv h lim (rw_recorded (ry_writer y)) [r] (ry_clock y) s"
      using inv r more
      by (auto simp: s_def queue_inv_def in_order_def accounted_def ends_once_def backlog_bounded_def)
    then show ?thesis using inv unfolding l
      by (simp add: recorder_inv_def s_def sync_inv_def end_inv_def)
  qed
qed (use assms in simp)

lemma end_step:
  assumes "recorder_inv crc ver h e0 lim y"
  shows "recorder_inv crc ver h e0 lim (recorder_step crc lim OpWriterEnd y)"
proof (cases "ry_stage y = WEnding")
  case True
  then show ?thesis using assms queue_frame [of "(ry_shared y)\<lparr>rs_writer_done := True\<rparr>" "ry_shared y"]
    by (simp add: recorder_inv_def sync_inv_def end_inv_def)
qed (use assms in simp)

subsection \<open>Attempting an append\<close>

lemma flight_next:
  assumes "queue_inv h lim A [r] clock s"
  shows "recordable (hdr_input h) r" "chained (chain_end (Some (hdr_first h)) A) [r]"
    "\<forall>t. last_elapsed A = Some t \<longrightarrow> t \<le> rec_elapsed r"
proof -
  obtain D where R: "rs_sequenced s = A @ [r] @ D" and i: "in_order h clock s"
    using assms by (auto simp: queue_inv_def accounted_def)
  show "recordable (hdr_input h) r" "chained (chain_end (Some (hdr_first h)) A) [r]"
    using i unfolding in_order_def R by (auto simp: chained_append)
  have "sorted (map rec_elapsed A @ rec_elapsed r # map rec_elapsed D)"
    using i unfolding in_order_def R by simp
  then show "\<forall>t. last_elapsed A = Some t \<longrightarrow> t \<le> rec_elapsed r"
    by (auto simp: last_elapsed_def sorted_append)
qed

text \<open>What a preparation leaves: an error with the files at rest, or the bytes to append next.\<close>

definition prepared :: "(bytes \<Rightarrow> u32) \<Rightarrow> (bytes \<Rightarrow> nat) \<Rightarrow> segment_header \<Rightarrow> segment_encoder \<Rightarrow> recorder_limits
    \<Rightarrow> rec \<Rightarrow> rec list \<Rightarrow> stop_reason + bytes \<Rightarrow> rec_writer \<Rightarrow> bytes list \<Rightarrow> bool" where
  "prepared crc ver h e0 lim r A res w disk \<longleftrightarrow>
     rw_recorded w = A \<and>
     (case res of
        Inl reason \<Rightarrow> at_rest crc ver h e0 lim w disk
      | Inr bs \<Rightarrow>
          (\<exists>e. holds_run crc ver h e0 A disk e) \<and>
          holds_run crc ver h e0 (A @ [r]) (butlast disk @ [List.last disk @ bs]) (rw_encoder w) \<and>
          rw_file w = Some (length disk - 1) \<and> rw_segment_len w = length (List.last disk) \<and>
          rw_total_len w = sizes disk \<and> sizes disk + length bs \<le> lim_max_bytes lim)"

definition keeps_queue :: "rec_shared \<Rightarrow> rec_shared \<Rightarrow> bool" where
  "keeps_queue s s' \<longleftrightarrow> (\<exists>x n. s' = s\<lparr>rs_synced := x, rs_segments := n\<rparr>)"

lemma keeps_refl: "keeps_queue s s" unfolding keeps_queue_def by (intro exI [of _ "rs_synced s"] exI [of _ "rs_segments s"]) simp

lemma prepare_here_result:
  assumes "ready crc ver h e0 lim w disk" "sync_inv w s" "lim_ok lim" "queue_inv h lim (rw_recorded w) [r] clock s"
  obtains res w' where "prepare_here crc lim r (w, disk, s) = Some (res, w', disk, s)"
    "prepared crc ver h e0 lim r (rw_recorded w) res w' disk" "sync_inv w' s"
proof -
  note R = assms(1) [unfolded ready_def]
  obtain bs e' where e: "encode crc r (rw_encoder w) = Some (Inr bs, e')"
    "holds_run crc ver h e0 (rw_recorded w @ [r]) (butlast disk @ [List.last disk @ bs]) e'"
    using holds_run_encodes [OF conjunct1 [OF R] flight_next [OF assms(4)]] by blast
  have sync: "sync_inv (w\<lparr>rw_encoder := e'\<rparr>) s" using assms(2) by (simp add: sync_inv_def)
  show ?thesis
  proof (cases "over_size lim w (length bs)")
    case True
    have "at_rest crc ver h e0 lim (w\<lparr>rw_encoder := e'\<rparr>) disk"
      using ready_at_rest [OF assms(1)] by (simp add: at_rest_def)
    then show ?thesis using that e sync True by (simp add: prepare_here_def prepared_def)
  next
    case False
    then show ?thesis using that [of "Inr bs" "w\<lparr>rw_encoder := e'\<rparr>"] e sync R not_over_size [OF False assms(3)]
      by (auto simp: prepare_here_def prepared_def)
  qed
qed

lemma header_bytes_same: "enc_header e = enc_header e' \<Longrightarrow> header_bytes crc e = header_bytes crc e'"
  by (simp add: header_bytes_def)

lemma publish_result:
  assumes "holds_run crc ver h e0 A disk e" "holds_run crc ver h e0 A (disk @ [hb]) e2"
    and "rw_recorded w = A" "sync_inv w s" "rw_total_len w = sizes disk" "lim_ok lim"
    and "sizes disk + length hb \<le> lim_max_bytes lim"
  obtains reason w' disk' s' where "publish_segment lim ans hb i w disk s = (reason, w', disk', s')"
    "sync_inv w' s'" "keeps_queue s s'" "rw_recorded w' = A"
    "if reason = None then disk' = disk @ [hb] \<and> rw_file w' = Some (length disk) \<and>
       rw_segment_len w' = length hb \<and> rw_total_len w' = sizes (disk @ [hb])
     else at_rest crc ver h e0 lim w' disk'"
proof -
  obtain reason w' disk' s' where p: "publish_segment lim ans hb i w disk s = (reason, w', disk', s')"
    by (metis prod_cases4)
  have ne: "disk \<noteq> []" using assms(1) by (simp add: holds_run_def)
  have rest: "at_rest crc ver h e0 lim w disk" "at_rest crc ver h e0 lim w (disk @ [hb])"
    using assms ne by (auto simp: at_rest_def)
  have seg: "keeps_queue s (s\<lparr>rs_segments := n\<rparr>)" for n
    unfolding keeps_queue_def by (intro exI [of _ "rs_synced s"] exI [of _ n]) simp
  show ?thesis
    by (rule that [OF p])
       (use p rest assms(3-5) seg keeps_refl [of s] in
         \<open>auto simp: publish_segment_def sync_inv_def split: if_splits publish_answer.splits\<close>)
qed

lemma prepare_next_result:
  assumes "ready crc ver h e0 lim w disk" "sync_inv w s" "lim_ok lim" "queue_inv h lim (rw_recorded w) [r] clock s"
    and "next_segment (rw_encoder w) = Inr nxt"
  obtains res w' disk' s' where "prepare_next crc lim synced published r nxt (w, disk, s) = Some (res, w', disk', s')"
    "prepared crc ver h e0 lim r (rw_recorded w) res w' disk'" "sync_inv w' s'" "keeps_queue s s'"
proof -
  note R = assms(1) [unfolded ready_def]
  obtain hb where hb: "header_bytes crc nxt = Some hb" "holds_run crc ver h e0 (rw_recorded w) (disk @ [hb]) nxt"
    using holds_run_rotates [OF conjunct1 [OF R] assms(5)] by blast
  obtain bs e' where e: "encode crc r nxt = Some (Inr bs, e')"
    "holds_run crc ver h e0 (rw_recorded w @ [r]) (butlast (disk @ [hb]) @ [List.last (disk @ [hb]) @ bs]) e'"
    using holds_run_encodes [OF hb(2) flight_next [OF assms(4)]] by blast
  have hd: "header_bytes crc e' = Some hb"
    using encode_encoder_ok [OF e(1)] hb flight_next(1) [OF assms(4)] header_bytes_same [of e' nxt]
    by (auto simp: holds_run_def recordable_def)
  have rest: "at_rest crc ver h e0 lim w disk" by (rule ready_at_rest [OF assms(1)])
  show ?thesis
  proof (cases "over_size lim w (length hb + length bs)")
    case True
    show ?thesis by (rule that [of "Inl SizeLimit" w disk s])
      (use e hd True rest assms(2) keeps_refl in \<open>simp_all add: prepare_next_def prepared_def\<close>)
  next
    case False
    note fits = not_over_size [OF False assms(3)]
    obtain reason u x where s: "sync_segment synced w s = Some (reason, w\<lparr>rw_unsynced := u\<rparr>, s\<lparr>rs_synced := x\<rparr>)"
      "sync_inv (w\<lparr>rw_unsynced := u\<rparr>) (s\<lparr>rs_synced := x\<rparr>)"
      by (rule sync_segment_result [OF assms(2)])
    have ks: "keeps_queue s (s\<lparr>rs_synced := x\<rparr>)" for x
      unfolding keeps_queue_def by (intro exI [of _ x] exI [of _ "rs_segments s"]) simp
    show ?thesis
    proof (cases reason)
      case (Some why)
      show ?thesis by (rule that [of "Inl why" "w\<lparr>rw_unsynced := u\<rparr>" disk "s\<lparr>rs_synced := x\<rparr>"])
        (use e hd False s Some rest ks in \<open>simp_all add: prepare_next_def prepared_def\<close>)
    next
      case None
      obtain why w2 disk2 s2 where p: "publish_segment lim published hb (hdr_index (enc_header e'))
          (w\<lparr>rw_unsynced := u\<rparr>) disk (s\<lparr>rs_synced := x\<rparr>) = (why, w2, disk2, s2)"
        "sync_inv w2 s2" "keeps_queue (s\<lparr>rs_synced := x\<rparr>) s2" "rw_recorded w2 = rw_recorded w"
        "if why = None then disk2 = disk @ [hb] \<and> rw_file w2 = Some (length disk) \<and>
           rw_segment_len w2 = length hb \<and> rw_total_len w2 = sizes (disk @ [hb])
         else at_rest crc ver h e0 lim w2 disk2"
        by (rule publish_result [OF conjunct1 [OF R] hb(2), of "w\<lparr>rw_unsynced := u\<rparr>" "s\<lparr>rs_synced := x\<rparr>" lim
              published "hdr_index (enc_header e')"])
           (use R fits assms(3) s(2) in simp_all)
      have k2: "keeps_queue s s2" using p(3) unfolding keeps_queue_def by fastforce
      show ?thesis
      proof (cases why)
        case None': None
        show ?thesis by (rule that [of "Inr bs" "w2\<lparr>rw_encoder := e'\<rparr>" disk2 s2])
          (use e hd False s None None' p k2 hb(2) fits R in
            \<open>auto simp: prepare_next_def prepared_def sync_inv_def\<close>)
      next
        case (Some reason2)
        show ?thesis by (rule that [of "Inl reason2" w2 disk2 s2])
          (use e hd False s None Some p k2 in \<open>simp_all add: prepare_next_def prepared_def\<close>)
      qed
    qed
  qed
qed

lemma prepare_result:
  assumes "ready crc ver h e0 lim w disk" "sync_inv w s" "lim_ok lim" "queue_inv h lim (rw_recorded w) [r] clock s"
  obtains res w' disk' s' where "prepare_record crc lim synced published r (w, disk, s) = Some (res, w', disk', s')"
    "prepared crc ver h e0 lim r (rw_recorded w) res w' disk'" "sync_inv w' s'" "keeps_queue s s'"
proof (cases "lim_segment_bytes lim \<le> rw_segment_len w")
  case True
  show ?thesis
  proof (cases "next_segment (rw_encoder w)")
    case (Inl err)
    obtain res w' where "prepare_here crc lim r (w, disk, s) = Some (res, w', disk, s)"
      "prepared crc ver h e0 lim r (rw_recorded w) res w' disk" "sync_inv w' s"
      by (rule prepare_here_result [OF assms])
    then show ?thesis using that keeps_refl True Inl by (simp add: prepare_record_def)
  next
    case (Inr nxt)
    obtain res w' disk' s' where "prepare_next crc lim synced published r nxt (w, disk, s) = Some (res, w', disk', s')"
      "prepared crc ver h e0 lim r (rw_recorded w) res w' disk'" "sync_inv w' s'" "keeps_queue s s'"
      by (rule prepare_next_result [OF assms Inr])
    then show ?thesis using that True Inr by (simp add: prepare_record_def)
  qed
next
  case False
  obtain res w' where "prepare_here crc lim r (w, disk, s) = Some (res, w', disk, s)"
    "prepared crc ver h e0 lim r (rw_recorded w) res w' disk" "sync_inv w' s"
    by (rule prepare_here_result [OF assms])
  then show ?thesis using that keeps_refl False by (simp add: prepare_record_def)
qed

end
