(* ===== verification/Recorder_Laws.thy ===== *)
theory Recorder_Laws
  imports Recorder_Inv
begin

text \<open>
  The writer's steps that touch storage keep the recorder's invariant, and the laws that follow for
  every interleaving.
\<close>

subsection \<open>Attempt and settle\<close>

lemma update_last: "disk \<noteq> [] \<Longrightarrow> disk[length disk - 1 := x] = butlast disk @ [x]"
  by (induction disk) (auto simp: list_update.simps split: nat.splits)

lemma sizes_last: "disk \<noteq> [] \<Longrightarrow> sizes (butlast disk @ [List.last disk @ x]) = sizes disk + length x"
  by (induction disk rule: rev_induct) simp_all

lemma append_overrun:
  assumes p: "prepared crc ver h e0 lim r (rw_recorded w) (Inr bs) w1 disk" and "sync_inv w1 s" "lim_ok lim"
  obtains reason w2 disk2 where "append_record ans bs w1 disk = Some (reason, w2, disk2)"
    "overrun crc ver h e0 lim r (rw_segment_len w1) (reason = None) w2 disk2" "sync_inv w2 s"
    "rw_recorded w2 = rw_recorded w"
proof -
  obtain e where e: "holds_run crc ver h e0 (rw_recorded w) disk e"
    and run: "holds_run crc ver h e0 (rw_recorded w @ [r]) (butlast disk @ [List.last disk @ bs]) (rw_encoder w1)"
    and f: "rw_file w1 = Some (length disk - 1)" "rw_segment_len w1 = length (List.last disk)"
      "rw_total_len w1 = sizes disk" "sizes disk + length bs \<le> lim_max_bytes lim" "rw_recorded w1 = rw_recorded w"
    using p by (auto simp: prepared_def)
  have ne: "disk \<noteq> []" using e by (simp add: holds_run_def)
  have nth: "disk ! (length disk - 1) = List.last disk" using ne by (simp add: last_conv_nth)
  have upd: "disk[length disk - 1 := disk ! (length disk - 1) @ x] = butlast disk @ [List.last disk @ x]" for x
    using update_last [OF ne] nth by simp
  show ?thesis
  proof (cases ans)
    case AppendWhole
    define w2 where "w2 = w1\<lparr>rw_segment_len := rw_segment_len w1 + length bs,
      rw_total_len := rw_total_len w1 + length bs, rw_unsynced := True\<rparr>"
    have "overrun crc ver h e0 lim r (rw_segment_len w1) True w2 (butlast disk @ [List.last disk @ bs])"
      unfolding overrun_def
      by (rule exI [of _ disk], rule exI [of _ e], rule exI [of _ bs], rule exI [of _ "length bs"])
         (use e run f sizes_last [OF ne, of bs] in \<open>simp add: w2_def\<close>)
    moreover have "sync_inv w2 s" using assms(2) f by (simp add: sync_inv_def w2_def)
    ultimately show ?thesis using that [of None w2] f upd AppendWhole by (simp add: append_record_def w2_def)
  next
    case (AppendTorn k err)
    define m where "m = min k (length bs - 1)"
    have le: "m \<le> length bs" "min (length bs) m = m" by (auto simp: m_def)
    have small: "sizes (butlast disk @ [List.last disk @ take m bs]) \<le> lim_max_bytes lim"
      using f(4) le sizes_last [OF ne, of "take m bs"] by simp
    have "overrun crc ver h e0 lim r (rw_segment_len w1) False w1 (butlast disk @ [List.last disk @ take m bs])"
      unfolding overrun_def f(5)
      by (rule exI [of _ disk], rule exI [of _ e], rule exI [of _ bs], rule exI [of _ m])
         (intro conjI impI e le(1) refl f(1,2) small; simp)
    moreover have "append_record ans bs w1 disk =
        Some (Some (WriteFailed err), w1, butlast disk @ [List.last disk @ take m bs])"
      unfolding append_record_def f(1) AppendTorn option.case append_answer.case m_def upd ..
    ultimately show ?thesis using that [of "Some (WriteFailed err)"] assms(2) f(5) by simp
  qed
qed

lemma keeps_queue_inv: "keeps_queue s s' \<Longrightarrow> queue_inv h lim A fl clock s' = queue_inv h lim A fl clock s"
  unfolding keeps_queue_def by (elim exE, hypsubst, rule queue_frame) simp_all

lemma attempt_step:
  assumes inv: "recorder_inv crc ver h e0 lim y" and ok: "lim_ok lim"
  shows "recorder_inv crc ver h e0 lim (recorder_step crc lim (OpAttempt synced published appended) y)"
proof (cases "\<exists>r. ry_stage y = WHolds r")
  case True
  then obtain r where r: "ry_stage y = WHolds r" ..
  have R: "ready crc ver h e0 lim (ry_writer y) (ry_disk y)" and S: "sync_inv (ry_writer y) (ry_shared y)"
    and Q: "queue_inv h lim (rw_recorded (ry_writer y)) [r] (ry_clock y) (ry_shared y)"
    using inv r by (simp_all add: recorder_inv_def)
  obtain res w disk s where p: "prepare_record crc lim synced published r (ry_writer y, ry_disk y, ry_shared y) =
      Some (res, w, disk, s)" "prepared crc ver h e0 lim r (rw_recorded (ry_writer y)) res w disk" "sync_inv w s"
      "keeps_queue (ry_shared y) s"
    by (rule prepare_result [OF R S ok Q])
  note q = keeps_queue_inv [OF p(4)]
  show ?thesis
  proof (cases res)
    case (Inl reason)
    then show ?thesis using p q Q
      by (simp add: r attempt_def recorder_inv_def prepared_def end_inv_def)
  next
    case (Inr bs)
    obtain reason w2 disk2 where a: "append_record appended bs w disk = Some (reason, w2, disk2)"
      "overrun crc ver h e0 lim r (rw_segment_len w) (reason = None) w2 disk2" "sync_inv w2 s"
      "rw_recorded w2 = rw_recorded (ry_writer y)"
      by (rule append_overrun [OF p(2) [unfolded Inr] p(3) ok])
    then show ?thesis using p(1) q Q Inr
      by (simp add: r attempt_def recorder_inv_def end_inv_def)
  qed
qed (use inv in \<open>auto split: writer_stage.splits\<close>)

lemma cut_at_rest:
  assumes "overrun crc ver h e0 lim r before whole w disk" "answer \<noteq> CutNotDone" "cut_back answer before w disk = (w', disk')"
  shows "at_rest crc ver h e0 lim w' disk' \<and> rw_recorded w' = rw_recorded w \<and> rw_unsynced w' = rw_unsynced w \<and>
    rw_last w' = rw_last w \<and> rw_file w' = rw_file w"
proof -
  obtain fs e bs k where o: "holds_run crc ver h e0 (rw_recorded w) fs e" "k \<le> length bs"
    "disk = butlast fs @ [List.last fs @ take k bs]" "before = length (List.last fs)"
    "rw_file w = Some (length fs - 1)" "sizes disk \<le> lim_max_bytes lim"
    using assms(1) unfolding overrun_def by blast
  have ne: "fs \<noteq> []" using o(1) by (simp add: holds_run_def)
  have "length disk - 1 = length fs - 1" "disk ! (length fs - 1) = List.last fs @ take k bs"
    using ne o(3) by (simp_all add: nth_append)
  moreover have "disk[length fs - 1 := List.last fs] = fs"
    using update_last [of disk "List.last fs"] o(3) ne by simp
  ultimately have d: "disk' = fs" "w' = w \<or> w' = w\<lparr>rw_total_len := rw_total_len w', rw_segment_len := before\<rparr>"
    using assms(2,3) o(4,5) by (auto simp: cut_back_def split: cut_answer.splits)
  have "sizes fs \<le> sizes disk" using sizes_last [OF ne, of "take k bs"] o(3) by simp
  then have "at_rest crc ver h e0 lim w fs" using o(1,6) ne by (auto simp: at_rest_def)
  moreover have "rw_recorded w' = rw_recorded w \<and> rw_unsynced w' = rw_unsynced w \<and> rw_last w' = rw_last w \<and>
      rw_file w' = rw_file w" using d(2) by (metis rec_writer.select_convs rec_writer.surjective rec_writer.update_convs)
  ultimately show ?thesis using d(1) by (simp add: at_rest_def)
qed

lemma append_accounted:
  assumes "queue_inv h lim A [r] clock s" "rs_stopped s = None"
  shows "queue_inv h lim (A @ [r]) [] clock (s\<lparr>rs_appended := Some (rec_sequence r)\<rparr>)"
  using assms by (auto simp: queue_inv_def in_order_def accounted_def ends_once_def backlog_bounded_def)

lemma settle_step:
  assumes inv: "recorder_inv crc ver h e0 lim y" and ok: "answer \<noteq> CutNotDone"
  shows "recorder_inv crc ver h e0 lim (recorder_step crc lim (OpSettle answer due) y)"
proof (cases "\<exists>r before attempted reason. ry_stage y = WAttempted r before attempted reason")
  case True
  then obtain r before attempted reason where st: "ry_stage y = WAttempted r before attempted reason" by blast
  have D: "if attempted then overrun crc ver h e0 lim r before (reason = None) (ry_writer y) (ry_disk y)
        else reason \<noteq> None \<and> at_rest crc ver h e0 lim (ry_writer y) (ry_disk y)"
    and S: "sync_inv (ry_writer y) (ry_shared y)"
    and Q: "queue_inv h lim (rw_recorded (ry_writer y)) [r] (ry_clock y) (ry_shared y)"
    using inv st by (simp_all add: recorder_inv_def)
  define cut where "cut = (if attempted then cut_back answer before (ry_writer y) (ry_disk y) else (ry_writer y, ry_disk y))"
  obtain w disk where c: "cut = (w, disk)" by (cases cut)
  have rest: "at_rest crc ver h e0 lim w disk \<and> rw_recorded w = rw_recorded (ry_writer y) \<and>
      rw_unsynced w = rw_unsynced (ry_writer y) \<and> rw_last w = rw_last (ry_writer y) \<and> rw_file w = rw_file (ry_writer y)"
    using cut_at_rest [OF _ ok, of crc ver h e0 lim r before "reason = None"] D c
    by (auto simp: cut_def split: if_splits)
  then have sw: "sync_inv w (ry_shared y)" using S by (simp add: sync_inv_def)
  show ?thesis
  proof (cases "rs_stopped (ry_shared y) = None \<and> reason = None")
    case False
    define s where "s = (if rs_stopped (ry_shared y) \<noteq> None then ry_shared y else stop_for reason (ry_shared y))"
    have stopped: "rs_stopped s \<noteq> None" using False stop_keeps(8) by (cases reason) (simp_all add: s_def stop_for_def del: not_None_eq)
    have "recorder_step crc lim (OpSettle answer due) y =
        y\<lparr>ry_writer := w, ry_disk := disk, ry_shared := s, ry_stage := WLastSync\<rparr>"
      using False by (auto simp: st settle_def Let_def c s_def stop_for_def simp flip: cut_def split: option.splits)
    moreover have "queue_inv h lim (rw_recorded w) [] (ry_clock y) s"
    proof -
      have "queue_inv h lim (rw_recorded (ry_writer y)) [r] (ry_clock y) s"
        using Q stop_for_queue [OF Q] by (simp add: s_def)
      from drop_flight [OF this stopped] show ?thesis using rest by simp
    qed
    moreover have "sync_inv w s" using sw stop_for_sync_end(1) [OF sw] by (simp add: s_def)
    ultimately show ?thesis using rest stopped
      by (cases "rs_stopped s") (simp_all add: recorder_inv_def end_inv_def)
  next
    case ok: True
    then have att: "attempted" using D by (auto split: if_splits)
    have o: "holds_run crc ver h e0 (rw_recorded (ry_writer y) @ [r]) (ry_disk y) (rw_encoder (ry_writer y))"
      "rw_file (ry_writer y) = Some (length (ry_disk y) - 1)"
      "rw_segment_len (ry_writer y) = length (List.last (ry_disk y))"
      "rw_total_len (ry_writer y) = sizes (ry_disk y)" "sizes (ry_disk y) \<le> lim_max_bytes lim" "rw_unsynced (ry_writer y)"
      using D att ok by (auto simp: overrun_def holds_run_def)
    define w2 where "w2 = (ry_writer y)\<lparr>rw_last := Some (rec_sequence r), rw_recorded := rw_recorded (ry_writer y) @ [r]\<rparr>"
    have "recorder_step crc lim (OpSettle answer due) y =
        y\<lparr>ry_shared := (ry_shared y)\<lparr>rs_appended := Some (rec_sequence r)\<rparr>, ry_writer := w2,
          ry_stage := (if due then WScheduledSync else WLook)\<rparr>"
      using ok by (simp add: st settle_def Let_def c w2_def flip: cut_def)
    moreover have "ready crc ver h e0 lim w2 (ry_disk y)" using o by (simp add: ready_def w2_def)
    moreover have "sync_inv w2 ((ry_shared y)\<lparr>rs_appended := Some (rec_sequence r)\<rparr>)"
      using S o by (simp add: sync_inv_def w2_def)
    ultimately show ?thesis using append_accounted [OF Q] ok
      by (auto simp: recorder_inv_def end_inv_def w2_def)
  qed
qed (use inv in \<open>auto split: writer_stage.splits\<close>)

subsection \<open>Every interleaving\<close>

lemma recorder_step_inv:
  assumes "header_ok ver h" "new_encoder h = Inr e0" "lim_ok lim" "op_ok x" "recorder_inv crc ver h e0 lim y"
  shows "recorder_inv crc ver h e0 lim (recorder_step crc lim x y)"
proof (cases x)
  case (OpResize tick applied g c)
  then show ?thesis using assms(4,5) resize_step by simp
next
  case (OpSettle answer due)
  then show ?thesis using assms(4,5) settle_step by simp
next
  case (OpOutput ticks bs)
  then show ?thesis using output_step [OF assms(5)] by simp
next
  case (OpPublishFirst ans)
  then show ?thesis using publish_first_step [OF assms(5,1,2,3)] by blast
next
  case (OpAttempt synced published appended)
  then show ?thesis using attempt_step [OF assms(5,3)] by blast
qed (use close_steps [OF assms(5)] look_step [OF assms(5)] sync_steps [OF assms(5)] end_step [OF assms(5)] in blast)+

definition recorder_fits :: "(bytes \<Rightarrow> nat) \<Rightarrow> segment_header \<Rightarrow> segment_encoder \<Rightarrow> recorder_limits \<Rightarrow> bool" where
  "recorder_fits ver h e0 lim \<longleftrightarrow> header_ok ver h \<and> new_encoder h = Inr e0 \<and> lim_ok lim"

interpretation recorder: op_system "recorder_step crc lim"
  "\<lambda>y. recorder_fits ver h e0 lim \<and> recorder_inv crc ver h e0 lim y" op_ok for crc ver h e0 lim
  by unfold_locales (auto simp: recorder_fits_def intro: recorder_step_inv)

lemma start_inv:
  assumes "header_ok ver h" "start_recorder h = Inr y0" "lim_ok lim"
  obtains e0 where "new_encoder h = Inr e0" "recorder_fits ver h e0 lim \<and> recorder_inv crc ver h e0 lim y0"
proof -
  obtain e0 where e: "new_encoder h = Inr e0" using assms(2) by (cases "new_encoder h") (auto simp: start_recorder_def)
  have "recorder_inv crc ver h e0 lim y0" using assms(2)
    by (auto simp: start_recorder_def e recorder_inv_def start_shared_def new_writer_def queue_inv_def in_order_def
        accounted_def ends_once_def backlog_bounded_def sync_inv_def end_inv_def chain_end_def)
  then show ?thesis using that e assms by (simp add: recorder_fits_def)
qed

lemma run_recorder:
  assumes "header_ok ver h" "start_recorder h = Inr y0" "lim_ok lim" "list_all op_ok ops"
  obtains e0 where "new_encoder h = Inr e0" "recorder_inv crc ver h e0 lim (run_ops (recorder_step crc lim) ops y0)"
  using start_inv [OF assms(1-3), of crc] recorder.run_inv [OF assms(4)] by metis

subsection \<open>Laws\<close>

text \<open>C3: A finished recording is exact: in every interleaving of capture, resizes, the writer and the
  close, and whatever storage answers short of refusing to cut a torn record off, the segments on
  disk decode cleanly to a prefix of the records sequenced, whose last is the one the summary
  names; and if the recording did not stop early, that is every one of them, synced.\<close>

theorem recording_exact:
  assumes "header_ok ver h" and "hdr_index h = 0" and "start_recorder h = Inr y0" and "lim_ok lim"
    and "list_all op_ok ops" and "y = run_ops (recorder_step crc lim) ops y0" and "ry_stage y = WDone"
    and "length (ry_disk y) < 2 ^ 32"
  shows "\<exists>recs later. rs_sequenced (ry_shared y) = recs @ later \<and>
    sm_recorded (summary_of (ry_shared y)) = last_seq recs \<and>
    (if ry_disk y = [] then recs = []
     else decode_recording crc ver (ry_disk y) = Some (Inr
       \<lparr>dec_header = h, dec_segment_count = of_nat (length (ry_disk y)), dec_records = recs, dec_end = Clean\<rparr>)) \<and>
    (sm_stopped (summary_of (ry_shared y)) = None \<longrightarrow>
       later = [] \<and> sm_synced (summary_of (ry_shared y)) = last_seq recs)"
proof -
  obtain e0 where e0: "new_encoder h = Inr e0" "recorder_inv crc ver h e0 lim y"
    using run_recorder [OF assms(1,3,4,5), of crc] assms(6) by blast
  define A where "A = rw_recorded (ry_writer y)"
  have Q: "queue_inv h lim A [] (ry_clock y) (ry_shared y)" and rest: "at_rest crc ver h e0 lim (ry_writer y) (ry_disk y)"
    and S: "sync_inv (ry_writer y) (ry_shared y)" and E: "end_inv WDone (ry_writer y) (ry_shared y)"
    using e0(2) assms(7) by (simp_all add: recorder_inv_def A_def)
  obtain D where D: "rs_sequenced (ry_shared y) = A @ rs_backlog (ry_shared y) @ D"
      "rs_stopped (ry_shared y) = None \<longrightarrow> D = []"
    using Q by (auto simp: queue_inv_def accounted_def)
  have kinds: "list_all (kind_ok \<circ> rec_kind) A"
    using Q D(1) by (auto simp: queue_inv_def in_order_def recordable_def list_all_iff)
  have "if ry_disk y = [] then A = []
     else decode_recording crc ver (ry_disk y) = Some (Inr
       \<lparr>dec_header = h, dec_segment_count = of_nat (length (ry_disk y)), dec_records = A, dec_end = Clean\<rparr>)"
    using rest holds_run_decodes [OF _ assms(1) e0(1) assms(2) kinds assms(8)] by (auto simp: at_rest_def A_def)
  then show ?thesis
    using Q D S E by (intro exI [of _ A] exI [of _ "rs_backlog (ry_shared y) @ D"])
      (auto simp: summary_of_def queue_inv_def sync_inv_def end_inv_def A_def)
qed

text \<open>A recording ends at most once and for good: in every state of every interleaving the stop was
  reported exactly once if there was one, it names the last record appended, nothing is queued
  after it, the writer has not panicked, and the files and the backlog are within the limits.\<close>

theorem recorder_stops_once:
  assumes "header_ok ver h" and "start_recorder h = Inr y0" and "lim_ok lim" and "list_all op_ok ops"
    and "y = run_ops (recorder_step crc lim) ops y0"
  shows "rs_reports (ry_shared y) = (case rs_stopped (ry_shared y) of None \<Rightarrow> [] | Some st \<Rightarrow> [st]) \<and>
    (\<forall>st. rs_stopped (ry_shared y) = Some st \<longrightarrow>
       last_recorded st = rs_appended (ry_shared y) \<and> rs_backlog (ry_shared y) = []) \<and>
    ry_stage y \<noteq> WPanicked \<and> sizes (ry_disk y) \<le> lim_max_bytes lim \<and>
    sum_list (map record_cost (rs_backlog (ry_shared y))) \<le> lim_backlog_bytes lim"
proof -
  obtain e0 where inv: "recorder_inv crc ver h e0 lim y"
    using run_recorder [OF assms(1-4), of crc] assms(5) by blast
  have disk: "disk_inv crc ver h e0 lim (ry_stage y) (ry_writer y) (ry_disk y)"
    using inv by (simp add: recorder_inv_def)
  then have "sizes (ry_disk y) \<le> lim_max_bytes lim"
    by (cases "ry_stage y") (auto simp: ready_def at_rest_def overrun_def split: if_splits)
  moreover have "ry_stage y \<noteq> WPanicked" using disk by auto
  moreover have "ends_once (ry_shared y)" "backlog_bounded lim (ry_shared y)"
    using inv by (simp_all add: recorder_inv_def queue_inv_def)
  ultimately show ?thesis using assms(3)
    by (auto simp: ends_once_def backlog_bounded_def lim_ok_def split: option.splits)
qed

definition demo_rec_start :: recorder_sys where
  "demo_rec_start = \<lparr>ry_shared = start_shared demo_header, ry_writer = new_writer demo_encoder, ry_disk = [],
     ry_stage = WStart, ry_clock = 0\<rparr>"

definition demo_rec_ops :: "recorder_op list" where
  "demo_rec_ops = [OpPublishFirst Published, OpOutput [9] [104, 105], OpLook False,
     OpAttempt None Published AppendWhole, OpSettle CutBack False, OpClose, OpLook False, OpLastSync None,
     OpWriterEnd]"

definition demo_rec_run :: recorder_sys where
  "demo_rec_run = run_ops (recorder_step demo_crc default_limits) demo_rec_ops demo_rec_start"

lemma demo_rec_starts: "start_recorder demo_header = Inr demo_rec_start"
  by (simp add: start_recorder_def demo_encoder_new demo_rec_start_def)

lemma demo_rec_ops_ok: "list_all op_ok demo_rec_ops" "lim_ok default_limits"
  by (simp_all add: demo_rec_ops_def lim_ok_def default_limits_def)

lemma demo_header_bytes:
  obtains hb where "header_bytes demo_crc demo_encoder = Some hb" "length hb = 65"
proof -
  have "term_ok (hdr_term (enc_header demo_encoder))"
    using demo_header_ok by (simp add: header_ok_def demo_encoder_def)
  note header_bytes_fields [OF this, of demo_crc]
  moreover have "length (header_fields (enc_header demo_encoder)) = 61"
    by (simp add: header_fields_def demo_encoder_def demo_header_def ascii_def)
  ultimately show thesis using that by simp
qed

lemma demo_first_record:
  obtains bs where "encode demo_crc demo_record demo_encoder = Some (Inr bs, demo_encoder2)" "length bs = 31"
proof -
  have p: "record_payload (rec_kind demo_record) (hdr_input (enc_header demo_encoder)) = Inr (1, [104, 105])"
    by (simp add: demo_rec_defs checked_payload_def max_payload_def)
  define bs where "bs = record_fields 1 [104, 105] demo_record @ be32 (demo_crc (record_fields 1 [104, 105] demo_record))"
  have "encode demo_crc demo_record demo_encoder = Some (Inr bs, demo_encoder2)"
    using encode_succeeds [OF p, of demo_crc]
    by (simp add: bs_def demo_rec_defs first_sequence_def next_sequence_def checked_succ_def)
  moreover have "length bs = 31" unfolding bs_def by (simp add: record_fields_length)
  ultimately show thesis by (rule that)
qed

lemma demo_chunks: "chunks max_payload [104, 105] = [[104, 105]]"
  by (simp add: chunks.simps max_payload_def)

lemma demo_rec_ends:
  obtains hb bs where "demo_rec_run = \<lparr>ry_shared = (start_shared demo_header)\<lparr>rs_next := Some (Sequence 2),
      rs_accepting := False, rs_appended := Some (Sequence 1), rs_synced := Some (Sequence 1), rs_segments := 1,
      rs_writer_done := True, rs_sequenced := [demo_record]\<rparr>,
    ry_writer = \<lparr>rw_encoder = demo_encoder2, rw_file = Some 0, rw_segment_len = 96, rw_total_len = 96,
      rw_last = Some (Sequence 1), rw_unsynced = False, rw_recorded = [demo_record]\<rparr>,
    ry_disk = [hb @ bs], ry_stage = WDone, ry_clock = 9\<rparr>"
proof -
  obtain hb where hb: "header_bytes demo_crc demo_encoder = Some hb" "length hb = 65" by (rule demo_header_bytes)
  obtain bs where bs: "encode demo_crc demo_record demo_encoder = Some (Inr bs, demo_encoder2)" "length bs = 31"
    by (rule demo_first_record)
  have r: "\<lparr>rec_sequence = Sequence 1, rec_elapsed = elapsed_u64 9, rec_kind = Output [104, 105]\<rparr> = demo_record"
    by (simp add: demo_record_def first_sequence_def elapsed_u64_def)
  have c: "record_cost demo_record = 2" "rec_sequence demo_record = Sequence 1"
    by (simp_all add: record_cost_def demo_record_def first_sequence_def)
  note step_defs = publish_first_def publish_segment_def over_size_def saturating_usize_def stop_for_def new_writer_def
    record_output_def demo_chunks enqueue_def look_def attempt_def prepare_record_def prepare_here_def append_record_def
    settle_def sync_then_def sync_segment_def default_limits_def
  have "demo_rec_run = \<lparr>ry_shared = (start_shared demo_header)\<lparr>rs_next := Some (Sequence 2),
      rs_accepting := False, rs_appended := Some (Sequence 1), rs_synced := Some (Sequence 1), rs_segments := 1,
      rs_writer_done := True, rs_sequenced := [demo_record]\<rparr>,
    ry_writer = \<lparr>rw_encoder = demo_encoder2, rw_file = Some 0, rw_segment_len = 96, rw_total_len = 96,
      rw_last = Some (Sequence 1), rw_unsynced = False, rw_recorded = [demo_record]\<rparr>,
    ry_disk = [hb @ bs], ry_stage = WDone, ry_clock = 9\<rparr>"
    unfolding demo_rec_run_def demo_rec_ops_def run_ops_simps demo_rec_start_def
    by (simp add: step_defs hb bs r c start_shared_def demo_header_def first_sequence_def next_sequence_def
        checked_succ_def Let_def)
  then show thesis by (rule that)
qed

theorem recording_exact_witness:
  "sm_stopped (summary_of (ry_shared demo_rec_run)) = None \<and>
   decode_recording demo_crc demo_ver (ry_disk demo_rec_run) = Some (Inr
     \<lparr>dec_header = demo_header, dec_segment_count = 1, dec_records = [demo_record], dec_end = Clean\<rparr>)"
proof -
  obtain hb bs where run: "demo_rec_run = \<lparr>ry_shared = (start_shared demo_header)\<lparr>rs_next := Some (Sequence 2),
      rs_accepting := False, rs_appended := Some (Sequence 1), rs_synced := Some (Sequence 1), rs_segments := 1,
      rs_writer_done := True, rs_sequenced := [demo_record]\<rparr>,
    ry_writer = \<lparr>rw_encoder = demo_encoder2, rw_file = Some 0, rw_segment_len = 96, rw_total_len = 96,
      rw_last = Some (Sequence 1), rw_unsynced = False, rw_recorded = [demo_record]\<rparr>,
    ry_disk = [hb @ bs], ry_stage = WDone, ry_clock = 9\<rparr>" by (rule demo_rec_ends)
  have "hdr_index demo_header = 0" by (simp add: demo_header_def)
  from recording_exact [OF demo_header_ok this demo_rec_starts demo_rec_ops_ok(2,1) demo_rec_run_def]
  show ?thesis by (auto simp: run summary_of_def start_shared_def)
qed

theorem recorder_stops_once_witness:
  "rs_reports (ry_shared demo_rec_run) = [] \<and> ry_stage demo_rec_run \<noteq> WPanicked \<and>
   sizes (ry_disk demo_rec_run) \<le> 2 ^ 30"
proof -
  obtain x y where "ry_shared demo_rec_run = (start_shared demo_header)\<lparr>rs_next := x, rs_accepting := False,
      rs_appended := y, rs_synced := y, rs_segments := 1, rs_writer_done := True, rs_sequenced := [demo_record]\<rparr>"
    by (rule demo_rec_ends) (metis recorder_sys.select_convs(1))
  then have run: "rs_stopped (ry_shared demo_rec_run) = None" by (simp add: start_shared_def)
  show ?thesis
    using recorder_stops_once [OF demo_header_ok demo_rec_starts demo_rec_ops_ok(2,1) demo_rec_run_def] run
    by (simp add: default_limits_def)
qed

end
