(* ===== verification/Ids_Text.thy ===== *)
theory Ids_Text
  imports Ids
begin

text \<open>How the errors of names print, and the names in a path.\<close>

text \<open>A component of a path that is not UTF-8 has no string form.\<close>

definition component_str :: "bytes \<Rightarrow> bytes option" where
  "component_str c = (if utf8_valid c then Some c else None)"

fun show_name_error :: "bytes \<Rightarrow> name_error \<Rightarrow> bytes" where
  "show_name_error what NameEmpty = what @ ascii '' cannot be empty''"
| "show_name_error what NameTooLong = what @ ascii '' too long (max 255 bytes)''"
| "show_name_error what NameContainsSlash = what @ ascii '' cannot contain '' @ [0x27, 0x2f, 0x27]"
| "show_name_error what NameContainsDot = what @ ascii '' cannot contain '' @ [0x27, 0x2e, 0x27]"
| "show_name_error what NameContainsWhitespace = what @ ascii '' cannot contain whitespace''"
| "show_name_error what NameStartsWithUnderscore = what @ ascii '' cannot start with '' @ [0x27, 0x5f, 0x27]"

definition name_result :: "string \<Rightarrow> (name_error + 'a) \<Rightarrow> bytes + 'a" where
  "name_result what r = (case r of Inl x \<Rightarrow> Inl (show_name_error (ascii what) x) | Inr v \<Rightarrow> Inr v)"

end
