(* ===== verification/Std_Lines.thy ===== *)
theory Std_Lines
  imports Std_Text
begin

text \<open>Text functions of the Rust standard library on lines, joining and trimming.\<close>

definition drop_cr :: "bytes \<Rightarrow> bytes" where
  "drop_cr l = (if l \<noteq> [] \<and> last l = 0x0d then butlast l else l)"

text \<open>\<open>str::lines\<close>: a carriage return is dropped only before a newline.\<close>

definition str_lines :: "bytes \<Rightarrow> bytes list" where
  "str_lines bs =
     (let fs = split_on 0x0a bs
      in map drop_cr (butlast fs) @ (if last fs = [] then [] else [last fs]))"

text \<open>\<open>[S]::join\<close>.\<close>

fun join_with :: "bytes \<Rightarrow> bytes list \<Rightarrow> bytes" where
  "join_with sep [] = []"
| "join_with sep [x] = x"
| "join_with sep (x # y # xs) = x @ sep @ join_with sep (y # xs)"

text \<open>\<open>show_int\<close> is \<open>to_string\<close> of a signed integer.\<close>

definition show_int :: "int \<Rightarrow> bytes" where
  "show_int v = (if v < 0 then 0x2d # show_nat (nat (- v)) else show_nat (nat v))"

lemma str_lines_Nil [simp]: "str_lines [] = []"
  by (simp add: str_lines_def)


subsection \<open>Trimming\<close>

text \<open>The characters of a string, each as its bytes.\<close>

fun utf8_pieces :: "bytes \<Rightarrow> bytes list" where
  "utf8_pieces [] = []"
| "utf8_pieces (b # bs) =
     (b # take (snd (utf8_step b bs) - 1) bs) # utf8_pieces (drop (snd (utf8_step b bs) - 1) bs)"

definition blank_piece :: "bytes \<Rightarrow> bool" where
  "blank_piece p \<longleftrightarrow> is_whitespace (utf8_code p)"

definition trim_start :: "bytes \<Rightarrow> bytes" where
  "trim_start s = concat (dropWhile blank_piece (utf8_pieces s))"

definition trim_end :: "bytes \<Rightarrow> bytes" where
  "trim_end s = concat (rev (dropWhile blank_piece (rev (utf8_pieces s))))"

definition trim :: "bytes \<Rightarrow> bytes" where
  "trim s = trim_end (trim_start s)"

lemma concat_utf8_pieces [simp]: "concat (utf8_pieces s) = s"
  by (induction s rule: utf8_pieces.induct) auto

end
