(* ===== verification/Std_Utf8.thy ===== *)
theory Std_Utf8
  imports Std_Text
begin

text \<open>Valid UTF-8 under concatenation.\<close>

lemma utf8_tail_result:
  "utf8_tail t n bs = (True, k) \<Longrightarrow> k = t + n \<and> n \<le> length bs \<and> utf8_tail t n (bs @ cs) = (True, k)"
  by (induction t n bs rule: utf8_tail.induct) (auto split: if_splits)

lemma utf8_step_result:
  assumes "utf8_step b bs = (True, k)"
  shows "1 \<le> k \<and> k \<le> Suc (length bs) \<and> utf8_step b (bs @ cs) = (True, k)"
proof (cases "utf8_width b \<le> 1")
  case True
  then show ?thesis using assms by (cases "utf8_width b = 0") (auto simp: utf8_step.simps)
next
  case wide: False
  then obtain c ds where bs: "bs = c # ds" "utf8_second_ok b c" "utf8_tail 2 (utf8_width b - 2) ds = (True, k)"
    using assms by (cases bs) (auto simp: utf8_step.simps split: if_splits)
  show ?thesis
    using wide utf8_tail_result [OF bs(3), of cs] bs by (auto simp: utf8_step.simps)
qed

lemma utf8_valid_append: "utf8_valid xs \<Longrightarrow> utf8_valid (xs @ ys) = utf8_valid ys"
proof (induction xs rule: utf8_valid.induct)
  case (2 b bs)
  obtain k where k: "utf8_step b bs = (True, k)" "utf8_valid (drop (k - 1) bs)"
    using 2 by (cases "utf8_step b bs") auto
  then show ?case using 2 utf8_step_result [OF k(1), of ys] by auto
qed simp

lemma utf8_valid_concat: "\<forall>x \<in> set xs. utf8_valid x \<Longrightarrow> utf8_valid (concat xs)"
  by (induction xs) (simp_all add: utf8_valid_append)

end
