(* ===== verification/Std_Search.thy ===== *)
theory Std_Search
  imports Std_Utf8
begin

text \<open>Searching and cutting strings from the end, and UTF-8 strings cut at a character boundary.\<close>

text \<open>\<open>str::rfind\<close>: the last place where \<open>p\<close> starts.\<close>

fun rfind_sub :: "'a list \<Rightarrow> 'a list \<Rightarrow> nat option" where
  "rfind_sub p [] = (if p = [] then Some 0 else None)"
| "rfind_sub p (x # xs) =
     (case rfind_sub p xs of
        Some i \<Rightarrow> Some (Suc i)
      | None \<Rightarrow> if starts_with p (x # xs) then Some 0 else None)"

lemma rfind_sub_Some: "rfind_sub p s = Some i \<Longrightarrow> i \<le> length s \<and> starts_with p (drop i s)"
  by (induction s arbitrary: i) (auto simp: starts_with_def split: option.splits if_splits)

lemma rfind_sub_later: "rfind_sub p s = Some i \<Longrightarrow> i < j \<Longrightarrow> j \<le> length s \<Longrightarrow> \<not> starts_with p (drop j s)"
proof (induction s arbitrary: i j)
  case (Cons x s)
  have none: "rfind_sub p s = None \<Longrightarrow> k \<le> length s \<Longrightarrow> \<not> starts_with p (drop k s)" for k
  proof (induction s arbitrary: k)
    case (Cons y s)
    then show ?case by (cases k) (auto split: option.splits if_splits)
  qed (auto simp: starts_with_def split: if_splits)
  obtain k where k: "j = Suc k" using Cons.prems(2) by (cases j) auto
  with Cons show ?case by (cases "rfind_sub p s") (auto simp: none split: if_splits)
qed (auto split: if_splits)

lemma rfind_sub_None: "rfind_sub p s = None \<Longrightarrow> k \<le> length s \<Longrightarrow> \<not> starts_with p (drop k s)"
proof (induction s arbitrary: k)
  case (Cons y s)
  then show ?case by (cases k) (auto split: option.splits if_splits)
qed (auto simp: starts_with_def split: if_splits)

lemma starts_with_append [simp]: "starts_with p (p @ xs)"
  by (simp add: starts_with_def)

text \<open>The last occurrence is the one after which there is no other.\<close>

lemma rfind_subI:
  assumes "\<And>j. 0 < j \<Longrightarrow> j \<le> length p + length ys \<Longrightarrow> \<not> starts_with p (drop j (p @ ys))"
  shows "rfind_sub p (xs @ p @ ys) = Some (length xs)"
proof (cases "rfind_sub p (xs @ p @ ys)")
  case None
  from rfind_sub_None [OF this, of "length xs"] show ?thesis by simp
next
  case (Some i)
  then have i: "i \<le> length xs + (length p + length ys)" "starts_with p (drop i (xs @ p @ ys))"
    using rfind_sub_Some by fastforce+
  moreover have "\<not> i < length xs" using rfind_sub_later [OF Some, of "length xs"] by auto
  ultimately have "starts_with p (drop (i - length xs) (p @ ys))" by simp
  with assms [of "i - length xs"] i \<open>\<not> i < length xs\<close> have "i = length xs" by (cases "i - length xs = 0") auto
  with Some show ?thesis by simp
qed

text \<open>\<open>str::strip_suffix\<close> and \<open>str::trim_start_matches\<close> on a set of bytes.\<close>

definition strip_suffix_of :: "'a list \<Rightarrow> 'a list \<Rightarrow> 'a list option" where
  "strip_suffix_of p xs =
     (if length p \<le> length xs \<and> drop (length xs - length p) xs = p then Some (take (length xs - length p) xs) else None)"

lemma strip_suffix_append [simp]: "strip_suffix_of p (xs @ p) = Some xs"
  by (simp add: strip_suffix_of_def)

lemma strip_suffix_Some: "strip_suffix_of p xs = Some ys \<longleftrightarrow> xs = ys @ p"
  by (auto simp: strip_suffix_of_def split: if_splits) (metis append_take_drop_id)

subsection \<open>Cutting at a character boundary\<close>

lemma utf8_tail_cont: "utf8_tail t n bs = (True, k) \<Longrightarrow> j < n \<Longrightarrow> cont_byte (bs ! j)"
proof (induction t n bs arbitrary: j rule: utf8_tail.induct)
  case (3 taken n c cs)
  then show ?case by (cases j) (auto split: if_splits)
qed auto

lemma second_ok_cont: "utf8_second_ok b c \<Longrightarrow> cont_byte c"
  by (auto simp: utf8_second_ok_def cont_byte_def word_le_nat_alt split: if_splits)

lemma utf8_step_cont:
  assumes "utf8_step b bs = (True, k)" "0 < j" "j < k"
  shows "cont_byte ((b # bs) ! j)"
proof -
  have "\<not> utf8_width b \<le> 1" using assms by (cases "utf8_width b = 0") (auto simp: utf8_step.simps)
  then obtain c ds where bs: "bs = c # ds" "utf8_second_ok b c" "utf8_tail 2 (utf8_width b - 2) ds = (True, k)"
    using assms by (cases bs) (auto simp: utf8_step.simps split: if_splits)
  from utf8_tail_result [OF bs(3)] have "k = 2 + (utf8_width b - 2)" by simp
  with assms(2,3) bs second_ok_cont utf8_tail_cont [OF bs(3), of "j - 2"] show ?thesis
    by (cases "j = 1") (auto simp: nth_Cons' numeral_2_eq_2)
qed

lemma utf8_tail_take: "utf8_tail t n bs = (True, k) \<Longrightarrow> utf8_tail t n (take n bs) = (True, k)"
  by (induction t n bs rule: utf8_tail.induct) (auto split: if_splits)

lemma utf8_step_take:
  assumes "utf8_step b bs = (True, k)" "k \<le> Suc n"
  shows "utf8_step b (take n bs) = (True, k)"
proof (cases "utf8_width b \<le> 1")
  case True
  then show ?thesis using assms by (cases "utf8_width b = 0") (auto simp: utf8_step.simps)
next
  case wide: False
  then obtain c ds where bs: "bs = c # ds" "utf8_second_ok b c" "utf8_tail 2 (utf8_width b - 2) ds = (True, k)"
    using assms by (cases bs) (auto simp: utf8_step.simps split: if_splits)
  obtain m where m: "n = Suc m" "utf8_width b - 2 \<le> m"
    using utf8_tail_result [OF bs(3)] assms(2) by (cases n) auto
  have "take m ds = take (utf8_width b - 2) ds @ take (m - (utf8_width b - 2)) (drop (utf8_width b - 2) ds)"
    using m(2) by (metis le_add_diff_inverse take_add)
  with utf8_tail_result [OF utf8_tail_take [OF bs(3)]] have "utf8_tail 2 (utf8_width b - 2) (take m ds) = (True, k)"
    by auto
  with wide bs m show ?thesis by (auto simp: utf8_step.simps)
qed

lemma utf8_valid_take:
  "utf8_valid s \<Longrightarrow> i = 0 \<or> i \<ge> length s \<or> \<not> cont_byte (s ! i) \<Longrightarrow> utf8_valid (take i s)"
proof (induction s arbitrary: i rule: utf8_valid.induct)
  case (2 b bs)
  obtain k where k: "utf8_step b bs = (True, k)" "utf8_valid (drop (k - 1) bs)"
    using 2 by (cases "utf8_step b bs") auto
  note kl = utf8_step_result [OF k(1)]
  show ?case
  proof (cases "i < k")
    case True
    with utf8_step_cont [OF k(1), of i] 2(3) kl have "i = 0" by (cases "i = 0") auto
    then show ?thesis by simp
  next
    case False
    obtain m where m: "k = Suc m" using kl by (cases k) auto
    with False obtain n where n: "i = Suc n" "m \<le> n" by (cases i) auto
    have "i - k = 0 \<or> length (drop m bs) \<le> n - m \<or> \<not> cont_byte (drop m bs ! (n - m))"
      using 2(3) n m kl by (auto simp: nth_Cons')
    then have v: "utf8_valid (take (n - m) (drop m bs))" using 2(1) [of "n - m"] k n m by auto
    have "take (k - 1) (take n bs) = take (k - 1) bs" "drop (k - 1) (take n bs) = take (n - m) (drop m bs)"
      using n m by (simp_all add: drop_take min_def)
    with utf8_step_take [OF k(1), of n] v m n show ?thesis by simp
  qed
qed simp

end
