(* ===== verification/Exec_Frame.thy ===== *)
theory Exec_Frame
  imports Ids_Text Std_Lines Std_Search
begin

text \<open>
  What \<open>tendr exec\<close> writes to a session and reads back (\<open>src/src/exec_frame.rs\<close>), and the exec
  request (\<open>src/src/exec_request.rs\<close>). Base64 and the quoting of shell words are parameters
  (\<open>b64\<close>, \<open>sw_join\<close>), as is the JSON of a request. A control or quote character of a frame is
  written by its code.
\<close>

subsection \<open>Frames\<close>

definition python_frame :: "(bytes \<Rightarrow> bytes) \<Rightarrow> bytes \<Rightarrow> bytes \<Rightarrow> bytes" where
  "python_frame b64 code path =
     ascii ''exec(compile('' @ [0x27] @
     ascii ''import json,os,sys,contextlib,io,traceback,base64 as _b64;_out,_err,_code,_tb=io.StringIO('' @
     ascii ''),io.StringIO(),0,None;_rp=_b64.b64decode('' @
     [0x22] @ b64 path @ [0x22] @ ascii '').decode()'' @ [0x5c] @ ascii ''ntry:'' @ [0x5c] @
     ascii ''n with contextlib.redirect_stdout(_out),contextlib.redirect_stderr(_err):'' @ [0x5c] @
     ascii ''n  exec(compile(_b64.b64decode('' @ [0x22] @ b64 code @ [0x22] @ ascii '').decode(),'' @
     [0x22] @ ascii ''<exec>'' @ [0x22] @ ascii '','' @ [0x22] @ ascii ''exec'' @ [0x22] @ ascii ''))'' @
     [0x5c] @ ascii ''nexcept SystemExit as _e:'' @ [0x5c] @
     ascii ''n _code=_e.code if _e.code is not None else 0'' @ [0x5c] @ ascii ''nexcept:'' @ [0x5c] @
     ascii ''n _tb=traceback.format_exc();_code=1'' @ [0x5c] @ ascii ''n_tmp=_rp+'' @ [0x22] @
     ascii ''.tmp'' @ [0x22, 0x5c] @ ascii ''nwith open(_tmp,'' @ [0x22] @ ascii ''w'' @ [0x22] @
     ascii '') as _f:'' @ [0x5c] @
     ascii ''n json.dump(dict(exit_code=_code,cwd=os.getcwd(),stdout=_out.getvalue('' @
     ascii ''),stderr=_err.getvalue(),traceback=_tb),_f)'' @
     [0x5c] @ ascii ''nos.rename(_tmp,_rp)'' @ [0x27] @ ascii '','' @ [0x27] @ ascii ''<tendr-exec>'' @
     [0x27] @ ascii '','' @ [0x27] @ ascii ''exec'' @ [0x27] @ ascii ''))'' @ [0x0a]"

definition exec_err_marker :: bytes where
  "exec_err_marker = ascii ''__TENDR_EXEC_ERR__''"

definition unix_frame :: "(bytes list \<Rightarrow> bytes) \<Rightarrow> bytes list \<Rightarrow> bytes \<Rightarrow> bytes \<Rightarrow> bytes" where
  "unix_frame sw_join argv token block =
     ascii ''export TENDR_BLOCK_ID='' @ [0x27] @ block @ [0x27] @ ascii ''; '' @ sw_join argv @
     ascii ''; __tendr_s=$?; unset TENDR_BLOCK_ID; printf '' @ [0x27] @ exec_err_marker @ ascii '' %s'' @
     [0x5c] @ ascii ''n'' @ [0x27] @ ascii '' '' @ [0x27] @ token @ [0x27] @ ascii '' >&2; printf '' @
     [0x27] @ ascii ''__TENDR_EXEC__ %s %s %s'' @ [0x5c] @ ascii ''n'' @ [0x27] @ ascii '' '' @ [0x27] @
     token @ [0x27] @ ascii '' '' @ [0x22] @ ascii ''$__tendr_s'' @ [0x22] @ ascii '' '' @ [0x22] @
     ascii ''$(pwd)'' @ [0x22, 0x0a]"

definition powershell_frame :: "(bytes \<Rightarrow> bytes) \<Rightarrow> bytes \<Rightarrow> bytes \<Rightarrow> bytes" where
  "powershell_frame b64 code path =
     ascii ''$_b = [Convert]::FromBase64String('' @ [0x27] @ b64 code @ [0x27] @
     ascii ''); $_code = [System.Text.Encoding]::UTF8.GetString($_b); $_rp = '' @
     ascii ''[System.Text.Encoding]::UTF8.GetString([Convert]::FromBase64String('' @
     [0x27] @ b64 path @ [0x27] @ ascii '')); $_tmp = '' @ [0x22] @ ascii ''$_rp.tmp'' @ [0x22] @
     ascii ''; $_outBuf = New-Object System.Text.StringBuilder; $_errBuf = New-Object '' @
     ascii ''System.Text.StringBuilder; $_exit = 0; $LASTEXITCODE = $null; try { & ('' @
     ascii ''[scriptblock]::Create($_code)) 2>&1 | ForEach-Object { if ($_ -is '' @
     ascii ''[System.Management.Automation.ErrorRecord]) { [void]$_errBuf.AppendLine($_.ToString()) } '' @
     ascii ''else { [void]$_outBuf.AppendLine(($_ | Out-String).TrimEnd()) } }; if ($null -ne '' @
     ascii ''$LASTEXITCODE -and $LASTEXITCODE -ne 0) { $_exit = $LASTEXITCODE } elseif ($_errBuf.Length '' @
     ascii ''-gt 0) { $_exit = 1 } } catch { [void]$_errBuf.AppendLine($_.Exception.Message); $_exit = '' @
     ascii ''1 }; $_payload = '' @ [0x40] @ ascii ''{ exit_code = $_exit; cwd = (Get-Location).Path; stdout = $_outBuf.ToString(); stderr = '' @
     ascii ''$_errBuf.ToString() } | ConvertTo-Json -Compress; [System.IO.File]::WriteAllText($_tmp, '' @
     ascii ''$_payload); [System.IO.File]::Move($_tmp, $_rp)'' @
     [0x0a, 0x0a]"

definition duckdb_frame :: "bytes \<Rightarrow> bytes \<Rightarrow> bytes" where
  "duckdb_frame sql token =
     ascii ''.mode json'' @ [0x0a] @ ascii ''.nullvalue null'' @ [0x0a] @ sql @ [0x0a] @
     ascii ''.print __TENDR_EXEC__ '' @ token @ ascii '' 0 .'' @ [0x0a]"

subsection \<open>Reading the end of a command\<close>

definition sentinel_needle :: "bytes \<Rightarrow> bytes" where
  "sentinel_needle token = ascii ''__TENDR_EXEC__ '' @ token @ [0x20]"

text \<open>What precedes the sentinel, the exit code and the directory.\<close>

definition parse_sentinel :: "bytes \<Rightarrow> bytes \<Rightarrow> (bytes \<times> int \<times> bytes) option" where
  "parse_sentinel line token =
     (case rfind_sub (sentinel_needle token) line of
        None \<Rightarrow> None
      | Some at \<Rightarrow>
          (case split_once 0x20 (drop (at + length (sentinel_needle token)) line) of
             None \<Rightarrow> None
           | Some (code_str, cwd') \<Rightarrow>
               (case parse_i32 code_str of None \<Rightarrow> None | Some code \<Rightarrow> Some (take at line, code, cwd'))))"

definition parse_err_marker :: "bytes \<Rightarrow> bytes \<Rightarrow> bytes option" where
  "parse_err_marker line token =
     Option.bind (strip_suffix_of token line) (\<lambda>l. Option.bind (strip_suffix_of [0x20] l) (strip_suffix_of exec_err_marker))"

text \<open>\<open>format!("{:x}{:x}")\<close> of the process and the clock.\<close>

fun show_hex :: "nat \<Rightarrow> bytes" where
  "show_hex n = (if n < 16 then [of_nat (if n < 10 then 48 + n else 87 + n)]
     else show_hex (n div 16) @ [of_nat (if n mod 16 < 10 then 48 + n mod 16 else 87 + n mod 16)])"

declare show_hex.simps [simp del]

definition generate_token :: "u32 \<Rightarrow> nat \<Rightarrow> bytes" where
  "generate_token process nanos = show_hex (unat process) @ show_hex nanos"

subsection \<open>Requests\<close>

record exec_request =
  er_v :: u32
  er_session :: bytes
  er_namespace :: "bytes option"
  er_cmd :: "bytes list"
  er_timeout :: "u64 option"

definition exec_frame_version :: u32 where "exec_frame_version = 1"

datatype request_frame_error = RequestParse bytes | RequestVersion u32 | RequestInvalid bytes

definition request_from_json :: "(bytes \<Rightarrow> bytes + exec_request) \<Rightarrow> bytes \<Rightarrow> request_frame_error + exec_request" where
  "request_from_json json bs =
     (case json bs of
        Inl e \<Rightarrow> Inl (RequestParse e)
      | Inr frame \<Rightarrow>
          if er_v frame \<noteq> exec_frame_version then Inl (RequestVersion (er_v frame))
          else case new_session_name (er_session frame) of
            Inl e \<Rightarrow> Inl (RequestInvalid (show_name_error (ascii ''session name'') e))
          | Inr _ \<Rightarrow>
              if er_cmd frame = [] then Inl (RequestInvalid (ascii ''no command specified''))
              else Inr frame)"

end
