(* ===== verification/Launch_Spec.thy ===== *)
theory Launch_Spec
  imports Ids
begin

text \<open>
  The execution boundary a session declares (\<open>src/src/model/boundary.rs\<close>) and the launch
  specification of a run (\<open>src/src/model/spec.rs\<close>). Hashing and JSON serialization belong to
  third-party crates and are left out; the decoded (raw) record that deserialization validates is
  the argument of \<open>launch_spec_of_raw\<close>.
\<close>

subsection \<open>Boundaries\<close>

datatype boundary_kind = Host | Container | Vm | Pod

fun boundary_kind_as_str :: "boundary_kind \<Rightarrow> bytes" where
  "boundary_kind_as_str Host = ascii ''host''"
| "boundary_kind_as_str Container = ascii ''container''"
| "boundary_kind_as_str Vm = ascii ''vm''"
| "boundary_kind_as_str Pod = ascii ''pod''"

record boundary =
  boundary_kind :: boundary_kind
  boundary_label :: bytes

record boundary_context =
  current_boundary :: boundary
  parent_boundaries :: "boundary list"

datatype boundary_error = MissingColon bytes | EmptyLabel bytes | UnknownKind bytes

definition boundary_kind_from_str :: "bytes \<Rightarrow> boundary_error + boundary_kind" where
  "boundary_kind_from_str s =
     (if s = ascii ''host'' then Inr Host
      else if s = ascii ''container'' then Inr Container
      else if s = ascii ''vm'' then Inr Vm
      else if s = ascii ''pod'' then Inr Pod
      else Inl (UnknownKind s))"

definition boundary_to_string :: "boundary \<Rightarrow> bytes" where
  "boundary_to_string b = boundary_kind_as_str (boundary_kind b) @ 58 # boundary_label b"

text \<open>Splits on the first colon only; the label check comes before the kind is parsed.\<close>

definition boundary_from_str :: "bytes \<Rightarrow> boundary_error + boundary" where
  "boundary_from_str s =
     (case split_once 58 s of
        None \<Rightarrow> Inl (MissingColon s)
      | Some (k, label) \<Rightarrow>
          if label = [] then Inl (EmptyLabel s)
          else (case boundary_kind_from_str k of
                  Inl e \<Rightarrow> Inl e
                | Inr k \<Rightarrow> Inr \<lparr>boundary_kind = k, boundary_label = label\<rparr>))"

lemma boundary_kind_roundtrip [simp]: "boundary_kind_from_str (boundary_kind_as_str k) = Inr k"
  by (cases k) (simp_all add: boundary_kind_from_str_def ascii_def)

lemma boundary_kind_from_str_Inr:
  "boundary_kind_from_str s = Inr k \<Longrightarrow> boundary_kind_as_str k = s"
  by (auto simp: boundary_kind_from_str_def split: if_splits)

lemma boundary_kind_no_colon [simp]: "58 \<notin> set (boundary_kind_as_str k)"
  by (cases k) (simp_all add: ascii_def)

lemma boundary_display_parse:
  "boundary_label b \<noteq> [] \<Longrightarrow> boundary_from_str (boundary_to_string b) = Inr b"
  by (simp add: boundary_from_str_def boundary_to_string_def)

lemma boundary_parse_display:
  "boundary_from_str s = Inr b \<Longrightarrow> boundary_to_string b = s \<and> boundary_label b \<noteq> []"
  by (auto simp: boundary_from_str_def boundary_to_string_def split: option.splits if_splits
      sum.splits dest!: boundary_kind_from_str_Inr split_once_Some)

subsection \<open>Launch specifications\<close>

datatype stdin_mode = StdinPipe | StdinNone
datatype io_mode = IoPipe | IoPty
datatype exec_target = ExecNone | PosixShell | PowerShell | PythonRepl | DuckDb

record dependency_binding =
  dep_session :: session_name
  dep_run_id :: run_id

record launch_spec =
  argv :: "bytes list"
  cwd :: "bytes option"
  env :: "bytes \<rightharpoonup> bytes"
  timeout_s :: "u64 option"
  after :: "dependency_binding list"
  after_any_exit :: bool
  spec_namespace :: "bytes option"
  on_exit :: "bytes list"
  stdin_mode :: stdin_mode
  io_mode :: io_mode
  exec_target :: exec_target
  spec_boundary :: "boundary_context option"

definition new_launch_spec :: "bytes list \<Rightarrow> launch_spec option" where
  "new_launch_spec args =
     (if args = [] then None
      else Some \<lparr>argv = args, cwd = None, env = Map.empty, timeout_s = None, after = [],
        after_any_exit = False, spec_namespace = None, on_exit = [], stdin_mode = StdinNone,
        io_mode = IoPipe, exec_target = ExecNone, spec_boundary = None\<rparr>)"

text \<open>The check deserialization adds to the decoded fields.\<close>

definition launch_spec_of_raw :: "launch_spec \<Rightarrow> launch_spec option" where
  "launch_spec_of_raw raw = (if argv raw = [] then None else Some raw)"

end
