(* ===== verification/Run_State.thy ===== *)
theory Run_State
  imports Launch_Spec
begin

text \<open>
  The state of a run: its status and exit reasons (\<open>model/state.rs\<close>, \<open>model/dep_fail.rs\<close>),
  the provenance of a transition (\<open>model/provenance.rs\<close>), the PTY part of a session
  (\<open>model/pty.rs\<close>) and the persisted session record \<open>Meta\<close> (\<open>model/meta.rs\<close>).
\<close>

subsection \<open>Run status\<close>

datatype dep_fail_reason = DepFailed | DepTimedOut | DepKilled | DepKilledForced

datatype sidecar_step = Breadcrumb | StdinTransport | AttachBind | RunningMeta | Readiness
  | OutputLog | ChildWait

text \<open>The exit code is a non-zero 32-bit integer.\<close>

datatype exit_reason = ExitedOk | ExitedError u32 | Killed | KilledForced | TimedOut
  | SidecarFailed sidecar_step

datatype run_status = Starting
  | Running process_identity
  | SpawnFailed epoch_timestamp
  | Exited process_identity exit_reason epoch_timestamp
  | SidecarLost "process_identity option" epoch_timestamp
  | DependencyFailed epoch_timestamp dep_fail_reason

fun sidecar_step_as_str :: "sidecar_step \<Rightarrow> bytes" where
  "sidecar_step_as_str Breadcrumb = ascii ''breadcrumb''"
| "sidecar_step_as_str StdinTransport = ascii ''stdin_transport''"
| "sidecar_step_as_str AttachBind = ascii ''attach_bind''"
| "sidecar_step_as_str RunningMeta = ascii ''running_meta''"
| "sidecar_step_as_str Readiness = ascii ''readiness''"
| "sidecar_step_as_str OutputLog = ascii ''output_log''"
| "sidecar_step_as_str ChildWait = ascii ''child_wait''"

definition sidecar_step_from_wire :: "bytes \<Rightarrow> sidecar_step option" where
  "sidecar_step_from_wire name =
     find (\<lambda>step. sidecar_step_as_str step = name)
       [Breadcrumb, StdinTransport, AttachBind, RunningMeta, Readiness, OutputLog, ChildWait]"

fun is_terminal :: "run_status \<Rightarrow> bool" where
  "is_terminal Starting = False"
| "is_terminal (Running c) = False"
| "is_terminal _ = True"

fun status_child :: "run_status \<Rightarrow> process_identity option" where
  "status_child Starting = None"
| "status_child (SpawnFailed t) = None"
| "status_child (DependencyFailed t r) = None"
| "status_child (Running c) = Some c"
| "status_child (Exited c h t) = Some c"
| "status_child (SidecarLost c t) = c"

fun status_ended_at :: "run_status \<Rightarrow> epoch_timestamp option" where
  "status_ended_at Starting = None"
| "status_ended_at (Running c) = None"
| "status_ended_at (SpawnFailed t) = Some t"
| "status_ended_at (Exited c h t) = Some t"
| "status_ended_at (SidecarLost c t) = Some t"
| "status_ended_at (DependencyFailed t r) = Some t"

text \<open>Reading an exit code back: zero is refused (\<open>nonzero_i32_serde\<close>).\<close>

definition exit_code_deserialize :: "u32 \<Rightarrow> u32 option" where
  "exit_code_deserialize v = (if v = 0 then None else Some v)"

lemma sidecar_step_from_wire_as_str: "sidecar_step_from_wire (sidecar_step_as_str s) = Some s"
  by (cases s) (simp_all add: sidecar_step_from_wire_def ascii_def)

lemma sidecar_step_from_wire_Some:
  "sidecar_step_from_wire n = Some s \<Longrightarrow> n = sidecar_step_as_str s"
  unfolding sidecar_step_from_wire_def by (drule find_SomeD) auto

lemma terminal_ended_at: "is_terminal s \<longleftrightarrow> status_ended_at s \<noteq> None"
  by (cases s) auto

subsection \<open>Provenance\<close>

datatype evidence = SidecarWrite | ChildSpawned | ChildExitObserved | SpawnFailedSyscall
  | DependencyFailedEvidence | LockReleased | NonTerminalMeta | EventLogTerminal
  | SupervisionFailed | OrphanKilled

datatype transition_provenance = Direct "evidence list" | Inferred "evidence list"

fun is_direct :: "transition_provenance \<Rightarrow> bool" where
  "is_direct (Direct e) = True"
| "is_direct (Inferred e) = False"

fun is_inferred :: "transition_provenance \<Rightarrow> bool" where
  "is_inferred (Direct e) = False"
| "is_inferred (Inferred e) = True"

subsection \<open>PTY metadata\<close>

datatype pty_control = AgentControl | HumanControl

datatype recording_stop_reason = SizeLimitStop | WriteFailedStop bytes | BacklogFullStop
  | StalledStop

datatype recording_state = RecordingActive
  | RecordingComplete "u64 option" "u64 option"
  | RecordingStopped "u64 option" "u64 option" recording_stop_reason

record pty_recording =
  recording_dir :: bytes
  input_is_recorded :: bool
  recording_state :: recording_state

record pty_meta =
  pty_enabled :: bool
  pty_control :: pty_control
  pty_recording :: "pty_recording option"

definition new_pty_meta :: pty_meta where
  "new_pty_meta = \<lparr>pty_enabled = True, pty_control = AgentControl, pty_recording = None\<rparr>"

subsection \<open>The session record\<close>

record meta =
  schema_version :: u32
  session :: session_name
  run_id :: run_id
  generation :: generation
  launch_spec :: launch_spec
  sidecar :: process_identity
  status :: run_status
  started_at :: epoch_timestamp
  restart_count :: u32
  warnings :: "bytes list"
  pty :: "pty_meta option"
  provenance :: "transition_provenance option"

definition meta_schema_version :: u32 where
  "meta_schema_version = 1"

definition new_starting ::
  "session_name \<Rightarrow> run_id \<Rightarrow> generation \<Rightarrow> launch_spec \<Rightarrow> process_identity \<Rightarrow> epoch_timestamp \<Rightarrow> meta"
where
  "new_starting s r g spec sc t =
     \<lparr>schema_version = meta_schema_version, session = s, run_id = r, generation = g,
      launch_spec = spec, sidecar = sc, status = Starting, started_at = t, restart_count = 0,
      warnings = [], pty = None, provenance = None\<rparr>"

definition add_warning :: "bytes \<Rightarrow> meta \<Rightarrow> meta" where
  "add_warning msg m = m\<lparr>warnings := warnings m @ [msg]\<rparr>"

definition set_pty :: "pty_meta \<Rightarrow> meta \<Rightarrow> meta" where
  "set_pty p m = m\<lparr>pty := Some p\<rparr>"

text \<open>Both setters do nothing for a session without a PTY.\<close>

definition set_pty_control :: "pty_control \<Rightarrow> meta \<Rightarrow> meta" where
  "set_pty_control c m = m\<lparr>pty := map_option (\<lambda>p. p\<lparr>pty_control := c\<rparr>) (pty m)\<rparr>"

definition set_pty_recording :: "pty_recording \<Rightarrow> meta \<Rightarrow> meta" where
  "set_pty_recording r m = m\<lparr>pty := map_option (\<lambda>p. p\<lparr>pty_recording := Some r\<rparr>) (pty m)\<rparr>"

definition set_transition_provenance :: "transition_provenance \<Rightarrow> meta \<Rightarrow> meta" where
  "set_transition_provenance p m = m\<lparr>provenance := Some p\<rparr>"

text \<open>Deserialization accepts exactly the current schema version; the error carries the other.\<close>

definition meta_of_raw :: "meta \<Rightarrow> u32 + meta" where
  "meta_of_raw raw =
     (if schema_version raw \<noteq> meta_schema_version then Inl (schema_version raw) else Inr raw)"

end
