(* ===== verification/Transition.thy ===== *)
theory Transition
  imports Run_State Interfaces
begin

text \<open>
  The lifecycle transitions of \<open>src/src/model/transition.rs\<close>. Each method takes the session
  record and returns its \<open>Result\<close> with the new record, so that "unchanged on error" is a fact to
  prove. \<open>lifecycle_op\<close> lists the methods; a run of the lifecycle is a list of them, and the
  record setters that run beside them (warnings, PTY metadata).
\<close>

datatype transition_error = AlreadyTerminal string | Illegal string string

type_synonym transition_result = "(transition_error + unit) \<times> meta"

fun exit_reason_name :: "exit_reason \<Rightarrow> string" where
  "exit_reason_name ExitedOk = ''ExitedOk''"
| "exit_reason_name (ExitedError c) = ''ExitedError''"
| "exit_reason_name Killed = ''Killed''"
| "exit_reason_name KilledForced = ''KilledForced''"
| "exit_reason_name TimedOut = ''TimedOut''"
| "exit_reason_name (SidecarFailed s) = ''SidecarFailed''"

fun status_name :: "run_status \<Rightarrow> string" where
  "status_name Starting = ''Starting''"
| "status_name (Running c) = ''Running''"
| "status_name (SpawnFailed t) = ''SpawnFailed''"
| "status_name (Exited c how t) = exit_reason_name how"
| "status_name (SidecarLost c t) = ''SidecarLost''"
| "status_name (DependencyFailed t r) = ''DependencyFailed''"

definition set_status :: "run_status \<Rightarrow> meta \<Rightarrow> meta" where
  "set_status s m = m\<lparr>status := s\<rparr>"

fun is_sidecar_failed :: "exit_reason \<Rightarrow> bool" where
  "is_sidecar_failed (SidecarFailed s) = True"
| "is_sidecar_failed _ = False"

record orphan =
  orphan_child :: process_identity
  orphan_killed :: bool

datatype healed_terminal = HealedExited exit_reason | HealedSpawnFailed
  | HealedDependencyFailed dep_fail_reason

subsection \<open>The transitions\<close>

definition transition_running :: "process_identity \<Rightarrow> meta \<Rightarrow> transition_result" where
  "transition_running child m =
     (case status m of
        Starting \<Rightarrow>
          (Inr (), set_transition_provenance (Direct [SidecarWrite, ChildSpawned])
             (set_status (Running child) m))
      | Running c \<Rightarrow> (Inl (Illegal ''Running'' ''Running''), m)
      | _ \<Rightarrow> (Inl (AlreadyTerminal (status_name (status m))), m))"

definition transition_spawn_failed :: "epoch_timestamp \<Rightarrow> meta \<Rightarrow> transition_result" where
  "transition_spawn_failed ended_at m =
     (case status m of
        Starting \<Rightarrow>
          (Inr (), set_transition_provenance (Direct [SidecarWrite, SpawnFailedSyscall])
             (set_status (SpawnFailed ended_at) m))
      | Running c \<Rightarrow> (Inl (Illegal ''Running'' ''SpawnFailed''), m)
      | _ \<Rightarrow> (Inl (AlreadyTerminal (status_name (status m))), m))"

definition transition_exited :: "exit_reason \<Rightarrow> epoch_timestamp \<Rightarrow> meta \<Rightarrow> transition_result" where
  "transition_exited how ended_at m =
     (if is_sidecar_failed how
      then (Inl (Illegal (status_name (status m))
              ''SidecarFailed (use transition_sidecar_failed)''), m)
      else (case status m of
              Running child \<Rightarrow>
                (Inr (), set_transition_provenance (Direct [SidecarWrite, ChildExitObserved])
                   (set_status (Exited child how ended_at) m))
            | Starting \<Rightarrow> (Inl (Illegal ''Starting'' ''Exited''), m)
            | _ \<Rightarrow> (Inl (AlreadyTerminal (status_name (status m))), m)))"

definition transition_sidecar_failed ::
  "process_identity \<Rightarrow> sidecar_step \<Rightarrow> epoch_timestamp \<Rightarrow> meta \<Rightarrow> transition_result" where
  "transition_sidecar_failed child step ended_at m =
     (let record = (\<lambda>c. (Inr (),
            set_transition_provenance (Direct [SidecarWrite, SupervisionFailed])
              (set_status (Exited c (SidecarFailed step) ended_at) m)))
      in (case status m of
            Starting \<Rightarrow> record child
          | Running running \<Rightarrow> record running
          | _ \<Rightarrow> (Inl (AlreadyTerminal (status_name (status m))), m)))"

definition transition_dependency_failed ::
  "epoch_timestamp \<Rightarrow> dep_fail_reason \<Rightarrow> meta \<Rightarrow> transition_result" where
  "transition_dependency_failed ended_at reason m =
     (case status m of
        Starting \<Rightarrow>
          (Inr (), set_transition_provenance (Direct [SidecarWrite, DependencyFailedEvidence])
             (set_status (DependencyFailed ended_at reason) m))
      | Running c \<Rightarrow> (Inl (Illegal ''Running'' ''DependencyFailed''), m)
      | _ \<Rightarrow> (Inl (AlreadyTerminal (status_name (status m))), m))"

definition reconcile_sidecar_lost ::
  "epoch_timestamp \<Rightarrow> orphan option \<Rightarrow> meta \<Rightarrow> transition_result" where
  "reconcile_sidecar_lost ended_at orph m =
     (let lost = (\<lambda>child. (Inr (),
            set_transition_provenance
              (Inferred ([LockReleased, NonTerminalMeta] @
                 (case orph of Some x \<Rightarrow> if orphan_killed x then [OrphanKilled] else []
                             | None \<Rightarrow> [])))
              (set_status (SidecarLost child ended_at) m)))
      in (case status m of
            Starting \<Rightarrow> lost (map_option orphan_child orph)
          | Running child \<Rightarrow> lost (Some child)
          | _ \<Rightarrow> (Inl (AlreadyTerminal (status_name (status m))), m)))"

text \<open>The pairs of status and healed outcome that fit, with the status each one records.\<close>

fun healed_status ::
  "run_status \<Rightarrow> healed_terminal \<Rightarrow> process_identity option \<Rightarrow> epoch_timestamp \<Rightarrow> run_status option"
where
  "healed_status (Running child) (HealedExited how) sp t = Some (Exited child how t)"
| "healed_status Starting (HealedExited how) (Some child) t =
     (if is_sidecar_failed how then Some (Exited child how t) else None)"
| "healed_status Starting HealedSpawnFailed sp t = Some (SpawnFailed t)"
| "healed_status Starting (HealedDependencyFailed r) sp t = Some (DependencyFailed t r)"
| "healed_status s h sp t = None"

definition heal_terminal_from_event ::
  "healed_terminal \<Rightarrow> epoch_timestamp \<Rightarrow> process_identity option \<Rightarrow> meta \<Rightarrow> transition_result" where
  "heal_terminal_from_event healed ended_at spawned_child m =
     (case healed_status (status m) healed spawned_child ended_at of
        Some s \<Rightarrow> (Inr (), set_transition_provenance (Direct [EventLogTerminal]) (set_status s m))
      | None \<Rightarrow>
          if is_terminal (status m) then (Inl (AlreadyTerminal (status_name (status m))), m)
          else (Inl (Illegal (status_name (status m)) ''healed terminal''), m))"

definition healed_sidecar_failed :: "meta \<Rightarrow> bool" where
  "healed_sidecar_failed m \<longleftrightarrow>
     (case status m of Exited c how t \<Rightarrow> is_sidecar_failed how | _ \<Rightarrow> False)
     \<and> provenance m = Some (Direct [EventLogTerminal])"

definition record_healed_orphan_killed :: "meta \<Rightarrow> transition_result" where
  "record_healed_orphan_killed m =
     (if healed_sidecar_failed m
      then (Inr (), set_transition_provenance (Direct [EventLogTerminal, OrphanKilled]) m)
      else (Inl (Illegal (status_name (status m)) ''healed SidecarFailed with a killed orphan''), m))"

lemmas transition_defs =
  transition_running_def transition_spawn_failed_def transition_exited_def
  transition_sidecar_failed_def transition_dependency_failed_def reconcile_sidecar_lost_def
  heal_terminal_from_event_def record_healed_orphan_killed_def

subsection \<open>Runs of the lifecycle\<close>

datatype lifecycle_op =
    OpRunning process_identity
  | OpSpawnFailed epoch_timestamp
  | OpExited exit_reason epoch_timestamp
  | OpSidecarFailed process_identity sidecar_step epoch_timestamp
  | OpDependencyFailed epoch_timestamp dep_fail_reason
  | OpSidecarLost epoch_timestamp "orphan option"
  | OpHeal healed_terminal epoch_timestamp "process_identity option"
  | OpOrphanKilled
  | OpWarning bytes
  | OpSetPty pty_meta
  | OpPtyControl pty_control
  | OpPtyRecording pty_recording

fun lifecycle_result :: "lifecycle_op \<Rightarrow> meta \<Rightarrow> transition_result" where
  "lifecycle_result (OpRunning c) m = transition_running c m"
| "lifecycle_result (OpSpawnFailed t) m = transition_spawn_failed t m"
| "lifecycle_result (OpExited how t) m = transition_exited how t m"
| "lifecycle_result (OpSidecarFailed c s t) m = transition_sidecar_failed c s t m"
| "lifecycle_result (OpDependencyFailed t r) m = transition_dependency_failed t r m"
| "lifecycle_result (OpSidecarLost t o') m = reconcile_sidecar_lost t o' m"
| "lifecycle_result (OpHeal h t c) m = heal_terminal_from_event h t c m"
| "lifecycle_result OpOrphanKilled m = record_healed_orphan_killed m"
| "lifecycle_result (OpWarning w) m = (Inr (), add_warning w m)"
| "lifecycle_result (OpSetPty p) m = (Inr (), set_pty p m)"
| "lifecycle_result (OpPtyControl c) m = (Inr (), set_pty_control c m)"
| "lifecycle_result (OpPtyRecording r) m = (Inr (), set_pty_recording r m)"

definition apply_lifecycle :: "lifecycle_op \<Rightarrow> meta \<Rightarrow> meta" where
  "apply_lifecycle x m = snd (lifecycle_result x m)"

lemmas setter_defs [meta_simps] =
  set_status_def set_transition_provenance_def add_warning_def set_pty_def set_pty_control_def
  set_pty_recording_def

subsection \<open>What one transition does\<close>

lemma healed_status_nonterminal: "healed_status s h sp t = Some s' \<Longrightarrow> \<not> is_terminal s \<and> is_terminal s'"
  by (cases "(s, h, sp, t)" rule: healed_status.cases) (auto split: if_splits)

lemma healed_status_child:
  "healed_status s h sp t = Some s' \<Longrightarrow> status_child s = Some c \<Longrightarrow> status_child s' = Some c"
  by (cases "(s, h, sp, t)" rule: healed_status.cases) (auto split: if_splits)

lemma lifecycle_error_unchanged:
  "lifecycle_result x m = (Inl e, m') \<Longrightarrow> m' = m"
  by (cases x) (auto simp: transition_defs Let_def split: run_status.splits if_splits option.splits)

lemma terminal_status_kept:
  "is_terminal (status m) \<Longrightarrow> status (apply_lifecycle x m) = status m"
  by (cases x; cases "status m")
     (auto simp: apply_lifecycle_def transition_defs meta_simps Let_def
       split: option.splits dest: healed_status_nonterminal)

lemma child_kept:
  "status_child (status m) = Some c \<Longrightarrow> status_child (status (apply_lifecycle x m)) = Some c"
  by (cases x; cases "status m")
     (auto simp: apply_lifecycle_def transition_defs meta_simps Let_def
       split: option.splits dest: healed_status_child)

text \<open>The fields no transition writes.\<close>

definition same_identity :: "meta \<Rightarrow> meta \<Rightarrow> bool" where
  "same_identity m n \<longleftrightarrow>
     schema_version n = schema_version m \<and> session n = session m \<and> run_id n = run_id m
     \<and> generation n = generation m \<and> launch_spec n = launch_spec m \<and> sidecar n = sidecar m
     \<and> started_at n = started_at m \<and> restart_count n = restart_count m"

lemma identity_kept: "same_identity m (apply_lifecycle x m)"
  by (cases x)
     (auto simp: same_identity_def apply_lifecycle_def transition_defs meta_simps Let_def
       split: option.splits run_status.splits)

subsection \<open>The provenance invariant\<close>

text \<open>Which provenance each status can carry.\<close>

fun provenance_fits :: "run_status \<Rightarrow> transition_provenance option \<Rightarrow> bool" where
  "provenance_fits Starting p = (p = None)"
| "provenance_fits (Running c) p = (p = Some (Direct [SidecarWrite, ChildSpawned]))"
| "provenance_fits (SpawnFailed t) p =
     (p \<in> {Some (Direct [SidecarWrite, SpawnFailedSyscall]), Some (Direct [EventLogTerminal])})"
| "provenance_fits (Exited c how t) p =
     (if is_sidecar_failed how
      then p \<in> {Some (Direct [SidecarWrite, SupervisionFailed]), Some (Direct [EventLogTerminal]),
                Some (Direct [EventLogTerminal, OrphanKilled])}
      else p \<in> {Some (Direct [SidecarWrite, ChildExitObserved]), Some (Direct [EventLogTerminal])})"
| "provenance_fits (SidecarLost c t) p =
     (p \<in> {Some (Inferred [LockReleased, NonTerminalMeta]),
           Some (Inferred [LockReleased, NonTerminalMeta, OrphanKilled])})"
| "provenance_fits (DependencyFailed t r) p =
     (p \<in> {Some (Direct [SidecarWrite, DependencyFailedEvidence]), Some (Direct [EventLogTerminal])})"

definition provenance_inv :: "meta \<Rightarrow> bool" where
  "provenance_inv m \<longleftrightarrow> provenance_fits (status m) (provenance m)"

lemma healed_provenance:
  "healed_status s h sp t = Some s' \<Longrightarrow> provenance_fits s' (Some (Direct [EventLogTerminal]))"
  by (cases "(s, h, sp, t)" rule: healed_status.cases) (auto split: if_splits)

lemma provenance_step: "provenance_inv m \<Longrightarrow> provenance_inv (apply_lifecycle x m)"
  by (cases x; cases "status m")
     (auto simp: provenance_inv_def apply_lifecycle_def transition_defs meta_simps Let_def
       healed_sidecar_failed_def split: option.splits if_splits dest: healed_provenance)

lemma provenance_start: "provenance_inv (new_starting s r g spec sc t)"
  by (simp add: provenance_inv_def new_starting_def)

subsection \<open>Later states of a run\<close>

text \<open>
  \<open>n\<close> can follow \<open>m\<close> in a run: a terminal status and a recorded child stay, the identity fields
  stay, and warnings are only added.
\<close>

definition lifecycle_le :: "meta \<Rightarrow> meta \<Rightarrow> bool" where
  "lifecycle_le m n \<longleftrightarrow>
     (is_terminal (status m) \<longrightarrow> status n = status m)
     \<and> (\<forall>c. status_child (status m) = Some c \<longrightarrow> status_child (status n) = Some c)
     \<and> same_identity m n \<and> (\<exists>ws. warnings n = warnings m @ ws)"

lemma warnings_kept: "\<exists>ws. warnings (apply_lifecycle x m) = warnings m @ ws"
  by (cases x)
     (auto simp: apply_lifecycle_def transition_defs meta_simps Let_def
       split: option.splits run_status.splits)

lemma lifecycle_step_le: "lifecycle_le m (apply_lifecycle x m)"
  using terminal_status_kept child_kept identity_kept warnings_kept
  by (simp add: lifecycle_le_def)

interpretation lifecycle: monotone_system apply_lifecycle provenance_inv "\<lambda>_. True" lifecycle_le
proof unfold_locales
  show "provenance_inv (apply_lifecycle x s)" if "provenance_inv s" for x s
    using that by (rule provenance_step)
  show "lifecycle_le s s" for s
    by (simp add: lifecycle_le_def same_identity_def)
  show "lifecycle_le s u" if "lifecycle_le s t" "lifecycle_le t u" for s t u
    using that by (auto simp: lifecycle_le_def same_identity_def)
  show "lifecycle_le s (apply_lifecycle x s)" for x s
    by (rule lifecycle_step_le)
qed

subsection \<open>The abstract machine\<close>

text \<open>
  The specification of the lifecycle: three phases, and which operation moves between them. A
  failed operation and a record setter leave the phase alone.
\<close>

datatype phase = NotStarted | Alive | Ended

fun phase_of :: "run_status \<Rightarrow> phase" where
  "phase_of Starting = NotStarted"
| "phase_of (Running c) = Alive"
| "phase_of _ = Ended"

fun phase_step :: "lifecycle_op \<Rightarrow> phase \<Rightarrow> phase" where
  "phase_step x Ended = Ended"
| "phase_step (OpRunning c) NotStarted = Alive"
| "phase_step (OpSpawnFailed t) NotStarted = Ended"
| "phase_step (OpDependencyFailed t r) NotStarted = Ended"
| "phase_step (OpHeal HealedSpawnFailed t sp) NotStarted = Ended"
| "phase_step (OpHeal (HealedDependencyFailed r) t sp) NotStarted = Ended"
| "phase_step (OpHeal (HealedExited how) t sp) NotStarted =
     (if is_sidecar_failed how \<and> sp \<noteq> None then Ended else NotStarted)"
| "phase_step (OpHeal (HealedExited how) t sp) Alive = Ended"
| "phase_step (OpExited how t) Alive = (if is_sidecar_failed how then Alive else Ended)"
| "phase_step (OpSidecarFailed c s t) p = Ended"
| "phase_step (OpSidecarLost t orph) p = Ended"
| "phase_step x p = p"

lemma phase_of_Ended: "phase_of s = Ended \<longleftrightarrow> is_terminal s"
  by (cases s) auto

lemma phase_step_refines: "phase_of (status (apply_lifecycle x m)) = phase_step x (phase_of (status m))"
proof (cases "is_terminal (status m)")
  case True
  then have "status (apply_lifecycle x m) = status m"
    by (rule terminal_status_kept)
  moreover from True have "phase_of (status m) = Ended"
    by (simp add: phase_of_Ended)
  ultimately show ?thesis by simp
next
  case False
  show ?thesis
  proof (cases x)
    case (OpHeal h t sp)
    with False show ?thesis
      by (cases h; cases sp; cases "status m")
         (auto simp: apply_lifecycle_def transition_defs meta_simps Let_def)
  qed (use False in \<open>cases "status m";
       auto simp: apply_lifecycle_def transition_defs meta_simps Let_def healed_sidecar_failed_def\<close>)+
qed

lemma phase_run_refines:
  "phase_of (status (run_ops apply_lifecycle xs m)) = run_ops phase_step xs (phase_of (status m))"
  by (induction xs arbitrary: m) (simp_all add: phase_step_refines)

subsection \<open>Properties\<close>

text \<open>A run of the lifecycle from a fresh session record.\<close>

definition lifecycle_run :: "meta \<Rightarrow> lifecycle_op list \<Rightarrow> meta" where
  "lifecycle_run m0 xs = run_ops apply_lifecycle xs m0"

definition demo_start :: meta where
  "demo_start = new_starting (SessionName (ascii ''s'')) (RunId []) first_generation
     \<lparr>argv = [ascii ''bash''], cwd = None, env = Map.empty, timeout_s = None, after = [],
      after_any_exit = False, spec_namespace = None, on_exit = [], stdin_mode = StdinNone,
      io_mode = IoPipe, exec_target = ExecNone, spec_boundary = None\<rparr>
     \<lparr>pid = 1, start_time_ns = 7\<rparr> (EpochTimestamp 0)"

lemmas demo_run = arg_cong [OF demo_start_def, of "\<lambda>m. lifecycle_run m xs" for xs]

lemma lifecycle_run_inv:
  "provenance_inv (lifecycle_run (new_starting s r g spec sc t) xs)"
  unfolding lifecycle_run_def
  by (rule lifecycle.run_inv [OF _ provenance_start]) (simp add: list_all_iff)

lemma lifecycle_run_le:
  "provenance_inv m \<Longrightarrow> lifecycle_le m (lifecycle_run m xs)"
  unfolding lifecycle_run_def by (rule lifecycle.run_rel) (simp_all add: list_all_iff)

text \<open>C32: Once a run has ended, no operation changes its status again: whatever transitions, healings,
  reconciliations and record updates follow, the terminal status recorded first is the one read
  back.\<close>

theorem lifecycle_terminal_final:
  assumes "m = lifecycle_run (new_starting s r g spec sc t) xs" and "is_terminal (status m)"
  shows "status (lifecycle_run m ys) = status m"
  using lifecycle_run_le [of m ys] lifecycle_run_inv assms by (auto simp: lifecycle_le_def)

theorem lifecycle_terminal_final_witness:
  "status (lifecycle_run (lifecycle_run demo_start [OpSpawnFailed (EpochTimestamp 3)])
      [OpRunning \<lparr>pid = 2, start_time_ns = 9\<rparr>, OpSidecarLost (EpochTimestamp 4) None])
    = SpawnFailed (EpochTimestamp 3)"
proof -
  let ?m = "lifecycle_run demo_start [OpSpawnFailed (EpochTimestamp 3)]"
  have m: "status ?m = SpawnFailed (EpochTimestamp 3)"
    by (simp add: lifecycle_run_def demo_start_def new_starting_def apply_lifecycle_def
        transition_defs meta_simps)
  have "status (lifecycle_run ?m [OpRunning \<lparr>pid = 2, start_time_ns = 9\<rparr>,
      OpSidecarLost (EpochTimestamp 4) None]) = status ?m"
    by (rule lifecycle_terminal_final [OF demo_run]) (simp add: m)
  with m show ?thesis by simp
qed

text \<open>C33: In every state a run can reach, the provenance fits the status: \<open>Starting\<close> has none, a
  status the sidecar wrote carries the direct evidence of that transition, a healed one
  \<open>EventLogTerminal\<close>, and exactly the status \<open>SidecarLost\<close> is labelled as inferred.\<close>

theorem lifecycle_provenance_fits:
  "provenance_fits (status (lifecycle_run (new_starting s r g spec sc t) xs))
     (provenance (lifecycle_run (new_starting s r g spec sc t) xs))
   \<and> ((\<exists>e. provenance (lifecycle_run (new_starting s r g spec sc t) xs) = Some (Inferred e))
      \<longleftrightarrow> (\<exists>c t'. status (lifecycle_run (new_starting s r g spec sc t) xs) = SidecarLost c t'))"
proof -
  let ?m = "lifecycle_run (new_starting s r g spec sc t) xs"
  have fits: "provenance_fits (status ?m) (provenance ?m)"
    using lifecycle_run_inv by (simp add: provenance_inv_def)
  then have "(\<exists>e. provenance ?m = Some (Inferred e)) \<longleftrightarrow> (\<exists>c t'. status ?m = SidecarLost c t')"
    by (cases "status ?m") (auto split: if_splits)
  with fits show ?thesis by simp
qed

text \<open>The child recorded for a run is never replaced: once a status names a child, every later
  status names the same process identity, and the identity fields of the record (session, run id,
  generation, launch specification, sidecar, start time) never change.\<close>

theorem lifecycle_child_identity:
  assumes "m = lifecycle_run (new_starting s r g spec sc t) xs" and "status_child (status m) = Some c"
  shows "status_child (status (lifecycle_run m ys)) = Some c \<and> same_identity m (lifecycle_run m ys)"
  using lifecycle_run_le [of m ys] lifecycle_run_inv assms by (auto simp: lifecycle_le_def)

theorem lifecycle_child_identity_witness:
  "status_child (status (lifecycle_run
      (lifecycle_run demo_start [OpRunning \<lparr>pid = 2, start_time_ns = 9\<rparr>])
      [OpSidecarFailed \<lparr>pid = 99, start_time_ns = 1\<rparr> OutputLog (EpochTimestamp 5)]))
    = Some \<lparr>pid = 2, start_time_ns = 9\<rparr>"
proof -
  let ?m = "lifecycle_run demo_start [OpRunning \<lparr>pid = 2, start_time_ns = 9\<rparr>]"
  have m: "status_child (status ?m) = Some \<lparr>pid = 2, start_time_ns = 9\<rparr>"
    by (simp add: lifecycle_run_def demo_start_def new_starting_def apply_lifecycle_def
        transition_defs meta_simps)
  show ?thesis
    by (rule lifecycle_child_identity [OF demo_run m, THEN conjunct1])
qed

text \<open>The lifecycle implements the three-phase machine: a run of transitions, projected to
  not started, alive and ended, is the run of the specification, so a transition that is not
  allowed in a phase changes nothing.\<close>

theorem lifecycle_refines_phases:
  "phase_of (status (lifecycle_run (new_starting s r g spec sc t) xs)) = run_ops phase_step xs NotStarted"
  unfolding lifecycle_run_def phase_run_refines by (simp add: new_starting_def)

text \<open>A transition that fails leaves the whole record unchanged, and it reports
  \<open>AlreadyTerminal\<close> only for a run that has ended.\<close>

theorem lifecycle_error_no_effect:
  assumes "lifecycle_result x m = (Inl e, m')"
  shows "m' = m \<and> (\<forall>n. e = AlreadyTerminal n \<longrightarrow> is_terminal (status m) \<and> n = status_name (status m))"
  using assms
  by (cases x; cases "status m")
     (auto simp: transition_defs Let_def split: if_splits option.splits)

theorem lifecycle_error_no_effect_witness:
  "lifecycle_result (OpExited ExitedOk (EpochTimestamp 1)) demo_start
     = (Inl (Illegal ''Starting'' ''Exited''), demo_start)"
proof -
  have r: "lifecycle_result (OpExited ExitedOk (EpochTimestamp 1)) demo_start
      = (Inl (Illegal ''Starting'' ''Exited''), demo_start)"
    by (simp add: transition_exited_def demo_start_def new_starting_def)
  from lifecycle_error_no_effect [OF r] r show ?thesis by simp
qed

end
