(* ===== verification/Event_Log.thy ===== *)
theory Event_Log
  imports Event_Time Transition "HOL-Library.AList" "HOL-Library.Product_Lexorder"
begin

text \<open>
  The per-session event log of \<open>src/src/events.rs\<close> with the envelope of
  \<open>src/src/model/event.rs\<close>: writers stamp drafts and append lines to segment files, readers
  split segments into lines, merge them, or follow one segment from an offset, and lifecycle
  events carry a run's outcome that \<open>src/src/reconcile.rs\<close> parses back.

  The crates and the system are parameters: \<open>ser\<close> and \<open>parse\<close> are serde's rendering of an event
  and its inverse, \<open>json_ser\<close> that of a JSON value, \<open>sha\<close> the hexadecimal SHA-256, and the
  results of file operations and clock readings are arguments.
\<close>

subsection \<open>JSON values\<close>

datatype json = JNull | JBool bool | JNum int | JString bytes | JArray "json list"
  | JObject "(bytes \<times> json) list"

text \<open>\<open>value[key]\<close>: null where there is nothing; assignment inserts into an object.\<close>

definition json_index :: "json \<Rightarrow> bytes \<Rightarrow> json" where
  "json_index v k = (case v of JObject kvs \<Rightarrow> (case map_of kvs k of Some x \<Rightarrow> x | None \<Rightarrow> JNull) | _ \<Rightarrow> JNull)"

fun json_set :: "bytes \<Rightarrow> json \<Rightarrow> json \<Rightarrow> json" where
  "json_set k x (JObject kvs) = JObject (AList.update k x kvs)"
| "json_set k x v = v"

fun as_str :: "json \<Rightarrow> bytes option" where
  "as_str (JString s) = Some s"
| "as_str v = None"

text \<open>An integer outside the \<open>i64\<close> range is not one for \<open>as_i64\<close>.\<close>

fun as_i64 :: "json \<Rightarrow> int option" where
  "as_i64 (JNum n) = (if - (2 ^ 63) \<le> n \<and> n < 2 ^ 63 then Some n else None)"
| "as_i64 v = None"

lemma json_index_set: "json_index (json_set k x (JObject kvs)) k' =
    (if k' = k then x else json_index (JObject kvs) k')"
  by (auto simp: json_index_def update_conv')

subsection \<open>The envelope\<close>

record data_ref =
  ref_path :: bytes
  ref_bytes :: u64
  ref_sha256 :: bytes
  ref_media_type :: bytes

definition envelope_version :: u32 where "envelope_version = 1"

record event =
  ev_v :: u32
  ev_id :: bytes
  ev_ts :: event_timestamp
  ev_kind :: event_kind
  ev_namespace :: namespace
  ev_session :: session_name
  ev_run_id :: run_id
  ev_generation :: "u64 option"
  ev_writer :: bytes
  ev_seq :: u64
  ev_source :: source_id
  ev_block_id :: "bytes option"
  ev_parent_id :: "bytes option"
  ev_data :: "json option"
  ev_data_ref :: "data_ref option"
  ev_truncated :: "bool option"

record event_draft =
  dr_id :: "bytes option"
  dr_kind :: event_kind
  dr_namespace :: namespace
  dr_session :: session_name
  dr_run_id :: run_id
  dr_generation :: "u64 option"
  dr_source :: source_id
  dr_block_id :: "bytes option"
  dr_parent_id :: "bytes option"
  dr_data :: "json option"
  dr_preview :: "json option"

subsection \<open>Oversize payloads\<close>

definition max_inline_data_bytes :: nat where "max_inline_data_bytes = 16 * 1024"
definition max_preview_bytes :: nat where "max_preview_bytes = 4 * 1024"

text \<open>\<open>str::is_char_boundary\<close>, and the loop that steps down to one.\<close>

definition is_char_boundary :: "bytes \<Rightarrow> nat \<Rightarrow> bool" where
  "is_char_boundary s i \<longleftrightarrow> i = 0 \<or> i = length s \<or> i < length s \<and> \<not> cont_byte (s ! i)"

fun floor_boundary :: "bytes \<Rightarrow> nat \<Rightarrow> nat" where
  "floor_boundary s 0 = 0"
| "floor_boundary s (Suc i) = (if is_char_boundary s (Suc i) then Suc i else floor_boundary s i)"

definition preview_of :: "bytes \<Rightarrow> json" where
  "preview_of serialized =
     (let txt = utf8_lossy serialized
      in JObject [(ascii ''preview'', JString (take (floor_boundary txt (min max_preview_bytes (length txt))) txt))])"

definition effective_preview :: "(json \<Rightarrow> bytes option) \<Rightarrow> json option \<Rightarrow> bytes \<Rightarrow> json" where
  "effective_preview json_ser supplied serialized =
     (case supplied of
        Some p \<Rightarrow>
          (case json_ser p of
             Some bs \<Rightarrow> if length bs \<le> max_preview_bytes then p else preview_of serialized
           | None \<Rightarrow> preview_of serialized)
      | None \<Rightarrow> preview_of serialized)"

text \<open>
  The blob store, by content address. \<open>dirs\<close> and \<open>wrote\<close> say whether creating the directory and
  writing and renaming the temporary file succeed.
\<close>

type_synonym blobs = "bytes \<rightharpoonup> bytes"

definition write_blob :: "(bytes \<Rightarrow> bytes) \<Rightarrow> bool \<Rightarrow> bool \<Rightarrow> bytes \<Rightarrow> blobs \<Rightarrow> data_ref option \<times> blobs" where
  "write_blob sha dirs wrote serialized st =
     (let key = sha serialized;
          dref = \<lparr>ref_path = ascii ''events/blobs/'' @ key, ref_bytes = of_nat (length serialized),
            ref_sha256 = key, ref_media_type = ascii ''application/json''\<rparr>
      in if \<not> dirs then (None, st)
         else if st key \<noteq> None then (Some dref, st)
         else if wrote then (Some dref, st(key \<mapsto> serialized))
         else (None, st))"

definition prepare_data :: "(json \<Rightarrow> bytes option) \<Rightarrow> (bytes \<Rightarrow> bytes) \<Rightarrow> bool \<Rightarrow> bool \<Rightarrow> json option
    \<Rightarrow> json option \<Rightarrow> blobs \<Rightarrow> (json option \<times> data_ref option \<times> bool option) \<times> blobs" where
  "prepare_data json_ser sha dirs wrote data preview st =
     (case data of
        None \<Rightarrow> ((None, None, None), st)
      | Some v \<Rightarrow>
          (case json_ser v of
             None \<Rightarrow> ((Some v, None, None), st)
           | Some serialized \<Rightarrow>
               if length serialized \<le> max_inline_data_bytes then ((Some v, None, None), st)
               else let p = effective_preview json_ser preview serialized
                 in (case write_blob sha dirs wrote serialized st of
                       (Some r, st') \<Rightarrow> ((Some p, Some r, Some True), st')
                     | (None, st') \<Rightarrow> ((Some p, None, Some True), st'))))"

subsection \<open>Segments\<close>

text \<open>The segment files of one session: names (of the \<open>.jsonl\<close> files) with their contents.\<close>

type_synonym segments = "(bytes \<times> bytes) list"

text \<open>\<open>newest_segment\<close>: the greatest name, as bytes.\<close>

fun newest_name :: "bytes list \<Rightarrow> bytes option" where
  "newest_name [] = None"
| "newest_name (n # ns) =
     (case newest_name ns of None \<Rightarrow> Some n
      | Some m \<Rightarrow> if ord_class.lexordp n m then Some m else Some n)"

text \<open>
  One round of \<open>open_segment\<close> as the file system answers it: the names listed (\<open>None\<close> when listing
  fails), the answer to opening the newest one, the fresh candidate name and the answer to
  creating it.
\<close>

datatype file_answer = FileOk | FileNotFound | FileAlreadyExists | FileFailed

record open_round =
  rd_listed :: "bytes list option"
  rd_open :: file_answer
  rd_candidate :: bytes
  rd_create :: file_answer

datatype append_error = DirFailed | ListFailed | OpenFailed file_answer | RacesExhausted | WriteFailed | SyncFailed

fun open_segment :: "open_round list \<Rightarrow> append_error + bytes" where
  "open_segment [] = Inl RacesExhausted"
| "open_segment (r # rs) =
     (case rd_listed r of
        None \<Rightarrow> Inl ListFailed
      | Some names \<Rightarrow>
          (case newest_name names of
             Some n \<Rightarrow>
               (case rd_open r of
                  FileOk \<Rightarrow> Inr n
                | FileNotFound \<Rightarrow> open_segment rs
                | e \<Rightarrow> Inl (OpenFailed e))
           | None \<Rightarrow>
               (case rd_create r of
                  FileOk \<Rightarrow> Inr (rd_candidate r)
                | FileAlreadyExists \<Rightarrow> open_segment rs
                | e \<Rightarrow> Inl (OpenFailed e))))"

text \<open>Bytes appended to the named segment, created if it is new.\<close>

definition append_to :: "bytes \<Rightarrow> bytes \<Rightarrow> segments \<Rightarrow> segments" where
  "append_to name line segs =
     AList.update name ((case map_of segs name of Some c \<Rightarrow> c | None \<Rightarrow> []) @ line) segs"

text \<open>
  The write of the line: whole; failed after \<open>k\<close> bytes of it (with \<open>k = 0\<close> also for a lock that
  was refused); or whole, with the sync that follows a durable write failing.
\<close>

datatype write_answer = Written | TornAfter nat | WrittenNotSynced

definition append_line :: "(event \<Rightarrow> bytes) \<Rightarrow> bool \<Rightarrow> open_round list \<Rightarrow> write_answer \<Rightarrow> bool \<Rightarrow> event
    \<Rightarrow> segments \<Rightarrow> (append_error + unit) \<times> segments" where
  "append_line ser dir rounds wrote durable e segs =
     (let line = ser e @ [0x0a]
      in if \<not> dir then (Inl DirFailed, segs)
         else (case open_segment (take 8 rounds) of
           Inl err \<Rightarrow> (Inl err, segs)
         | Inr name \<Rightarrow>
             (case wrote of
                Written \<Rightarrow> (Inr (), append_to name line segs)
              | TornAfter k \<Rightarrow> (Inl WriteFailed, append_to name (take (min k (length line - 1)) line) segs)
              | WrittenNotSynced \<Rightarrow>
                  (if durable then Inl SyncFailed else Inr (), append_to name line segs))))"

subsection \<open>Writers\<close>

record event_writer =
  wr_id :: bytes
  wr_next :: u64

definition with_writer :: "bytes \<Rightarrow> event_writer" where
  "with_writer w = \<lparr>wr_id = w, wr_next = 1\<rparr>"

text \<open>The envelope of a draft with its prepared data.\<close>

definition stamp :: "event_draft \<Rightarrow> bytes \<Rightarrow> event_timestamp \<Rightarrow> bytes \<Rightarrow> u64
    \<Rightarrow> json option \<times> data_ref option \<times> bool option \<Rightarrow> event" where
  "stamp d minted now w n p = (case p of (data, dref, trunc) \<Rightarrow>
     \<lparr>ev_v = envelope_version, ev_id = (case dr_id d of Some i \<Rightarrow> i | None \<Rightarrow> minted), ev_ts = now,
      ev_kind = dr_kind d, ev_namespace = dr_namespace d, ev_session = dr_session d,
      ev_run_id = dr_run_id d, ev_generation = dr_generation d, ev_writer = w, ev_seq = n,
      ev_source = dr_source d, ev_block_id = dr_block_id d, ev_parent_id = dr_parent_id d,
      ev_data = data, ev_data_ref = dref, ev_truncated = trunc\<rparr>)"

text \<open>What the environment of one append answers.\<close>

record append_env =
  env_minted :: bytes
  env_now :: event_timestamp
  env_blob_dirs :: bool
  env_blob_wrote :: bool
  env_dir :: bool
  env_rounds :: "open_round list"
  env_write :: write_answer

text \<open>The sequence number is consumed even if the append fails.\<close>

definition append_event :: "(json \<Rightarrow> bytes option) \<Rightarrow> (bytes \<Rightarrow> bytes) \<Rightarrow> (event \<Rightarrow> bytes) \<Rightarrow> append_env
    \<Rightarrow> event_draft \<Rightarrow> bool \<Rightarrow> event_writer \<Rightarrow> blobs \<times> segments
    \<Rightarrow> (append_error + event) \<times> event_writer \<times> blobs \<times> segments" where
  "append_event json_ser sha ser a d durable w st =
     (let n = wr_next w; w' = w\<lparr>wr_next := n + 1\<rparr>;
          (prepared, bl) = prepare_data json_ser sha (env_blob_dirs a) (env_blob_wrote a)
             (dr_data d) (dr_preview d) (fst st);
          e = stamp d (env_minted a) (env_now a) (wr_id w) n prepared
      in (case append_line ser (env_dir a) (env_rounds a) (env_write a) durable e (snd st) of
            (Inl err, segs) \<Rightarrow> (Inl err, w', bl, segs)
          | (Inr _, segs) \<Rightarrow> (Inr e, w', bl, segs)))"

text \<open>The lost-and-found path: no blob store, so oversize data is cut to its preview.\<close>

definition stamp_orphan_event :: "(json \<Rightarrow> bytes option) \<Rightarrow> bytes \<Rightarrow> event_timestamp \<Rightarrow> bytes
    \<Rightarrow> event_draft \<Rightarrow> event" where
  "stamp_orphan_event json_ser minted now fresh d =
     (let (data, trunc) =
        (case dr_data d of
           None \<Rightarrow> (None, None)
         | Some v \<Rightarrow>
             (case json_ser v of
                Some bs \<Rightarrow> if max_inline_data_bytes < length bs
                  then (Some (effective_preview json_ser (dr_preview d) bs), Some True)
                  else (Some v, None)
              | None \<Rightarrow> (Some v, None)))
      in stamp d minted now fresh 1 (data, None, trunc))"

subsection \<open>Reading\<close>

definition strip_cr :: "bytes \<Rightarrow> bytes" where
  "strip_cr l = (if l \<noteq> [] \<and> List.last l = 0x0d then butlast l else l)"

text \<open>\<open>parse\<close> is given the raw line; text that is not UTF-8 does not parse.\<close>

definition parse_line :: "(bytes \<Rightarrow> event option) \<Rightarrow> bytes \<Rightarrow> event option" where
  "parse_line parse raw = (if utf8_valid raw then parse raw else None)"

fun read_lines :: "(bytes \<Rightarrow> event option) \<Rightarrow> bytes list \<Rightarrow> event list \<times> nat" where
  "read_lines parse [] = ([], 0)"
| "read_lines parse (l # ls) =
     (let raw = strip_cr l; (es, k) = read_lines parse ls
      in if raw = [] then (es, k)
         else (case parse_line parse raw of Some e \<Rightarrow> (e # es, k) | None \<Rightarrow> (es, Suc k)))"

definition merge_key :: "event \<Rightarrow> event_timestamp \<times> nat \<times> nat" where
  "merge_key e = (ev_ts e, be_val (ev_writer e), unat (ev_seq e))"

text \<open>Segments in name order, then the stable merge by time, writer and sequence number.\<close>

fun insert_segment :: "bytes \<times> bytes \<Rightarrow> segments \<Rightarrow> segments" where
  "insert_segment s [] = [s]"
| "insert_segment s (t # ts) =
     (if ord_class.lexordp (fst t) (fst s) then t # insert_segment s ts else s # t # ts)"

definition sort_segments :: "segments \<Rightarrow> segments" where
  "sort_segments segs = foldr insert_segment segs []"

definition read_session_events :: "(bytes \<Rightarrow> event option) \<Rightarrow> segments \<Rightarrow> event list \<times> nat" where
  "read_session_events parse segs =
     (let (es, k) = read_lines parse (concat (map (split_on 0x0a \<circ> snd) (sort_segments segs)))
      in (sort_key merge_key es, k))"

record segment_record =
  sr_event :: event
  sr_start :: nat
  sr_end :: nat

text \<open>
  The loop of \<open>read_segment_records\<close>: \<open>at\<close> is the absolute offset of the rest of the buffer; only
  lines that end in a newline are consumed. The result is the records, the number of lines that
  did not parse and the offset consumed to.
\<close>

function segment_loop :: "(bytes \<Rightarrow> event option) \<Rightarrow> nat \<Rightarrow> bytes \<Rightarrow> segment_record list \<times> nat \<times> nat" where
  "segment_loop parse at buf =
     (case split_once 0x0a buf of
        None \<Rightarrow> ([], 0, at)
      | Some (line, rest) \<Rightarrow>
          (let raw = strip_cr line; stop = at + length line + 1;
               (rs, k, c) = segment_loop parse stop rest
           in if raw = [] then (rs, k, c)
              else (case parse_line parse raw of
                      Some e \<Rightarrow> (\<lparr>sr_event = e, sr_start = at, sr_end = stop\<rparr> # rs, k, c)
                    | None \<Rightarrow> (rs, Suc k, c))))"
  by pat_completeness auto

termination
  by (relation "measure (\<lambda>(parse, at, buf). length buf)") (auto dest!: split_once_Some)

definition read_segment_records :: "(bytes \<Rightarrow> event option) \<Rightarrow> bytes \<Rightarrow> nat
    \<Rightarrow> segment_record list \<times> nat \<times> nat" where
  "read_segment_records parse content from = segment_loop parse from (drop from content)"

declare segment_loop.simps [simp del]

end
