(* ===== verification/Output_Log.thy ===== *)
theory Output_Log
  imports Event_Log Std_Lines Std_Utf8
begin

text \<open>
  The output log of a session: how the child's output is captured line by line
  (\<open>capture_stream\<close> and \<open>capture_stream_with_tee\<close> in \<open>src/src/sidecar.rs\<close>), and how the log is
  queried and followed (\<open>src/src/log.rs\<close>). A timestamp has the type \<open>'f\<close>, a float of the source; its
  arithmetic is \<open>lc_us\<close>. JSON is the three functions \<open>lc_parse\<close>, \<open>lc_ser\<close> and \<open>lc_json\<close>.
\<close>

subsection \<open>Lines\<close>

record 'f log_line =
  ll_ts :: 'f
  ll_tag :: bytes
  ll_content :: json

record 'f log_codec =
  lc_parse :: "bytes \<Rightarrow> 'f log_line option"
  lc_ser :: "'f log_line \<Rightarrow> bytes"
  lc_json :: "json \<Rightarrow> bytes"
  lc_us :: "'f \<Rightarrow> u64"

record log_query =
  lq_tail :: "nat option"
  lq_since_us :: "u64 option"
  lq_raw :: bool

definition format_raw :: "'f log_codec \<Rightarrow> 'f log_line \<Rightarrow> bytes" where
  "format_raw C l = (case ll_content l of JString s \<Rightarrow> s | x \<Rightarrow> lc_json C x)"

definition content_text :: "'f log_line \<Rightarrow> bytes option" where
  "content_text l = as_str (ll_content l)"

definition timestamp_us :: "'f log_codec \<Rightarrow> 'f log_line \<Rightarrow> u64" where
  "timestamp_us C l = lc_us C (ll_ts l)"

definition matches_query :: "'f log_codec \<Rightarrow> log_query \<Rightarrow> 'f log_line \<Rightarrow> bool" where
  "matches_query C q l = (case lq_since_us q of Some threshold \<Rightarrow> \<not> timestamp_us C l < threshold | None \<Rightarrow> True)"

definition write_line :: "'f log_codec \<Rightarrow> bool \<Rightarrow> 'f log_line \<Rightarrow> bytes" where
  "write_line C raw l = (if raw then format_raw C l else lc_ser C l) @ [0x0a]"

text \<open>
  What was printed so far, line by line; \<open>ok\<close> answers each write by its position. The first failure
  ends the command.
\<close>

datatype log_error = LogUnreadable | LogUnwritable

fun print_lines :: "(nat \<Rightarrow> bool) \<Rightarrow> bytes list \<Rightarrow> bytes list \<Rightarrow> bool \<times> bytes list" where
  "print_lines ok [] out = (True, out)"
| "print_lines ok (x # xs) out = (if ok (length out) then print_lines ok xs (out @ [x]) else (False, out))"

text \<open>The ring of the last \<open>n\<close> lines.\<close>

definition ring_push :: "nat \<Rightarrow> 'a \<Rightarrow> 'a list \<Rightarrow> 'a list" where
  "ring_push n x ring =
     (if 0 < n then (if length ring = n then tl ring else ring) @ [x] else ring)"

subsection \<open>Querying\<close>

text \<open>
  The loop over the lines of the file. A line that is not UTF-8 is an error of the reader; a line that
  does not parse is skipped.
\<close>

fun query_loop :: "'f log_codec \<Rightarrow> log_query \<Rightarrow> (nat \<Rightarrow> bool) \<Rightarrow> bytes list \<Rightarrow> 'f log_line list \<Rightarrow> bytes list
    \<Rightarrow> (log_error + 'f log_line list) \<times> bytes list" where
  "query_loop C q ok [] ring out = (Inr ring, out)"
| "query_loop C q ok (raw_line # ls) ring out =
     (if \<not> utf8_valid raw_line then (Inl LogUnreadable, out)
      else case lc_parse C raw_line of
        None \<Rightarrow> query_loop C q ok ls ring out
      | Some l \<Rightarrow>
          if \<not> matches_query C q l then query_loop C q ok ls ring out
          else (case lq_tail q of
                  Some n \<Rightarrow> query_loop C q ok ls (ring_push n l ring) out
                | None \<Rightarrow>
                    (case print_lines ok [write_line C (lq_raw q) l] out of
                       (True, out') \<Rightarrow> query_loop C q ok ls ring out'
                     | (False, out') \<Rightarrow> (Inl LogUnwritable, out'))))"

text \<open>\<open>None\<close> is a file that cannot be opened. The result is the number of lines, what was printed, or the error.\<close>

definition query_log :: "'f log_codec \<Rightarrow> log_query \<Rightarrow> (nat \<Rightarrow> bool) \<Rightarrow> bytes option
    \<Rightarrow> (log_error + nat) \<times> bytes list" where
  "query_log C q ok file =
     (case file of
        None \<Rightarrow> (Inl LogUnreadable, [])
      | Some content \<Rightarrow>
          (case query_loop C q ok (str_lines content) [] [] of
             (Inl e, out) \<Rightarrow> (Inl e, out)
           | (Inr ring, out) \<Rightarrow>
               (case print_lines ok (map (write_line C (lq_raw q)) ring) out of
                  (True, out') \<Rightarrow> (Inr (length out'), out')
                | (False, out') \<Rightarrow> (Inl LogUnwritable, out'))))"

subsection \<open>Following\<close>

text \<open>\<open>read_line\<close>: up to and including the next newline, or everything there is.\<close>

definition read_line :: "bytes \<Rightarrow> bytes \<times> bytes" where
  "read_line bs = (case split_once 0x0a bs of Some (l, rest) \<Rightarrow> (l @ [0x0a], rest) | None \<Rightarrow> (bs, []))"

definition trim_end_byte :: "u8 \<Rightarrow> bytes \<Rightarrow> bytes" where
  "trim_end_byte b s = rev (dropWhile ((=) b) (rev s))"

definition trimmed :: "bytes \<Rightarrow> bytes" where
  "trimmed unit = trim_end_byte 0x0d (trim_end_byte 0x0a unit)"

text \<open>
  One read of a follower: what the file grew by since the last one, and whether to stop should it
  find nothing.
\<close>

record follow_read =
  fr_grown :: bytes
  fr_stop :: bool

definition unit_line :: "'f log_codec \<Rightarrow> log_query \<Rightarrow> bytes \<Rightarrow> 'f log_line option" where
  "unit_line C q unit =
     (case lc_parse C (trimmed unit) of
        None \<Rightarrow> None
      | Some l \<Rightarrow> if matches_query C q l then Some l else None)"

text \<open>The first pass of a follower with a tail: to the end of what there is. \<open>None\<close> is a script that ran out.\<close>

fun follow_tail :: "'f log_codec \<Rightarrow> log_query \<Rightarrow> nat \<Rightarrow> follow_read list \<Rightarrow> bytes \<Rightarrow> 'f log_line list
    \<Rightarrow> (log_error + 'f log_line list \<times> follow_read list \<times> bytes) option" where
  "follow_tail C q n [] unread ring = None"
| "follow_tail C q n (r # rs) unread ring =
     (case read_line (unread @ fr_grown r) of
        (unit, rest) \<Rightarrow>
          if \<not> utf8_valid unit then Some (Inl LogUnreadable)
          else if unit = [] then Some (Inr (ring, rs, rest))
          else follow_tail C q n rs rest (case unit_line C q unit of None \<Rightarrow> ring | Some l \<Rightarrow> ring_push n l ring))"

fun follow_loop :: "'f log_codec \<Rightarrow> log_query \<Rightarrow> (nat \<Rightarrow> bool) \<Rightarrow> follow_read list \<Rightarrow> bytes \<Rightarrow> bytes list
    \<Rightarrow> ((log_error + unit) \<times> bytes list) option" where
  "follow_loop C q ok [] unread out = None"
| "follow_loop C q ok (r # rs) unread out =
     (case read_line (unread @ fr_grown r) of
        (unit, rest) \<Rightarrow>
          if \<not> utf8_valid unit then Some (Inl LogUnreadable, out)
          else if unit = [] then
            (if fr_stop r then Some (Inr (), out) else follow_loop C q ok rs rest out)
          else (case unit_line C q unit of
                  None \<Rightarrow> follow_loop C q ok rs rest out
                | Some l \<Rightarrow>
                    (case print_lines ok [write_line C (lq_raw q) l] out of
                       (True, out') \<Rightarrow> follow_loop C q ok rs rest out'
                     | (False, out') \<Rightarrow> Some (Inl LogUnwritable, out'))))"

text \<open>Waiting for the file: each poll says whether it exists and, if not, whether to stop.\<close>

fun await_file :: "(bool \<times> bool) list \<Rightarrow> bool option" where
  "await_file [] = None"
| "await_file ((exists, stop) # ps) = (if exists then Some True else if stop then Some False else await_file ps)"

text \<open>\<open>file\<close> is the content when it is opened.\<close>

definition follow_log :: "'f log_codec \<Rightarrow> log_query \<Rightarrow> (nat \<Rightarrow> bool) \<Rightarrow> (bool \<times> bool) list \<Rightarrow> bytes option
    \<Rightarrow> follow_read list \<Rightarrow> ((log_error + unit) \<times> bytes list) option" where
  "follow_log C q ok polls file rs =
     (case await_file polls of
        None \<Rightarrow> None
      | Some False \<Rightarrow> Some (Inr (), [])
      | Some True \<Rightarrow>
          (case file of
             None \<Rightarrow> Some (Inl LogUnreadable, [])
           | Some content \<Rightarrow>
               let start = (if lq_tail q = None \<and> lq_since_us q = None then [] else content)
               in (case lq_tail q of
                     None \<Rightarrow> follow_loop C q ok rs start []
                   | Some n \<Rightarrow>
                       (case follow_tail C q n rs start [] of
                          None \<Rightarrow> None
                        | Some (Inl e) \<Rightarrow> Some (Inl e, [])
                        | Some (Inr (ring, rs', rest)) \<Rightarrow>
                            (case print_lines ok (map (write_line C (lq_raw q)) ring) [] of
                               (True, out) \<Rightarrow> follow_loop C q ok rs' rest out
                             | (False, out) \<Rightarrow> Some (Inl LogUnwritable, out))))))"

subsection \<open>The \<open>--since\<close> option\<close>

text \<open>Each error with the text it quotes; \<open>now\<close> is the clock in microseconds.\<close>

datatype since_error = SinceEmpty | BadDuration bytes | DurationOverflow bytes | BadSince bytes | EpochOverflow bytes

definition checked_mul :: "nat \<Rightarrow> nat \<Rightarrow> nat option" where
  "checked_mul a b = (if a * b < 2 ^ 64 then Some (a * b) else None)"

definition since_multiplier :: "u8 \<Rightarrow> nat option" where
  "since_multiplier b =
     (if b = 0x73 then Some 1000000
      else if b = 0x6d then Some 60000000
      else if b = 0x68 then Some 3600000000
      else if b = 0x64 then Some 86400000000
      else None)"

definition parse_since :: "u64 \<Rightarrow> bytes \<Rightarrow> since_error + u64" where
  "parse_since now v =
     (if v = [] then Inl SinceEmpty
      else case since_multiplier (last v) of
        Some mult \<Rightarrow>
          (case parse_uint (2 ^ 64 - 1) (butlast v) of
             None \<Rightarrow> Inl (BadDuration (butlast v))
           | Some n \<Rightarrow>
               (case checked_mul n mult of
                  None \<Rightarrow> Inl (DurationOverflow v)
                | Some d \<Rightarrow> Inr (of_nat (unat now - d))))
      | None \<Rightarrow>
          (case parse_uint (2 ^ 64 - 1) v of
             None \<Rightarrow> Inl (BadSince v)
           | Some secs \<Rightarrow>
               (case checked_mul secs 1000000 of None \<Rightarrow> Inl (EpochOverflow v) | Some us \<Rightarrow> Inr (of_nat us))))"

subsection \<open>Capturing the child's output\<close>

text \<open>How one write to the shared log ends; a failed write leaves a prefix of its line behind.\<close>

datatype log_write = LogWritten | LogPoisoned bytes | LogFailed bytes nat

text \<open>The lines of a stream: an unterminated last line is lost when the stream ends with an error.\<close>

definition stream_lines :: "bool \<Rightarrow> bytes \<Rightarrow> bytes list" where
  "stream_lines failed bs = (if failed then map drop_cr (butlast (split_on 0x0a bs)) else str_lines bs)"

definition log_entry :: "'f log_codec \<Rightarrow> bytes \<Rightarrow> 'f \<Rightarrow> bytes \<Rightarrow> bytes" where
  "log_entry C tag ts line = lc_ser C \<lparr>ll_ts = ts, ll_tag = tag, ll_content = JString line\<rparr> @ [0x0a]"

text \<open>
  The capture of one pipe: its error, and what it wrote to the log, one piece per write. A line that
  is not UTF-8 ends the capture without an error, like a closed pipe.
\<close>

fun capture_lines :: "'f log_codec \<Rightarrow> bytes \<Rightarrow> (nat \<Rightarrow> 'f \<times> log_write) \<Rightarrow> nat \<Rightarrow> bytes list
    \<Rightarrow> bytes option \<times> bytes list" where
  "capture_lines C tag ans i [] = (None, [])"
| "capture_lines C tag ans i (line # ls) =
     (if \<not> utf8_valid line then (None, [])
      else let text = log_entry C tag (fst (ans i)) line
      in case snd (ans i) of
           LogWritten \<Rightarrow> (case capture_lines C tag ans (Suc i) ls of (r, out) \<Rightarrow> (r, text # out))
         | LogPoisoned e \<Rightarrow> (Some (ascii ''log mutex poisoned: '' @ e), [])
         | LogFailed e n \<Rightarrow> (Some (ascii ''log write failed: '' @ e), [take n text]))"

definition capture_stream :: "'f log_codec \<Rightarrow> bytes \<Rightarrow> (nat \<Rightarrow> 'f \<times> log_write) \<Rightarrow> bool \<Rightarrow> bytes
    \<Rightarrow> bytes option \<times> bytes list" where
  "capture_stream C tag ans failed bs = capture_lines C tag ans 0 (stream_lines failed bs)"

text \<open>
  The capture of a PTY: each chunk is recorded, written to the log as text, then offered to the
  viewer. For each chunk: what locking the log answers, and its writes.
\<close>

record 'f tee_chunk =
  tc_bytes :: bytes
  tc_lock :: "bytes option"
  tc_writes :: "nat \<Rightarrow> 'f \<times> (bytes \<times> nat) option"

datatype tee_effect = RecordOutput bytes | LogText bytes | OfferOutput bytes

fun log_lines :: "'f log_codec \<Rightarrow> bytes \<Rightarrow> (nat \<Rightarrow> 'f \<times> (bytes \<times> nat) option) \<Rightarrow> nat \<Rightarrow> bytes list
    \<Rightarrow> bytes option \<times> tee_effect list" where
  "log_lines C tag ans i [] = (None, [])"
| "log_lines C tag ans i (line # ls) =
     (let text = log_entry C tag (fst (ans i)) line
      in case snd (ans i) of
           None \<Rightarrow> (case log_lines C tag ans (Suc i) ls of (r, effs) \<Rightarrow> (r, LogText text # effs))
         | Some (e, n) \<Rightarrow> (Some (ascii ''log write failed: '' @ e), [LogText (take n text)]))"

fun capture_stream_with_tee :: "'f log_codec \<Rightarrow> bytes \<Rightarrow> bool \<Rightarrow> 'f tee_chunk list
    \<Rightarrow> bytes option \<times> tee_effect list" where
  "capture_stream_with_tee C tag recorder [] = (None, [])"
| "capture_stream_with_tee C tag recorder (c # cs) =
     (let record = (if recorder then [RecordOutput (tc_bytes c)] else [])
      in case tc_lock c of
           Some e \<Rightarrow> (Some (ascii ''log mutex: '' @ e), record)
         | None \<Rightarrow>
             (case log_lines C tag (tc_writes c) 0 (str_lines (utf8_lossy (tc_bytes c))) of
                (Some e, effs) \<Rightarrow> (Some e, record @ effs)
              | (None, effs) \<Rightarrow>
                  (case capture_stream_with_tee C tag recorder cs of
                     (r, rest) \<Rightarrow> (r, record @ effs @ [OfferOutput (tc_bytes c)] @ rest))))"

end
