(* ===== verification/Exec_Wait.thy ===== *)
theory Exec_Wait
  imports Exec_Frame Output_Log
begin

text \<open>
  How \<open>tendr exec\<close> waits for the end of a command (\<open>src/src/commands/exec.rs\<close>): the scan of the
  output log for the two end markers, the result file of a side channel, and the waits that hold
  the exec lock after a timeout. A wait is driven by a script of what each of its rounds meets; it
  is \<open>None\<close> when the script ends first.
\<close>

subsection \<open>Results\<close>

record exec_output =
  xo_session :: bytes
  xo_stdout :: bytes
  xo_stderr :: bytes
  xo_exit_code :: int
  xo_cwd_after :: bytes
  xo_timed_out :: bool
  xo_truncated :: bool

text \<open>The lines seen so far; \<open>xw_sentinel\<close> has the exit code, the directory and when it was seen.\<close>

record exec_wait =
  xw_stdout :: "bytes list"
  xw_stderr :: "bytes list"
  xw_sentinel :: "(int \<times> bytes \<times> nat) option"
  xw_marked :: bool

definition exec_output_of :: "bytes \<Rightarrow> exec_wait \<Rightarrow> (int \<times> bytes) option \<Rightarrow> exec_output" where
  "exec_output_of name w fin =
     \<lparr>xo_session = name, xo_stdout = join_with [0x0a] (xw_stdout w), xo_stderr = join_with [0x0a] (xw_stderr w),
      xo_exit_code = (case fin of Some (code, _) \<Rightarrow> code | None \<Rightarrow> -1),
      xo_cwd_after = (case fin of Some (_, dir) \<Rightarrow> dir | None \<Rightarrow> []),
      xo_timed_out = (fin = None), xo_truncated = False\<rparr>"

subsection \<open>The sentinel\<close>

definition push_residual :: "bytes \<Rightarrow> bytes list \<Rightarrow> bytes list" where
  "push_residual r ls = (if r \<noteq> [] then ls @ [r] else ls)"

definition marker_of :: "bool \<Rightarrow> bytes \<Rightarrow> bytes \<Rightarrow> bytes option" where
  "marker_of required c token = (if required then parse_err_marker c token else None)"

definition stdout_line :: "bytes \<Rightarrow> bool \<Rightarrow> nat \<Rightarrow> bytes \<Rightarrow> exec_wait \<Rightarrow> exec_wait" where
  "stdout_line token required now c w =
     (case parse_sentinel c token of
        Some (residual, code, dir) \<Rightarrow>
          w\<lparr>xw_stdout := push_residual residual (xw_stdout w),
            xw_sentinel := (case xw_sentinel w of None \<Rightarrow> Some (code, dir, now) | Some s \<Rightarrow> Some s)\<rparr>
      | None \<Rightarrow>
          (case marker_of required c token of
             Some residual \<Rightarrow> w\<lparr>xw_stdout := push_residual residual (xw_stdout w), xw_marked := True\<rparr>
           | None \<Rightarrow> w\<lparr>xw_stdout := xw_stdout w @ [c]\<rparr>))"

definition stderr_line :: "bytes \<Rightarrow> bool \<Rightarrow> bytes \<Rightarrow> exec_wait \<Rightarrow> exec_wait" where
  "stderr_line token required c w =
     (case marker_of required c token of
        Some residual \<Rightarrow> w\<lparr>xw_stderr := push_residual residual (xw_stderr w), xw_marked := True\<rparr>
      | None \<Rightarrow> w\<lparr>xw_stderr := xw_stderr w @ [c]\<rparr>)"

definition exec_line :: "bytes \<Rightarrow> bool \<Rightarrow> nat \<Rightarrow> 'f log_line \<Rightarrow> exec_wait \<Rightarrow> exec_wait" where
  "exec_line token required now l w =
     (case content_text l of
        None \<Rightarrow> w
      | Some c \<Rightarrow>
          if ll_tag l = ascii ''O'' then stdout_line token required now c w
          else if ll_tag l = ascii ''E'' then stderr_line token required c w
          else w)"

text \<open>
  A round: the clock at its start, what the log grew by, the clock when a line was read or not found,
  and what reading the session's record says, should it be asked.
\<close>

record exec_read =
  xr_now :: nat
  xr_grown :: bytes
  xr_then :: nat
  xr_running :: "bytes + bool"

definition err_marker_grace :: nat where "err_marker_grace = 1000"

definition expired :: "nat option \<Rightarrow> nat \<Rightarrow> bool" where
  "expired deadline now = (case deadline of Some dl \<Rightarrow> dl \<le> now | None \<Rightarrow> False)"

definition invalid_utf8_error :: bytes where
  "invalid_utf8_error = ascii ''stream did not contain valid UTF-8''"

text \<open>Whether the wait is over at the start of a round.\<close>

definition wait_over :: "bytes \<Rightarrow> nat option \<Rightarrow> nat \<Rightarrow> exec_wait \<Rightarrow> exec_output option" where
  "wait_over name deadline now w =
     (case xw_sentinel w of
        Some (code, dir, _) \<Rightarrow> if xw_marked w then Some (exec_output_of name w (Some (code, dir))) else None
      | None \<Rightarrow> if expired deadline now then Some (exec_output_of name w None) else None)"

definition log_idle :: "bytes \<Rightarrow> exec_read \<Rightarrow> exec_wait \<Rightarrow> (bytes + exec_output) option" where
  "log_idle name r w =
     (case xw_sentinel w of
        Some (code, dir, seen_at) \<Rightarrow>
          if seen_at + err_marker_grace \<le> xr_then r then Some (Inr (exec_output_of name w (Some (code, dir)))) else None
      | None \<Rightarrow>
          (case xr_running r of
             Inl e \<Rightarrow> Some (Inl e)
           | Inr True \<Rightarrow> None
           | Inr False \<Rightarrow> Some (Inl (ascii ''session exited while waiting for exec result''))))"

fun sentinel_loop :: "'f log_codec \<Rightarrow> bytes \<Rightarrow> bool \<Rightarrow> bytes \<Rightarrow> nat option \<Rightarrow> exec_read list \<Rightarrow> bytes \<Rightarrow> exec_wait
    \<Rightarrow> (bytes + exec_output) option" where
  "sentinel_loop C token required name deadline [] unread w = None"
| "sentinel_loop C token required name deadline (r # rs) unread w =
     (case wait_over name deadline (xr_now r) w of
        Some result \<Rightarrow> Some (Inr result)
      | None \<Rightarrow>
          (case read_line (unread @ xr_grown r) of
             (unit, rest) \<Rightarrow>
               if \<not> utf8_valid unit then Some (Inl invalid_utf8_error)
               else if unit = [] then
                 (case log_idle name r w of
                    Some result \<Rightarrow> Some result
                  | None \<Rightarrow> sentinel_loop C token required name deadline rs rest w)
               else sentinel_loop C token required name deadline rs rest
                 (case lc_parse C (trimmed unit) of
                    None \<Rightarrow> w | Some l \<Rightarrow> exec_line token required (xr_then r) l w)))"

definition new_wait :: "bool \<Rightarrow> exec_wait" where
  "new_wait required = \<lparr>xw_stdout = [], xw_stderr = [], xw_sentinel = None, xw_marked = (\<not> required)\<rparr>"

text \<open>Waiting for the log: each poll says whether it exists, and the clock.\<close>

fun await_log :: "nat option \<Rightarrow> (bool \<times> nat) list \<Rightarrow> bool option" where
  "await_log deadline [] = None"
| "await_log deadline ((exists, now) # ps) =
     (if exists then Some True else if expired deadline now then Some False else await_log deadline ps)"

definition wait_sentinel_result :: "'f log_codec \<Rightarrow> bytes \<Rightarrow> bytes \<Rightarrow> nat \<Rightarrow> nat option \<Rightarrow> bool
    \<Rightarrow> (bool \<times> nat) list \<Rightarrow> bytes + bytes \<Rightarrow> exec_read list \<Rightarrow> (bytes + exec_output) option" where
  "wait_sentinel_result C name token cursor deadline required polls file rs =
     (case await_log deadline polls of
        None \<Rightarrow> None
      | Some False \<Rightarrow> Some (Inr (exec_output_of name (new_wait required) None))
      | Some True \<Rightarrow>
          (case file of
             Inl e \<Rightarrow> Some (Inl e)
           | Inr content \<Rightarrow>
               sentinel_loop C token required name deadline rs (drop cursor content) (new_wait required)))"

subsection \<open>The side channel\<close>

record side_result =
  sc_exit_code :: int
  sc_cwd :: bytes
  sc_stdout :: bytes
  sc_stderr :: bytes
  sc_traceback :: "bytes option"

text \<open>A round: the clock, the result file (absent, unreadable or its text), and the session's state.\<close>

record side_read =
  sr_now :: nat
  sr_file :: "(bytes + bytes) option"
  sr_running :: "bytes + bool"

definition side_output :: "bytes \<Rightarrow> side_result \<Rightarrow> exec_output" where
  "side_output name sc =
     \<lparr>xo_session = name, xo_stdout = sc_stdout sc,
      xo_stderr = (case sc_traceback sc of
         None \<Rightarrow> sc_stderr sc
       | Some tb \<Rightarrow> (if sc_stderr sc \<noteq> [] then sc_stderr sc @ [0x0a] else []) @ tb),
      xo_exit_code = sc_exit_code sc, xo_cwd_after = sc_cwd sc, xo_timed_out = False, xo_truncated = False\<rparr>"

text \<open>With the result: whether the result file was removed.\<close>

fun wait_side_channel :: "(bytes \<Rightarrow> bytes + side_result) \<Rightarrow> bytes \<Rightarrow> nat option \<Rightarrow> side_read list
    \<Rightarrow> ((bytes + exec_output) \<times> bool) option" where
  "wait_side_channel json name deadline [] = None"
| "wait_side_channel json name deadline (r # rs) =
     (if expired deadline (sr_now r) then Some (Inr (exec_output_of name (new_wait False) None), False)
      else case sr_file r of
        Some (Inl e) \<Rightarrow> Some (Inl e, False)
      | Some (Inr content) \<Rightarrow>
          Some (case json content of
                  Inl e \<Rightarrow> Inl (ascii ''invalid side-channel result: '' @ e)
                | Inr sc \<Rightarrow> Inr (side_output name sc), True)
      | None \<Rightarrow>
          (case sr_running r of
             Inl e \<Rightarrow> Some (Inl e, False)
           | Inr False \<Rightarrow> Some (Inl (ascii ''session exited while waiting for exec result''), False)
           | Inr True \<Rightarrow> wait_side_channel json name deadline rs))"

subsection \<open>Late errors of a database\<close>

text \<open>A round: the clock, and what the log grew by before its first and its second read.\<close>

record drain_read =
  dr_now :: nat
  dr_grown :: bytes
  dr_grown_again :: bytes

definition contains_text :: "bytes \<Rightarrow> bytes \<Rightarrow> bool" where
  "contains_text p s \<longleftrightarrow> contains_sub p s"

text \<open>One line: the late errors so far, and whether a sentinel was seen.\<close>

definition drain_line :: "'f log_codec \<Rightarrow> bytes \<Rightarrow> bytes list \<times> bool \<Rightarrow> bytes list \<times> bool" where
  "drain_line C unit st =
     (case lc_parse C (trimmed unit) of
        None \<Rightarrow> st
      | Some l \<Rightarrow>
          if ll_tag l = ascii ''O'' \<and> (case content_text l of Some c \<Rightarrow> contains_text (ascii ''__TENDR_EXEC__'') c | None \<Rightarrow> False)
          then (fst st, True)
          else if ll_tag l = ascii ''E'' \<and> snd st then
            (case content_text l of Some c \<Rightarrow> (fst st @ [c], True) | None \<Rightarrow> st)
          else st)"

fun drain_loop :: "'f log_codec \<Rightarrow> nat \<Rightarrow> drain_read list \<Rightarrow> bytes \<Rightarrow> bytes list \<times> bool \<Rightarrow> bytes list option" where
  "drain_loop C deadline [] unread st = None"
| "drain_loop C deadline (r # rs) unread st =
     (if deadline \<le> dr_now r then Some (fst st)
      else case read_line (unread @ dr_grown r) of
        (unit, rest) \<Rightarrow>
          if \<not> utf8_valid unit then Some (fst st)
          else if unit \<noteq> [] then drain_loop C deadline rs rest (drain_line C unit st)
          else if \<not> snd st then drain_loop C deadline rs rest st
          else (case read_line (rest @ dr_grown_again r) of
                  (again, rest') \<Rightarrow>
                    if \<not> utf8_valid again \<or> again = [] then Some (fst st)
                    else drain_loop C deadline rs rest' (drain_line C again st)))"

definition drain_trailing_stderr :: "'f log_codec \<Rightarrow> nat \<Rightarrow> bytes option \<Rightarrow> nat \<Rightarrow> drain_read list \<Rightarrow> bytes option" where
  "drain_trailing_stderr C cursor file now rs =
     (case file of
        None \<Rightarrow> Some []
      | Some content \<Rightarrow> map_option (join_with [0x0a]) (drain_loop C (now + 100) rs (drop cursor content) ([], False)))"

subsection \<open>After a timeout\<close>

text \<open>Why the exec lock is given up.\<close>

datatype drain_end = NoLog | SentinelSeen | SessionOver | LogBroken | ResultSeen

text \<open>A round: what the log grew by, and whether the session still runs (\<open>None\<close> when that is unknown).\<close>

fun drain_sentinel_loop :: "'f log_codec \<Rightarrow> bytes \<Rightarrow> (bytes \<times> bool option) list \<Rightarrow> bytes \<Rightarrow> drain_end option" where
  "drain_sentinel_loop C token [] unread = None"
| "drain_sentinel_loop C token ((grown, running) # rs) unread =
     (case read_line (unread @ grown) of
        (unit, rest) \<Rightarrow>
          if \<not> utf8_valid unit then Some LogBroken
          else if unit = [] then
            (if running = Some False then Some SessionOver else drain_sentinel_loop C token rs rest)
          else (case lc_parse C (trimmed unit) of
                  Some l \<Rightarrow>
                    if ll_tag l = ascii ''O'' \<and> (case content_text l of Some c \<Rightarrow> parse_sentinel c token \<noteq> None | None \<Rightarrow> False)
                    then Some SentinelSeen
                    else drain_sentinel_loop C token rs rest
                | None \<Rightarrow> drain_sentinel_loop C token rs rest))"

definition drain_until_sentinel :: "'f log_codec \<Rightarrow> bytes \<Rightarrow> bytes option \<Rightarrow> (bytes \<times> bool option) list \<Rightarrow> drain_end option" where
  "drain_until_sentinel C token file rs =
     (case file of
        None \<Rightarrow> Some NoLog
      | Some content \<Rightarrow> drain_sentinel_loop C token rs (drop (length content - 65536) content))"

text \<open>A round: whether the result file is there, and whether the session still runs.\<close>

fun drain_until_side_channel :: "(bool \<times> bool option) list \<Rightarrow> drain_end option" where
  "drain_until_side_channel [] = None"
| "drain_until_side_channel ((present, running) # rs) =
     (if present then Some ResultSeen
      else if running = Some False then Some SessionOver
      else drain_until_side_channel rs)"

end
