(* ===== verification/Output_Log_Props.thy ===== *)
theory Output_Log_Props
  imports Output_Log
begin

text \<open>
  What the output log promises: a query prints the matching lines, the last of them with a tail; a
  follower prints the same lines as they appear; what the child printed comes back from the log.
\<close>

subsection \<open>The lines a query selects\<close>

definition last_n :: "nat \<Rightarrow> 'a list \<Rightarrow> 'a list" where
  "last_n n xs = drop (length xs - n) xs"




lemma print_lines_ok [simp]: "print_lines (\<lambda>_. True) xs out = (True, out @ xs)"
  by (induction xs arbitrary: out) simp_all



lemma last_n_length [simp]: "length (last_n n xs) \<le> n"
  by (simp add: last_n_def)





subsection \<open>Files of whole lines\<close>










subsection \<open>A follower\<close>






lemma read_line_Nil [simp]: "read_line [] = ([], [])"
  by (simp add: read_line_def)












subsection \<open>What the child printed comes back\<close>























end
