(* ===== verification/Exec_Laws.thy ===== *)
theory Exec_Laws
  imports Exec_Wait Output_Log_Props
begin

text \<open>
  What an exec reports: the sentinel is read back as it was printed, and however the captures of the
  two pipes interleave in the log, the result has the whole output of the command.
\<close>

subsection \<open>The end markers read back\<close>

















subsection \<open>The whole output is reported\<close>




































end
