(* ===== verification/Reconcile.thy ===== *)
theory Reconcile
  imports Event_Log
begin

text \<open>
  What a lifecycle event says of a run (\<open>src/src/events.rs\<close>, and its copies in
  \<open>src/src/commands/watch.rs\<close>), and how a session whose sidecar is gone is reconciled from it
  (\<open>src/src/reconcile.rs\<close>); the exit codes that \<open>wait\<close> derives from terminal sessions
  (\<open>src/src/commands/wait.rs\<close>).

  The lock, the files and the process table are the argument \<open>recon_env\<close>; what reconciliation
  does to them is a list of effects in order. The serialization of a boundary is a parameter.
\<close>

subsection \<open>Lifecycle events\<close>

fun lifecycle_kind_name :: "run_status \<Rightarrow> bytes" where
  "lifecycle_kind_name Starting = ascii ''run.starting''"
| "lifecycle_kind_name (Running c) = ascii ''run.started''"
| "lifecycle_kind_name (SpawnFailed t) = ascii ''run.spawn_failed''"
| "lifecycle_kind_name (Exited c how t) =
     (case how of
        ExitedOk \<Rightarrow> ascii ''run.exited''
      | ExitedError code \<Rightarrow> ascii ''run.exited''
      | Killed \<Rightarrow> ascii ''run.killed''
      | KilledForced \<Rightarrow> ascii ''run.killed''
      | TimedOut \<Rightarrow> ascii ''run.timed_out''
      | SidecarFailed st \<Rightarrow> ascii ''run.sidecar_failed'')"
| "lifecycle_kind_name (SidecarLost c t) = ascii ''run.sidecar_lost''"
| "lifecycle_kind_name (DependencyFailed t r) = ascii ''run.dependency_failed''"

text \<open>\<open>None\<close> is the panic of \<open>expect\<close>.\<close>

definition lifecycle_kind :: "run_status \<Rightarrow> event_kind option" where
  "lifecycle_kind s = (case new_kind (lifecycle_kind_name s) of Inr k \<Rightarrow> Some k | Inl e \<Rightarrow> None)"

fun dep_fail_name :: "dep_fail_reason \<Rightarrow> bytes" where
  "dep_fail_name DepFailed = ascii ''Failed''"
| "dep_fail_name DepTimedOut = ascii ''TimedOut''"
| "dep_fail_name DepKilled = ascii ''Killed''"
| "dep_fail_name DepKilledForced = ascii ''KilledForced''"

fun status_data :: "run_status \<Rightarrow> (bytes \<times> json) list" where
  "status_data Starting = [(ascii ''status'', JString (ascii ''Starting''))]"
| "status_data (Running c) = [(ascii ''status'', JString (ascii ''Running''))]"
| "status_data (SpawnFailed t) = [(ascii ''status'', JString (ascii ''SpawnFailed''))]"
| "status_data (Exited c how t) =
     (ascii ''status'', JString (ascii ''Exited'')) #
     (case how of
        ExitedOk \<Rightarrow> [(ascii ''reason'', JString (ascii ''ExitedOk'')), (ascii ''exit_code'', JNum 0)]
      | ExitedError code \<Rightarrow>
          [(ascii ''reason'', JString (ascii ''ExitedError'')), (ascii ''exit_code'', JNum (sint code))]
      | Killed \<Rightarrow> [(ascii ''reason'', JString (ascii ''Killed''))]
      | KilledForced \<Rightarrow> [(ascii ''reason'', JString (ascii ''KilledForced''))]
      | TimedOut \<Rightarrow> [(ascii ''reason'', JString (ascii ''TimedOut''))]
      | SidecarFailed st \<Rightarrow>
          [(ascii ''reason'', JString (ascii ''SidecarFailed'')),
           (ascii ''step'', JString (sidecar_step_as_str st))])"
| "status_data (SidecarLost c t) = [(ascii ''status'', JString (ascii ''SidecarLost''))]"
| "status_data (DependencyFailed t r) =
     [(ascii ''status'', JString (ascii ''DependencyFailed'')), (ascii ''reason'', JString (dep_fail_name r))]"

definition lifecycle_data ::
  "(boundary_context \<Rightarrow> json) \<Rightarrow> run_status \<Rightarrow> bytes \<Rightarrow> boundary_context option \<Rightarrow> json" where
  "lifecycle_data boundary_json s prov b =
     (let data = json_set (ascii ''provenance'') (JString prov) (JObject (status_data s))
      in case b of
           Some x \<Rightarrow>
             (case s of
                Starting \<Rightarrow> json_set (ascii ''boundary'') (boundary_json x) data
              | Running c \<Rightarrow> json_set (ascii ''boundary'') (boundary_json x) data
              | _ \<Rightarrow> data)
         | None \<Rightarrow> data)"

subsection \<open>Reading an outcome back\<close>

definition i32_of_i64 :: "int \<Rightarrow> u32 option" where
  "i32_of_i64 n = (if - (2 ^ 31) \<le> n \<and> n < 2 ^ 31 then Some (of_int n) else None)"

definition healed_terminal_of :: "json \<Rightarrow> healed_terminal option" where
  "healed_terminal_of data = do {
     st \<leftarrow> as_str (json_index data (ascii ''status''));
     if st = ascii ''Exited'' then do {
       reason \<leftarrow> as_str (json_index data (ascii ''reason''));
       how \<leftarrow>
         (if reason = ascii ''ExitedOk'' then Some ExitedOk
          else if reason = ascii ''ExitedError'' then do {
            n \<leftarrow> as_i64 (json_index data (ascii ''exit_code''));
            code \<leftarrow> i32_of_i64 n;
            if code = 0 then None else Some (ExitedError code) }
          else if reason = ascii ''Killed'' then Some Killed
          else if reason = ascii ''KilledForced'' then Some KilledForced
          else if reason = ascii ''TimedOut'' then Some TimedOut
          else if reason = ascii ''SidecarFailed'' then do {
            wire \<leftarrow> as_str (json_index data (ascii ''step''));
            step \<leftarrow> sidecar_step_from_wire wire;
            Some (SidecarFailed step) }
          else None);
       Some (HealedExited how) }
     else if st = ascii ''SpawnFailed'' then Some HealedSpawnFailed
     else if st = ascii ''DependencyFailed'' then do {
       reason \<leftarrow> as_str (json_index data (ascii ''reason''));
       if reason = ascii ''Failed'' then Some (HealedDependencyFailed DepFailed)
       else if reason = ascii ''TimedOut'' then Some (HealedDependencyFailed DepTimedOut)
       else if reason = ascii ''Killed'' then Some (HealedDependencyFailed DepKilled)
       else if reason = ascii ''KilledForced'' then Some (HealedDependencyFailed DepKilledForced)
       else None }
     else None }"

subsection \<open>Reconciliation\<close>

datatype process_status = AliveVerified | Inaccessible | ProbeFailed bytes | ProcessMissing | IdentityMismatch

datatype lock_answer = LockAcquired | LockHeld | LockFailed nat

text \<open>
  \<open>rc_kill\<close> is \<open>None\<close> for a kill that succeeds and the text of its error otherwise; \<open>rc_events\<close>
  is what reading the event log returns.
\<close>

record recon_env =
  rc_lock :: lock_answer
  rc_meta :: "nat + meta"
  rc_breadcrumb :: "process_identity option"
  rc_events :: "event list option"
  rc_probe :: "process_identity \<Rightarrow> process_status"
  rc_kill :: "process_identity \<Rightarrow> bytes option"
  rc_now :: epoch_timestamp
  rc_namespace :: "namespace option"
  rc_write_ok :: bool

datatype recon_effect = KillProcess process_identity | AppendDraft event_draft | WriteMeta meta

datatype reconciled = Untouched | Healed | InferredLoss

datatype recon_error = ReconLock nat | ReconRead nat | ReconTransition transition_error | ReconWrite

definition left_behind_child :: "recon_env \<Rightarrow> meta \<Rightarrow> process_identity option" where
  "left_behind_child a m =
     (case status m of Running c \<Rightarrow> Some c | Starting \<Rightarrow> rc_breadcrumb a | _ \<Rightarrow> None)"

datatype orphan_stop = OrphanWasKilled | OrphanKillFailed bytes | OrphanUnverifiable
  | OrphanCheckFailed bytes | OrphanGone

definition kill_verified_orphan :: "recon_env \<Rightarrow> process_identity \<Rightarrow> orphan_stop \<times> recon_effect list" where
  "kill_verified_orphan a c =
     (case rc_probe a c of
        AliveVerified \<Rightarrow>
          (case rc_kill a c of None \<Rightarrow> (OrphanWasKilled, [KillProcess c])
           | Some e \<Rightarrow> (OrphanKillFailed e, [KillProcess c]))
      | Inaccessible \<Rightarrow> (OrphanUnverifiable, [])
      | ProbeFailed k \<Rightarrow> (OrphanCheckFailed k, [])
      | ProcessMissing \<Rightarrow> (OrphanGone, [])
      | IdentityMismatch \<Rightarrow> (OrphanGone, []))"

text \<open>Whether the child was killed, the record with its warning, and the effects.\<close>

definition stop_orphan :: "recon_env \<Rightarrow> process_identity \<Rightarrow> bytes \<Rightarrow> meta
    \<Rightarrow> bool \<times> meta \<times> recon_effect list" where
  "stop_orphan a c after_what m =
     (let num = show_nat (unat (pid c)); (stop, effs) = kill_verified_orphan a c
      in case stop of
           OrphanWasKilled \<Rightarrow>
             (True, add_warning (ascii ''child pid '' @ num @ ascii '' was still running after '' @
                after_what @ ascii ''; killed it'') m, effs)
         | OrphanKillFailed e \<Rightarrow>
             (False, add_warning (ascii ''child pid '' @ num @ ascii '' is still running after '' @
                after_what @ ascii ''; killing it failed: '' @ e) m, effs)
         | OrphanUnverifiable \<Rightarrow>
             (False, add_warning (ascii ''child pid '' @ num @ ascii '' may still be running after '' @
                after_what @ ascii ''; its identity could not be verified, so it was not killed'') m, effs)
         | OrphanCheckFailed k \<Rightarrow>
             (False, add_warning (ascii ''child pid '' @ num @ ascii '' could not be checked after '' @
                after_what @ ascii '': '' @ k) m, effs)
         | OrphanGone \<Rightarrow> (False, m, effs))"

definition stop_healed_orphan :: "recon_env \<Rightarrow> meta
    \<Rightarrow> (recon_error + unit) \<times> meta \<times> recon_effect list" where
  "stop_healed_orphan a m =
     (case status m of
        Exited c (SidecarFailed st) t \<Rightarrow>
          (case stop_orphan a c (ascii ''its sidecar failed'') m of
             (True, m', effs) \<Rightarrow>
               (case record_healed_orphan_killed m' of
                  (Inr _, m2) \<Rightarrow> (Inr (), m2, effs)
                | (Inl e, m2) \<Rightarrow> (Inl (ReconTransition e), m2, effs))
           | (False, m', effs) \<Rightarrow> (Inr (), m', effs))
      | _ \<Rightarrow> (Inr (), m, []))"

definition terminal_kinds :: "bytes list" where
  "terminal_kinds = [ascii ''run.exited'', ascii ''run.killed'', ascii ''run.timed_out'',
     ascii ''run.sidecar_failed'', ascii ''run.spawn_failed'', ascii ''run.dependency_failed'']"

definition sidecar_terminal :: "run_id \<Rightarrow> event \<Rightarrow> bool" where
  "sidecar_terminal rid e \<longleftrightarrow> ev_run_id e = rid \<and> ev_writer e = run_uuid rid \<and>
     source_str (ev_source e) = ascii ''tendr.sidecar'' \<and> kind_str (ev_kind e) \<in> set terminal_kinds"

definition find_sidecar_terminal_event :: "recon_env \<Rightarrow> meta \<Rightarrow> event option" where
  "find_sidecar_terminal_event a m =
     (case rc_events a of None \<Rightarrow> None | Some es \<Rightarrow> List.find (sidecar_terminal (run_id m)) (rev es))"

text \<open>The healed record, where the log's terminal event is there, parses and fits.\<close>

definition heal_from_log :: "recon_env \<Rightarrow> process_identity option \<Rightarrow> meta \<Rightarrow> meta option" where
  "heal_from_log a spawned m = do {
     e \<leftarrow> find_sidecar_terminal_event a m;
     data \<leftarrow> ev_data e;
     h \<leftarrow> healed_terminal_of data;
     (case heal_terminal_from_event h (EpochTimestamp (ts_epoch_secs (ev_ts e))) spawned m of
        (Inr _, m') \<Rightarrow> Some m' | (Inl _, m') \<Rightarrow> None) }"

definition sidecar_lost_draft :: "(boundary_context \<Rightarrow> json) \<Rightarrow> recon_env \<Rightarrow> meta \<Rightarrow> event_draft option" where
  "sidecar_lost_draft boundary_json a m = do {
     ns \<leftarrow> rc_namespace a;
     src \<leftarrow> (case trusted_source (ascii ''tendr.cli'') of Inr s \<Rightarrow> Some s | Inl e \<Rightarrow> None);
     k \<leftarrow> lifecycle_kind (status m);
     Some \<lparr>dr_id = None, dr_kind = k, dr_namespace = ns, dr_session = session m, dr_run_id = run_id m,
       dr_generation = Some (generation_u64 (generation m)), dr_source = src, dr_block_id = None,
       dr_parent_id = None,
       dr_data = Some (lifecycle_data boundary_json (status m) (ascii ''inferred'') (spec_boundary (launch_spec m))),
       dr_preview = None\<rparr> }"

definition reconcile_sidecar_gone :: "(boundary_context \<Rightarrow> json) \<Rightarrow> recon_env \<Rightarrow> meta
    \<Rightarrow> (recon_error + reconciled) \<times> meta \<times> recon_effect list" where
  "reconcile_sidecar_gone boundary_json a m0 =
     (if is_terminal (status m0) then (Inr Untouched, m0, [])
      else (case rc_lock a of
        LockHeld \<Rightarrow> (Inr Untouched, m0, [])
      | LockFailed e \<Rightarrow> (Inl (ReconLock e), m0, [])
      | LockAcquired \<Rightarrow>
        (case rc_meta a of
           Inl e \<Rightarrow> (Inl (ReconRead e), m0, [])
         | Inr m \<Rightarrow>
           if is_terminal (status m) then (Inr Untouched, m, [])
           else let spawned = left_behind_child a m in
           (case heal_from_log a spawned m of
              Some healed \<Rightarrow>
                (case stop_healed_orphan a healed of
                   (Inl e, m', effs) \<Rightarrow> (Inl e, m', effs)
                 | (Inr _, m', effs) \<Rightarrow>
                     if rc_write_ok a then (Inr Healed, m', effs @ [WriteMeta m'])
                     else (Inl ReconWrite, m', effs))
            | None \<Rightarrow>
                (let (orph, m1, effs) =
                   (case spawned of
                      None \<Rightarrow> (None, m, [])
                    | Some c \<Rightarrow> (case stop_orphan a c (ascii ''its sidecar was lost'') m of
                        (killed, m1, effs) \<Rightarrow> (Some \<lparr>orphan_child = c, orphan_killed = killed\<rparr>, m1, effs)))
                 in case reconcile_sidecar_lost (rc_now a) orph m1 of
                      (Inl e, m2) \<Rightarrow> (Inl (ReconTransition e), m2, effs)
                    | (Inr _, m2) \<Rightarrow>
                        let effs2 = effs @ (case sidecar_lost_draft boundary_json a m2 of
                              Some d \<Rightarrow> [AppendDraft d] | None \<Rightarrow> [])
                        in if rc_write_ok a then (Inr InferredLoss, m2, effs2 @ [WriteMeta m2])
                           else (Inl ReconWrite, m2, effs2))))))"

subsection \<open>Exit codes of wait\<close>

fun single_exit_code :: "run_status \<Rightarrow> int" where
  "single_exit_code (Exited c how t) =
     (case how of ExitedOk \<Rightarrow> 0 | ExitedError code \<Rightarrow> 42 | Killed \<Rightarrow> 0 | KilledForced \<Rightarrow> 0 | TimedOut \<Rightarrow> 0
      | SidecarFailed st \<Rightarrow> 5)"
| "single_exit_code (SpawnFailed t) = 2"
| "single_exit_code (SidecarLost c t) = 3"
| "single_exit_code (DependencyFailed t r) =
     (case r of DepFailed \<Rightarrow> 4 | DepTimedOut \<Rightarrow> 124 | DepKilled \<Rightarrow> 137 | DepKilledForced \<Rightarrow> 137)"
| "single_exit_code s = 0"

definition severity :: "int \<Rightarrow> nat" where
  "severity code =
     (if code = 2 then 6 else if code = 3 then 5 else if code = 5 then 4
      else if code \<in> {4, 124, 137} then 3 else if code = 42 then 1 else 0)"

definition derive_exit_code :: "run_status list \<Rightarrow> int" where
  "derive_exit_code ss = foldl (\<lambda>worst s. let code = single_exit_code s in
     if code \<noteq> 0 \<and> (worst = 0 \<or> severity worst < severity code) then code else worst) 0 ss"

end
