(* ===== verification/Reconcile_Props.thy ===== *)
theory Reconcile_Props
  imports Reconcile
begin

text \<open>
  Reconciliation: the outcome a sidecar logged is the outcome healed, a process is only killed when
  it is verified to be the session's, and what is recorded is final.
\<close>

subsection \<open>Outcomes in the log\<close>

lemma data_keys:
  "ascii ''status'' \<noteq> ascii ''provenance''" "ascii ''reason'' \<noteq> ascii ''provenance''"
  "ascii ''exit_code'' \<noteq> ascii ''provenance''" "ascii ''step'' \<noteq> ascii ''provenance''"
  "ascii ''status'' \<noteq> ascii ''boundary''" "ascii ''reason'' \<noteq> ascii ''boundary''"
  "ascii ''exit_code'' \<noteq> ascii ''boundary''" "ascii ''step'' \<noteq> ascii ''boundary''"
  "ascii ''reason'' \<noteq> ascii ''status''" "ascii ''exit_code'' \<noteq> ascii ''status''"
  "ascii ''step'' \<noteq> ascii ''status''" "ascii ''exit_code'' \<noteq> ascii ''reason''"
  "ascii ''step'' \<noteq> ascii ''reason''"
  by (simp_all add: ascii_def)

lemma index_lifecycle:
  assumes "k \<noteq> ascii ''provenance''" "k \<noteq> ascii ''boundary''"
  shows "json_index (lifecycle_data bj s p b) k = json_index (JObject (status_data s)) k"
proof -
  have step: "json_index (json_set k' x (json_set k'' y (JObject kvs))) k = json_index (JObject kvs) k"
    if "k \<noteq> k'" "k \<noteq> k''" for k' k'' x y kvs
    using that by (simp add: json_index_def update_conv')
  have one: "json_index (json_set k'' y (JObject kvs)) k = json_index (JObject kvs) k" if "k \<noteq> k''" for k'' y kvs
    using that by (simp add: json_index_def update_conv')
  show ?thesis
    unfolding lifecycle_data_def Let_def
    using assms by (cases s; cases b) (simp_all only: option.case run_status.case step one)
qed

text \<open>The outcome of a status, where its event is one a sidecar ends a run with.\<close>

fun outcome_of :: "run_status \<Rightarrow> healed_terminal option" where
  "outcome_of (Exited c how t) = (if how = ExitedError 0 then None else Some (HealedExited how))"
| "outcome_of (SpawnFailed t) = Some HealedSpawnFailed"
| "outcome_of (DependencyFailed t r) = Some (HealedDependencyFailed r)"
| "outcome_of s = None"

lemma i32_sint: "i32_of_i64 (sint c) = Some c"
  using sint_range_size [of c] by (simp add: i32_of_i64_def word_size)

lemma sint_i64: "as_i64 (JNum (sint (c :: u32))) = Some (sint c)"
  using sint_range_size [of c] by (simp add: word_size)

lemma index_simps:
  "json_index (JObject ((k, v) # kvs)) k' = (if k' = k then v else json_index (JObject kvs) k')"
  "json_index (JObject []) k' = JNull"
  by (simp_all add: json_index_def)

lemma name_values:
  "ascii ''SpawnFailed'' \<noteq> ascii ''Exited''" "ascii ''DependencyFailed'' \<noteq> ascii ''Exited''"
  "ascii ''DependencyFailed'' \<noteq> ascii ''SpawnFailed''" "ascii ''Starting'' \<noteq> ascii ''Exited''"
  "ascii ''Starting'' \<noteq> ascii ''SpawnFailed''" "ascii ''Starting'' \<noteq> ascii ''DependencyFailed''"
  "ascii ''Running'' \<noteq> ascii ''Exited''" "ascii ''Running'' \<noteq> ascii ''SpawnFailed''"
  "ascii ''Running'' \<noteq> ascii ''DependencyFailed''" "ascii ''SidecarLost'' \<noteq> ascii ''Exited''"
  "ascii ''SidecarLost'' \<noteq> ascii ''SpawnFailed''" "ascii ''SidecarLost'' \<noteq> ascii ''DependencyFailed''"
  by (simp_all add: ascii_def)

lemma reason_values:
  "ascii ''ExitedError'' \<noteq> ascii ''ExitedOk''" "ascii ''Killed'' \<noteq> ascii ''ExitedOk''"
  "ascii ''Killed'' \<noteq> ascii ''ExitedError''" "ascii ''KilledForced'' \<noteq> ascii ''ExitedOk''"
  "ascii ''KilledForced'' \<noteq> ascii ''ExitedError''" "ascii ''KilledForced'' \<noteq> ascii ''Killed''"
  "ascii ''TimedOut'' \<noteq> ascii ''ExitedOk''" "ascii ''TimedOut'' \<noteq> ascii ''ExitedError''"
  "ascii ''TimedOut'' \<noteq> ascii ''Killed''" "ascii ''TimedOut'' \<noteq> ascii ''KilledForced''"
  "ascii ''SidecarFailed'' \<noteq> ascii ''ExitedOk''" "ascii ''SidecarFailed'' \<noteq> ascii ''ExitedError''"
  "ascii ''SidecarFailed'' \<noteq> ascii ''Killed''" "ascii ''SidecarFailed'' \<noteq> ascii ''KilledForced''"
  "ascii ''SidecarFailed'' \<noteq> ascii ''TimedOut''" "ascii ''TimedOut'' \<noteq> ascii ''Failed''"
  "ascii ''Killed'' \<noteq> ascii ''Failed''" "ascii ''KilledForced'' \<noteq> ascii ''Failed''"
  "ascii ''Killed'' \<noteq> ascii ''TimedOut''" "ascii ''KilledForced'' \<noteq> ascii ''TimedOut''"
  by (simp_all add: ascii_def)

lemma outcome_read_back: "healed_terminal_of (lifecycle_data bj s p b) = outcome_of s"
proof -
  note idx = index_lifecycle [OF data_keys(1,5)] index_lifecycle [OF data_keys(2,6)]
    index_lifecycle [OF data_keys(3,7)] index_lifecycle [OF data_keys(4,8)]
  show ?thesis
  proof (cases s)
    case (Exited c how t)
    then show ?thesis unfolding healed_terminal_of_def idx
      by (cases how) (simp_all del: as_i64.simps add: index_simps data_keys name_values reason_values
          sint_i64 i32_sint sidecar_step_from_wire_as_str)
  next
    case (DependencyFailed t r)
    then show ?thesis unfolding healed_terminal_of_def idx
      by (cases r) (simp_all add: index_simps data_keys name_values reason_values)
  qed (unfold healed_terminal_of_def idx, simp_all add: index_simps data_keys name_values)
qed

definition lifecycle_names :: "bytes list" where
  "lifecycle_names = [ascii ''run.starting'', ascii ''run.started'', ascii ''run.spawn_failed'',
     ascii ''run.exited'', ascii ''run.killed'', ascii ''run.timed_out'', ascii ''run.sidecar_failed'',
     ascii ''run.sidecar_lost'', ascii ''run.dependency_failed'']"

lemma lifecycle_names_valid: "list_all (\<lambda>n. new_kind n = Inr (Kind n)) lifecycle_names"
  by code_simp

lemma lifecycle_kind_eq: "lifecycle_kind s = Some (Kind (lifecycle_kind_name s))"
proof -
  have "lifecycle_kind_name s \<in> set lifecycle_names"
    by (cases s) (auto simp: lifecycle_names_def split: exit_reason.splits)
  then have "new_kind (lifecycle_kind_name s) = Inr (Kind (lifecycle_kind_name s))"
    using lifecycle_names_valid by (simp add: list_all_iff)
  then show ?thesis by (simp add: lifecycle_kind_def)
qed

lemma exited_kind: "lifecycle_kind_name (Exited c how t) \<in> set terminal_kinds"
  by (cases how) (simp_all add: terminal_kinds_def)

subsection \<open>Healing and inferring\<close>

lemma heal_running:
  "status m = Running c \<Longrightarrow> heal_terminal_from_event (HealedExited how) t sp m =
     (Inr (), set_transition_provenance (Direct [EventLogTerminal]) (set_status (Exited c how t) m))"
  by (simp add: heal_terminal_from_event_def)

lemma add_warning_keeps [simp]: "status (add_warning w m) = status m" "provenance (add_warning w m) = provenance m"
  "run_id (add_warning w m) = run_id m"
  by (simp_all add: add_warning_def)

lemma stop_orphan_keeps:
  assumes "stop_orphan a c what m = (killed, m', effs)"
  shows "status m' = status m" "provenance m' = provenance m"
    "list_all (\<lambda>e. \<exists>k. e = KillProcess k \<and> rc_probe a k = AliveVerified) effs"
  using assms
  by (auto simp: stop_orphan_def kill_verified_orphan_def Let_def
      split: process_status.splits option.splits orphan_stop.splits prod.splits)

lemma stop_healed_keeps:
  assumes "stop_healed_orphan a m = (r, m', effs)"
  shows "status m' = status m"
    "list_all (\<lambda>e. \<exists>k. e = KillProcess k \<and> rc_probe a k = AliveVerified) effs"
    "provenance m = Some (Direct [EventLogTerminal]) \<Longrightarrow>
       r = Inr () \<and> (\<exists>ev. provenance m' = Some (Direct ev))"
proof -
  have "status m' = status m \<and> list_all (\<lambda>e. \<exists>k. e = KillProcess k \<and> rc_probe a k = AliveVerified) effs \<and>
    (provenance m = Some (Direct [EventLogTerminal]) \<longrightarrow>
       r = Inr () \<and> (\<exists>ev. provenance m' = Some (Direct ev)))"
  proof (cases "\<exists>c st t. status m = Exited c (SidecarFailed st) t")
    case False
    then have "r = Inr () \<and> m' = m \<and> effs = []"
      using assms by (auto simp: stop_healed_orphan_def split: run_status.splits exit_reason.splits)
    then show ?thesis by simp
  next
    case True
    then obtain c st t where s: "status m = Exited c (SidecarFailed st) t" by blast
    obtain killed m1 effs1 where so: "stop_orphan a c (ascii ''its sidecar failed'') m = (killed, m1, effs1)"
      by (metis prod_cases3)
    note keep = stop_orphan_keeps [OF so]
    show ?thesis using assms keep s so
      by (cases killed) (auto simp: stop_healed_orphan_def record_healed_orphan_killed_def
          healed_sidecar_failed_def set_transition_provenance_def split: if_splits)
  qed
  then show "status m' = status m"
    "list_all (\<lambda>e. \<exists>k. e = KillProcess k \<and> rc_probe a k = AliveVerified) effs"
    "provenance m = Some (Direct [EventLogTerminal]) \<Longrightarrow>
       r = Inr () \<and> (\<exists>ev. provenance m' = Some (Direct ev))" by simp_all
qed

lemma healed_record:
  assumes "heal_terminal_from_event h t sp m = (Inr u, m')"
  shows "is_terminal (status m')" "provenance m' = Some (Direct [EventLogTerminal])"
  using assms
  by (auto simp: heal_terminal_from_event_def set_status_def set_transition_provenance_def
      split: option.splits if_splits elim!: healed_status.elims)

lemma heal_from_log_record:
  assumes "heal_from_log a sp m = Some m'"
  shows "is_terminal (status m')" "provenance m' = Some (Direct [EventLogTerminal])"
proof -
  obtain h t where "(case heal_terminal_from_event h t sp m of (Inr u, m') \<Rightarrow> Some m' | (Inl e, m') \<Rightarrow> None) = Some m'"
    using assms by (auto simp: heal_from_log_def bind_eq_Some_conv)
  then have "heal_terminal_from_event h t sp m = (Inr (), m')"
    by (cases "heal_terminal_from_event h t sp m") (auto split: sum.splits)
  then show "is_terminal (status m')" "provenance m' = Some (Direct [EventLogTerminal])"
    using healed_record by blast+
qed


text \<open>What the result of a reconciliation promises.\<close>

definition effects_safe :: "recon_env \<Rightarrow> recon_effect list \<Rightarrow> bool" where
  "effects_safe a effs \<longleftrightarrow> list_all (\<lambda>e. case e of KillProcess k \<Rightarrow> rc_probe a k = AliveVerified | _ \<Rightarrow> True) effs"

fun recon_promise :: "recon_error + reconciled \<Rightarrow> meta \<Rightarrow> recon_effect list \<Rightarrow> bool" where
  "recon_promise (Inr Untouched) m effs = (effs = [])"
| "recon_promise (Inr Healed) m effs =
     (is_terminal (status m) \<and> (case provenance m of Some p \<Rightarrow> is_direct p | None \<Rightarrow> False) \<and>
      effs \<noteq> [] \<and> List.last effs = WriteMeta m \<and> list_all (\<lambda>e. case e of KillProcess k \<Rightarrow> True | _ \<Rightarrow> False) (butlast effs))"
| "recon_promise (Inr InferredLoss) m effs =
     ((case status m of SidecarLost c t \<Rightarrow> True | _ \<Rightarrow> False) \<and>
      (case provenance m of Some p \<Rightarrow> is_inferred p | None \<Rightarrow> False) \<and>
      effs \<noteq> [] \<and> List.last effs = WriteMeta m \<and> list_all (\<lambda>e. case e of WriteMeta x \<Rightarrow> False | _ \<Rightarrow> True) (butlast effs))"
| "recon_promise (Inl e) m effs = list_all (\<lambda>e. case e of WriteMeta x \<Rightarrow> False | _ \<Rightarrow> True) effs"

lemma kills_safe:
  "list_all (\<lambda>e. \<exists>k. e = KillProcess k \<and> rc_probe a k = AliveVerified) effs \<Longrightarrow>
   effects_safe a effs \<and> list_all (\<lambda>e. case e of KillProcess k \<Rightarrow> True | _ \<Rightarrow> False) effs \<and>
   list_all (\<lambda>e. case e of WriteMeta x \<Rightarrow> False | _ \<Rightarrow> True) effs"
  by (induction effs) (auto simp: effects_safe_def)

lemma effects_safe_append [simp]:
  "effects_safe a (xs @ ys) \<longleftrightarrow> effects_safe a xs \<and> effects_safe a ys"
  "effects_safe a [WriteMeta m]" "effects_safe a []" "effects_safe a [AppendDraft d]"
  by (auto simp: effects_safe_def)

lemma healed_branch:
  assumes "heal_from_log a sp m = Some healed" "stop_healed_orphan a healed = (r, m', effs)"
  shows "r = Inr () \<and> recon_promise (Inr Healed) m' (effs @ [WriteMeta m']) \<and> effects_safe a effs \<and>
    recon_promise (Inl e) m' effs"
proof -
  note H = heal_from_log_record [OF assms(1)] and S = stop_healed_keeps [OF assms(2)]
  note K = kills_safe [OF S(2)]
  from S(3) [OF H(2)] obtain ev where "r = Inr ()" "provenance m' = Some (Direct ev)" by blast
  then show ?thesis using H(1) S(1) K by simp
qed







text \<open>The terminal event found for the run, with the outcome as the sidecar writes it, is healed from.\<close>

lemma heals_found_event:
  assumes "status m = Running c" and "how \<noteq> ExitedError 0"
    and "find_sidecar_terminal_event a m = Some e"
    and "ev_data e = Some (lifecycle_data bj (Exited c how t) prov b)"
    and "rc_lock a = LockAcquired" and "rc_meta a = Inr m"
    and "rc_write_ok a"
  shows "fst (reconcile_sidecar_gone bj a m) = Inr Healed \<and>
    status (fst (snd (reconcile_sidecar_gone bj a m))) = Exited c how (EpochTimestamp (ts_epoch_secs (ev_ts e)))"
proof -
  obtain healed where h: "heal_from_log a (left_behind_child a m) m = Some healed"
      "status healed = Exited c how (EpochTimestamp (ts_epoch_secs (ev_ts e)))"
    using assms(1-4)
    by (simp add: heal_from_log_def outcome_read_back heal_running set_transition_provenance_def set_status_def)
  obtain r m' effs where so: "stop_healed_orphan a healed = (r, m', effs)" by (metis prod_cases3)
  then have "r = Inr ()" "status m' = status healed"
    using healed_branch [OF h(1) so] stop_healed_keeps(1) [OF so] by simp_all
  then show ?thesis
    using assms(1,5-7) h so by (simp add: reconcile_sidecar_gone_def Let_def)
qed

end
