(* ===== verification/Exec_Command.thy ===== *)
theory Exec_Command
  imports Exec_Wait Reconcile_Props Transition
begin

text \<open>
  The \<open>tendr exec\<close> command (\<open>src/src/commands/exec.rs\<close>): its guards, the exec lock, the events around
  the command, sending the frame and waiting for the result, and the annotation it leaves in the
  output log (with \<open>src/src/annotation.rs\<close>).
\<close>

subsection \<open>Annotations\<close>

definition max_line :: nat where "max_line = 4096"
definition max_field_bytes :: nat where "max_field_bytes = 3000"

definition truncate_string :: "bytes \<Rightarrow> nat \<Rightarrow> bytes" where
  "truncate_string s n = (if length s \<le> n then s else take (floor_boundary s n) s)"

text \<open>Whether the line was written, or the error; and what was appended to the log.\<close>

definition write_annotation_line :: "'f log_codec \<Rightarrow> 'f \<Rightarrow> bytes option \<Rightarrow> json \<Rightarrow> (bytes + bool) \<times> bytes list" where
  "write_annotation_line C ts answer payload =
     (let line = lc_ser C \<lparr>ll_ts = ts, ll_tag = ascii ''A'', ll_content = payload\<rparr> @ [0x0a]
      in if max_line < length line then (Inr False, [])
         else case answer of None \<Rightarrow> (Inr True, [line]) | Some e \<Rightarrow> (Inl e, []))"

text \<open>The payloads, largest first: in full, with cut fields, and the breadcrumb with or without the command.\<close>

record exec_annotation =
  an_join :: "bytes list \<Rightarrow> bytes"
  an_sha :: "bytes \<Rightarrow> bytes"
  an_run_id :: bytes
  an_block_id :: bytes
  an_event_id :: "bytes option"
  an_token :: bytes

definition with_event_id :: "exec_annotation \<Rightarrow> json \<Rightarrow> json" where
  "with_event_id a payload =
     (case an_event_id a of Some i \<Rightarrow> json_set (ascii ''event_id'') (JString i) payload | None \<Rightarrow> payload)"

definition annotation_payload :: "exec_annotation \<Rightarrow> bytes \<Rightarrow> (bytes \<times> json) list \<Rightarrow> json" where
  "annotation_payload a what data = with_event_id a (JObject
     [(ascii ''source'', JString (ascii ''agent.exec'')), (ascii ''event'', JString what),
      (ascii ''run_id'', JString (an_run_id a)), (ascii ''block_id'', JString (an_block_id a)),
      (ascii ''data'', JObject data)])"

definition exec_sentinel :: "exec_annotation \<Rightarrow> json" where
  "exec_sentinel a = JString (ascii ''TENDR_EXEC_'' @ an_token a)"

definition full_payload :: "exec_annotation \<Rightarrow> bytes list \<Rightarrow> exec_output \<Rightarrow> bytes \<Rightarrow> bytes \<Rightarrow> bool \<Rightarrow> json" where
  "full_payload a cmd r out err truncated = annotation_payload a (ascii ''exec'')
     [(ascii ''hook_stdin'', JString (an_join a cmd)), (ascii ''command'', JArray (map JString cmd)),
      (ascii ''hook_stdout'', JString out), (ascii ''hook_stderr'', JString err),
      (ascii ''hook_exit_code'', JNum (xo_exit_code r)), (ascii ''cwd_after'', JString (xo_cwd_after r)),
      (ascii ''sentinel'', exec_sentinel a), (ascii ''timed_out'', JBool (xo_timed_out r)),
      (ascii ''truncated'', JBool truncated)]"

definition breadcrumb :: "exec_annotation \<Rightarrow> bytes list \<Rightarrow> exec_output \<Rightarrow> bool \<Rightarrow> json" where
  "breadcrumb a cmd r include_command = annotation_payload a (ascii ''exec_truncated'')
     ([(ascii ''stdout_len'', JNum (int (length (xo_stdout r)))), (ascii ''stderr_len'', JNum (int (length (xo_stderr r)))),
       (ascii ''hook_exit_code'', JNum (xo_exit_code r)),
       (ascii ''cwd_after'', JString (truncate_string (xo_cwd_after r) 512)), (ascii ''sentinel'', exec_sentinel a),
       (ascii ''timed_out'', JBool (xo_timed_out r)), (ascii ''truncated'', JBool True),
       (ascii ''stdout_sha256'', JString (an_sha a (xo_stdout r))), (ascii ''stderr_sha256'', JString (an_sha a (xo_stderr r)))] @
      (if include_command then [(ascii ''command'', JArray (map JString cmd))] else []))"

definition annotation_payloads :: "exec_annotation \<Rightarrow> bytes list \<Rightarrow> exec_output \<Rightarrow> json list" where
  "annotation_payloads a cmd r =
     [full_payload a cmd r (xo_stdout r) (xo_stderr r) (xo_truncated r),
      full_payload a cmd r (truncate_string (xo_stdout r) max_field_bytes) (truncate_string (xo_stderr r) max_field_bytes) True,
      breadcrumb a cmd r True, breadcrumb a cmd r False]"

text \<open>The first payload that fits is written; the last is not retried.\<close>

fun write_first_fitting :: "'f log_codec \<Rightarrow> ('f \<times> bytes option) list \<Rightarrow> json list \<Rightarrow> bytes option \<times> bytes list" where
  "write_first_fitting C ((ts, answer) # as) (p # ps) =
     (case write_annotation_line C ts answer p of
        (Inl e, out) \<Rightarrow> (Some e, out)
      | (Inr True, out) \<Rightarrow> (None, out)
      | (Inr False, out) \<Rightarrow> write_first_fitting C as ps)"
| "write_first_fitting C _ _ = (None, [])"

definition write_exec_annotation :: "'f log_codec \<Rightarrow> ('f \<times> bytes option) list \<Rightarrow> exec_annotation \<Rightarrow> bytes list \<Rightarrow> exec_output
    \<Rightarrow> bytes option \<times> bytes list" where
  "write_exec_annotation C answers a cmd r = write_first_fitting C answers (annotation_payloads a cmd r)"

subsection \<open>Sending the command\<close>

datatype wait_mode = WaitSentinel | WaitSentinelErrors | WaitSideChannel

datatype connect_answer = Connected | ConnectRefused | ConnectFailed bytes

text \<open>
  What a run meets: \<open>xe_results_dir\<close> and \<open>xe_write\<close> are the error of creating the directory of result
  files and of writing the frame; \<open>xe_result_path\<close> is the path of the result file as text.
\<close>

record 'f exec_env =
  xe_join :: "bytes list \<Rightarrow> bytes"
  xe_b64 :: "bytes \<Rightarrow> bytes"
  xe_start :: nat
  xe_log_len :: nat
  xe_results_dir :: "bytes option"
  xe_result_path :: "bytes option"
  xe_connects :: "(nat \<times> connect_answer \<times> (bytes + bool)) list"
  xe_write :: "bytes option"
  xe_codec :: "'f log_codec"
  xe_log_polls :: "(bool \<times> nat) list"
  xe_log :: "bytes + bytes"
  xe_reads :: "exec_read list"
  xe_late_log :: "bytes option"
  xe_late_now :: nat
  xe_late_reads :: "drain_read list"
  xe_side :: "bytes \<Rightarrow> bytes + side_result"
  xe_side_reads :: "side_read list"

definition side_frame :: "'f exec_env \<Rightarrow> ((bytes \<Rightarrow> bytes) \<Rightarrow> bytes \<Rightarrow> bytes \<Rightarrow> bytes) \<Rightarrow> bytes list \<Rightarrow> bytes + bytes \<times> wait_mode" where
  "side_frame e frame cmd =
     (case xe_results_dir e of
        Some err \<Rightarrow> Inl err
      | None \<Rightarrow>
          (case xe_result_path e of
             None \<Rightarrow> Inl (ascii ''session path is not valid UTF-8'')
           | Some path \<Rightarrow> Inr (frame (xe_b64 e) (join_with [0x0a] cmd) path, WaitSideChannel)))"

definition frame_command :: "'f exec_env \<Rightarrow> exec_target \<Rightarrow> bytes list \<Rightarrow> bytes \<Rightarrow> bytes \<Rightarrow> bytes + bytes \<times> wait_mode" where
  "frame_command e target cmd token block =
     (case target of
        PosixShell \<Rightarrow> Inr (unix_frame (xe_join e) cmd token block, WaitSentinel)
      | PowerShell \<Rightarrow> side_frame e powershell_frame cmd
      | PythonRepl \<Rightarrow> side_frame e python_frame cmd
      | DuckDb \<Rightarrow> Inr (duckdb_frame (join_with [0x0a] cmd) token, WaitSentinelErrors)
      | ExecNone \<Rightarrow> Inl (ascii ''session has no exec target''))"

fun connect_stdin :: "nat option \<Rightarrow> (nat \<times> connect_answer \<times> (bytes + bool)) list \<Rightarrow> (bytes + unit) option" where
  "connect_stdin deadline [] = None"
| "connect_stdin deadline ((now, answer, running) # cs) =
     (if expired deadline now then Some (Inl (ascii ''timeout connecting to stdin transport''))
      else case answer of
        Connected \<Rightarrow> Some (Inr ())
      | ConnectFailed e \<Rightarrow> Some (Inl (ascii ''failed to open stdin pipe: '' @ e))
      | ConnectRefused \<Rightarrow>
          (case running of
             Inl e \<Rightarrow> Some (Inl e)
           | Inr False \<Rightarrow> Some (Inl (ascii ''session exited before exec could connect''))
           | Inr True \<Rightarrow> connect_stdin deadline cs))"

text \<open>A database's errors are found on its stderr: its sentinel always says zero.\<close>

definition with_late_errors :: "bytes \<Rightarrow> exec_output \<Rightarrow> exec_output" where
  "with_late_errors trailing r =
     (let r1 = (if trailing = [] then r
                else r\<lparr>xo_stderr := (if xo_stderr r = [] then trailing else xo_stderr r @ [0x0a] @ trailing)\<rparr>)
      in if xo_stderr r1 \<noteq> [] then r1\<lparr>xo_exit_code := 1\<rparr> else r1)"

definition wait_for_result :: "'f exec_env \<Rightarrow> bytes \<Rightarrow> bytes \<Rightarrow> nat option \<Rightarrow> wait_mode \<Rightarrow> (bytes + exec_output) option" where
  "wait_for_result e name token deadline how =
     (case how of
        WaitSideChannel \<Rightarrow> map_option fst (wait_side_channel (xe_side e) name deadline (xe_side_reads e))
      | WaitSentinel \<Rightarrow>
          wait_sentinel_result (xe_codec e) name token (xe_log_len e) deadline True (xe_log_polls e) (xe_log e) (xe_reads e)
      | WaitSentinelErrors \<Rightarrow>
          (case wait_sentinel_result (xe_codec e) name token (xe_log_len e) deadline False (xe_log_polls e) (xe_log e) (xe_reads e) of
             None \<Rightarrow> None
           | Some (Inl err) \<Rightarrow> Some (Inl err)
           | Some (Inr r) \<Rightarrow>
               map_option (\<lambda>trailing. Inr (with_late_errors trailing r))
                 (drain_trailing_stderr (xe_codec e) (xe_log_len e) (xe_late_log e) (xe_late_now e) (xe_late_reads e))))"

text \<open>The result, with the frame that was sent.\<close>

definition run_exec :: "'f exec_env \<Rightarrow> meta \<Rightarrow> bytes list \<Rightarrow> bytes \<Rightarrow> u64 option \<Rightarrow> bytes
    \<Rightarrow> ((bytes + exec_output) \<times> bytes option) option" where
  "run_exec e m cmd token timeout block =
     (let deadline = map_option (\<lambda>t. xe_start e + 1000 * unat t) timeout
      in case frame_command e (exec_target (launch_spec m)) cmd token block of
           Inl err \<Rightarrow> Some (Inl err, None)
         | Inr (framed, how) \<Rightarrow>
             (case connect_stdin deadline (xe_connects e) of
                None \<Rightarrow> None
              | Some (Inl err) \<Rightarrow> Some (Inl err, None)
              | Some (Inr _) \<Rightarrow>
                  (case xe_write e of
                     Some err \<Rightarrow> Some (Inl err, Some framed)
                   | None \<Rightarrow> map_option (\<lambda>r. (r, Some framed))
                       (wait_for_result e (session_str (session m)) token deadline how))))"

subsection \<open>The command\<close>

text \<open>
  What the command does to the world, in order. \<open>AppendExec\<close> is an event of the session's log,
  \<open>ExecDone\<close> the exit of the process: an error, or an exit code.
\<close>

datatype exec_effect = ExecLocked | AppendExec event_draft | FrameSent bytes | CommandOver drain_end
  | Annotated bytes | ResultPrinted exec_output | ExecUnlocked

record 'f exec_call =
  xc_name :: bytes
  xc_cmd :: "bytes list"
  xc_timeout :: "u64 option"
  xc_namespace :: namespace
  xc_root :: "bytes option"
  xc_open :: "bytes + unit option"
  xc_meta :: "bytes + meta"
  xc_lock :: "bytes option"
  xc_block :: bytes
  xc_parent :: "bytes option"
  xc_token :: bytes
  xc_append :: "event_draft \<Rightarrow> bytes option"
  xc_run :: "'f exec_env"
  xc_drain_log :: "bytes option"
  xc_drain_reads :: "(bytes \<times> bool option) list"
  xc_drain_side :: "(bool \<times> bool option) list"
  xc_id :: "bytes \<Rightarrow> bytes"
  xc_sha :: "bytes \<Rightarrow> bytes"
  xc_annotate :: "('f \<times> bytes option) list"

fun exec_target_name :: "exec_target \<Rightarrow> bytes" where
  "exec_target_name ExecNone = ascii ''None''"
| "exec_target_name PosixShell = ascii ''PosixShell''"
| "exec_target_name PowerShell = ascii ''PowerShell''"
| "exec_target_name PythonRepl = ascii ''PythonRepl''"
| "exec_target_name DuckDb = ascii ''DuckDb''"

text \<open>\<open>None\<close> is the panic of the two \<open>expect\<close> calls.\<close>

definition exec_draft :: "'f exec_call \<Rightarrow> meta \<Rightarrow> bytes \<Rightarrow> json \<Rightarrow> json option \<Rightarrow> event_draft option" where
  "exec_draft c m kind data preview =
     (case (new_kind kind, trusted_source (ascii ''tendr.exec'')) of
        (Inr k, Inr src) \<Rightarrow>
          Some \<lparr>dr_id = None, dr_kind = k, dr_namespace = xc_namespace c, dr_session = session m, dr_run_id = run_id m,
            dr_generation = Some (generation_u64 (generation m)), dr_source = src, dr_block_id = Some (xc_block c),
            dr_parent_id = xc_parent c, dr_data = Some data, dr_preview = preview\<rparr>
      | _ \<Rightarrow> None)"

definition saturating_ms :: "u64 \<Rightarrow> int" where
  "saturating_ms t = int (min (unat t * 1000) (2 ^ 64 - 1))"

definition started_data :: "'f exec_call \<Rightarrow> meta \<Rightarrow> json" where
  "started_data c m = JObject ([(ascii ''command'', JArray (map JString (xc_cmd c))),
      (ascii ''exec_target'', JString (exec_target_name (exec_target (launch_spec m))))] @
     (case xc_timeout c of Some t \<Rightarrow> [(ascii ''timeout_ms'', JNum (saturating_ms t))] | None \<Rightarrow> []))"

definition result_data :: "exec_output \<Rightarrow> json" where
  "result_data r = JObject [(ascii ''exit_code'', JNum (xo_exit_code r)), (ascii ''cwd_after'', JString (xo_cwd_after r)),
     (ascii ''timed_out'', JBool (xo_timed_out r)), (ascii ''stderr'', JString (xo_stderr r)),
     (ascii ''stdout'', JString (xo_stdout r)), (ascii ''truncated'', JBool False)]"

definition result_preview :: "exec_output \<Rightarrow> json" where
  "result_preview r = JObject [(ascii ''exit_code'', JNum (xo_exit_code r)), (ascii ''cwd_after'', JString (xo_cwd_after r)),
     (ascii ''timed_out'', JBool (xo_timed_out r)), (ascii ''stderr'', JString (truncate_string (xo_stderr r) 1024)),
     (ascii ''stdout_preview'', JString (truncate_string (xo_stdout r) 2048)), (ascii ''truncated'', JBool True)]"

text \<open>Why a session is refused, in the order of the checks.\<close>

definition exec_refusal :: "meta \<Rightarrow> bytes option" where
  "exec_refusal m =
     (let spec = launch_spec m
      in if \<not> (case status m of Running child \<Rightarrow> True | _ \<Rightarrow> False) then Some (ascii ''session is not running'')
         else if io_mode spec = IoPty \<and> exec_target spec \<noteq> PythonRepl then
           Some (ascii ''exec is not supported on PTY sessions (except python-repl)'')
         else if exec_target spec = DuckDb \<and> io_mode spec = IoPty then
           Some (ascii ''DuckDB exec requires pipe transport, not PTY'')
         else if stdin_mode spec \<noteq> StdinPipe then Some (ascii ''session was not started with --stdin'')
         else None)"

text \<open>After a timeout the lock is held until the command is over.\<close>

definition drain_command :: "'f exec_call \<Rightarrow> exec_target \<Rightarrow> drain_end option option" where
  "drain_command c target =
     (case target of
        PosixShell \<Rightarrow> map_option Some (drain_until_sentinel (xe_codec (xc_run c)) (xc_token c) (xc_drain_log c) (xc_drain_reads c))
      | DuckDb \<Rightarrow> map_option Some (drain_until_sentinel (xe_codec (xc_run c)) (xc_token c) (xc_drain_log c) (xc_drain_reads c))
      | PowerShell \<Rightarrow> map_option Some (drain_until_side_channel (xc_drain_side c))
      | PythonRepl \<Rightarrow> map_option Some (drain_until_side_channel (xc_drain_side c))
      | ExecNone \<Rightarrow> Some None)"

definition exec_annotation_of :: "'f exec_call \<Rightarrow> meta \<Rightarrow> event_draft option \<Rightarrow> exec_annotation" where
  "exec_annotation_of c m d =
     \<lparr>an_join = xe_join (xc_run c), an_sha = xc_sha c, an_run_id = xc_id c (run_uuid (run_id m)), an_block_id = xc_id c (xc_block c),
      an_event_id = Option.bind d (\<lambda>x. map_option (xc_id c) (xc_append c x)), an_token = xc_token c\<rparr>"

text \<open>Once the result is known: its event, the annotation, and the exit.\<close>

definition report_exec :: "'f exec_call \<Rightarrow> meta \<Rightarrow> exec_output \<Rightarrow> exec_effect list \<times> (bytes + int)" where
  "report_exec c m r =
     (let d = exec_draft c m (ascii ''exec.result'') (result_data r) (Some (result_preview r));
          logged = (case d of Some x \<Rightarrow> [AppendExec x] | None \<Rightarrow> [])
      in case write_exec_annotation (xe_codec (xc_run c)) (xc_annotate c) (exec_annotation_of c m d) (xc_cmd c) r of
           (Some err, out) \<Rightarrow> (logged @ map Annotated out @ [ExecUnlocked], Inl err)
         | (None, out) \<Rightarrow> (logged @ map Annotated out @ [ResultPrinted r, ExecUnlocked],
             Inr (if xo_timed_out r then 124 else xo_exit_code r)))"

definition locked_exec :: "'f exec_call \<Rightarrow> meta \<Rightarrow> (exec_effect list \<times> (bytes + int)) option" where
  "locked_exec c m =
     (if xc_cmd c = [] then Some ([ExecLocked, ExecUnlocked], Inl (ascii ''no command specified''))
      else let started = (case exec_draft c m (ascii ''exec.started'') (started_data c m) None of
                            Some d \<Rightarrow> [ExecLocked, AppendExec d] | None \<Rightarrow> [ExecLocked])
      in case run_exec (xc_run c) m (xc_cmd c) (xc_token c) (xc_timeout c) (xc_block c) of
           None \<Rightarrow> None
         | Some (r, sent) \<Rightarrow>
             let opening = started @ (case sent of Some f \<Rightarrow> [FrameSent f] | None \<Rightarrow> [])
             in (case r of
                   Inl err \<Rightarrow> Some (opening @ [ExecUnlocked], Inl err)
                 | Inr res \<Rightarrow>
                     if \<not> xo_timed_out res then
                       (case report_exec c m res of (effs, how) \<Rightarrow> Some (opening @ effs, how))
                     else (case drain_command c (exec_target (launch_spec m)) of
                             None \<Rightarrow> None
                           | Some over \<Rightarrow>
                               (case report_exec c m res of
                                  (effs, how) \<Rightarrow> Some (opening @ (case over of Some d \<Rightarrow> [CommandOver d] | None \<Rightarrow> []) @ effs, how)))))"

definition cmd_exec :: "'f exec_call \<Rightarrow> (exec_effect list \<times> (bytes + int)) option" where
  "cmd_exec c =
     (case name_result ''session name'' (new_session_name (xc_name c)) of
        Inl err \<Rightarrow> Some ([], Inl err)
      | Inr _ \<Rightarrow>
          (case (xc_root c, xc_open c) of
             (Some err, _) \<Rightarrow> Some ([], Inl err)
           | (None, Inl err) \<Rightarrow> Some ([], Inl err)
           | (None, Inr None) \<Rightarrow> Some ([], Inl (ascii ''session not found: '' @ xc_name c))
           | (None, Inr (Some _)) \<Rightarrow>
               (case xc_meta c of
                  Inl err \<Rightarrow> Some ([], Inl err)
                | Inr m \<Rightarrow>
                    (case exec_refusal m of
                       Some err \<Rightarrow> Some ([], Inl err)
                     | None \<Rightarrow>
                         (case xc_lock c of Some err \<Rightarrow> Some ([], Inl err) | None \<Rightarrow> locked_exec c m)))))"

text \<open>A request read from standard input; a bad one is a usage error.\<close>

definition cmd_exec_frame :: "(bytes \<Rightarrow> bytes + exec_request) \<Rightarrow> bytes \<Rightarrow> 'f exec_call \<Rightarrow> (exec_effect list \<times> (bytes + int)) option" where
  "cmd_exec_frame json bs c =
     (case request_from_json json bs of
        Inl e \<Rightarrow> Some ([], Inr 2)
      | Inr frame \<Rightarrow>
          (case (case er_namespace frame of None \<Rightarrow> Some default_namespace
                 | Some ns \<Rightarrow> (case new_namespace ns of Inr n \<Rightarrow> Some n | Inl e \<Rightarrow> None)) of
             None \<Rightarrow> Some ([], Inr 2)
           | Some ns \<Rightarrow> cmd_exec (c\<lparr>xc_name := er_session frame, xc_cmd := er_cmd frame, xc_timeout := er_timeout frame,
               xc_namespace := ns\<rparr>)))"

subsection \<open>The protocol of an exec\<close>














end
