(* ===== verification/Session_Store.thy ===== *)
theory Session_Store
  imports Ids_Text Run_State
begin

text \<open>
  The session directory (\<open>src/src/session.rs\<close>): opening, creating and listing sessions, the session
  lock, and the atomic replacement of the session record. The part of a file system that the
  replacement depends on is modelled with what a crash may leave behind: every version of a file or
  directory since it was last synchronised.
\<close>

subsection \<open>A file system that can crash\<close>

text \<open>
  Newest version first. A directory maps names to files; \<open>dk_data\<close> has the contents of each file.
\<close>

record disk =
  dk_dirs :: "(bytes \<rightharpoonup> nat) list"
  dk_data :: "nat \<Rightarrow> bytes list"
  dk_fresh :: nat

definition cur_dir :: "disk \<Rightarrow> bytes \<rightharpoonup> nat" where
  "cur_dir d = (case dk_dirs d of x # _ \<Rightarrow> x | [] \<Rightarrow> Map.empty)"

datatype fs_op = FsCreate bytes | FsWrite bytes bytes | FsSync bytes | FsRename bytes bytes | FsSyncDir

text \<open>Prefixes of a write, longest first, appended to what the file held.\<close>

definition write_versions :: "bytes list \<Rightarrow> bytes \<Rightarrow> bytes list" where
  "write_versions vs bs = (case vs of [] \<Rightarrow> [] | v # _ \<Rightarrow> rev (map (\<lambda>k. v @ take (Suc k) bs) [0..<length bs]) @ vs)"

definition update_file :: "bytes \<Rightarrow> (bytes list \<Rightarrow> bytes list) \<Rightarrow> disk \<Rightarrow> disk" where
  "update_file name f d = (case cur_dir d name of None \<Rightarrow> d | Some i \<Rightarrow> d\<lparr>dk_data := (dk_data d)(i := f (dk_data d i))\<rparr>)"

fun fs_step :: "fs_op \<Rightarrow> disk \<Rightarrow> disk" where
  "fs_step (FsCreate name) d =
     (case cur_dir d name of
        Some i \<Rightarrow> update_file name (\<lambda>vs. [] # vs) d
      | None \<Rightarrow> d\<lparr>dk_dirs := (cur_dir d)(name \<mapsto> dk_fresh d) # dk_dirs d,
                  dk_data := (dk_data d)(dk_fresh d := [[]]), dk_fresh := Suc (dk_fresh d)\<rparr>)"
| "fs_step (FsWrite name bs) d = update_file name (\<lambda>vs. write_versions vs bs) d"
| "fs_step (FsSync name) d = update_file name (take 1) d"
| "fs_step (FsRename a b) d =
     (case cur_dir d a of None \<Rightarrow> d | Some i \<Rightarrow> d\<lparr>dk_dirs := ((cur_dir d)(b \<mapsto> i))(a := None) # dk_dirs d\<rparr>)"
| "fs_step FsSyncDir d = d\<lparr>dk_dirs := take 1 (dk_dirs d)\<rparr>"

definition run_fs :: "fs_op list \<Rightarrow> disk \<Rightarrow> disk" where
  "run_fs ops d = fold fs_step ops d"

text \<open>What a file may hold after a crash, \<open>None\<close> if it may be missing; and what it holds now.\<close>

definition survivors :: "bytes \<Rightarrow> disk \<Rightarrow> bytes option list" where
  "survivors name d = concat (map (\<lambda>dir. case dir name of None \<Rightarrow> [None] | Some i \<Rightarrow> map Some (dk_data d i)) (dk_dirs d))"

definition read_now :: "bytes \<Rightarrow> disk \<Rightarrow> bytes option" where
  "read_now name d = (case cur_dir d name of None \<Rightarrow> None | Some i \<Rightarrow> (case dk_data d i of v # _ \<Rightarrow> Some v | [] \<Rightarrow> None))"

subsection \<open>Writing the record\<close>

definition meta_name :: bytes where "meta_name = ascii ''meta.json''"
definition meta_tmp_name :: bytes where "meta_tmp_name = ascii ''meta.json.tmp''"

text \<open>The step that fails, if one does; a write may fail after some bytes.\<close>

datatype write_failure = CreateFails | WriteFails nat | SyncFails | RenameFails | OpenDirFails | SyncDirFails

datatype session_error = AlreadyExists bytes | NotFound bytes | Corrupt bytes bytes | SessionLocked bytes
  | SessionIo bytes | SessionJson bytes

text \<open>The file operations that happened, and the result.\<close>

definition write_meta_atomic :: "(meta \<Rightarrow> bytes + bytes) \<Rightarrow> (write_failure \<times> bytes) option \<Rightarrow> meta
    \<Rightarrow> fs_op list \<times> (session_error + unit)" where
  "write_meta_atomic to_json failure m =
     (case to_json m of
        Inl e \<Rightarrow> ([], Inl (SessionJson e))
      | Inr json \<Rightarrow>
          let create = [FsCreate meta_tmp_name]; wrote = create @ [FsWrite meta_tmp_name json];
              synced = wrote @ [FsSync meta_tmp_name]; renamed = synced @ [FsRename meta_tmp_name meta_name]
          in (case failure of
                None \<Rightarrow> (renamed @ [FsSyncDir], Inr ())
              | Some (CreateFails, e) \<Rightarrow> ([], Inl (SessionIo e))
              | Some (WriteFails n, e) \<Rightarrow> (create @ [FsWrite meta_tmp_name (take n json)], Inl (SessionIo e))
              | Some (SyncFails, e) \<Rightarrow> (wrote, Inl (SessionIo e))
              | Some (RenameFails, e) \<Rightarrow> (synced, Inl (SessionIo e))
              | Some (OpenDirFails, e) \<Rightarrow> (renamed, Inl (SessionIo e))
              | Some (SyncDirFails, e) \<Rightarrow> (renamed, Inl (SessionIo e))))"

subsection \<open>Session directories\<close>

text \<open>
  What is at the path of a session: \<open>se_meta\<close> is the text of its record, \<open>se_lock\<close> whether the lock
  file is there, \<open>se_held\<close> whether another process holds it. The store maps namespace and session
  name to entries. An answer of the system that fails is an argument with its error text.
\<close>

record entry =
  se_is_dir :: bool
  se_meta :: "bytes option"
  se_lock :: bool
  se_held :: bool

type_synonym store = "((bytes \<times> bytes) \<times> entry) list"

definition entry_at :: "store \<Rightarrow> namespace \<Rightarrow> session_name \<Rightarrow> entry option" where
  "entry_at st ns name = map_of st (namespace_str ns, session_str name)"

definition create_session :: "bytes option \<Rightarrow> namespace \<Rightarrow> session_name \<Rightarrow> store \<Rightarrow> (session_error + unit) \<times> store" where
  "create_session io ns name st =
     (case io of
        Some e \<Rightarrow> (Inl (SessionIo e), st)
      | None \<Rightarrow>
          (case entry_at st ns name of
             Some _ \<Rightarrow> (Inl (AlreadyExists (session_str name)), st)
           | None \<Rightarrow> (Inr (), ((namespace_str ns, session_str name), \<lparr>se_is_dir = True, se_meta = None, se_lock = False, se_held = False\<rparr>) # st)))"

definition open_session :: "namespace \<Rightarrow> session_name \<Rightarrow> store \<Rightarrow> session_error + entry option" where
  "open_session ns name st =
     (case entry_at st ns name of
        None \<Rightarrow> Inr None
      | Some en \<Rightarrow>
          if \<not> se_is_dir en then Inl (Corrupt (session_str name) (ascii ''not a directory''))
          else if se_meta en = None then Inl (Corrupt (session_str name) (ascii ''meta.json not found''))
          else Inr (Some en))"

definition open_raw :: "namespace \<Rightarrow> session_name \<Rightarrow> store \<Rightarrow> session_error + entry" where
  "open_raw ns name st =
     (case entry_at st ns name of
        None \<Rightarrow> Inl (NotFound (session_str name))
      | Some en \<Rightarrow>
          if \<not> se_is_dir en then Inl (Corrupt (session_str name) (ascii ''not a directory'')) else Inr en)"

definition read_meta :: "(bytes \<Rightarrow> bytes + meta) \<Rightarrow> bytes option \<Rightarrow> session_name \<Rightarrow> entry \<Rightarrow> session_error + meta" where
  "read_meta from_json io name en =
     (case se_meta en of
        None \<Rightarrow> Inl (Corrupt (session_str name) (ascii ''meta.json not found''))
      | Some content \<Rightarrow>
          (case io of
             Some e \<Rightarrow> Inl (SessionIo e)
           | None \<Rightarrow>
               (case from_json content of
                  Inl e \<Rightarrow> Inl (Corrupt (session_str name) (ascii ''invalid meta.json: '' @ e))
                | Inr m \<Rightarrow> Inr m)))"

text \<open>Taking the lock creates its file. \<open>None\<close> of the answer is the lock itself deciding.\<close>

definition try_acquire :: "bytes option \<Rightarrow> session_name \<Rightarrow> entry \<Rightarrow> (session_error + unit) \<times> entry" where
  "try_acquire io name en =
     (case io of
        Some e \<Rightarrow> (Inl (SessionIo e), en)
      | None \<Rightarrow>
          let en' = en\<lparr>se_lock := True\<rparr>
          in if se_held en then (Inl (SessionLocked (session_str name)), en') else (Inr (), en'))"

definition is_locked :: "bytes option \<Rightarrow> session_name \<Rightarrow> entry \<Rightarrow> session_error + bool" where
  "is_locked io name en =
     (if \<not> se_lock en then Inr False
      else case fst (try_acquire io name en) of
        Inr _ \<Rightarrow> Inr False
      | Inl (SessionLocked _) \<Rightarrow> Inr True
      | Inl e \<Rightarrow> Inl e)"

text \<open>Polling for the release: each poll meets the session as it is then, and the clock after it.\<close>

fun wait_unlocked :: "session_name \<Rightarrow> nat \<Rightarrow> (bytes option \<times> entry \<times> nat) list \<Rightarrow> (session_error + bool) option" where
  "wait_unlocked name deadline [] = None"
| "wait_unlocked name deadline ((io, en, now) # ps) =
     (case is_locked io name en of
        Inl e \<Rightarrow> Some (Inl e)
      | Inr False \<Rightarrow> Some (Inr True)
      | Inr True \<Rightarrow> if deadline \<le> now then Some (Inr False) else wait_unlocked name deadline ps)"

subsection \<open>Listing\<close>

text \<open>
  A directory entry: whether it is a directory, and its name; an entry may fail to be read. Names
  that are not valid are not sessions.
\<close>

type_synonym dir_entries = "bytes + (bytes + bool \<times> bytes) list"

fun valid_entries :: "(bytes \<Rightarrow> 'a option) \<Rightarrow> (bytes + bool \<times> bytes) list \<Rightarrow> session_error + 'a list" where
  "valid_entries name_of [] = Inr []"
| "valid_entries name_of (Inl e # es) = Inl (SessionIo e)"
| "valid_entries name_of (Inr (is_dir, n) # es) =
     (case valid_entries name_of es of
        Inl e \<Rightarrow> Inl e
      | Inr ns \<Rightarrow>
          (case (if is_dir then Option.bind (component_str n) name_of else None) of
             Some x \<Rightarrow> Inr (x # ns)
           | None \<Rightarrow> Inr ns))"

definition read_names :: "(bytes \<Rightarrow> 'a option) \<Rightarrow> dir_entries \<Rightarrow> session_error + 'a list" where
  "read_names name_of r = (case r of Inl e \<Rightarrow> Inl (SessionIo e) | Inr es \<Rightarrow> valid_entries name_of es)"

definition namespace_of :: "bytes \<Rightarrow> namespace option" where
  "namespace_of n = (case new_namespace n of Inr x \<Rightarrow> Some x | Inl e \<Rightarrow> None)"

definition session_of :: "bytes \<Rightarrow> session_name option" where
  "session_of n = (case new_session_name n of Inr x \<Rightarrow> Some x | Inl e \<Rightarrow> None)"

text \<open>Byte order, as strings compare.\<close>

fun bytes_le :: "bytes \<Rightarrow> bytes \<Rightarrow> bool" where
  "bytes_le [] _ = True"
| "bytes_le (x # xs) [] = False"
| "bytes_le (x # xs) (y # ys) = (x < y \<or> x = y \<and> bytes_le xs ys)"

definition pair_le :: "namespace \<times> session_name \<Rightarrow> namespace \<times> session_name \<Rightarrow> bool" where
  "pair_le a b \<longleftrightarrow>
     (if fst a = fst b then bytes_le (session_str (snd a)) (session_str (snd b))
      else bytes_le (namespace_str (fst a)) (namespace_str (fst b)))"

fun insert_by :: "('a \<Rightarrow> 'a \<Rightarrow> bool) \<Rightarrow> 'a \<Rightarrow> 'a list \<Rightarrow> 'a list" where
  "insert_by le x [] = [x]"
| "insert_by le x (y # ys) = (if le x y then x # y # ys else y # insert_by le x ys)"

definition sort_by :: "('a \<Rightarrow> 'a \<Rightarrow> bool) \<Rightarrow> 'a list \<Rightarrow> 'a list" where
  "sort_by le xs = foldr (insert_by le) xs []"

fun list_namespaces :: "(namespace \<Rightarrow> dir_entries option) \<Rightarrow> namespace list \<Rightarrow> session_error + (namespace \<times> session_name) list" where
  "list_namespaces dirs [] = Inr []"
| "list_namespaces dirs (ns # nss) =
     (case dirs ns of
        None \<Rightarrow> list_namespaces dirs nss
      | Some r \<Rightarrow>
          (case read_names session_of r of
             Inl e \<Rightarrow> Inl e
           | Inr names \<Rightarrow>
               (case list_namespaces dirs nss of
                  Inl e \<Rightarrow> Inl e
                | Inr rest \<Rightarrow> Inr (map (Pair ns) names @ rest))))"

text \<open>\<open>root\<close> is \<open>None\<close> when the root does not exist, \<open>dirs\<close> likewise for a namespace.\<close>

definition list_sessions :: "dir_entries option \<Rightarrow> (namespace \<Rightarrow> dir_entries option) \<Rightarrow> namespace option
    \<Rightarrow> session_error + (namespace \<times> session_name) list" where
  "list_sessions root dirs only =
     (case root of
        None \<Rightarrow> Inr []
      | Some r \<Rightarrow>
          (case (case only of
                   Some ns \<Rightarrow> Inr [ns]
                 | None \<Rightarrow>
                     (case read_names namespace_of r of
                        Inl e \<Rightarrow> Inl e
                      | Inr nss \<Rightarrow> Inr (sort_by (\<lambda>a b. bytes_le (namespace_str a) (namespace_str b)) nss))) of
             Inl e \<Rightarrow> Inl e
           | Inr nss \<Rightarrow> map_sum id (sort_by pair_le) (list_namespaces dirs nss)))"

end
