(* ===== verification/Session_Laws.thy ===== *)
theory Session_Laws
  imports Session_Store
begin

text \<open>
  The session record survives a crash: whenever the machine stops during a replacement, the record
  is the old one or the new one, complete. And what listing and the lock answer.
\<close>

subsection \<open>Replacing the record\<close>

text \<open>\<open>old\<close> is what the record certainly holds; a leftover temporary file is another file.\<close>

definition holds_old :: "bytes option \<Rightarrow> disk \<Rightarrow> (bytes \<rightharpoonup> nat) \<Rightarrow> bool" where
  "holds_old old d dir \<longleftrightarrow>
     (case dir meta_name of
        None \<Rightarrow> old = None
      | Some i \<Rightarrow> i < dk_fresh d \<and> (\<exists>v. old = Some v \<and> dk_data d i = [v]) \<and> cur_dir d meta_tmp_name \<noteq> Some i)"

definition settled :: "bytes option \<Rightarrow> disk \<Rightarrow> bool" where
  "settled old d \<longleftrightarrow> length (dk_dirs d) = 1 \<and> holds_old old d (cur_dir d) \<and>
     (\<forall>i. cur_dir d meta_tmp_name = Some i \<longrightarrow> i < dk_fresh d)"

text \<open>While the temporary file is written: the record is untouched in every version.\<close>

definition staging :: "bytes option \<Rightarrow> bytes \<Rightarrow> disk \<Rightarrow> bool" where
  "staging old newest d \<longleftrightarrow> dk_dirs d \<noteq> [] \<and> (\<forall>dir\<in>set (dk_dirs d). holds_old old d dir) \<and>
     (\<exists>t vs. cur_dir d meta_tmp_name = Some t \<and> t < dk_fresh d \<and> dk_data d t = newest # vs)"

lemma names_differ [simp]: "meta_name \<noteq> meta_tmp_name" "meta_tmp_name \<noteq> meta_name"
  by (simp_all add: meta_name_def meta_tmp_name_def ascii_def)

lemma settled_create:
  assumes "settled old d"
  shows "staging old [] (fs_step (FsCreate meta_tmp_name) d)"
proof -
  obtain dir where d: "dk_dirs d = [dir]" using assms by (auto simp: settled_def length_Suc_conv)
  then have c: "cur_dir d = dir" by (simp add: cur_dir_def)
  show ?thesis
  proof (cases "dir meta_tmp_name")
    case None
    then show ?thesis using assms d c
      by (auto simp: staging_def settled_def holds_old_def cur_dir_def split: option.splits)
  next
    case (Some t)
    then show ?thesis using assms d c
      by (auto simp: staging_def settled_def holds_old_def cur_dir_def update_file_def split: option.splits)
  qed
qed

lemma write_versions_top: "\<exists>ws. write_versions (v # vs) bs = (v @ bs) # ws"
  by (cases bs rule: rev_cases) (auto simp: write_versions_def)

text \<open>Changing the temporary file changes nothing of the record.\<close>

lemma staging_update:
  assumes "staging old newest d" "\<And>vs. \<exists>ws. f (newest # vs) = newest' # ws"
  shows "staging old newest' (update_file meta_tmp_name f d)"
proof -
  obtain t vs where t: "cur_dir d meta_tmp_name = Some t" "t < dk_fresh d" "dk_data d t = newest # vs"
    using assms(1) by (auto simp: staging_def)
  moreover obtain ws where "f (newest # vs) = newest' # ws" using assms(2) by blast
  ultimately show ?thesis using assms(1)
    by (auto simp: staging_def update_file_def cur_dir_def holds_old_def split: option.splits list.splits)
qed

lemma staging_write: "staging old newest d \<Longrightarrow> staging old (newest @ bs) (fs_step (FsWrite meta_tmp_name bs) d)"
  using staging_update [of old newest d "\<lambda>vs. write_versions vs bs" "newest @ bs"] write_versions_top by simp

lemma staging_sync:
  assumes "staging old newest d"
  shows "staging old newest (fs_step (FsSync meta_tmp_name) d) \<and>
    (\<exists>t. cur_dir (fs_step (FsSync meta_tmp_name) d) meta_tmp_name = Some t \<and> dk_data (fs_step (FsSync meta_tmp_name) d) t = [newest])"
proof -
  obtain t vs where "cur_dir d meta_tmp_name = Some t" "dk_data d t = newest # vs" using assms by (auto simp: staging_def)
  then show ?thesis
    using staging_update [OF assms, of "take 1" newest] by (auto simp: update_file_def cur_dir_def)
qed

lemma staging_survivors:
  assumes "staging old newest d"
  shows "set (survivors meta_name d) = {old}" "read_now meta_name d = old"
proof -
  have each: "(case dir meta_name of None \<Rightarrow> [None] | Some i \<Rightarrow> map Some (dk_data d i)) = [old]" if "dir \<in> set (dk_dirs d)" for dir
  proof -
    have "holds_old old d dir" using assms that by (simp add: staging_def)
    then show ?thesis by (cases "dir meta_name") (auto simp: holds_old_def)
  qed
  have "dk_dirs d \<noteq> []" using assms by (simp add: staging_def)
  with each show "set (survivors meta_name d) = {old}"
    unfolding survivors_def by (cases "dk_dirs d") (auto simp: each)
  obtain dir ds where "dk_dirs d = dir # ds" using assms by (cases "dk_dirs d") (auto simp: staging_def)
  with each [of dir] show "read_now meta_name d = old"
    by (auto simp: read_now_def cur_dir_def split: option.splits list.splits)
qed

lemma settled_survivors:
  assumes "settled old d"
  shows "set (survivors meta_name d) = {old}" "read_now meta_name d = old"
proof -
  obtain dir where d: "dk_dirs d = [dir]" using assms by (auto simp: settled_def length_Suc_conv)
  then show "set (survivors meta_name d) = {old}" "read_now meta_name d = old" using assms
    by (auto simp: settled_def holds_old_def survivors_def read_now_def cur_dir_def split: option.splits list.splits)
qed

text \<open>Renaming the synchronised file.\<close>

lemma rename_survivors:
  assumes "staging old json d" "cur_dir d meta_tmp_name = Some t" "dk_data d t = [json]"
  defines "d' \<equiv> fs_step (FsRename meta_tmp_name meta_name) d"
  shows "set (survivors meta_name d') = {old, Some json}" "read_now meta_name d' = Some json"
    "settled (Some json) (fs_step FsSyncDir d')"
proof -
  have data: "dk_data d' = dk_data d" "dk_fresh d' = dk_fresh d"
    and dirs: "dk_dirs d' = ((cur_dir d)(meta_name \<mapsto> t))(meta_tmp_name := None) # dk_dirs d"
    using assms(2) by (simp_all add: d'_def)
  have "survivors meta_name d' = Some json # survivors meta_name d"
    using assms(3) by (simp add: survivors_def dirs data cong: option.case_cong)
  with staging_survivors [OF assms(1)] show "set (survivors meta_name d') = {old, Some json}" by auto
  show "read_now meta_name d' = Some json" using assms(3) by (simp add: read_now_def cur_dir_def dirs data)
  have "t < dk_fresh d" using assms(1,2) by (auto simp: staging_def)
  then show "settled (Some json) (fs_step FsSyncDir d')"
    using assms(3) by (simp add: settled_def holds_old_def cur_dir_def dirs data)
qed

text \<open>The disk at each point of the replacement.\<close>

lemma run_fs_snoc [simp]: "run_fs (ops @ [x]) d = fs_step x (run_fs ops d)" "run_fs [] d = d"
  by (simp_all add: run_fs_def)

definition staged_ops :: "bytes \<Rightarrow> fs_op list" where
  "staged_ops json = [FsCreate meta_tmp_name, FsWrite meta_tmp_name json, FsSync meta_tmp_name]"

lemma staged_disk:
  assumes "settled old d"
  shows "staging old [] (run_fs [FsCreate meta_tmp_name] d)"
    "staging old bs (run_fs [FsCreate meta_tmp_name, FsWrite meta_tmp_name bs] d)"
    "staging old bs (run_fs (staged_ops bs) d)"
    "\<exists>t. cur_dir (run_fs (staged_ops bs) d) meta_tmp_name = Some t \<and> dk_data (run_fs (staged_ops bs) d) t = [bs]"
  using settled_create [OF assms] staging_write [OF settled_create [OF assms], of bs]
    staging_sync [OF staging_write [OF settled_create [OF assms], of bs]]
  by (simp_all add: run_fs_def staged_ops_def del: fs_step.simps)

lemma prefixes_of_write:
  assumes "write_meta_atomic to_json failure m = (ops, res)" "to_json m = Inr json"
  shows "\<exists>bs. take k ops \<in> {[], [FsCreate meta_tmp_name], [FsCreate meta_tmp_name, FsWrite meta_tmp_name bs],
      staged_ops json, staged_ops json @ [FsRename meta_tmp_name meta_name], staged_ops json @ [FsRename meta_tmp_name meta_name] @ [FsSyncDir]}"
proof -
  have take_Cons: "take k (x # xs) = (case k of 0 \<Rightarrow> [] | Suc j \<Rightarrow> x # take j xs)" for k x and xs :: "fs_op list"
    by (cases k) simp_all
  show ?thesis using assms
    by (auto simp: write_meta_atomic_def staged_ops_def take_Cons Let_def split: option.splits prod.splits write_failure.splits nat.splits)
qed

lemma write_meta_prefix:
  assumes "settled old d" "write_meta_atomic to_json failure m = (ops, res)" "to_json m = Inr json"
  shows "set (survivors meta_name (run_fs (take k ops) d)) \<subseteq> {old, Some json}"
proof -
  obtain bs where p: "take k ops \<in> {[], [FsCreate meta_tmp_name], [FsCreate meta_tmp_name, FsWrite meta_tmp_name bs],
      staged_ops json, staged_ops json @ [FsRename meta_tmp_name meta_name], staged_ops json @ [FsRename meta_tmp_name meta_name] @ [FsSyncDir]}"
    using prefixes_of_write [OF assms(2,3)] by blast
  obtain t where t: "cur_dir (run_fs (staged_ops json) d) meta_tmp_name = Some t" "dk_data (run_fs (staged_ops json) d) t = [json]"
    using staged_disk(4) [OF assms(1)] by blast
  note renamed = rename_survivors [OF staged_disk(3) [OF assms(1)] t]
  from p consider "take k ops = []" | "take k ops = [FsCreate meta_tmp_name]"
    | "take k ops = [FsCreate meta_tmp_name, FsWrite meta_tmp_name bs]" | "take k ops = staged_ops json"
    | "take k ops = staged_ops json @ [FsRename meta_tmp_name meta_name]"
    | "take k ops = (staged_ops json @ [FsRename meta_tmp_name meta_name]) @ [FsSyncDir]" by auto
  then show ?thesis
  proof cases
    case 1
    show ?thesis unfolding 1 using settled_survivors(1) [OF assms(1)] by simp
  next
    case 2
    show ?thesis unfolding 2 using staging_survivors(1) [OF staged_disk(1) [OF assms(1)]] by simp
  next
    case 3
    show ?thesis unfolding 3 using staging_survivors(1) [OF staged_disk(2) [OF assms(1)]] by simp
  next
    case 4
    show ?thesis unfolding 4 using staging_survivors(1) [OF staged_disk(3) [OF assms(1)]] by simp
  next
    case 5
    show ?thesis unfolding 5 run_fs_snoc using renamed(1) by simp
  next
    case 6
    show ?thesis unfolding 6 run_fs_snoc using settled_survivors(1) [OF renamed(3)] by simp
  qed
qed

text \<open>C23: Replacing the session record is atomic and durable: whenever the machine crashes during the
  replacement, and whichever of its steps fails, the record is afterwards the whole old one or the
  whole new one; once the replacement has returned without error, a crash leaves the new one.\<close>

theorem meta_write_atomic:
  assumes "settled old d" "write_meta_atomic to_json failure m = (ops, res)" "to_json m = Inr json"
  shows "set (survivors meta_name (run_fs (take k ops) d)) \<subseteq> {old, Some json} \<and>
    (res = Inr () \<longrightarrow> settled (Some json) (run_fs ops d) \<and> set (survivors meta_name (run_fs ops d)) = {Some json})"
proof (intro conjI impI)
  show "set (survivors meta_name (run_fs (take k ops) d)) \<subseteq> {old, Some json}" using assms by (rule write_meta_prefix)
  assume "res = Inr ()"
  then have ops: "ops = (staged_ops json @ [FsRename meta_tmp_name meta_name]) @ [FsSyncDir]"
    using assms(2,3) by (auto simp: write_meta_atomic_def staged_ops_def Let_def split: option.splits prod.splits write_failure.splits)
  obtain t where t: "cur_dir (run_fs (staged_ops json) d) meta_tmp_name = Some t" "dk_data (run_fs (staged_ops json) d) t = [json]"
    using staged_disk(4) [OF assms(1)] by blast
  show "settled (Some json) (run_fs ops d)"
    unfolding ops run_fs_snoc by (rule rename_survivors(3) [OF staged_disk(3) [OF assms(1)] t])
  then show "set (survivors meta_name (run_fs ops d)) = {Some json}" by (rule settled_survivors)
qed

definition demo_disk :: disk where
  "demo_disk = \<lparr>dk_dirs = [[meta_name \<mapsto> 0]], dk_data = (\<lambda>_. [[0x6f]]), dk_fresh = 1\<rparr>"

lemma demo_disk_settled: "settled (Some [0x6f]) demo_disk"
  by (simp add: settled_def holds_old_def demo_disk_def cur_dir_def)

theorem meta_write_atomic_witness:
  "set (survivors meta_name (run_fs (take 4 (fst (write_meta_atomic (\<lambda>_. Inr [0x6e]) None (undefined :: meta)))) demo_disk)) \<subseteq>
     {Some [0x6f], Some [0x6e]} \<and>
   set (survivors meta_name (run_fs (fst (write_meta_atomic (\<lambda>_. Inr [0x6e]) None (undefined :: meta))) demo_disk)) = {Some [0x6e]}"
proof -
  have w: "write_meta_atomic (\<lambda>_. Inr [0x6e]) None (undefined :: meta) =
      (fst (write_meta_atomic (\<lambda>_. Inr [0x6e]) None (undefined :: meta)), Inr ())"
    by (simp add: write_meta_atomic_def Let_def)
  from meta_write_atomic [OF demo_disk_settled w, of "[0x6e]"] show ?thesis by simp
qed

end
