(* ===== verification/Std_Hex.thy ===== *)
theory Std_Hex
  imports Prelude Std_Text
begin

text \<open>Two-digit lower-case hexadecimal, as \<open>{:02x}\<close> prints a byte.\<close>

definition hex_digit :: "nat \<Rightarrow> u8" where
  "hex_digit n = of_nat (if n < 10 then 48 + n else 87 + n)"

definition hex_byte :: "u8 \<Rightarrow> bytes" where
  "hex_byte b = [hex_digit (unat b div 16), hex_digit (unat b mod 16)]"

text \<open>\<open>u8::is_ascii_hexdigit\<close>.\<close>

definition is_hexdigit :: "u8 \<Rightarrow> bool" where
  "is_hexdigit b \<longleftrightarrow> is_digit b \<or> 65 \<le> b \<and> b \<le> 70 \<or> 97 \<le> b \<and> b \<le> 102"

lemma nibbles: "unat (b :: u8) div 16 < 16" "unat b mod 16 < 16"
proof -
  have "unat b < 2 ^ 8" using unsigned_less [where 'b = 8, of b] by simp
  then show "unat b div 16 < 16" "unat b mod 16 < 16" by simp_all
qed

lemma hex_digit_is_hexdigit: "n < 16 \<Longrightarrow> is_hexdigit (hex_digit n)"
proof -
  assume "n < 16"
  then have "n \<in> set [0..<16]" by simp
  moreover have "list_all (\<lambda>n. is_hexdigit (hex_digit n)) [0..<16]" by code_simp
  ultimately show ?thesis by (simp add: list_all_iff)
qed

lemma hex_byte_ok [simp]: "length (hex_byte b) = 2" "list_all is_hexdigit (hex_byte b)"
  using nibbles [of b] by (simp_all add: hex_byte_def hex_digit_is_hexdigit)

lemma hexdigit_not_special: "is_hexdigit b \<Longrightarrow> b \<noteq> 47 \<and> b \<noteq> 46 \<and> b < 128"
  by (auto simp: is_hexdigit_def is_digit_def word_le_nat_alt word_less_nat_alt)

end
