(* ===== verification/Recording_Dump.thy ===== *)
theory Recording_Dump
  imports Recording Std_Hex
begin

text \<open>
  The plain-text dump of a decoded recording (\<open>src/src/recording/dump.rs\<close>): escaped bytes, the scanner
  that finds terminal queries and mode changes in the output stream, and the dump itself.

  The scanner is polymorphic in the tag of a byte: the code tags it with the sequence number of its
  record. \<open>None\<close> is a panic of the code (a slice out of range, an \<open>expect\<close>).
\<close>

subsection \<open>Rendering\<close>

definition millis :: "u64 \<Rightarrow> bytes" where
  "millis ns =
     (let frac = show_nat (unat ns mod 1000000 div 1000)
      in show_nat (unat ns div 1000000) @ ascii ''.'' @ replicate (3 - length frac) 48 @ frac)"

definition escaped_byte :: "u8 \<Rightarrow> bytes" where
  "escaped_byte b =
     (if b = 92 then [92, 92]
      else if b = 34 then [92, 34]
      else if b = 10 then [92, 110]
      else if b = 13 then [92, 114]
      else if b = 9 then [92, 116]
      else if 32 \<le> b \<and> b \<le> 126 then [b]
      else [92, 120] @ hex_byte b)"

definition escaped :: "bytes \<Rightarrow> bytes" where
  "escaped bs = concat (map escaped_byte bs)"

subsection \<open>Markers\<close>

datatype marker = Da1Query | Da2Query | CursorPositionQuery | StatusQuery | ModeQuery
  | KittyKeyboardQuery | KittyKeyboardPush | KittyKeyboardPop | KittyKeyboardSet
  | ForegroundColourQuery | BackgroundColourQuery | XtversionQuery | KittyGraphicsQuery
  | AltScreen bool | BracketedPaste bool | ModifyOtherKeys "nat option" | ModifyOtherKeysReset
  | ModifyOtherKeysOff

fun marker_label :: "marker \<Rightarrow> bytes" where
  "marker_label Da1Query = ascii ''query:da1''"
| "marker_label Da2Query = ascii ''query:da2''"
| "marker_label CursorPositionQuery = ascii ''query:dsr-cpr''"
| "marker_label StatusQuery = ascii ''query:dsr-status''"
| "marker_label ModeQuery = ascii ''query:decrqm''"
| "marker_label KittyKeyboardQuery = ascii ''query:kitty-keyboard''"
| "marker_label KittyKeyboardPush = ascii ''mode:kitty-keyboard-push''"
| "marker_label KittyKeyboardPop = ascii ''mode:kitty-keyboard-pop''"
| "marker_label KittyKeyboardSet = ascii ''mode:kitty-keyboard-set''"
| "marker_label ForegroundColourQuery = ascii ''query:osc10''"
| "marker_label BackgroundColourQuery = ascii ''query:osc11''"
| "marker_label XtversionQuery = ascii ''query:xtversion''"
| "marker_label KittyGraphicsQuery = ascii ''query:kitty-graphics''"
| "marker_label (AltScreen on) = (if on then ascii ''mode:alt-screen-on'' else ascii ''mode:alt-screen-off'')"
| "marker_label (BracketedPaste on) =
     (if on then ascii ''mode:bracketed-paste-on'' else ascii ''mode:bracketed-paste-off'')"
| "marker_label (ModifyOtherKeys level) =
     (case level of
        Some n \<Rightarrow> if n \<le> 3 then ascii ''mode:modify-other-keys='' @ show_nat n else ascii ''mode:modify-other-keys''
      | None \<Rightarrow> ascii ''mode:modify-other-keys'')"
| "marker_label ModifyOtherKeysReset = ascii ''mode:modify-other-keys=reset''"
| "marker_label ModifyOtherKeysOff = ascii ''mode:modify-other-keys=off''"

definition is_number :: "bytes \<Rightarrow> bool" where
  "is_number bs \<longleftrightarrow> list_all is_digit bs"

definition intermediate :: "u8 \<Rightarrow> bool" where
  "intermediate b \<longleftrightarrow> 32 \<le> b \<and> b \<le> 47"

text \<open>The last match, on the final byte and the parameters of a sequence without intermediate bytes.\<close>

definition final_markers :: "u8 \<Rightarrow> bytes \<Rightarrow> marker list" where
  "final_markers f ps =
     (if f = 99 then (if ps \<in> {ascii '''', ascii ''0''} then [Da1Query]
                      else if ps \<in> {ascii ''>'', ascii ''>0''} then [Da2Query] else [])
      else if f = 110 then (if ps = ascii ''6'' then [CursorPositionQuery]
                            else if ps = ascii ''5'' then [StatusQuery]
                            else if ps = ascii ''>4'' then [ModifyOtherKeysOff] else [])
      else if f = 109 then
        (if ps \<in> {ascii ''>'', ascii ''>4'', ascii ''>4;''} then [ModifyOtherKeysReset]
         else case strip_prefix (ascii ''>4;'') ps of
           Some level \<Rightarrow>
             if is_number level then
               [ModifyOtherKeys (Option.bind (parse_uint 255 level) (\<lambda>l. if l \<le> 3 then Some l else None))]
             else []
         | None \<Rightarrow> [])
      else if f = 117 then
        (case ps of
           [] \<Rightarrow> []
         | c # rest \<Rightarrow>
             if ps = ascii ''?'' then [KittyKeyboardQuery]
             else if c = 62 \<and> is_number rest then [KittyKeyboardPush]
             else if c = 60 \<and> is_number rest then [KittyKeyboardPop]
             else if c = 61 \<and> rest \<noteq> [] \<and> list_all is_number (split_on 59 rest) then [KittyKeyboardSet]
             else [])
      else if f = 113 then (if ps \<in> {ascii ''>'', ascii ''>0''} then [XtversionQuery] else [])
      else if f = 104 \<or> f = 108 then
        (case ps of
           [] \<Rightarrow> []
         | c # modes \<Rightarrow>
             if c = 63 then
               concat (map (\<lambda>mode. if mode = ascii ''1049'' then [AltScreen (f = 104)]
                                   else if mode = ascii ''2004'' then [BracketedPaste (f = 104)] else [])
                 (split_on 59 modes))
             else [])
      else [])"

definition csi_markers :: "bytes \<Rightarrow> marker list" where
  "csi_markers body =
     (if body = [] then []
      else
        let f = last body; rest = butlast body;
            ps = takeWhile (\<lambda>b. \<not> intermediate b) rest; ints = dropWhile (\<lambda>b. \<not> intermediate b) rest
        in if \<not> list_all intermediate ints then []
           else if f = 112 \<and> ints = ascii ''$'' then
             (let mode = (case strip_prefix (ascii ''?'') ps of Some m \<Rightarrow> m | None \<Rightarrow> ps)
              in if mode \<noteq> [] \<and> is_number mode then [ModeQuery] else [])
           else if ints \<noteq> [] then []
           else final_markers f ps)"

definition apc_markers :: "bytes \<Rightarrow> marker list" where
  "apc_markers payload =
     (case strip_prefix (ascii ''G'') payload of
        None \<Rightarrow> []
      | Some command \<Rightarrow>
          let control = hd (split_on 59 command)
          in if ascii ''a=q'' \<in> set (split_on 44 control) then [KittyGraphicsQuery] else [])"

definition osc_markers :: "bytes \<Rightarrow> marker list" where
  "osc_markers payload =
     (case split_on 59 payload of
        [] \<Rightarrow> []
      | ps # fs \<Rightarrow>
          if ps \<noteq> [] \<and> length ps \<le> 3 \<and> is_number ps then
            concat (map (\<lambda>(colour, field).
                if field \<noteq> ascii ''?'' then []
                else if colour = 10 then [ForegroundColourQuery]
                else if colour = 11 then [BackgroundColourQuery] else [])
              (zip [digits_val ps..<digits_val ps + length fs] fs))
          else [])"

subsection \<open>The scanner\<close>

datatype str_kind = Osc | Apc

datatype 'q scan_state = ScanGround | ScanEscape | ScanCsi | ScanStr str_kind | ScanStrEscape str_kind 'q

record 'q scanner =
  sc_state :: "'q scan_state"
  sc_start :: "'q option"
  sc_bytes :: bytes
  sc_overflow :: bool

definition max_scanned :: nat where "max_scanned = 256"

definition scan_reset :: "'q scanner" where
  "scan_reset = \<lparr>sc_state = ScanGround, sc_start = None, sc_bytes = [], sc_overflow = False\<rparr>"

definition scan_begin :: "'q \<Rightarrow> 'q scanner" where
  "scan_begin q = \<lparr>sc_state = ScanEscape, sc_start = Some q, sc_bytes = [0x1b], sc_overflow = False\<rparr>"

definition scan_push :: "u8 \<Rightarrow> 'q scanner \<Rightarrow> 'q scanner" where
  "scan_push b s = (if length (sc_bytes s) < max_scanned then s\<lparr>sc_bytes := sc_bytes s @ [b]\<rparr> else s\<lparr>sc_overflow := True\<rparr>)"

record 'q finding =
  fd_marker :: marker
  fd_start :: 'q
  fd_bytes :: bytes

definition scan_found :: "'q scanner \<Rightarrow> marker list \<Rightarrow> 'q finding list option" where
  "scan_found s ms =
     (case sc_start s of
        Some q \<Rightarrow> Some (map (\<lambda>m. \<lparr>fd_marker = m, fd_start = q, fd_bytes = sc_bytes s\<rparr>) ms)
      | None \<Rightarrow> if ms = [] then Some [] else None)"

definition str_end :: "str_kind \<Rightarrow> nat \<Rightarrow> 'q scanner \<Rightarrow> ('q scanner \<times> 'q finding list) option" where
  "str_end kind terminator s =
     (if sc_overflow s then Some (scan_reset, [])
      else if length (sc_bytes s) < terminator then None
      else do {
        payload \<leftarrow> subslice 2 (length (sc_bytes s) - terminator) (sc_bytes s);
        fs \<leftarrow> scan_found s (case kind of Osc \<Rightarrow> osc_markers payload | Apc \<Rightarrow> apc_markers payload);
        Some (scan_reset, fs) })"

definition escape_step :: "'q \<Rightarrow> u8 \<Rightarrow> 'q scanner \<Rightarrow> 'q scanner" where
  "escape_step q b s =
     (if b = 91 then (scan_push b s)\<lparr>sc_state := ScanCsi\<rparr>
      else if b = 93 then (scan_push b s)\<lparr>sc_state := ScanStr Osc\<rparr>
      else if b = 95 then (scan_push b s)\<lparr>sc_state := ScanStr Apc\<rparr>
      else if b = 0x1b then scan_begin q
      else if b \<le> 0x17 \<or> b = 0x19 \<or> 0x1c \<le> b \<and> b \<le> 0x1f then s
      else scan_reset)"

definition csi_step :: "'q \<Rightarrow> u8 \<Rightarrow> 'q scanner \<Rightarrow> ('q scanner \<times> 'q finding list) option" where
  "csi_step q b s =
     (if b = 0x1b then Some (scan_begin q, [])
      else if b = 0x18 \<or> b = 0x1a then Some (scan_reset, [])
      else if b \<le> 0x1f \<or> b = 0x7f then Some (s, [])
      else if b \<le> 0x3f then Some (scan_push b s, [])
      else if b \<le> 0x7e then
        (let s' = scan_push b s
         in if sc_overflow s' then Some (scan_reset, [])
            else do {
              body \<leftarrow> subslice 2 (length (sc_bytes s')) (sc_bytes s');
              fs \<leftarrow> scan_found s' (csi_markers body);
              Some (scan_reset, fs) })
      else Some (scan_reset, []))"

definition scan_byte :: "'q \<Rightarrow> u8 \<Rightarrow> 'q scanner \<Rightarrow> ('q scanner \<times> 'q finding list) option" where
  "scan_byte q b s =
     (case sc_state s of
        ScanGround \<Rightarrow> Some (if b = 0x1b then scan_begin q else s, [])
      | ScanEscape \<Rightarrow> Some (escape_step q b s, [])
      | ScanCsi \<Rightarrow> csi_step q b s
      | ScanStr kind \<Rightarrow>
          if b = 7 then str_end kind 1 (scan_push b s)
          else if b = 0x1b then Some ((scan_push b s)\<lparr>sc_state := ScanStrEscape kind q\<rparr>, [])
          else if b = 0x18 \<or> b = 0x1a then Some (scan_reset, [])
          else Some (scan_push b s, [])
      | ScanStrEscape kind escape_at \<Rightarrow>
          if b = 92 then str_end kind 2 (scan_push b s)
          else Some (escape_step q b (scan_begin escape_at), []))"

fun scan_feed :: "'q \<Rightarrow> bytes \<Rightarrow> 'q scanner \<Rightarrow> ('q scanner \<times> 'q finding list) option" where
  "scan_feed q [] s = Some (s, [])"
| "scan_feed q (b # bs) s = do {
     (s', found) \<leftarrow> scan_byte q b s;
     (s'', more) \<leftarrow> scan_feed q bs s';
     Some (s'', found @ more) }"

definition scan_unfinished :: "'q scanner \<Rightarrow> ('q \<times> bytes) option" where
  "scan_unfinished s = (case sc_state s of ScanGround \<Rightarrow> None | _ \<Rightarrow> map_option (\<lambda>q. (q, sc_bytes s)) (sc_start s))"

subsection \<open>The dump\<close>

definition quoted :: "bytes \<Rightarrow> bytes" where
  "quoted bs = [34] @ escaped bs @ [34]"

definition geometry_text :: "geometry \<Rightarrow> bytes" where
  "geometry_text g = ascii ''rows='' @ show_nat (unat (geo_rows g)) @ ascii '' cols='' @ show_nat (unat (geo_cols g))"

definition seq_text :: "sequence \<Rightarrow> bytes" where
  "seq_text q = show_nat (unat (seq_get q))"

definition kind_text :: "record_kind \<Rightarrow> bytes" where
  "kind_text k =
     (case k of
        Output bs \<Rightarrow> ascii ''output len='' @ show_nat (length bs) @ ascii '' '' @ quoted bs
      | Input bs \<Rightarrow> ascii ''input len='' @ show_nat (length bs) @ ascii '' '' @ quoted bs
      | Resize g cause \<Rightarrow>
          ascii ''resize '' @ geometry_text g @ ascii '' '' @
          (case cause of
             CauseUser \<Rightarrow> ascii ''user''
           | CauseRepaint c \<Rightarrow> ascii ''repaint correlation='' @ show_nat (unat c)))"

definition finding_line :: "sequence \<Rightarrow> sequence finding \<Rightarrow> bytes" where
  "finding_line q f =
     ascii ''  ^ '' @ marker_label (fd_marker f) @ ascii '' '' @ quoted (fd_bytes f) @
     (if fd_start f \<noteq> q then ascii '' from #'' @ seq_text (fd_start f) else []) @ [10]"

definition record_lines :: "rec \<Rightarrow> sequence finding list \<Rightarrow> bytes" where
  "record_lines r found =
     ascii ''#'' @ seq_text (rec_sequence r) @ ascii '' '' @ millis (rec_elapsed r) @ ascii ''ms '' @
     kind_text (rec_kind r) @ [10] @ concat (map (finding_line (rec_sequence r)) found)"

fun dump_records :: "rec list \<Rightarrow> sequence scanner \<Rightarrow> (bytes \<times> sequence scanner) option" where
  "dump_records [] s = Some ([], s)"
| "dump_records (r # rs) s = do {
     (s', found) \<leftarrow> (case rec_kind r of Output bs \<Rightarrow> scan_feed (rec_sequence r) bs s | _ \<Rightarrow> Some (s, []));
     (rest, s'') \<leftarrow> dump_records rs s';
     Some (record_lines r found @ rest, s'') }"

definition dump_header :: "(run_id \<Rightarrow> bytes) \<Rightarrow> decoded_recording \<Rightarrow> bytes" where
  "dump_header show_run d =
     (let h = dec_header d
      in ascii ''format '' @ show_nat (unat format_version) @ [10] @
         ascii ''run '' @ show_run (hdr_run_id h) @ [10] @
         ascii ''segments '' @ show_nat (unat (dec_segment_count d)) @ ascii '' (first index '' @
           show_nat (unat (hdr_index h)) @ ascii '', first sequence '' @ seq_text (hdr_first h) @ ascii '')'' @ [10] @
         ascii ''origin_unix_ns '' @ show_nat (unat (hdr_origin h)) @ [10] @
         ascii ''geometry '' @ geometry_text (hdr_geometry h) @ [10] @
         ascii ''term '' @ term_bytes (hdr_term h) @ [10] @
         ascii ''input '' @ (if hdr_input h then ascii ''recorded'' else ascii ''not recorded'') @ [10])"

definition dump_footer :: "decoded_recording \<Rightarrow> sequence scanner \<Rightarrow> bytes" where
  "dump_footer d s =
     (case scan_unfinished s of
        Some (start, bs) \<Rightarrow>
          ascii ''unfinished escape sequence from #'' @ seq_text start @ ascii '': '' @ quoted bs @
          (if sc_overflow s then ascii ''...'' else []) @ [10]
      | None \<Rightarrow> []) @
     (case dec_end d of
        Clean \<Rightarrow> ascii ''end clean'' @ [10]
      | Truncated off \<Rightarrow>
          ascii ''end truncated at segment '' @
          show_nat (unat (hdr_index (dec_header d)) + (unat (dec_segment_count d) - 1)) @
          ascii '' offset '' @ show_nat off @ ascii '' (incomplete final record excluded)'' @ [10])"

definition dump :: "(run_id \<Rightarrow> bytes) \<Rightarrow> decoded_recording \<Rightarrow> bytes option" where
  "dump show_run d = do {
     (body, s) \<leftarrow> dump_records (dec_records d) scan_reset;
     Some (dump_header show_run d @ body @ dump_footer d s) }"

end
