(* ===== verification/Dump_Laws.thy ===== *)
theory Dump_Laws
  imports Recording_Dump "HOL-Library.Sublist"
begin

text \<open>
  What a dump promises: bytes are printed so that they can be read back, and the flagged sequences
  are those of the child's one output stream, however it was cut into records.
\<close>

subsection \<open>Escaped bytes\<close>

definition hex_val :: "u8 \<Rightarrow> nat" where
  "hex_val c = (if is_digit c then unat c - 48 else unat c - 87)"

text \<open>Reading a quoted text up to its closing quote; the rest of the line follows.\<close>

fun read_quoted :: "bytes \<Rightarrow> (bytes \<times> bytes) option" where
  "read_quoted (c # cs) =
     (if c = 34 then Some ([], cs)
      else if c \<noteq> 92 then map_option (map_prod ((#) c) id) (read_quoted cs)
      else (case cs of
              e # rest \<Rightarrow>
                if e \<noteq> 120 then
                  map_option (map_prod ((#) (if e = 110 then 10 else if e = 114 then 13 else if e = 116 then 9 else e)) id) (read_quoted rest)
                else (case rest of
                        h # l # rest' \<Rightarrow> map_option (map_prod ((#) (of_nat (16 * hex_val h + hex_val l))) id) (read_quoted rest')
                      | _ \<Rightarrow> None)
            | [] \<Rightarrow> None))"
| "read_quoted [] = None"

definition printable_ascii :: "u8 \<Rightarrow> bool" where
  "printable_ascii b \<longleftrightarrow> 32 \<le> b \<and> b \<le> 126"

lemma u8_of_nat_unat: "n < 256 \<Longrightarrow> unat (of_nat n :: u8) = n"
  by (simp add: unat_of_nat take_bit_nat_eq_self)

lemma hex_val_digit: "n < 16 \<Longrightarrow> hex_val (hex_digit n) = n"
proof -
  assume "n < 16"
  then have "n \<in> set [0..<16]" by simp
  moreover have "list_all (\<lambda>n. hex_val (hex_digit n) = n) [0..<16]" by code_simp
  ultimately show ?thesis by (simp add: list_all_iff)
qed

lemma hex_digit_printable: "n < 16 \<Longrightarrow> printable_ascii (hex_digit n)"
proof -
  assume "n < 16"
  then have "n \<in> set [0..<16]" by simp
  moreover have "list_all (\<lambda>n. printable_ascii (hex_digit n)) [0..<16]" by code_simp
  ultimately show ?thesis by (simp add: list_all_iff)
qed

lemma byte_of_hex: "(of_nat (16 * (unat b div 16) + unat b mod 16) :: u8) = b"
  by simp

lemma read_quoted_byte: "read_quoted (escaped_byte b @ rest) = map_option (map_prod ((#) b) id) (read_quoted rest)"
proof -
  note h = nibbles [of b]
  consider "b = 92" | "b = 34" | "b = 10" | "b = 13" | "b = 9" | "b \<notin> {92, 34, 10, 13, 9}" "32 \<le> b \<and> b \<le> 126"
    | "b \<notin> {92, 34, 10, 13, 9}" "\<not> (32 \<le> b \<and> b \<le> 126)" by auto
  then show ?thesis
  proof cases
    case 7
    then have "read_quoted (escaped_byte b @ rest) =
        map_option (map_prod ((#) (of_nat (16 * (unat b div 16) + unat b mod 16))) id) (read_quoted rest)"
      using hex_val_digit [OF h(1)] hex_val_digit [OF h(2)] by (simp add: escaped_byte_def hex_byte_def del: of_nat_add of_nat_mult)
    then show ?thesis unfolding byte_of_hex .
  qed (simp_all add: escaped_byte_def)
qed

lemma escaped_byte_printable: "list_all printable_ascii (escaped_byte b)"
proof -
  have "printable_ascii (hex_digit (unat b div 16))" "printable_ascii (hex_digit (unat b mod 16))"
    using nibbles [of b] by (blast intro: hex_digit_printable)+
  then show ?thesis by (simp add: escaped_byte_def hex_byte_def printable_ascii_def)
qed

text \<open>Every byte string is dumped as printable ASCII, and reads back from its quotes, so the dump of an
  output, input or flagged sequence determines its bytes.\<close>

theorem quoted_reads_back:
  "list_all printable_ascii (quoted bs) \<and>
   (\<forall>rest. read_quoted (escaped bs @ 34 # rest) = Some (bs, rest)) \<and>
   (escaped bs = escaped bs' \<longrightarrow> bs = bs')"
proof -
  have reads: "read_quoted (escaped bs @ 34 # rest) = Some (bs, rest)" for bs rest
    by (induction bs) (simp_all add: escaped_def read_quoted_byte)
  have "list_all printable_ascii (escaped bs)"
    by (induction bs) (simp_all add: escaped_def escaped_byte_printable)
  then have printed: "list_all printable_ascii (quoted bs)" by (simp add: quoted_def printable_ascii_def)
  show ?thesis
  proof (intro conjI allI impI printed reads)
    assume "escaped bs = escaped bs'"
    then have "read_quoted (escaped bs @ 34 # []) = read_quoted (escaped bs' @ 34 # [])" by (simp only:)
    then show "bs = bs'" unfolding reads by simp
  qed
qed

subsection \<open>What the scanner keeps\<close>

definition scan_inv :: "'q scanner \<Rightarrow> bool" where
  "scan_inv s \<longleftrightarrow> length (sc_bytes s) \<le> max_scanned \<and>
     (case sc_state s of
        ScanGround \<Rightarrow> s = scan_reset
      | ScanEscape \<Rightarrow> \<exists>q. s = scan_begin q
      | ScanCsi \<Rightarrow> sc_start s \<noteq> None \<and> (\<exists>rest. sc_bytes s = 0x1b # 0x5b # rest)
      | ScanStr k \<Rightarrow> sc_start s \<noteq> None \<and> (\<exists>rest. sc_bytes s = 0x1b # (case k of Osc \<Rightarrow> 0x5d | Apc \<Rightarrow> 0x5f) # rest)
      | ScanStrEscape k q \<Rightarrow> sc_start s \<noteq> None \<and>
          (\<exists>rest. sc_bytes s = 0x1b # (case k of Osc \<Rightarrow> 0x5d | Apc \<Rightarrow> 0x5f) # rest \<and>
             (sc_overflow s \<or> (\<exists>front. rest = front @ [0x1b]))))"

lemma scan_inv_simps [simp]: "scan_inv scan_reset" "scan_inv (scan_begin q)"
  by (simp_all add: scan_inv_def scan_reset_def scan_begin_def max_scanned_def)

lemma scan_push_fields [simp]:
  "sc_state (scan_push b s) = sc_state s" "sc_start (scan_push b s) = sc_start s"
  "sc_overflow (scan_push b s) \<longleftrightarrow> sc_overflow s \<or> \<not> length (sc_bytes s) < max_scanned"
  "sc_bytes (scan_push b s) = (if length (sc_bytes s) < max_scanned then sc_bytes s @ [b] else sc_bytes s)"
  by (simp_all add: scan_push_def)

lemma scan_inv_opened [simp]:
  "scan_inv ((scan_push 91 (scan_begin q))\<lparr>sc_state := ScanCsi\<rparr>)"
  "scan_inv ((scan_push 93 (scan_begin q))\<lparr>sc_state := ScanStr Osc\<rparr>)"
  "scan_inv ((scan_push 95 (scan_begin q))\<lparr>sc_state := ScanStr Apc\<rparr>)"
  by (simp_all add: scan_inv_def, simp_all add: scan_begin_def max_scanned_def)

lemma escape_step_inv: "scan_inv (escape_step q b (scan_begin q'))"
  by (simp add: escape_step_def)

lemma str_end_total:
  assumes "sc_start s \<noteq> None" "sc_overflow s \<or> 2 + t \<le> length (sc_bytes s)"
  shows "\<exists>fs. str_end k t s = Some (scan_reset, fs)"
proof -
  obtain q where "sc_start s = Some q" using assms(1) by blast
  with assms(2) show ?thesis by (cases "sc_overflow s") (simp_all add: str_end_def scan_found_def)
qed

lemma csi_step_total:
  assumes "scan_inv s" "sc_state s = ScanCsi"
  shows "\<exists>s' fs. csi_step q b s = Some (s', fs) \<and> scan_inv s'"
proof -
  have pushed: "scan_inv (scan_push b s)" using assms by (auto simp: scan_inv_def)
  obtain p rest where "sc_start s = Some p" "sc_bytes s = 0x1b # 0x5b # rest" using assms by (auto simp: scan_inv_def)
  with pushed assms(1) show ?thesis by (simp add: csi_step_def scan_found_def Let_def)
qed

lemma scan_byte_total:
  assumes "scan_inv s"
  shows "\<exists>s' fs. scan_byte q b s = Some (s', fs) \<and> scan_inv s'"
proof (cases "sc_state s")
  case ScanGround
  with assms show ?thesis by (simp add: scan_byte_def)
next
  case ScanEscape
  then obtain q' where "s = scan_begin q'" using assms by (auto simp: scan_inv_def)
  then show ?thesis using escape_step_inv by (simp add: scan_byte_def scan_begin_def)
next
  case ScanCsi
  then show ?thesis using csi_step_total [OF assms] by (simp add: scan_byte_def)
next
  case (ScanStr k)
  have ended: "\<exists>fs. str_end k 1 (scan_push b s) = Some (scan_reset, fs)"
    using assms ScanStr by (intro str_end_total) (auto simp: scan_inv_def)
  have "scan_inv (scan_push b s)" "scan_inv ((scan_push 0x1b s)\<lparr>sc_state := ScanStrEscape k q\<rparr>)"
    using assms ScanStr by (auto simp: scan_inv_def)
  then show ?thesis using ended by (auto simp: scan_byte_def ScanStr)
next
  case (ScanStrEscape k q')
  have "\<exists>fs. str_end k 2 (scan_push b s) = Some (scan_reset, fs)"
    using assms ScanStrEscape by (intro str_end_total) (auto simp: scan_inv_def)
  then show ?thesis using escape_step_inv by (auto simp: scan_byte_def ScanStrEscape)
qed

subsection \<open>Changing the tags\<close>

definition retag_state :: "('a \<Rightarrow> 'b) \<Rightarrow> 'a scan_state \<Rightarrow> 'b scan_state" where
  "retag_state g st =
     (case st of ScanGround \<Rightarrow> ScanGround | ScanEscape \<Rightarrow> ScanEscape | ScanCsi \<Rightarrow> ScanCsi | ScanStr k \<Rightarrow> ScanStr k
      | ScanStrEscape k q \<Rightarrow> ScanStrEscape k (g q))"

definition retag :: "('a \<Rightarrow> 'b) \<Rightarrow> 'a scanner \<Rightarrow> 'b scanner" where
  "retag g s = \<lparr>sc_state = retag_state g (sc_state s), sc_start = map_option g (sc_start s), sc_bytes = sc_bytes s,
     sc_overflow = sc_overflow s\<rparr>"

definition retag_finding :: "('a \<Rightarrow> 'b) \<Rightarrow> 'a finding \<Rightarrow> 'b finding" where
  "retag_finding g f = \<lparr>fd_marker = fd_marker f, fd_start = g (fd_start f), fd_bytes = fd_bytes f\<rparr>"

abbreviation retag_result where
  "retag_result g \<equiv> map_option (map_prod (retag g) (map (retag_finding g)))"

lemma retag_fields [simp]:
  "sc_state (retag g s) = retag_state g (sc_state s)" "sc_start (retag g s) = map_option g (sc_start s)"
  "sc_bytes (retag g s) = sc_bytes s" "sc_overflow (retag g s) = sc_overflow s"
  by (simp_all add: retag_def)

lemma retag_basic [simp]: "retag g scan_reset = scan_reset" "retag g (scan_begin q) = scan_begin (g q)"
  "retag g (scan_push b s) = scan_push b (retag g s)"
  "retag g (s\<lparr>sc_state := st\<rparr>) = (retag g s)\<lparr>sc_state := retag_state g st\<rparr>"
  by (simp_all add: retag_def scan_reset_def scan_begin_def scan_push_def retag_state_def)

lemma retag_found: "scan_found (retag g s) ms = map_option (map (retag_finding g)) (scan_found s ms)"
  by (auto simp: scan_found_def retag_finding_def split: option.splits)

lemma retag_str_end: "str_end k t (scan_push b (retag g s)) = retag_result g (str_end k t (scan_push b s))"
proof -
  have "str_end k t (retag g s) = retag_result g (str_end k t s)" for s
    by (auto simp: str_end_def retag_found split: Option.bind_splits)
  from this [of "scan_push b s"] show ?thesis by simp
qed

lemma retag_escape: "escape_step (g q) b (retag g s) = retag g (escape_step q b s)"
  by (simp add: escape_step_def retag_state_def)

lemma retag_csi: "csi_step (g q) b (retag g s) = retag_result g (csi_step q b s)"
  using retag_found [of g "scan_push b s" "csi_markers (drop 2 (sc_bytes (scan_push b s)))"]
  by (auto simp: csi_step_def Let_def subslice_def split: Option.bind_splits)

lemma retag_step: "scan_byte (g q) b (retag g s) = retag_result g (scan_byte q b s)"
proof (cases "sc_state s")
  case (ScanStrEscape k q')
  have "escape_step (g q) b (scan_begin (g q')) = retag g (escape_step q b (scan_begin q'))"
    using retag_escape [of g q b "scan_begin q'"] by simp
  with ScanStrEscape show ?thesis by (simp add: scan_byte_def retag_state_def retag_str_end)
qed (simp_all add: scan_byte_def retag_state_def retag_csi retag_escape retag_str_end)

subsection \<open>The flagged sequences of a stream\<close>

text \<open>
  Scanning one stream, each byte tagged with its position: every flagged sequence with the position
  of the byte that ends it.
\<close>

fun scan_stream :: "nat \<Rightarrow> bytes \<Rightarrow> nat scanner \<Rightarrow> ((nat \<times> nat finding) list \<times> nat scanner) option" where
  "scan_stream i [] s = Some ([], s)"
| "scan_stream i (b # bs) s = do {
     (s', found) \<leftarrow> scan_byte i b s;
     (marks, s'') \<leftarrow> scan_stream (Suc i) bs s';
     Some (map (Pair i) found @ marks, s'') }"

lemma scan_stream_total: "scan_inv s \<Longrightarrow> \<exists>marks s'. scan_stream i bs s = Some (marks, s') \<and> scan_inv s'"
proof (induction bs arbitrary: i s)
  case (Cons b bs)
  obtain s1 fs where "scan_byte i b s = Some (s1, fs)" "scan_inv s1" using scan_byte_total [OF Cons.prems] by blast
  with Cons.IH [of s1 "Suc i"] show ?case by auto
qed simp

lemma scan_stream_append:
  "scan_stream i (bs @ cs) s = do {
     (m1, s1) \<leftarrow> scan_stream i bs s;
     (m2, s2) \<leftarrow> scan_stream (i + length bs) cs s1;
     Some (m1 @ m2, s2) }"
  by (induction bs arbitrary: i s) (auto split: Option.bind_splits)

lemma scan_stream_ends:
  "scan_stream i bs s = Some (marks, s') \<Longrightarrow> m \<in> set marks \<Longrightarrow> i \<le> fst m \<and> fst m < i + length bs"
  by (induction bs arbitrary: i s marks) (fastforce split: Option.bind_splits)+

text \<open>Feeding a chunk under one tag is scanning its part of the stream.\<close>

lemma scan_feed_stream:
  assumes "\<forall>j. i \<le> j \<and> j < i + length bs \<longrightarrow> g j = q" "scan_stream i bs s = Some (marks, s')"
  shows "scan_feed q bs (retag g s) = Some (retag g s', map (retag_finding g \<circ> snd) marks)"
  using assms
proof (induction bs arbitrary: i s marks)
  case (Cons b bs)
  obtain s1 fs ms where p: "scan_byte i b s = Some (s1, fs)" "scan_stream (Suc i) bs s1 = Some (ms, s')"
    "marks = map (Pair i) fs @ ms"
    using Cons.prems(2) by (auto split: Option.bind_splits)
  have "g i = q" using Cons.prems(1) by simp
  then have "scan_byte q b (retag g s) = Some (retag g s1, map (retag_finding g) fs)"
    using retag_step [of g i b s] p(1) by simp
  moreover have "scan_feed q bs (retag g s1) = Some (retag g s', map (retag_finding g \<circ> snd) ms)"
    using Cons.prems(1) by (intro Cons.IH [OF _ p(2)]) simp
  ultimately show ?case by (simp add: p(3))
qed simp

subsection \<open>Records over the stream\<close>

definition output_bytes :: "rec \<Rightarrow> bytes" where
  "output_bytes r = (case rec_kind r of Output bs \<Rightarrow> bs | _ \<Rightarrow> [])"

definition output_stream :: "rec list \<Rightarrow> bytes" where
  "output_stream rs = concat (map output_bytes rs)"

text \<open>The index of the record holding byte \<open>j\<close> of the stream, counting records from \<open>k\<close>, bytes from \<open>i\<close>.\<close>

fun owner :: "nat \<Rightarrow> nat \<Rightarrow> rec list \<Rightarrow> nat \<Rightarrow> nat" where
  "owner k i [] j = k"
| "owner k i (r # rs) j = (if j < i + length (output_bytes r) then k else owner (Suc k) (i + length (output_bytes r)) rs j)"

lemma owner_ge: "k \<le> owner k i rs j"
proof (induction k i rs j rule: owner.induct)
  case (2 k i r rs j)
  then show ?case by (cases "j < i + length (output_bytes r)") simp_all
qed simp

text \<open>The findings that the dump prints under record \<open>k\<close>: those that end in it.\<close>

definition ending_in :: "(nat \<Rightarrow> nat) \<Rightarrow> (nat \<Rightarrow> 'q) \<Rightarrow> nat \<Rightarrow> (nat \<times> nat finding) list \<Rightarrow> 'q finding list" where
  "ending_in own g k marks = map (retag_finding g \<circ> snd) (filter (\<lambda>m. own (fst m) = k) marks)"

lemma scan_record:
  "(case rec_kind r of Output bs \<Rightarrow> scan_feed q bs s | _ \<Rightarrow> Some (s, [])) = scan_feed q (output_bytes r) s"
  by (simp add: output_bytes_def split: record_kind.split)

lemma dump_records_stream:
  assumes "\<forall>j. i \<le> j \<and> j < i + length (output_stream rs) \<longrightarrow> g j = rec_sequence (rs ! (owner k i rs j - k))"
    and "scan_stream i (output_stream rs) s = Some (marks, s')"
  shows "dump_records rs (retag g s) =
    Some (concat (map (\<lambda>(n, r). record_lines r (ending_in (owner k i rs) g n marks)) (enumerate k rs)), retag g s')"
  using assms
proof (induction rs arbitrary: i k s marks)
  case Nil
  then show ?case by (simp add: output_stream_def)
next
  case (Cons r rs)
  let ?n = "length (output_bytes r)"
  have stream: "output_stream (r # rs) = output_bytes r @ output_stream rs" by (simp add: output_stream_def)
  obtain m1 s1 m2 where p: "scan_stream i (output_bytes r) s = Some (m1, s1)"
      "scan_stream (i + ?n) (output_stream rs) s1 = Some (m2, s')" "marks = m1 @ m2"
    using Cons.prems(2) by (auto simp: stream scan_stream_append split: Option.bind_splits)
  have "g j = rec_sequence r" if "i \<le> j" "j < i + ?n" for j
    using Cons.prems(1) that by (simp add: stream)
  then have fed: "scan_feed (rec_sequence r) (output_bytes r) (retag g s) = Some (retag g s1, map (retag_finding g \<circ> snd) m1)"
    using scan_feed_stream [OF _ p(1), of g "rec_sequence r"] by blast
  have first: "\<forall>m\<in>set m1. fst m < i + ?n" and second: "\<forall>m\<in>set m2. i + ?n \<le> fst m"
    using scan_stream_ends [OF p(1)] scan_stream_ends [OF p(2)] by blast+
  have own: "owner k i (r # rs) j = owner (Suc k) (i + ?n) rs j" if "i + ?n \<le> j" for j using that by simp
  have rest: "dump_records rs (retag g s1) = Some (concat (map (\<lambda>(n, r).
      record_lines r (ending_in (owner (Suc k) (i + ?n) rs) g n m2)) (enumerate (Suc k) rs)), retag g s')"
  proof (rule Cons.IH [OF _ p(2)], intro allI impI)
    fix j assume j: "i + ?n \<le> j \<and> j < i + ?n + length (output_stream rs)"
    then have "g j = rec_sequence ((r # rs) ! (owner (Suc k) (i + ?n) rs j - k))"
      using Cons.prems(1) own [of j] by (simp add: stream)
    then show "g j = rec_sequence (rs ! (owner (Suc k) (i + ?n) rs j - Suc k))"
      using owner_ge [of "Suc k" "i + ?n" rs j] by (simp add: Suc_diff_le nth_Cons' Suc_le_eq)
  qed
  have here: "ending_in (owner k i (r # rs)) g k marks = map (retag_finding g \<circ> snd) m1"
  proof -
    have "filter (\<lambda>m. owner k i (r # rs) (fst m) = k) m1 = m1" using first by simp
    moreover have "owner k i (r # rs) (fst m) \<noteq> k" if "m \<in> set m2" for m
      using that second own [of "fst m"] owner_ge [of "Suc k" "i + ?n" rs "fst m"] by auto
    then have "filter (\<lambda>m. owner k i (r # rs) (fst m) = k) m2 = []" by (simp add: filter_empty_conv)
    ultimately show ?thesis by (simp add: ending_in_def p(3) del: owner.simps)
  qed
  have later: "ending_in (owner k i (r # rs)) g n marks = ending_in (owner (Suc k) (i + ?n) rs) g n m2" if "Suc k \<le> n" for n
  proof -
    have "filter (\<lambda>m. owner k i (r # rs) (fst m) = n) m1 = []" using first that by (simp add: filter_empty_conv)
    moreover have "filter (\<lambda>m. owner k i (r # rs) (fst m) = n) m2 = filter (\<lambda>m. owner (Suc k) (i + ?n) rs (fst m) = n) m2"
      using second own by (intro filter_cong) auto
    ultimately show ?thesis by (simp add: ending_in_def p(3) del: owner.simps)
  qed
  have tail: "map (\<lambda>(n, r'). record_lines r' (ending_in (owner k i (r # rs)) g n marks)) (enumerate (Suc k) rs) =
      map (\<lambda>(n, r'). record_lines r' (ending_in (owner (Suc k) (i + ?n) rs) g n m2)) (enumerate (Suc k) rs)"
    using later by (auto simp: in_set_enumerate_eq simp del: owner.simps intro!: map_cong)
  show ?case
    unfolding enumerate_simps list.map tail concat.simps prod.case here by (simp add: scan_record fed rest)
qed

text \<open>C26: A dump never panics, and what it flags does not depend on how the output was cut into records: the
  flagged sequences are those of the child's one output stream, each printed under the record that
  holds its last byte, with the number of the record that holds its first.\<close>

theorem dump_flags_stream:
  "\<exists>marks s. scan_stream 0 (output_stream (dec_records d)) scan_reset = Some (marks, s) \<and>
     dump show_run d = Some (dump_header show_run d @
       concat (map (\<lambda>(k, r). record_lines r (ending_in (owner 0 0 (dec_records d))
           (\<lambda>j. rec_sequence (dec_records d ! owner 0 0 (dec_records d) j)) k marks)) (enumerate 0 (dec_records d))) @
       dump_footer d (retag (\<lambda>j. rec_sequence (dec_records d ! owner 0 0 (dec_records d) j)) s))"
proof -
  obtain marks s where m: "scan_stream 0 (output_stream (dec_records d)) scan_reset = Some (marks, s)"
    using scan_stream_total [of "scan_reset :: nat scanner" 0 "output_stream (dec_records d)"] by auto
  let ?g = "\<lambda>j. rec_sequence (dec_records d ! owner 0 0 (dec_records d) j)"
  have "dump_records (dec_records d) (retag ?g scan_reset) = Some (concat (map (\<lambda>(k, r).
      record_lines r (ending_in (owner 0 0 (dec_records d)) ?g k marks)) (enumerate 0 (dec_records d))), retag ?g s)"
    by (rule dump_records_stream [OF _ m]) simp
  then have "dump show_run d = Some (dump_header show_run d @
       concat (map (\<lambda>(k, r). record_lines r (ending_in (owner 0 0 (dec_records d)) ?g k marks)) (enumerate 0 (dec_records d))) @
       dump_footer d (retag ?g s))" by (simp add: dump_def)
  with m show ?thesis by blast
qed

subsection \<open>What is flagged is there\<close>

text \<open>The markers of a complete sequence, from its escape byte to its last.\<close>

definition markers_of :: "bytes \<Rightarrow> marker list" where
  "markers_of bs =
     (let body = drop 2 bs; payload = (if last bs = 7 then butlast body else butlast (butlast body))
      in if take 2 bs = [0x1b, 0x5b] then csi_markers body
         else if take 2 bs = [0x1b, 0x5d] then osc_markers payload
         else if take 2 bs = [0x1b, 0x5f] then apc_markers payload else [])"

definition flagged :: "bytes \<Rightarrow> nat finding \<Rightarrow> bool" where
  "flagged t f \<longleftrightarrow> fd_start f < length t \<and> t ! fd_start f = 0x1b \<and> subseq (fd_bytes f) (drop (fd_start f) t) \<and>
     fd_marker f \<in> set (markers_of (fd_bytes f)) \<and> length (fd_bytes f) \<le> max_scanned"

text \<open>\<open>t\<close> is the stream read so far.\<close>

definition scan_at :: "bytes \<Rightarrow> nat scanner \<Rightarrow> bool" where
  "scan_at t s \<longleftrightarrow>
     (\<forall>p. sc_start s = Some p \<longrightarrow> p < length t \<and> t ! p = 0x1b \<and> subseq (sc_bytes s) (drop p t)) \<and>
     (\<forall>k q. sc_state s = ScanStrEscape k q \<longrightarrow> q < length t \<and> t ! q = 0x1b)"

lemma scan_at_reset [simp]: "scan_at t scan_reset"
  by (simp add: scan_at_def scan_reset_def)

lemma scan_at_begin: "q < length t \<Longrightarrow> t ! q = 0x1b \<Longrightarrow> scan_at t (scan_begin q)"
  by (simp add: scan_at_def scan_begin_def flip: Cons_nth_drop_Suc)

lemma subseq_snoc: "subseq xs ys \<Longrightarrow> subseq xs (ys @ [y])" "subseq xs ys \<Longrightarrow> subseq (xs @ [y]) (ys @ [y])"
  using list_emb_append_mono [of "(=)" xs ys "[]" "[y]"] list_emb_append_mono [of "(=)" xs ys "[y]" "[y]"] by simp_all

lemma scan_at_snoc: "scan_at t s \<Longrightarrow> scan_at (t @ [b]) s"
  by (auto simp: scan_at_def nth_append intro: subseq_snoc(1))

lemma scan_at_push: "scan_at t s \<Longrightarrow> scan_at (t @ [b]) (scan_push b s)"
  by (auto simp: scan_at_def nth_append intro: subseq_snoc)

lemma scan_at_state: "scan_at t s \<Longrightarrow> (\<And>k q. st \<noteq> ScanStrEscape k q) \<Longrightarrow> scan_at t (s\<lparr>sc_state := st\<rparr>)"
  by (simp add: scan_at_def)

lemma escape_step_at:
  assumes "scan_at t s"
  shows "scan_at (t @ [b]) (escape_step (length t) b s)"
  using scan_at_snoc [OF assms, of b] scan_at_push [OF assms, of b] scan_at_begin [of "length t" "t @ [b]"]
  by (auto simp: escape_step_def scan_at_state)

lemma found_flagged:
  assumes "scan_found s ms = Some fs" "scan_at t s" "f \<in> set fs" "length (sc_bytes s) \<le> max_scanned"
    "set ms \<subseteq> set (markers_of (sc_bytes s))"
  shows "flagged t f"
  using assms by (auto simp: scan_found_def scan_at_def flagged_def subset_iff split: option.splits if_splits)

lemma str_end_flagged:
  assumes "str_end k n (scan_push b s) = Some (s', fs)" "scan_at t s" "scan_inv s"
    "n = 1 \<and> b = 7 \<and> sc_state s = ScanStr k \<or> n = 2 \<and> b = 92 \<and> (\<exists>q. sc_state s = ScanStrEscape k q)"
  shows "s' = scan_reset \<and> (\<forall>f\<in>set fs. flagged (t @ [b]) f)"
proof (cases "sc_overflow (scan_push b s)")
  case True
  with assms(1) show ?thesis by (simp add: str_end_def)
next
  case False
  then obtain rest where bytes: "sc_bytes (scan_push b s) = 0x1b # (case k of Osc \<Rightarrow> 0x5d | Apc \<Rightarrow> 0x5f) # rest @ [b]"
      "n = 2 \<Longrightarrow> \<exists>front. rest = front @ [0x1b]" and len: "length (sc_bytes (scan_push b s)) \<le> max_scanned"
    using assms(3,4) by (fastforce simp: scan_inv_def)
  let ?ms = "case k of Osc \<Rightarrow> osc_markers (take (length rest + 1 - n) rest) | Apc \<Rightarrow> apc_markers (take (length rest + 1 - n) rest)"
  have found: "scan_found (scan_push b s) ?ms = Some fs \<and> s' = scan_reset"
    using assms(1,4) False bytes by (cases k) (auto simp: str_end_def split: Option.bind_splits)
  have "set ?ms \<subseteq> set (markers_of (sc_bytes (scan_push b s)))"
    using assms(4) bytes by (cases k) (auto simp: markers_of_def butlast_append)
  with found found_flagged [OF _ scan_at_push [OF assms(2)] _ len] show ?thesis by blast
qed

lemma csi_step_flagged:
  assumes "csi_step (length t) b s = Some (s', fs)" "scan_at t s" "scan_inv s" "sc_state s = ScanCsi"
  shows "scan_at (t @ [b]) s' \<and> (\<forall>f\<in>set fs. flagged (t @ [b]) f)"
proof -
  obtain rest where bytes: "sc_bytes s = 0x1b # 0x5b # rest" and len: "length (sc_bytes (scan_push b s)) \<le> max_scanned"
    using assms(3,4) by (auto simp: scan_inv_def)
  note kept = scan_at_snoc [OF assms(2), of b] scan_at_push [OF assms(2), of b] scan_at_begin [of "length t" "t @ [b]"]
  have found: "flagged (t @ [b]) f"
    if "scan_found (scan_push b s) (csi_markers (drop 2 (sc_bytes (scan_push b s)))) = Some fs" "f \<in> set fs" for f
    by (rule found_flagged [OF that(1) kept(2) that(2) len]) (simp add: bytes markers_of_def)
  show ?thesis
    using assms(1) kept found
    by (auto simp: csi_step_def Let_def subslice_def split: if_splits Option.bind_splits)
qed

lemma scan_byte_flagged:
  assumes "scan_byte (length t) b s = Some (s', fs)" "scan_at t s" "scan_inv s"
  shows "scan_at (t @ [b]) s' \<and> (\<forall>f\<in>set fs. flagged (t @ [b]) f)"
proof -
  note kept = scan_at_snoc [OF assms(2), of b] scan_at_push [OF assms(2), of b] scan_at_begin [of "length t" "t @ [b]"]
  show ?thesis
  proof (cases "sc_state s")
    case ScanGround
    with assms(1) kept show ?thesis by (auto simp: scan_byte_def)
  next
    case ScanEscape
    with assms(1) escape_step_at [OF assms(2)] show ?thesis by (auto simp: scan_byte_def)
  next
    case ScanCsi
    with assms(1) csi_step_flagged [OF _ assms(2,3)] show ?thesis by (simp add: scan_byte_def)
  next
    case (ScanStr k)
    have opened: "scan_at (t @ [b]) ((scan_push b s)\<lparr>sc_state := ScanStrEscape k (length t)\<rparr>)" if "b = 0x1b"
      using kept(2) that by (simp add: scan_at_def)
    show ?thesis
      using assms(1) str_end_flagged [OF _ assms(2,3), of k 1 b s' fs] kept opened
      by (auto simp: scan_byte_def ScanStr split: if_splits)
  next
    case (ScanStrEscape k q)
    then have "q < length t" "t ! q = 0x1b" using assms(2) by (simp_all add: scan_at_def)
    then have "scan_at t (scan_begin q)" by (rule scan_at_begin)
    from escape_step_at [OF this] show ?thesis
      using assms(1) str_end_flagged [OF _ assms(2,3), of k 2 b s' fs] ScanStrEscape
      by (auto simp: scan_byte_def split: if_splits)
  qed
qed

lemma scan_stream_flagged:
  assumes "scan_stream (length t) bs s = Some (marks, s')" "scan_at t s" "scan_inv s" "(j, f) \<in> set marks"
  shows "flagged (take (Suc j) (t @ bs)) f"
  using assms
proof (induction bs arbitrary: t s marks)
  case (Cons b bs)
  obtain s1 fs ms where p: "scan_byte (length t) b s = Some (s1, fs)" "scan_stream (Suc (length t)) bs s1 = Some (ms, s')"
    "marks = map (Pair (length t)) fs @ ms"
    using Cons.prems(1) by (auto split: Option.bind_splits)
  note step = scan_byte_flagged [OF p(1) Cons.prems(2,3)]
  have inv: "scan_inv s1" using scan_byte_total [OF Cons.prems(3), of "length t" b] p(1) by auto
  from Cons.prems(4) p(3) consider "j = length t" "f \<in> set fs" | "(j, f) \<in> set ms" by auto
  then show ?case
  proof cases
    case 1
    with step show ?thesis by simp
  next
    case 2
    then show ?thesis using Cons.IH [of "t @ [b]" s1 ms] p(2) step inv by simp
  qed
qed simp

text \<open>What a dump flags is in the output: a flagged sequence starts at an escape byte, its bytes stand in
  the stream from there to its last one in order, with only ignored control bytes between them, they
  are at most 256, and its marker is one that the sequence as a whole has.\<close>

theorem dump_flags_true:
  assumes "scan_stream 0 bs scan_reset = Some (marks, s)" "(j, f) \<in> set marks"
  shows "fd_start f \<le> j \<and> j < length bs \<and> bs ! fd_start f = 0x1b \<and>
    subseq (fd_bytes f) (drop (fd_start f) (take (Suc j) bs)) \<and>
    fd_marker f \<in> set (markers_of (fd_bytes f)) \<and> length (fd_bytes f) \<le> 256"
proof -
  have j: "j < length bs" using scan_stream_ends [OF assms] by simp
  have "flagged (take (Suc j) bs) f"
    using scan_stream_flagged [of "[]" bs scan_reset marks s j f] assms by simp
  with j show ?thesis by (auto simp: flagged_def max_scanned_def)
qed

theorem dump_flags_true_witness:
  "flagged [0x41, 0x1b, 0x5b, 0x07, 0x36, 0x6e] \<lparr>fd_marker = CursorPositionQuery, fd_start = 1, fd_bytes = [0x1b, 0x5b, 0x36, 0x6e]\<rparr>"
proof -
  let ?bs = "[0x41, 0x1b, 0x5b, 0x07, 0x36, 0x6e] :: bytes"
  let ?f = "\<lparr>fd_marker = CursorPositionQuery, fd_start = 1, fd_bytes = [0x1b, 0x5b, 0x36, 0x6e]\<rparr>"
  have "scan_stream 0 ?bs scan_reset = Some ([(5, ?f)], scan_reset)" by code_simp
  from dump_flags_true [OF this, of 5 ?f] show ?thesis by (simp add: flagged_def max_scanned_def)
qed

end
