(* ===== verification/Attach_Socket.thy ===== *)
theory Attach_Socket
  imports Std_Hex Std_Search Ids
begin

text \<open>
  Private attach sockets (\<open>src/src/attach_socket.rs\<close>): the socket directory, a run's socket path,
  binding and publishing it, the peer check, and the sweep of orphaned sockets.

  A directory is a list of path components; a path given to the system is its bytes. The answers of
  the system are arguments, what the code does to the file system is a list of effects in order.
\<close>

subsection \<open>Paths\<close>

definition socket_dir :: bytes where "socket_dir = ascii ''sockets''"

definition path_bytes :: "bytes list \<Rightarrow> bytes" where
  "path_bytes p = (if p = [] then [47] else concat (map (\<lambda>c. 47 # c) p))"

text \<open>\<open>Path::file_name\<close> of a path's bytes: nothing after \<open>..\<close>.\<close>

definition file_name :: "bytes \<Rightarrow> bytes option" where
  "file_name bs =
     (case rev (filter (\<lambda>c. c \<noteq> [] \<and> c \<noteq> [46]) (split_on 47 bs)) of
        [] \<Rightarrow> None
      | c # _ \<Rightarrow> if c = [46, 46] then None else Some c)"

definition state_root_for :: "bytes list \<Rightarrow> bytes list option" where
  "state_root_for dir =
     map_option butlast
       (List.find (\<lambda>p. p \<noteq> [] \<and> last p = ascii ''sessions'') (map (\<lambda>k. take (length dir - k) dir) [0..<Suc (length dir)]))"

datatype socket_error = NoStateRoot "bytes list" | UnsafeDirectory "bytes list" bytes
  | PathTooLong bytes nat nat | PathExists bytes | SocketIo bytes bytes

subsection \<open>The private directory\<close>

datatype file_kind = SymbolicLink | Directory | SocketFile | OtherFile

record file_meta =
  fm_kind :: file_kind
  fm_uid :: u32
  fm_mode :: u32
  fm_age :: "nat option"

datatype 'a found = Missing | Failed bytes | Present 'a

datatype socket_effect = MakeParents "bytes list" | MakeDir "bytes list" u32 | ChmodDir "bytes list" u32
  | Bind bytes | ChmodSocket bytes u32 | WriteTmp bytes | PublishCrumb bytes | RemoveSocket bytes

text \<open>\<open>de_mkdir\<close> is \<open>Missing\<close> when the directory was created, \<open>Present\<close> when another creator won.\<close>

record dir_env =
  de_first :: "unit found"
  de_parents :: "bytes option"
  de_mkdir :: "unit found"
  de_meta :: "bytes + file_meta"
  de_chmod :: "bytes option"
  de_euid :: u32

definition verify_dir :: "dir_env \<Rightarrow> bytes list \<Rightarrow> (socket_error + unit) \<times> socket_effect list" where
  "verify_dir e dir =
     (case de_meta e of
        Inl k \<Rightarrow> (Inl (SocketIo (path_bytes dir) k), [])
      | Inr m \<Rightarrow>
          if fm_kind m = SymbolicLink then (Inl (UnsafeDirectory dir (ascii ''it is a symbolic link'')), [])
          else if fm_kind m \<noteq> Directory then (Inl (UnsafeDirectory dir (ascii ''it is not a directory'')), [])
          else if fm_uid m \<noteq> de_euid e then (Inl (UnsafeDirectory dir (ascii ''it is owned by another user'')), [])
          else if and (fm_mode m) 0x1ff \<noteq> 0x1c0 then
            (case de_chmod e of
               None \<Rightarrow> (Inr (), [ChmodDir dir 0x1c0])
             | Some k \<Rightarrow> (Inl (SocketIo (path_bytes dir) k), []))
          else (Inr (), []))"

definition prepare_private_dir :: "dir_env \<Rightarrow> bytes list \<Rightarrow> (socket_error + unit) \<times> socket_effect list" where
  "prepare_private_dir e dir =
     (case de_first e of
        Failed k \<Rightarrow> (Inl (SocketIo (path_bytes dir) k), [])
      | Present _ \<Rightarrow> verify_dir e dir
      | Missing \<Rightarrow>
          (case de_parents e of
             Some k \<Rightarrow> (Inl (SocketIo (path_bytes dir) k), [])
           | None \<Rightarrow>
               (case de_mkdir e of
                  Failed k \<Rightarrow> (Inl (SocketIo (path_bytes dir) k), [MakeParents (butlast dir)])
                | Missing \<Rightarrow> map_prod id ((@) [MakeParents (butlast dir), MakeDir dir 0x1c0]) (verify_dir e dir)
                | Present _ \<Rightarrow> map_prod id ((@) [MakeParents (butlast dir)]) (verify_dir e dir))))"

subsection \<open>Binding\<close>

text \<open>\<open>sha\<close> is SHA-256 and \<open>sun_max\<close> the longest path the platform allows. \<open>None\<close> is a panic.\<close>

definition socket_name :: "(bytes \<Rightarrow> bytes) \<Rightarrow> bytes list \<Rightarrow> run_id \<Rightarrow> bytes option" where
  "socket_name sha dir r =
     map_option (\<lambda>h. concat (map hex_byte h) @ ascii ''.sock'') (subslice 0 6 (sha (path_bytes dir @ run_uuid r)))"

definition socket_path :: "(bytes \<Rightarrow> bytes) \<Rightarrow> nat \<Rightarrow> bytes list \<Rightarrow> bytes list \<Rightarrow> run_id \<Rightarrow> (socket_error, bytes) panicking" where
  "socket_path sha sun_max root dir r = do {
     name \<leftarrow> socket_name sha dir r;
     let path = path_bytes (root @ [socket_dir, name]);
     Some (if sun_max < length path then Inl (PathTooLong path (length path) sun_max) else Inr path) }"

datatype bind_answer = Bound | AddrInUse | BindFails bytes

record bind_env =
  bd_dir :: dir_env
  bd_exists :: bool
  bd_bind :: bind_answer
  bd_chmod :: "bytes option"
  bd_write :: "bytes option"
  bd_rename :: "bytes option"

definition publish_breadcrumb :: "bind_env \<Rightarrow> bytes list \<Rightarrow> bytes \<Rightarrow> (socket_error + unit) \<times> socket_effect list" where
  "publish_breadcrumb e dir path =
     (let crumb = path_bytes (dir @ [ascii ''a.sock.path''])
      in case bd_write e of
           Some k \<Rightarrow> (Inl (SocketIo crumb k), [])
         | None \<Rightarrow>
             (case bd_rename e of
                Some k \<Rightarrow> (Inl (SocketIo crumb k), [WriteTmp path])
              | None \<Rightarrow> (Inr (), [WriteTmp path, PublishCrumb path])))"

definition advertise :: "bind_env \<Rightarrow> bytes list \<Rightarrow> bytes \<Rightarrow> (socket_error + unit) \<times> socket_effect list" where
  "advertise e dir path =
     (case bd_chmod e of
        Some k \<Rightarrow> (Inl (SocketIo path k), [])
      | None \<Rightarrow> map_prod id ((#) (ChmodSocket path 0x180)) (publish_breadcrumb e dir path))"

definition bind_for_session :: "(bytes \<Rightarrow> bytes) \<Rightarrow> nat \<Rightarrow> bind_env \<Rightarrow> bytes list \<Rightarrow> run_id
    \<Rightarrow> ((socket_error + bytes) \<times> socket_effect list) option" where
  "bind_for_session sha sun_max e dir r =
     (case state_root_for dir of
        None \<Rightarrow> Some (Inl (NoStateRoot dir), [])
      | Some root \<Rightarrow>
          (case prepare_private_dir (bd_dir e) (root @ [socket_dir]) of
             (Inl err, effs) \<Rightarrow> Some (Inl err, effs)
           | (Inr _, effs) \<Rightarrow> do {
               answer \<leftarrow> socket_path sha sun_max root dir r;
               Some (case answer of
                       Inl err \<Rightarrow> (Inl err, effs)
                     | Inr path \<Rightarrow>
                         if bd_exists e then (Inl (PathExists path), effs)
                         else (case bd_bind e of
                                 AddrInUse \<Rightarrow> (Inl (PathExists path), effs)
                               | BindFails k \<Rightarrow> (Inl (SocketIo path k), effs)
                               | Bound \<Rightarrow>
                                   (case advertise e dir path of
                                      (Inl err, after) \<Rightarrow> (Inl err, effs @ [Bind path] @ after @ [RemoveSocket path])
                                    | (Inr _, after) \<Rightarrow> (Inr path, effs @ [Bind path] @ after)))) }))"

subsection \<open>The peer\<close>

datatype peer_error = PeerQuery bytes | PeerRefused u32 u32

definition verify_peer :: "bytes + u32 \<Rightarrow> u32 \<Rightarrow> peer_error + unit" where
  "verify_peer peer me =
     (case peer of
        Inl e \<Rightarrow> Inl (PeerQuery e)
      | Inr uid \<Rightarrow> if uid = me then Inr () else Inl (PeerRefused uid me))"

text \<open>What a poll without waiting reports: an error, or the events of the socket if it has any.\<close>

definition peer_hung_up :: "(bytes + (bool \<times> bool) option) \<Rightarrow> bool" where
  "peer_hung_up answer = (case answer of Inr (Some (hup, err)) \<Rightarrow> hup \<or> err | _ \<Rightarrow> False)"

text \<open>A read under a deadline: the clock, the answer to setting the timeout, and the read's own.\<close>

datatype read_answer = ReadTimedOut | ReadError bytes | ReadGot bytes

definition deadline_read :: "nat \<Rightarrow> nat \<Rightarrow> bytes option \<Rightarrow> read_answer \<Rightarrow> read_answer" where
  "deadline_read deadline now set_timeout answer =
     (if deadline - now = 0 then ReadTimedOut
      else case set_timeout of Some e \<Rightarrow> ReadError e | None \<Rightarrow> answer)"

subsection \<open>Orphaned sockets\<close>

definition orphan_grace :: nat where "orphan_grace = 60"

definition is_run_socket_name :: "bytes \<Rightarrow> bool" where
  "is_run_socket_name name \<longleftrightarrow>
     utf8_valid name \<and>
     (case strip_suffix_of (ascii ''.sock'') name of
        Some stem \<Rightarrow> length stem = 12 \<and> list_all is_hexdigit stem
      | None \<Rightarrow> False)"

text \<open>A directory read entry by entry; an entry may fail. A breadcrumb is what its file answers.\<close>

type_synonym 'a listing = "(bytes + 'a) list found"

fun session_crumbs :: "(bytes + bytes found) list \<Rightarrow> bytes + bytes list" where
  "session_crumbs [] = Inr []"
| "session_crumbs (Inl e # es) = Inl e"
| "session_crumbs (Inr (Failed e) # es) = Inl e"
| "session_crumbs (Inr Missing # es) = session_crumbs es"
| "session_crumbs (Inr (Present bs) # es) =
     map_sum id (\<lambda>ns. (case file_name bs of Some n \<Rightarrow> n # ns | None \<Rightarrow> ns)) (session_crumbs es)"

fun namespace_crumbs :: "(bytes + bool \<times> bytes found listing) list \<Rightarrow> bytes + bytes list" where
  "namespace_crumbs [] = Inr []"
| "namespace_crumbs (Inl e # es) = Inl e"
| "namespace_crumbs (Inr (is_dir, sessions) # es) =
     (if \<not> is_dir then namespace_crumbs es
      else case sessions of
        Missing \<Rightarrow> namespace_crumbs es
      | Failed e \<Rightarrow> Inl e
      | Present ss \<Rightarrow>
          (case session_crumbs ss of
             Inl e \<Rightarrow> Inl e
           | Inr ns \<Rightarrow> map_sum id ((@) ns) (namespace_crumbs es)))"

definition breadcrumb_names :: "(bool \<times> bytes found listing) listing \<Rightarrow> bytes + bytes list" where
  "breadcrumb_names root =
     (case root of Missing \<Rightarrow> Inr [] | Failed e \<Rightarrow> Inl e | Present nss \<Rightarrow> namespace_crumbs nss)"

text \<open>An entry of the socket directory: what it is, whether connecting is refused, and removing it works.\<close>

record socket_entry =
  so_name :: bytes
  so_meta :: "file_meta option"
  so_refused :: bool
  so_remove_ok :: bool

definition is_orphan :: "u32 \<Rightarrow> bytes list \<Rightarrow> socket_entry \<Rightarrow> bool" where
  "is_orphan euid named en \<longleftrightarrow>
     is_run_socket_name (so_name en) \<and> so_name en \<notin> set named \<and>
     (case so_meta en of
        None \<Rightarrow> False
      | Some m \<Rightarrow>
          fm_kind m = SocketFile \<and> fm_uid m = euid \<and>
          (case fm_age m of Some age \<Rightarrow> orphan_grace \<le> age | None \<Rightarrow> False)) \<and>
     so_refused en"

text \<open>The orphans, and the removals tried; a failing entry ends the sweep with what was already removed.\<close>

fun sweep_entries :: "u32 \<Rightarrow> bytes list \<Rightarrow> bool \<Rightarrow> (bytes + socket_entry) list \<Rightarrow> (bytes + bytes list) \<times> bytes list" where
  "sweep_entries euid named dry [] = (Inr [], [])"
| "sweep_entries euid named dry (Inl e # es) = (Inl e, [])"
| "sweep_entries euid named dry (Inr en # es) =
     (let (found, tried) = sweep_entries euid named dry es
      in if \<not> is_orphan euid named en then (found, tried)
         else if dry then (map_sum id ((#) (so_name en)) found, tried)
         else ((if so_remove_ok en then map_sum id ((#) (so_name en)) found else found), so_name en # tried))"

definition sweep_orphans :: "bytes list \<Rightarrow> u32 \<Rightarrow> file_meta found \<Rightarrow> (bool \<times> bytes found listing) listing
    \<Rightarrow> bytes + (bytes + socket_entry) list \<Rightarrow> bool \<Rightarrow> (bytes + bytes list) \<times> bytes list" where
  "sweep_orphans root euid dir sessions entries dry =
     (case dir of
        Missing \<Rightarrow> (Inr [], [])
      | Failed e \<Rightarrow> (Inl e, [])
      | Present m \<Rightarrow>
          if fm_kind m \<noteq> Directory \<or> fm_uid m \<noteq> euid then
            (Inl (path_bytes (root @ [socket_dir]) @ ascii '' is not a directory owned by this user''), [])
          else (case breadcrumb_names sessions of
                  Inl e \<Rightarrow> (Inl e, [])
                | Inr named \<Rightarrow>
                    (case entries of
                       Inl e \<Rightarrow> (Inl e, [])
                     | Inr es \<Rightarrow> sweep_entries euid named dry es)))"

end
