(* ===== verification/Prune.thy ===== *)
theory Prune
  imports Session_Store Std_Lines
begin

text \<open>
  Removing finished sessions (\<open>src/src/commands/prune.rs\<close>) from the session store. The clock, the answers
  of the file system and the sweep of orphaned sockets are arguments.
\<close>

fun show_session_error :: "session_error \<Rightarrow> bytes" where
  "show_session_error (AlreadyExists n) = ascii ''session already exists: '' @ n"
| "show_session_error (NotFound n) = ascii ''session not found: '' @ n"
| "show_session_error (Corrupt n why) = ascii ''corrupt session '' @ n @ ascii '': '' @ why"
| "show_session_error (SessionLocked n) = ascii ''session is locked by another process: '' @ n"
| "show_session_error (SessionIo e) = ascii ''io error: '' @ e"
| "show_session_error (SessionJson e) = ascii ''json error: '' @ e"

subsection \<open>Size of a session directory\<close>

text \<open>
  What a directory holds: its entries, an entry or its metadata perhaps unreadable, or \<open>None\<close> when the
  directory itself is. The order in which the code visits directories does not matter to a wrapping sum.
\<close>

datatype file_node = PlainFile u64 | Folder "file_node option list option"

fun node_bytes :: "file_node \<Rightarrow> u64" and entry_bytes :: "file_node option list \<Rightarrow> u64" where
  "node_bytes (PlainFile n) = n"
| "node_bytes (Folder None) = 0"
| "node_bytes (Folder (Some es)) = entry_bytes es"
| "entry_bytes [] = 0"
| "entry_bytes (None # es) = entry_bytes es"
| "entry_bytes (Some x # es) = node_bytes x + entry_bytes es"

definition dir_size_bytes :: "file_node option list option \<Rightarrow> u64 option" where
  "dir_size_bytes contents = map_option entry_bytes contents"

subsection \<open>The verdict on one session\<close>

fun exit_reason_label :: "run_status \<Rightarrow> bytes" where
  "exit_reason_label (Exited c how t) =
     (case how of
        ExitedOk \<Rightarrow> ascii ''ExitedOk''
      | ExitedError code \<Rightarrow> ascii ''ExitedError('' @ show_int (sint code) @ ascii '')''
      | Killed \<Rightarrow> ascii ''Killed''
      | KilledForced \<Rightarrow> ascii ''KilledForced''
      | TimedOut \<Rightarrow> ascii ''TimedOut''
      | SidecarFailed step \<Rightarrow> ascii ''SidecarFailed('' @ sidecar_step_as_str step @ ascii '')'')"
| "exit_reason_label (SpawnFailed t) = ascii ''SpawnFailed''"
| "exit_reason_label (SidecarLost c t) = ascii ''SidecarLost''"
| "exit_reason_label s = ascii ''Unknown''"

text \<open>
  The answers for one session. A removal that fails gives its error and what it left at the path.
\<close>

record prune_answers =
  pa_lock_io :: "bytes option"
  pa_meta_io :: "bytes option"
  pa_contents :: "file_node option list option"
  pa_remove :: "(bytes \<times> entry) option"

record prune_env =
  pn_now :: u64
  pn_answers :: "namespace \<Rightarrow> session_name \<Rightarrow> prune_answers"
  pn_from_json :: "bytes \<Rightarrow> bytes + meta"
  pn_sweep :: "(bytes + nat) option"

datatype verdict = SkipSession bytes "u64 option" | DeleteSession u64 bytes

definition age_of :: "u64 \<Rightarrow> u64 \<Rightarrow> u64" where
  "age_of now ended = (if now < ended then 0 else now - ended)"

definition judge_meta :: "u64 \<Rightarrow> u64 option \<Rightarrow> meta \<Rightarrow> verdict" where
  "judge_meta now threshold m =
     (if \<not> is_terminal (status m) then
        SkipSession (case status m of Starting \<Rightarrow> ascii ''starting'' | _ \<Rightarrow> ascii ''running'') None
      else case status_ended_at (status m) of
        None \<Rightarrow> SkipSession (ascii ''missing_ended_at'') None
      | Some t \<Rightarrow>
          if (case threshold of Some thr \<Rightarrow> age_of now (epoch_secs t) < thr | None \<Rightarrow> False) then
            SkipSession (ascii ''too_recent'') (Some (epoch_secs t))
          else DeleteSession (epoch_secs t) (exit_reason_label (status m)))"

definition judge_session :: "prune_env \<Rightarrow> u64 option \<Rightarrow> namespace \<Rightarrow> session_name \<Rightarrow> entry \<Rightarrow> verdict" where
  "judge_session e threshold ns name en =
     (case is_locked (pa_lock_io (pn_answers e ns name)) name en of
        Inl _ \<Rightarrow> SkipSession (ascii ''locked'') None
      | Inr True \<Rightarrow> SkipSession (ascii ''locked'') None
      | Inr False \<Rightarrow>
          if se_meta en = None then SkipSession (ascii ''missing_meta'') None
          else (case read_meta (pn_from_json e) (pa_meta_io (pn_answers e ns name)) name en of
                  Inl _ \<Rightarrow> SkipSession (ascii ''corrupt_meta'') None
                | Inr m \<Rightarrow> judge_meta (pn_now e) threshold m))"

subsection \<open>Pruning\<close>

record session_line =
  pl_action :: bytes
  pl_namespace :: bytes
  pl_session :: bytes
  pl_ended_at :: "u64 option"
  pl_reason :: "bytes option"
  pl_skip_reason :: "bytes option"
  pl_error :: "bytes option"
  pl_bytes :: "u64 option"

record prune_summary =
  ps_deleted :: u64
  ps_skipped :: u64
  ps_failed :: u64
  ps_reclaimed :: u64
  ps_sockets :: u64
  ps_dry_run :: bool
  ps_namespace :: "bytes option"

definition emit_skip :: "namespace \<Rightarrow> session_name \<Rightarrow> bytes \<Rightarrow> u64 option \<Rightarrow> session_line" where
  "emit_skip ns name why ended =
     \<lparr>pl_action = ascii ''skip'', pl_namespace = namespace_str ns, pl_session = session_str name, pl_ended_at = ended,
      pl_reason = None, pl_skip_reason = Some why, pl_error = None, pl_bytes = None\<rparr>"

definition emit_delete :: "namespace \<Rightarrow> session_name \<Rightarrow> u64 \<Rightarrow> bytes \<Rightarrow> u64 option \<Rightarrow> session_line" where
  "emit_delete ns name ended why held_bytes =
     \<lparr>pl_action = ascii ''delete'', pl_namespace = namespace_str ns, pl_session = session_str name, pl_ended_at = Some ended,
      pl_reason = Some why, pl_skip_reason = None, pl_error = None, pl_bytes = held_bytes\<rparr>"

definition emit_error :: "namespace \<Rightarrow> session_name \<Rightarrow> bytes \<Rightarrow> session_line" where
  "emit_error ns name err =
     \<lparr>pl_action = ascii ''error'', pl_namespace = namespace_str ns, pl_session = session_str name, pl_ended_at = None,
      pl_reason = None, pl_skip_reason = None, pl_error = Some err, pl_bytes = None\<rparr>"

text \<open>What is at a path changes to \<open>x\<close>, nothing being \<open>None\<close>.\<close>

definition set_entry :: "namespace \<Rightarrow> session_name \<Rightarrow> entry option \<Rightarrow> store \<Rightarrow> store" where
  "set_entry ns name x st =
     (let key = (namespace_str ns, session_str name); rest = filter (\<lambda>(k, _). k \<noteq> key) st
      in case x of Some en \<Rightarrow> (key, en) # rest | None \<Rightarrow> rest)"

record tally =
  tl_lines :: "session_line list"
  tl_deleted :: u64
  tl_skipped :: u64
  tl_failed :: u64
  tl_reclaimed :: u64
  tl_not_found :: "bytes list"
  tl_store :: store

definition skipped :: "session_line \<Rightarrow> tally \<Rightarrow> tally" where
  "skipped line t = t\<lparr>tl_lines := tl_lines t @ [line], tl_skipped := tl_skipped t + 1\<rparr>"

definition deleted :: "session_line \<Rightarrow> u64 option \<Rightarrow> tally \<Rightarrow> tally" where
  "deleted line held_bytes t =
     t\<lparr>tl_lines := tl_lines t @ [line], tl_deleted := tl_deleted t + 1,
       tl_reclaimed := (case held_bytes of Some b \<Rightarrow> tl_reclaimed t + b | None \<Rightarrow> tl_reclaimed t)\<rparr>"

definition failed :: "session_line \<Rightarrow> tally \<Rightarrow> tally" where
  "failed line t = t\<lparr>tl_lines := tl_lines t @ [line], tl_failed := tl_failed t + 1\<rparr>"

definition prune_one :: "prune_env \<Rightarrow> u64 option \<Rightarrow> bool \<Rightarrow> namespace \<Rightarrow> session_name \<Rightarrow> tally \<Rightarrow> tally" where
  "prune_one e threshold dry ns name t =
     (case open_raw ns name (tl_store t) of
        Inl _ \<Rightarrow>
          (skipped (emit_skip ns name (ascii ''not_found'') None) t)\<lparr>tl_not_found := tl_not_found t @ [session_str name]\<rparr>
      | Inr en \<Rightarrow>
          (case judge_session e threshold ns name en of
             SkipSession why ended \<Rightarrow> skipped (emit_skip ns name why ended) t
           | DeleteSession ended why \<Rightarrow>
               let held_bytes = dir_size_bytes (pa_contents (pn_answers e ns name)); line = emit_delete ns name ended why held_bytes
               in if dry then deleted line held_bytes t
                  else (case pa_remove (pn_answers e ns name) of
                          None \<Rightarrow> (deleted line held_bytes t)\<lparr>tl_store := set_entry ns name None (tl_store t)\<rparr>
                        | Some (err, left) \<Rightarrow>
                            (failed (emit_error ns name err) t)\<lparr>tl_store := set_entry ns name (Some left) (tl_store t)\<rparr>)))"

fun prune_loop :: "prune_env \<Rightarrow> u64 option \<Rightarrow> bool \<Rightarrow> (namespace \<times> session_name) list \<Rightarrow> tally \<Rightarrow> tally" where
  "prune_loop e threshold dry [] t = t"
| "prune_loop e threshold dry ((ns, name) # sessions) t =
     prune_loop e threshold dry sessions (prune_one e threshold dry ns name t)"

definition no_tally :: "store \<Rightarrow> tally" where
  "no_tally st = \<lparr>tl_lines = [], tl_deleted = 0, tl_skipped = 0, tl_failed = 0, tl_reclaimed = 0, tl_not_found = [], tl_store = st\<rparr>"

definition sweep_attach_sockets :: "(bytes + nat) option \<Rightarrow> u64" where
  "sweep_attach_sockets r = (case r of Some (Inr n) \<Rightarrow> of_nat n | _ \<Rightarrow> 0)"

definition prune_sessions :: "prune_env \<Rightarrow> (namespace \<times> session_name) list \<Rightarrow> u64 option \<Rightarrow> namespace option \<Rightarrow> bool \<Rightarrow> store
    \<Rightarrow> session_line list \<times> prune_summary \<times> bytes list \<times> store" where
  "prune_sessions e sessions threshold only dry st =
     (let t = prune_loop e threshold dry sessions (no_tally st)
      in (tl_lines t,
          \<lparr>ps_deleted = tl_deleted t, ps_skipped = tl_skipped t, ps_failed = tl_failed t, ps_reclaimed = tl_reclaimed t,
           ps_sockets = sweep_attach_sockets (pn_sweep e), ps_dry_run = dry, ps_namespace = map_option namespace_str only\<rparr>,
          tl_not_found t, tl_store t))"

text \<open>A command prints lines and a summary unless it fails before, and may fail after.\<close>

type_synonym prune_result = "(session_line list \<times> prune_summary) option \<times> (bytes + unit) \<times> store"

definition cmd_prune :: "prune_env \<Rightarrow> session_error + (namespace \<times> session_name) list \<Rightarrow> u64 option \<Rightarrow> bool \<Rightarrow> namespace option
    \<Rightarrow> bool \<Rightarrow> store \<Rightarrow> prune_result" where
  "cmd_prune e listed older_than all_of only dry st =
     (if older_than = None \<and> \<not> all_of then
        (None, Inl (ascii ''session names, --older-than or --all is required''), st)
      else case listed of
        Inl err \<Rightarrow> (None, Inl (show_session_error err), st)
      | Inr sessions \<Rightarrow>
          (case prune_sessions e sessions older_than only dry st of
             (lines, summary, nf, st') \<Rightarrow> (Some (lines, summary), Inr (), st')))"

fun unique_names :: "bytes list \<Rightarrow> session_name list \<Rightarrow> bytes + session_name list" where
  "unique_names [] seen = Inr seen"
| "unique_names (n # ns) seen =
     (case name_result ''session name'' (new_session_name n) of
        Inl err \<Rightarrow> Inl err
      | Inr name \<Rightarrow> unique_names ns (if name \<in> set seen then seen else seen @ [name]))"

definition cmd_prune_named :: "prune_env \<Rightarrow> bytes list \<Rightarrow> namespace \<Rightarrow> bool \<Rightarrow> store \<Rightarrow> prune_result" where
  "cmd_prune_named e names ns dry st =
     (case unique_names names [] of
        Inl err \<Rightarrow> (None, Inl err, st)
      | Inr sessions \<Rightarrow>
          (case prune_sessions e (map (Pair ns) sessions) None (Some ns) dry st of
             (lines, summary, nf, st') \<Rightarrow>
               (Some (lines, summary),
                (if nf = [] then Inr ()
                 else Inl (ascii ''no such session in namespace '' @ namespace_str ns @ ascii '': '' @ join_with (ascii '', '') nf)),
                st')))"

end
