(* ===== verification/Prune_Laws.thy ===== *)
theory Prune_Laws
  imports Prune
begin

text \<open>What pruning never removes, and what its report says.\<close>

definition found_at :: "namespace \<Rightarrow> session_name \<Rightarrow> bytes \<times> bytes" where
  "found_at ns name = (namespace_str ns, session_str name)"

text \<open>
  A session that may be removed: nothing holds its lock, and its record can be read, has ended, and
  ended long enough ago.
\<close>

definition prunable :: "prune_env \<Rightarrow> u64 option \<Rightarrow> namespace \<Rightarrow> session_name \<Rightarrow> entry \<Rightarrow> bool" where
  "prunable e threshold ns name en \<longleftrightarrow> se_is_dir en \<and> \<not> (se_lock en \<and> se_held en) \<and>
     (\<exists>js m t. se_meta en = Some js \<and> pn_from_json e js = Inr m \<and> is_terminal (status m) \<and>
        status_ended_at (status m) = Some t \<and>
        (\<forall>thr. threshold = Some thr \<longrightarrow> thr \<le> age_of (pn_now e) (epoch_secs t)))"

lemma judged_prunable:
  assumes "open_raw ns name st = Inr en" "judge_session e threshold ns name en = DeleteSession ended why"
  shows "prunable e threshold ns name en"
proof -
  have dir: "se_is_dir en" using assms(1) by (auto simp: open_raw_def split: option.splits if_splits)
  have free: "\<not> (se_lock en \<and> se_held en)"
    using assms(2) by (auto simp: judge_session_def is_locked_def try_acquire_def Let_def split: option.splits)
  obtain js m where m: "se_meta en = Some js" "pn_from_json e js = Inr m"
      "judge_meta (pn_now e) threshold m = DeleteSession ended why"
    using assms(2) by (auto simp: judge_session_def read_meta_def split: sum.splits bool.splits option.splits if_splits)
  obtain t where "is_terminal (status m)" "status_ended_at (status m) = Some t"
      "case threshold of Some thr \<Rightarrow> \<not> age_of (pn_now e) (epoch_secs t) < thr | None \<Rightarrow> True"
    using m(3) by (auto simp: judge_meta_def split: if_splits option.splits)
  then show ?thesis using dir free m
    by (cases threshold) (auto simp: prunable_def not_less)
qed

subsection \<open>One session\<close>

lemma map_of_set_entry:
  "map_of (set_entry ns name x st) key = (if key = (namespace_str ns, session_str name) then x else map_of st key)"
proof -
  have "map_of (filter (\<lambda>(k, _). k \<noteq> k0) st) key = (if key = k0 then None else map_of st key)" for k0
    by (induction st) auto
  then show ?thesis by (auto simp: set_entry_def Let_def split: option.splits)
qed

lemma open_raw_at: "open_raw ns name st = Inr en \<Longrightarrow> map_of st (namespace_str ns, session_str name) = Some en"
  by (auto simp: open_raw_def entry_at_def split: option.splits if_splits)

text \<open>The report so far: a line for each session in order, counted by what it says.\<close>

definition with_action :: "string \<Rightarrow> session_line list \<Rightarrow> session_line list" where
  "with_action a lines = filter (\<lambda>l. pl_action l = ascii a) lines"

definition line_bytes :: "session_line list \<Rightarrow> u64" where
  "line_bytes lines = sum_list (map (\<lambda>l. case pl_bytes l of Some n \<Rightarrow> n | None \<Rightarrow> 0) lines)"

definition counted :: "tally \<Rightarrow> bool" where
  "counted t \<longleftrightarrow> tl_deleted t = of_nat (length (with_action ''delete'' (tl_lines t))) \<and>
     tl_skipped t = of_nat (length (with_action ''skip'' (tl_lines t))) \<and>
     tl_failed t = of_nat (length (with_action ''error'' (tl_lines t))) \<and> tl_reclaimed t = line_bytes (tl_lines t) \<and>
     tl_not_found t = map pl_session (filter (\<lambda>l. pl_skip_reason l = Some (ascii ''not_found'')) (tl_lines t))"

lemma actions_differ [simp]:
  "ascii ''delete'' \<noteq> ascii ''skip''" "ascii ''delete'' \<noteq> ascii ''error''" "ascii ''skip'' \<noteq> ascii ''error''"
  "ascii ''skip'' \<noteq> ascii ''delete''" "ascii ''error'' \<noteq> ascii ''delete''" "ascii ''error'' \<noteq> ascii ''skip''"
  by (simp_all add: ascii_def)

lemmas line_defs = emit_skip_def emit_delete_def emit_error_def skipped_def deleted_def failed_def
  counted_def with_action_def line_bytes_def

lemma judge_reason: "judge_session e threshold ns name en = SkipSession why ended \<Longrightarrow> why \<noteq> ascii ''not_found''"
  by (auto simp: judge_session_def judge_meta_def ascii_def split: sum.splits bool.splits option.splits if_splits run_status.splits)

lemma prune_one_counted: "counted t \<Longrightarrow> counted (prune_one e threshold dry ns name t)"
  using judge_reason [of e threshold ns name]
  by (auto simp: prune_one_def line_defs Let_def split: sum.splits verdict.splits option.splits)

lemma prune_one_line:
  "\<exists>l. tl_lines (prune_one e threshold dry ns name t) = tl_lines t @ [l] \<and> pl_namespace l = namespace_str ns \<and>
     pl_session l = session_str name \<and> pl_action l \<in> {ascii ''delete'', ascii ''skip'', ascii ''error''}"
  by (auto simp: prune_one_def line_defs Let_def split: sum.splits verdict.splits option.splits)

lemma prune_one_store:
  assumes "map_of (tl_store (prune_one e threshold dry ns name t)) key \<noteq> map_of (tl_store t) key"
  shows "\<not> dry \<and> key = found_at ns name \<and> (\<exists>en. map_of (tl_store t) key = Some en \<and> prunable e threshold ns name en)"
  using assms judged_prunable [of ns name "tl_store t" _ e threshold] open_raw_at [of ns name "tl_store t"]
  by (auto simp: prune_one_def line_defs Let_def map_of_set_entry found_at_def
      split: sum.splits verdict.splits option.splits if_splits)

subsection \<open>All sessions\<close>

lemma prune_loop_counted: "counted t \<Longrightarrow> counted (prune_loop e threshold dry sessions t)"
  by (induction e threshold dry sessions t rule: prune_loop.induct) (simp_all add: prune_one_counted)

lemma prune_loop_lines:
  "\<exists>ls. tl_lines (prune_loop e threshold dry sessions t) = tl_lines t @ ls \<and>
     map (\<lambda>l. (pl_namespace l, pl_session l)) ls = map (\<lambda>(ns, name). found_at ns name) sessions \<and>
     (\<forall>l\<in>set ls. pl_action l \<in> {ascii ''delete'', ascii ''skip'', ascii ''error''})"
proof (induction sessions arbitrary: t)
  case (Cons s sessions)
  obtain ns name where s: "s = (ns, name)" by fastforce
  obtain l where "tl_lines (prune_one e threshold dry ns name t) = tl_lines t @ [l]" "pl_namespace l = namespace_str ns"
      "pl_session l = session_str name" "pl_action l \<in> {ascii ''delete'', ascii ''skip'', ascii ''error''}"
    using prune_one_line by blast
  moreover obtain ls where "tl_lines (prune_loop e threshold dry sessions (prune_one e threshold dry ns name t)) =
      tl_lines (prune_one e threshold dry ns name t) @ ls"
      "map (\<lambda>l. (pl_namespace l, pl_session l)) ls = map (\<lambda>(ns, name). found_at ns name) sessions"
      "\<forall>l\<in>set ls. pl_action l \<in> {ascii ''delete'', ascii ''skip'', ascii ''error''}"
    using Cons.IH by blast
  ultimately show ?case by (intro exI [of _ "l # ls"]) (simp add: s found_at_def)
qed simp

text \<open>An entry that is there at the start is pruned as it was then, the first time it is met.\<close>

lemma prune_loop_store:
  assumes "map_of (tl_store t) key = Some en" "map_of (tl_store (prune_loop e threshold dry sessions t)) key \<noteq> Some en"
  shows "\<not> dry \<and> (\<exists>ns name. (ns, name) \<in> set sessions \<and> key = found_at ns name \<and> prunable e threshold ns name en)"
  using assms
proof (induction sessions arbitrary: t)
  case (Cons s sessions)
  obtain ns name where s: "s = (ns, name)" by fastforce
  let ?t = "prune_one e threshold dry ns name t"
  show ?case
  proof (cases "map_of (tl_store ?t) key = Some en")
    case True
    with Cons s show ?thesis by (simp; blast)
  next
    case False
    then have "map_of (tl_store ?t) key \<noteq> map_of (tl_store t) key" using Cons.prems(1) by simp
    from prune_one_store [OF this] Cons.prems(1) show ?thesis by (auto simp: s)
  qed
qed simp

lemma prune_loop_adds: "map_of (tl_store t) key = None \<Longrightarrow> map_of (tl_store (prune_loop e threshold dry sessions t)) key = None"
proof (induction sessions arbitrary: t)
  case (Cons s sessions)
  obtain ns name where s: "s = (ns, name)" by fastforce
  have "map_of (tl_store (prune_one e threshold dry ns name t)) key = None"
    using prune_one_store [of e threshold dry ns name t key] Cons.prems
    by (cases "map_of (tl_store (prune_one e threshold dry ns name t)) key") simp_all
  with Cons.IH show ?case by (simp add: s)
qed simp

text \<open>C8: Pruning removes only what it may: a session directory that changes was named, was not a dry run's, nobody
  held its lock, and its record could be read, had ended, and ended at least the threshold ago.
  Nothing else in the store changes, and the report has one line per session in order, whose counts
  and bytes the summary states, with the names that were not found.\<close>

theorem prune_spares_live:
  assumes "prune_sessions e sessions threshold only dry st = (lines, summary, nf, st')"
  shows "(\<forall>key en. map_of st key = Some en \<and> map_of st' key \<noteq> Some en \<longrightarrow>
      \<not> dry \<and> (\<exists>ns name. (ns, name) \<in> set sessions \<and> key = found_at ns name \<and> prunable e threshold ns name en)) \<and>
    (\<forall>key. map_of st key = None \<longrightarrow> map_of st' key = None) \<and>
    map (\<lambda>l. (pl_namespace l, pl_session l)) lines = map (\<lambda>(ns, name). found_at ns name) sessions \<and>
    (\<forall>l\<in>set lines. pl_action l \<in> {ascii ''delete'', ascii ''skip'', ascii ''error''}) \<and>
    ps_deleted summary = of_nat (length (with_action ''delete'' lines)) \<and>
    ps_skipped summary = of_nat (length (with_action ''skip'' lines)) \<and>
    ps_failed summary = of_nat (length (with_action ''error'' lines)) \<and> ps_reclaimed summary = line_bytes lines \<and>
    nf = map pl_session (filter (\<lambda>l. pl_skip_reason l = Some (ascii ''not_found'')) lines)"
proof -
  let ?t = "prune_loop e threshold dry sessions (no_tally st)"
  have out: "lines = tl_lines ?t" "nf = tl_not_found ?t" "st' = tl_store ?t" "ps_deleted summary = tl_deleted ?t"
    "ps_skipped summary = tl_skipped ?t" "ps_failed summary = tl_failed ?t" "ps_reclaimed summary = tl_reclaimed ?t"
    using assms by (auto simp: prune_sessions_def Let_def)
  have start: "tl_store (no_tally st) = st" "tl_lines (no_tally st) = []" "counted (no_tally st)"
    by (simp_all add: no_tally_def counted_def with_action_def line_bytes_def)
  have "counted ?t" using start(3) by (rule prune_loop_counted)
  then have counts: "ps_deleted summary = of_nat (length (with_action ''delete'' lines))"
    "ps_skipped summary = of_nat (length (with_action ''skip'' lines))"
    "ps_failed summary = of_nat (length (with_action ''error'' lines))" "ps_reclaimed summary = line_bytes lines"
    "nf = map pl_session (filter (\<lambda>l. pl_skip_reason l = Some (ascii ''not_found'')) lines)"
    by (simp_all add: out counted_def)
  obtain ls where ls: "lines = ls" "map (\<lambda>l. (pl_namespace l, pl_session l)) ls = map (\<lambda>(ns, name). found_at ns name) sessions"
      "\<forall>l\<in>set ls. pl_action l \<in> {ascii ''delete'', ascii ''skip'', ascii ''error''}"
    using prune_loop_lines [of e threshold dry sessions "no_tally st"] by (auto simp: out start(2))
  show ?thesis
  proof (intro conjI allI impI)
    fix key en assume "map_of st key = Some en \<and> map_of st' key \<noteq> Some en"
    then have key: "map_of (tl_store (no_tally st)) key = Some en" "map_of (tl_store ?t) key \<noteq> Some en"
      by (simp_all add: out start)
    from prune_loop_store [OF key] show "\<not> dry"
      "\<exists>ns name. (ns, name) \<in> set sessions \<and> key = found_at ns name \<and> prunable e threshold ns name en" by blast+
  next
    fix key assume "map_of st key = None"
    then show "map_of st' key = None" using prune_loop_adds [of "no_tally st" key] by (simp add: out start)
  qed (use ls counts in simp_all)
qed

definition demo_prune_entry :: "bool \<Rightarrow> entry" where
  "demo_prune_entry held = \<lparr>se_is_dir = True, se_meta = Some [], se_lock = True, se_held = held\<rparr>"

definition demo_prune_env :: "meta \<Rightarrow> prune_env" where
  "demo_prune_env m = \<lparr>pn_now = 100, pn_answers = (\<lambda>_ _. \<lparr>pa_lock_io = None, pa_meta_io = None,
     pa_contents = Some [Some (PlainFile 5)], pa_remove = None\<rparr>), pn_from_json = (\<lambda>_. Inr m), pn_sweep = None\<rparr>"

lemma demo_pruned:
  assumes "status m = SpawnFailed (EpochTimestamp 40)"
  shows "prune_sessions (demo_prune_env m) [(Namespace [1], SessionName [2]), (Namespace [1], SessionName [3])] (Some 60) None False
      [(([1], [2]), demo_prune_entry True), (([1], [3]), demo_prune_entry False)] =
    ([emit_skip (Namespace [1]) (SessionName [2]) (ascii ''locked'') None,
      emit_delete (Namespace [1]) (SessionName [3]) 40 (ascii ''SpawnFailed'') (Some 5)],
     \<lparr>ps_deleted = 1, ps_skipped = 1, ps_failed = 0, ps_reclaimed = 5, ps_sockets = 0, ps_dry_run = False, ps_namespace = None\<rparr>,
     [], [(([1], [2]), demo_prune_entry True)])"
  using assms
  by (simp add: prune_sessions_def prune_one_def judge_session_def judge_meta_def is_locked_def try_acquire_def read_meta_def
      open_raw_def entry_at_def demo_prune_entry_def demo_prune_env_def no_tally_def skipped_def deleted_def dir_size_bytes_def
      set_entry_def age_of_def sweep_attach_sockets_def)

theorem prune_spares_live_witness:
  "\<exists>m. found_at (Namespace [1]) (SessionName [3]) = ([1], [3]) \<and>
     (\<exists>ns name. ([1], [3]) = found_at ns name \<and> prunable (demo_prune_env m) (Some 60) ns name (demo_prune_entry False))"
proof -
  let ?m = "(undefined :: meta)\<lparr>status := SpawnFailed (EpochTimestamp 40)\<rparr>"
  have "status ?m = SpawnFailed (EpochTimestamp 40)" by simp
  note pruned = prune_spares_live [OF demo_pruned [OF this], THEN conjunct1, rule_format, of "([1], [3])" "demo_prune_entry False"]
  have "\<exists>ns name. ([1], [3]) = found_at ns name \<and> prunable (demo_prune_env ?m) (Some 60) ns name (demo_prune_entry False)"
    using pruned by simp blast
  then show ?thesis by (auto simp: found_at_def)
qed

end
