(* ===== verification/Session_Commands.thy ===== *)
theory Session_Commands
  imports Prune Attach_Socket Reconcile
begin

text \<open>
  The commands that watch and end sessions: \<open>status\<close>, \<open>wait\<close>, \<open>kill\<close> and \<open>list\<close>
  (\<open>src/src/commands/\<close>). A command looks at a session again and again while its sidecar goes on, so each
  look is an argument: what is at the session's path then, and what reading it answers. The effects
  of a command are a list in order.
\<close>

subsection \<open>Looking at a session\<close>

record session_look =
  lk_entry :: "entry option"
  lk_meta_io :: "bytes option"
  lk_lock_io :: "bytes option"

definition look_store :: "namespace \<Rightarrow> session_name \<Rightarrow> session_look \<Rightarrow> store" where
  "look_store ns name l = (case lk_entry l of None \<Rightarrow> [] | Some en \<Rightarrow> [((namespace_str ns, session_str name), en)])"

definition nothing_there :: entry where
  "nothing_there = \<lparr>se_is_dir = False, se_meta = None, se_lock = False, se_held = False\<rparr>"

definition look_open :: "namespace \<Rightarrow> session_name \<Rightarrow> session_look \<Rightarrow> session_error + entry option" where
  "look_open ns name l = open_session ns name (look_store ns name l)"

definition look_meta :: "(bytes \<Rightarrow> bytes + meta) \<Rightarrow> session_name \<Rightarrow> session_look \<Rightarrow> session_error + meta" where
  "look_meta from_json name l = read_meta from_json (lk_meta_io l) name (case lk_entry l of Some en \<Rightarrow> en | None \<Rightarrow> nothing_there)"

definition look_locked :: "session_name \<Rightarrow> session_look \<Rightarrow> session_error + bool" where
  "look_locked name l = is_locked (lk_lock_io l) name (case lk_entry l of Some en \<Rightarrow> en | None \<Rightarrow> nothing_there)"

definition unwrap_or :: "'a \<Rightarrow> 'e + 'a \<Rightarrow> 'a" where
  "unwrap_or d r = (case r of Inr x \<Rightarrow> x | Inl _ \<Rightarrow> d)"

datatype command_effect = Recon recon_effect | Warn bytes | KillRequest run_id bool | MarkKillForced | UnmarkKillForced
  | RemoveKillRequest | KillOrphan process_identity bool | RemoveSessionDir | CreateSessionDir
  | WriteGeneration generation | WriteSpec launch_spec | SpawnSidecar

subsection \<open>Status\<close>

text \<open>\<open>crumb\<close> is the identity the breadcrumb file parses to, if it does.\<close>

definition cleanup_orphan_dir :: "recon_env \<Rightarrow> process_identity option \<Rightarrow> command_effect list" where
  "cleanup_orphan_dir a crumb =
     (case crumb of None \<Rightarrow> [] | Some c \<Rightarrow> map Recon (snd (kill_verified_orphan a c))) @ [RemoveSessionDir]"

record command_env =
  ce_from_json :: "bytes \<Rightarrow> bytes + meta"
  ce_boundary_json :: "boundary_context \<Rightarrow> json"
  ce_show_recon :: "recon_error \<Rightarrow> bytes"

text \<open>\<open>l1\<close> at the opening, \<open>l2\<close> when the orphan is looked for or the record is read.\<close>

definition cmd_status :: "command_env \<Rightarrow> namespace \<Rightarrow> bytes \<Rightarrow> session_look \<Rightarrow> session_look \<Rightarrow> recon_env \<Rightarrow> process_identity option
    \<Rightarrow> (bytes + meta) \<times> command_effect list" where
  "cmd_status e ns raw l1 l2 a crumb =
     (case name_result ''session name'' (new_session_name raw) of
        Inl err \<Rightarrow> (Inl err, [])
      | Inr name \<Rightarrow>
          (case look_open ns name l1 of
             Inr None \<Rightarrow> (Inl (ascii ''session not found: '' @ raw), [])
           | Inl (Corrupt n why) \<Rightarrow>
               if lk_entry l2 \<noteq> None then
                 (Inl (ascii ''session '' @ raw @ ascii '' was orphaned (cleaned up)''), cleanup_orphan_dir a crumb)
               else (Inl (ascii ''session not found: '' @ raw), [])
           | Inl err \<Rightarrow> (Inl (show_session_error err), [])
           | Inr (Some en) \<Rightarrow>
               (case look_meta (ce_from_json e) name l2 of
                  Inl err \<Rightarrow> (Inl (show_session_error err), [])
                | Inr m \<Rightarrow>
                    (case reconcile_sidecar_gone (ce_boundary_json e) a m of
                       (Inl err, m', effs) \<Rightarrow> (Inl (ce_show_recon e err), map Recon effs)
                     | (Inr _, m', effs) \<Rightarrow> (Inr m', map Recon effs)))))"

subsection \<open>Wait\<close>

text \<open>The answer of waiting for the lock's release, and the warning about a sidecar that holds on.\<close>

definition await_release :: "session_error + bool \<Rightarrow> bytes \<Rightarrow> bytes \<Rightarrow> command_effect list" where
  "await_release answer name command =
     (case answer of
        Inr False \<Rightarrow>
          [Warn (ascii ''tendr '' @ command @ ascii '': '' @ name @
             ascii '' is terminal but its sidecar still holds the session lock after 2s; prune and start --replace may still find it locked'')]
      | _ \<Rightarrow> [])"

definition dedup :: "bytes list \<Rightarrow> bytes list" where
  "dedup names = foldl (\<lambda>seen n. if n \<in> set seen then seen else seen @ [n]) [] names"

text \<open>The session of a name as one pass finds it.\<close>

record wait_answers =
  wa_look :: session_look
  wa_recon :: recon_env
  wa_release :: "session_error + bool"

fun open_sessions :: "namespace \<Rightarrow> (bytes \<Rightarrow> session_look) \<Rightarrow> bytes list \<Rightarrow> bytes + (bytes \<times> session_name) list" where
  "open_sessions ns looks [] = Inr []"
| "open_sessions ns looks (n # names) =
     (case name_result ''session name'' (new_session_name n) of
        Inl err \<Rightarrow> Inl err
      | Inr name \<Rightarrow>
          (case look_open ns name (looks n) of
             Inl err \<Rightarrow> Inl (show_session_error err)
           | Inr None \<Rightarrow> Inl (ascii ''session not found: '' @ n)
           | Inr (Some _) \<Rightarrow> map_sum id ((#) (n, name)) (open_sessions ns looks names)))"

text \<open>A map keyed by name, as a sorted list.\<close>

definition by_name :: "(bytes \<times> 'a) list \<Rightarrow> (bytes \<times> 'a) list" where
  "by_name xs = sort_by (\<lambda>a b. bytes_le (fst a) (fst b)) xs"

type_synonym ended = "(bytes \<times> meta) list"

fun wait_pass :: "command_env \<Rightarrow> (bytes \<Rightarrow> wait_answers) \<Rightarrow> (bytes \<times> session_name) list \<Rightarrow> ended
    \<Rightarrow> (bytes + ended) \<times> command_effect list" where
  "wait_pass e w [] reached = (Inr reached, [])"
| "wait_pass e w ((n, name) # ss) reached =
     (if map_of reached n \<noteq> None then wait_pass e w ss reached
      else case look_meta (ce_from_json e) name (wa_look (w n)) of
        Inl err \<Rightarrow> (Inl (show_session_error err), [])
      | Inr m \<Rightarrow>
          (case reconcile_sidecar_gone (ce_boundary_json e) (wa_recon (w n)) m of
             (Inl err, m', effs) \<Rightarrow> (Inl (ce_show_recon e err), map Recon effs)
           | (Inr _, m', effs) \<Rightarrow>
               (if is_terminal (status m') then
                  map_prod id ((@) (map Recon effs @ await_release (wa_release (w n)) n (ascii ''wait'')))
                    (wait_pass e w ss ((n, m') # reached))
                else map_prod id ((@) (map Recon effs)) (wait_pass e w ss reached))))"

datatype wait_end = WaitReport "meta list" int | WaitError bytes

text \<open>One pass per poll, and the clock read after it; \<open>None\<close> when the script of polls runs out.\<close>

fun wait_loop :: "command_env \<Rightarrow> bytes list \<Rightarrow> (bytes \<times> session_name) list \<Rightarrow> bool \<Rightarrow> nat option \<Rightarrow> ended
    \<Rightarrow> ((bytes \<Rightarrow> wait_answers) \<times> nat) list \<Rightarrow> (wait_end \<times> command_effect list) option" where
  "wait_loop e names ss any deadline reached [] = None"
| "wait_loop e names ss any deadline reached ((w, now) # polls) =
     (case wait_pass e w ss reached of
        (Inl err, effs) \<Rightarrow> Some (WaitError err, effs)
      | (Inr reached', effs) \<Rightarrow>
          if (if any then reached' \<noteq> [] else length reached' = length ss) then
            (let results = List.map_filter (map_of reached') names
             in Some (WaitReport results (derive_exit_code (map status results)), effs))
          else if (case deadline of Some d \<Rightarrow> d \<le> now | None \<Rightarrow> False) then
            Some (WaitError (ascii ''timeout waiting for '' @
              join_with (ascii '', '') (filter (\<lambda>n. map_of reached' n = None) names)), effs)
          else map_option (map_prod id ((@) effs)) (wait_loop e names ss any deadline reached' polls))"

definition cmd_wait :: "command_env \<Rightarrow> namespace \<Rightarrow> bytes list \<Rightarrow> bool \<Rightarrow> nat option \<Rightarrow> (bytes \<Rightarrow> session_look)
    \<Rightarrow> ((bytes \<Rightarrow> wait_answers) \<times> nat) list \<Rightarrow> (wait_end \<times> command_effect list) option" where
  "cmd_wait e ns names any deadline looks polls =
     (case open_sessions ns looks (dedup names) of
        Inl err \<Rightarrow> Some (WaitError err, [])
      | Inr ss \<Rightarrow> wait_loop e (dedup names) (by_name ss) any deadline [] polls)"

subsection \<open>Kill\<close>

text \<open>A poll: the session then, and the answer of waiting for the lock's release.\<close>

type_synonym kill_poll = " session_look \<times> (session_error + bool)"

fun poll_terminal :: "(bytes \<Rightarrow> bytes + meta) \<Rightarrow> session_name \<Rightarrow> (nat \<Rightarrow> kill_poll) \<Rightarrow> nat \<Rightarrow> nat
    \<Rightarrow> (meta \<times> command_effect list) option" where
  "poll_terminal from_json name polls i 0 = None"
| "poll_terminal from_json name polls i (Suc n) =
     (case look_meta from_json name (fst (polls i)) of
        Inr m \<Rightarrow>
          if is_terminal (status m) then Some (m, await_release (snd (polls i)) (session_str name) (ascii ''kill''))
          else poll_terminal from_json name polls (Suc i) n
      | Inl _ \<Rightarrow> poll_terminal from_json name polls (Suc i) n)"

record kill_env =
  ke_open :: session_look
  ke_read :: session_look
  ke_lock :: session_look
  ke_write :: "bytes option"
  ke_rename :: "bytes option"
  ke_request_polls :: "nat \<Rightarrow> kill_poll"
  ke_kill :: "bytes option"
  ke_polls :: "nat \<Rightarrow> kill_poll"

definition signal_kill_request :: "(bytes \<Rightarrow> bytes + meta) \<Rightarrow> kill_env \<Rightarrow> session_name \<Rightarrow> meta \<Rightarrow> bool \<Rightarrow> nat
    \<Rightarrow> (bytes + meta option) \<times> command_effect list" where
  "signal_kill_request from_json k name m force iterations =
     (case ke_write k of
        Some err \<Rightarrow> (Inl err, [])
      | None \<Rightarrow>
          (case ke_rename k of
             Some err \<Rightarrow> (Inl err, [])
           | None \<Rightarrow>
               (case poll_terminal from_json name (ke_request_polls k) 0 iterations of
                  Some (m', effs) \<Rightarrow> (Inr (Some m'), KillRequest (run_id m) force # effs)
                | None \<Rightarrow> (Inr None, [KillRequest (run_id m) force]))))"

datatype kill_report = KillNotFound | KillMeta meta | KillNoChild | KillSent bool

definition direct_kill :: "(bytes \<Rightarrow> bytes + meta) \<Rightarrow> kill_env \<Rightarrow> session_name \<Rightarrow> process_identity \<Rightarrow> bool
    \<Rightarrow> (bytes + kill_report) \<times> command_effect list" where
  "direct_kill from_json k name c force =
     (case ke_kill k of
        Some err \<Rightarrow> (Inl err, [KillOrphan c force] @ (if force then [UnmarkKillForced] else []) @ [RemoveKillRequest])
      | None \<Rightarrow>
          (case poll_terminal from_json name (ke_polls k) 0 50 of
             Some (m', effs) \<Rightarrow> (Inr (KillMeta m'), KillOrphan c force # effs)
           | None \<Rightarrow> (Inr (KillSent force), [KillOrphan c force])))"

definition cmd_kill :: "(bytes \<Rightarrow> bytes + meta) \<Rightarrow> kill_env \<Rightarrow> namespace \<Rightarrow> bytes \<Rightarrow> bool
    \<Rightarrow> (bytes + kill_report) \<times> command_effect list" where
  "cmd_kill from_json k ns raw force =
     (case name_result ''session name'' (new_session_name raw) of
        Inl err \<Rightarrow> (Inl err, [])
      | Inr name \<Rightarrow>
          (case look_open ns name (ke_open k) of
             Inl err \<Rightarrow> (Inl (show_session_error err), [])
           | Inr None \<Rightarrow> (Inr KillNotFound, [])
           | Inr (Some _) \<Rightarrow>
               (case look_meta from_json name (ke_read k) of
                  Inl err \<Rightarrow> (Inl (show_session_error err), [])
                | Inr m \<Rightarrow>
                    if is_terminal (status m) then (Inr (KillMeta m), [])
                    else
                      let alive = unwrap_or False (look_locked name (ke_lock k));
                          asked = (if alive then signal_kill_request from_json k name m force 80 else (Inr None, []))
                      in (case status_child (status m) of
                            None \<Rightarrow>
                              (case asked of
                                 (Inl err, effs) \<Rightarrow> (Inl err, effs)
                               | (Inr (Some m'), effs) \<Rightarrow> (Inr (KillMeta m'), effs)
                               | (Inr None, effs) \<Rightarrow> (Inr KillNoChild, effs))
                          | Some c \<Rightarrow>
                              map_prod id ((@) (if force then [MarkKillForced] else []))
                                (case asked of
                                   (Inl err, effs) \<Rightarrow> (Inl err, effs)
                                 | (Inr (Some m'), effs) \<Rightarrow> (Inr (KillMeta m'), effs)
                                 | (Inr None, effs) \<Rightarrow> map_prod id ((@) effs) (direct_kill from_json k name c force))))))"

subsection \<open>List\<close>

definition cmd_list :: "session_error + (namespace \<times> session_name) list \<Rightarrow> bytes + (bytes \<times> bytes) list" where
  "cmd_list listed =
     (case listed of
        Inl err \<Rightarrow> Inl (show_session_error err)
      | Inr ss \<Rightarrow> Inr (map (\<lambda>(ns, name). (namespace_str ns, session_str name)) ss))"

end
