(* ===== verification/Launch.thy ===== *)
theory Launch
  imports Session_Commands
begin

text \<open>
  Starting a session (\<open>src/src/commands/start.rs\<close>): replacing an old one, the idempotent answers to a name
  that is taken, the launch specification, and the handshake with the new sidecar.
\<close>

subsection \<open>Arguments\<close>

record launch_args =
  la_name :: bytes
  la_cmd :: "bytes list"
  la_stdin :: bool
  la_replace :: bool
  la_timeout :: "u64 option"
  la_cwd :: "bytes option"
  la_env :: "bytes list"
  la_on_exit :: "bytes list"
  la_after :: "bytes list"
  la_any_exit :: bool
  la_namespace :: namespace
  la_pty :: bool
  la_exec_target :: "exec_target option"
  la_boundary :: "boundary_context option"

text \<open>\<open>lower\<close> is \<open>str::to_lowercase\<close>.\<close>

definition infer_exec_target :: "(bytes \<Rightarrow> bytes) \<Rightarrow> bytes \<Rightarrow> exec_target" where
  "infer_exec_target lower argv0 =
     (let name = (case file_name argv0 of Some n \<Rightarrow> n | None \<Rightarrow> argv0); low = lower name;
          stem = (case strip_suffix_of (ascii ''.exe'') low of Some s \<Rightarrow> s | None \<Rightarrow> low)
      in if stem \<in> {ascii ''bash'', ascii ''sh'', ascii ''zsh'', ascii ''dash'', ascii ''ash''} then PosixShell
         else if stem \<in> {ascii ''pwsh'', ascii ''powershell''} then PowerShell
         else if stem \<in> {ascii ''python'', ascii ''python3'', ascii ''ipython'', ascii ''py''} then PythonRepl
         else if stem = ascii ''duckdb'' then DuckDb
         else ExecNone)"

fun env_entries :: "bytes list \<Rightarrow> (bytes \<rightharpoonup> bytes) \<Rightarrow> bytes + (bytes \<rightharpoonup> bytes)" where
  "env_entries [] m = Inr m"
| "env_entries (x # xs) m =
     (case split_once 61 x of
        None \<Rightarrow> Inl (ascii ''invalid --env format: expected KEY=VALUE, got: '' @ x)
      | Some (key, val) \<Rightarrow>
          if key = [] then Inl (ascii ''invalid --env format: key cannot be empty, got: '' @ x)
          else env_entries xs (m(key \<mapsto> val)))"

fun bind_after :: "(bytes \<Rightarrow> bytes + meta) \<Rightarrow> namespace \<Rightarrow> (bytes \<Rightarrow> session_look) \<Rightarrow> bytes list \<Rightarrow> bytes + dependency_binding list" where
  "bind_after from_json ns looks [] = Inr []"
| "bind_after from_json ns looks (d # ds) =
     (case name_result ''session name'' (new_session_name d) of
        Inl err \<Rightarrow> Inl err
      | Inr name \<Rightarrow>
          (case look_open ns name (looks d) of
             Inl err \<Rightarrow> Inl (show_session_error err)
           | Inr None \<Rightarrow> Inl (ascii ''--after: session not found: '' @ d)
           | Inr (Some _) \<Rightarrow>
               (case look_meta from_json name (looks d) of
                  Inl err \<Rightarrow> Inl (show_session_error err)
                | Inr m \<Rightarrow>
                    map_sum id ((#) \<lparr>dep_session = name, dep_run_id = run_id m\<rparr>) (bind_after from_json ns looks ds))))"

text \<open>The specification the arguments ask for. An empty command is refused by its constructor.\<close>

definition spec_of_args :: "(bytes \<Rightarrow> bytes) \<Rightarrow> (bytes \<Rightarrow> bytes + meta) \<Rightarrow> bytes \<Rightarrow> (bytes \<Rightarrow> session_look) \<Rightarrow> launch_args \<Rightarrow> bytes + launch_spec" where
  "spec_of_args lower from_json empty_error looks a =
     (case new_launch_spec (la_cmd a) of
        None \<Rightarrow> Inl empty_error
      | Some s0 \<Rightarrow>
          (case env_entries (la_env a) Map.empty of
             Inl err \<Rightarrow> Inl err
           | Inr vars \<Rightarrow>
               (case bind_after from_json (la_namespace a) looks (la_after a) of
                  Inl err \<Rightarrow> Inl err
                | Inr deps \<Rightarrow>
                    Inr (s0\<lparr>stdin_mode := (if la_stdin a then StdinPipe else StdinNone), timeout_s := la_timeout a,
                       spec_namespace := Some (namespace_str (la_namespace a)), cwd := la_cwd a, env := vars,
                       on_exit := la_on_exit a, spec_boundary := la_boundary a,
                       io_mode := (if la_pty a then IoPty else IoPipe),
                       exec_target := (case la_exec_target a of Some t \<Rightarrow> t
                                       | None \<Rightarrow> infer_exec_target lower (hd (la_cmd a))),
                       after := deps, after_any_exit := (la_after a \<noteq> [] \<and> la_any_exit a)\<rparr>))))"

subsection \<open>Replacing\<close>

text \<open>
  The answers to a replacement: looks at the path, at the record, and then one look per poll with
  the clock after it; \<open>None\<close> when the script of polls runs out.
\<close>

record replace_env =
  re_look :: session_look
  re_open :: session_look
  re_read :: session_look
  re_kill :: "bytes option"
  re_deadline :: nat
  re_polls :: "( session_look \<times> nat) list"
  re_remove :: "bytes option"
  re_orphan :: recon_env
  re_crumb :: "process_identity option"

fun poll_replaced :: "(bytes \<Rightarrow> bytes + meta) \<Rightarrow> session_name \<Rightarrow> nat \<Rightarrow> ( session_look \<times> nat) list \<Rightarrow> (bytes + unit) option" where
  "poll_replaced from_json name deadline [] = None"
| "poll_replaced from_json name deadline ((l, now) # ps) =
     (if (case look_meta from_json name l of
            Inr m \<Rightarrow> is_terminal (status m) \<and> \<not> unwrap_or True (look_locked name l)
          | Inl _ \<Rightarrow> False) then Some (Inr ())
      else if deadline \<le> now then
        Some (Inl (ascii ''replace timed out: old sidecar for '' @ session_str name @ ascii '' did not exit within 10s''))
      else poll_replaced from_json name deadline ps)"

definition handle_replace :: "(bytes \<Rightarrow> bytes + meta) \<Rightarrow> replace_env \<Rightarrow> namespace \<Rightarrow> session_name
    \<Rightarrow> ((bytes + generation option) \<times> command_effect list) option" where
  "handle_replace from_json r ns name =
     (case lk_entry (re_look r) of
        None \<Rightarrow> Some (Inr None, [])
      | Some en \<Rightarrow>
          if se_meta en = None then Some (Inr None, cleanup_orphan_dir (re_orphan r) (re_crumb r))
          else (case look_open ns name (re_open r) of
             Inl err \<Rightarrow> Some (Inl (show_session_error err), [])
           | Inr None \<Rightarrow> Some (Inr None, [])
           | Inr (Some _) \<Rightarrow>
               (case look_meta from_json name (re_read r) of
                  Inl err \<Rightarrow> Some (Inl (show_session_error err), [])
                | Inr m \<Rightarrow>
                    let killed = (if is_terminal (status m) then []
                                  else case status_child (status m) of Some c \<Rightarrow> [KillOrphan c True] | None \<Rightarrow> [])
                    in (case poll_replaced from_json name (re_deadline r) (re_polls r) of
                          None \<Rightarrow> None
                        | Some (Inl err) \<Rightarrow> Some (Inl err, killed)
                        | Some (Inr _) \<Rightarrow>
                            (case re_remove r of
                               Some err \<Rightarrow> Some (Inl err, killed @ [RemoveSessionDir])
                             | None \<Rightarrow> Some (Inr (Some (next_generation (generation m))), killed @ [RemoveSessionDir]))))))"

subsection \<open>A name that is taken\<close>

record taken_env =
  te_look :: session_look
  te_open :: session_look
  te_read :: session_look
  te_lock :: session_look
  te_create :: "session_error + unit"
  te_orphan :: recon_env
  te_crumb :: "process_identity option"

text \<open>Cleaning up and creating the directory anew.\<close>

definition recreate :: "taken_env \<Rightarrow> (bytes + bool) \<times> command_effect list" where
  "recreate t =
     (case te_create t of
        Inl err \<Rightarrow> (Inl (show_session_error err), cleanup_orphan_dir (te_orphan t) (te_crumb t))
      | Inr _ \<Rightarrow> (Inr True, cleanup_orphan_dir (te_orphan t) (te_crumb t) @ [CreateSessionDir]))"

definition conflict :: "session_name \<Rightarrow> string \<Rightarrow> bytes" where
  "conflict name what = ascii ''session conflict: '' @ session_str name @ ascii '' is '' @ ascii what @
     ascii '' with a different launch spec (use --replace to override)''"

text \<open>\<open>True\<close> when the directory was created again, \<open>False\<close> for the answer that it already runs.\<close>

definition try_idempotent_start :: "(bytes \<Rightarrow> bytes + meta) \<Rightarrow> (launch_spec \<Rightarrow> bytes) \<Rightarrow> taken_env \<Rightarrow> namespace \<Rightarrow> session_name \<Rightarrow> launch_spec
    \<Rightarrow> (bytes + bool) \<times> command_effect list" where
  "try_idempotent_start from_json spec_hash t ns name spec =
     (if (case lk_entry (te_look t) of Some en \<Rightarrow> se_meta en = None | None \<Rightarrow> True) then recreate t
      else case look_open ns name (te_open t) of
        Inl err \<Rightarrow> (Inl (show_session_error err), [])
      | Inr None \<Rightarrow> (Inl (ascii ''session exists but not openable''), [])
      | Inr (Some _) \<Rightarrow>
          (case look_meta from_json name (te_read t) of
             Inl err \<Rightarrow> (Inl (show_session_error err), [])
           | Inr m \<Rightarrow>
               let same = (spec_hash (launch_spec m) = spec_hash spec)
               in (case status m of
                     Running c \<Rightarrow> (if same then Inr False else Inl (conflict name ''running''), [])
                   | Starting \<Rightarrow>
                       if unwrap_or False (look_locked name (te_lock t)) then
                         (if same then Inr False else Inl (conflict name ''starting''), [])
                       else recreate t
                   | _ \<Rightarrow> (Inl (ascii ''session already exists in terminal state: '' @ session_str name @
                            ascii '' (use --replace to restart)''), []))))"

subsection \<open>The handshake\<close>

record spawn_env =
  se_spec_write :: "bytes option"
  se_channel :: "bytes option"
  se_spawn :: "bytes option"
  se_signal :: "bytes + bytes"
  se_child_pid :: bool

text \<open>\<open>str::trim_start_matches\<close>: every repetition of the prefix.\<close>

function strip_all :: "bytes \<Rightarrow> bytes \<Rightarrow> bytes" where
  "strip_all p s = (if p \<noteq> [] \<and> starts_with p s then strip_all p (drop (length p) s) else s)"
  by pat_completeness auto
termination
proof (relation "measure (\<lambda>(p, s). length s)", goal_cases)
  case (2 p s)
  then show ?case by (cases s) (auto simp: starts_with_def)
qed simp

declare strip_all.simps [simp del]

definition spawn_and_wait_ready :: "(bytes \<Rightarrow> bytes + meta) \<Rightarrow> spawn_env \<Rightarrow> launch_spec \<Rightarrow> (bytes + meta) \<times> command_effect list" where
  "spawn_and_wait_ready from_json s spec =
     (case se_spec_write s of
        Some err \<Rightarrow> (Inl err, [])
      | None \<Rightarrow>
          (case se_channel s of
             Some err \<Rightarrow> (Inl err, [WriteSpec spec])
           | None \<Rightarrow>
               (case se_spawn s of
                  Some err \<Rightarrow> (Inl (ascii ''failed to spawn sidecar: '' @ err), [WriteSpec spec, RemoveSessionDir])
                | None \<Rightarrow>
                    let given_up = [WriteSpec spec, SpawnSidecar] @ (if se_child_pid s then [] else [RemoveSessionDir])
                    in (case se_signal s of
                          Inl err \<Rightarrow> (Inl (ascii ''sidecar startup failed: '' @ err), given_up)
                        | Inr sig \<Rightarrow>
                            if starts_with (ascii ''ERROR:'') sig then
                              (Inl (ascii ''sidecar failed: '' @ trim (strip_all (ascii ''ERROR:'') sig)), given_up)
                            else (case strip_prefix (ascii ''OK:'') sig of
                                    None \<Rightarrow> (Inl (ascii ''unexpected readiness signal: '' @ sig), [WriteSpec spec, SpawnSidecar])
                                  | Some js \<Rightarrow> (from_json (trim js), [WriteSpec spec, SpawnSidecar]))))))"

subsection \<open>Launching\<close>

record launch_env =
  le_from_json :: "bytes \<Rightarrow> bytes + meta"
  le_hash :: "launch_spec \<Rightarrow> bytes"
  le_lower :: "bytes \<Rightarrow> bytes"
  le_empty_error :: bytes
  le_replace :: replace_env
  le_after :: "bytes \<Rightarrow> session_look"
  le_create :: "session_error + unit"
  le_taken :: taken_env
  le_reopen :: session_look
  le_reread :: session_look
  le_spawn :: spawn_env

definition launch_created :: "launch_env \<Rightarrow> generation option \<Rightarrow> launch_spec \<Rightarrow> (bytes + meta) \<times> command_effect list" where
  "launch_created e gen spec =
     map_prod id ((@) (case gen of Some g \<Rightarrow> [WriteGeneration g] | None \<Rightarrow> []))
       (spawn_and_wait_ready (le_from_json e) (le_spawn e) spec)"

definition launch_new :: "launch_env \<Rightarrow> namespace \<Rightarrow> session_name \<Rightarrow> generation option \<Rightarrow> launch_spec
    \<Rightarrow> (bytes + meta) \<times> command_effect list" where
  "launch_new e ns name gen spec =
     (case le_create e of
        Inr _ \<Rightarrow> map_prod id ((#) CreateSessionDir) (launch_created e gen spec)
      | Inl (AlreadyExists n) \<Rightarrow>
          (case try_idempotent_start (le_from_json e) (le_hash e) (le_taken e) ns name spec of
             (Inl err, effs) \<Rightarrow> (Inl err, effs)
           | (Inr True, effs) \<Rightarrow> map_prod id ((@) effs) (launch_created e gen spec)
           | (Inr False, effs) \<Rightarrow>
               (case look_open ns name (le_reopen e) of
                  Inl err \<Rightarrow> (Inl (show_session_error err), effs)
                | Inr None \<Rightarrow> (Inl (ascii ''session vanished during idempotent check''), effs)
                | Inr (Some _) \<Rightarrow> (map_sum show_session_error id (look_meta (le_from_json e) name (le_reread e)), effs)))
      | Inl err \<Rightarrow> (Inl (show_session_error err), []))"

definition launch_session :: "launch_env \<Rightarrow> launch_args \<Rightarrow> ((bytes + meta) \<times> command_effect list) option" where
  "launch_session e a =
     (case name_result ''session name'' (new_session_name (la_name a)) of
        Inl err \<Rightarrow> Some (Inl err, [])
      | Inr name \<Rightarrow>
          (case (if la_replace a then handle_replace (le_from_json e) (le_replace e) (la_namespace a) name else Some (Inr None, [])) of
             None \<Rightarrow> None
           | Some (Inl err, effs) \<Rightarrow> Some (Inl err, effs)
           | Some (Inr gen, effs) \<Rightarrow>
               (case spec_of_args (le_lower e) (le_from_json e) (le_empty_error e) (le_after e) a of
                  Inl err \<Rightarrow> Some (Inl err, effs)
                | Inr spec \<Rightarrow> Some (map_prod id ((@) effs) (launch_new e (la_namespace a) name gen spec)))))"

text \<open>The command prints the record and exits with a code when the run has already failed.\<close>

definition start_exit_code :: "run_status \<Rightarrow> int" where
  "start_exit_code s =
     (case s of SpawnFailed t \<Rightarrow> 2
      | Exited c how t \<Rightarrow> (case how of SidecarFailed step \<Rightarrow> 5 | _ \<Rightarrow> 0)
      | _ \<Rightarrow> 0)"

definition cmd_start :: "launch_env \<Rightarrow> launch_args \<Rightarrow> ((bytes + meta \<times> int) \<times> command_effect list) option" where
  "cmd_start e a = map_option (map_prod (map_sum id (\<lambda>m. (m, start_exit_code (status m)))) id) (launch_session e a)"

end
