(* ===== verification/Command_Laws.thy ===== *)
theory Command_Laws
  imports Launch "HOL-Library.Multiset"
begin

text \<open>What \<open>wait\<close> reports, whom \<open>kill\<close> signals, and what \<open>start\<close> may destroy.\<close>

subsection \<open>Exit codes\<close>

definition worse :: "int \<Rightarrow> run_status \<Rightarrow> int" where
  "worse worst s = (let code = single_exit_code s in
     if code \<noteq> 0 \<and> (worst = 0 \<or> severity worst < severity code) then code else worst)"

lemma derive_foldl: "derive_exit_code ss = foldl worse 0 ss"
  by (simp add: derive_exit_code_def worse_def [abs_def])

lemma single_code_severity: "single_exit_code s \<noteq> 0 \<Longrightarrow> 0 < severity (single_exit_code s)"
  by (cases s) (auto simp: severity_def split: exit_reason.splits dep_fail_reason.splits)

lemma worse_spec:
  "foldl worse w ss \<in> insert w (single_exit_code ` set ss) \<and>
   (w \<noteq> 0 \<longrightarrow> severity w \<le> severity (foldl worse w ss) \<and> foldl worse w ss \<noteq> 0) \<and>
   (\<forall>s\<in>set ss. single_exit_code s \<noteq> 0 \<longrightarrow> severity (single_exit_code s) \<le> severity (foldl worse w ss) \<and> foldl worse w ss \<noteq> 0)"
proof (induction ss arbitrary: w)
  case (Cons s ss)
  from Cons [of "worse w s"] show ?case
    using single_code_severity [of s] by (auto simp: worse_def Let_def split: if_splits)
qed simp

lemma derive_exit_code_spec:
  "derive_exit_code ss \<in> insert 0 (single_exit_code ` set ss)"
  "s \<in> set ss \<Longrightarrow> single_exit_code s \<noteq> 0 \<Longrightarrow>
     severity (single_exit_code s) \<le> severity (derive_exit_code ss) \<and> derive_exit_code ss \<noteq> 0"
  using worse_spec [of 0 ss] by (auto simp: derive_foldl)

subsection \<open>Names\<close>

lemma dedup_distinct: "distinct (dedup names) \<and> set (dedup names) = set names"
proof -
  have "distinct (foldl (\<lambda>seen n. if n \<in> set seen then seen else seen @ [n]) seen names) \<and>
      set (foldl (\<lambda>seen n. if n \<in> set seen then seen else seen @ [n]) seen names) = set seen \<union> set names"
    if "distinct seen" for seen
    using that by (induction names arbitrary: seen) auto
  from this [of "[]"] show ?thesis by (simp add: dedup_def)
qed

lemma insert_by_perm: "mset (insert_by le x xs) = add_mset x (mset xs)"
  by (induction xs) auto

lemma sort_by_perm: "mset (sort_by le xs) = mset xs"
  by (induction xs) (simp_all add: sort_by_def insert_by_perm)

lemma by_name_perm: "set (by_name xs) = set xs" "length (by_name xs) = length xs"
  "distinct (map fst (by_name xs)) = distinct (map fst xs)"
proof -
  have p: "mset (by_name xs) = mset xs" by (simp add: by_name_def sort_by_perm)
  then show "set (by_name xs) = set xs" "length (by_name xs) = length xs"
    by (metis set_mset_mset, metis size_mset)
  have "mset (map fst (by_name xs)) = mset (map fst xs)" using p by simp
  then show "distinct (map fst (by_name xs)) = distinct (map fst xs)" by (metis mset_eq_imp_distinct_iff)
qed

lemma open_sessions_names: "open_sessions ns looks names = Inr ss \<Longrightarrow> map fst ss = names"
proof (induction names arbitrary: ss)
  case (Cons n names)
  then show ?case
    by (cases "open_sessions ns looks names") (auto split: sum.splits option.splits)
qed simp

subsection \<open>Waiting\<close>

text \<open>Some poll read the session's record and reconciliation made it \<open>m\<close>, ended.\<close>

definition seen_ended :: "command_env \<Rightarrow> ((bytes \<Rightarrow> wait_answers) \<times> nat) list \<Rightarrow> bytes \<Rightarrow> meta \<Rightarrow> bool" where
  "seen_ended e polls n m \<longleftrightarrow> is_terminal (status m) \<and>
     (\<exists>w now name m0 r effs. (w, now) \<in> set polls \<and> look_meta (ce_from_json e) name (wa_look (w n)) = Inr m0 \<and>
        reconcile_sidecar_gone (ce_boundary_json e) (wa_recon (w n)) m0 = (Inr r, m, effs))"

definition ended_ok :: "command_env \<Rightarrow> ((bytes \<Rightarrow> wait_answers) \<times> nat) list \<Rightarrow> bytes set \<Rightarrow> ended \<Rightarrow> bool" where
  "ended_ok e polls names reached \<longleftrightarrow> distinct (map fst reached) \<and> fst ` set reached \<subseteq> names \<and>
     (\<forall>(n, m)\<in>set reached. seen_ended e polls n m)"

lemma seen_ended_later: "seen_ended e polls n m \<Longrightarrow> set polls \<subseteq> set polls' \<Longrightarrow> seen_ended e polls' n m"
  unfolding seen_ended_def by blast

lemma wait_pass_ok:
  assumes "wait_pass e w ss reached = (Inr reached', effs)" "ended_ok e polls names reached" "fst ` set ss \<subseteq> names" "(w, now) \<in> set polls"
  shows "ended_ok e polls names reached'"
  using assms
proof (induction e w ss reached arbitrary: reached' effs rule: wait_pass.induct)
  case (2 e w n name ss d)
  show ?case
  proof (cases "map_of d n = None")
    case False
    with 2 show ?thesis by auto
  next
    case True
    then obtain m where m: "look_meta (ce_from_json e) name (wa_look (w n)) = Inr m"
      using "2.prems"(1) by (auto split: sum.splits)
    obtain r m' es where r: "reconcile_sidecar_gone (ce_boundary_json e) (wa_recon (w n)) m = (Inr r, m', es)"
      using "2.prems"(1) True m by (auto split: prod.splits sum.splits)
    show ?thesis
    proof (cases "is_terminal (status m')")
      case ended: True
      have "seen_ended e polls n m'" unfolding seen_ended_def using ended m r "2.prems"(4) by blast
      then have "ended_ok e polls names ((n, m') # d)"
        using "2.prems"(2,3) True by (auto simp: ended_ok_def map_of_eq_None_iff)
      moreover obtain es' where "wait_pass e w ss ((n, m') # d) = (Inr reached', es')"
        using "2.prems"(1) True m r ended by (cases "wait_pass e w ss ((n, m') # d)") auto
      ultimately show ?thesis using "2.IH"(2) [OF _ m r [symmetric]] True ended "2.prems"(3,4) by auto
    next
      case False
      obtain es' where "wait_pass e w ss d = (Inr reached', es')"
        using "2.prems"(1) True m r False by (cases "wait_pass e w ss d") auto
      then show ?thesis using "2.IH"(3) [OF _ m r [symmetric]] True False "2.prems"(2-4) by auto
    qed
  qed
qed auto

lemma wait_loop_ok:
  assumes "wait_loop e names ss any deadline reached polls = Some (WaitReport results code, effs)"
    and "ended_ok e polls0 (fst ` set ss) reached" "set polls \<subseteq> set polls0"
  shows "\<exists>d. ended_ok e polls0 (fst ` set ss) d \<and> results = List.map_filter (map_of d) names \<and>
    code = derive_exit_code (map status results) \<and> (if any then d \<noteq> [] else length d = length ss)"
  using assms
proof (induction polls arbitrary: reached effs)
  case (Cons p polls)
  obtain w now where p: "p = (w, now)" by fastforce
  obtain d es where pass: "wait_pass e w ss reached = (Inr d, es)"
    using Cons.prems(1) p by (cases "wait_pass e w ss reached") (auto split: sum.splits)
  have ok: "ended_ok e polls0 (fst ` set ss) d"
    using wait_pass_ok [OF pass Cons.prems(2)] Cons.prems(3) p by auto
  show ?case
  proof (cases "if any then d \<noteq> [] else length d = length ss")
    case True
    then show ?thesis using Cons.prems(1) p pass ok by (auto simp: Let_def)
  next
    case False
    then obtain es' where "wait_loop e names ss any deadline d polls = Some (WaitReport results code, es')"
      using Cons.prems(1) p pass by (auto split: if_splits option.splits)
    then show ?thesis using Cons.IH [OF _ ok] Cons.prems(3) by simp
  qed
qed simp

text \<open>The record a passing wait has for each name, in the order of the request.\<close>

lemma map_filter_reached:
  "m \<in> set (List.map_filter (map_of d) names) \<longleftrightarrow> (\<exists>n\<in>set names. map_of d n = Some m)"
  by (induction names) (auto simp: map_filter_simps split: option.splits)

lemma map_filter_total: "\<forall>n\<in>set names. map_of d n \<noteq> None \<Longrightarrow> List.map_filter (map_of d) names = map (the \<circ> map_of d) names"
  by (induction names) (auto simp: map_filter_simps)

text \<open>C11: A wait that reports, reports ended sessions only: each as some poll read it and reconciliation left it;
  all of those asked for, once each and in the order of the request, or with \<open>--any\<close> at least one.
  Its exit code is 0 exactly if none of them failed, and otherwise the code of the gravest failure.\<close>

theorem wait_reports_outcomes:
  assumes "cmd_wait e ns names any deadline looks polls = Some (WaitReport results code, effs)"
  shows "(\<exists>d. results = List.map_filter (map_of d) (dedup names) \<and> (\<forall>n m. map_of d n = Some m \<longrightarrow> seen_ended e polls n m) \<and>
      (if any then results \<noteq> [] else \<forall>n\<in>set names. map_of d n \<noteq> None)) \<and>
    (code = 0 \<longleftrightarrow> (\<forall>m\<in>set results. single_exit_code (status m) = 0)) \<and>
    (code \<noteq> 0 \<longrightarrow> (\<exists>m\<in>set results. single_exit_code (status m) = code) \<and>
       (\<forall>m\<in>set results. severity (single_exit_code (status m)) \<le> severity code))"
proof -
  obtain ss where ss: "open_sessions ns looks (dedup names) = Inr ss"
    using assms by (auto simp: cmd_wait_def split: sum.splits)
  have loop: "wait_loop e (dedup names) (by_name ss) any deadline [] polls = Some (WaitReport results code, effs)"
    using assms by (simp add: cmd_wait_def ss)
  obtain d where d: "ended_ok e polls (fst ` set (by_name ss)) d" "results = List.map_filter (map_of d) (dedup names)"
      "code = derive_exit_code (map status results)" "if any then d \<noteq> [] else length d = length (by_name ss)"
    using wait_loop_ok [OF loop, of polls] by (auto simp: ended_ok_def)
  have keys: "fst ` set (by_name ss) = set names" "length (by_name ss) = card (set names)"
    using arg_cong [OF open_sessions_names [OF ss], of length] arg_cong [OF open_sessions_names [OF ss], of set]
      dedup_distinct [of names] distinct_card [of "dedup names"]
    by (simp_all add: by_name_perm(1,2))
  have part: "distinct (map fst d)" "fst ` set d \<subseteq> set names" using d(1) keys by (auto simp: ended_ok_def)
  have seen: "seen_ended e polls n m" if "map_of d n = Some m" for n m
    using d(1) map_of_SomeD [OF that] by (auto simp: ended_ok_def)
  have enough: "if any then results \<noteq> [] else \<forall>n\<in>set names. map_of d n \<noteq> None"
  proof (cases any)
    case True
    then obtain n m where "(n, m) \<in> set d" using d(4) by (cases d) auto
    then have "map_of d n = Some m" "n \<in> set names" using part by auto
    then have "m \<in> set results" using dedup_distinct [of names] by (auto simp: d(2) map_filter_reached)
    then show ?thesis using True by auto
  next
    case False
    have "card (fst ` set d) = card (set names)" using d(4) False keys part(1) distinct_card [of "map fst d"] by simp
    then have "fst ` set d = set names" using part(2) by (simp add: card_subset_eq)
    then show ?thesis using False by (auto simp: map_of_eq_None_iff)
  qed
  have worst: "severity (single_exit_code (status m)) \<le> severity code \<and> code \<noteq> 0" if "m \<in> set results" "single_exit_code (status m) \<noteq> 0" for m
    using derive_exit_code_spec(2) [of "status m" "map status results"] that by (simp add: d(3))
  have none: "severity (single_exit_code (status m)) \<le> severity code" if "m \<in> set results" for m
    using worst [OF that] by (cases "single_exit_code (status m) = 0") (auto simp: severity_def)
  have among: "code \<in> insert 0 ((single_exit_code \<circ> status) ` set results)"
    using derive_exit_code_spec(1) [of "map status results"] by (simp add: d(3) image_image)
  show ?thesis
  proof (intro conjI)
    show "\<exists>d. results = List.map_filter (map_of d) (dedup names) \<and> (\<forall>n m. map_of d n = Some m \<longrightarrow> seen_ended e polls n m) \<and>
      (if any then results \<noteq> [] else \<forall>n\<in>set names. map_of d n \<noteq> None)" using d(2) seen enough by blast
    show "code = 0 \<longleftrightarrow> (\<forall>m\<in>set results. single_exit_code (status m) = 0)" using worst among by auto
    show "code \<noteq> 0 \<longrightarrow> (\<exists>m\<in>set results. single_exit_code (status m) = code) \<and>
       (\<forall>m\<in>set results. severity (single_exit_code (status m)) \<le> severity code)" using among none by auto
  qed
qed

text \<open>A wait with a timeout ends at the first poll after its deadline at the latest.\<close>

lemma wait_ends: "\<exists>p\<in>set polls. d \<le> snd p \<Longrightarrow> cmd_wait e ns names any (Some d) looks polls \<noteq> None"
proof -
  have "wait_loop e names' ss any (Some d) reached polls \<noteq> None" if "\<exists>p\<in>set polls. d \<le> snd p" for names' ss reached
    using that
  proof (induction polls arbitrary: reached)
    case (Cons p polls)
    obtain w now where p: "p = (w, now)" by fastforce
    have later: "\<exists>r effs. wait_loop e names' ss any (Some d) x polls = Some (r, effs)" if "\<not> d \<le> now" for x
      using Cons.IH [of x] Cons.prems that p by auto
    from p later show ?case by (fastforce simp: Let_def split: prod.splits sum.splits)
  qed simp
  moreover assume "\<exists>p\<in>set polls. d \<le> snd p"
  ultimately show ?thesis by (auto simp: cmd_wait_def split: sum.splits)
qed

subsection \<open>Killing\<close>

lemma poll_terminal_ended:
  "poll_terminal from_json name polls i n = Some (m, effs) \<Longrightarrow> is_terminal (status m) \<and> (\<forall>x\<in>set effs. \<exists>t. x = Warn t)"
  by (induction from_json name polls i n arbitrary: m effs rule: poll_terminal.induct)
     (auto simp: await_release_def split: sum.splits if_splits bool.splits)

definition is_kill :: "command_effect \<Rightarrow> bool" where
  "is_kill x \<longleftrightarrow> (\<exists>c f. x = KillOrphan c f)"

lemma signal_kill_request_effects:
  assumes "signal_kill_request fj k name m force n = (res, effs)"
  shows "\<forall>x\<in>set effs. x = KillRequest (run_id m) force \<or> (\<exists>t. x = Warn t)" "res = Inr (Some m') \<Longrightarrow> is_terminal (status m')"
    "res = Inr None \<Longrightarrow> effs = [KillRequest (run_id m) force]"
  using assms poll_terminal_ended [of fj name "ke_request_polls k" 0 n]
  by (auto simp: signal_kill_request_def split: option.splits prod.splits)

lemma direct_kill_effects:
  assumes "direct_kill fj k name c force = (res, effs)"
  shows "hd effs = KillOrphan c force \<and> effs \<noteq> [] \<and> (\<forall>x\<in>set (tl effs). \<not> is_kill x)" "res = Inr (KillMeta m') \<Longrightarrow> is_terminal (status m')"
  using assms poll_terminal_ended [of fj name "ke_polls k" 0 50]
  by (auto simp: direct_kill_def is_kill_def split: option.splits prod.splits)

text \<open>C10: Kill acts on a session only while its record says that it has not ended, and signals a process directly
  only when the record names it as the running child, after the force marker is written, and after a
  sidecar that holds the lock was asked by a request and did not end the run in eighty polls. What it
  reports as a final record has ended.\<close>

theorem kill_spares:
  assumes "cmd_kill fj k ns raw force = (res, effs)"
  shows "(res = Inr (KillMeta m') \<longrightarrow> is_terminal (status m')) \<and>
    (effs \<noteq> [] \<longrightarrow> (\<exists>name m. look_meta fj name (ke_read k) = Inr m \<and> \<not> is_terminal (status m) \<and>
       (\<forall>c f. KillOrphan c f \<in> set effs \<longrightarrow> status m = Running c \<and> f = force \<and>
          (\<exists>before. effs = before @ KillOrphan c f # drop (Suc (length before)) effs \<and>
             (force \<longrightarrow> MarkKillForced \<in> set before) \<and>
             (look_locked name (ke_lock k) = Inr True \<longrightarrow> KillRequest (run_id m) force \<in> set before \<and>
                poll_terminal fj name (ke_request_polls k) 0 80 = None)))))"
proof (cases "\<exists>name m. name_result ''session name'' (new_session_name raw) = Inr name \<and> (\<exists>en. look_open ns name (ke_open k) = Inr (Some en)) \<and>
    look_meta fj name (ke_read k) = Inr m \<and> \<not> is_terminal (status m)")
  case False
  then have "effs = []" "\<forall>m'. res = Inr (KillMeta m') \<longrightarrow> is_terminal (status m')"
    using assms by (auto simp: cmd_kill_def split: sum.splits option.splits if_splits)
  then show ?thesis by simp
next
  case True
  then obtain name m en where n: "name_result ''session name'' (new_session_name raw) = Inr name"
      "look_open ns name (ke_open k) = Inr (Some en)" and m: "look_meta fj name (ke_read k) = Inr m" "\<not> is_terminal (status m)" by blast
  define alive where "alive = unwrap_or False (look_locked name (ke_lock k))"
  obtain ra ea where asked: "(if alive then signal_kill_request fj k name m force 80 else (Inr None, [])) = (ra, ea)" by fastforce
  have quiet: "\<not> is_kill x" if "x \<in> set ea" for x
    using asked that signal_kill_request_effects(1) by (fastforce simp: is_kill_def split: if_splits)
  have heard: "is_terminal (status m')" if "ra = Inr (Some m')" for m'
    using asked that signal_kill_request_effects(2) by (auto split: if_splits)
  have unheard: "KillRequest (run_id m) force \<in> set ea \<and> poll_terminal fj name (ke_request_polls k) 0 80 = None"
    if "alive" "ra = Inr None"
    using asked that by (auto simp: signal_kill_request_def split: option.splits prod.splits)
  let ?mark = "if force then [MarkKillForced] else []"
  have "cmd_kill fj k ns raw force = (case status_child (status m) of
      None \<Rightarrow> (case ra of Inl err \<Rightarrow> (Inl err, ea) | Inr (Some m') \<Rightarrow> (Inr (KillMeta m'), ea) | Inr None \<Rightarrow> (Inr KillNoChild, ea))
    | Some c \<Rightarrow> map_prod id ((@) ?mark) (case ra of Inl err \<Rightarrow> (Inl err, ea) | Inr (Some m') \<Rightarrow> (Inr (KillMeta m'), ea)
        | Inr None \<Rightarrow> map_prod id ((@) ea) (direct_kill fj k name c force)))"
    unfolding cmd_kill_def n(1) Let_def alive_def [symmetric] sum.case
    by (simp only: n(2) m sum.case option.case if_False asked prod.case)
  note run = trans [OF assms [symmetric] this]
  show ?thesis
  proof (cases "ra = Inr None \<and> status_child (status m) \<noteq> None")
    case False
    then have "(\<forall>x\<in>set effs. \<not> is_kill x) \<and> (res = Inr (KillMeta m') \<longrightarrow> is_terminal (status m'))"
      using run quiet heard by (auto simp: is_kill_def split: option.splits sum.splits)
    then show ?thesis using m unfolding is_kill_def by blast
  next
    case True
    then obtain c where c: "status_child (status m) = Some c" by blast
    then have running: "status m = Running c" using m(2) by (cases "status m") auto
    obtain rd ed where direct: "direct_kill fj k name c force = (rd, ed)" by fastforce
    then obtain rest where ed: "ed = KillOrphan c force # rest" "\<forall>x\<in>set rest. \<not> is_kill x"
      using direct_kill_effects(1) [OF direct] by (cases ed) auto
    have out: "res = rd" "effs = (?mark @ ea) @ KillOrphan c force # rest"
      using run True c direct ed by auto
    have only: "c' = c \<and> f = force" if "KillOrphan c' f \<in> set effs" for c' f
      using that ed(2) quiet by (auto simp: out(2) is_kill_def split: if_splits)
    have asked_first: "KillRequest (run_id m) force \<in> set (?mark @ ea) \<and> poll_terminal fj name (ke_request_polls k) 0 80 = None"
      if "look_locked name (ke_lock k) = Inr True"
      using unheard True that by (simp add: alive_def unwrap_or_def)
    have "effs = (?mark @ ea) @ KillOrphan c force # drop (Suc (length (?mark @ ea))) effs \<and> (force \<longrightarrow> MarkKillForced \<in> set (?mark @ ea))"
      by (simp add: out(2))
    then show ?thesis using m running only asked_first direct_kill_effects(2) [OF direct] out(1) by blast
  qed
qed

subsection \<open>Starting\<close>

text \<open>
  A directory is removed only if it may be, or was made by this command before.
\<close>

fun removals_ok :: "bool \<Rightarrow> bool \<Rightarrow> command_effect list \<Rightarrow> bool" where
  "removals_ok may made [] = True"
| "removals_ok may made (x # xs) = ((x = RemoveSessionDir \<longrightarrow> may \<or> made) \<and> removals_ok may (made \<or> x = CreateSessionDir) xs)"



lemma removals_ok_mono: "removals_ok may made xs \<Longrightarrow> may \<longrightarrow> may' \<Longrightarrow> made \<longrightarrow> made' \<Longrightarrow> removals_ok may' made' xs"
  by (induction xs arbitrary: made made') auto





text \<open>What else the effects of a command may be: verified kills, and signals to a replaced child.\<close>

definition kills_ok :: "launch_env \<Rightarrow> launch_args \<Rightarrow> session_name \<Rightarrow> command_effect list \<Rightarrow> bool" where
  "kills_ok e a name effs \<longleftrightarrow>
     (\<forall>c f. KillOrphan c f \<in> set effs \<longrightarrow> la_replace a \<and> f \<and>
        (\<exists>m. look_meta (le_from_json e) name (re_read (le_replace e)) = Inr m \<and> status m = Running c)) \<and>
     (\<forall>c. Recon (KillProcess c) \<in> set effs \<longrightarrow> rc_probe (re_orphan (le_replace e)) c = AliveVerified \<or>
        rc_probe (te_orphan (le_taken e)) c = AliveVerified)"

lemma kills_ok_append [simp]: "kills_ok e a name (xs @ ys) \<longleftrightarrow> kills_ok e a name xs \<and> kills_ok e a name ys"
  "kills_ok e a name []"
  by (auto simp: kills_ok_def)

lemma kill_verified_effects:
  "x \<in> set (snd (kill_verified_orphan r c)) \<Longrightarrow> x = KillProcess c \<and> rc_probe r c = AliveVerified"
  by (cases "rc_probe r c") (auto simp: kill_verified_orphan_def split: option.splits)

lemma cleanup_effects:
  "RemoveSessionDir \<in> set (cleanup_orphan_dir r crumb)"
  "\<forall>x\<in>set (cleanup_orphan_dir r crumb). x = RemoveSessionDir \<or> (\<exists>c. x = Recon (KillProcess c) \<and> rc_probe r c = AliveVerified)"
  by (auto simp: cleanup_orphan_dir_def dest!: kill_verified_effects split: option.splits)











subsection \<open>Concrete commands\<close>

definition demo_spec :: launch_spec where
  "demo_spec = \<lparr>argv = [ascii ''sh''], cwd = None, env = Map.empty, timeout_s = None, after = [], after_any_exit = False,
     spec_namespace = Some [110], on_exit = [], stdin_mode = StdinNone, io_mode = IoPipe, exec_target = PosixShell, spec_boundary = None\<rparr>"

definition demo_child :: process_identity where
  "demo_child = already_exited 7"

definition demo_meta :: "run_status \<Rightarrow> meta" where
  "demo_meta s = (new_starting (SessionName [97]) (RunId []) first_generation demo_spec demo_child (EpochTimestamp 1))\<lparr>status := s\<rparr>"

definition demo_look :: "bool \<Rightarrow> session_look" where
  "demo_look held = \<lparr>lk_entry = Some \<lparr>se_is_dir = True, se_meta = Some [], se_lock = True, se_held = held\<rparr>,
     lk_meta_io = None, lk_lock_io = None\<rparr>"

lemma demo_name: "name_result ''session name'' (new_session_name [97]) = Inr (SessionName [97])"
proof -
  have "new_session_name [97] = Inr (SessionName [97])"
    by (simp add: new_session_name_Inr validate_session_name_Inr utf8_chars_ascii is_whitespace_def starts_with_def)
  then show ?thesis by (simp add: name_result_def)
qed

lemma demo_meta_fields [simp]: "status (demo_meta s) = s" "run_id (demo_meta s) = RunId []" "generation (demo_meta s) = first_generation"
  by (simp_all add: demo_meta_def new_starting_def)

lemma demo_looks [simp]:
  "look_open ns name (demo_look held) = Inr (Some \<lparr>se_is_dir = True, se_meta = Some [], se_lock = True, se_held = held\<rparr>)"
  "look_meta fj name (demo_look held) = (case fj [] of Inl e \<Rightarrow> Inl (Corrupt (session_str name) (ascii ''invalid meta.json: '' @ e)) | Inr m \<Rightarrow> Inr m)"
  "look_locked name (demo_look held) = Inr held"
  by (simp_all add: look_open_def look_store_def look_meta_def look_locked_def demo_look_def open_session_def entry_at_def read_meta_def
      is_locked_def try_acquire_def Let_def)

definition demo_command_env :: "run_status \<Rightarrow> command_env" where
  "demo_command_env s = \<lparr>ce_from_json = (\<lambda>_. Inr (demo_meta s)), ce_boundary_json = (\<lambda>_. JNull), ce_show_recon = (\<lambda>_. [])\<rparr>"

lemma demo_waited:
  "cmd_wait (demo_command_env (SpawnFailed (EpochTimestamp 2))) (Namespace [110]) [[97], [97]] False None (\<lambda>_. demo_look True)
     [(\<lambda>_. \<lparr>wa_look = demo_look True, wa_recon = a, wa_release = Inr False\<rparr>, 0)] =
   Some (WaitReport [demo_meta (SpawnFailed (EpochTimestamp 2))] 2, await_release (Inr False) [97] (ascii ''wait''))"
  by (simp add: cmd_wait_def dedup_def demo_name by_name_def sort_by_def demo_command_env_def reconcile_sidecar_gone_def Let_def
      map_filter_simps derive_exit_code_def)

theorem wait_reports_outcomes_witness:
  "(2 :: int) \<noteq> 0 \<and> (\<exists>m\<in>set [demo_meta (SpawnFailed (EpochTimestamp 2))]. single_exit_code (status m) = 2)"
  using wait_reports_outcomes [OF demo_waited, THEN conjunct2, THEN conjunct2] by simp

definition demo_kill_env :: kill_env where
  "demo_kill_env = \<lparr>ke_open = demo_look False, ke_read = demo_look False, ke_lock = demo_look False, ke_write = None, ke_rename = None,
     ke_request_polls = (\<lambda>_. (demo_look False, Inr True)), ke_kill = Some [1], ke_polls = (\<lambda>_. (demo_look False, Inr True))\<rparr>"

lemma demo_killed:
  "cmd_kill (\<lambda>_. Inr (demo_meta (Running demo_child))) demo_kill_env (Namespace [110]) [97] True =
     (Inl [1], [MarkKillForced, KillOrphan demo_child True, UnmarkKillForced, RemoveKillRequest])"
  by (simp add: cmd_kill_def demo_name demo_kill_env_def unwrap_or_def direct_kill_def)

theorem kill_spares_witness:
  "\<exists>name m. look_meta (\<lambda>_. Inr (demo_meta (Running demo_child))) name (ke_read demo_kill_env) = Inr m \<and> \<not> is_terminal (status m) \<and>
     status m = Running demo_child"
  using kill_spares [OF demo_killed] by fastforce





text \<open>
  A status on a directory that a start is just setting up, with a sidecar that holds its lock and has
  not yet written the record, removes the directory: the lock is not looked at.
\<close>

lemma status_removes_locked:
  assumes "lk_entry l = Some \<lparr>se_is_dir = True, se_meta = None, se_lock = True, se_held = True\<rparr>" "lk_lock_io l = None"
  shows "look_locked (SessionName [97]) l = Inr True \<and> RemoveSessionDir \<in> set (snd (cmd_status e ns [97] l l a crumb))"
  using assms
  by (simp add: cmd_status_def demo_name look_open_def look_store_def look_locked_def is_locked_def try_acquire_def open_session_def
      entry_at_def cleanup_effects(1))

text \<open>
  With \<open>--replace\<close> the old session is removed before the arguments of the new one are checked.
\<close>

lemma replaced_before_checked:
  assumes "la_replace a" "la_name a = [97]" "la_cmd a = [ascii ''sh'']" "la_env a = [ascii ''BAD'']"
    and "handle_replace (le_from_json e) (le_replace e) (la_namespace a) (SessionName [97]) = Some (Inr gen, effs)"
  shows "\<exists>err. launch_session e a = Some (Inl err, effs)"
proof -
  have "split_once 61 (ascii ''BAD'') = None" by (simp add: ascii_def)
  then show ?thesis using assms by (simp add: launch_session_def demo_name spec_of_args_def new_launch_spec_def)
qed

end
