(* ===== verification/Event_Follow.thy ===== *)
theory Event_Follow
  imports Event_Log Interfaces "HOL-Library.Multiset"
begin

text \<open>
  Reading the event log: following a growing segment consumes each complete line exactly once,
  whatever the moments of the polls, and a replay of all segments returns exactly the events
  that were appended, in merge order.
\<close>

subsection \<open>Following a segment\<close>

lemma split_once_extend: "split_once s a = Some (l, r) \<Longrightarrow> split_once s (a @ b) = Some (l, r @ b)"
  using split_once_Some [of s a l r] split_once_append [of s l "r @ b"] by simp

lemma segment_loop_None: "split_once 0x0a buf = None \<Longrightarrow> segment_loop parse at buf = ([], 0, at)"
  by (simp add: segment_loop.simps)

definition line_result :: "(bytes \<Rightarrow> event option) \<Rightarrow> nat \<Rightarrow> nat \<Rightarrow> bytes
    \<Rightarrow> segment_record list \<times> nat \<times> nat \<Rightarrow> segment_record list \<times> nat \<times> nat" where
  "line_result parse at stop line res = (case res of (rs, k, c) \<Rightarrow>
     let raw = strip_cr line in
     if raw = [] then (rs, k, c)
     else (case parse_line parse raw of
             Some e \<Rightarrow> (\<lparr>sr_event = e, sr_start = at, sr_end = stop\<rparr> # rs, k, c)
           | None \<Rightarrow> (rs, Suc k, c)))"

lemma segment_loop_Some:
  "split_once 0x0a buf = Some (line, rest) \<Longrightarrow> segment_loop parse at buf =
     line_result parse at (at + length line + 1) line (segment_loop parse (at + length line + 1) rest)"
  by (subst segment_loop.simps) (simp add: line_result_def Let_def)

text \<open>Results of a segment and its continuation.\<close>

definition then_read :: "segment_record list \<times> nat \<times> nat \<Rightarrow> segment_record list \<times> nat \<times> nat
    \<Rightarrow> segment_record list \<times> nat \<times> nat" where
  "then_read r s = (fst r @ fst s, fst (snd r) + fst (snd s), snd (snd s))"

lemma line_result_then:
  "line_result parse at stop line (then_read r s) = then_read (line_result parse at stop line r) s"
  by (auto simp: line_result_def then_read_def Let_def split: prod.splits option.splits)

lemma line_result_offset [simp]: "snd (snd (line_result parse at stop line r)) = snd (snd r)"
  by (auto simp: line_result_def Let_def split: prod.splits option.splits)

lemma segment_loop_append:
  "(let c = snd (snd (segment_loop parse at a)) in
    at \<le> c \<and> c \<le> at + length a \<and>
    segment_loop parse at (a @ b) =
      then_read (segment_loop parse at a) (segment_loop parse c (drop (c - at) a @ b)))"
proof (induction parse at a rule: segment_loop.induct)
  case (1 parse at a)
  show ?case
  proof (cases "split_once 0x0a a")
    case None
    then show ?thesis by (simp add: segment_loop_None then_read_def)
  next
    case (Some lr)
    obtain line rest where s: "split_once 0x0a a = Some (line, rest)" using Some by (cases lr) simp
    then have a: "a = line @ 0x0a # rest" using split_once_Some by fastforce
    let ?stop = "at + length line + 1"
    define c where "c = snd (snd (segment_loop parse ?stop rest))"
    have IH: "?stop \<le> c" "c \<le> ?stop + length rest"
      "segment_loop parse ?stop (rest @ b) =
        then_read (segment_loop parse ?stop rest) (segment_loop parse c (drop (c - ?stop) rest @ b))"
      using 1 [OF s refl, of "strip_cr line"] by (simp_all add: c_def Let_def)
    have cc: "snd (snd (segment_loop parse at a)) = c"
      by (simp add: segment_loop_Some [OF s] c_def)
    have d: "drop (c - at) a = drop (c - ?stop) rest"
      using IH(1) by (simp add: a drop_Cons' diff_diff_eq)
    show ?thesis
      unfolding Let_def cc d segment_loop_Some [OF split_once_extend [OF s]] IH(3) line_result_then
      using IH(1,2) by (simp add: segment_loop_Some [OF s]) (simp add: a)
  qed
qed

lemma segment_loop_bounds:
  assumes "segment_loop parse at a = (rs, k, c)"
  shows "at \<le> c" "c \<le> at + length a"
  using segment_loop_append [of parse at a "[]", unfolded Let_def assms snd_conv] by blast+

lemma drop_more: "m \<le> length xs \<Longrightarrow> drop n (drop m xs @ b) = drop (n + m) (xs @ b)"
  by (metis append.right_neutral diff_is_0_eq drop_0 drop_append drop_drop)

text \<open>A follower: the offset read to, the bytes after it, and the lines skipped so far.\<close>

definition follow_feed :: "(bytes \<Rightarrow> event option) \<Rightarrow> nat \<times> bytes \<times> nat \<Rightarrow> bytes
    \<Rightarrow> (nat \<times> bytes \<times> nat) \<times> segment_record list" where
  "follow_feed parse st chunk = (case st of (at, tail, k) \<Rightarrow>
     case segment_loop parse at (tail @ chunk) of (rs, k', c) \<Rightarrow>
       ((c, drop (c - at) (tail @ chunk), k + k'), rs))"

definition follow_inv :: "nat \<times> bytes \<times> nat \<Rightarrow> bytes \<Rightarrow> bool" where
  "follow_inv st rest \<longleftrightarrow> 0x0a \<notin> set (fst (snd st))"

lemma segment_loop_tail: "0x0a \<notin> set (drop (snd (snd (segment_loop parse at buf)) - at) buf)"
proof (induction parse at buf rule: segment_loop.induct)
  case (1 parse at a)
  show ?case
  proof (cases "split_once 0x0a a")
    case None
    then show ?thesis by (simp add: segment_loop_None split_once_None)
  next
    case (Some lr)
    obtain line rest where s: "split_once 0x0a a = Some (line, rest)" using Some by (cases lr) simp
    then have a: "a = line @ 0x0a # rest" using split_once_Some by fastforce
    let ?stop = "at + length line + 1"
    let ?c = "snd (snd (segment_loop parse ?stop rest))"
    have "?stop \<le> ?c" using segment_loop_append [of parse ?stop rest "[]"] by (simp add: Let_def)
    then have "drop (?c - at) a = drop (?c - ?stop) rest"
      by (simp add: a drop_Cons' diff_diff_eq)
    then show ?thesis using 1 [OF s refl refl] by (simp add: segment_loop_Some [OF s])
  qed
qed

interpretation follow: incremental "follow_feed parse" follow_inv for parse
proof (unfold_locales, goal_cases)
  case (1 st)
  then show ?case
    by (cases st) (auto simp: follow_feed_def follow_inv_def segment_loop_None split_once_None)
next
  case (2 st a b)
  obtain at tail k where st: "st = (at, tail, k)" by (cases st)
  define buf where "buf = tail @ a"
  obtain rs k1 c where l: "segment_loop parse at buf = (rs, k1, c)" by (cases "segment_loop parse at buf")
  obtain rs2 k2 c2 where l2: "segment_loop parse c (drop (c - at) buf @ b) = (rs2, k2, c2)"
    by (cases "segment_loop parse c (drop (c - at) buf @ b)")
  have b1: "at \<le> c" "c \<le> at + length buf" and b2: "c \<le> c2"
    using segment_loop_bounds [OF l] segment_loop_bounds [OF l2] by simp_all
  have app: "segment_loop parse at (buf @ b) = then_read (rs, k1, c) (rs2, k2, c2)"
    using segment_loop_append [of parse at buf b, unfolded Let_def l snd_conv l2] by blast
  have d: "drop (c2 - c) (drop (c - at) buf @ b) = drop (c2 - at) (buf @ b)"
    using b1 b2 by (subst drop_more) simp_all
  have "follow_feed parse st a = ((c, drop (c - at) buf, k + k1), rs)"
    unfolding follow_feed_def st prod.case buf_def [symmetric] l ..
  moreover have "follow_feed parse (c, drop (c - at) buf, k + k1) b = ((c2, drop (c2 - at) (buf @ b), k + k1 + k2), rs2)"
    unfolding follow_feed_def prod.case l2 d ..
  moreover have "follow_feed parse st (a @ b) = ((c2, drop (c2 - at) (buf @ b), k + (k1 + k2)), rs @ rs2)"
    using app unfolding buf_def by (simp add: follow_feed_def st then_read_def)
  ultimately show ?case by simp
next
  case (3 st a b)
  obtain at tail k where st: "st = (at, tail, k)" by (cases st)
  obtain rs k1 c where l: "segment_loop parse at (tail @ a) = (rs, k1, c)"
    by (cases "segment_loop parse at (tail @ a)")
  have "0x0a \<notin> set (drop (c - at) (tail @ a))"
    using segment_loop_tail [of parse at "tail @ a"] unfolding l snd_conv .
  moreover have "follow_feed parse st a = ((c, drop (c - at) (tail @ a), k + k1), rs)"
    unfolding follow_feed_def st prod.case l ..
  ultimately show ?case unfolding follow_inv_def by simp
qed

text \<open>Polls of a growing segment: each piece is appended, then read from the offset so far.\<close>

fun follow_growth :: "(bytes \<Rightarrow> event option) \<Rightarrow> bytes \<Rightarrow> nat \<Rightarrow> bytes list
    \<Rightarrow> segment_record list \<times> nat \<times> nat" where
  "follow_growth parse content at [] = ([], 0, at)"
| "follow_growth parse content at (p # ps) =
     (case read_segment_records parse (content @ p) at of
        (rs, k, c) \<Rightarrow> then_read (rs, k, c) (follow_growth parse (content @ p) c ps))"

lemma follow_growth_pieces:
  "at \<le> length content \<Longrightarrow>
   follow_growth parse content at ps =
     (case feed_pieces (follow_feed parse) (at, drop at content, k) ps of
        ((c, _, k'), rs) \<Rightarrow> (rs, k' - k, c)) \<and>
   k \<le> snd (snd (fst (feed_pieces (follow_feed parse) (at, drop at content, k) ps)))"
proof (induction ps arbitrary: at content k)
  case Nil
  then show ?case by simp
next
  case (Cons p ps)
  obtain rs k1 c where l: "segment_loop parse at (drop at content @ p) = (rs, k1, c)"
    by (cases "segment_loop parse at (drop at content @ p)")
  have b: "at \<le> c" "c \<le> at + length (drop at content @ p)"
    using segment_loop_bounds [OF l] by simp_all
  have d: "drop at (content @ p) = drop at content @ p" using Cons.prems by simp
  have "drop (c - at) (drop at content @ p) = drop c (content @ p)"
    unfolding d [symmetric] drop_drop using b(1) by simp
  then have f: "follow_feed parse (at, drop at content, k) p = ((c, drop c (content @ p), k + k1), rs)"
    by (simp add: follow_feed_def l)
  have "c \<le> length (content @ p)" using b(2) Cons.prems by simp
  note IH = Cons.IH [OF this, of "k + k1"]
  obtain c2 t2 k2 rs2 where fp:
    "feed_pieces (follow_feed parse) (c, drop c (content @ p), k + k1) ps = ((c2, t2, k2), rs2)"
    by (metis surj_pair)
  have "follow_growth parse (content @ p) c ps = (rs2, k2 - (k + k1), c2)" "k + k1 \<le> k2"
    using IH unfolding fp by simp_all
  moreover have "read_segment_records parse (content @ p) at = (rs, k1, c)"
    unfolding read_segment_records_def d by (rule l)
  moreover have "feed_pieces (follow_feed parse) (at, drop at content, k) (p # ps) = ((c2, t2, k2), rs @ rs2)"
    by (simp only: feed_pieces.simps f fp Let_def prod.case)
  ultimately show ?case by (simp only: follow_growth.simps prod.case then_read_def fst_conv snd_conv) simp
qed

lemma follow_growth_whole: "follow_growth parse [] 0 ps = read_segment_records parse (concat ps) 0"
proof -
  have "feed_pieces (follow_feed parse) (0, [], 0) ps = follow_feed parse (0, [], 0) (concat ps)"
    by (rule follow.feed_pieces_concat) (simp add: follow_inv_def)
  then show ?thesis
    using follow_growth_pieces [of 0 "[]" parse ps 0]
    by (auto simp: follow_feed_def read_segment_records_def split: prod.splits)
qed

subsection \<open>Following and replaying\<close>

lemma read_lines_append:
  "read_lines parse (xs @ ys) =
     (fst (read_lines parse xs) @ fst (read_lines parse ys),
      snd (read_lines parse xs) + snd (read_lines parse ys))"
  by (induction xs) (auto simp: Let_def split: prod.splits option.splits)

lemma segment_loop_lines:
  "buf = [] \<or> List.last buf = 0x0a \<Longrightarrow>
   read_lines parse (split_on 0x0a buf) =
     (map sr_event (fst (segment_loop parse at buf)), fst (snd (segment_loop parse at buf)))"
proof (induction parse at buf rule: segment_loop.induct)
  case (1 parse at buf)
  show ?case
  proof (cases "split_once 0x0a buf")
    case None
    then have "buf = []" using "1.prems" by (metis last_in_set split_once_None)
    then show ?thesis by (simp add: segment_loop_None strip_cr_def)
  next
    case (Some lr)
    obtain line rest where s: "split_once 0x0a buf = Some (line, rest)" using Some by (cases lr) simp
    then have b: "buf = line @ 0x0a # rest" "0x0a \<notin> set line" using split_once_Some by fastforce+
    then have "rest = [] \<or> List.last rest = 0x0a" using "1.prems" by (auto split: if_splits)
    then have "read_lines parse (split_on 0x0a rest) =
        (map sr_event (fst (segment_loop parse (at + length line + 1) rest)),
         fst (snd (segment_loop parse (at + length line + 1) rest)))"
      using "1.IH" [OF s refl refl] by simp
    then show ?thesis
      unfolding segment_loop_Some [OF s] using b
      by (auto simp: split_on_append_sep line_result_def Let_def split: prod.splits option.splits)
  qed
qed

subsection \<open>Replaying what was appended\<close>

text \<open>What the log relies on in the rendering of an event: it parses back, is valid UTF-8, and is
  one line that does not end in a carriage return.\<close>

definition line_ok :: "(event \<Rightarrow> bytes) \<Rightarrow> (bytes \<Rightarrow> event option) \<Rightarrow> event \<Rightarrow> bool" where
  "line_ok ser parse e \<longleftrightarrow> parse (ser e) = Some e \<and> utf8_valid (ser e) \<and> ser e \<noteq> [] \<and>
     0x0a \<notin> set (ser e) \<and> List.last (ser e) \<noteq> 0x0d"

lemma read_lines_concat:
  "list_all (line_ok ser parse) es \<Longrightarrow>
   read_lines parse (split_on 0x0a (concat (map (\<lambda>e. ser e @ [0x0a]) es))) = (es, 0)"
  by (induction es) (simp_all add: strip_cr_def line_ok_def split_on_append_sep parse_line_def)

text \<open>\<open>holds_lines ser segs L\<close>: the segments hold exactly the events of \<open>L\<close>, one per line.\<close>

definition holds_lines :: "(event \<Rightarrow> bytes) \<Rightarrow> segments \<Rightarrow> event multiset \<Rightarrow> bool" where
  "holds_lines ser segs L \<longleftrightarrow>
     (\<exists>ess. map snd segs = map (\<lambda>es. concat (map (\<lambda>e. ser e @ [0x0a]) es)) ess \<and> mset (concat ess) = L)"

lemma ex_Cons_map:
  "(\<exists>ess. c # cs = map F ess \<and> P ess) \<longleftrightarrow> (\<exists>es ess. c = F es \<and> cs = map F ess \<and> P (es # ess))"
proof
  assume "\<exists>ess. c # cs = map F ess \<and> P ess"
  then obtain ess where "c # cs = map F ess \<and> P ess" ..
  then show "\<exists>es ess. c = F es \<and> cs = map F ess \<and> P (es # ess)" by (cases ess) auto
next
  assume "\<exists>es ess. c = F es \<and> cs = map F ess \<and> P (es # ess)"
  then obtain es ess where "c = F es" "cs = map F ess" "P (es # ess)" by blast
  then show "\<exists>ess. c # cs = map F ess \<and> P ess" by (intro exI [of _ "es # ess"]) simp
qed

lemma holds_lines_Cons:
  "holds_lines ser ((n, c) # segs) L \<longleftrightarrow>
     (\<exists>es M. c = concat (map (\<lambda>e. ser e @ [0x0a]) es) \<and> holds_lines ser segs M \<and> L = mset es + M)"
  unfolding holds_lines_def list.map snd_conv ex_Cons_map by (auto; blast)

lemma holds_lines_Nil: "holds_lines ser [] {#}"
  by (simp add: holds_lines_def)

lemma append_to_holds:
  "holds_lines ser segs L \<Longrightarrow> holds_lines ser (append_to name (ser e @ [0x0a]) segs) (add_mset e L)"
proof (induction segs arbitrary: L)
  case Nil
  then have "L = {#}" by (auto simp: holds_lines_def)
  then show ?case
    by (auto simp: append_to_def holds_lines_Cons holds_lines_Nil intro!: exI [of _ "[e]"] exI [of _ "{#}"])
next
  case (Cons s segs)
  obtain n c where s: "s = (n, c)" by (cases s)
  obtain es M where m: "c = concat (map (\<lambda>e. ser e @ [0x0a]) es)" "holds_lines ser segs M" "L = mset es + M"
    using Cons.prems by (auto simp: s holds_lines_Cons)
  show ?case
  proof (cases "n = name")
    case True
    then have "append_to name (ser e @ [0x0a]) (s # segs) = (n, c @ ser e @ [0x0a]) # segs"
      by (simp add: append_to_def s)
    moreover have "c @ ser e @ [0x0a] = concat (map (\<lambda>e. ser e @ [0x0a]) (es @ [e]))" using m(1) by simp
    moreover have "add_mset e L = mset (es @ [e]) + M" using m(3) by simp
    ultimately show ?thesis using m(2) holds_lines_Cons by metis
  next
    case False
    then have "append_to name (ser e @ [0x0a]) (s # segs) = (n, c) # append_to name (ser e @ [0x0a]) segs"
      by (simp add: append_to_def s)
    moreover have "add_mset e L = mset es + add_mset e M" using m(3) by simp
    ultimately show ?thesis using m(1) Cons.IH [OF m(2)] holds_lines_Cons by metis
  qed
qed

lemma insert_segment_mset: "mset (insert_segment s segs) = add_mset s (mset segs)"
  by (induction segs) auto

lemma sort_segments_mset: "mset (sort_segments segs) = mset segs"
  by (induction segs) (auto simp: sort_segments_def insert_segment_mset)

lemma read_lines_segments:
  "holds_lines ser segs L \<Longrightarrow> \<forall>e\<in>#L. line_ok ser parse e \<Longrightarrow>
    mset (fst (read_lines parse (concat (map (split_on 0x0a \<circ> snd) segs)))) = L \<and>
    snd (read_lines parse (concat (map (split_on 0x0a \<circ> snd) segs))) = 0"
proof (induction segs arbitrary: L)
  case Nil
  then show ?case by (simp add: holds_lines_def)
next
  case (Cons s segs)
  obtain n c where s: "s = (n, c)" by (cases s)
  obtain es M where m: "c = concat (map (\<lambda>e. ser e @ [0x0a]) es)" "holds_lines ser segs M" "L = mset es + M"
    using Cons.prems(1) by (auto simp: s holds_lines_Cons)
  have "list_all (line_ok ser parse) es" "\<forall>e\<in>#M. line_ok ser parse e"
    using Cons.prems(2) m(3) by (auto simp: list_all_iff)
  then show ?case using Cons.IH [OF m(2)] m(1,3) read_lines_concat [of ser parse es]
    by (simp add: s read_lines_append)
qed

lemma holds_lines_perm:
  "mset segs = mset segs' \<Longrightarrow> holds_lines ser segs L \<Longrightarrow> holds_lines ser segs' L"
proof (induction segs' arbitrary: segs L)
  case Nil
  then show ?case by simp
next
  case (Cons s segs')
  have "s \<in># mset segs" using Cons.prems(1) by simp
  then obtain xs ys where segs: "segs = xs @ s # ys" by (metis in_multiset_in_set split_list)
  then have m: "mset (xs @ ys) = mset segs'" using Cons.prems(1) by simp
  have "holds_lines ser (s # xs @ ys) L"
    using Cons.prems(2) unfolding segs
  proof (induction xs arbitrary: L)
    case (Cons x xs)
    obtain n c k d where xs: "x = (n, c)" "s = (k, d)" by (cases x; cases s)
    from Cons.prems obtain es M where m: "c = concat (map (\<lambda>e. ser e @ [0x0a]) es)"
        "holds_lines ser (xs @ s # ys) M" "L = mset es + M"
      by (auto simp: xs(1) holds_lines_Cons)
    from Cons.IH [OF m(2)] obtain es' M' where m': "d = concat (map (\<lambda>e. ser e @ [0x0a]) es')"
        "holds_lines ser (xs @ ys) M'" "M = mset es' + M'"
      by (auto simp: xs(2) holds_lines_Cons)
    have "holds_lines ser (x # xs @ ys) (mset es + M')"
      unfolding xs(1) holds_lines_Cons using m(1) m'(2) by blast
    moreover have "L = mset es' + (mset es + M')" using m(3) m'(3) by simp
    ultimately show ?case unfolding append_Cons xs(2) holds_lines_Cons using m'(1) by blast
  qed simp
  then show ?case using Cons.IH [OF m] by (cases s) (auto simp: holds_lines_Cons)
qed

lemma read_session_replay:
  assumes "\<forall>e\<in>#L. line_ok ser parse e" "holds_lines ser segs L"
  shows "mset (fst (read_session_events parse segs)) = L \<and>
    sorted (map merge_key (fst (read_session_events parse segs))) \<and>
    snd (read_session_events parse segs) = 0"
proof -
  have "holds_lines ser (sort_segments segs) L"
    using assms(2) holds_lines_perm sort_segments_mset by metis
  from read_lines_segments [OF this assms(1)] show ?thesis
    by (auto simp: read_session_events_def split: prod.splits)
qed

text \<open>
  A run of appends by any writers: the events reported as appended, the events whose whole line
  reached a segment (a failed sync reports an error after the write), and the final store.
\<close>

definition event_of_append :: "(json \<Rightarrow> bytes option) \<Rightarrow> (bytes \<Rightarrow> bytes) \<Rightarrow> append_env \<Rightarrow> event_draft
    \<Rightarrow> event_writer \<Rightarrow> blobs \<Rightarrow> event" where
  "event_of_append json_ser sha a d w bl =
     stamp d (env_minted a) (env_now a) (wr_id w) (wr_next w)
       (fst (prepare_data json_ser sha (env_blob_dirs a) (env_blob_wrote a) (dr_data d) (dr_preview d) bl))"

definition written_whole :: "append_env \<Rightarrow> bool" where
  "written_whole a \<longleftrightarrow> env_dir a \<and> (case open_segment (take 8 (env_rounds a)) of Inr n \<Rightarrow> True | Inl e \<Rightarrow> False) \<and>
     (case env_write a of TornAfter k \<Rightarrow> False | _ \<Rightarrow> True)"

fun run_appends :: "(json \<Rightarrow> bytes option) \<Rightarrow> (bytes \<Rightarrow> bytes) \<Rightarrow> (event \<Rightarrow> bytes)
    \<Rightarrow> (append_env \<times> event_draft \<times> bool \<times> event_writer) list \<Rightarrow> blobs \<times> segments
    \<Rightarrow> event list \<times> event list \<times> blobs \<times> segments" where
  "run_appends json_ser sha ser [] st = ([], [], st)"
| "run_appends json_ser sha ser ((a, d, durable, w) # ops) st =
     (case append_event json_ser sha ser a d durable w st of
        (r, w', st') \<Rightarrow>
          (case run_appends json_ser sha ser ops st' of
             (oks, es, st2) \<Rightarrow>
               ((case r of Inr e \<Rightarrow> e # oks | Inl err \<Rightarrow> oks),
                (if written_whole a then event_of_append json_ser sha a d w (fst st) # es else es), st2)))"

text \<open>No write of a run stops in the middle of its line.\<close>

definition untorn :: "append_env \<Rightarrow> bool" where
  "untorn a \<longleftrightarrow> (case env_write a of TornAfter k \<Rightarrow> k = 0 | _ \<Rightarrow> True)"

lemma append_nothing_holds: "holds_lines ser segs L \<Longrightarrow> holds_lines ser (append_to name [] segs) L"
proof (induction segs arbitrary: L)
  case Nil
  then have "L = {#}" by (auto simp: holds_lines_def)
  then show ?case
    by (auto simp: append_to_def holds_lines_Cons holds_lines_Nil intro!: exI [of _ "[]"] exI [of _ "{#}"])
next
  case (Cons s segs)
  obtain n c where s: "s = (n, c)" by (cases s)
  obtain es M where m: "c = concat (map (\<lambda>e. ser e @ [0x0a]) es)" "holds_lines ser segs M" "L = mset es + M"
    using Cons.prems by (auto simp: s holds_lines_Cons)
  have "append_to name [] (s # segs) = (n, c) # (if n = name then segs else append_to name [] segs)"
    by (simp add: append_to_def s)
  moreover have "holds_lines ser (if n = name then segs else append_to name [] segs) M"
    using m(2) Cons.IH [OF m(2)] by simp
  ultimately show ?case using m(1,3) by (simp only: holds_lines_Cons) blast
qed

lemma append_event_segments:
  assumes "append_event json_ser sha ser a d durable w st = (r, w', st')" "holds_lines ser (snd st) L" "untorn a"
  shows "holds_lines ser (snd st')
      (if written_whole a then add_mset (event_of_append json_ser sha a d w (fst st)) L else L) \<and>
    (\<forall>e. r = Inr e \<longrightarrow> written_whole a \<and> e = event_of_append json_ser sha a d w (fst st))"
proof -
  obtain p bl where p: "prepare_data json_ser sha (env_blob_dirs a) (env_blob_wrote a) (dr_data d) (dr_preview d)
      (fst st) = (p, bl)" by (metis surj_pair)
  define e where "e = event_of_append json_ser sha a d w (fst st)"
  have e: "stamp d (env_minted a) (env_now a) (wr_id w) (wr_next w) p = e"
    by (simp add: e_def event_of_append_def p)
  obtain r1 segs where l: "append_line ser (env_dir a) (env_rounds a) (env_write a) durable e (snd st) = (r1, segs)"
    by (metis surj_pair)
  have "st' = (bl, segs)" "r = (case r1 of Inl err \<Rightarrow> Inl err | Inr u \<Rightarrow> Inr e)"
    using assms(1) by (auto simp: append_event_def p e l Let_def split: sum.splits)
  then show ?thesis
    using l append_to_holds [OF assms(2)] append_nothing_holds [OF assms(2)] assms(2,3)
    by (auto simp: append_line_def written_whole_def untorn_def Let_def simp flip: e_def
        split: sum.splits if_splits write_answer.splits)
qed

lemma run_appends_holds:
  "run_appends json_ser sha ser ops st = (oks, es, st') \<Longrightarrow> holds_lines ser (snd st) L \<Longrightarrow>
   list_all (untorn \<circ> fst) ops \<Longrightarrow>
   holds_lines ser (snd st') (mset es + L) \<and> mset oks \<subseteq># mset es"
proof (induction ops arbitrary: st oks es L)
  case Nil
  then show ?case by auto
next
  case (Cons x ops)
  obtain a d durable w where x: "x = (a, d, durable, w)" by (cases x)
  obtain r w' st1 where r: "append_event json_ser sha ser a d durable w st = (r, w', st1)" by (metis prod_cases3)
  define e where "e = event_of_append json_ser sha a d w (fst st)"
  obtain oks1 es1 where run: "run_appends json_ser sha ser ops st1 = (oks1, es1, st')"
      "oks = (case r of Inr e \<Rightarrow> e # oks1 | Inl err \<Rightarrow> oks1)" "es = (if written_whole a then e # es1 else es1)"
    using Cons.prems(1) by (auto simp: x r e_def split: prod.splits)
  have u: "untorn a" "list_all (untorn \<circ> fst) ops" using Cons.prems(3) by (simp_all add: x comp_def)
  note one = append_event_segments [OF r Cons.prems(2) u(1), folded e_def]
  from Cons.IH [OF run(1) conjunct1 [OF one] u(2)]
  have "holds_lines ser (snd st') (mset es1 + (if written_whole a then add_mset e L else L))" "mset oks1 \<subseteq># mset es1"
    by simp_all
  then show ?case using conjunct2 [OF one] run(2,3)
    by (cases r) (auto intro: subset_mset.order_trans)
qed

subsection \<open>Properties\<close>

text \<open>C30: A follower that polls a segment while it grows, at any moments, returns each complete line's
  event exactly once and in order, with its byte range: together its polls are one read of the
  whole segment, and that read is, when the segment ends with a line, what a replay reads.\<close>

theorem follow_exact:
  "follow_growth parse [] 0 ps = read_segment_records parse (concat ps) 0 \<and>
   read_lines parse (split_on 0x0a (concat ps @ [0x0a])) =
     (map sr_event (fst (follow_growth parse [] 0 (ps @ [[0x0a]]))),
      fst (snd (follow_growth parse [] 0 (ps @ [[0x0a]]))))"
  using segment_loop_lines [of "concat ps @ [0x0a]" parse 0]
  by (simp add: follow_growth_whole read_segment_records_def)

text \<open>C29: Whatever writers append whatever drafts, with any of the appends failing short of a torn write,
  a replay of the segments returns exactly the events whose line was written, among them every
  event reported as appended, sorted by time, writer and sequence number, and skips nothing.\<close>

theorem log_replays_appends:
  assumes "list_all (line_ok ser parse) es" and "list_all (untorn \<circ> fst) ops"
    and "run_appends json_ser sha ser ops (Map.empty, []) = (oks, es, bl, segs)"
  shows "mset (fst (read_session_events parse segs)) = mset es \<and> mset oks \<subseteq># mset es \<and>
    sorted (map merge_key (fst (read_session_events parse segs))) \<and>
    snd (read_session_events parse segs) = 0"
  using read_session_replay [of "mset es" ser parse segs] assms(1)
    run_appends_holds [OF assms(3) _ assms(2), of "{#}"] holds_lines_Nil by (simp add: list_all_iff)

definition demo_draft :: event_draft where
  "demo_draft = \<lparr>dr_id = Some [1], dr_kind = Kind (ascii ''run.exited''), dr_namespace = Namespace (ascii ''ns''),
     dr_session = SessionName (ascii ''job''), dr_run_id = RunId [2], dr_generation = Some 1,
     dr_source = Source (ascii ''tendr.sidecar''), dr_block_id = None, dr_parent_id = None,
     dr_data = None, dr_preview = None\<rparr>"

definition demo_env :: append_env where
  "demo_env = \<lparr>env_minted = [3], env_now = EventTimestamp 5 6, env_blob_dirs = True, env_blob_wrote = True,
     env_dir = True,
     env_rounds = [\<lparr>rd_listed = Some [], rd_open = FileOk, rd_candidate = [0x61], rd_create = FileOk\<rparr>],
     env_write = WrittenNotSynced\<rparr>"

definition demo_event :: event where
  "demo_event = stamp demo_draft [3] (EventTimestamp 5 6) [2] 1 (None, None, None)"

text \<open>An append whose sync fails is reported as failed, and replayed all the same.\<close>

theorem log_replays_appends_witness:
  "list_all (line_ok (\<lambda>_. [0x7b]) (\<lambda>_. Some demo_event)) [demo_event] \<and>
   run_appends (\<lambda>_. None) (\<lambda>b. b) (\<lambda>_. [0x7b]) [(demo_env, demo_draft, True, with_writer [2])] (Map.empty, []) =
     ([], [demo_event], Map.empty, [([0x61], [0x7b, 0x0a])]) \<and>
   mset (fst (read_session_events (\<lambda>_. Some demo_event) [([0x61], [0x7b, 0x0a])])) = mset [demo_event]"
proof -
  have 1: "list_all (line_ok (\<lambda>_. [0x7b]) (\<lambda>_. Some demo_event)) [demo_event]"
    by (simp add: line_ok_def utf8_width_def)
  have 2: "run_appends (\<lambda>_. None) (\<lambda>b. b) (\<lambda>_. [0x7b]) [(demo_env, demo_draft, True, with_writer [2])] (Map.empty, []) =
     ([], [demo_event], Map.empty, [([0x61], [0x7b, 0x0a])])"
    by (simp add: append_event_def append_line_def append_to_def prepare_data_def with_writer_def demo_env_def
        demo_event_def demo_draft_def event_of_append_def written_whole_def Let_def)
  have 3: "list_all (untorn \<circ> fst) [(demo_env, demo_draft, True, with_writer [2])]"
    by (simp add: untorn_def demo_env_def)
  show ?thesis using 1 2 log_replays_appends [OF 1 3 2] by blast
qed

end
