(* ===== verification/Lifecycle_Log.thy ===== *)
theory Lifecycle_Log
  imports Reconcile_Props Event_Follow
begin

text \<open>
  The sidecar's writer of lifecycle events (\<open>LifecycleEvents\<close> and \<open>Fact\<close> in \<open>src/src/sidecar.rs\<close>,
  \<open>append_lost_found\<close> in \<open>src/src/events.rs\<close>): each transition is logged before the session record
  is written; an event whose append fails is salvaged to the lost-and-found file. At the end, the
  writer and reconciliation are composed: an outcome the sidecar logged survives its crash.
\<close>

subsection \<open>Writers\<close>

record lifecycle_events =
  lc_writer :: event_writer
  lc_namespace :: namespace
  lc_session :: session_name
  lc_run_id :: run_id
  lc_generation :: generation

definition new_lifecycle :: "namespace \<Rightarrow> session_name \<Rightarrow> run_id \<Rightarrow> generation \<Rightarrow> lifecycle_events" where
  "new_lifecycle ns s rid g =
     \<lparr>lc_writer = with_writer (run_uuid rid), lc_namespace = ns, lc_session = s, lc_run_id = rid, lc_generation = g\<rparr>"

text \<open>The same session and run, under a fresh writer identity.\<close>

definition with_fresh_writer :: "bytes \<Rightarrow> lifecycle_events \<Rightarrow> lifecycle_events" where
  "with_fresh_writer minted lc = lc\<lparr>lc_writer := with_writer minted\<rparr>"

text \<open>\<open>None\<close> where the source would panic on an invalid kind or source name.\<close>

definition sidecar_draft :: "lifecycle_events \<Rightarrow> event_kind \<Rightarrow> json \<Rightarrow> event_draft option" where
  "sidecar_draft lc k data =
     (case trusted_source (ascii ''tendr.sidecar'') of
        Inl e \<Rightarrow> None
      | Inr src \<Rightarrow>
          Some \<lparr>dr_id = None, dr_kind = k, dr_namespace = lc_namespace lc, dr_session = lc_session lc,
            dr_run_id = lc_run_id lc, dr_generation = Some (generation_u64 (lc_generation lc)), dr_source = src,
            dr_block_id = None, dr_parent_id = None, dr_data = Some data, dr_preview = None\<rparr>)"

definition lifecycle_draft :: "(boundary_context \<Rightarrow> json) \<Rightarrow> lifecycle_events \<Rightarrow> meta \<Rightarrow> event_draft option" where
  "lifecycle_draft bj lc m =
     (case lifecycle_kind (status m) of
        None \<Rightarrow> None
      | Some k \<Rightarrow> sidecar_draft lc k
          (lifecycle_data bj (status m) (ascii ''direct'') (spec_boundary (launch_spec m))))"

subsection \<open>Salvage\<close>

text \<open>What salvage finds: whether the tendr root is known, fresh identities, and the file system.\<close>

record salvage_env =
  sv_root :: bool
  sv_minted :: bytes
  sv_now :: event_timestamp
  sv_fresh :: bytes
  sv_dir :: bool
  sv_open :: bool
  sv_write :: write_answer

text \<open>The contents of the lost-and-found file after one append to it; it is not synced.\<close>

definition append_lost_found :: "(event \<Rightarrow> bytes) \<Rightarrow> salvage_env \<Rightarrow> event \<Rightarrow> bytes \<Rightarrow> bool \<times> bytes" where
  "append_lost_found ser v e lost =
     (let line = ser e @ [0x0a]
      in if \<not> (sv_dir v \<and> sv_open v) then (False, lost)
         else (case sv_write v of
           TornAfter k \<Rightarrow> (False, lost @ take (min k (length line - 1)) line)
         | _ \<Rightarrow> (True, lost @ line)))"

definition salvage_to_lost_found :: "(json \<Rightarrow> bytes option) \<Rightarrow> (event \<Rightarrow> bytes) \<Rightarrow> salvage_env
    \<Rightarrow> event_draft \<Rightarrow> bytes \<Rightarrow> bytes" where
  "salvage_to_lost_found json_ser ser v d lost =
     (if \<not> sv_root v then lost
      else snd (append_lost_found ser v (stamp_orphan_event json_ser (sv_minted v) (sv_now v) (sv_fresh v) d) lost))"

subsection \<open>Emitting\<close>

text \<open>The session's event store and the lost-and-found file.\<close>

record log_files =
  lf_store :: "blobs \<times> segments"
  lf_lost :: bytes

definition emit :: "(json \<Rightarrow> bytes option) \<Rightarrow> (bytes \<Rightarrow> bytes) \<Rightarrow> (event \<Rightarrow> bytes) \<Rightarrow> (boundary_context \<Rightarrow> json)
    \<Rightarrow> (append_error \<Rightarrow> bytes) \<Rightarrow> append_env \<Rightarrow> salvage_env \<Rightarrow> bool \<Rightarrow> lifecycle_events \<Rightarrow> meta \<Rightarrow> log_files
    \<Rightarrow> lifecycle_events \<times> meta \<times> log_files" where
  "emit json_ser sha ser bj show_err a v durable lc m f =
     (case lifecycle_draft bj lc m of
        None \<Rightarrow> (lc, m, f)
      | Some d \<Rightarrow>
          (case append_event json_ser sha ser a d durable (lc_writer lc) (lf_store f) of
             (Inr e, w', st) \<Rightarrow> (lc\<lparr>lc_writer := w'\<rparr>, m, f\<lparr>lf_store := st\<rparr>)
           | (Inl err, w', st) \<Rightarrow>
               (lc\<lparr>lc_writer := w'\<rparr>, add_warning (ascii ''event log append failed: '' @ show_err err) m,
                f\<lparr>lf_store := st, lf_lost := salvage_to_lost_found json_ser ser v d (lf_lost f)\<rparr>)))"

text \<open>The record could not be written after a terminal transition.\<close>

definition salvage_unrecorded :: "(json \<Rightarrow> bytes option) \<Rightarrow> (event \<Rightarrow> bytes) \<Rightarrow> (boundary_context \<Rightarrow> json)
    \<Rightarrow> salvage_env \<Rightarrow> lifecycle_events \<Rightarrow> meta \<Rightarrow> bytes \<Rightarrow> bytes \<Rightarrow> bytes" where
  "salvage_unrecorded json_ser ser bj v lc m record_error lost =
     (case lifecycle_draft bj lc m of
        None \<Rightarrow> lost
      | Some d \<Rightarrow>
          let d' = d\<lparr>dr_data := map_option
                (\<lambda>data. json_set (ascii ''warnings'') (JArray (map JString (warnings m)))
                   (json_set (ascii ''meta_write_error'') (JString record_error) data)) (dr_data d)\<rparr>
          in salvage_to_lost_found json_ser ser v d' lost)"

subsection \<open>Other facts\<close>

datatype fact = CallbackFinished | RecordingStopped | ControlChanged | InputRevoked

fun fact_kind :: "fact \<Rightarrow> bytes" where
  "fact_kind CallbackFinished = ascii ''callback.finished''"
| "fact_kind RecordingStopped = ascii ''recording.stopped''"
| "fact_kind ControlChanged = ascii ''pty.control_changed''"
| "fact_kind InputRevoked = ascii ''pty.input_revoked''"

text \<open>\<open>data\<close> is \<open>None\<close> when it does not serialize; failures are ignored.\<close>

definition append_fact :: "(json \<Rightarrow> bytes option) \<Rightarrow> (bytes \<Rightarrow> bytes) \<Rightarrow> (event \<Rightarrow> bytes) \<Rightarrow> append_env
    \<Rightarrow> fact \<Rightarrow> json option \<Rightarrow> lifecycle_events \<Rightarrow> log_files \<Rightarrow> lifecycle_events \<times> log_files" where
  "append_fact json_ser sha ser a fct data lc f =
     (case (new_kind (fact_kind fct), data) of
        (Inr k, Some x) \<Rightarrow>
          (case sidecar_draft lc k x of
             None \<Rightarrow> (lc, f)
           | Some d \<Rightarrow>
               (case append_event json_ser sha ser a d False (lc_writer lc) (lf_store f) of
                  (r, w', st) \<Rightarrow> (lc\<lparr>lc_writer := w'\<rparr>, f\<lparr>lf_store := st\<rparr>)))
      | _ \<Rightarrow> (lc, f))"

subsection \<open>Facts\<close>

lemma sidecar_source: "trusted_source (ascii ''tendr.sidecar'') = Inr (Source (ascii ''tendr.sidecar''))"
  by code_simp

lemma lifecycle_draft_eq: "lifecycle_draft bj lc m =
    Some \<lparr>dr_id = None, dr_kind = Kind (lifecycle_kind_name (status m)), dr_namespace = lc_namespace lc,
      dr_session = lc_session lc, dr_run_id = lc_run_id lc,
      dr_generation = Some (generation_u64 (lc_generation lc)), dr_source = Source (ascii ''tendr.sidecar''),
      dr_block_id = None, dr_parent_id = None,
      dr_data = Some (lifecycle_data bj (status m) (ascii ''direct'') (spec_boundary (launch_spec m))),
      dr_preview = None\<rparr>"
  by (simp add: lifecycle_draft_def lifecycle_kind_eq sidecar_draft_def sidecar_source)

subsection \<open>Crashing between the log and the record\<close>

lemma find_in: "List.find P xs = Some x \<Longrightarrow> x \<in> set xs \<and> P x"
  by (induction xs) (auto split: if_splits)

lemma find_only:
  assumes "mset xs = add_mset e L" "P e" "\<forall>x\<in>#L. \<not> P x"
  shows "List.find P (rev xs) = Some e"
proof -
  have s: "set (rev xs) = insert e (set_mset L)"
    using arg_cong [OF assms(1), of set_mset] by simp
  then have "List.find P (rev xs) \<noteq> None" using assms(2) by (auto simp: find_None_iff)
  then obtain x where x: "List.find P (rev xs) = Some x" by blast
  with find_in [OF x] s assms(3) show ?thesis by auto
qed

text \<open>The event an emit appends, of a draft whose data is small enough to be inline.\<close>

definition inline_data :: "(json \<Rightarrow> bytes option) \<Rightarrow> json \<Rightarrow> bool" where
  "inline_data json_ser v \<longleftrightarrow> (case json_ser v of Some bs \<Rightarrow> length bs \<le> max_inline_data_bytes | None \<Rightarrow> True)"

lemma event_of_inline:
  "dr_data d = Some v \<Longrightarrow> inline_data json_ser v \<Longrightarrow>
   event_of_append json_ser sha a d w bl =
     stamp d (env_minted a) (env_now a) (wr_id w) (wr_next w) (Some v, None, None)"
  by (auto simp: event_of_append_def prepare_data_def inline_data_def split: option.splits)

lemma emit_holds:
  assumes "lifecycle_draft bj lc m = Some d" "holds_lines ser (snd (lf_store f)) L" "written_whole a"
    and "emit json_ser sha ser bj show_err a v durable lc m f = (lc', m', f')"
  shows "holds_lines ser (snd (lf_store f'))
    (add_mset (event_of_append json_ser sha a d (lc_writer lc) (fst (lf_store f))) L)"
proof -
  obtain r w' st where ap: "append_event json_ser sha ser a d durable (lc_writer lc) (lf_store f) = (r, w', st)"
    by (metis prod_cases3)
  have "untorn a" using assms(3) by (simp add: written_whole_def untorn_def split: write_answer.splits)
  from append_event_segments [OF ap assms(2) this] assms(3)
  have "holds_lines ser (snd st)
    (add_mset (event_of_append json_ser sha a d (lc_writer lc) (fst (lf_store f))) L)" by simp
  moreover have "lf_store f' = st" using assms(4) by (auto simp: emit_def assms(1) ap split: sum.splits)
  ultimately show ?thesis by simp
qed

text \<open>C4: A sidecar that dies after logging how the run ended and before writing the session record loses
  nothing: reconciliation replays the log and records exactly that outcome, at the time it was
  logged, provided the line was written, even if the append then reported a failed sync, and
  whatever else writers had appended to the log, short of another end of the same run.\<close>

theorem logged_outcome_survives:
  assumes "status m = Exited c how t" and "status stale = Running c" and "run_id m = run_id stale"
    and "how \<noteq> ExitedError 0"
    and "lc_run_id lc = run_id m" and "wr_id (lc_writer lc) = run_uuid (run_id m)"
    and "lifecycle_draft bj lc m = Some d" and "inline_data json_ser (the (dr_data d))"
    and "e = event_of_append json_ser sha a d (lc_writer lc) (fst (lf_store f))"
    and "holds_lines ser (snd (lf_store f)) L"
    and "line_ok ser parse e" and "\<forall>x\<in>#L. line_ok ser parse x \<and> \<not> sidecar_terminal (run_id m) x"
    and "written_whole a"
    and "emit json_ser sha ser bj show_err a v True lc m f = (lc', m', f')"
    and "rc_lock g = LockAcquired" and "rc_meta g = Inr stale" and "rc_write_ok g"
    and "rc_events g = Some (fst (read_session_events parse (snd (lf_store f'))))"
  shows "fst (reconcile_sidecar_gone bj g stale) = Inr Healed \<and>
    status (fst (snd (reconcile_sidecar_gone bj g stale))) =
      Exited c how (EpochTimestamp (ts_epoch_secs (env_now a)))"
proof -
  define data where "data = lifecycle_data bj (Exited c how t) (ascii ''direct'') (spec_boundary (launch_spec m))"
  note d = assms(7) [unfolded lifecycle_draft_eq assms(1), folded data_def]
  have data: "dr_data d = Some data" using d by auto
  have e: "e = stamp d (env_minted a) (env_now a) (wr_id (lc_writer lc)) (wr_next (lc_writer lc)) (Some data, None, None)"
    using event_of_inline [OF data, of json_ser sha a "lc_writer lc" "fst (lf_store f)"] assms(8,9) data by simp
  have fields: "ev_ts e = env_now a" "ev_data e = Some data" using d by (auto simp: e stamp_def)
  have "sidecar_terminal (run_id m) e"
    using d assms(5,6) exited_kind [of c how t]
    by (auto simp: e stamp_def sidecar_terminal_def simp del: lifecycle_kind_name.simps)
  moreover have "holds_lines ser (snd (lf_store f')) (add_mset e L)"
    using emit_holds [OF assms(7,10,13,14)] assms(9) by simp
  then have "mset (fst (read_session_events parse (snd (lf_store f')))) = add_mset e L"
    using read_session_replay [of "add_mset e L" ser parse] assms(11,12) by simp
  ultimately have "find_sidecar_terminal_event g stale = Some e"
    using find_only [where P = "sidecar_terminal (run_id m)"] assms(3,12,18)
    by (simp add: find_sidecar_terminal_event_def)
  from heals_found_event [OF assms(2,4) this fields(2) [unfolded data_def] assms(15,16,17)]
  show ?thesis by (simp add: fields(1))
qed

definition demo_running :: meta where
  "demo_running = set_status (Running \<lparr>pid = 7, start_time_ns = 8\<rparr>) demo_start"

definition demo_ended :: meta where
  "demo_ended = set_status (Exited \<lparr>pid = 7, start_time_ns = 8\<rparr> (ExitedError 3) (EpochTimestamp 5)) demo_start"

definition demo_lifecycle :: lifecycle_events where
  "demo_lifecycle = new_lifecycle (Namespace (ascii ''ns'')) (SessionName (ascii ''job'')) (run_id demo_start)
     (Generation 1)"

definition demo_line :: event where
  "demo_line = event_of_append (\<lambda>_. None) (\<lambda>b. b) demo_env (the (lifecycle_draft (\<lambda>_. JNull) demo_lifecycle demo_ended))
     (lc_writer demo_lifecycle) Map.empty"

definition demo_emitted :: "lifecycle_events \<times> meta \<times> log_files" where
  "demo_emitted = emit (\<lambda>_. None) (\<lambda>b. b) (\<lambda>_. [0x7b]) (\<lambda>_. JNull) (\<lambda>_. []) demo_env
     \<lparr>sv_root = False, sv_minted = [], sv_now = EventTimestamp 0 0, sv_fresh = [], sv_dir = True, sv_open = True,
      sv_write = Written\<rparr> True demo_lifecycle demo_ended \<lparr>lf_store = (Map.empty, []), lf_lost = []\<rparr>"

definition demo_recon :: recon_env where
  "demo_recon = \<lparr>rc_lock = LockAcquired, rc_meta = Inr demo_running, rc_breadcrumb = None,
     rc_events = Some (fst (read_session_events (\<lambda>_. Some demo_line) (snd (lf_store (snd (snd demo_emitted)))))),
     rc_probe = (\<lambda>_. ProcessMissing), rc_kill = (\<lambda>_. None),
     rc_now = EpochTimestamp 200, rc_namespace = None, rc_write_ok = True\<rparr>"

text \<open>The append below reports a failed sync.\<close>

theorem logged_outcome_survives_witness:
  "fst (reconcile_sidecar_gone (\<lambda>_. JNull) demo_recon demo_running) = Inr Healed \<and>
   status (fst (snd (reconcile_sidecar_gone (\<lambda>_. JNull) demo_recon demo_running))) =
     Exited \<lparr>pid = 7, start_time_ns = 8\<rparr> (ExitedError 3) (EpochTimestamp (ts_epoch_secs (env_now demo_env)))"
proof -
  obtain lc' m' f' where em: "demo_emitted = (lc', m', f')" by (metis prod_cases3)
  obtain d where d: "lifecycle_draft (\<lambda>_. JNull) demo_lifecycle demo_ended = Some d" by (simp add: lifecycle_draft_eq)
  have "run_id demo_ended = run_id demo_running" "run_id demo_start = run_id demo_ended"
    by (simp_all add: demo_ended_def demo_running_def set_status_def)
  moreover have "written_whole demo_env" by (simp add: written_whole_def demo_env_def)
  moreover have "line_ok (\<lambda>_. [0x7b]) (\<lambda>_. Some demo_line) demo_line" by (simp add: line_ok_def utf8_width_def)
  moreover have "status demo_ended = Exited \<lparr>pid = 7, start_time_ns = 8\<rparr> (ExitedError 3) (EpochTimestamp 5)"
    "status demo_running = Running \<lparr>pid = 7, start_time_ns = 8\<rparr>"
    by (simp_all add: demo_ended_def demo_running_def set_status_def)
  moreover have "wr_id (lc_writer demo_lifecycle) = run_uuid (run_id demo_start)"
    "lc_run_id demo_lifecycle = run_id demo_start"
    by (simp_all add: demo_lifecycle_def new_lifecycle_def with_writer_def)
  moreover have "rc_lock demo_recon = LockAcquired" "rc_meta demo_recon = Inr demo_running" "rc_write_ok demo_recon"
    "rc_events demo_recon = Some (fst (read_session_events (\<lambda>_. Some demo_line) (snd (lf_store f'))))"
    by (simp_all add: demo_recon_def em)
  moreover have "ExitedError 3 \<noteq> ExitedError (0 :: u32)" by simp
  moreover have "inline_data (\<lambda>_. None) v" for v by (simp add: inline_data_def)
  moreover have "demo_line = event_of_append (\<lambda>_. None) (\<lambda>b. b) demo_env d (lc_writer demo_lifecycle) Map.empty"
    by (simp add: demo_line_def d)
  ultimately show ?thesis
    using logged_outcome_survives [OF _ _ _ _ _ _ d _ _ _ _ _ _ em [unfolded demo_emitted_def],
        where L = "{#}" and parse = "\<lambda>_. Some demo_line" and e = demo_line] holds_lines_Nil
    by simp
qed

end
