(* ===== verification/Supervised_Run.thy ===== *)
theory Supervised_Run
  imports Lifecycle_Log Recorder Std_Lines
begin

text \<open>
  The lifecycle guard of the sidecar (\<open>src/src/sidecar/supervised_run.rs\<close>, with the readiness and
  hook code of \<open>src/src/sidecar.rs\<close>): from the spawn of the child to its recorded end. A run is a
  sequence of steps on \<open>run_core\<close>; it may be abandoned, by a panic or an early return, before any
  of them. Files, clocks, threads and the child answer through \<open>sup_env\<close>; \<open>sp_trace\<close> is a history
  variable, the effects of the run in order. Fault injection exists in debug builds only and is
  left out.
\<close>

subsection \<open>Libraries and answers\<close>

text \<open>What the sidecar calls outside the repository: serializers, the hash, shell splitting.\<close>

record libs =
  lib_json :: "json \<Rightarrow> bytes option"
  lib_sha :: "bytes \<Rightarrow> bytes"
  lib_event :: "event \<Rightarrow> bytes"
  lib_boundary :: "boundary_context \<Rightarrow> json"
  lib_error :: "append_error \<Rightarrow> bytes"
  lib_meta :: "meta \<Rightarrow> bytes + bytes"
  lib_shell :: "bytes \<Rightarrow> bytes list option"
  lib_id :: "bytes \<Rightarrow> bytes"

text \<open>Where the run logs its status, writes its record and writes to the client.\<close>

datatype site = AtPublish | AtReadiness | AtOutput | AtEnd | AtUnrecorded | AtLateReadiness

text \<open>One poll for the end of the child.\<close>

datatype try_wait = WaitReaped | WaitAlive | WaitError process_status

text \<open>How the thread that kills gracefully ended.\<close>

datatype killer_end = KillerOk | KillerFailed bytes | KillerPanicked

datatype hook_answer = HookOk | HookFailed "int option" bytes | HookSpawnFailed bytes

text \<open>
  \<open>None\<close> is success where an answer is an optional error. A timed wait is the polls before its
  deadline and the first one at or after it.
\<close>

record sup_env =
  su_append :: "site \<Rightarrow> append_env"
  su_salvage :: "site \<Rightarrow> salvage_env"
  su_write :: "site \<Rightarrow> bytes option"
  su_owner :: "site \<Rightarrow> pty_control"
  su_stopped :: "site \<Rightarrow> stopped option"
  su_ready :: "site \<Rightarrow> bytes option"
  su_breadcrumb :: "bytes option"
  su_pty_writer :: bool
  su_stdin_pipe :: bool
  su_transport :: "bytes option"
  su_log_open :: "bytes option"
  su_stdout :: "bytes option"
  su_stderr :: "bytes option"
  su_errors_kept :: bool
  su_errors_read :: bool
  su_stdin_errors :: "bytes list"
  su_wait :: "bytes + int option"
  su_timed_out :: bool
  su_kill_forced :: bool
  su_kill_acted :: bool
  su_summary :: recorder_summary
  su_thread :: "bytes option"
  su_graceful :: killer_end
  su_force_first :: "bytes option"
  su_force_last :: "bytes option"
  su_polls_first :: "try_wait list \<times> try_wait"
  su_polls_last :: "try_wait list \<times> try_wait"
  su_now :: epoch_timestamp
  su_hook :: "nat \<Rightarrow> hook_answer"
  su_hook_append :: "nat \<Rightarrow> append_env"

subsection \<open>State\<close>

text \<open>
  The attach side of a PTY run. Started, it carries the directory of the recording while the
  recorder runs.
\<close>

datatype pty_side = NoPty | BoundPty | StartedPty "bytes option"

datatype sup_event = AttachStarted | StdinOpened | Logged run_status | Recorded meta
  | RecordFailed bytes | Salvaged | ReadySent bytes | ReadyLost | WatchersStarted
  | ChildReaped "int option" | ChildStopped bool | RecordingClosed | AttachEnded
  | Unlocked | HookRun nat bytes

text \<open>
  \<open>sp_ready\<close>: the client's channel is still owed its message; \<open>sp_timer\<close>: the timeout watcher runs;
  \<open>sp_child_pid\<close>: the breadcrumb exists; \<open>sp_lock\<close>: the session lock is held; \<open>sp_disk\<close>: the record
  in \<open>meta.json\<close>.
\<close>

record run_core =
  sp_identity :: process_identity
  sp_meta :: meta
  sp_lifecycle :: lifecycle_events
  sp_files :: log_files
  sp_disk :: "meta option"
  sp_ready :: bool
  sp_capture_errors :: "bytes option"
  sp_child_pid :: bool
  sp_pty :: pty_side
  sp_cancel :: bool
  sp_timer :: bool
  sp_step :: sidecar_step
  sp_ended :: bool
  sp_lock :: bool
  sp_trace :: "sup_event list"

definition adopt :: "process_identity \<Rightarrow> meta \<Rightarrow> lifecycle_events \<Rightarrow> log_files \<Rightarrow> meta option \<Rightarrow> bool \<Rightarrow> bool
    \<Rightarrow> run_core" where
  "adopt child m lc f disk ready attach =
     \<lparr>sp_identity = child, sp_meta = m, sp_lifecycle = lc, sp_files = f, sp_disk = disk, sp_ready = ready,
      sp_capture_errors = None, sp_child_pid = False, sp_pty = (if attach then BoundPty else NoPty),
      sp_cancel = False, sp_timer = False, sp_step = Breadcrumb, sp_ended = False, sp_lock = True, sp_trace = []\<rparr>"

definition traced :: "sup_event \<Rightarrow> run_core \<Rightarrow> run_core" where
  "traced x c = c\<lparr>sp_trace := sp_trace c @ [x]\<rparr>"

definition warn :: "bytes \<Rightarrow> run_core \<Rightarrow> run_core" where
  "warn w c = c\<lparr>sp_meta := add_warning w (sp_meta c)\<rparr>"

subsection \<open>Recording states\<close>

fun stop_reason_meta :: "stop_reason \<Rightarrow> recording_stop_reason" where
  "stop_reason_meta SizeLimit = SizeLimitStop"
| "stop_reason_meta (WriteFailed kind) = WriteFailedStop kind"
| "stop_reason_meta BacklogFull = BacklogFullStop"
| "stop_reason_meta Stalled = StalledStop"

definition stopped_state :: "stopped \<Rightarrow> sequence option \<Rightarrow> recording_state" where
  "stopped_state s synced =
     recording_state.RecordingStopped (map_option seq_get (last_recorded s)) (map_option seq_get synced)
       (stop_reason_meta (stop_cause s))"

text \<open>The final state, and a warning if the recording stopped early.\<close>

definition finished_recording :: "recorder_summary \<Rightarrow> recording_state \<times> bytes option" where
  "finished_recording s =
     (case sm_stopped s of
        None \<Rightarrow> (RecordingComplete (map_option seq_get (sm_recorded s)) (map_option seq_get (sm_synced s)), None)
      | Some st \<Rightarrow>
          let at = (case last_recorded st of
                None \<Rightarrow> ascii ''before its first record''
              | Some q \<Rightarrow> ascii ''at sequence '' @ show_nat (unat (seq_get q)));
              cause = (case stop_cause st of
                WriteFailed kind \<Rightarrow> ascii ''write_failed: '' @ kind
              | reason \<Rightarrow> stop_reason_str reason)
          in (stopped_state st (sm_synced s),
              Some (ascii ''recording stopped '' @ at @ ascii '' ('' @ cause @
                ascii ''); later output was not recorded'')))"

definition recording_meta :: "bytes \<Rightarrow> recording_state \<Rightarrow> pty_recording" where
  "recording_meta dir st = \<lparr>recording_dir = dir, input_is_recorded = False, recording_state = st\<rparr>"

subsection \<open>Writing the record, logging, readiness\<close>

text \<open>
  The record as it is written: with the control owner and the recording's state at that moment
  folded in.
\<close>

definition folded :: "sup_env \<Rightarrow> site \<Rightarrow> pty_side \<Rightarrow> meta \<Rightarrow> meta" where
  "folded e s p m =
     (case p of
        StartedPty rec \<Rightarrow>
          let m1 = set_pty_control (su_owner e s) m
          in (case rec of
                None \<Rightarrow> m1
              | Some dir \<Rightarrow> set_pty_recording (recording_meta dir
                  (case su_stopped e s of None \<Rightarrow> RecordingActive | Some st \<Rightarrow> stopped_state st None)) m1)
      | _ \<Rightarrow> m)"

definition write_meta :: "sup_env \<Rightarrow> site \<Rightarrow> run_core \<Rightarrow> bytes option \<times> run_core" where
  "write_meta e s c =
     (let m = folded e s (sp_pty c) (sp_meta c); c1 = c\<lparr>sp_meta := m\<rparr>
      in case su_write e s of
           None \<Rightarrow> (None, traced (Recorded m) (c1\<lparr>sp_disk := Some m\<rparr>))
         | Some err \<Rightarrow> (Some err, traced (RecordFailed err) c1))"

definition log_status :: "libs \<Rightarrow> sup_env \<Rightarrow> site \<Rightarrow> bool \<Rightarrow> run_core \<Rightarrow> run_core" where
  "log_status L e s durable c =
     (case emit (lib_json L) (lib_sha L) (lib_event L) (lib_boundary L) (lib_error L)
             (su_append e s) (su_salvage e s) durable (sp_lifecycle c) (sp_meta c) (sp_files c) of
        (lc, m, f) \<Rightarrow> traced (Logged (status (sp_meta c)))
          (c\<lparr>sp_lifecycle := lc, sp_meta := m, sp_files := f\<rparr>))"

datatype ready_delivery = Delivered | ClientGone bytes | AlreadySent

definition ready_message :: "libs \<Rightarrow> meta \<Rightarrow> bytes" where
  "ready_message L m =
     (case lib_meta L m of
        Inr json \<Rightarrow> ascii ''OK:'' @ json @ [0x0a]
      | Inl err \<Rightarrow> ascii ''ERROR:meta snapshot not serializable: '' @ err @ [0x0a])"

definition deliver_ready :: "libs \<Rightarrow> sup_env \<Rightarrow> site \<Rightarrow> run_core \<Rightarrow> ready_delivery \<times> run_core" where
  "deliver_ready L e s c =
     (if \<not> sp_ready c then (AlreadySent, c)
      else let c1 = c\<lparr>sp_ready := False\<rparr>
           in case su_ready e s of
                None \<Rightarrow> (Delivered, traced (ReadySent (ready_message L (sp_meta c))) c1)
              | Some err \<Rightarrow> (ClientGone err, traced ReadyLost c1))"

text \<open>Adds the warning of a lost delivery; whether the record changed.\<close>

fun record_delivery :: "ready_delivery \<Rightarrow> run_core \<Rightarrow> bool \<times> run_core" where
  "record_delivery (ClientGone err) c =
     (True, warn (ascii ''readiness not delivered: start client gone ('' @ err @ ascii '')'') c)"
| "record_delivery _ c = (False, c)"

definition signal_readiness :: "libs \<Rightarrow> sup_env \<Rightarrow> site \<Rightarrow> run_core \<Rightarrow> run_core" where
  "signal_readiness L e s c =
     (case deliver_ready L e s c of
        (d, c1) \<Rightarrow>
          (case record_delivery d c1 of
             (changed, c2) \<Rightarrow> if changed then snd (write_meta e s c2) else c2))"


subsection \<open>Stopping the child\<close>

text \<open>Reaped, or gone by the probe when it cannot be reaped.\<close>

fun poll_gone :: "try_wait \<Rightarrow> bool" where
  "poll_gone WaitReaped = True"
| "poll_gone WaitAlive = False"
| "poll_gone (WaitError p) = (p = ProcessMissing \<or> p = IdentityMismatch)"

fun wait_gone :: "try_wait list \<times> try_wait \<Rightarrow> bool" where
  "wait_gone ([], late) = poll_gone late"
| "wait_gone (p # ps, late) = (if poll_gone p then True else wait_gone (ps, late))"

record stopped_child =
  sd_gone :: bool
  sd_notes :: "bytes list"

definition stopped_summary :: "stopped_child \<Rightarrow> bytes" where
  "stopped_summary s =
     (if sd_gone s then ascii ''the child was stopped'' else ascii ''the child may still be running'')"

definition force_note :: "bytes option \<Rightarrow> bytes list" where
  "force_note r = (case r of None \<Rightarrow> [] | Some err \<Rightarrow> [ascii ''force-killing the child failed: '' @ err])"

definition terminate_and_reap :: "sup_env \<Rightarrow> process_identity \<Rightarrow> stopped_child" where
  "terminate_and_reap e child =
     (let notes = (case su_thread e of
            None \<Rightarrow> []
          | Some err \<Rightarrow> [ascii ''no thread for a graceful stop ('' @ err @ ascii ''); force-killing'']
              @ force_note (su_force_first e));
          first = wait_gone (su_polls_first e);
          gone = (if first then True else wait_gone (su_polls_last e));
          notes2 = (if first then notes else notes @ force_note (su_force_last e));
          notes3 = (if su_thread e \<noteq> None then notes2
            else notes2 @ (case su_graceful e of
                KillerOk \<Rightarrow> []
              | KillerFailed err \<Rightarrow> [ascii ''stopping the child failed: '' @ err]
              | KillerPanicked \<Rightarrow> [ascii ''stopping the child panicked'']))
      in \<lparr>sd_gone = gone,
          sd_notes = (if gone then notes3
            else notes3 @ [ascii ''child pid '' @ show_nat (unat (pid child)) @
              ascii '' may still be running: it outlived a forced kill''])\<rparr>)"

subsection \<open>Hooks\<close>

text \<open>The debug form of an exit reason, except that a sidecar failure is the bare name.\<close>

fun exit_reason_env :: "exit_reason \<Rightarrow> bytes" where
  "exit_reason_env (SidecarFailed s) = ascii ''SidecarFailed''"
| "exit_reason_env (ExitedError c) = ascii ''ExitedError { code: '' @ show_int (sint c) @ ascii '' }''"
| "exit_reason_env how = ascii (exit_reason_name how)"

definition hook_record :: "nat \<Rightarrow> bytes \<Rightarrow> hook_answer \<Rightarrow> json" where
  "hook_record i cmd r =
     JObject ([(ascii ''index'', JNum (int i)), (ascii ''command'', JString cmd)] @
       (case r of
          HookOk \<Rightarrow> [(ascii ''status'', JString (ascii ''ok''))]
        | HookFailed code err \<Rightarrow> [(ascii ''status'', JString (ascii ''failed'')),
            (ascii ''exit_code'', case code of None \<Rightarrow> JNull | Some x \<Rightarrow> JNum x),
            (ascii ''stderr'', JString (trim (utf8_lossy err)))]
        | HookSpawnFailed err \<Rightarrow> [(ascii ''status'', JString (ascii ''spawn_failed'')),
            (ascii ''error'', JString err)]))"

text \<open>
  One hook after the other, from index \<open>i\<close>, each given the exit reason in its environment; an
  empty command is skipped. The batch file outside the
  session directory is not part of the state.
\<close>

fun run_hooks :: "libs \<Rightarrow> sup_env \<Rightarrow> bytes \<Rightarrow> nat \<Rightarrow> bytes list \<Rightarrow> run_core \<Rightarrow> run_core" where
  "run_hooks L e reason i [] c = c"
| "run_hooks L e reason i (cmd # cmds) c =
     run_hooks L e reason (Suc i) cmds
       (if lib_shell L cmd = Some [] then c
        else (case append_fact (lib_json L) (lib_sha L) (lib_event L) (su_hook_append e i) CallbackFinished
                (Some (hook_record i cmd (su_hook e i))) (sp_lifecycle c) (sp_files c) of
                (lc, f) \<Rightarrow> traced (HookRun i reason) (c\<lparr>sp_lifecycle := lc, sp_files := f\<rparr>)))"

definition run_on_exit_hooks :: "libs \<Rightarrow> sup_env \<Rightarrow> run_core \<Rightarrow> run_core" where
  "run_on_exit_hooks L e c =
     (case status (sp_meta c) of
        Exited child how t \<Rightarrow> run_hooks L e (exit_reason_env how) 0 (on_exit (launch_spec (sp_meta c))) c
      | _ \<Rightarrow> c)"

subsection \<open>Ending a run\<close>

text \<open>Closes a recording at what it holds.\<close>

definition finish_recording :: "sup_env \<Rightarrow> run_core \<Rightarrow> run_core" where
  "finish_recording e c =
     (case sp_pty c of
        StartedPty (Some dir) \<Rightarrow>
          (case finished_recording (su_summary e) of
             (st, warning) \<Rightarrow>
               let c1 = traced RecordingClosed (c\<lparr>sp_pty := StartedPty None,
                 sp_meta := set_pty_recording (recording_meta dir st) (sp_meta c)\<rparr>)
               in (case warning of None \<Rightarrow> c1 | Some w \<Rightarrow> warn w c1))
      | _ \<Rightarrow> c)"

text \<open>The attach side ends with its socket; the final owner goes into the record.\<close>

definition clean_up_control_files :: "sup_env \<Rightarrow> run_core \<Rightarrow> run_core" where
  "clean_up_control_files e c =
     (case sp_pty c of
        StartedPty rec \<Rightarrow> traced AttachEnded (c\<lparr>sp_pty := NoPty,
          sp_meta := set_pty_control (su_owner e AtEnd) (sp_meta c)\<rparr>)
      | BoundPty \<Rightarrow> traced AttachEnded (c\<lparr>sp_pty := NoPty\<rparr>)
      | NoPty \<Rightarrow> c)"

text \<open>The timeout flag is the timeout watcher's.\<close>

definition classify :: "sup_env \<Rightarrow> run_core \<Rightarrow> exit_reason \<Rightarrow> exit_reason" where
  "classify e c how =
     (if sp_timer c \<and> su_timed_out e then TimedOut
      else if su_kill_forced e then KilledForced
      else if su_kill_acted e then Killed
      else how)"

definition collect_warnings :: "sup_env \<Rightarrow> run_core \<Rightarrow> bytes list" where
  "collect_warnings e c =
     (case sp_capture_errors c of
        Some errors \<Rightarrow> (if su_errors_read e
          then map (\<lambda>l. ascii ''log capture: '' @ l) (filter (\<lambda>l. l \<noteq> []) (str_lines errors)) else [])
      | None \<Rightarrow> []) @ su_stdin_errors e"

definition warn_all :: "bytes list \<Rightarrow> run_core \<Rightarrow> run_core" where
  "warn_all ws c = foldl (\<lambda>d w. warn w d) c ws"

fun show_transition_error :: "transition_error \<Rightarrow> bytes" where
  "show_transition_error (AlreadyTerminal s) =
     ascii ''cannot transition from '' @ ascii s @ [0x20, 0xe2, 0x80, 0x94] @ ascii '' already terminal''"
| "show_transition_error (Illegal a b) =
     ascii ''illegal transition from '' @ ascii a @ ascii '' to '' @ ascii b"

text \<open>A refused transition leaves a warning.\<close>

definition end_transition :: "bytes \<Rightarrow> transition_result \<Rightarrow> run_core \<Rightarrow> run_core" where
  "end_transition refused r c =
     (case r of
        (Inr u, m) \<Rightarrow> c\<lparr>sp_meta := m\<rparr>
      | (Inl err, m) \<Rightarrow> warn (refused @ show_transition_error err) (c\<lparr>sp_meta := m\<rparr>))"

text \<open>Unlocks, then runs the hooks.\<close>

definition unlock_run :: "libs \<Rightarrow> sup_env \<Rightarrow> run_core \<Rightarrow> run_core" where
  "unlock_run L e c = run_on_exit_hooks L e (traced Unlocked (c\<lparr>sp_lock := False\<rparr>))"

definition salvage_record :: "libs \<Rightarrow> sup_env \<Rightarrow> bytes \<Rightarrow> run_core \<Rightarrow> run_core" where
  "salvage_record L e err c =
     traced Salvaged (c\<lparr>sp_files := (sp_files c)\<lparr>lf_lost :=
       salvage_unrecorded (lib_json L) (lib_event L) (lib_boundary L) (su_salvage e AtUnrecorded)
         (sp_lifecycle c) (sp_meta c) err (lf_lost (sp_files c))\<rparr>\<rparr>)"

text \<open>The only normal exit; the result is the error of writing the record.\<close>

definition finish_run :: "libs \<Rightarrow> sup_env \<Rightarrow> exit_reason \<Rightarrow> run_core \<Rightarrow> bytes option \<times> run_core" where
  "finish_run L e raw c0 =
     (let c1 = finish_recording e (c0\<lparr>sp_ended := True, sp_cancel := True\<rparr>);
          how = classify e c1 raw;
          c2 = (clean_up_control_files e c1)\<lparr>sp_child_pid := False\<rparr>;
          c3 = warn_all (collect_warnings e c2) c2;
          c4 = end_transition (ascii ''terminal transition refused: '')
                 (transition_exited how (su_now e) (sp_meta c3)) c3;
          c5 = log_status L e AtEnd True c4
      in case write_meta e AtEnd c5 of
           (None, c6) \<Rightarrow> (None, unlock_run L e c6)
         | (Some err, c6) \<Rightarrow>
             (Some (ascii ''terminal meta not written: '' @ err), unlock_run L e (salvage_record L e err c6)))"

definition end_failed :: "libs \<Rightarrow> sup_env \<Rightarrow> sidecar_step \<Rightarrow> bytes \<Rightarrow> run_core \<Rightarrow> run_core" where
  "end_failed L e step err c =
     (if sp_ended c then c
      else let stopped = terminate_and_reap e (sp_identity c);
          c1 = traced (ChildStopped (sd_gone stopped))
                 (c\<lparr>sp_ended := True, sp_step := step, sp_cancel := True\<rparr>);
          c2 = warn (ascii ''sidecar failed at '' @ sidecar_step_as_str step @ ascii '': '' @ err)
                 (finish_recording e c1);
          c3 = clean_up_control_files e (warn_all (sd_notes stopped) c2);
          c4 = warn_all (collect_warnings e c3) c3;
          c5 = end_transition (ascii ''SidecarFailed transition refused: '')
                 (transition_sidecar_failed (sp_identity c) step (su_now e) (sp_meta c4)) c4;
          c6 = log_status L e AtEnd True c5
      in case write_meta e AtEnd c6 of
           (None, c7) \<Rightarrow>
             unlock_run L e (signal_readiness L e AtLateReadiness
               (if sd_gone stopped then c7\<lparr>sp_child_pid := False\<rparr> else c7))
         | (Some rerr, c7) \<Rightarrow>
             let c8 = salvage_record L e rerr c7;
                 message = ascii ''ERROR:sidecar failed at '' @ sidecar_step_as_str step @ ascii '': '' @ err @
                   ascii ''; '' @ stopped_summary stopped @
                   ascii ''; recording the failure also failed: '' @ rerr @ [0x0a]
             in unlock_run L e
                  (if sp_ready c8
                   then traced (if su_ready e AtLateReadiness = None then ReadySent message else ReadyLost)
                          (c8\<lparr>sp_ready := False\<rparr>)
                   else c8))"

text \<open>Dropping the guard of an abandoned run, after a panic or without one.\<close>

definition drop_core :: "libs \<Rightarrow> sup_env \<Rightarrow> bytes option \<Rightarrow> run_core \<Rightarrow> run_core" where
  "drop_core L e panicked c =
     (if sp_ended c then c
      else end_failed L e (sp_step c)
        (case panicked of
           Some msg \<Rightarrow> ascii ''panicked: '' @ msg
         | None \<Rightarrow> ascii ''supervision ended without an outcome'') c)"


subsection \<open>Publishing a run\<close>

definition fail :: "libs \<Rightarrow> sup_env \<Rightarrow> sidecar_step \<Rightarrow> bytes \<Rightarrow> run_core \<Rightarrow> run_core" where
  "fail L e step err c = end_failed L e step err c"

definition write_breadcrumb :: "sup_env \<Rightarrow> run_core \<Rightarrow> run_core" where
  "write_breadcrumb e c =
     (let c1 = c\<lparr>sp_step := Breadcrumb\<rparr>
      in case su_breadcrumb e of
           None \<Rightarrow> c1\<lparr>sp_child_pid := True\<rparr>
         | Some err \<Rightarrow> warn (ascii ''orphan breadcrumb not written: '' @ err) c1)"

text \<open>Starting the attach side twice is unreachable, a panic that drops the guard.\<close>

definition start_attach :: "libs \<Rightarrow> sup_env \<Rightarrow> run_core \<Rightarrow> run_core" where
  "start_attach L e c =
     (case sp_pty c of
        BoundPty \<Rightarrow>
          let c1 = c\<lparr>sp_step := AttachBind\<rparr>
          in if su_pty_writer e
             then traced AttachStarted (c1\<lparr>sp_pty :=
               StartedPty (Some (ascii ''recording/'' @ lib_id L (run_uuid (run_id (sp_meta c)))))\<rparr>)
             else fail L e AttachBind (ascii ''PTY write half unavailable'')
               (traced AttachEnded (c1\<lparr>sp_pty := NoPty\<rparr>))
      | NoPty \<Rightarrow> c
      | StartedPty rec \<Rightarrow> drop_core L e (Some (ascii ''internal error: entered unreachable code: a PTY attach side is started only once, when Running is published''))
          (c\<lparr>sp_pty := NoPty\<rparr>))"

definition open_stdin :: "libs \<Rightarrow> sup_env \<Rightarrow> run_core \<Rightarrow> run_core" where
  "open_stdin L e c =
     (if stdin_mode (launch_spec (sp_meta c)) = StdinPipe then
        let c1 = c\<lparr>sp_step := StdinTransport\<rparr>;
            err = (if sp_pty c = NoPty \<and> \<not> su_stdin_pipe e
                   then Some (ascii ''child stdin not piped'') else su_transport e)
        in (case err of
              None \<Rightarrow> traced StdinOpened c1
            | Some x \<Rightarrow> fail L e StdinTransport x c1)
      else c)"

definition record_running :: "libs \<Rightarrow> sup_env \<Rightarrow> run_core \<Rightarrow> run_core" where
  "record_running L e c =
     (let c1 = c\<lparr>sp_step := RunningMeta\<rparr>
      in case transition_running (sp_identity c) (sp_meta c1) of
           (Inl err, m) \<Rightarrow> fail L e RunningMeta (show_transition_error err) (c1\<lparr>sp_meta := m\<rparr>)
         | (Inr u, m) \<Rightarrow>
             let m1 = (if sp_pty c = NoPty then m else set_pty new_pty_meta m)
             in (case write_meta e AtPublish (log_status L e AtPublish False (c1\<lparr>sp_meta := m1\<rparr>)) of
                   (None, c2) \<Rightarrow> c2
                 | (Some err, c2) \<Rightarrow> fail L e RunningMeta err c2))"

definition publish_readiness :: "libs \<Rightarrow> sup_env \<Rightarrow> run_core \<Rightarrow> run_core" where
  "publish_readiness L e c =
     (let c1 = signal_readiness L e AtReadiness (c\<lparr>sp_step := Readiness\<rparr>)
      in traced WatchersStarted (c1\<lparr>sp_timer := (timeout_s (launch_spec (sp_meta c1)) \<noteq> None)\<rparr>))"

text \<open>Each step is reached only if the ones before it did not end the run.\<close>

definition unless_ended :: "(run_core \<Rightarrow> run_core) \<Rightarrow> run_core \<Rightarrow> run_core" where
  "unless_ended f c = (if sp_ended c then c else f c)"

definition publish_running :: "libs \<Rightarrow> sup_env \<Rightarrow> run_core \<Rightarrow> run_core" where
  "publish_running L e c =
     unless_ended (publish_readiness L e) (unless_ended (record_running L e)
       (unless_ended (open_stdin L e) (unless_ended (start_attach L e) (write_breadcrumb e c))))"

subsection \<open>Supervision\<close>

text \<open>
  Capturing ends when the child closes its output; the errors of the two streams are kept in a
  file.
\<close>

definition capture_output :: "sup_env \<Rightarrow> run_core \<Rightarrow> run_core" where
  "capture_output e c =
     (let errors = (case su_stdout e of None \<Rightarrow> [] | Some x \<Rightarrow> [ascii ''stdout capture: '' @ x]) @
            (case su_stderr e of None \<Rightarrow> [] | Some x \<Rightarrow> [ascii ''stderr capture: '' @ x])
      in if errors \<noteq> [] \<and> su_errors_kept e
         then c\<lparr>sp_capture_errors := Some (join_with [0x0a] errors)\<rparr> else c)"

definition supervise_output :: "sup_env \<Rightarrow> run_core \<Rightarrow> run_core" where
  "supervise_output e c =
     (let c1 = c\<lparr>sp_step := OutputLog\<rparr>
      in capture_output e
           (case su_log_open e of
              None \<Rightarrow> c1
            | Some err \<Rightarrow> snd (write_meta e AtOutput
                (warn (ascii ''output not captured: cannot open output.log ('' @ err @
                  ascii ''); output was drained'') c1))))"

text \<open>The raw exit: no code means a signal.\<close>

definition exit_of_code :: "int option \<Rightarrow> exit_reason" where
  "exit_of_code code =
     (case code of
        None \<Rightarrow> Killed
      | Some x \<Rightarrow> if x = 0 then ExitedOk else ExitedError (word_of_int x))"

definition supervise_wait :: "libs \<Rightarrow> sup_env \<Rightarrow> run_core \<Rightarrow> exit_reason option \<times> run_core" where
  "supervise_wait L e c =
     (let c1 = c\<lparr>sp_step := ChildWait\<rparr>
      in case su_wait e of
           Inl err \<Rightarrow> (None, fail L e ChildWait (ascii ''cannot observe the child's exit: '' @ err) c1)
         | Inr code \<Rightarrow> (Some (exit_of_code code), traced (ChildReaped code) c1))"

definition supervise :: "libs \<Rightarrow> sup_env \<Rightarrow> run_core \<Rightarrow> exit_reason option \<times> run_core" where
  "supervise L e c = supervise_wait L e (supervise_output e c)"

text \<open>What the sidecar does with an adopted child.\<close>

definition supervised_run :: "libs \<Rightarrow> sup_env \<Rightarrow> run_core \<Rightarrow> run_core" where
  "supervised_run L e c =
     (let c1 = publish_running L e c
      in if sp_ended c1 then c1
         else (case supervise L e c1 of
                 (None, c2) \<Rightarrow> c2
               | (Some how, c2) \<Rightarrow> snd (finish_run L e how c2)))"

subsection \<open>The guard as a transition system\<close>

text \<open>
  The same run, one step at a time: \<open>Advance\<close> takes the next step, \<open>Abandon\<close> drops the guard
  where it is, with the message of the panic if there was one.
\<close>

datatype stage = ToBreadcrumb | ToAttach | ToStdin | ToRunning | ToReadiness | ToOutput | ToWait
  | ToFinish exit_reason | Over

record sup_run =
  sr_core :: run_core
  sr_stage :: stage

datatype sup_op = Advance | Abandon "bytes option"

fun next_stage :: "libs \<Rightarrow> sup_env \<Rightarrow> stage \<Rightarrow> run_core \<Rightarrow> sup_run" where
  "next_stage L e ToBreadcrumb c = \<lparr>sr_core = write_breadcrumb e c, sr_stage = ToAttach\<rparr>"
| "next_stage L e ToAttach c = \<lparr>sr_core = start_attach L e c, sr_stage = ToStdin\<rparr>"
| "next_stage L e ToStdin c = \<lparr>sr_core = open_stdin L e c, sr_stage = ToRunning\<rparr>"
| "next_stage L e ToRunning c = \<lparr>sr_core = record_running L e c, sr_stage = ToReadiness\<rparr>"
| "next_stage L e ToReadiness c = \<lparr>sr_core = publish_readiness L e c, sr_stage = ToOutput\<rparr>"
| "next_stage L e ToOutput c = \<lparr>sr_core = supervise_output e c, sr_stage = ToWait\<rparr>"
| "next_stage L e ToWait c =
     (case supervise_wait L e c of
        (Some how, d) \<Rightarrow> \<lparr>sr_core = d, sr_stage = ToFinish how\<rparr>
      | (None, d) \<Rightarrow> \<lparr>sr_core = d, sr_stage = Over\<rparr>)"
| "next_stage L e (ToFinish how) c = \<lparr>sr_core = snd (finish_run L e how c), sr_stage = Over\<rparr>"
| "next_stage L e Over c = \<lparr>sr_core = c, sr_stage = Over\<rparr>"

fun sup_step :: "libs \<Rightarrow> sup_env \<Rightarrow> sup_op \<Rightarrow> sup_run \<Rightarrow> sup_run" where
  "sup_step L e Advance r = (if sp_ended (sr_core r) then r else next_stage L e (sr_stage r) (sr_core r))"
| "sup_step L e (Abandon panicked) r = r\<lparr>sr_core := drop_core L e panicked (sr_core r)\<rparr>"

definition sup_start :: "run_core \<Rightarrow> sup_run" where
  "sup_start c = \<lparr>sr_core = c, sr_stage = ToBreadcrumb\<rparr>"


text \<open>Libraries for the concrete runs.\<close>

definition demo_libs :: libs where
  "demo_libs = \<lparr>lib_json = (\<lambda>_. None), lib_sha = (\<lambda>b. b), lib_event = (\<lambda>_. [0x7b]), lib_boundary = (\<lambda>_. JNull),
     lib_error = (\<lambda>_. []), lib_meta = (\<lambda>_. Inr [0x7b]), lib_shell = (\<lambda>_. None), lib_id = (\<lambda>b. b)\<rparr>"

end
