(* ===== verification/Attach_Proto.thy ===== *)
theory Attach_Proto
  imports Pty_Control Recording_Types
begin

text \<open>
  The attach protocol of \<open>src/src/attach_proto.rs\<close> and the exit codes of \<open>src/src/pty_exit.rs\<close>:
  frames on a byte stream, each a type byte, a 32-bit length and a payload of at most 64 KiB.
  Writing a frame is the list of bytes written; reading takes the bytes that arrive before the
  connection closes and returns the result with what is left of them.
\<close>

subsection \<open>Exit codes\<close>

datatype pty_exit_code = ProtocolExit | ControlExit | RuntimeExit | IdentityExit

fun pty_code :: "pty_exit_code \<Rightarrow> int" where
  "pty_code ProtocolExit = 80"
| "pty_code ControlExit = 81"
| "pty_code RuntimeExit = 84"
| "pty_code IdentityExit = 85"

definition of_peer_check :: "error_kind \<Rightarrow> pty_exit_code" where
  "of_peer_check e = (if e = PermissionDenied then IdentityExit else RuntimeExit)"

text \<open>The chain of an error: which of its links are a \<open>PtyExit\<close>, outermost first.\<close>

definition exit_code :: "pty_exit_code option list \<Rightarrow> int" where
  "exit_code chain = (case List.find (\<lambda>x. x \<noteq> None) chain of Some (Some c) \<Rightarrow> pty_code c | _ \<Rightarrow> 1)"

subsection \<open>Messages\<close>

definition protocol_version :: u8 where "protocol_version = 1"
definition max_frame_payload :: nat where "max_frame_payload = 64 * 1024"

datatype mode = Attach | Takeover | Push

fun mode_byte :: "mode \<Rightarrow> u8" where
  "mode_byte Attach = 1"
| "mode_byte Takeover = 2"
| "mode_byte Push = 3"

datatype reject_class = RejectProtocol | RejectControl | RejectRuntime | RejectIdentity

fun class_byte :: "reject_class \<Rightarrow> u8" where
  "class_byte RejectProtocol = 1"
| "class_byte RejectControl = 2"
| "class_byte RejectRuntime = 3"
| "class_byte RejectIdentity = 4"

fun reject_exit :: "reject_class \<Rightarrow> pty_exit_code" where
  "reject_exit RejectProtocol = ProtocolExit"
| "reject_exit RejectControl = ControlExit"
| "reject_exit RejectRuntime = RuntimeExit"
| "reject_exit RejectIdentity = IdentityExit"

record progress =
  prog_accepted :: u64
  prog_unwritten :: u64

definition received :: "progress \<Rightarrow> u64" where
  "received p = saturating_add (prog_accepted p) (prog_unwritten p)"

datatype push_outcome = Written u64 | Revoked progress | Closed progress

datatype protocol_error = UnknownType u8 | UnsupportedHello | Malformed string
  | UnknownRejectClass u8 | UnknownOutcome u8 | InconsistentOutcome u64 u64

definition mode_of_byte :: "u8 \<Rightarrow> protocol_error + mode" where
  "mode_of_byte b =
     (if b = 1 then Inr Attach else if b = 2 then Inr Takeover else if b = 3 then Inr Push
      else Inl UnsupportedHello)"

definition class_of_byte :: "u8 \<Rightarrow> protocol_error + reject_class" where
  "class_of_byte b =
     (case List.find (\<lambda>c. class_byte c = b) [RejectProtocol, RejectControl, RejectRuntime, RejectIdentity] of
        Some c \<Rightarrow> Inr c | None \<Rightarrow> Inl (UnknownRejectClass b))"

definition encode_outcome :: "push_outcome \<Rightarrow> bytes" where
  "encode_outcome x =
     (let (st, acc, recv) = (case x of
            Written n \<Rightarrow> (0 :: u8, n, n)
          | Revoked p \<Rightarrow> (1, prog_accepted p, received p)
          | Closed p \<Rightarrow> (2, prog_accepted p, received p))
      in st # be64 acc @ be64 recv)"

text \<open>\<open>PushOutcome::decode\<close>; \<open>checked_sub\<close> is None when more was accepted than received.\<close>

definition decode_outcome :: "bytes \<Rightarrow> protocol_error + push_outcome" where
  "decode_outcome payload =
     (if length payload \<noteq> 17 then Inl (Malformed ''input done'')
      else
        let st = hd payload; acc = from_be64 (take 8 (tl payload)); recv = from_be64 (drop 8 (tl payload));
            inconsistent = InconsistentOutcome acc recv;
            progress = (if acc \<le> recv then Inr \<lparr>prog_accepted = acc, prog_unwritten = recv - acc\<rparr>
                        else Inl inconsistent)
        in if st = 0 then (if acc = recv then Inr (Written acc) else Inl inconsistent)
           else if st = 1 then map_sum id Revoked progress
           else if st = 2 then map_sum id Closed progress
           else Inl (UnknownOutcome st))"

datatype frame = Hello mode | Data bytes | ResizeTo geometry | Detach
  | AcceptedAt controller_epoch | Rejected reject_class bytes | RetiredAt controller_epoch
  | InputDone push_outcome

definition resize_payload :: "geometry \<Rightarrow> bytes" where
  "resize_payload g = be16 (geo_rows g) @ be16 (geo_cols g)"

definition parse_resize :: "bytes \<Rightarrow> geometry option" where
  "parse_resize payload =
     (if length payload < 4 then None
      else new_geometry (from_be16 (take 2 payload)) (from_be16 (take 2 (drop 2 payload))))"

definition frame_epoch :: "string \<Rightarrow> bytes \<Rightarrow> protocol_error + controller_epoch" where
  "frame_epoch what payload =
     (if length payload = 8 then Inr (ControllerEpoch (from_be64 payload)) else Inl (Malformed what))"

definition frame_decode :: "u8 \<Rightarrow> bytes \<Rightarrow> protocol_error + frame" where
  "frame_decode t payload =
     (if t = 1 then Inr (Data payload)
      else if t = 2 then
        (case parse_resize payload of None \<Rightarrow> Inl (Malformed ''resize'') | Some g \<Rightarrow> Inr (ResizeTo g))
      else if t = 3 then Inr Detach
      else if t = 4 then
        (case payload of
           [v, m] \<Rightarrow> if v = protocol_version then map_sum id Hello (mode_of_byte m) else Inl UnsupportedHello
         | _ \<Rightarrow> Inl UnsupportedHello)
      else if t = 5 then map_sum id AcceptedAt (frame_epoch ''accepted'' payload)
      else if t = 6 then
        (case payload of
           c # reason \<Rightarrow> map_sum id (\<lambda>cl. Rejected cl (utf8_lossy reason)) (class_of_byte c)
         | [] \<Rightarrow> Inl (Malformed ''rejected''))
      else if t = 7 then map_sum id RetiredAt (frame_epoch ''retired'' payload)
      else if t = 8 then map_sum id InputDone (decode_outcome payload)
      else Inl (UnknownType t))"

subsection \<open>The byte stream\<close>

text \<open>\<open>payload.len() as u32\<close> wraps.\<close>

definition write_msg :: "u8 \<Rightarrow> bytes \<Rightarrow> bytes" where
  "write_msg t payload = [t] @ be32 (of_nat (length payload)) @ payload"

fun write_frame :: "frame \<Rightarrow> bytes" where
  "write_frame (Hello m) = write_msg 4 [protocol_version, mode_byte m]"
| "write_frame (Data bs) = write_msg 1 bs"
| "write_frame (ResizeTo g) = write_msg 2 (resize_payload g)"
| "write_frame Detach = write_msg 3 []"
| "write_frame (AcceptedAt e) = write_msg 5 (be64 (epoch_get e))"
| "write_frame (Rejected c reason) = write_msg 6 (class_byte c # reason)"
| "write_frame (RetiredAt e) = write_msg 7 (be64 (epoch_get e))"
| "write_frame (InputDone x) = write_msg 8 (encode_outcome x)"

definition read_exact :: "nat \<Rightarrow> bytes \<Rightarrow> (error_kind + bytes) \<times> bytes" where
  "read_exact n bs = (if length bs < n then (Inl UnexpectedEof, []) else (Inr (take n bs), drop n bs))"

definition read_msg :: "bytes \<Rightarrow> (error_kind + u8 \<times> bytes) \<times> bytes" where
  "read_msg bs =
     (case read_exact 5 bs of
        (Inl e, rest) \<Rightarrow> (Inl e, rest)
      | (Inr header, rest) \<Rightarrow>
          let t = hd header; len = unat (from_be32 (tl header))
          in if max_frame_payload < len then (Inl InvalidData, rest)
             else if len = 0 then (Inr (t, []), rest)
             else (case read_exact len rest of
                     (Inl e, rest2) \<Rightarrow> (Inl e, rest2)
                   | (Inr payload, rest2) \<Rightarrow> (Inr (t, payload), rest2)))"

datatype frame_error = FrameIo error_kind | FrameMalformed protocol_error | FrameUnknown u8

definition read_frame :: "bytes \<Rightarrow> (frame_error + frame) \<times> bytes" where
  "read_frame bs =
     (case read_msg bs of
        (Inl e, rest) \<Rightarrow> (Inl (FrameIo e), rest)
      | (Inr (t, payload), rest) \<Rightarrow>
          ((case frame_decode t payload of
              Inr f \<Rightarrow> Inr f
            | Inl (UnknownType u) \<Rightarrow> Inl (FrameUnknown u)
            | Inl e \<Rightarrow> Inl (FrameMalformed e)), rest))"

subsection \<open>Round trips\<close>

text \<open>What the sender's types guarantee of a frame, and the size limit.\<close>

fun progress_ok :: "progress \<Rightarrow> bool" where
  "progress_ok p = (unat (prog_accepted p) + unat (prog_unwritten p) < 2 ^ 64)"

fun frame_ok :: "frame \<Rightarrow> bool" where
  "frame_ok (Data bs) = (length bs \<le> 65536)"
| "frame_ok (ResizeTo g) = geometry_ok g"
| "frame_ok (Rejected c reason) = (length reason < 65536 \<and> utf8_valid reason)"
| "frame_ok (InputDone (Revoked p)) = progress_ok p"
| "frame_ok (InputDone (Closed p)) = progress_ok p"
| "frame_ok _ = True"

lemma mode_roundtrip: "mode_of_byte (mode_byte m) = Inr m"
  by (cases m) (simp_all add: mode_of_byte_def)

lemma class_roundtrip: "class_of_byte (class_byte c) = Inr c"
  by (cases c) (simp_all add: class_of_byte_def)

lemma received_sub:
  "progress_ok p \<Longrightarrow> prog_accepted p \<le> received p \<and> received p - prog_accepted p = prog_unwritten p"
  by (simp add: received_def saturating_add_def word_le_nat_alt unat_word_ariths)

lemma outcome_roundtrip:
  "frame_ok (InputDone x) \<Longrightarrow> decode_outcome (encode_outcome x) = Inr x"
  using received_sub
  by (cases x) (auto simp: decode_outcome_def encode_outcome_def Let_def codec_simps)

lemma read_write_msg:
  assumes "length payload \<le> max_frame_payload"
  shows "read_msg (write_msg t payload @ rest) = (Inr (t, payload), rest)"
proof -
  have u: "unat (of_nat (length payload) :: u32) = length payload"
    using assms by (simp only: unat_of_nat) (simp add: max_frame_payload_def)
  show ?thesis
    using assms u by (simp add: read_msg_def write_msg_def read_exact_def Let_def codec_simps)
qed

text \<open>A frame's type byte and payload.\<close>

fun frame_parts :: "frame \<Rightarrow> u8 \<times> bytes" where
  "frame_parts (Hello m) = (4, [protocol_version, mode_byte m])"
| "frame_parts (Data bs) = (1, bs)"
| "frame_parts (ResizeTo g) = (2, resize_payload g)"
| "frame_parts Detach = (3, [])"
| "frame_parts (AcceptedAt e) = (5, be64 (epoch_get e))"
| "frame_parts (Rejected c reason) = (6, class_byte c # reason)"
| "frame_parts (RetiredAt e) = (7, be64 (epoch_get e))"
| "frame_parts (InputDone x) = (8, encode_outcome x)"

lemma write_frame_parts: "write_frame f = write_msg (fst (frame_parts f)) (snd (frame_parts f))"
  by (cases f) simp_all

lemma encode_outcome_length: "length (encode_outcome x) = 17"
  by (cases x) (simp_all add: encode_outcome_def)

lemma frame_parts_size: "frame_ok f \<Longrightarrow> length (snd (frame_parts f)) \<le> max_frame_payload"
  by (cases f) (simp_all add: max_frame_payload_def resize_payload_def encode_outcome_length)

lemma frame_decode_parts: "frame_ok f \<Longrightarrow> frame_decode (fst (frame_parts f)) (snd (frame_parts f)) = Inr f"
  using outcome_roundtrip
  by (cases f) (simp_all add: frame_decode_def mode_roundtrip class_roundtrip frame_epoch_def codec_simps
      utf8_lossy_valid parse_resize_def resize_payload_def)

lemma read_write_frame: "frame_ok f \<Longrightarrow> read_frame (write_frame f @ rest) = (Inr f, rest)"
  using frame_decode_parts [of f] frame_parts_size [of f]
  by (cases "frame_parts f") (simp add: write_frame_parts read_frame_def read_write_msg)

definition next_frame :: "bytes \<Rightarrow> (frame \<times> bytes) option" where
  "next_frame bs = (case read_frame bs of (Inr f, rest) \<Rightarrow> Some (f, rest) | _ \<Rightarrow> None)"

interpretation frames: stream_codec write_frame next_frame frame_ok
  by unfold_locales (simp add: next_frame_def read_write_frame)

subsection \<open>What reading a frame guarantees\<close>

lemma read_msg_consumes:
  assumes "read_msg bs = (Inr (t, payload), rest)"
  shows "length payload \<le> max_frame_payload \<and> bs = [t] @ take 4 (tl bs) @ payload @ rest
    \<and> from_be32 (take 4 (tl bs)) = of_nat (length payload)"
proof -
  obtain b0 b1 b2 b3 b4 more where bs: "bs = b0 # b1 # b2 # b3 # b4 # more"
    using assms by (auto simp: read_msg_def read_exact_def numeral_eq_Suc Suc_le_length_iff not_less
        split: if_splits)
  define len where "len = unat (from_be32 [b1, b2, b3, b4])"
  have w: "from_be32 [b1, b2, b3, b4] = of_nat len" by (simp add: len_def)
  have r: "len \<le> max_frame_payload" "t = b0" "payload = take len more" "rest = drop len more" "len \<le> length more"
    using assms by (auto simp: bs read_msg_def read_exact_def Let_def len_def not_less split: if_splits)
  then show ?thesis using w by (simp add: bs)
qed

fun frame_valid :: "frame \<Rightarrow> bool" where
  "frame_valid (ResizeTo g) = geometry_ok g"
| "frame_valid (InputDone (Revoked p)) = progress_ok p"
| "frame_valid (InputDone (Closed p)) = progress_ok p"
| "frame_valid _ = True"

lemma progress_of_sub: "acc \<le> recv \<Longrightarrow> progress_ok \<lparr>prog_accepted = acc, prog_unwritten = recv - acc\<rparr>"
  using unsigned_less [of recv, where ?'a = nat]
  by (simp add: unat_sub word_le_nat_alt)

lemma decode_outcome_valid: "decode_outcome payload = Inr x \<Longrightarrow> frame_valid (InputDone x)"
  by (auto simp: decode_outcome_def Let_def simp del: progress_ok.simps dest: progress_of_sub split: if_splits)

lemma map_sum_Inr: "map_sum id f x = Inr y \<longleftrightarrow> (\<exists>z. x = Inr z \<and> y = f z)"
  by (cases x) auto

lemma frame_decode_valid: "frame_decode t payload = Inr f \<Longrightarrow> frame_valid f"
  unfolding frame_decode_def
  by (auto simp: parse_resize_def map_sum_Inr decode_outcome_valid dest: new_geometry_Some
      split: if_splits option.splits list.splits)

subsection \<open>Properties\<close>

text \<open>A stream of frames round-trips: reading as many frames as were written gives exactly the
  frames written, in order, and leaves exactly the bytes that follow; so no two streams of frames
  write the same bytes.\<close>

theorem frame_stream_roundtrip:
  assumes "list_all frame_ok fs"
  shows "read_items next_frame (length fs) (concat (map write_frame fs) @ rest) = Some (fs, rest)
    \<and> (\<forall>gs. list_all frame_ok gs \<and> length gs = length fs
         \<and> concat (map write_frame gs) = concat (map write_frame fs) \<longrightarrow> gs = fs)"
  using frames.read_items_concat [OF assms] frames.concat_enc_inj [OF _ assms] by blast

theorem frame_stream_roundtrip_witness:
  "read_items next_frame 3 (concat (map write_frame
      [Hello Push, Data [104, 105], InputDone (Revoked \<lparr>prog_accepted = 2, prog_unwritten = 5\<rparr>)]) @ [9])
    = Some ([Hello Push, Data [104, 105], InputDone (Revoked \<lparr>prog_accepted = 2, prog_unwritten = 5\<rparr>)], [9])"
proof -
  let ?fs = "[Hello Push, Data [104, 105], InputDone (Revoked \<lparr>prog_accepted = 2, prog_unwritten = 5\<rparr>)]"
  have "list_all frame_ok ?fs" by simp
  from frame_stream_roundtrip [OF this, THEN conjunct1, of "[9]"] show ?thesis
    by (simp add: numeral_3_eq_3)
qed

text \<open>A frame that does not decode leaves the stream in sync: whatever the type byte and the
  payload of a frame within the limit, reading it consumes exactly that frame and never reports a
  failed connection.\<close>

theorem frame_read_in_sync:
  assumes "length payload \<le> 64 * 1024"
  shows "snd (read_frame (write_msg t payload @ rest)) = rest
    \<and> fst (read_frame (write_msg t payload @ rest)) \<noteq> Inl (FrameIo e)"
  using assms
  by (auto simp: read_frame_def read_write_msg max_frame_payload_def
      split: sum.splits protocol_error.splits)

theorem frame_read_in_sync_witness:
  "snd (read_frame (write_msg 200 [1, 2] @ [7])) = [7]"
  using frame_read_in_sync [of "[1, 2]" 200 "[7]"] by simp

text \<open>What is read obeys the protocol: a frame that decodes was carried by a payload of at most
  64 KiB that the bytes read contain whole, its length as declared; a resize has no zero dimension,
  and an outcome never claims more bytes written than received.\<close>

theorem frame_read_valid:
  assumes "read_frame bs = (Inr f, rest)"
  shows "frame_valid f \<and> (\<exists>t payload. length payload \<le> 64 * 1024 \<and> frame_decode t payload = Inr f
    \<and> bs = [t] @ take 4 (tl bs) @ payload @ rest \<and> from_be32 (take 4 (tl bs)) = of_nat (length payload))"
proof -
  obtain t payload where m: "read_msg bs = (Inr (t, payload), rest)" and d: "frame_decode t payload = Inr f"
    using assms by (auto simp: read_frame_def split: prod.splits sum.splits protocol_error.splits)
  from read_msg_consumes [OF m] frame_decode_valid [OF d] d show ?thesis
    by (auto simp: max_frame_payload_def)
qed

theorem frame_read_valid_witness:
  "frame_valid (ResizeTo (Geometry 24 80))"
proof -
  have "read_frame (write_frame (ResizeTo (Geometry 24 80)) @ []) = (Inr (ResizeTo (Geometry 24 80)), [])"
    by (rule read_write_frame) (simp add: geometry_ok_def)
  from frame_read_valid [OF this] show ?thesis by blast
qed

text \<open>An oversized frame is refused before its payload is read: a header that declares more than
  64 KiB is an error at once, with every byte after the header left unread.\<close>

theorem oversized_frame_refused:
  assumes "64 * 1024 < unat w"
  shows "read_frame (t # be32 w @ rest) = (Inl (FrameIo InvalidData), rest)"
  using assms
  by (simp add: read_frame_def read_msg_def read_exact_def max_frame_payload_def codec_simps Let_def)

theorem oversized_frame_refused_witness:
  "read_frame (1 # be32 70000 @ [5]) = (Inl (FrameIo InvalidData), [5])"
  by (rule oversized_frame_refused) simp

end
