(* ===== verification/Attach_Conns.thy ===== *)
theory Attach_Conns
  imports Attach_Proto Pty_Control
begin

text \<open>
  The sidecar's side of an attach connection (\<open>src/src/sidecar.rs\<close>): the hello, the push loop with
  its outcome, the relay of an interactive client, and the clean-up of both. A handler runs on its
  own thread; what its socket and the input writer answer is an argument, and what it does to them
  is the list of its actions, in order. A result \<open>None\<close> is a handler that still waits.
\<close>

subsection \<open>Refusals\<close>

datatype request_error = ControlRefused control_error | RequestWriterGone

definition request_reject_class :: "request_error \<Rightarrow> reject_class" where
  "request_reject_class e = (case e of ControlRefused x \<Rightarrow> RejectControl | RequestWriterGone \<Rightarrow> RejectRuntime)"

fun kind_debug :: "controller_kind \<Rightarrow> bytes" where
  "kind_debug Human = ascii ''Human''"
| "kind_debug Agent = ascii ''Agent''"

fun stale_debug :: "stale_reason \<Rightarrow> bytes" where
  "stale_debug RunMismatch = ascii ''RunMismatch''"
| "stale_debug StaleUnowned = ascii ''Unowned''"
| "stale_debug EpochMismatch = ascii ''EpochMismatch''"
| "stale_debug HolderMismatch = ascii ''HolderMismatch''"

definition show_u64 :: "u64 \<Rightarrow> bytes" where
  "show_u64 v = show_nat (unat v)"

fun show_request_error :: "request_error \<Rightarrow> bytes" where
  "show_request_error (ControlRefused (Busy h k e)) =
     ascii ''PTY input is owned by holder '' @ show_u64 (holder_get h) @ ascii '' ('' @ kind_debug k @
     ascii '') at epoch '' @ show_u64 (epoch_get e)"
| "show_request_error (ControlRefused (Stale r)) = ascii ''controller handle is stale: '' @ stale_debug r"
| "show_request_error (ControlRefused EpochExhausted) = ascii ''controller epoch exhausted''"
| "show_request_error RequestWriterGone = ascii ''the PTY input writer is no longer running''"

subsection \<open>Actions of a handler\<close>

text \<open>\<open>SendFrame f ok\<close>: a frame offered to the socket, and whether the write succeeded.\<close>

datatype conn_action = SendFrame frame bool | ShutdownConn | DropConn
  | Register holder_id | Unregister holder_id
  | Submit controller_handle bytes | WriteNowait controller_handle bytes
  | ResizePty controller_handle geometry
  | Disconnect controller_handle | EndOfInput controller_handle
  | InstallViewer holder_id | RemoveViewer holder_id

definition reject_connection :: "reject_class \<Rightarrow> bytes \<Rightarrow> bool \<Rightarrow> conn_action list" where
  "reject_connection c reason ok = [SendFrame (Rejected c reason) ok, ShutdownConn]"

definition reject_request :: "request_error \<Rightarrow> bool \<Rightarrow> conn_action list" where
  "reject_request e ok = reject_connection (request_reject_class e) (show_request_error e) ok"

subsection \<open>Waiting for a push write\<close>

text \<open>One poll of the outcome channel; a timeout with the revoked flag and the peer's hang-up.\<close>

datatype await_poll = PollOutcome input_outcome | PollWriterGone | PollTimeout bool bool

datatype push_write = PushDone input_outcome | PushWriterGone | PushClientGone

fun await_push_write :: "await_poll list \<Rightarrow> push_write option" where
  "await_push_write [] = None"
| "await_push_write (PollOutcome x # ps) = Some (PushDone x)"
| "await_push_write (PollWriterGone # ps) = Some PushWriterGone"
| "await_push_write (PollTimeout revoked hung # ps) =
     (if \<not> revoked \<and> hung then Some PushClientGone else await_push_write ps)"

subsection \<open>The push loop\<close>

text \<open>A frame read, the polls for its write, and the revoked flag when the read fails.\<close>

record push_event =
  pe_read :: "frame_error + frame"
  pe_polls :: "await_poll list"
  pe_revoked :: bool

datatype push_end = PushReport push_outcome | PushVanished

definition u64_len :: "bytes \<Rightarrow> u64" where
  "u64_len bs = of_nat (length bs)"

definition stopped_at :: "u64 \<Rightarrow> u64 \<Rightarrow> u64 \<Rightarrow> progress" where
  "stopped_at written len acc = \<lparr>prog_accepted = written + acc, prog_unwritten = len - acc\<rparr>"

text \<open>What the loop submits is part of its result.\<close>

fun push_loop :: "controller_handle \<Rightarrow> push_event list \<Rightarrow> u64 \<Rightarrow> (conn_action list \<times> push_end) option" where
  "push_loop h [] written = None"
| "push_loop h (e # es) written =
     (case pe_read e of
        Inr (Data payload) \<Rightarrow>
          if payload = [] then push_loop h es written
          else map_option (\<lambda>(acts, r). (Submit h payload # acts, r))
            (case await_push_write (pe_polls e) of
               None \<Rightarrow> None
             | Some (PushDone (Accepted i ep n)) \<Rightarrow> push_loop h es (written + u64_len payload)
             | Some (PushDone (Incomplete i ep acc tot reason)) \<Rightarrow>
                 let progress = stopped_at written (u64_len payload) (of_nat acc)
                 in Some ([], PushReport (case reason of
                      NotAuthorized s \<Rightarrow> Revoked progress | _ \<Rightarrow> Closed progress))
             | Some PushWriterGone \<Rightarrow> Some ([], PushReport (Closed (stopped_at written (u64_len payload) 0)))
             | Some PushClientGone \<Rightarrow> Some ([], PushVanished))
      | Inr Detach \<Rightarrow> Some ([], PushReport (Written written))
      | Inr f \<Rightarrow> push_loop h es written
      | Inl (FrameIo k) \<Rightarrow>
          Some ([], if pe_revoked e then PushReport (Revoked \<lparr>prog_accepted = written, prog_unwritten = 0\<rparr>)
                    else PushVanished)
      | Inl x \<Rightarrow> push_loop h es written)"

subsection \<open>The push handler\<close>

record push_env =
  pu_cloned :: bool
  pu_registered :: bool
  pu_claim :: "request_error + controller_handle"
  pu_accept_sent :: bool
  pu_events :: "push_event list"
  pu_reply_sent :: bool

definition push_gone :: "holder_id \<Rightarrow> controller_handle \<Rightarrow> conn_action list" where
  "push_gone holder h = [Unregister holder, ShutdownConn, Disconnect h]"

definition end_push :: "controller_handle \<Rightarrow> push_outcome \<Rightarrow> conn_action" where
  "end_push h x = (case x of Written n \<Rightarrow> EndOfInput h | _ \<Rightarrow> Disconnect h)"

definition handle_push_connection :: "push_env \<Rightarrow> holder_id \<Rightarrow> conn_action list option" where
  "handle_push_connection e holder =
     (if \<not> pu_cloned e then Some [DropConn]
      else if \<not> pu_registered e then
        Some (reject_connection RejectControl (ascii ''session ended'') (pu_reply_sent e))
      else case pu_claim e of
        Inl x \<Rightarrow> Some ([Register holder, Unregister holder] @ reject_request x (pu_reply_sent e))
      | Inr h \<Rightarrow>
          let opening = [Register holder, SendFrame (AcceptedAt (key_epoch (handle_key h))) (pu_accept_sent e)]
          in if \<not> pu_accept_sent e then Some (opening @ push_gone holder h)
             else (case push_loop h (pu_events e) 0 of
                     None \<Rightarrow> None
                   | Some (acts, PushVanished) \<Rightarrow> Some (opening @ acts @ push_gone holder h)
                   | Some (acts, PushReport x) \<Rightarrow>
                       Some (opening @ acts @ [end_push h x, Unregister holder,
                         SendFrame (InputDone x) (pu_reply_sent e), ShutdownConn])))"

subsection \<open>The interactive handler\<close>

text \<open>A frame read, and whether its input could be queued.\<close>

fun relay_input :: "controller_handle \<Rightarrow> ((frame_error + frame) \<times> bool) list \<Rightarrow> conn_action list option" where
  "relay_input h [] = None"
| "relay_input h ((r, queued) # rs) =
     (case r of
        Inr (Data payload) \<Rightarrow>
          if queued then map_option (\<lambda>acts. WriteNowait h payload # acts) (relay_input h rs)
          else Some [WriteNowait h payload]
      | Inr (ResizeTo g) \<Rightarrow> map_option (\<lambda>acts. ResizePty h g # acts) (relay_input h rs)
      | Inr Detach \<Rightarrow> Some []
      | Inl (FrameIo k) \<Rightarrow> Some []
      | _ \<Rightarrow> relay_input h rs)"

record attach_env =
  at_hello :: "frame_error + frame"
  at_cloned :: bool
  at_registered :: bool
  at_grant :: "mode \<Rightarrow> request_error + controller_handle"
  at_accept_sent :: bool
  at_shutdown_cloned :: bool
  at_frames :: "((frame_error + frame) \<times> bool) list"
  at_reply_sent :: bool
  at_push :: push_env

definition serve_attach :: "attach_env \<Rightarrow> mode \<Rightarrow> holder_id \<Rightarrow> conn_action list option" where
  "serve_attach e m holder =
     (if \<not> at_cloned e then Some [DropConn]
      else if \<not> at_registered e then
        Some (reject_connection RejectControl (ascii ''session ended'') (at_reply_sent e))
      else case at_grant e m of
        Inl x \<Rightarrow> Some ([Register holder, Unregister holder] @ reject_request x (at_reply_sent e))
      | Inr h \<Rightarrow>
          let opening = [Register holder, SendFrame (AcceptedAt (key_epoch (handle_key h))) (at_accept_sent e)];
              closing = [ShutdownConn, Disconnect h, Unregister holder, RemoveViewer holder]
          in if \<not> at_accept_sent e then Some (opening @ closing)
             else map_option (\<lambda>acts. opening @ (if at_shutdown_cloned e then [InstallViewer holder] else []) @
                 acts @ closing) (relay_input h (at_frames e)))"

definition handle_attach_connection :: "attach_env \<Rightarrow> holder_id \<Rightarrow> conn_action list option" where
  "handle_attach_connection e holder =
     (case at_hello e of
        Inr (Hello m) \<Rightarrow>
          if m = Push then handle_push_connection (at_push e) holder else serve_attach e m holder
      | Inl (FrameMalformed UnsupportedHello) \<Rightarrow>
          Some (reject_connection RejectProtocol (ascii ''unsupported attach protocol version or mode'') (at_reply_sent e))
      | _ \<Rightarrow> Some (reject_connection RejectProtocol (ascii ''attach requires a protocol hello'') (at_reply_sent e)))"

subsection \<open>The push outcome is exact\<close>

text \<open>
  The bytes the PTY took of each frame, by the outcomes of its writes: all of an accepted frame,
  the accepted part of an incomplete one, none of one whose writer stopped.
\<close>

fun frame_taken :: "bytes \<Rightarrow> push_write \<Rightarrow> nat" where
  "frame_taken payload (PushDone (Accepted i ep n)) = length payload"
| "frame_taken payload (PushDone (Incomplete i ep acc tot reason)) = acc"
| "frame_taken payload _ = 0"

text \<open>The writes of a push, with their results, up to the one that ended it.\<close>

fun push_writes :: "push_event list \<Rightarrow> (bytes \<times> push_write) list" where
  "push_writes [] = []"
| "push_writes (e # es) =
     (case pe_read e of
        Inr (Data payload) \<Rightarrow>
          if payload = [] then push_writes es
          else (case await_push_write (pe_polls e) of
                  None \<Rightarrow> []
                | Some w \<Rightarrow> (payload, w) #
                    (case w of PushDone (Accepted i ep n) \<Rightarrow> push_writes es | _ \<Rightarrow> []))
      | Inr Detach \<Rightarrow> []
      | Inl (FrameIo k) \<Rightarrow> []
      | _ \<Rightarrow> push_writes es)"

definition taken :: "(bytes \<times> push_write) list \<Rightarrow> nat" where
  "taken ws = sum_list (map (\<lambda>(p, w). frame_taken p w) ws)"

definition offered :: "(bytes \<times> push_write) list \<Rightarrow> nat" where
  "offered ws = sum_list (map (\<lambda>(p, w). length p) ws)"

text \<open>The outcome a push reports, of the bytes taken and offered before its report.\<close>

fun outcome_counts :: "push_outcome \<Rightarrow> u64 \<times> u64" where
  "outcome_counts (Written n) = (n, 0)"
| "outcome_counts (Revoked p) = (prog_accepted p, prog_unwritten p)"
| "outcome_counts (Closed p) = (prog_accepted p, prog_unwritten p)"

lemma push_loop_counts:
  assumes "push_loop h es written = Some (acts, PushReport x)"
  shows "outcome_counts x = (written + of_nat (taken (push_writes es)),
           of_nat (offered (push_writes es)) - of_nat (taken (push_writes es)))"
    and "map (\<lambda>(p, w). Submit h p) (push_writes es) = acts"
proof -
  have "outcome_counts x = (written + of_nat (taken (push_writes es)),
           of_nat (offered (push_writes es)) - of_nat (taken (push_writes es))) \<and>
        map (\<lambda>(p, w). Submit h p) (push_writes es) = acts"
    using assms
  proof (induction es arbitrary: written acts)
    case Nil
    then show ?case by simp
  next
    case (Cons e es)
    show ?case
      using Cons.prems Cons.IH
      by (auto simp: taken_def offered_def Let_def stopped_at_def u64_len_def algebra_simps
          split: sum.splits frame.splits frame_error.splits if_splits option.splits push_write.splits
            input_outcome.splits incomplete_reason.splits)
  qed
  then show "outcome_counts x = (written + of_nat (taken (push_writes es)),
           of_nat (offered (push_writes es)) - of_nat (taken (push_writes es)))"
    "map (\<lambda>(p, w). Submit h p) (push_writes es) = acts" by auto
qed


lemma written_all_accepted:
  "push_loop h es written = Some (acts, PushReport (Written n)) \<Longrightarrow>
   \<forall>(p, w) \<in> set (push_writes es). \<exists>i ep k. w = PushDone (Accepted i ep k)"
proof (induction es arbitrary: written acts)
  case Nil
  then show ?case by simp
next
  case (Cons e es)
  show ?case
    using Cons.prems Cons.IH
    by (fastforce simp: Let_def split: sum.splits frame.splits frame_error.splits if_splits option.splits
        push_write.splits input_outcome.splits incomplete_reason.splits)
qed

lemma push_loop_submits: "push_loop h es written = Some (acts, r) \<Longrightarrow> \<forall>a \<in> set acts. \<exists>p. a = Submit h p"
proof (induction es arbitrary: written acts)
  case Nil
  then show ?case by simp
next
  case (Cons e es)
  show ?case
    using Cons.prems Cons.IH
    by (fastforce simp: Let_def split: sum.splits frame.splits frame_error.splits if_splits option.splits
        push_write.splits input_outcome.splits incomplete_reason.splits)
qed

lemma push_loop_silent: "push_loop h es written = Some (acts, r) \<Longrightarrow> SendFrame f ok \<notin> set acts"
  using push_loop_submits by fastforce

lemma push_report_parts:
  assumes "handle_push_connection e holder = Some acts" "SendFrame (InputDone x) ok \<in> set acts"
  obtains h subs where "pu_claim e = Inr h" "push_loop h (pu_events e) 0 = Some (subs, PushReport x)"
    "acts = [Register holder, SendFrame (AcceptedAt (key_epoch (handle_key h))) True] @ subs @
       [end_push h x, Unregister holder, SendFrame (InputDone x) (pu_reply_sent e), ShutdownConn]"
  using assms
  by (auto simp: handle_push_connection_def reject_connection_def reject_request_def push_gone_def Let_def end_push_def
      split: if_splits sum.splits option.splits prod.splits push_end.splits push_outcome.splits
      dest: push_loop_silent)

text \<open>C19: A push that is told its outcome is told exactly what happened to its bytes: the frames it sent
  were submitted one after the other, in order; the accepted count is what the PTY took of them,
  the unwritten count is what it did not take, and "written" is reported only when every frame was
  accepted in full. Control is given up before the report is sent.\<close>

theorem push_report_exact:
  assumes "handle_push_connection e holder = Some acts" and "SendFrame (InputDone x) ok \<in> set acts"
  shows "\<exists>h ws. ws = push_writes (pu_events e) \<and>
    acts = [Register holder, SendFrame (AcceptedAt (key_epoch (handle_key h))) True] @
      map (\<lambda>(p, w). Submit h p) ws @
      [end_push h x, Unregister holder, SendFrame (InputDone x) (pu_reply_sent e), ShutdownConn] \<and>
    outcome_counts x = (of_nat (taken ws), of_nat (offered ws) - of_nat (taken ws)) \<and>
    (\<forall>n. x = Written n \<longrightarrow> (\<forall>(p, w) \<in> set ws. \<exists>i ep k. w = PushDone (Accepted i ep k)))"
proof -
  from push_report_parts [OF assms] obtain h subs where
    l: "push_loop h (pu_events e) 0 = Some (subs, PushReport x)" and
    a: "acts = [Register holder, SendFrame (AcceptedAt (key_epoch (handle_key h))) True] @ subs @
       [end_push h x, Unregister holder, SendFrame (InputDone x) (pu_reply_sent e), ShutdownConn]"
    by blast
  show ?thesis
    using push_loop_counts [OF l] a written_all_accepted [of h "pu_events e" 0 subs] l
    by (intro exI [of _ h] exI [of _ "push_writes (pu_events e)"]) auto
qed

definition demo_key :: controller_handle where
  "demo_key = \<lparr>handle_key = \<lparr>key_run = RunId [], key_epoch = ControllerEpoch 1, key_holder = HolderId 4\<rparr>,
     handle_kind = Agent\<rparr>"

text \<open>Two frames of which a takeover cuts the second short.\<close>

definition demo_push :: push_env where
  "demo_push = \<lparr>pu_cloned = True, pu_registered = True, pu_claim = Inr demo_key, pu_accept_sent = True,
     pu_events =
       [\<lparr>pe_read = Inr (Data [1, 2]), pe_polls = [PollOutcome (Accepted (RequestId 0) (ControllerEpoch 1) 2)],
         pe_revoked = False\<rparr>,
        \<lparr>pe_read = Inr (Data [3, 4, 5]), pe_polls = [PollTimeout False False,
           PollOutcome (Incomplete (RequestId 1) (ControllerEpoch 1) 1 3 (NotAuthorized EpochMismatch))],
         pe_revoked = False\<rparr>],
     pu_reply_sent = True\<rparr>"

definition demo_pushed :: "conn_action list" where
  "demo_pushed = the (handle_push_connection demo_push (HolderId 4))"

lemma demo_push_run: "handle_push_connection demo_push (HolderId 4) = Some demo_pushed"
  "SendFrame (InputDone (Revoked \<lparr>prog_accepted = 3, prog_unwritten = 2\<rparr>)) True \<in> set demo_pushed"
  by (simp_all add: demo_pushed_def handle_push_connection_def demo_push_def demo_key_def stopped_at_def u64_len_def
      Let_def)

theorem push_report_exact_witness:
  "outcome_counts (Revoked \<lparr>prog_accepted = 3, prog_unwritten = 2\<rparr>) =
     (of_nat (taken (push_writes (pu_events demo_push))),
      of_nat (offered (push_writes (pu_events demo_push))) - of_nat (taken (push_writes (pu_events demo_push))))"
  using push_report_exact [OF demo_push_run] by blast

subsection \<open>Every handler cleans up\<close>

text \<open>What a handler holds: its registration, control by the handle \<open>h\<close>, an open socket.\<close>

record conn_view =
  cv_registered :: bool
  cv_holds :: bool
  cv_open :: bool
  cv_viewer :: bool

fun conn_observe :: "controller_handle \<Rightarrow> conn_action \<Rightarrow> conn_view \<Rightarrow> conn_view option" where
  "conn_observe h (SendFrame (AcceptedAt ep) ok) v =
     (if cv_open v \<and> cv_registered v \<and> \<not> cv_holds v \<and> ep = key_epoch (handle_key h)
      then Some (v\<lparr>cv_holds := True\<rparr>) else None)"
| "conn_observe h (SendFrame f ok) v = (if cv_open v \<and> \<not> cv_holds v then Some v else None)"
| "conn_observe h ShutdownConn v = (if cv_open v then Some (v\<lparr>cv_open := False\<rparr>) else None)"
| "conn_observe h DropConn v = (if cv_open v then Some (v\<lparr>cv_open := False\<rparr>) else None)"
| "conn_observe h (Register n) v =
     (if cv_open v \<and> \<not> cv_registered v then Some (v\<lparr>cv_registered := True\<rparr>) else None)"
| "conn_observe h (Unregister n) v = (if cv_registered v then Some (v\<lparr>cv_registered := False\<rparr>) else None)"
| "conn_observe h (Submit k bs) v = (if cv_open v \<and> cv_holds v \<and> k = h then Some v else None)"
| "conn_observe h (WriteNowait k bs) v = (if cv_open v \<and> cv_holds v \<and> k = h then Some v else None)"
| "conn_observe h (ResizePty k g) v = (if cv_open v \<and> cv_holds v \<and> k = h then Some v else None)"
| "conn_observe h (Disconnect k) v = (if cv_holds v \<and> k = h then Some (v\<lparr>cv_holds := False\<rparr>) else None)"
| "conn_observe h (EndOfInput k) v = (if cv_holds v \<and> k = h then Some (v\<lparr>cv_holds := False\<rparr>) else None)"
| "conn_observe h (InstallViewer n) v =
     (if cv_open v \<and> cv_registered v \<and> cv_holds v then Some (v\<lparr>cv_viewer := True\<rparr>) else None)"
| "conn_observe h (RemoveViewer n) v =
     (if \<not> cv_registered v \<and> \<not> cv_open v then Some (v\<lparr>cv_viewer := False\<rparr>) else None)"

fun conn_observes :: "controller_handle \<Rightarrow> conn_action list \<Rightarrow> conn_view \<Rightarrow> conn_view option" where
  "conn_observes h [] v = Some v"
| "conn_observes h (a # as) v = (case conn_observe h a v of None \<Rightarrow> None | Some v' \<Rightarrow> conn_observes h as v')"

definition conn_start :: conn_view where
  "conn_start = \<lparr>cv_registered = False, cv_holds = False, cv_open = True, cv_viewer = False\<rparr>"

definition conn_done :: conn_view where
  "conn_done = \<lparr>cv_registered = False, cv_holds = False, cv_open = False, cv_viewer = False\<rparr>"

lemma conn_observes_append:
  "conn_observes h (as @ bs) v = (case conn_observes h as v of None \<Rightarrow> None | Some v' \<Rightarrow> conn_observes h bs v')"
  by (induction as arbitrary: v) (auto split: option.splits)

lemma observes_same: "\<forall>a \<in> set as. conn_observe h a v = Some v \<Longrightarrow> conn_observes h as v = Some v"
  by (induction as) auto

lemma relay_input_uses:
  "relay_input h rs = Some acts \<Longrightarrow> cv_open v \<and> cv_holds v \<Longrightarrow> \<forall>a \<in> set acts. conn_observe h a v = Some v"
proof (induction h rs arbitrary: acts rule: relay_input.induct)
  case (2 h r queued rs)
  show ?case using "2.prems" "2.IH"
    by (fastforce split: sum.splits frame.splits frame_error.splits if_splits)
qed simp

lemma reject_observed: "conn_observes h (reject_connection c reason ok) conn_start = Some conn_done"
  by (simp add: reject_connection_def conn_start_def conn_done_def)

lemma push_observed:
  assumes "handle_push_connection e holder = Some acts"
  shows "\<exists>h. conn_observes h acts conn_start = Some conn_done"
proof (cases "\<not> pu_cloned e \<or> \<not> pu_registered e \<or> (\<exists>x. pu_claim e = Inl x)")
  case True
  then show ?thesis using assms
    by (auto simp: handle_push_connection_def reject_connection_def reject_request_def conn_start_def conn_done_def
        split: if_splits)
next
  case False
  then obtain h where h: "pu_claim e = Inr h" "pu_cloned e" "pu_registered e" by (cases "pu_claim e") auto
  show ?thesis
  proof (cases "pu_accept_sent e")
    case no: False
    then show ?thesis using assms h
      by (auto simp: handle_push_connection_def push_gone_def Let_def conn_start_def conn_done_def)
  next
    case True
    then obtain subs r where l: "push_loop h (pu_events e) 0 = Some (subs, r)"
      using assms h by (auto simp: handle_push_connection_def Let_def split: option.splits)
    let ?v = "\<lparr>cv_registered = True, cv_holds = True, cv_open = True, cv_viewer = False\<rparr>"
    have s: "conn_observes h subs ?v = Some ?v"
      using push_loop_submits [OF l] by (intro observes_same) fastforce
    show ?thesis
      using assms h True l s
      by (auto simp: handle_push_connection_def push_gone_def end_push_def Let_def conn_start_def conn_done_def
          conn_observes_append split: push_end.splits push_outcome.splits intro!: exI [of _ h])
  qed
qed

lemma serve_observed:
  assumes "serve_attach e m holder = Some acts"
  shows "\<exists>h. conn_observes h acts conn_start = Some conn_done"
proof (cases "\<not> at_cloned e \<or> \<not> at_registered e \<or> (\<exists>x. at_grant e m = Inl x)")
  case True
  then show ?thesis using assms
    by (auto simp: serve_attach_def reject_connection_def reject_request_def conn_start_def conn_done_def
        split: if_splits)
next
  case False
  then obtain h where h: "at_grant e m = Inr h" "at_cloned e" "at_registered e" by (cases "at_grant e m") auto
  show ?thesis
  proof (cases "at_accept_sent e")
    case no: False
    then show ?thesis using assms h
      by (auto simp: serve_attach_def Let_def conn_start_def conn_done_def)
  next
    case True
    then obtain acts' where l: "relay_input h (at_frames e) = Some acts'"
      using assms h by (auto simp: serve_attach_def Let_def split: option.splits)
    have s: "conn_observes h acts' v = Some v" if "cv_open v \<and> cv_holds v" for v
      using relay_input_uses [OF l that] by (rule observes_same)
    show ?thesis
      using assms h True l
      by (auto simp: serve_attach_def Let_def conn_start_def conn_done_def conn_observes_append s intro!: exI [of _ h])
  qed
qed

text \<open>C21: Whatever its client sends and whichever of its calls fail, a connection handler that returns has
  taken only allowed steps and left nothing behind: it sends and uses the PTY only while its socket
  is open and it holds control with the granted handle, it gives up control exactly once if it was
  granted, and it ends unregistered, with its viewer removed and its socket closed.\<close>

theorem connection_cleans_up:
  assumes "handle_attach_connection e holder = Some acts"
  shows "\<exists>h. conn_observes h acts conn_start = Some conn_done"
  using assms push_observed serve_observed
  by (auto simp: handle_attach_connection_def reject_observed split: sum.splits frame.splits if_splits
      frame_error.splits protocol_error.splits)

theorem connection_cleans_up_witness:
  "\<exists>h. conn_observes h demo_pushed conn_start = Some conn_done"
  by (rule connection_cleans_up [of "\<lparr>at_hello = Inr (Hello Push), at_cloned = True, at_registered = True,
      at_grant = (\<lambda>_. Inl RequestWriterGone), at_accept_sent = True, at_shutdown_cloned = True, at_frames = [],
      at_reply_sent = True, at_push = demo_push\<rparr>" "HolderId 4"])
    (simp add: handle_attach_connection_def demo_push_run)

end
