(* ===== verification/Attach_Registry.thy ===== *)
theory Attach_Registry
  imports Supervised_Run Pty_Input Attach_Conns
begin

text \<open>
  What the connections of a PTY run share (\<open>src/src/sidecar.rs\<close>): the bounded queue of output for
  one viewer, the registry of live connections with the viewer slot that output is teed to, and the
  thread that records the side effects of the run. Each operation below is one critical section of
  the source; the systems at the end interleave them freely.
\<close>

subsection \<open>The viewer queue\<close>

definition viewer_queue_bytes :: nat where "viewer_queue_bytes = 8 * 2 ^ 20"

record viewer_queue =
  vq_chunks :: "bytes list"
  vq_bytes :: nat
  vq_closed :: bool

definition new_viewer_queue :: viewer_queue where
  "new_viewer_queue = \<lparr>vq_chunks = [], vq_bytes = 0, vq_closed = False\<rparr>"

definition offer :: "bytes \<Rightarrow> viewer_queue \<Rightarrow> bool \<times> viewer_queue" where
  "offer chunk q =
     (if vq_closed q then (False, q)
      else if viewer_queue_bytes < vq_bytes q + length chunk then
        (False, q\<lparr>vq_closed := True, vq_chunks := [], vq_bytes := 0\<rparr>)
      else (True, q\<lparr>vq_bytes := vq_bytes q + length chunk, vq_chunks := vq_chunks q @ [chunk]\<rparr>))"

datatype next_chunk = NextClosed | NextChunk bytes | NextWait

definition queue_next :: "viewer_queue \<Rightarrow> next_chunk \<times> viewer_queue" where
  "queue_next q =
     (if vq_closed q then (NextClosed, q)
      else (case vq_chunks q of
              c # cs \<Rightarrow> (NextChunk c, q\<lparr>vq_chunks := cs, vq_bytes := vq_bytes q - length c\<rparr>)
            | [] \<Rightarrow> (NextWait, q)))"

definition close_queue :: "viewer_queue \<Rightarrow> viewer_queue" where
  "close_queue q = q\<lparr>vq_closed := True\<rparr>"

text \<open>
  A viewer with its sender thread: \<open>vw_accepted\<close> and \<open>vw_sent\<close> are history variables, the chunks the
  queue took and the frames the connection took, in order. A sender step takes one chunk and writes
  it; the thread ends when the queue or the connection does.
\<close>

record viewer =
  vw_queue :: viewer_queue
  vw_running :: bool
  vw_accepted :: "bytes list"
  vw_sent :: "frame list"

definition new_viewer :: viewer where
  "new_viewer = \<lparr>vw_queue = new_viewer_queue, vw_running = True, vw_accepted = [], vw_sent = []\<rparr>"

datatype viewer_op = OfferChunk bytes | SenderStep bool | CloseViewer

definition run_viewer_sender :: "bool \<Rightarrow> viewer \<Rightarrow> viewer" where
  "run_viewer_sender written v =
     (if \<not> vw_running v then v
      else case queue_next (vw_queue v) of
        (NextClosed, q) \<Rightarrow> v\<lparr>vw_running := False\<rparr>
      | (NextWait, q) \<Rightarrow> v
      | (NextChunk c, q) \<Rightarrow>
          if written then v\<lparr>vw_queue := q, vw_sent := vw_sent v @ [Data c]\<rparr>
          else v\<lparr>vw_queue := close_queue q, vw_running := False\<rparr>)"

fun viewer_step :: "viewer_op \<Rightarrow> viewer \<Rightarrow> viewer" where
  "viewer_step (OfferChunk c) v =
     (case offer c (vw_queue v) of
        (fits, q) \<Rightarrow> v\<lparr>vw_queue := q, vw_accepted := (if fits then vw_accepted v @ [c] else vw_accepted v)\<rparr>)"
| "viewer_step (SenderStep written) v = run_viewer_sender written v"
| "viewer_step CloseViewer v = v\<lparr>vw_queue := close_queue (vw_queue v)\<rparr>"

definition viewer_inv :: "viewer \<Rightarrow> bool" where
  "viewer_inv v \<longleftrightarrow>
     vq_bytes (vw_queue v) = sum_list (map length (vq_chunks (vw_queue v))) \<and>
     vq_bytes (vw_queue v) \<le> viewer_queue_bytes \<and>
     (\<exists>xs ys. vw_accepted v = xs @ ys \<and> vw_sent v = map Data xs \<and>
        (\<not> vq_closed (vw_queue v) \<longrightarrow> ys = vq_chunks (vw_queue v)))"

lemma offer_inv: "viewer_inv v \<Longrightarrow> viewer_inv (viewer_step (OfferChunk c) v)"
  by (auto simp: viewer_inv_def offer_def)

lemma sender_inv: "viewer_inv v \<Longrightarrow> viewer_inv (run_viewer_sender written v)"
proof -
  assume v: "viewer_inv v"
  show ?thesis
  proof (cases "vw_running v \<and> \<not> vq_closed (vw_queue v) \<and> vq_chunks (vw_queue v) \<noteq> []")
    case False
    then show ?thesis using v
      by (auto simp: run_viewer_sender_def queue_next_def viewer_inv_def split: list.split)
  next
    case True
    then obtain c cs where c: "vq_chunks (vw_queue v) = c # cs" by (cases "vq_chunks (vw_queue v)") auto
    from v True c obtain xs where xs: "vw_accepted v = xs @ c # cs" "vw_sent v = map Data xs"
      by (auto simp: viewer_inv_def)
    show ?thesis
    proof (cases written)
      case True
      have "vw_accepted v = (xs @ [c]) @ cs" "vw_sent v @ [Data c] = map Data (xs @ [c])" using xs by simp_all
      then show ?thesis using v True c \<open>vw_running v \<and> _\<close>
        unfolding viewer_inv_def by (auto simp: run_viewer_sender_def queue_next_def)
    next
      case False
      then show ?thesis using v c xs \<open>vw_running v \<and> _\<close>
        by (auto simp: run_viewer_sender_def queue_next_def viewer_inv_def close_queue_def)
    qed
  qed
qed

lemma viewer_step_inv: "viewer_inv v \<Longrightarrow> viewer_inv (viewer_step x v)"
proof (cases x)
  case CloseViewer
  assume "viewer_inv v"
  then show ?thesis unfolding CloseViewer by (auto simp: viewer_inv_def close_queue_def)
qed (simp_all add: offer_inv [simplified] sender_inv)

interpretation viewers: op_system viewer_step viewer_inv "\<lambda>_. True"
  by unfold_locales (rule viewer_step_inv)

text \<open>C22: However offers, sends and closes interleave, what a viewer was sent is a prefix of the output its
  queue accepted, chunk by chunk and in order, and the whole of it except what still waits in the
  queue while the queue is open; no more than eight megabytes ever wait.\<close>

theorem viewer_gets_prefix:
  "let v = run_ops viewer_step ops new_viewer in
     (\<exists>xs ys. vw_accepted v = xs @ ys \<and> vw_sent v = map Data xs \<and>
        (\<not> vq_closed (vw_queue v) \<longrightarrow> ys = vq_chunks (vw_queue v))) \<and>
     sum_list (map length (vq_chunks (vw_queue v))) \<le> 8 * 2 ^ 20"
proof -
  have "viewer_inv new_viewer" by (simp add: viewer_inv_def new_viewer_def new_viewer_queue_def)
  then have "viewer_inv (run_ops viewer_step ops new_viewer)"
    by (intro viewers.run_inv) (simp_all add: list_all_iff)
  then show ?thesis by (auto simp: viewer_inv_def viewer_queue_bytes_def Let_def)
qed

theorem viewer_gets_prefix_witness:
  "let v = run_ops viewer_step [OfferChunk [1], SenderStep True, OfferChunk [2]] new_viewer in
     \<not> vq_closed (vw_queue v) \<and>
     (\<exists>xs ys. vw_accepted v = xs @ ys \<and> vw_sent v = map Data xs \<and> ys = vq_chunks (vw_queue v))"
proof -
  let ?v = "run_ops viewer_step [OfferChunk [1], SenderStep True, OfferChunk [2]] new_viewer"
  have "\<not> vq_closed (vw_queue ?v)"
    by (simp add: offer_def new_viewer_def new_viewer_queue_def viewer_queue_bytes_def run_viewer_sender_def queue_next_def)
  with viewer_gets_prefix [of "[OfferChunk [1], SenderStep True, OfferChunk [2]]"] show ?thesis
    unfolding Let_def by blast
qed

subsection \<open>The registry and the viewer slot\<close>

datatype retirement = RetireViewer | RetirePush

record registry =
  live :: "holder_id \<Rightarrow> retirement option"
  registry_closed :: bool

definition registry_insert :: "holder_id \<Rightarrow> retirement \<Rightarrow> registry \<Rightarrow> bool \<times> registry" where
  "registry_insert h r g =
     (if registry_closed g then (False, g) else (True, g\<lparr>live := (live g)(h := Some r)\<rparr>))"

definition registry_remove :: "holder_id \<Rightarrow> registry \<Rightarrow> retirement option \<times> registry" where
  "registry_remove h g = (live g h, g\<lparr>live := (live g)(h := None)\<rparr>)"

definition registry_contains :: "holder_id \<Rightarrow> registry \<Rightarrow> bool" where
  "registry_contains h g \<longleftrightarrow> live g h \<noteq> None"

text \<open>Closing flags every live push revoked and shuts every connection down.\<close>

definition registry_close :: "registry \<Rightarrow> registry" where
  "registry_close g = g\<lparr>registry_closed := True, live := (\<lambda>_. None)\<rparr>"

text \<open>
  The attach side of a run: where each handler is, the retirements still to finish, the pushes
  flagged revoked, and whose viewer output goes to.
\<close>

datatype handler = NotStarted | Registered | Serving | Gone

record attach_side =
  sd_registry :: registry
  sd_sink :: "(holder_id \<times> viewer_queue) option"
  sd_handler :: "holder_id \<Rightarrow> handler"
  sd_retiring :: "holder_id set"
  sd_revoked :: "holder_id set"

definition attach_side_start :: attach_side where
  "attach_side_start = \<lparr>sd_registry = \<lparr>live = (\<lambda>_. None), registry_closed = False\<rparr>, sd_sink = None,
     sd_handler = (\<lambda>_. NotStarted), sd_retiring = {}, sd_revoked = {}\<rparr>"

definition set_handler :: "holder_id \<Rightarrow> handler \<Rightarrow> attach_side \<Rightarrow> attach_side" where
  "set_handler h x s = s\<lparr>sd_handler := (sd_handler s)(h := x)\<rparr>"

definition sink_holder :: "attach_side \<Rightarrow> holder_id option" where
  "sink_holder s = map_option fst (sd_sink s)"

text \<open>Drops the viewer if it is the holder's own.\<close>

definition clear_viewer :: "holder_id \<Rightarrow> attach_side \<Rightarrow> attach_side" where
  "clear_viewer h s = (if sink_holder s = Some h then s\<lparr>sd_sink := None\<rparr> else s)"

definition install_viewer :: "holder_id \<Rightarrow> attach_side \<Rightarrow> bool \<times> attach_side" where
  "install_viewer h s =
     (if registry_contains h (sd_registry s) then (True, s\<lparr>sd_sink := Some (h, new_viewer_queue)\<rparr>)
      else (False, s))"

text \<open>
  The takeover hook, on the writer thread: the connection is forgotten at once; a viewer's
  notification and shutdown are left to a thread of their own.
\<close>

definition retire :: "holder_id \<Rightarrow> attach_side \<Rightarrow> attach_side" where
  "retire h s =
     (case registry_remove h (sd_registry s) of
        (None, g) \<Rightarrow> s
      | (Some RetirePush, g) \<Rightarrow> s\<lparr>sd_registry := g, sd_revoked := insert h (sd_revoked s)\<rparr>
      | (Some RetireViewer, g) \<Rightarrow> s\<lparr>sd_registry := g, sd_retiring := insert h (sd_retiring s)\<rparr>)"

definition retire_connection :: "holder_id \<Rightarrow> attach_side \<Rightarrow> attach_side" where
  "retire_connection h s =
     (if h \<in> sd_retiring s then (clear_viewer h s)\<lparr>sd_retiring := sd_retiring s - {h}\<rparr> else s)"

text \<open>One chunk of output: a viewer that is closed or overflows is dropped.\<close>

definition tee_output :: "bytes \<Rightarrow> attach_side \<Rightarrow> attach_side" where
  "tee_output chunk s =
     (case sd_sink s of
        None \<Rightarrow> s
      | Some (h, q) \<Rightarrow>
          (case offer chunk q of
             (True, q') \<Rightarrow> s\<lparr>sd_sink := Some (h, q')\<rparr>
           | (False, q') \<Rightarrow> s\<lparr>sd_sink := None\<rparr>))"

datatype attach_op = OpInsert holder_id retirement | OpRefused holder_id | OpInstall holder_id
  | OpRetire holder_id | OpRetired holder_id | OpOutput bytes | OpEnd holder_id | OpClose

text \<open>A handler runs its own operations in order; holder identities are not reused.\<close>

fun attach_step :: "attach_op \<Rightarrow> attach_side \<Rightarrow> attach_side" where
  "attach_step (OpInsert h r) s =
     (if sd_handler s h \<noteq> NotStarted then s
      else (case registry_insert h r (sd_registry s) of
              (True, g) \<Rightarrow> set_handler h Registered (s\<lparr>sd_registry := g\<rparr>)
            | (False, g) \<Rightarrow> set_handler h Gone s))"
| "attach_step (OpRefused h) s =
     (if sd_handler s h \<noteq> Registered then s
      else set_handler h Gone (s\<lparr>sd_registry := snd (registry_remove h (sd_registry s))\<rparr>))"
| "attach_step (OpInstall h) s =
     (if sd_handler s h \<noteq> Registered then s else set_handler h Serving (snd (install_viewer h s)))"
| "attach_step (OpRetire h) s = retire h s"
| "attach_step (OpRetired h) s = retire_connection h s"
| "attach_step (OpOutput chunk) s = tee_output chunk s"
| "attach_step (OpEnd h) s =
     (if sd_handler s h = Registered \<or> sd_handler s h = Serving
      then clear_viewer h (set_handler h Gone (s\<lparr>sd_registry := snd (registry_remove h (sd_registry s))\<rparr>))
      else s)"
| "attach_step OpClose s = s\<lparr>sd_registry := registry_close (sd_registry s),
     sd_revoked := sd_revoked s \<union> {h. live (sd_registry s) h = Some RetirePush}\<rparr>"

text \<open>Superseded, or never registered again: the connection cannot become the viewer.\<close>

definition cut_off :: "attach_side \<Rightarrow> holder_id \<Rightarrow> bool" where
  "cut_off s h \<longleftrightarrow> live (sd_registry s) h = None \<and> (sd_handler s h \<noteq> NotStarted \<or> registry_closed (sd_registry s)) \<and>
     sink_holder s \<noteq> Some h"

definition attach_side_inv :: "attach_side \<Rightarrow> bool" where
  "attach_side_inv s \<longleftrightarrow>
     (\<forall>h. live (sd_registry s) h \<noteq> None \<longrightarrow> sd_handler s h = Registered \<or> sd_handler s h = Serving) \<and>
     (registry_closed (sd_registry s) \<longrightarrow> (\<forall>h. live (sd_registry s) h = None)) \<and>
     (\<forall>h. sink_holder s = Some h \<longrightarrow> sd_handler s h = Serving \<and>
        (live (sd_registry s) h \<noteq> None \<or> h \<in> sd_retiring s \<or> registry_closed (sd_registry s) \<or> h \<in> sd_revoked s)) \<and>
     (\<forall>h. h \<in> sd_retiring s \<longrightarrow> live (sd_registry s) h = None \<and> sd_handler s h \<noteq> NotStarted)"

lemmas attach_side_defs = set_handler_def clear_viewer_def sink_holder_def install_viewer_def registry_contains_def
  registry_insert_def registry_remove_def registry_close_def

lemma attach_step_inv: "attach_side_inv s \<Longrightarrow> attach_side_inv (attach_step x s)"
proof (cases x)
  case (OpInsert h r)
  assume "attach_side_inv s"
  then show ?thesis unfolding OpInsert
    by (auto simp: attach_side_inv_def attach_side_defs split: bool.splits)
next
  case (OpRefused h)
  assume "attach_side_inv s"
  then show ?thesis unfolding OpRefused by (auto simp: attach_side_inv_def attach_side_defs)
next
  case (OpInstall h)
  assume "attach_side_inv s"
  then show ?thesis unfolding OpInstall by (auto simp: attach_side_inv_def attach_side_defs)
next
  case (OpRetire h)
  assume "attach_side_inv s"
  then show ?thesis unfolding OpRetire
    by (auto simp: attach_side_inv_def attach_side_defs retire_def split: option.splits retirement.splits)
next
  case (OpRetired h)
  assume "attach_side_inv s"
  then show ?thesis unfolding OpRetired
    by (auto simp: attach_side_inv_def attach_side_defs retire_connection_def)
next
  case (OpOutput c)
  assume "attach_side_inv s"
  then show ?thesis unfolding OpOutput
    by (auto simp: attach_side_inv_def attach_side_defs tee_output_def split: option.splits prod.splits bool.splits)
next
  case (OpEnd h)
  assume "attach_side_inv s"
  then show ?thesis unfolding OpEnd by (auto simp: attach_side_inv_def attach_side_defs)
next
  case OpClose
  assume "attach_side_inv s"
  then show ?thesis unfolding OpClose by (auto simp: attach_side_inv_def attach_side_defs)
qed

lemma cut_off_step: "attach_side_inv s \<Longrightarrow> cut_off s h \<Longrightarrow> cut_off (attach_step x s) h"
  by (cases x)
    (auto simp: cut_off_def attach_side_defs retire_def retire_connection_def tee_output_def attach_side_inv_def
      split: option.splits retirement.splits bool.splits prod.splits)

interpretation attach_sides: monotone_system attach_step attach_side_inv "\<lambda>_. True"
  "\<lambda>s t. \<forall>h. cut_off s h \<longrightarrow> cut_off t h"
  by unfold_locales (auto simp: attach_step_inv cut_off_step)


lemma attach_start_inv: "attach_side_inv attach_side_start"
  by (simp add: attach_side_inv_def attach_side_start_def sink_holder_def)

lemma attach_run_inv: "attach_side_inv (run_ops attach_step ops attach_side_start)"
  by (rule attach_sides.run_inv) (simp_all add: list_all_iff attach_start_inv)

lemma cut_off_run: "attach_side_inv s \<Longrightarrow> cut_off s h \<Longrightarrow> cut_off (run_ops attach_step ops s) h"
  using attach_sides.run_rel [of ops s] by (simp add: list_all_iff)

text \<open>Superseded, with the retirement that will drop its viewer still to come.\<close>

definition being_retired :: "attach_side \<Rightarrow> holder_id \<Rightarrow> bool" where
  "being_retired s h \<longleftrightarrow> live (sd_registry s) h = None \<and> sd_handler s h \<noteq> NotStarted \<and>
     (h \<in> sd_retiring s \<or> sink_holder s \<noteq> Some h)"

lemma being_retired_step: "attach_side_inv s \<Longrightarrow> being_retired s h \<Longrightarrow> being_retired (attach_step x s) h"
  by (cases x)
    (auto simp: being_retired_def attach_side_defs retire_def retire_connection_def tee_output_def attach_side_inv_def
      split: option.splits retirement.splits bool.splits prod.splits)

lemma being_retired_run:
  "attach_side_inv s \<Longrightarrow> being_retired s h \<Longrightarrow> being_retired (run_ops attach_step ops s) h"
  by (induction ops arbitrary: s) (simp_all add: being_retired_step attach_step_inv)

text \<open>C20: A superseded viewer stays out: from the moment a takeover retires a live connection, its handler can
  no longer become the viewer, however it is interleaved with its successor; and once the
  retirement has run, output never goes to it again.\<close>

theorem superseded_stays_out:
  assumes "live (sd_registry (run_ops attach_step before attach_side_start)) h = Some RetireViewer"
  shows "let s = run_ops attach_step (before @ OpRetire h # ys) attach_side_start in
    (sink_holder s \<noteq> Some h \<longrightarrow> sink_holder (run_ops attach_step zs s) \<noteq> Some h) \<and>
    sink_holder (run_ops attach_step (OpRetired h # zs) s) \<noteq> Some h"
proof -
  define r where "r = run_ops attach_step before attach_side_start"
  define s where "s = run_ops attach_step (before @ OpRetire h # ys) attach_side_start"
  have r: "attach_side_inv r" by (simp add: r_def attach_run_inv)
  have s: "attach_side_inv s" by (simp add: s_def attach_run_inv del: run_ops_simps)
  have "being_retired (attach_step (OpRetire h) r) h"
    using assms r by (auto simp: r_def [symmetric] being_retired_def retire_def registry_remove_def attach_side_inv_def)
  from being_retired_run [OF attach_step_inv [OF r] this, of ys]
  have b: "being_retired s h" by (simp add: s_def r_def)
  have "cut_off s h" if "sink_holder s \<noteq> Some h" using b that by (simp add: being_retired_def cut_off_def)
  then have first: "sink_holder s \<noteq> Some h \<longrightarrow> sink_holder (run_ops attach_step zs s) \<noteq> Some h"
    using cut_off_run [OF s, of h zs] by (auto simp: cut_off_def)
  have "cut_off (attach_step (OpRetired h) s) h"
    using b by (auto simp: being_retired_def cut_off_def retire_connection_def attach_side_defs)
  from cut_off_run [OF attach_step_inv [OF s] this, of zs] first show ?thesis
    unfolding s_def [symmetric] Let_def by (simp add: cut_off_def)
qed

theorem superseded_stays_out_witness:
  "let s = run_ops attach_step ([OpInsert (HolderId 1) RetireViewer] @ OpRetire (HolderId 1) #
       [OpInstall (HolderId 1), OpInsert (HolderId 2) RetireViewer, OpInstall (HolderId 2)]) attach_side_start in
    (sink_holder s \<noteq> Some (HolderId 1) \<longrightarrow> sink_holder (run_ops attach_step [] s) \<noteq> Some (HolderId 1)) \<and>
    sink_holder (run_ops attach_step [OpRetired (HolderId 1)] s) \<noteq> Some (HolderId 1)"
  by (rule superseded_stays_out)
    (simp add: attach_side_start_def registry_insert_def set_handler_def)

subsection \<open>Side effects of a run\<close>











text \<open>
  The effects thread: each fact is appended to the log before the session record can carry what it
  reports. For each effect: what the append meets, and whether the record could be patched.
\<close>

record effects_state =
  fx_lifecycle :: lifecycle_events
  fx_files :: log_files
  fx_owner :: pty_control
  fx_disk :: "meta option"

definition fact_appended :: "libs \<Rightarrow> append_env \<Rightarrow> fact \<Rightarrow> json \<Rightarrow> effects_state \<Rightarrow> effects_state" where
  "fact_appended L a k data s =
     (case append_fact (lib_json L) (lib_sha L) (lib_event L) a k (Some data) (fx_lifecycle s) (fx_files s) of
        (lc, f) \<Rightarrow> s\<lparr>fx_lifecycle := lc, fx_files := f\<rparr>)"






lemma fact_appended_fields [simp]:
  "fx_owner (fact_appended L a k d s) = fx_owner s" "fx_disk (fact_appended L a k d s) = fx_disk s"
  by (simp_all add: fact_appended_def split: prod.split)







end
