(* ===== verification/Supervised_Laws.thy ===== *)
theory Supervised_Laws
  imports Supervised_Run
begin

text \<open>
  The contract of the lifecycle guard, as an observer of a run's effects: an automaton that accepts
  exactly the allowed orders (the status is logged before it is recorded, the child has ended
  before its end is logged, the session is unlocked only when the end is recorded or salvaged and
  the client has its answer, hooks run after that). The guard refines it, whatever fails and
  wherever the run is abandoned.
\<close>

subsection \<open>The observer\<close>

record observer =
  ob_status :: run_status
  ob_disk :: "meta option"
  ob_owed :: bool
  ob_locked :: bool
  ob_attach :: bool
  ob_stdin :: bool
  ob_over :: bool
  ob_failed :: bool
  ob_saved :: bool
  ob_hook :: nat

definition observer_start :: "run_core \<Rightarrow> observer" where
  "observer_start c =
     \<lparr>ob_status = Starting, ob_disk = sp_disk c, ob_owed = sp_ready c, ob_locked = True,
      ob_attach = (sp_pty c \<noteq> NoPty), ob_stdin = (stdin_mode (launch_spec (sp_meta c)) = StdinPipe),
      ob_over = False, ob_failed = False, ob_saved = False, ob_hook = 0\<rparr>"

text \<open>A status is logged after what it claims: the transports are up, or the child has ended.\<close>

fun may_log :: "observer \<Rightarrow> run_status \<Rightarrow> bool" where
  "may_log b (Running child) = (ob_status b = Starting \<and> \<not> ob_attach b \<and> \<not> ob_stdin b)"
| "may_log b (Exited child how t) = (\<not> is_terminal (ob_status b) \<and> ob_over b)"
| "may_log b _ = False"

definition snapshot_sent :: "libs \<Rightarrow> observer \<Rightarrow> bytes \<Rightarrow> bool" where
  "snapshot_sent L b msg =
     (case ob_disk b of
        None \<Rightarrow> False
      | Some m \<Rightarrow> status m = ob_status b \<and> msg = ready_message L m)"

fun hook_reason :: "run_status \<Rightarrow> bytes \<Rightarrow> bool" where
  "hook_reason (Exited child how t) reason = (reason = exit_reason_env how)"
| "hook_reason _ reason = False"

fun observe :: "libs \<Rightarrow> sup_event \<Rightarrow> observer \<Rightarrow> observer option" where
  "observe L AttachStarted b = (if ob_status b = Starting then Some (b\<lparr>ob_attach := False\<rparr>) else None)"
| "observe L StdinOpened b = (if ob_status b = Starting then Some (b\<lparr>ob_stdin := False\<rparr>) else None)"
| "observe L (Logged s) b =
     (if ob_locked b \<and> may_log b s then Some (b\<lparr>ob_status := s, ob_failed := False\<rparr>) else None)"
| "observe L (Recorded m) b =
     (if ob_locked b \<and> ob_status b \<noteq> Starting \<and> status m = ob_status b
      then Some (b\<lparr>ob_disk := Some m, ob_failed := False, ob_saved := is_terminal (status m)\<rparr>) else None)"
| "observe L (RecordFailed err) b =
     (if ob_locked b \<and> ob_status b \<noteq> Starting then Some (b\<lparr>ob_failed := True\<rparr>) else None)"
| "observe L Salvaged b =
     (if ob_locked b \<and> is_terminal (ob_status b) \<and> ob_failed b then Some (b\<lparr>ob_saved := True\<rparr>) else None)"
| "observe L (ReadySent msg) b =
     (if ob_locked b \<and> ob_owed b \<and> (snapshot_sent L b msg \<or> ob_failed b \<and> ob_saved b)
      then Some (b\<lparr>ob_owed := False\<rparr>) else None)"
| "observe L ReadyLost b =
     (if ob_locked b \<and> ob_owed b \<and> ob_status b \<noteq> Starting then Some (b\<lparr>ob_owed := False\<rparr>) else None)"
| "observe L WatchersStarted b = (if ob_locked b \<and> \<not> ob_owed b then Some b else None)"
| "observe L (ChildReaped code) b =
     (if ob_locked b \<and> ob_status b \<noteq> Starting \<and> \<not> is_terminal (ob_status b)
      then Some (b\<lparr>ob_over := True\<rparr>) else None)"
| "observe L (ChildStopped gone) b =
     (if ob_locked b \<and> \<not> is_terminal (ob_status b) then Some (b\<lparr>ob_over := True\<rparr>) else None)"
| "observe L RecordingClosed b = (if ob_locked b \<and> \<not> is_terminal (ob_status b) then Some b else None)"
| "observe L AttachEnded b = (if ob_locked b \<and> \<not> is_terminal (ob_status b) then Some b else None)"
| "observe L Unlocked b =
     (if ob_locked b \<and> is_terminal (ob_status b) \<and> ob_saved b \<and> \<not> ob_owed b
      then Some (b\<lparr>ob_locked := False\<rparr>) else None)"
| "observe L (HookRun i reason) b =
     (if \<not> ob_locked b \<and> ob_hook b \<le> i \<and> hook_reason (ob_status b) reason then Some (b\<lparr>ob_hook := Suc i\<rparr>) else None)"

fun observe_all :: "libs \<Rightarrow> sup_event list \<Rightarrow> observer \<Rightarrow> observer option" where
  "observe_all L [] b = Some b"
| "observe_all L (x # xs) b = (case observe L x b of None \<Rightarrow> None | Some b' \<Rightarrow> observe_all L xs b')"

lemma observe_all_append:
  "observe_all L (xs @ ys) b = (case observe_all L xs b of None \<Rightarrow> None | Some b' \<Rightarrow> observe_all L ys b')"
  by (induction xs arbitrary: b) (auto split: option.splits)

subsection \<open>Following a run\<close>

text \<open>The observer has accepted the run so far and agrees with its state.\<close>

definition follows :: "libs \<Rightarrow> observer \<Rightarrow> run_core \<Rightarrow> observer \<Rightarrow> bool" where
  "follows L b0 c b \<longleftrightarrow> observe_all L (sp_trace c) b0 = Some b \<and> ob_disk b = sp_disk c \<and>
     ob_owed b = sp_ready c \<and> ob_locked b = sp_lock c"

named_theorems sup_simps \<open>what the guard's small operations change\<close>

text \<open>Operations that neither add an effect nor change what the observer sees.\<close>

definition quiet :: "run_core \<Rightarrow> run_core \<Rightarrow> bool" where
  "quiet c d \<longleftrightarrow> sp_trace d = sp_trace c \<and> sp_disk d = sp_disk c \<and> sp_ready d = sp_ready c \<and>
     sp_lock d = sp_lock c"

lemma follows_quiet: "follows L b0 c b \<Longrightarrow> quiet c d \<Longrightarrow> follows L b0 d b"
  by (simp add: follows_def quiet_def)

lemma follows_traced:
  "follows L b0 c b \<Longrightarrow> observe L x b = Some b' \<Longrightarrow> ob_disk b' = sp_disk d \<Longrightarrow> ob_owed b' = sp_ready d \<Longrightarrow>
   ob_locked b' = sp_lock d \<Longrightarrow> sp_trace d = sp_trace c \<Longrightarrow> follows L b0 (traced x d) b'"
  by (simp add: follows_def traced_def observe_all_append)

lemma traced_fields [sup_simps]:
  "sp_identity (traced x c) = sp_identity c" "sp_meta (traced x c) = sp_meta c"
  "sp_disk (traced x c) = sp_disk c" "sp_ready (traced x c) = sp_ready c" "sp_lock (traced x c) = sp_lock c"
  "sp_ended (traced x c) = sp_ended c" "sp_pty (traced x c) = sp_pty c" "sp_timer (traced x c) = sp_timer c"
  "sp_trace (traced x c) = sp_trace c @ [x]" "sp_child_pid (traced x c) = sp_child_pid c"
  by (simp_all add: traced_def)

lemma warn_fields [sup_simps]:
  "sp_identity (warn w c) = sp_identity c" "status (sp_meta (warn w c)) = status (sp_meta c)"
  "launch_spec (sp_meta (warn w c)) = launch_spec (sp_meta c)" "run_id (sp_meta (warn w c)) = run_id (sp_meta c)"
  "sp_disk (warn w c) = sp_disk c" "sp_ready (warn w c) = sp_ready c" "sp_lock (warn w c) = sp_lock c"
  "sp_ended (warn w c) = sp_ended c" "sp_pty (warn w c) = sp_pty c" "sp_timer (warn w c) = sp_timer c"
  "sp_trace (warn w c) = sp_trace c"
  by (simp_all add: warn_def add_warning_def)

lemma warn_all_fields [sup_simps]:
  "sp_identity (warn_all ws c) = sp_identity c" "status (sp_meta (warn_all ws c)) = status (sp_meta c)"
  "launch_spec (sp_meta (warn_all ws c)) = launch_spec (sp_meta c)"
  "run_id (sp_meta (warn_all ws c)) = run_id (sp_meta c)"
  "sp_disk (warn_all ws c) = sp_disk c" "sp_ready (warn_all ws c) = sp_ready c"
  "sp_lock (warn_all ws c) = sp_lock c" "sp_ended (warn_all ws c) = sp_ended c"
  "sp_pty (warn_all ws c) = sp_pty c" "sp_timer (warn_all ws c) = sp_timer c"
  "sp_trace (warn_all ws c) = sp_trace c"
  unfolding warn_all_def by (induction ws arbitrary: c) (simp_all add: sup_simps)

lemma meta_setters [sup_simps]:
  "status (set_pty_control x m) = status m" "launch_spec (set_pty_control x m) = launch_spec m"
  "run_id (set_pty_control x m) = run_id m"
  "status (set_pty_recording r m) = status m" "launch_spec (set_pty_recording r m) = launch_spec m"
  "run_id (set_pty_recording r m) = run_id m"
  "status (set_pty p m) = status m" "launch_spec (set_pty p m) = launch_spec m" "run_id (set_pty p m) = run_id m"
  by (simp_all add: set_pty_control_def set_pty_recording_def set_pty_def)

lemma folded_fields [sup_simps]:
  "status (folded e s p m) = status m" "launch_spec (folded e s p m) = launch_spec m"
  "run_id (folded e s p m) = run_id m"
  by (simp_all add: folded_def Let_def sup_simps split: pty_side.split option.split)

lemma emit_fields:
  assumes "emit js sha ser bj se a v durable lc m f = (lc', m', f')"
  shows "status m' = status m \<and> launch_spec m' = launch_spec m \<and> run_id m' = run_id m \<and>
    provenance m' = provenance m"
  using assms by (auto simp: emit_def add_warning_def split: option.splits prod.splits sum.splits)

lemma log_fields [sup_simps]:
  "sp_identity (log_status L e s durable c) = sp_identity c"
  "status (sp_meta (log_status L e s durable c)) = status (sp_meta c)"
  "launch_spec (sp_meta (log_status L e s durable c)) = launch_spec (sp_meta c)"
  "sp_disk (log_status L e s durable c) = sp_disk c" "sp_ready (log_status L e s durable c) = sp_ready c"
  "sp_lock (log_status L e s durable c) = sp_lock c" "sp_ended (log_status L e s durable c) = sp_ended c"
  "sp_pty (log_status L e s durable c) = sp_pty c" "sp_timer (log_status L e s durable c) = sp_timer c"
  "sp_trace (log_status L e s durable c) = sp_trace c @ [Logged (status (sp_meta c))]"
  by (auto simp: log_status_def sup_simps dest: emit_fields split: prod.splits)


lemma finish_recording_fields [sup_simps]:
  "sp_identity (finish_recording e c) = sp_identity c"
  "status (sp_meta (finish_recording e c)) = status (sp_meta c)"
  "launch_spec (sp_meta (finish_recording e c)) = launch_spec (sp_meta c)"
  "sp_disk (finish_recording e c) = sp_disk c" "sp_ready (finish_recording e c) = sp_ready c"
  "sp_lock (finish_recording e c) = sp_lock c" "sp_ended (finish_recording e c) = sp_ended c"
  "sp_timer (finish_recording e c) = sp_timer c"
  by (simp_all add: finish_recording_def Let_def sup_simps split: pty_side.split option.split prod.split)

lemma clean_up_fields [sup_simps]:
  "sp_identity (clean_up_control_files e c) = sp_identity c"
  "status (sp_meta (clean_up_control_files e c)) = status (sp_meta c)"
  "launch_spec (sp_meta (clean_up_control_files e c)) = launch_spec (sp_meta c)"
  "sp_disk (clean_up_control_files e c) = sp_disk c" "sp_ready (clean_up_control_files e c) = sp_ready c"
  "sp_lock (clean_up_control_files e c) = sp_lock c" "sp_ended (clean_up_control_files e c) = sp_ended c"
  "sp_timer (clean_up_control_files e c) = sp_timer c" "sp_pty (clean_up_control_files e c) = NoPty"
  by (simp_all add: clean_up_control_files_def sup_simps split: pty_side.split)

lemma closed_trace:
  "set (sp_trace (finish_recording e c)) \<subseteq> insert RecordingClosed (set (sp_trace c))"
  "set (sp_trace c) \<subseteq> set (sp_trace (finish_recording e c))"
  "set (sp_trace c) \<subseteq> set (sp_trace (clean_up_control_files e c))"
  by (auto simp: finish_recording_def clean_up_control_files_def Let_def sup_simps
      split: pty_side.split option.split prod.split)

lemma follows_finish_recording:
  assumes "follows L b0 c b" "sp_lock c" "\<not> is_terminal (ob_status b)"
  shows "follows L b0 (finish_recording e c) b"
proof -
  have s: "observe L RecordingClosed b = Some b" using assms by (simp add: follows_def)
  show ?thesis using assms s
    by (auto simp: finish_recording_def Let_def follows_def observe_all_append sup_simps
        split: pty_side.split option.split prod.split)
qed

lemma follows_clean_up:
  assumes "follows L b0 c b" "sp_lock c" "\<not> is_terminal (ob_status b)"
  shows "follows L b0 (clean_up_control_files e c) b"
proof -
  have s: "observe L AttachEnded b = Some b" using assms by (simp add: follows_def)
  show ?thesis using assms s
    by (auto simp: clean_up_control_files_def follows_def observe_all_append sup_simps split: pty_side.split)
qed

lemma follows_log:
  assumes "follows L b0 c b" "sp_lock c" "may_log b (status (sp_meta c))"
  shows "follows L b0 (log_status L e s durable c) (b\<lparr>ob_status := status (sp_meta c), ob_failed := False\<rparr>)"
  using assms by (simp add: follows_def observe_all_append sup_simps)

lemma write_meta_result:
  assumes "write_meta e s c = (r, d)"
  shows "d = c\<lparr>sp_meta := folded e s (sp_pty c) (sp_meta c), sp_disk := sp_disk d, sp_trace := sp_trace d\<rparr>"
    and "r = su_write e s"
    and "r = None \<Longrightarrow> sp_disk d = Some (sp_meta d)" "r \<noteq> None \<Longrightarrow> sp_disk d = sp_disk c"
    and "sp_trace d = sp_trace c @ [case r of None \<Rightarrow> Recorded (sp_meta d) | Some err \<Rightarrow> RecordFailed err]"
  using assms by (auto simp: write_meta_def Let_def traced_def split: option.splits)

lemma write_meta_fields:
  assumes "write_meta e s c = (r, d)"
  shows "sp_identity d = sp_identity c" "status (sp_meta d) = status (sp_meta c)"
    "launch_spec (sp_meta d) = launch_spec (sp_meta c)" "sp_ready d = sp_ready c" "sp_lock d = sp_lock c"
    "sp_ended d = sp_ended c" "sp_pty d = sp_pty c" "sp_timer d = sp_timer c"
    "set (sp_trace c) \<subseteq> set (sp_trace d)" "sp_child_pid d = sp_child_pid c"
  using assms by (auto simp: write_meta_def Let_def sup_simps split: option.splits)

text \<open>The observer after a write.\<close>

definition after_write :: "bytes option \<Rightarrow> meta \<Rightarrow> observer \<Rightarrow> observer" where
  "after_write r m b =
     (if r = None then b\<lparr>ob_disk := Some m, ob_failed := False, ob_saved := is_terminal (status m)\<rparr>
      else b\<lparr>ob_failed := True\<rparr>)"

lemma after_write_fields [simp]:
  "ob_status (after_write r m b) = ob_status b" "ob_attach (after_write r m b) = ob_attach b"
  "ob_stdin (after_write r m b) = ob_stdin b" "ob_over (after_write r m b) = ob_over b"
  "ob_hook (after_write r m b) = ob_hook b" "ob_owed (after_write r m b) = ob_owed b"
  "ob_locked (after_write r m b) = ob_locked b"
  "ob_disk (after_write None m b) = Some m" "ob_saved (after_write None m b) = is_terminal (status m)"
  "ob_failed (after_write (Some err) m b)"
  by (simp_all add: after_write_def)

lemma follows_write:
  assumes "follows L b0 c b" "sp_lock c" "ob_status b = status (sp_meta c)" "ob_status b \<noteq> Starting"
    and w: "write_meta e s c = (r, d)"
  shows "follows L b0 d (after_write r (sp_meta d) b)"
proof -
  note f = write_meta_fields [OF w] and g = write_meta_result [OF w]
  show ?thesis
  proof (cases r)
    case None
    then show ?thesis
      using assms(1-4) f g(3) g(5) by (simp add: follows_def observe_all_append after_write_def)
  next
    case (Some err)
    then show ?thesis
      using assms(1-4) f g(4) g(5) by (simp add: follows_def observe_all_append after_write_def)
  qed
qed

subsection \<open>Unlocking\<close>

lemma run_hooks_follows:
  assumes "follows L b0 c b" "\<not> sp_lock c" "ob_hook b \<le> i" "hook_reason (ob_status b) reason"
  shows "\<exists>b'. follows L b0 (run_hooks L e reason i cmds c) b' \<and> ob_status b' = ob_status b \<and> ob_saved b' = ob_saved b"
  using assms
proof (induction cmds arbitrary: c b i)
  case Nil
  then show ?case by auto
next
  case (Cons cmd cmds)
  show ?case
  proof (cases "lib_shell L cmd = Some []")
    case True
    then show ?thesis using Cons.IH [OF Cons.prems(1,2), of "Suc i"] Cons.prems(3,4) by simp
  next
    case False
    obtain lc f where af: "append_fact (lib_json L) (lib_sha L) (lib_event L) (su_hook_append e i) CallbackFinished
        (Some (hook_record i cmd (su_hook e i))) (sp_lifecycle c) (sp_files c) = (lc, f)" by force
    let ?d = "traced (HookRun i reason) (c\<lparr>sp_lifecycle := lc, sp_files := f\<rparr>)"
    have "follows L b0 ?d (b\<lparr>ob_hook := Suc i\<rparr>)"
      using Cons.prems by (intro follows_traced [where c = c and b = b]) (auto simp: follows_def)
    from Cons.IH [OF this, of "Suc i"] False af Cons.prems(2,4) show ?thesis
      by (simp add: sup_simps)
  qed
qed

lemma run_hooks_fields:
  "sp_identity (run_hooks L e reason i cmds c) = sp_identity c \<and> sp_meta (run_hooks L e reason i cmds c) = sp_meta c \<and>
   sp_disk (run_hooks L e reason i cmds c) = sp_disk c \<and> sp_ready (run_hooks L e reason i cmds c) = sp_ready c \<and>
   sp_lock (run_hooks L e reason i cmds c) = sp_lock c \<and> sp_ended (run_hooks L e reason i cmds c) = sp_ended c \<and>
   sp_pty (run_hooks L e reason i cmds c) = sp_pty c \<and> sp_timer (run_hooks L e reason i cmds c) = sp_timer c \<and>
   sp_child_pid (run_hooks L e reason i cmds c) = sp_child_pid c \<and>
   set (sp_trace c) \<subseteq> set (sp_trace (run_hooks L e reason i cmds c))"
  by (induction cmds arbitrary: c i)
     (auto simp: sup_simps subset_iff split: prod.split)

lemma unlock_fields [sup_simps]:
  "sp_identity (unlock_run L e c) = sp_identity c" "sp_meta (unlock_run L e c) = sp_meta c"
  "sp_disk (unlock_run L e c) = sp_disk c" "sp_ready (unlock_run L e c) = sp_ready c"
  "sp_lock (unlock_run L e c) = False" "sp_ended (unlock_run L e c) = sp_ended c"
  "sp_pty (unlock_run L e c) = sp_pty c" "sp_timer (unlock_run L e c) = sp_timer c"
  "sp_child_pid (unlock_run L e c) = sp_child_pid c"
  by (simp_all add: unlock_run_def run_on_exit_hooks_def run_hooks_fields sup_simps split: run_status.split)

lemma unlock_trace: "set (sp_trace c) \<subseteq> set (sp_trace (unlock_run L e c))"
  using run_hooks_fields [of L e _ 0 "on_exit (launch_spec (sp_meta c))" "traced Unlocked (c\<lparr>sp_lock := False\<rparr>)"]
  by (auto simp: unlock_run_def run_on_exit_hooks_def sup_simps split: run_status.split)

lemma follows_unlock:
  assumes "follows L b0 c b" "sp_lock c" "\<not> sp_ready c" "is_terminal (ob_status b)" "ob_saved b" "ob_hook b = 0"
    and st: "ob_status b = status (sp_meta c)"
  shows "\<exists>b'. follows L b0 (unlock_run L e c) b' \<and> ob_status b' = ob_status b \<and> ob_saved b'"
proof -
  let ?d = "traced Unlocked (c\<lparr>sp_lock := False\<rparr>)" and ?b = "b\<lparr>ob_locked := False\<rparr>"
  have d: "follows L b0 ?d ?b"
    using assms by (intro follows_traced [where c = c and b = b]) (auto simp: follows_def)
  show ?thesis
  proof (cases "status (sp_meta c)")
    case (Exited child how t)
    then have "hook_reason (ob_status ?b) (exit_reason_env how)" using st by simp
    from run_hooks_follows [OF d _ _ this, of 0 e "on_exit (launch_spec (sp_meta ?d))"] Exited assms(5,6)
    show ?thesis unfolding unlock_run_def run_on_exit_hooks_def by (simp add: sup_simps)
  qed (use d assms(5) in \<open>auto simp: unlock_run_def run_on_exit_hooks_def sup_simps\<close>)
qed


subsection \<open>Readiness\<close>

text \<open>The part of the observer that readiness and rewrites of the record leave alone.\<close>

definition same_view :: "observer \<Rightarrow> observer \<Rightarrow> bool" where
  "same_view b b' \<longleftrightarrow> ob_status b' = ob_status b \<and> ob_attach b' = ob_attach b \<and> ob_stdin b' = ob_stdin b \<and>
     ob_over b' = ob_over b \<and> ob_hook b' = ob_hook b \<and> (ob_saved b \<longrightarrow> ob_saved b') \<and>
     (ob_saved b' \<longrightarrow> ob_saved b \<or> is_terminal (ob_status b))"

lemma signal_readiness_follows:
  assumes "follows L b0 c b" "sp_lock c" "sp_disk c = Some (sp_meta c)"
    and st: "ob_status b = status (sp_meta c)" "ob_status b \<noteq> Starting" "ob_saved b \<longrightarrow> is_terminal (ob_status b)"
  shows "\<exists>b'. follows L b0 (signal_readiness L e s c) b' \<and> same_view b b'"
proof (cases "sp_ready c")
  case False
  then show ?thesis using assms(1)
    by (auto simp: signal_readiness_def deliver_ready_def same_view_def)
next
  case owed: True
  show ?thesis
  proof (cases "su_ready e s")
    case None
    have sent: "snapshot_sent L b (ready_message L (sp_meta c))"
      using assms by (simp add: snapshot_sent_def follows_def)
    have "follows L b0 (traced (ReadySent (ready_message L (sp_meta c))) (c\<lparr>sp_ready := False\<rparr>)) (b\<lparr>ob_owed := False\<rparr>)"
      using assms owed sent by (intro follows_traced [where c = c and b = b]) (auto simp: follows_def)
    then show ?thesis using None owed
      by (auto simp: signal_readiness_def deliver_ready_def same_view_def)
  next
    case (Some err)
    let ?w = "ascii ''readiness not delivered: start client gone ('' @ err @ ascii '')''"
    let ?c = "warn ?w (traced ReadyLost (c\<lparr>sp_ready := False\<rparr>))" and ?b = "b\<lparr>ob_owed := False\<rparr>"
    have "follows L b0 (traced ReadyLost (c\<lparr>sp_ready := False\<rparr>)) ?b"
      using assms owed by (intro follows_traced [where c = c and b = b]) (auto simp: follows_def)
    then have f: "follows L b0 ?c ?b" by (rule follows_quiet) (simp add: quiet_def sup_simps)
    obtain r d where w: "write_meta e s ?c = (r, d)" by fastforce
    have "follows L b0 d (after_write r (sp_meta d) ?b)"
      using assms by (intro follows_write [OF f _ _ _ w]) (simp_all add: sup_simps)
    moreover have "signal_readiness L e s c = d"
      using Some owed w by (simp add: signal_readiness_def deliver_ready_def)
    moreover have "same_view b (after_write r (sp_meta d) ?b)"
      using st write_meta_fields(2) [OF w] by (simp add: same_view_def after_write_def sup_simps)
    ultimately show ?thesis by blast
  qed
qed

lemma signal_readiness_fields:
  "sp_identity (signal_readiness L e s c) = sp_identity c"
  "status (sp_meta (signal_readiness L e s c)) = status (sp_meta c)"
  "launch_spec (sp_meta (signal_readiness L e s c)) = launch_spec (sp_meta c)"
  "\<not> sp_ready (signal_readiness L e s c)" "sp_lock (signal_readiness L e s c) = sp_lock c"
  "sp_ended (signal_readiness L e s c) = sp_ended c" "sp_pty (signal_readiness L e s c) = sp_pty c"
  "sp_timer (signal_readiness L e s c) = sp_timer c"
  "set (sp_trace c) \<subseteq> set (sp_trace (signal_readiness L e s c))"
  "sp_disk c = Some m \<Longrightarrow> status m = status (sp_meta c) \<Longrightarrow>
   \<exists>m'. sp_disk (signal_readiness L e s c) = Some m' \<and> status m' = status (sp_meta c)"
  by (auto simp: signal_readiness_def deliver_ready_def write_meta_def Let_def sup_simps
      split: option.split)

subsection \<open>The end of a run\<close>

text \<open>
  How a run ended and what is kept of it: the child ended and its status says how; the record has
  that status, or a copy is salvaged.
\<close>

definition end_cause :: "sup_env \<Rightarrow> run_core \<Rightarrow> exit_reason \<Rightarrow> bool" where
  "end_cause e c how \<longleftrightarrow>
     (\<exists>step. how = SidecarFailed step \<and> ChildStopped (sd_gone (terminate_and_reap e (sp_identity c))) \<in> set (sp_trace c)) \<or>
     (\<exists>code. how = classify e c (exit_of_code code) \<and> ChildReaped code \<in> set (sp_trace c))"

definition run_kept :: "sup_env \<Rightarrow> run_core \<Rightarrow> bool" where
  "run_kept e c \<longleftrightarrow>
     (case su_write e AtEnd of
        None \<Rightarrow> (\<exists>m. sp_disk c = Some m \<and> status m = status (sp_meta c))
      | Some err \<Rightarrow> RecordFailed err \<in> set (sp_trace c) \<and> Salvaged \<in> set (sp_trace c))"

definition run_settled :: "libs \<Rightarrow> sup_env \<Rightarrow> observer \<Rightarrow> process_identity \<Rightarrow> run_core \<Rightarrow> bool" where
  "run_settled L e b0 child c \<longleftrightarrow>
     sp_ended c \<and> \<not> sp_lock c \<and> \<not> sp_ready c \<and> sp_pty c = NoPty \<and> sp_identity c = child \<and>
     (\<exists>b. follows L b0 c b \<and> ob_saved b \<and> ob_status b = status (sp_meta c)) \<and>
     (\<exists>how. status (sp_meta c) = Exited child how (su_now e) \<and> end_cause e c how) \<and> run_kept e c"

text \<open>The run so far, before it has an outcome.\<close>

definition run_alive :: "observer \<Rightarrow> process_identity \<Rightarrow> run_core \<Rightarrow> bool" where
  "run_alive b child c \<longleftrightarrow>
     \<not> sp_ended c \<and> sp_lock c \<and> sp_identity c = child \<and> ob_status b = status (sp_meta c) \<and> ob_hook b = 0 \<and>
     \<not> ob_saved b \<and> status (sp_meta c) \<in> {Starting, Running child}"

lemma exit_of_code_sound: "\<not> is_sidecar_failed (classify e c (exit_of_code code))"
  by (simp add: classify_def exit_of_code_def split: option.split)

lemma classify_timer: "sp_timer c = sp_timer d \<Longrightarrow> classify e c how = classify e d how"
  by (simp add: classify_def)

text \<open>The end is logged, and recorded or salvaged; the session is still locked.\<close>

definition run_closing :: "libs \<Rightarrow> sup_env \<Rightarrow> observer \<Rightarrow> process_identity \<Rightarrow> run_core \<Rightarrow> bool" where
  "run_closing L e b0 child c \<longleftrightarrow>
     sp_ended c \<and> sp_lock c \<and> sp_pty c = NoPty \<and> sp_identity c = child \<and>
     (\<exists>b. follows L b0 c b \<and> ob_saved b \<and> ob_status b = status (sp_meta c) \<and> ob_hook b = 0 \<and>
       (su_write e AtEnd \<noteq> None \<longrightarrow> ob_failed b)) \<and>
     (\<exists>how. status (sp_meta c) = Exited child how (su_now e) \<and> end_cause e c how) \<and> run_kept e c"

lemma end_cause_mono:
  "end_cause e c how \<Longrightarrow> set (sp_trace c) \<subseteq> set (sp_trace d) \<Longrightarrow> sp_timer d = sp_timer c \<Longrightarrow>
   sp_identity d = sp_identity c \<Longrightarrow> end_cause e d how"
  unfolding end_cause_def using classify_timer [of c d e] by auto

lemma run_kept_mono:
  "run_kept e c \<Longrightarrow> set (sp_trace c) \<subseteq> set (sp_trace d) \<Longrightarrow> sp_disk d = sp_disk c \<Longrightarrow>
   status (sp_meta d) = status (sp_meta c) \<Longrightarrow> run_kept e d"
  by (auto simp: run_kept_def split: option.splits)

lemma recorded_closing:
  assumes f: "follows L b0 c b" "sp_lock c" "sp_ended c" "sp_pty c = NoPty"
    and b: "ob_status b = status (sp_meta c)" "ob_hook b = 0"
    and w: "write_meta e AtEnd c = (r, d)"
    and st: "status (sp_meta c) = Exited child how (su_now e)" "end_cause e c how" "sp_identity c = child"
  shows "run_closing L e b0 child (case r of None \<Rightarrow> d | Some err \<Rightarrow> salvage_record L e err d)"
proof -
  note g = write_meta_fields [OF w] and h = write_meta_result [OF w]
  have ns: "ob_status b \<noteq> Starting" using b(1) st(1) by simp
  have fd: "follows L b0 d (after_write r (sp_meta d) b)"
    by (rule follows_write [OF f(1,2) b(1) ns w])
  let ?d = "case r of None \<Rightarrow> d | Some err \<Rightarrow> salvage_record L e err d"
  have fields: "sp_lock ?d" "sp_ended ?d" "sp_pty ?d = NoPty" "sp_identity ?d = child"
    "sp_meta ?d = sp_meta d" "sp_timer ?d = sp_timer c" "set (sp_trace d) \<subseteq> set (sp_trace ?d)"
    using f g st(3) by (auto simp: salvage_record_def sup_simps split: option.split)
  have kept: "run_kept e ?d"
  proof (cases r)
    case None
    then show ?thesis using h(2) h(3) by (simp add: run_kept_def)
  next
    case (Some err)
    then show ?thesis using h(2,5) by (simp add: run_kept_def salvage_record_def sup_simps)
  qed
  have "\<exists>b'. follows L b0 ?d b' \<and> ob_status b' = ob_status b \<and> ob_saved b' \<and> ob_hook b' = 0 \<and>
      (su_write e AtEnd \<noteq> None \<longrightarrow> ob_failed b')"
  proof (cases r)
    case None
    then have "ob_saved (after_write r (sp_meta d) b)" using st(1) g(2) by simp
    then show ?thesis using fd None b(2) h(2) by (intro exI [of _ "after_write r (sp_meta d) b"]) simp
  next
    case (Some err)
    let ?b = "(after_write r (sp_meta d) b)\<lparr>ob_saved := True\<rparr>"
    have "follows L b0 (salvage_record L e err d) ?b"
      unfolding salvage_record_def
      using fd Some st(1) b(1) g f
      by (intro follows_traced [where c = d and b = "after_write r (sp_meta d) b"]) (auto simp: follows_def)
    then show ?thesis using Some b(2) by (intro exI [of _ ?b]) simp
  qed
  moreover have "end_cause e ?d how"
    by (rule end_cause_mono [OF st(2) subset_trans [OF g(9) fields(7)]]) (simp_all only: fields(4,6) st(3))
  ultimately show ?thesis using fields(1-5) kept g(2) b(1) st(1) unfolding run_closing_def
    by (intro conjI) (simp_all, blast)
qed

lemma closing_settled:
  assumes c: "run_closing L e b0 child c" and "\<not> sp_ready c"
  shows "run_settled L e b0 child (unlock_run L e c)"
proof -
  from c obtain b how where b: "follows L b0 c b" "ob_saved b" "ob_status b = status (sp_meta c)" "ob_hook b = 0"
    and how: "status (sp_meta c) = Exited child how (su_now e)" "end_cause e c how"
    unfolding run_closing_def by blast
  have "is_terminal (ob_status b)" using b(3) how(1) by simp
  from follows_unlock [OF b(1) _ assms(2) this b(2,4,3), of e] c
  obtain b' where b': "follows L b0 (unlock_run L e c) b'" "ob_status b' = ob_status b" "ob_saved b'"
    unfolding run_closing_def by blast
  have "end_cause e (unlock_run L e c) how"
    using end_cause_mono [OF how(2) unlock_trace] by (simp add: sup_simps)
  moreover have "run_kept e (unlock_run L e c)"
    using run_kept_mono [OF _ unlock_trace] c unfolding run_closing_def by (simp add: sup_simps)
  moreover have "sp_ended c" "sp_pty c = NoPty" "sp_identity c = child" using c by (auto simp: run_closing_def)
  moreover have "ob_status b' = status (sp_meta (unlock_run L e c))" using b'(2) b(3) by (simp add: sup_simps)
  ultimately show ?thesis using b'(1,3) how(1) assms(2)
    unfolding run_settled_def by (simp add: sup_simps) blast
qed

lemma closing_child_pid:
  assumes "run_closing L e b0 child c"
  shows "run_closing L e b0 child (c\<lparr>sp_child_pid := x\<rparr>)"
proof -
  let ?d = "c\<lparr>sp_child_pid := x\<rparr>"
  have "\<And>b. follows L b0 ?d b = follows L b0 c b" "\<And>how. end_cause e ?d how = end_cause e c how"
    "run_kept e ?d = run_kept e c"
    by (simp_all add: follows_def run_kept_def end_cause_def classify_def split: option.split)
  with assms show ?thesis unfolding run_closing_def by simp
qed

text \<open>The client is answered with the recorded end, or with an error when it could not be recorded.\<close>

lemma closing_snapshot:
  assumes c: "run_closing L e b0 child c" and d: "sp_disk c = Some (sp_meta c)" and w: "su_write e AtEnd = None"
  shows "run_closing L e b0 child (signal_readiness L e s c)"
proof -
  note f = signal_readiness_fields [where L = L and e = e and s = s and c = c]
  from c obtain b how where b: "follows L b0 c b" "ob_saved b" "ob_status b = status (sp_meta c)" "ob_hook b = 0"
    and how: "status (sp_meta c) = Exited child how (su_now e)" "end_cause e c how" and l: "sp_lock c"
    unfolding run_closing_def by blast
  have "ob_status b \<noteq> Starting" "ob_saved b \<longrightarrow> is_terminal (ob_status b)" using b(3) how(1) by simp_all
  from signal_readiness_follows [OF b(1) l d b(3) this, of e s]
  obtain b' where b': "follows L b0 (signal_readiness L e s c) b'" "same_view b b'" by blast
  have "end_cause e (signal_readiness L e s c) how"
    by (rule end_cause_mono [OF how(2) f(9,8,1)])
  moreover have "run_kept e (signal_readiness L e s c)" using f(10) [OF d] f(2) w by (simp add: run_kept_def)
  moreover have "sp_ended c" "sp_pty c = NoPty" "sp_identity c = child" using c by (auto simp: run_closing_def)
  ultimately show ?thesis using b' b l f how(1) w unfolding run_closing_def same_view_def by auto
qed

lemma closing_error:
  assumes c: "run_closing L e b0 child c" and w: "su_write e AtEnd \<noteq> None" and "sp_ready c"
    and x: "x = ReadySent msg \<or> x = ReadyLost"
  shows "run_closing L e b0 child (traced x (c\<lparr>sp_ready := False\<rparr>))"
proof -
  let ?d = "traced x (c\<lparr>sp_ready := False\<rparr>)"
  from c w obtain b how where b: "follows L b0 c b" "ob_saved b" "ob_status b = status (sp_meta c)" "ob_hook b = 0"
      "ob_failed b"
    and how: "status (sp_meta c) = Exited child how (su_now e)" "end_cause e c how" and l: "sp_lock c"
    unfolding run_closing_def by blast
  have "follows L b0 ?d (b\<lparr>ob_owed := False\<rparr>)"
    using b l x how(1) assms(3) by (intro follows_traced [where c = c and b = b]) (auto simp: follows_def)
  moreover have "end_cause e ?d how" by (rule end_cause_mono [OF how(2)]) (auto simp: sup_simps)
  moreover have "run_kept e ?d"
    by (rule run_kept_mono [of e c]) (use c in \<open>auto simp: sup_simps run_closing_def\<close>)
  moreover have "sp_ended c" "sp_pty c = NoPty" "sp_identity c = child" using c by (auto simp: run_closing_def)
  ultimately show ?thesis using b l how(1) unfolding run_closing_def
    by (intro conjI exI [of _ "b\<lparr>ob_owed := False\<rparr>"] exI [of _ how]) (simp_all add: sup_simps)
qed


lemma logged_closing:
  assumes f: "follows L b0 c b" "sp_lock c" "sp_ended c" "sp_pty c = NoPty" "sp_identity c = child"
    and b: "ob_over b" "\<not> is_terminal (ob_status b)" "ob_hook b = 0"
    and st: "status (sp_meta c) = Exited child how (su_now e)" "end_cause e c how"
    and w: "write_meta e AtEnd (log_status L e AtEnd True c) = (r, d)"
  shows "run_closing L e b0 child (case r of None \<Rightarrow> d | Some err \<Rightarrow> salvage_record L e err d)"
proof (rule recorded_closing [OF _ _ _ _ _ _ w])
  show "follows L b0 (log_status L e AtEnd True c) (b\<lparr>ob_status := status (sp_meta c), ob_failed := False\<rparr>)"
    using b st by (intro follows_log [OF f(1,2)]) simp
  show "end_cause e (log_status L e AtEnd True c) how"
    by (rule end_cause_mono [OF st(2)]) (auto simp: sup_simps)
qed (use f b st in \<open>simp_all add: sup_simps\<close>)

text \<open>Closing the recording and the attach side.\<close>

definition closed_down :: "sup_env \<Rightarrow> (run_core \<Rightarrow> run_core) \<Rightarrow> run_core \<Rightarrow> run_core" where
  "closed_down e f c = clean_up_control_files e (f (finish_recording e c))"

lemma follows_closed_down:
  assumes "follows L b0 c b" "sp_lock c" "\<not> is_terminal (ob_status b)"
    and f: "\<And>d. quiet d (f d)"
  shows "follows L b0 (closed_down e f c) b"
proof -
  have "follows L b0 (f (finish_recording e c)) b"
    by (rule follows_quiet [OF follows_finish_recording [OF assms(1-3)] f])
  then show ?thesis
    unfolding closed_down_def
    by (rule follows_clean_up) (use f [of "finish_recording e c"] assms in \<open>simp_all add: quiet_def sup_simps\<close>)
qed

lemma closed_down_trace:
  assumes "\<And>d. quiet d (f d)"
  shows "set (sp_trace c) \<subseteq> set (sp_trace (closed_down e f c))"
  using closed_trace(2) [of c e] closed_trace(3) [of "f (finish_recording e c)" e] assms [of "finish_recording e c"]
  by (auto simp: closed_down_def quiet_def)

lemma finish_follows:
  assumes alive: "run_alive b child c" and f: "follows L b0 c b" and run: "status (sp_meta c) = Running child"
    and over: "ob_over b" "ChildReaped code \<in> set (sp_trace c)" and "\<not> sp_ready c"
  shows "run_settled L e b0 child (snd (finish_run L e (exit_of_code code) c))"
proof -
  define how where "how = classify e c (exit_of_code code)"
  let ?c0 = "c\<lparr>sp_ended := True, sp_cancel := True\<rparr>"
  define c1 where "c1 = finish_recording e ?c0"
  define c2 where "c2 = (clean_up_control_files e c1)\<lparr>sp_child_pid := False\<rparr>"
  define c3 where "c3 = warn_all (collect_warnings e c2) c2"
  define c4 where "c4 = end_transition (ascii ''terminal transition refused: '')
    (transition_exited how (su_now e) (sp_meta c3)) c3"
  have how1: "classify e c1 (exit_of_code code) = how"
    unfolding how_def by (rule classify_timer) (simp add: c1_def sup_simps)
  have cd: "clean_up_control_files e c1 = closed_down e (\<lambda>d. d) ?c0" by (simp add: c1_def closed_down_def)
  have q: "\<And>d. quiet d d" by (simp add: quiet_def)
  have f0: "follows L b0 ?c0 b" by (rule follows_quiet [OF f]) (simp add: quiet_def)
  have nt: "\<not> is_terminal (ob_status b)" using alive run by (simp add: run_alive_def)
  have f2: "follows L b0 c2 b"
    by (rule follows_quiet [OF follows_closed_down [OF f0 _ nt q, of e, folded cd]])
       (use alive in \<open>simp_all add: c2_def quiet_def run_alive_def\<close>)
  then have f3: "follows L b0 c3 b" by (rule follows_quiet) (simp add: c3_def quiet_def sup_simps)
  have st3: "status (sp_meta c3) = Running child"
    using run by (simp add: c3_def c2_def c1_def sup_simps)
  have tr: "transition_exited how (su_now e) (sp_meta c3) =
      (Inr (), set_transition_provenance (Direct [SidecarWrite, ChildExitObserved])
        (set_status (Exited child how (su_now e)) (sp_meta c3)))"
    using exit_of_code_sound [of e c code] by (simp add: transition_exited_def st3 how_def)
  have c4: "c4 = c3\<lparr>sp_meta := set_transition_provenance (Direct [SidecarWrite, ChildExitObserved])
      (set_status (Exited child how (su_now e)) (sp_meta c3))\<rparr>"
    by (simp add: c4_def tr end_transition_def)
  have f4: "follows L b0 c4 b" by (rule follows_quiet [OF f3]) (simp add: c4 quiet_def)
  have fields: "sp_lock c4" "sp_ended c4" "sp_pty c4 = NoPty" "sp_identity c4 = child" "sp_timer c4 = sp_timer c"
    "sp_ready c4 = sp_ready c"
    "status (sp_meta c4) = Exited child how (su_now e)"
    using alive by (simp_all add: c4 c3_def c2_def c1_def sup_simps run_alive_def set_transition_provenance_def set_status_def)
  have "set (sp_trace c) \<subseteq> set (sp_trace c4)"
    using closed_down_trace [OF q, of ?c0 e, folded cd] by (simp add: c4 c3_def c2_def sup_simps)
  then have cause: "end_cause e c4 how"
    using over(2) unfolding end_cause_def how_def
    by (intro disjI2 exI [of _ code]) (auto simp: classify_timer [OF fields(5)])
  obtain r d where w: "write_meta e AtEnd (log_status L e AtEnd True c4) = (r, d)" by fastforce
  have closing: "run_closing L e b0 child (case r of None \<Rightarrow> d | Some err \<Rightarrow> salvage_record L e err d)"
    using alive by (intro logged_closing [OF f4 fields(1-4) over(1) nt _ fields(7) cause w]) (simp add: run_alive_def)
  have "\<not> sp_ready (case r of None \<Rightarrow> d | Some err \<Rightarrow> salvage_record L e err d)"
    using write_meta_fields(4) [OF w] fields(6) assms(6)
    by (auto simp: salvage_record_def sup_simps split: option.split)
  from closing_settled [OF closing this]
  have "run_settled L e b0 child (unlock_run L e (case r of None \<Rightarrow> d | Some err \<Rightarrow> salvage_record L e err d))" .
  moreover have "snd (finish_run L e (exit_of_code code) c) =
      unlock_run L e (case r of None \<Rightarrow> d | Some err \<Rightarrow> salvage_record L e err d)"
    unfolding finish_run_def Let_def c1_def [symmetric] how1 c2_def [symmetric] c3_def [symmetric]
      c4_def [symmetric] w
    by (simp split: option.split)
  ultimately show ?thesis by simp
qed

lemma end_failed_follows:
  assumes alive: "run_alive b child c" and f: "follows L b0 c b"
  shows "run_settled L e b0 child (end_failed L e step err c)"
proof -
  define st where "st = terminate_and_reap e (sp_identity c)"
  let ?w = "warn (ascii ''sidecar failed at '' @ sidecar_step_as_str step @ ascii '': '' @ err)"
  define c1 where "c1 = traced (ChildStopped (sd_gone st))
    (c\<lparr>sp_ended := True, sp_step := step, sp_cancel := True\<rparr>)"
  define c2 where "c2 = ?w (finish_recording e c1)"
  define c3 where "c3 = clean_up_control_files e (warn_all (sd_notes st) c2)"
  define c4 where "c4 = warn_all (collect_warnings e c3) c3"
  define c5 where "c5 = end_transition (ascii ''SidecarFailed transition refused: '')
    (transition_sidecar_failed (sp_identity c) step (su_now e) (sp_meta c4)) c4"
  let ?b = "b\<lparr>ob_over := True\<rparr>" and ?how = "SidecarFailed step"
  have nt: "\<not> is_terminal (ob_status ?b)" using alive by (auto simp: run_alive_def)
  have f1: "follows L b0 c1 ?b"
    unfolding c1_def using alive f nt
    by (intro follows_traced [where c = c and b = b]) (auto simp: follows_def run_alive_def)
  have cd: "c3 = closed_down e (\<lambda>d. warn_all (sd_notes st) (?w d)) c1"
    by (simp add: c3_def c2_def closed_down_def)
  have q: "\<And>d. quiet d (warn_all (sd_notes st) (?w d))" by (simp add: quiet_def sup_simps)
  have f3: "follows L b0 c3 ?b"
    unfolding cd by (rule follows_closed_down [OF f1 _ nt q]) (use alive in \<open>simp add: c1_def sup_simps run_alive_def\<close>)
  then have f4: "follows L b0 c4 ?b" by (rule follows_quiet) (simp add: c4_def quiet_def sup_simps)
  have st4: "status (sp_meta c4) \<in> {Starting, Running child}"
    using alive by (simp add: c4_def c3_def c2_def c1_def sup_simps run_alive_def)
  have id: "sp_identity c = child" using alive by (simp add: run_alive_def)
  have tr: "transition_sidecar_failed (sp_identity c) step (su_now e) (sp_meta c4) =
      (Inr (), set_transition_provenance (Direct [SidecarWrite, SupervisionFailed])
        (set_status (Exited child ?how (su_now e)) (sp_meta c4)))"
    using st4 id by (auto simp: transition_sidecar_failed_def)
  have c5: "c5 = c4\<lparr>sp_meta := set_transition_provenance (Direct [SidecarWrite, SupervisionFailed])
      (set_status (Exited child ?how (su_now e)) (sp_meta c4))\<rparr>"
    by (simp add: c5_def tr end_transition_def)
  have f5: "follows L b0 c5 ?b" by (rule follows_quiet [OF f4]) (simp add: c5 quiet_def)
  have fields: "sp_lock c5" "sp_ended c5" "sp_pty c5 = NoPty" "sp_identity c5 = child"
    "status (sp_meta c5) = Exited child ?how (su_now e)"
    using alive by (simp_all add: c5 c4_def c3_def c2_def c1_def sup_simps run_alive_def set_transition_provenance_def set_status_def)
  have "ChildStopped (sd_gone st) \<in> set (sp_trace c1)" by (simp add: c1_def sup_simps)
  then have "ChildStopped (sd_gone st) \<in> set (sp_trace c5)"
    using closed_down_trace [OF q, of c1 e, folded cd] by (auto simp: c5 c4_def sup_simps)
  then have cause: "end_cause e c5 ?how"
    unfolding end_cause_def using fields(4) id by (simp add: st_def)
  obtain r d where w: "write_meta e AtEnd (log_status L e AtEnd True c5) = (r, d)" by fastforce
  have closing: "run_closing L e b0 child (case r of None \<Rightarrow> d | Some err \<Rightarrow> salvage_record L e err d)"
    using alive by (intro logged_closing [OF f5 fields(1-4) _ nt _ fields(5) cause w]) (simp_all add: run_alive_def)
  have ne: "\<not> sp_ended c" using alive by (simp add: run_alive_def)
  note unfolded = end_failed_def Let_def st_def [symmetric] c1_def [symmetric] c2_def [symmetric]
    c3_def [symmetric] c4_def [symmetric] c5_def [symmetric] w
  show ?thesis
  proof (cases r)
    case None
    let ?d = "if sd_gone st then d\<lparr>sp_child_pid := False\<rparr> else d"
    note wr = write_meta_result [OF w]
    have "run_closing L e b0 child ?d" using closing closing_child_pid None by simp
    moreover have "sp_disk ?d = Some (sp_meta ?d)" using wr(3) None by simp
    moreover have "su_write e AtEnd = None" using wr(2) None by simp
    ultimately have "run_closing L e b0 child (signal_readiness L e AtLateReadiness ?d)"
      by (rule closing_snapshot)
    from closing_settled [OF this signal_readiness_fields(4)] None ne show ?thesis
      unfolding unfolded by simp
  next
    case (Some rerr)
    let ?d = "salvage_record L e rerr d"
    have "run_closing L e b0 child ?d" using closing Some by simp
    moreover have "su_write e AtEnd \<noteq> None" using write_meta_result(2) [OF w] Some by (metis option.distinct(1))
    ultimately show ?thesis using Some ne closing_error [of L e b0 child ?d]
      unfolding unfolded by (auto intro!: closing_settled simp: sup_simps)
  qed
qed


subsection \<open>The steps of a run\<close>

text \<open>What holds before each step, and what the run has published by then.\<close>

definition unstarted :: "run_core \<Rightarrow> observer \<Rightarrow> bool" where
  "unstarted c b \<longleftrightarrow> status (sp_meta c) = Starting \<and> ob_attach b = (sp_pty c = BoundPty) \<and>
     ob_stdin b = (stdin_mode (launch_spec (sp_meta c)) = StdinPipe) \<and> (sp_pty c = BoundPty \<or> sp_pty c = NoPty)"

fun stage_ok :: "process_identity \<Rightarrow> run_core \<Rightarrow> observer \<Rightarrow> stage \<Rightarrow> bool" where
  "stage_ok child c b ToBreadcrumb = unstarted c b"
| "stage_ok child c b ToAttach = unstarted c b"
| "stage_ok child c b ToStdin = (status (sp_meta c) = Starting \<and> \<not> ob_attach b \<and>
     ob_stdin b = (stdin_mode (launch_spec (sp_meta c)) = StdinPipe))"
| "stage_ok child c b ToRunning = (status (sp_meta c) = Starting \<and> \<not> ob_attach b \<and> \<not> ob_stdin b)"
| "stage_ok child c b ToReadiness = (status (sp_meta c) = Running child \<and> sp_disk c = Some (sp_meta c))"
| "stage_ok child c b ToOutput = (status (sp_meta c) = Running child \<and> \<not> sp_ready c)"
| "stage_ok child c b ToWait = (status (sp_meta c) = Running child \<and> \<not> sp_ready c)"
| "stage_ok child c b (ToFinish how) = (status (sp_meta c) = Running child \<and> \<not> sp_ready c \<and> ob_over b \<and>
     (\<exists>code. ChildReaped code \<in> set (sp_trace c) \<and> how = exit_of_code code))"
| "stage_ok child c b Over = False"

definition sup_inv :: "libs \<Rightarrow> sup_env \<Rightarrow> observer \<Rightarrow> process_identity \<Rightarrow> sup_run \<Rightarrow> bool" where
  "sup_inv L e b0 child r \<longleftrightarrow>
     (if sp_ended (sr_core r) then run_settled L e b0 child (sr_core r)
      else \<exists>b. follows L b0 (sr_core r) b \<and> run_alive b child (sr_core r) \<and> stage_ok child (sr_core r) b (sr_stage r))"

lemma sup_invI:
  "follows L b0 c b \<Longrightarrow> run_alive b child c \<Longrightarrow> stage_ok child c b s \<Longrightarrow>
   sup_inv L e b0 child \<lparr>sr_core = c, sr_stage = s\<rparr>"
  by (auto simp: sup_inv_def run_alive_def)

lemma sup_inv_settled: "run_settled L e b0 child c \<Longrightarrow> sup_inv L e b0 child \<lparr>sr_core = c, sr_stage = s\<rparr>"
  by (simp add: sup_inv_def run_settled_def)

lemma sup_inv_failed:
  "follows L b0 c b \<Longrightarrow> run_alive b child c \<Longrightarrow>
   sup_inv L e b0 child \<lparr>sr_core = end_failed L e step err c, sr_stage = s\<rparr>"
  by (rule sup_inv_settled) (rule end_failed_follows)

lemma breadcrumb_step:
  assumes "follows L b0 c b" "run_alive b child c" "stage_ok child c b ToBreadcrumb"
  shows "sup_inv L e b0 child (next_stage L e ToBreadcrumb c)"
proof -
  have "quiet c (write_breadcrumb e c)"
    by (simp add: write_breadcrumb_def Let_def quiet_def sup_simps split: option.split)
  from follows_quiet [OF assms(1) this] have "follows L b0 (write_breadcrumb e c) b" .
  moreover have "run_alive b child (write_breadcrumb e c)" "stage_ok child (write_breadcrumb e c) b ToAttach"
    using assms by (simp_all add: write_breadcrumb_def Let_def run_alive_def unstarted_def sup_simps split: option.split)
  ultimately show ?thesis by (simp only: next_stage.simps) (rule sup_invI)
qed

lemma attach_step:
  assumes f: "follows L b0 c b" and alive: "run_alive b child c" and st: "stage_ok child c b ToAttach"
  shows "sup_inv L e b0 child (next_stage L e ToAttach c)"
proof (cases "sp_pty c")
  case NoPty
  then show ?thesis using assms by (simp add: start_attach_def) (rule sup_invI, auto simp: unstarted_def)
next
  case BoundPty
  let ?c = "c\<lparr>sp_step := AttachBind\<rparr>"
  let ?rec = "Some (ascii ''recording/'' @ lib_id L (run_uuid (run_id (sp_meta c))))"
  have f0: "follows L b0 ?c b" by (rule follows_quiet [OF f]) (simp add: quiet_def)
  have "follows L b0 (traced AttachStarted (?c\<lparr>sp_pty := StartedPty ?rec\<rparr>)) (b\<lparr>ob_attach := False\<rparr>)"
    using f0 alive st by (intro follows_traced [where c = ?c and b = b]) (auto simp: follows_def run_alive_def unstarted_def)
  then have "sup_inv L e b0 child \<lparr>sr_core = traced AttachStarted (?c\<lparr>sp_pty := StartedPty ?rec\<rparr>), sr_stage = ToStdin\<rparr>"
    by (rule sup_invI) (use alive st in \<open>simp_all add: run_alive_def unstarted_def sup_simps\<close>)
  moreover have "follows L b0 (traced AttachEnded (?c\<lparr>sp_pty := NoPty\<rparr>)) b"
    using f0 alive st by (intro follows_traced [where c = ?c and b = b]) (auto simp: follows_def run_alive_def unstarted_def)
  then have "sup_inv L e b0 child
      \<lparr>sr_core = end_failed L e AttachBind err (traced AttachEnded (?c\<lparr>sp_pty := NoPty\<rparr>)), sr_stage = ToStdin\<rparr>" for err
    by (rule sup_inv_failed) (use alive in \<open>simp add: run_alive_def sup_simps\<close>)
  ultimately show ?thesis using BoundPty by (simp add: start_attach_def fail_def Let_def)
next
  case (StartedPty rec)
  then show ?thesis using st by (simp add: unstarted_def)
qed

lemma stdin_step:
  assumes f: "follows L b0 c b" and alive: "run_alive b child c" and st: "stage_ok child c b ToStdin"
  shows "sup_inv L e b0 child (next_stage L e ToStdin c)"
proof (cases "stdin_mode (launch_spec (sp_meta c)) = StdinPipe")
  case False
  then show ?thesis using assms by (simp add: open_stdin_def) (rule sup_invI, auto)
next
  case True
  let ?c = "c\<lparr>sp_step := StdinTransport\<rparr>"
  have f0: "follows L b0 ?c b" by (rule follows_quiet [OF f]) (simp add: quiet_def)
  have a0: "run_alive b child ?c" using alive by (simp add: run_alive_def)
  have "follows L b0 (traced StdinOpened ?c) (b\<lparr>ob_stdin := False\<rparr>)"
    using f0 alive st by (intro follows_traced [where c = ?c and b = b]) (auto simp: follows_def run_alive_def)
  then have "sup_inv L e b0 child \<lparr>sr_core = traced StdinOpened ?c, sr_stage = ToRunning\<rparr>"
    by (rule sup_invI) (use alive st in \<open>simp_all add: run_alive_def sup_simps\<close>)
  with sup_inv_failed [OF f0 a0] True show ?thesis
    by (auto simp: open_stdin_def fail_def Let_def split: option.split)
qed

lemma running_step:
  assumes f: "follows L b0 c b" and alive: "run_alive b child c" and st: "stage_ok child c b ToRunning"
  shows "sup_inv L e b0 child (next_stage L e ToRunning c)"
proof -
  let ?c = "c\<lparr>sp_step := RunningMeta\<rparr>"
  define m where "m = set_transition_provenance (Direct [SidecarWrite, ChildSpawned])
    (set_status (Running child) (sp_meta c))"
  have tr: "transition_running (sp_identity c) (sp_meta ?c) = (Inr (), m)"
    using st alive by (simp add: transition_running_def m_def run_alive_def)
  let ?m = "if sp_pty c = NoPty then m else set_pty new_pty_meta m"
  have sm: "status ?m = Running child"
    by (simp add: m_def set_transition_provenance_def set_status_def set_pty_def)
  define d where "d = log_status L e AtPublish False (?c\<lparr>sp_meta := ?m\<rparr>)"
  have "follows L b0 (?c\<lparr>sp_meta := ?m\<rparr>) b" by (rule follows_quiet [OF f]) (simp add: quiet_def)
  from follows_log [OF this, of e AtPublish False]
  have fd: "follows L b0 d (b\<lparr>ob_status := Running child, ob_failed := False\<rparr>)"
    unfolding d_def using alive st sm by (simp add: run_alive_def)
  obtain r c2 where w: "write_meta e AtPublish d = (r, c2)" by fastforce
  let ?b = "after_write r (sp_meta c2) (b\<lparr>ob_status := Running child, ob_failed := False\<rparr>)"
  have dl: "sp_lock d" "status (sp_meta d) = Running child" "\<not> sp_ended d" "sp_identity d = child"
    using alive sm by (simp_all add: d_def sup_simps run_alive_def)
  have f2: "follows L b0 c2 ?b" by (rule follows_write [OF fd _ _ _ w]) (simp_all add: dl)
  note g = write_meta_fields [OF w] and h = write_meta_result [OF w]
  have a2: "run_alive ?b child c2"
    using alive dl g(1,2,5,6) by (simp add: run_alive_def after_write_def)
  have pub: "next_stage L e ToRunning c = \<lparr>sr_core = (case r of None \<Rightarrow> c2
      | Some err \<Rightarrow> end_failed L e RunningMeta err c2), sr_stage = ToReadiness\<rparr>"
    using w tr by (simp add: record_running_def fail_def Let_def d_def split: option.split)
  show ?thesis
  proof (cases r)
    case None
    then have "stage_ok child c2 ?b ToReadiness" using h(3) g(2) dl by simp
    from sup_invI [OF f2 a2 this] show ?thesis unfolding pub using None by simp
  next
    case (Some err)
    then show ?thesis unfolding pub using sup_inv_failed [OF f2 a2] by simp
  qed
qed


lemma readiness_step:
  assumes f: "follows L b0 c b" and alive: "run_alive b child c" and st: "stage_ok child c b ToReadiness"
  shows "sup_inv L e b0 child (next_stage L e ToReadiness c)"
proof -
  let ?c = "c\<lparr>sp_step := Readiness\<rparr>"
  have f0: "follows L b0 ?c b" by (rule follows_quiet [OF f]) (simp add: quiet_def)
  define d where "d = signal_readiness L e AtReadiness ?c"
  have "\<exists>b'. follows L b0 d b' \<and> same_view b b'"
    unfolding d_def using alive st by (intro signal_readiness_follows [OF f0]) (simp_all add: run_alive_def)
  then obtain b' where b': "follows L b0 d b'" "same_view b b'" by blast
  note g = signal_readiness_fields [where L = L and e = e and s = AtReadiness and c = ?c, folded d_def]
  let ?d = "traced WatchersStarted (d\<lparr>sp_timer := (timeout_s (launch_spec (sp_meta d)) \<noteq> None)\<rparr>)"
  have l: "sp_lock d" "\<not> sp_ended d" "sp_identity d = child" "status (sp_meta d) = Running child" "\<not> sp_ready d"
    using alive st g by (simp_all add: run_alive_def)
  have "follows L b0 ?d b'"
    using b'(1) l by (intro follows_traced [where c = d and b = b']) (auto simp: follows_def)
  moreover have "run_alive b' child ?d"
    using alive st l b'(2) by (auto simp: run_alive_def same_view_def sup_simps)
  moreover have "stage_ok child ?d b' ToOutput" using l by (simp add: sup_simps)
  ultimately have "sup_inv L e b0 child \<lparr>sr_core = ?d, sr_stage = ToOutput\<rparr>" by (rule sup_invI)
  then show ?thesis by (simp add: publish_readiness_def Let_def d_def)
qed

lemma capture_step:
  assumes f: "follows L b0 c b" and alive: "run_alive b child c" and st: "stage_ok child c b ToOutput"
  shows "sup_inv L e b0 child (next_stage L e ToOutput c)"
proof -
  have keep: "sup_inv L e b0 child \<lparr>sr_core = capture_output e d, sr_stage = ToWait\<rparr>"
    if "follows L b0 d b'" "run_alive b' child d" "stage_ok child d b' ToWait" for d b'
    by (rule sup_invI [of L b0 _ b'])
      (use that in \<open>simp_all add: capture_output_def Let_def follows_def run_alive_def\<close>)
  show ?thesis
  proof (cases "su_log_open e")
    case None
    let ?c = "c\<lparr>sp_step := OutputLog\<rparr>"
    have "follows L b0 ?c b" by (rule follows_quiet [OF f]) (simp add: quiet_def)
    then have "sup_inv L e b0 child \<lparr>sr_core = capture_output e ?c, sr_stage = ToWait\<rparr>"
      by (rule keep) (use alive st in \<open>simp_all add: run_alive_def\<close>)
    then show ?thesis using None by (simp add: supervise_output_def Let_def)
  next
    case (Some err)
    let ?c = "warn (ascii ''output not captured: cannot open output.log ('' @ err @
      ascii ''); output was drained'') (c\<lparr>sp_step := OutputLog\<rparr>)"
    have fc: "follows L b0 ?c b" by (rule follows_quiet [OF f]) (simp add: quiet_def sup_simps)
    obtain r d where w: "write_meta e AtOutput ?c = (r, d)" by fastforce
    note g = write_meta_fields [OF w]
    have "follows L b0 d (after_write r (sp_meta d) b)"
      using alive st by (intro follows_write [OF fc _ _ _ w]) (auto simp: sup_simps run_alive_def)
    moreover have "run_alive (after_write r (sp_meta d) b) child d"
      "stage_ok child d (after_write r (sp_meta d) b) ToWait"
      using alive st g by (auto simp: run_alive_def after_write_def sup_simps)
    ultimately have "sup_inv L e b0 child \<lparr>sr_core = capture_output e d, sr_stage = ToWait\<rparr>" by (rule keep)
    then show ?thesis using Some w by (simp add: supervise_output_def Let_def)
  qed
qed

lemma wait_step:
  assumes f: "follows L b0 c b" and alive: "run_alive b child c" and st: "stage_ok child c b ToWait"
  shows "sup_inv L e b0 child (next_stage L e ToWait c)"
proof (cases "su_wait e")
  case (Inl err)
  let ?c = "c\<lparr>sp_step := ChildWait\<rparr>"
  have "follows L b0 ?c b" by (rule follows_quiet [OF f]) (simp add: quiet_def)
  moreover have "run_alive b child ?c" using alive by (simp add: run_alive_def)
  ultimately show ?thesis using Inl sup_inv_failed by (simp add: supervise_wait_def fail_def Let_def)
next
  case (Inr code)
  let ?c = "c\<lparr>sp_step := ChildWait\<rparr>" and ?b = "b\<lparr>ob_over := True\<rparr>"
  have "follows L b0 (traced (ChildReaped code) ?c) ?b"
    using f alive st by (intro follows_traced [where c = c and b = b]) (auto simp: follows_def run_alive_def)
  moreover have "run_alive ?b child (traced (ChildReaped code) ?c)"
    using alive st by (auto simp: run_alive_def sup_simps)
  moreover have "stage_ok child (traced (ChildReaped code) ?c) ?b (ToFinish (exit_of_code code))"
    using st by (simp add: sup_simps) blast
  ultimately have "sup_inv L e b0 child \<lparr>sr_core = traced (ChildReaped code) ?c, sr_stage = ToFinish (exit_of_code code)\<rparr>"
    by (rule sup_invI)
  then show ?thesis using Inr by (simp add: supervise_wait_def Let_def)
qed

lemma finish_step:
  assumes f: "follows L b0 c b" and alive: "run_alive b child c" and st: "stage_ok child c b (ToFinish how)"
  shows "sup_inv L e b0 child (next_stage L e (ToFinish how) c)"
  using finish_follows [OF alive f] st by (auto intro!: sup_inv_settled)

lemma stage_step:
  assumes "follows L b0 c b" "run_alive b child c" "stage_ok child c b s"
  shows "sup_inv L e b0 child (next_stage L e s c)"
proof (cases s)
  case ToBreadcrumb with assms show ?thesis using breadcrumb_step by blast
next
  case ToAttach with assms show ?thesis using attach_step by blast
next
  case ToStdin with assms show ?thesis using stdin_step by blast
next
  case ToRunning with assms show ?thesis using running_step by blast
next
  case ToReadiness with assms show ?thesis using readiness_step by blast
next
  case ToOutput with assms show ?thesis using capture_step by blast
next
  case ToWait with assms show ?thesis using wait_step by blast
next
  case (ToFinish how) with assms show ?thesis using finish_step by blast
next
  case Over with assms show ?thesis by simp
qed

lemma sup_step_inv: "sup_inv L e b0 child r \<Longrightarrow> sup_inv L e b0 child (sup_step L e x r)"
proof -
  assume inv: "sup_inv L e b0 child r"
  obtain c s where r: "r = \<lparr>sr_core = c, sr_stage = s\<rparr>" by (cases r) auto
  show ?thesis
  proof (cases "sp_ended c")
    case True
    then show ?thesis using inv by (cases x) (simp_all add: r drop_core_def sup_inv_def)
  next
    case False
    with inv r obtain b where b: "follows L b0 c b" "run_alive b child c" "stage_ok child c b s"
      by (auto simp: sup_inv_def)
    show ?thesis
    proof (cases x)
      case Advance
      then show ?thesis using stage_step [OF b] False by (simp add: r)
    next
      case (Abandon panicked)
      then show ?thesis using sup_inv_failed [OF b(1,2)] False
        by (simp add: r drop_core_def)
    qed
  qed
qed

interpretation supervisor: op_system "sup_step L e" "sup_inv L e b0 child" "\<lambda>_. True"
  by unfold_locales (rule sup_step_inv)


lemma sup_start_inv:
  assumes "status m = Starting"
  shows "sup_inv L e (observer_start (adopt child m lc f disk ready attach)) child
    (sup_start (adopt child m lc f disk ready attach))"
proof -
  let ?c = "adopt child m lc f disk ready attach"
  have "follows L (observer_start ?c) ?c (observer_start ?c)"
    by (simp add: follows_def observer_start_def adopt_def)
  moreover have "run_alive (observer_start ?c) child ?c" "stage_ok child ?c (observer_start ?c) ToBreadcrumb"
    using assms by (simp_all add: run_alive_def unstarted_def observer_start_def adopt_def)
  ultimately show ?thesis unfolding sup_start_def by (rule sup_invI)
qed

lemma sup_run_inv:
  assumes "status m = Starting" and "c = adopt child m lc f disk ready attach"
  shows "sup_inv L e (observer_start c) child (run_ops (sup_step L e) ops (sup_start c))"
  unfolding assms(2) by (rule supervisor.run_inv) (simp_all add: list_all_iff sup_start_inv assms(1))

subsection \<open>Properties\<close>

text \<open>The number of steps from a stage to the end.\<close>

fun stages_left :: "stage \<Rightarrow> nat" where
  "stages_left ToBreadcrumb = 8"
| "stages_left ToAttach = 7"
| "stages_left ToStdin = 6"
| "stages_left ToRunning = 5"
| "stages_left ToReadiness = 4"
| "stages_left ToOutput = 3"
| "stages_left ToWait = 2"
| "stages_left (ToFinish how) = 1"
| "stages_left Over = 0"

lemma next_stage_left: "stages_left s = Suc n \<Longrightarrow> stages_left (sr_stage (next_stage L e s c)) \<le> n"
  by (cases s) (auto split: prod.split option.split)

lemma run_ended:
  assumes "sup_inv L e b0 child r"
    and "stages_left (sr_stage r) \<le> count_list ops Advance \<or> (\<exists>p. Abandon p \<in> set ops)"
  shows "sp_ended (sr_core (run_ops (sup_step L e) ops r))"
  using assms
proof (induction ops arbitrary: r)
  case Nil
  then have "sr_stage r = Over" by (cases "sr_stage r") auto
  then show ?case using Nil.prems(1) by (auto simp: sup_inv_def split: if_splits)
next
  case (Cons x xs)
  have stays: "sp_ended (sr_core r) \<Longrightarrow> sp_ended (sr_core (run_ops (sup_step L e) ys r))" for ys r
    by (induction ys arbitrary: r) (simp_all, case_tac a, simp_all add: drop_core_def)
  have inv: "sup_inv L e b0 child (sup_step L e x r)" by (rule sup_step_inv [OF Cons.prems(1)])
  show ?case
  proof (cases "sp_ended (sr_core (sup_step L e x r))")
    case True
    then show ?thesis using stays by simp
  next
    case False
    then have live: "\<not> sp_ended (sr_core r)" using stays [of r "[x]"] by auto
    have x: "x = Advance"
    proof (rule ccontr)
      assume "x \<noteq> Advance"
      then obtain p where p: "x = Abandon p" by (cases x) auto
      obtain b where "follows L b0 (sr_core r) b" "run_alive b child (sr_core r)"
        using Cons.prems(1) live by (auto simp: sup_inv_def)
      from end_failed_follows [OF this(2,1)] have "sp_ended (sr_core (sup_step L e x r))"
        using live by (simp add: p drop_core_def run_settled_def)
      with False show False ..
    qed
    have "stages_left (sr_stage (sup_step L e x r)) \<le> count_list xs Advance \<or> (\<exists>p. Abandon p \<in> set xs)"
    proof (cases "stages_left (sr_stage r)")
      case 0
      then have "sr_stage r = Over" by (cases "sr_stage r") auto
      then show ?thesis using Cons.prems(1) live by (auto simp: sup_inv_def split: if_splits)
    next
      case (Suc n)
      then show ?thesis
        using next_stage_left [OF Suc, of L e "sr_core r"] Cons.prems(2) x live by auto
    qed
    from Cons.IH [OF inv this] show ?thesis by simp
  qed
qed

lemma sup_run_settled:
  assumes "status m = Starting" and "c = adopt child m lc f disk ready attach"
    and "8 \<le> count_list ops Advance \<or> (\<exists>p. Abandon p \<in> set ops)"
  shows "run_settled L e (observer_start c) child (sr_core (run_ops (sup_step L e) ops (sup_start c)))"
proof -
  note inv = sup_run_inv [OF assms(1,2), of L e ops]
  have "sp_ended (sr_core (run_ops (sup_step L e) ops (sup_start c)))"
    using sup_run_inv [OF assms(1,2), of L e "[]"] assms(3) by (intro run_ended) (simp_all add: sup_start_def)
  with inv show ?thesis by (simp add: sup_inv_def)
qed


text \<open>Every write of the record fails at the end; everything else succeeds.\<close>

definition demo_sup :: sup_env where
  "demo_sup = \<lparr>su_append = (\<lambda>_. demo_env), su_salvage = (\<lambda>_. \<lparr>sv_root = True, sv_minted = [],
       sv_now = EventTimestamp 0 0, sv_fresh = [], sv_dir = True, sv_open = True, sv_write = Written\<rparr>),
     su_write = (\<lambda>s. if s = AtEnd then Some [0x21] else None), su_owner = (\<lambda>_. AgentControl),
     su_stopped = (\<lambda>_. None), su_ready = (\<lambda>_. None), su_breadcrumb = None, su_pty_writer = True,
     su_stdin_pipe = True, su_transport = None, su_log_open = None, su_stdout = None, su_stderr = None,
     su_errors_kept = True, su_errors_read = True, su_stdin_errors = [], su_wait = Inr (Some 0),
     su_timed_out = False, su_kill_forced = False, su_kill_acted = False,
     su_summary = \<lparr>sm_recorded = None, sm_synced = None, sm_stopped = None, sm_segments = 0\<rparr>,
     su_thread = None, su_graceful = KillerOk, su_force_first = None, su_force_last = None,
     su_polls_first = ([], WaitReaped), su_polls_last = ([], WaitReaped), su_now = EpochTimestamp 9,
     su_hook = (\<lambda>_. HookOk), su_hook_append = (\<lambda>_. demo_env)\<rparr>"

definition demo_core :: run_core where
  "demo_core = adopt \<lparr>pid = 7, start_time_ns = 8\<rparr> demo_start demo_lifecycle
     \<lparr>lf_store = (Map.empty, []), lf_lost = []\<rparr> None True True"


text \<open>C5: At every point of every run, the effects of the guard so far are ones the observer accepts: a
  status is logged before it is recorded, Running only with its transports up and an end only once
  the child has ended; the client is sent one message, the snapshot on disk unless the end could
  not be recorded; unlocking comes after the record or its salvage and the client's answer, and
  hooks come last.\<close>

theorem supervised_run_protocol:
  assumes "status m = Starting" and "c = adopt child m lc f disk ready attach"
  shows "\<exists>b. observe_all L (sp_trace (sr_core (run_ops (sup_step L e) ops (sup_start c)))) (observer_start c) = Some b"
  using sup_run_inv [OF assms, of L e ops]
  by (auto simp: sup_inv_def run_settled_def follows_def split: if_splits)

theorem supervised_run_protocol_witness:
  "\<exists>b. observe_all demo_libs (sp_trace (sr_core (run_ops (sup_step demo_libs demo_sup) (replicate 8 Advance)
     (sup_start demo_core)))) (observer_start demo_core) = Some b"
  by (rule supervised_run_protocol [OF _ demo_core_def]) (simp add: demo_start_def new_starting_def)

lemma supervise_output_ended: "sp_ended (supervise_output e c) = sp_ended c"
  by (simp add: supervise_output_def capture_output_def write_meta_def Let_def sup_simps split: option.split)

lemma write_breadcrumb_ended: "sp_ended (write_breadcrumb e c) = sp_ended c"
  by (simp add: write_breadcrumb_def Let_def sup_simps split: option.split)

lemma supervise_wait_Some: "supervise_wait L e c = (Some how, d) \<Longrightarrow> sp_ended d = sp_ended c"
  by (auto simp: supervise_wait_def Let_def sup_simps split: sum.splits)

lemma advance_ended:
  "sp_ended c \<Longrightarrow> run_ops (sup_step L e) (replicate n Advance) \<lparr>sr_core = c, sr_stage = s\<rparr> =
   \<lparr>sr_core = c, sr_stage = s\<rparr>"
  by (induction n) simp_all

lemma advance_over:
  "run_ops (sup_step L e) (replicate n Advance) \<lparr>sr_core = c, sr_stage = Over\<rparr> =
   \<lparr>sr_core = c, sr_stage = Over\<rparr>"
  by (induction n) simp_all

lemma advance_next:
  "\<not> sp_ended c \<Longrightarrow> run_ops (sup_step L e) (replicate (Suc n) Advance) \<lparr>sr_core = c, sr_stage = s\<rparr> =
   run_ops (sup_step L e) (replicate n Advance) (next_stage L e s c)"
  by simp

text \<open>One step of publishing, or none when the run has ended.\<close>

lemma advance_unless:
  assumes "next_stage L e s = (\<lambda>c. \<lparr>sr_core = f c, sr_stage = s'\<rparr>)"
  shows "sr_core (run_ops (sup_step L e) (replicate (Suc n) Advance) \<lparr>sr_core = c, sr_stage = s\<rparr>) =
    sr_core (run_ops (sup_step L e) (replicate n Advance) \<lparr>sr_core = unless_ended f c, sr_stage = s'\<rparr>)"
  by (cases "sp_ended c") (simp_all add: advance_ended unless_ended_def assms)

lemma supervise_steps:
  assumes "\<not> sp_ended c"
  shows "sr_core (run_ops (sup_step L e) (replicate (Suc (Suc (Suc 0))) Advance) \<lparr>sr_core = c, sr_stage = ToOutput\<rparr>) =
    (case supervise L e c of (None, d) \<Rightarrow> d | (Some how, d) \<Rightarrow> snd (finish_run L e how d))"
proof -
  obtain r d where w: "supervise_wait L e (supervise_output e c) = (r, d)" by fastforce
  show ?thesis
  proof (cases r)
    case None
    then show ?thesis using w assms by (simp add: supervise_def supervise_output_ended)
  next
    case (Some how)
    then show ?thesis using w assms supervise_wait_Some [of L e "supervise_output e c" how d]
      by (simp add: supervise_def supervise_output_ended)
  qed
qed

text \<open>
  Taken to its end step by step, the guard computes what the sidecar's own sequence of calls does.
\<close>

lemma supervised_run_steps:
  assumes "\<not> sp_ended c"
  shows "sr_core (run_ops (sup_step L e) (replicate 8 Advance) (sup_start c)) = supervised_run L e c"
proof -
  have eight: "(8::nat) = Suc (Suc (Suc (Suc (Suc (Suc (Suc (Suc 0)))))))" by simp
  have pub: "sr_core (run_ops (sup_step L e) (replicate 8 Advance) (sup_start c)) =
      sr_core (run_ops (sup_step L e) (replicate (Suc (Suc (Suc 0))) Advance)
        \<lparr>sr_core = publish_running L e c, sr_stage = ToOutput\<rparr>)"
    unfolding sup_start_def eight publish_running_def
    by (subst advance_next [OF assms], subst next_stage.simps, subst advance_unless, rule ext, rule next_stage.simps,
        subst advance_unless, rule ext, rule next_stage.simps, subst advance_unless, rule ext, rule next_stage.simps,
        subst advance_unless, rule ext, rule next_stage.simps, rule refl)
  show ?thesis
  proof (cases "sp_ended (publish_running L e c)")
    case True
    then show ?thesis unfolding pub supervised_run_def advance_ended [OF True] by simp
  next
    case False
    then show ?thesis unfolding pub supervised_run_def supervise_steps [OF False]
      by (simp add: Let_def split: prod.split option.split)
  qed
qed

lemma supervised_run_settled:
  assumes "status m = Starting" and "c = adopt child m lc f disk ready attach"
  shows "run_settled L e (observer_start c) child (supervised_run L e c)"
proof -
  have "\<not> sp_ended c" using assms(2) by (simp add: adopt_def)
  moreover have "count_list (replicate n Advance) Advance = n" for n by (induction n) simp_all
  ultimately show ?thesis
    using supervised_run_steps [of c L e] sup_run_settled [OF assms, of "replicate 8 Advance" L e] by simp
qed

end
