(* ===== verification/Dependencies.thy ===== *)
theory Dependencies
  imports Lifecycle_Log
begin

text \<open>
  The dependency wait of the sidecar (\<open>src/src/sidecar.rs\<close>): before it spawns the command, the
  sidecar scans the sessions it was started \<open>--after\<close>, once and then in a poll loop, until all are
  satisfied or a failure, a timeout or a kill request ends the wait. What one scan finds on disk
  and on the clock is the argument \<open>scan_env\<close>; the wait takes one per scan.
\<close>

subsection \<open>What a scan sees\<close>

text \<open>The kill request file: absent, or its JSON (\<open>None\<close> when unreadable or malformed).\<close>

datatype kill_file = NoKillFile | KillFile "json option"

datatype dep_lookup = DepMissing | DepOpenFailed bytes | DepReadFailed bytes | DepMeta meta

record scan_env =
  sc_kill :: kill_file
  sc_now :: nat
  sc_lookup :: "session_name \<Rightarrow> dep_lookup"

fun as_bool :: "json \<Rightarrow> bool option" where
  "as_bool (JBool b) = Some b"
| "as_bool v = None"

subsection \<open>Scans\<close>

datatype scanned_dependency = PendingDep dependency_binding | LatchedDep

datatype scan_step = AllLatched | StillPending | ScanTerminal dep_fail_reason bytes

text \<open>A kill request for this run, with its force flag.\<close>

definition kill_requested :: "bytes \<Rightarrow> kill_file \<Rightarrow> bool option" where
  "kill_requested rid k =
     (case k of
        KillFile (Some req) \<Rightarrow>
          (if as_str (json_index req (ascii ''run_id'')) = Some rid
           then Some (case as_bool (json_index req (ascii ''force'')) of Some b \<Rightarrow> b | None \<Rightarrow> False)
           else None)
      | _ \<Rightarrow> None)"

text \<open>One dependency: a terminal outcome, or its slot after the scan.\<close>

definition scan_slot :: "(bytes \<Rightarrow> bytes) \<Rightarrow> (session_name \<Rightarrow> dep_lookup) \<Rightarrow> bool \<Rightarrow> dependency_binding
    \<Rightarrow> bytes + scanned_dependency" where
  "scan_slot show_id lookup any_exit b =
     (let name = session_str (dep_session b) in
      case lookup (dep_session b) of
        DepMissing \<Rightarrow> Inl (ascii ''dependency session not found: '' @ name)
      | DepOpenFailed e \<Rightarrow> Inl (ascii ''failed to open dependency '' @ name @ ascii '': '' @ e)
      | DepReadFailed e \<Rightarrow> Inl (ascii ''failed to read dependency '' @ name @ ascii '': '' @ e)
      | DepMeta m \<Rightarrow>
          if run_id m \<noteq> dep_run_id b then
            Inl (ascii ''dependency '' @ name @ ascii '' was replaced (bound run_id '' @
              show_id (run_uuid (dep_run_id b)) @ ascii '', found '' @ show_id (run_uuid (run_id m)) @ ascii '')'')
          else if is_terminal (status m) then
            if \<not> any_exit \<and> \<not> (case status m of Exited c how t \<Rightarrow> how = ExitedOk | _ \<Rightarrow> False)
            then Inl (ascii ''dependency '' @ name @ ascii '' exited with non-success state'')
            else Inr LatchedDep
          else Inr (PendingDep b))"

text \<open>The slots in order; an early return leaves the later ones untouched.\<close>

fun scan_slots :: "(bytes \<Rightarrow> bytes) \<Rightarrow> (session_name \<Rightarrow> dep_lookup) \<Rightarrow> bool \<Rightarrow> scanned_dependency list
    \<Rightarrow> (bytes + bool) \<times> scanned_dependency list" where
  "scan_slots show_id lookup any_exit [] = (Inr True, [])"
| "scan_slots show_id lookup any_exit (LatchedDep # ss) =
     (case scan_slots show_id lookup any_exit ss of (r, ss') \<Rightarrow> (r, LatchedDep # ss'))"
| "scan_slots show_id lookup any_exit (PendingDep b # ss) =
     (case scan_slot show_id lookup any_exit b of
        Inl msg \<Rightarrow> (Inl msg, PendingDep b # ss)
      | Inr s \<Rightarrow>
          (case scan_slots show_id lookup any_exit ss of
             (r, ss') \<Rightarrow> ((case r of Inl msg \<Rightarrow> Inl msg | Inr al \<Rightarrow> Inr (al \<and> s = LatchedDep)), s # ss')))"

text \<open>The last component says whether the kill request file was removed.\<close>

definition scan_iteration :: "(bytes \<Rightarrow> bytes) \<Rightarrow> bytes \<Rightarrow> nat option \<Rightarrow> bool \<Rightarrow> scan_env
    \<Rightarrow> scanned_dependency list \<Rightarrow> scan_step \<times> scanned_dependency list \<times> bool" where
  "scan_iteration show_id rid deadline any_exit e ss =
     (let removed = (sc_kill e \<noteq> NoKillFile) in
      case kill_requested rid (sc_kill e) of
        Some force \<Rightarrow>
          ((if force then ScanTerminal DepKilledForced (ascii ''force-killed during dependency wait'')
            else ScanTerminal DepKilled (ascii ''killed during dependency wait'')), ss, removed)
      | None \<Rightarrow>
          if (case deadline of Some dl \<Rightarrow> dl \<le> sc_now e | None \<Rightarrow> False) then
            (ScanTerminal DepTimedOut (ascii ''timeout expired during dependency wait''), ss, removed)
          else (case scan_slots show_id (sc_lookup e) any_exit ss of
                  (Inl msg, ss') \<Rightarrow> (ScanTerminal DepFailed msg, ss', removed)
                | (Inr True, ss') \<Rightarrow> (AllLatched, ss', removed)
                | (Inr False, ss') \<Rightarrow> (StillPending, ss', removed)))"

subsection \<open>The wait\<close>

datatype first_scan_outcome = ReadyToSpawn | WaitingFor "scanned_dependency list"
  | ScanEnded dep_fail_reason bytes

definition first_dependency_scan :: "(bytes \<Rightarrow> bytes) \<Rightarrow> bytes \<Rightarrow> nat option \<Rightarrow> launch_spec \<Rightarrow> scan_env
    \<Rightarrow> first_scan_outcome" where
  "first_dependency_scan show_id rid deadline spec e =
     (case scan_iteration show_id rid deadline (after_any_exit spec) e (map PendingDep (after spec)) of
        (AllLatched, ss, r) \<Rightarrow> ReadyToSpawn
      | (StillPending, ss, r) \<Rightarrow> WaitingFor ss
      | (ScanTerminal reason msg, ss, r) \<Rightarrow> ScanEnded reason msg)"

datatype dep_wait_outcome = WaitSatisfied | WaitFailed bytes | WaitTimedOut bytes | WaitKilled bytes
  | WaitKilledForced bytes

fun wait_outcome :: "dep_fail_reason \<Rightarrow> bytes \<Rightarrow> dep_wait_outcome" where
  "wait_outcome DepFailed msg = WaitFailed msg"
| "wait_outcome DepTimedOut msg = WaitTimedOut msg"
| "wait_outcome DepKilled msg = WaitKilled msg"
| "wait_outcome DepKilledForced msg = WaitKilledForced msg"

text \<open>The poll loop over what its successive scans see; \<open>None\<close> while it still waits.\<close>

fun poll_dependencies :: "(bytes \<Rightarrow> bytes) \<Rightarrow> bytes \<Rightarrow> nat option \<Rightarrow> bool \<Rightarrow> scan_env list
    \<Rightarrow> scanned_dependency list \<Rightarrow> dep_wait_outcome option" where
  "poll_dependencies show_id rid deadline any_exit [] ss = None"
| "poll_dependencies show_id rid deadline any_exit (e # es) ss =
     (case scan_iteration show_id rid deadline any_exit e ss of
        (AllLatched, ss', r) \<Rightarrow> Some WaitSatisfied
      | (StillPending, ss', r) \<Rightarrow> poll_dependencies show_id rid deadline any_exit es ss'
      | (ScanTerminal reason msg, ss', r) \<Rightarrow> Some (wait_outcome reason msg))"

text \<open>
  The action after readiness is published. The end of a wait is logged before its record is
  written: the last component is the record on disk, \<open>wrote\<close> whether writing it succeeds.
\<close>

datatype dep_action = SpawnNow | WaitMore "scanned_dependency list" | ReturnTerminal

datatype first_scan_error = ScanTransition transition_error | ScanWrite

definition apply_first_scan_outcome :: "(json \<Rightarrow> bytes option) \<Rightarrow> (bytes \<Rightarrow> bytes) \<Rightarrow> (event \<Rightarrow> bytes)
    \<Rightarrow> (boundary_context \<Rightarrow> json) \<Rightarrow> (append_error \<Rightarrow> bytes) \<Rightarrow> append_env \<Rightarrow> salvage_env \<Rightarrow> bool \<Rightarrow> epoch_timestamp
    \<Rightarrow> lifecycle_events \<Rightarrow> meta \<Rightarrow> log_files \<Rightarrow> meta option \<Rightarrow> first_scan_outcome
    \<Rightarrow> (first_scan_error + dep_action) \<times> lifecycle_events \<times> meta \<times> log_files \<times> meta option" where
  "apply_first_scan_outcome json_ser sha ser bj show_err a v wrote now lc m f disk outcome =
     (case outcome of
        ReadyToSpawn \<Rightarrow> (Inr SpawnNow, lc, m, f, disk)
      | WaitingFor ss \<Rightarrow> (Inr (WaitMore ss), lc, m, f, disk)
      | ScanEnded reason msg \<Rightarrow>
          (case transition_dependency_failed now reason (add_warning msg m) of
             (Inl e, m') \<Rightarrow> (Inl (ScanTransition e), lc, m', f, disk)
           | (Inr _, m') \<Rightarrow>
               (case emit json_ser sha ser bj show_err a v True lc m' f of
                  (lc', m2, f') \<Rightarrow>
                    if wrote then (Inr ReturnTerminal, lc', m2, f', Some m2)
                    else (Inl ScanWrite, lc', m2, f', disk))))"

text \<open>The first scan and the polls that follow it.\<close>

definition dependency_wait :: "(bytes \<Rightarrow> bytes) \<Rightarrow> bytes \<Rightarrow> nat option \<Rightarrow> launch_spec \<Rightarrow> scan_env \<Rightarrow> scan_env list
    \<Rightarrow> dep_wait_outcome option" where
  "dependency_wait show_id rid deadline spec e es =
     (case first_dependency_scan show_id rid deadline spec e of
        ReadyToSpawn \<Rightarrow> Some WaitSatisfied
      | ScanEnded reason msg \<Rightarrow> Some (wait_outcome reason msg)
      | WaitingFor ss \<Rightarrow> poll_dependencies show_id rid deadline (after_any_exit spec) es ss)"

subsection \<open>What the outcome means\<close>

definition dep_satisfied :: "bool \<Rightarrow> scan_env \<Rightarrow> dependency_binding \<Rightarrow> bool" where
  "dep_satisfied any_exit e b \<longleftrightarrow>
     (case sc_lookup e (dep_session b) of
        DepMeta m \<Rightarrow> run_id m = dep_run_id b \<and> is_terminal (status m) \<and>
          (any_exit \<or> (case status m of Exited c how t \<Rightarrow> how = ExitedOk | _ \<Rightarrow> False))
      | _ \<Rightarrow> False)"

definition dep_pending :: "scan_env \<Rightarrow> dependency_binding \<Rightarrow> bool" where
  "dep_pending e b \<longleftrightarrow>
     (case sc_lookup e (dep_session b) of
        DepMeta m \<Rightarrow> run_id m = dep_run_id b \<and> \<not> is_terminal (status m) | _ \<Rightarrow> False)"

definition timed_out :: "nat option \<Rightarrow> scan_env \<Rightarrow> bool" where
  "timed_out deadline e \<longleftrightarrow> (case deadline of Some dl \<Rightarrow> dl \<le> sc_now e | None \<Rightarrow> False)"

definition killed_by :: "bytes \<Rightarrow> bool \<Rightarrow> scan_env \<Rightarrow> bool" where
  "killed_by rid force e \<longleftrightarrow> kill_requested rid (sc_kill e) = Some force"

lemma scan_slot_result:
  "case scan_slot show_id (sc_lookup e) any_exit b of
     Inl msg \<Rightarrow> \<not> dep_satisfied any_exit e b \<and> \<not> dep_pending e b
   | Inr s \<Rightarrow> (s = LatchedDep \<and> dep_satisfied any_exit e b) \<or> (s = PendingDep b \<and> dep_pending e b)"
  by (auto simp: scan_slot_def dep_satisfied_def dep_pending_def Let_def split: dep_lookup.splits)

text \<open>Each slot stands for its binding: pending, or latched when a scan \<open>P\<close> found it satisfied.\<close>

definition slot_ok :: "(dependency_binding \<Rightarrow> bool) \<Rightarrow> dependency_binding \<Rightarrow> scanned_dependency \<Rightarrow> bool" where
  "slot_ok P b s \<longleftrightarrow> s = PendingDep b \<or> s = LatchedDep \<and> P b"

lemma slot_ok_mono: "slot_ok P b s \<Longrightarrow> (P b \<Longrightarrow> Q b) \<Longrightarrow> slot_ok Q b s"
  by (auto simp: slot_ok_def)

lemma scan_slots_result:
  "list_all2 (slot_ok P) bs ss \<Longrightarrow> scan_slots show_id (sc_lookup e) any_exit ss = (r, ss') \<Longrightarrow>
   case r of
     Inl msg \<Rightarrow> list_ex (\<lambda>b. \<not> dep_satisfied any_exit e b \<and> \<not> dep_pending e b) bs
   | Inr al \<Rightarrow> list_all2 (slot_ok (\<lambda>b. P b \<or> dep_satisfied any_exit e b)) bs ss' \<and>
       (if al then list_all (\<lambda>b. P b \<or> dep_satisfied any_exit e b) bs else list_ex (dep_pending e) bs)"
proof (induction bs ss arbitrary: r ss' rule: list_all2_induct)
  case Nil
  then show ?case by auto
next
  case (Cons b bs s ss)
  obtain r1 ss1 where rest: "scan_slots show_id (sc_lookup e) any_exit ss = (r1, ss1)"
    by (metis prod.exhaust)
  note IH = Cons.IH [OF rest]
  show ?case
  proof (cases s)
    case LatchedDep
    then have "P b" using Cons.hyps by (simp add: slot_ok_def)
    moreover have "r = r1" "ss' = LatchedDep # ss1" using Cons.prems rest LatchedDep by auto
    ultimately show ?thesis using IH by (auto simp: slot_ok_def split: sum.splits)
  next
    case (PendingDep b')
    then have b: "b' = b" using Cons.hyps by (simp add: slot_ok_def)
    show ?thesis
      using Cons.prems rest PendingDep b IH scan_slot_result [where show_id = show_id and e = e and any_exit = any_exit and b = b]
      by (cases "scan_slot show_id (sc_lookup e) any_exit b"; cases r1) (auto simp: slot_ok_def)
  qed
qed

lemma scan_iteration_result:
  assumes "list_all2 (slot_ok P) bs ss"
    and "scan_iteration show_id rid deadline any_exit e ss = (step, ss', removed)"
  shows "case step of
     AllLatched \<Rightarrow> list_all (\<lambda>b. P b \<or> dep_satisfied any_exit e b) bs
   | StillPending \<Rightarrow> list_all2 (slot_ok (\<lambda>b. P b \<or> dep_satisfied any_exit e b)) bs ss' \<and>
       list_ex (dep_pending e) bs \<and> \<not> timed_out deadline e \<and> (\<forall>f. \<not> killed_by rid f e)
   | ScanTerminal reason msg \<Rightarrow>
       (case reason of
          DepFailed \<Rightarrow> list_ex (\<lambda>b. \<not> dep_satisfied any_exit e b \<and> \<not> dep_pending e b) bs
        | DepTimedOut \<Rightarrow> timed_out deadline e
        | DepKilled \<Rightarrow> killed_by rid False e
        | DepKilledForced \<Rightarrow> killed_by rid True e)"
proof (cases "kill_requested rid (sc_kill e)")
  case (Some force)
  then show ?thesis using assms(2)
    by (cases force) (auto simp: scan_iteration_def killed_by_def)
next
  case None
  then have nk: "\<forall>f. \<not> killed_by rid f e" by (simp add: killed_by_def)
  obtain r ss1 where s: "scan_slots show_id (sc_lookup e) any_exit ss = (r, ss1)" by (metis prod.exhaust)
  show ?thesis
  proof (cases "timed_out deadline e")
    case True
    then show ?thesis using assms(2) None by (auto simp: scan_iteration_def timed_out_def)
  next
    case False
    then show ?thesis
      using assms(2) None s scan_slots_result [OF assms(1) s] nk
      by (cases r) (auto simp: scan_iteration_def timed_out_def split: if_splits bool.splits)
  qed
qed

text \<open>What an outcome promises, of the scans \<open>es\<close> the wait made.\<close>

fun wait_promise :: "bytes \<Rightarrow> nat option \<Rightarrow> bool \<Rightarrow> dependency_binding list \<Rightarrow> scan_env list
    \<Rightarrow> dep_wait_outcome option \<Rightarrow> bool" where
  "wait_promise rid deadline any_exit bs es (Some WaitSatisfied) =
     list_all (\<lambda>b. list_ex (\<lambda>e. dep_satisfied any_exit e b) es) bs"
| "wait_promise rid deadline any_exit bs es (Some (WaitFailed msg)) =
     list_ex (\<lambda>e. list_ex (\<lambda>b. \<not> dep_satisfied any_exit e b \<and> \<not> dep_pending e b) bs) es"
| "wait_promise rid deadline any_exit bs es (Some (WaitTimedOut msg)) = list_ex (timed_out deadline) es"
| "wait_promise rid deadline any_exit bs es (Some (WaitKilled msg)) = list_ex (killed_by rid False) es"
| "wait_promise rid deadline any_exit bs es (Some (WaitKilledForced msg)) = list_ex (killed_by rid True) es"
| "wait_promise rid deadline any_exit bs es None =
     list_all (\<lambda>e. list_ex (dep_pending e) bs \<and> \<not> timed_out deadline e \<and>
       \<not> killed_by rid True e \<and> \<not> killed_by rid False e) es"

lemma poll_promise:
  "list_all2 (slot_ok (\<lambda>b. list_ex (\<lambda>e. dep_satisfied any_exit e b) seen)) bs ss \<Longrightarrow>
   wait_promise rid deadline any_exit bs seen None \<Longrightarrow>
   wait_promise rid deadline any_exit bs (seen @ es) (poll_dependencies show_id rid deadline any_exit es ss)"
proof (induction es arbitrary: seen ss)
  case Nil
  then show ?case by simp
next
  case (Cons e es)
  obtain step ss' removed where s: "scan_iteration show_id rid deadline any_exit e ss = (step, ss', removed)"
    by (metis prod_cases3)
  note R = scan_iteration_result [OF Cons.prems(1) s]
  show ?case
  proof (cases step)
    case AllLatched
    then have "list_all (\<lambda>b. list_ex (\<lambda>e. dep_satisfied any_exit e b) (seen @ e # es)) bs"
      using R by (auto simp: list_all_iff)
    then show ?thesis using s AllLatched by simp
  next
    case StillPending
    then have "list_all2 (slot_ok (\<lambda>b. list_ex (\<lambda>e. dep_satisfied any_exit e b) (seen @ [e]))) bs ss'"
      and "wait_promise rid deadline any_exit bs (seen @ [e]) None"
      using R Cons.prems(2) by simp_all
    from Cons.IH [OF this] show ?thesis using s StillPending by simp
  next
    case (ScanTerminal reason msg)
    then show ?thesis using R s by (cases reason) simp_all
  qed
qed

lemma dependency_promise:
  "wait_promise rid deadline (after_any_exit spec) (after spec) (e # es)
     (dependency_wait show_id rid deadline spec e es)"
proof -
  let ?polls = "poll_dependencies show_id rid deadline (after_any_exit spec) (e # es) (map PendingDep (after spec))"
  have "list_all2 (slot_ok (\<lambda>b. False)) bs (map PendingDep bs)" for bs
    by (induction bs) (simp_all add: slot_ok_def)
  then have "wait_promise rid deadline (after_any_exit spec) (after spec) ([] @ e # es) ?polls"
    by (intro poll_promise) simp_all
  moreover have "?polls = dependency_wait show_id rid deadline spec e es"
    by (simp add: dependency_wait_def first_dependency_scan_def split: prod.split scan_step.split)
  ultimately show ?thesis by simp
qed

text \<open>C13: The command is spawned only if each \<open>--after\<close> session was seen to be the very run it was bound to,
  ended, and ended well unless any exit is accepted; the wait fails only if a scan found a
  dependency neither so nor still running, and stops for the clock or a kill request only when
  the deadline had passed or a request named this run; otherwise it goes on while one runs.\<close>

theorem dependency_wait_sound:
  "wait_promise rid deadline (after_any_exit spec) (after spec) (e # es)
     (dependency_wait show_id rid deadline spec e es)"
  by (rule dependency_promise)

end
