(* ===== verification/Sidecar_Run.thy ===== *)
theory Sidecar_Run
  imports Supervised_Laws Dependencies Ids_Text
begin

text \<open>
  The sidecar from its start to its exit (\<open>run\<close> and \<open>run_inner\<close> in \<open>src/src/sidecar.rs\<close>): reading its
  session and launch specification, the first log entry, the dependency wait, the spawn, and the
  supervised run; and its exit, with the error the client is sent.
\<close>

subsection \<open>The session directory's path\<close>





subsection \<open>What the sidecar meets\<close>



text \<open>The run before its child exists; \<open>is_answers\<close> is what the client was sent.\<close>

record inner_state =
  is_meta :: meta
  is_lifecycle :: lifecycle_events
  is_files :: log_files
  is_disk :: "meta option"
  is_ready :: bool
  is_answers :: "sup_event list"

definition inner_emit :: "libs \<Rightarrow> append_env \<Rightarrow> salvage_env \<Rightarrow> bool \<Rightarrow> inner_state \<Rightarrow> inner_state" where
  "inner_emit L a v durable s =
     (case emit (lib_json L) (lib_sha L) (lib_event L) (lib_boundary L) (lib_error L) a v durable
             (is_lifecycle s) (is_meta s) (is_files s) of
        (lc, m, f) \<Rightarrow> s\<lparr>is_lifecycle := lc, is_meta := m, is_files := f\<rparr>)"











subsection \<open>From start to exit\<close>












subsection \<open>What a sidecar leaves behind\<close>







lemma inner_emit_fields [simp]:
  "is_ready (inner_emit L a v d s) = is_ready s" "is_answers (inner_emit L a v d s) = is_answers s"
  "is_disk (inner_emit L a v d s) = is_disk s"
  "status (is_meta (inner_emit L a v d s)) = status (is_meta s)"
  "launch_spec (is_meta (inner_emit L a v d s)) = launch_spec (is_meta s)"
  "run_id (is_meta (inner_emit L a v d s)) = run_id (is_meta s)"
  by (auto simp: inner_emit_def dest: emit_fields split: prod.splits)




























subsection \<open>A concrete sidecar\<close>









end
