(* ===== verification/Child_Threads.thy ===== *)
theory Child_Threads
  imports Attach_Registry Sidecar_Run Attach_Socket Session_Commands
begin

text \<open>
  The threads a sidecar starts beside its run (\<open>src/src/sidecar.rs\<close>): the timeout, the kill watcher, the
  two stdin forwarders, the attach listener and the start of a PTY recording. What a thread sees at
  each turn is an argument; a thread that is still waiting when its script ends is \<open>None\<close>.
\<close>

subsection \<open>The timeout\<close>

text \<open>Each turn reads the cancel flag and the clock, and the flag once more after the deadline: whether it kills.\<close>

fun setup_timeout :: "nat \<Rightarrow> (bool \<times> nat) list \<Rightarrow> bool \<Rightarrow> bool option" where
  "setup_timeout deadline [] cancelled_last = None"
| "setup_timeout deadline ((cancelled, now) # turns) cancelled_last =
     (if cancelled then Some False
      else if deadline \<le> now then Some (\<not> cancelled_last)
      else setup_timeout deadline turns cancelled_last)"

subsection \<open>The kill watcher\<close>

text \<open>A turn: the cancel flag, and the request file, its text \<open>None\<close> when it cannot be read.\<close>

record kill_turn =
  kt_cancelled :: bool
  kt_request :: "bytes option option"

datatype kill_action = DropRequest | MarkActed | KillChild bool

definition kill_request_json :: "(bytes \<Rightarrow> bytes) \<Rightarrow> run_id \<Rightarrow> bool \<Rightarrow> json" where
  "kill_request_json show_id r force =
     JObject [(ascii ''force'', JBool force), (ascii ''run_id'', JString (show_id (run_uuid r)))]"

definition force_of :: "json \<Rightarrow> bool" where
  "force_of v = (case as_bool v of Some b \<Rightarrow> b | None \<Rightarrow> False)"

fun setup_kill_watcher :: "(bytes \<Rightarrow> bytes) \<Rightarrow> (bytes \<Rightarrow> json option) \<Rightarrow> run_id \<Rightarrow> kill_turn list \<Rightarrow> kill_action list option" where
  "setup_kill_watcher show_id parse r [] = None"
| "setup_kill_watcher show_id parse r (t # turns) =
     (if kt_cancelled t then Some []
      else case kt_request t of
        None \<Rightarrow> setup_kill_watcher show_id parse r turns
      | Some content \<Rightarrow>
          (case Option.bind content parse of
             None \<Rightarrow> map_option ((#) DropRequest) (setup_kill_watcher show_id parse r turns)
           | Some v \<Rightarrow>
               if as_str (json_index v (ascii ''run_id'')) \<noteq> Some (show_id (run_uuid r)) then
                 map_option ((#) DropRequest) (setup_kill_watcher show_id parse r turns)
               else
                 let force = force_of (json_index v (ascii ''force''))
                 in Some ([DropRequest] @ (if force then [] else [MarkActed]) @ [KillChild force])))"

subsection \<open>Forwarding stdin to a pipe\<close>

datatype pipe_read = PipeEof | PipeData bytes bool | PipeFailed bytes

text \<open>
  A connection is what its reads ans, with whether the child took each chunk; the transport is gone
  when no connection follows. The result: what the child took, and the errors noted.
\<close>

fun forward_reads :: "pipe_read list \<Rightarrow> (bytes list \<times> bytes list \<times> bool) option" where
  "forward_reads [] = None"
| "forward_reads (PipeEof # rs) = Some ([], [], True)"
| "forward_reads (PipeFailed e # rs) = Some ([], [ascii ''stdin read failed: '' @ e], False)"
| "forward_reads (PipeData bs ok # rs) =
     (if ok then map_option (\<lambda>(out, errs, goes_on). (bs # out, errs, goes_on)) (forward_reads rs)
      else Some ([], [ascii ''stdin forwarding: child stdin closed''], False))"

fun forward_stdin :: "pipe_read list list \<Rightarrow> (bytes list \<times> bytes list) option" where
  "forward_stdin [] = Some ([], [])"
| "forward_stdin (conn # conns) =
     (case forward_reads conn of
        None \<Rightarrow> None
      | Some (out, errs, goes_on) \<Rightarrow>
          if goes_on then map_option (\<lambda>(out', errs'). (out @ out', errs @ errs')) (forward_stdin conns)
          else Some (out, errs))"

subsection \<open>Forwarding stdin to a PTY\<close>

datatype 'h claim_answer = ClaimGranted 'h | AgentBusy | ClaimRefused bytes

datatype fifo_write = WriteAccepted | WriteNotAuthorized | WriteFailed

datatype fifo_read = FifoEof | FifoData bytes fifo_write | FifoInterrupted | FifoFailed bytes

datatype 'h fifo_action = FifoClaimed 'h | FifoWrote 'h bytes fifo_write | FifoEnded 'h | FifoDisconnected 'h | FifoWarned bytes

fun claim_for_fifo :: "'h claim_answer list \<Rightarrow> ('h option \<times> 'h fifo_action list) option" where
  "claim_for_fifo [] = None"
| "claim_for_fifo (ClaimGranted h # cs) = Some (Some h, [FifoClaimed h])"
| "claim_for_fifo (AgentBusy # cs) = claim_for_fifo cs"
| "claim_for_fifo (ClaimRefused e # cs) = Some (None, [FifoWarned (ascii ''push rejected: '' @ e)])"

definition give_up :: "'h option \<Rightarrow> 'h fifo_action list" where
  "give_up handle = (case handle of Some h \<Rightarrow> [FifoDisconnected h] | None \<Rightarrow> [])"

text \<open>One connection: what it does, and whether the thread goes on. The script's answer to a write is used only when there is one.\<close>

fun fifo_reads :: "'h option \<Rightarrow> bool \<Rightarrow> fifo_read list \<Rightarrow> ('h fifo_action list \<times> bool) option" where
  "fifo_reads handle authorized [] = None"
| "fifo_reads handle authorized (FifoEof # rs) = Some (case handle of Some h \<Rightarrow> [FifoEnded h] | None \<Rightarrow> [], True)"
| "fifo_reads handle authorized (FifoInterrupted # rs) = fifo_reads handle authorized rs"
| "fifo_reads handle authorized (FifoFailed e # rs) = Some (FifoWarned (ascii ''stdin read failed: '' @ e) # give_up handle, False)"
| "fifo_reads handle authorized (FifoData bs ans # rs) =
     (case (if authorized then handle else None) of
        None \<Rightarrow> fifo_reads handle authorized rs
      | Some h \<Rightarrow>
          (case ans of
             WriteAccepted \<Rightarrow> map_option (map_prod ((#) (FifoWrote h bs ans)) id) (fifo_reads handle authorized rs)
           | WriteNotAuthorized \<Rightarrow> map_option (map_prod ((#) (FifoWrote h bs ans)) id) (fifo_reads handle False rs)
           | WriteFailed \<Rightarrow>
               Some ([FifoWrote h bs ans, FifoWarned (ascii ''stdin forwarding: child stdin closed'')] @ give_up handle, False)))"

fun forward_pty_stdin :: "('h claim_answer list \<times> fifo_read list) list \<Rightarrow> 'h fifo_action list option" where
  "forward_pty_stdin [] = Some []"
| "forward_pty_stdin ((claims, reads) # conns) =
     (case claim_for_fifo claims of
        None \<Rightarrow> None
      | Some (handle, claimed) \<Rightarrow>
          (case fifo_reads handle (handle \<noteq> None) reads of
             None \<Rightarrow> None
           | Some (acts, goes_on) \<Rightarrow>
               if goes_on then map_option ((@) (claimed @ acts)) (forward_pty_stdin conns)
               else Some (claimed @ acts)))"

subsection \<open>The attach listener\<close>

definition max_attach_connections :: nat where "max_attach_connections = 8"

text \<open>
  A connection that comes in, with its peer as the kernel answers, or a handler that returns.
  Handlers run on their own; the counter is all they share with the listener.
\<close>

datatype listen_event = AcceptFailed | Accepted nat "bytes + u32" bool | HandlerReturned nat

record listener =
  ln_active :: nat
  ln_handlers :: "nat list"
  ln_actions :: "(nat \<times> conn_action list) list"

definition run_attach_listener :: "u32 \<Rightarrow> listen_event \<Rightarrow> listener \<Rightarrow> listener" where
  "run_attach_listener me ev s =
     (case ev of
        AcceptFailed \<Rightarrow> s
      | Accepted c peer ok \<Rightarrow>
          (case verify_peer peer me of
             Inl _ \<Rightarrow> s\<lparr>ln_actions := ln_actions s @ [(c, reject_connection RejectIdentity (ascii ''peer identity rejected'') ok)]\<rparr>
           | Inr _ \<Rightarrow>
               if max_attach_connections \<le> ln_active s then
                 s\<lparr>ln_actions := ln_actions s @ [(c, reject_connection RejectRuntime (ascii ''too many attach connections'') ok)]\<rparr>
               else s\<lparr>ln_active := Suc (ln_active s), ln_handlers := ln_handlers s @ [c]\<rparr>)
      | HandlerReturned c \<Rightarrow>
          if c \<in> set (ln_handlers s) then s\<lparr>ln_active := ln_active s - 1, ln_handlers := remove1 c (ln_handlers s)\<rparr> else s)"

subsection \<open>Starting a recording\<close>

definition initial_geometry :: geometry where
  "initial_geometry = Geometry 24 80"

definition recordable_term :: "bytes option \<Rightarrow> bytes option \<Rightarrow> term_name" where
  "recordable_term child_term own_term =
     (case (case child_term of Some t \<Rightarrow> Some t | None \<Rightarrow> own_term) of
        None \<Rightarrow> TermName []
      | Some t \<Rightarrow> (case new_term_name t of Inr n \<Rightarrow> n | Inl _ \<Rightarrow> TermName []))"

text \<open>The clock before the epoch reads as 0, beyond 64 bits as the maximum.\<close>

definition origin_unix_ns :: "int \<Rightarrow> u64" where
  "origin_unix_ns now_ns = (if now_ns < 0 then 0 else if 2 ^ 64 \<le> now_ns then - 1 else of_int now_ns)"

definition start_pty_recording :: "run_id \<Rightarrow> (bytes \<rightharpoonup> bytes) \<Rightarrow> bytes option \<Rightarrow> int \<Rightarrow> segment_header" where
  "start_pty_recording r child_env own_term now_ns =
     \<lparr>hdr_run_id = r, hdr_index = 0, hdr_first = first_sequence, hdr_origin = origin_unix_ns now_ns,
      hdr_geometry = initial_geometry, hdr_input = False, hdr_term = recordable_term (child_env (ascii ''TERM'')) own_term\<rparr>"

end
