(* ===== verification/Thread_Laws.thy ===== *)
theory Thread_Laws
  imports Child_Threads
begin

text \<open>What the sidecar's threads promise: whom they kill, what they forward, how many they serve.\<close>

subsection \<open>Killing on request\<close>

definition asks_for :: "(bytes \<Rightarrow> bytes) \<Rightarrow> (bytes \<Rightarrow> json option) \<Rightarrow> run_id \<Rightarrow> bool \<Rightarrow> kill_turn \<Rightarrow> bool" where
  "asks_for show_id parse r force t \<longleftrightarrow> \<not> kt_cancelled t \<and> (\<exists>txt v. kt_request t = Some (Some txt) \<and> parse txt = Some v \<and>
     as_str (json_index v (ascii ''run_id'')) = Some (show_id (run_uuid r)) \<and> force_of (json_index v (ascii ''force'')) = force)"

text \<open>A turn that neither cancels nor asks for this run to be killed.\<close>

definition passes :: "(bytes \<Rightarrow> bytes) \<Rightarrow> (bytes \<Rightarrow> json option) \<Rightarrow> run_id \<Rightarrow> kill_turn \<Rightarrow> bool" where
  "passes show_id parse r t \<longleftrightarrow> \<not> kt_cancelled t \<and> (\<forall>force. \<not> asks_for show_id parse r force t)"

lemma passes_iff: "passes show_id parse r t \<longleftrightarrow> \<not> kt_cancelled t \<and> (\<forall>content v. kt_request t = Some content \<longrightarrow>
    Option.bind content parse = Some v \<longrightarrow> as_str (json_index v (ascii ''run_id'')) \<noteq> Some (show_id (run_uuid r)))"
  by (auto simp: passes_def asks_for_def bind_eq_Some_conv)

lemma watcher_step:
  "kt_cancelled t \<Longrightarrow> setup_kill_watcher show_id parse r (t # turns) = Some []"
  "passes show_id parse r t \<Longrightarrow> setup_kill_watcher show_id parse r (t # turns) =
     map_option ((@) (case kt_request t of None \<Rightarrow> [] | Some _ \<Rightarrow> [DropRequest])) (setup_kill_watcher show_id parse r turns)"
  "asks_for show_id parse r force t \<Longrightarrow> setup_kill_watcher show_id parse r (t # turns) =
     Some ([DropRequest] @ (if force then [] else [MarkActed]) @ [KillChild force])"
proof -
  show "kt_cancelled t \<Longrightarrow> setup_kill_watcher show_id parse r (t # turns) = Some []" by simp
  show "setup_kill_watcher show_id parse r (t # turns) =
     map_option ((@) (case kt_request t of None \<Rightarrow> [] | Some _ \<Rightarrow> [DropRequest])) (setup_kill_watcher show_id parse r turns)"
    if "passes show_id parse r t"
  proof (cases "kt_request t")
    case None
    then show ?thesis using that
      by (cases "setup_kill_watcher show_id parse r turns") (simp_all add: passes_iff)
  next
    case (Some content)
    then show ?thesis using that
      by (cases "Option.bind content parse"; cases "setup_kill_watcher show_id parse r turns") (simp_all add: passes_iff)
  qed
  show "asks_for show_id parse r force t \<Longrightarrow> setup_kill_watcher show_id parse r (t # turns) =
     Some ([DropRequest] @ (if force then [] else [MarkActed]) @ [KillChild force])"
    by (auto simp: asks_for_def Let_def)
qed

lemma asks_or_passes: "kt_cancelled t \<or> passes show_id parse r t \<or> (\<exists>force. asks_for show_id parse r force t)"
  by (auto simp: passes_def)

lemma watcher_drops:
  assumes "\<forall>t\<in>set before. passes show_id parse r t"
  shows "setup_kill_watcher show_id parse r (before @ turns) =
    map_option ((@) (replicate (length (filter (\<lambda>t. kt_request t \<noteq> None) before)) DropRequest)) (setup_kill_watcher show_id parse r turns)"
  using assms
proof (induction before)
  case Nil
  show ?case by (simp add: option.map_ident [unfolded id_def])
next
  case (Cons t before)
  then show ?case by (cases "kt_request t") (simp_all add: watcher_step(2) option.map_comp comp_def del: setup_kill_watcher.simps)
qed

text \<open>C24: The request that the kill command writes is obeyed: the watcher of that run kills the child with the force
  asked for, once, after noting a kill without force, and removes the request and every other it met.
  A request for another run, or one that cannot be read, is removed and kills nothing.\<close>

theorem kill_request_obeyed:
  assumes "\<forall>t\<in>set before. passes show_id parse r t" "\<not> kt_cancelled t" "kt_request t = Some (Some txt)"
    and "parse txt = Some (kill_request_json show_id r' force)"
  shows "if show_id (run_uuid r) = show_id (run_uuid r') then
      setup_kill_watcher show_id parse r (before @ t # turns) =
        Some (replicate (length (filter (\<lambda>t. kt_request t \<noteq> None) before)) DropRequest @
          [DropRequest] @ (if force then [] else [MarkActed]) @ [KillChild force])
    else passes show_id parse r t"
proof -
  have keys: "json_index (kill_request_json show_id r' force) (ascii ''run_id'') = JString (show_id (run_uuid r'))"
    "force_of (json_index (kill_request_json show_id r' force) (ascii ''force'')) = force"
    by (simp_all add: json_index_def kill_request_json_def force_of_def ascii_def)
  show ?thesis
  proof (cases "show_id (run_uuid r) = show_id (run_uuid r')")
    case True
    then have "asks_for show_id parse r force t" using assms(2-4) keys by (simp add: asks_for_def)
    then show ?thesis using True by (simp add: watcher_drops [OF assms(1)] watcher_step(3) del: setup_kill_watcher.simps)
  next
    case False
    then show ?thesis using assms(2-4) keys by (auto simp: passes_def asks_for_def)
  qed
qed

theorem kill_request_obeyed_witness:
  "setup_kill_watcher id (\<lambda>_. Some (kill_request_json id (RunId [1]) False)) (RunId [1])
     [\<lparr>kt_cancelled = False, kt_request = Some None\<rparr>, \<lparr>kt_cancelled = False, kt_request = Some (Some [])\<rparr>] =
   Some [DropRequest, DropRequest, MarkActed, KillChild False]"
  using kill_request_obeyed [of "[\<lparr>kt_cancelled = False, kt_request = Some None\<rparr>]" id "\<lambda>_. Some (kill_request_json id (RunId [1]) False)"
      "RunId [1]" "\<lparr>kt_cancelled = False, kt_request = Some (Some [])\<rparr>" "[]" "RunId [1]" False "[]"]
  by (simp add: passes_def asks_for_def)

text \<open>The watcher kills only on such a request, and never after the run cancelled it.\<close>

lemma watcher_kills_asked:
  "setup_kill_watcher show_id parse r turns = Some acts \<Longrightarrow> KillChild force \<in> set acts \<Longrightarrow>
   \<exists>before t after. turns = before @ t # after \<and> asks_for show_id parse r force t \<and> (\<forall>t'\<in>set before. passes show_id parse r t')"
proof (induction turns arbitrary: acts)
  case (Cons t turns)
  consider "kt_cancelled t" | "passes show_id parse r t" | f where "asks_for show_id parse r f t"
    using asks_or_passes by blast
  then show ?case
  proof cases
    case 1
    then show ?thesis using Cons.prems by simp
  next
    case 2
    obtain acts' where "setup_kill_watcher show_id parse r turns = Some acts'" "KillChild force \<in> set acts'"
      using Cons.prems watcher_step(2) [OF 2, of turns]
      by (cases "setup_kill_watcher show_id parse r turns") (auto simp del: setup_kill_watcher.simps split: option.splits)
    then obtain before t' after where split: "turns = before @ t' # after" "asks_for show_id parse r force t'"
        "\<forall>t'\<in>set before. passes show_id parse r t'" using Cons.IH by blast
    have "t # turns = (t # before) @ t' # after" "\<forall>t'\<in>set (t # before). passes show_id parse r t'" using split 2 by simp_all
    then show ?thesis using split(2) by blast
  next
    case 3
    then have "f = force" using Cons.prems watcher_step(3) [OF 3, of turns] by (auto split: if_splits)
    then have "t # turns = [] @ t # turns" "asks_for show_id parse r force t" "\<forall>t'\<in>set []. passes show_id parse r t'" using 3 by simp_all
    then show ?thesis by blast
  qed
qed simp

lemma timeout_kills_late: "setup_timeout d turns last_flag = Some True \<Longrightarrow> \<not> last_flag \<and> (\<exists>t\<in>set turns. d \<le> snd t)"
  by (induction d turns last_flag rule: setup_timeout.induct) (auto split: if_splits)

subsection \<open>Forwarding\<close>

definition data_of :: "pipe_read list \<Rightarrow> bytes list" where
  "data_of rs = concat (map (\<lambda>r. case r of PipeData bs ok \<Rightarrow> [bs] | _ \<Rightarrow> []) rs)"

text \<open>Owned, and whether the holder's last write was refused.\<close>

fun fifo_ok :: "('h \<times> bool) option \<Rightarrow> 'h fifo_action list \<Rightarrow> bool" where
  "fifo_ok cur [] = (cur = None)"
| "fifo_ok cur (FifoClaimed h # acts) = (cur = None \<and> fifo_ok (Some (h, True)) acts)"
| "fifo_ok cur (FifoWrote h bs ans # acts) = (cur = Some (h, True) \<and> fifo_ok (Some (h, ans \<noteq> WriteNotAuthorized)) acts)"
| "fifo_ok cur (FifoEnded h # acts) = ((\<exists>a. cur = Some (h, a)) \<and> fifo_ok None acts)"
| "fifo_ok cur (FifoDisconnected h # acts) = ((\<exists>a. cur = Some (h, a)) \<and> fifo_ok None acts)"
| "fifo_ok cur (FifoWarned e # acts) = fifo_ok cur acts"

lemma claim_ok: "claim_for_fifo cs = Some (handle, acts) \<Longrightarrow> fifo_ok None (acts @ rest) \<longleftrightarrow> fifo_ok (map_option (\<lambda>h. (h, True)) handle) rest"
  by (induction cs rule: claim_for_fifo.induct) auto

lemma reads_ok:
  "fifo_reads handle authorized rs = Some (acts, go) \<Longrightarrow> (authorized \<longrightarrow> handle \<noteq> None) \<Longrightarrow>
   fifo_ok (map_option (\<lambda>h. (h, authorized)) handle) (acts @ rest) \<longleftrightarrow> fifo_ok None rest"
proof (induction handle authorized rs arbitrary: acts rule: fifo_reads.induct)
  case (5 handle authorized bs ans rs)
  show ?case
  proof (cases "if authorized then handle else None")
    case None
    then show ?thesis using 5 by simp
  next
    case (Some h)
    then have h: "authorized" "handle = Some h" by (auto split: if_splits)
    show ?thesis
    proof (cases ans)
      case WriteAccepted
      then show ?thesis using 5 h Some by (auto simp: map_prod_def split: option.splits prod.splits)
    next
      case WriteNotAuthorized
      then show ?thesis using 5 h Some by (auto simp: map_prod_def split: option.splits prod.splits)
    next
      case WriteFailed
      then show ?thesis using 5 h Some by (auto simp: give_up_def)
    qed
  qed
qed (auto simp: give_up_def split: option.splits)

text \<open>What is pushed into a PTY through the FIFO is written only by a connection that holds the claim it made,
  nothing is written after a refused write, and every claim is given up before the next, however the
  thread ends.\<close>

theorem fifo_writes_owned:
  assumes "forward_pty_stdin conns = Some acts"
  shows "fifo_ok None acts"
  using assms
proof (induction conns arbitrary: acts rule: forward_pty_stdin.induct)
  case (2 claims reads conns)
  obtain handle claimed where c: "claim_for_fifo claims = Some (handle, claimed)" using "2.prems" by (auto split: option.splits)
  obtain as go where r: "fifo_reads handle (handle \<noteq> None) reads = Some (as, go)" using "2.prems" c by (auto split: option.splits)
  have one: "fifo_ok None ((claimed @ as) @ rest) \<longleftrightarrow> fifo_ok None rest" for rest
  proof -
    have "map_option (\<lambda>h. (h, handle \<noteq> None)) handle = map_option (\<lambda>h. (h, True)) handle" by (cases handle) simp_all
    then show ?thesis using claim_ok [OF c, of "as @ rest"] reads_ok [OF r, of rest] by simp
  qed
  show ?case
  proof (cases go)
    case True
    then obtain acts' where "forward_pty_stdin conns = Some acts'" "acts = (claimed @ as) @ acts'"
      using "2.prems" c r by (auto split: option.splits)
    then show ?thesis using "2.IH" [OF c _ r] one True by simp
  next
    case False
    then have "acts = claimed @ as" using "2.prems" c r by simp
    then show ?thesis using one [of "[]"] by simp
  qed
qed simp

theorem fifo_writes_owned_witness:
  "fifo_ok None [FifoClaimed (7 :: nat), FifoWrote 7 [1] WriteAccepted, FifoWrote 7 [2] WriteNotAuthorized, FifoEnded 7]"
proof -
  have "forward_pty_stdin [([AgentBusy, ClaimGranted (7 :: nat)], [FifoData [1] WriteAccepted, FifoInterrupted,
      FifoData [2] WriteNotAuthorized, FifoData [3] WriteAccepted, FifoEof])] =
    Some [FifoClaimed 7, FifoWrote 7 [1] WriteAccepted, FifoWrote 7 [2] WriteNotAuthorized, FifoEnded 7]" by simp
  from fifo_writes_owned [OF this] show ?thesis .
qed

subsection \<open>Listening\<close>

definition listen_start :: listener where
  "listen_start = \<lparr>ln_active = 0, ln_handlers = [], ln_actions = []\<rparr>"

definition refused :: "conn_action list \<Rightarrow> bool" where
  "refused acts \<longleftrightarrow> (\<exists>class why ok. acts = reject_connection class why ok)"

lemma refused_reject [simp]: "refused (reject_connection class why ok)"
  by (auto simp: refused_def)

definition listener_inv :: "u32 \<Rightarrow> listen_event list \<Rightarrow> listener \<Rightarrow> bool" where
  "listener_inv me evs s \<longleftrightarrow> ln_active s = length (ln_handlers s) \<and> ln_active s \<le> max_attach_connections \<and>
     (\<forall>c\<in>set (ln_handlers s). \<exists>ok. Accepted c (Inr me) ok \<in> set evs) \<and>
     (\<forall>(c, acts)\<in>set (ln_actions s). refused acts)"

lemma listener_step_inv:
  assumes "listener_inv me evs s"
  shows "listener_inv me (evs @ [ev]) (run_attach_listener me ev s)"
proof -
  have grown: "listener_inv me (evs @ [ev]) s" using assms by (fastforce simp: listener_inv_def)
  show ?thesis
  proof (cases ev)
    case AcceptFailed
    then show ?thesis using grown by (simp add: run_attach_listener_def)
  next
    case (Accepted c peer ok)
    show ?thesis
    proof (cases "peer = Inr me \<and> ln_active s < max_attach_connections")
      case True
      then show ?thesis using grown Accepted
        by (auto simp: run_attach_listener_def verify_peer_def listener_inv_def)
    next
      case False
      then show ?thesis using grown Accepted
        by (auto simp: run_attach_listener_def verify_peer_def listener_inv_def not_less split: sum.splits)
    qed
  next
    case (HandlerReturned c)
    show ?thesis
    proof (cases "c \<in> set (ln_handlers s)")
      case True
      have "set (remove1 c (ln_handlers s)) \<subseteq> set (ln_handlers s)" by (rule set_remove1_subset)
      then show ?thesis using grown HandlerReturned True
        by (auto simp: run_attach_listener_def listener_inv_def length_remove1)
    next
      case False
      then show ?thesis using grown HandlerReturned by (simp add: run_attach_listener_def)
    qed
  qed
qed

text \<open>However connections come and handlers return, at most eight attach connections are served at once, the
  counter is their number, each belongs to a peer of the same user, and every other connection that
  was accepted is refused with a reason.\<close>

theorem attach_connections_bounded:
  "let s = fold (run_attach_listener me) evs listen_start
   in length (ln_handlers s) \<le> 8 \<and> ln_active s = length (ln_handlers s) \<and>
      (\<forall>c\<in>set (ln_handlers s). \<exists>ok. Accepted c (Inr me) ok \<in> set evs) \<and>
      (\<forall>(c, acts)\<in>set (ln_actions s). \<exists>class why ok. acts = reject_connection class why ok)"
proof -
  have "listener_inv me evs (fold (run_attach_listener me) evs listen_start)"
  proof (induction evs rule: rev_induct)
    case Nil
    then show ?case by (simp add: listener_inv_def listen_start_def)
  next
    case (snoc ev evs)
    then show ?case by (simp add: listener_step_inv)
  qed
  then show ?thesis by (simp add: listener_inv_def max_attach_connections_def refused_def Let_def)
qed

theorem attach_connections_bounded_witness:
  "length (ln_handlers (fold (run_attach_listener 7) (replicate 9 (Accepted 1 (Inr 7) True)) listen_start)) \<le> 8"
  using attach_connections_bounded [of 7 "replicate 9 (Accepted 1 (Inr 7) True)"] by (simp add: Let_def)

subsection \<open>Recording\<close>

text \<open>The header a recording starts with is one the encoder accepts, whatever the environment holds.\<close>

lemma recording_starts_ok:
  assumes "run_id_ok ver r"
  shows "header_ok ver (start_pty_recording r child_env own_term now)"
proof -
  have "term_ok (recordable_term c t)" for c t
    by (auto simp: recordable_term_def term_ok_def new_term_name_def max_term_len_def list_all_iff split: option.splits)
  then show ?thesis using assms
    by (simp add: header_ok_def start_pty_recording_def first_sequence_def geometry_ok_def initial_geometry_def)
qed

end
