(* ===== verification/Directives.thy ===== *)
theory Directives
  imports Ids_Text Std_Lines Std_Search Event_Log
begin

text \<open>
  The directives in the header of a script, and the session name derived from its path
  (\<open>src/src/directive.rs\<close>).
\<close>

subsection \<open>Directives\<close>

record directives =
  d_namespace :: "bytes option"
  d_timeout :: "u64 option"
  d_on_exit :: "bytes list"
  d_stdin_pipe :: bool
  d_cwd :: "bytes option"
  d_env :: "bytes \<rightharpoonup> bytes"
  d_replace :: bool
  d_session :: "bytes option"
  d_detach :: bool

definition no_directives :: directives where
  "no_directives = \<lparr>d_namespace = None, d_timeout = None, d_on_exit = [], d_stdin_pipe = False, d_cwd = None,
     d_env = Map.empty, d_replace = False, d_session = None, d_detach = False\<rparr>"

datatype directive_error = UnknownDirective bytes | DuplicateDirective bytes | InvalidTimeout bytes
  | InvalidStdin bytes | InvalidNamespace bytes | InvalidSession bytes

text \<open>One directive; a flag has no value, an absent value is the empty string.\<close>

definition env_entry :: "bytes \<Rightarrow> bytes \<times> bytes" where
  "env_entry v = (case split_once 0x3d v of Some (k, _) \<Rightarrow> (k, v) | None \<Rightarrow> (v, v))"

definition set_namespace :: "bytes \<Rightarrow> directives \<Rightarrow> directive_error + directives" where
  "set_namespace v d =
     (if d_namespace d \<noteq> None then Inl (DuplicateDirective (ascii ''namespace''))
      else case new_namespace v of
        Inl e \<Rightarrow> Inl (InvalidNamespace (v @ ascii '': '' @ show_name_error (ascii ''namespace'') e))
      | Inr _ \<Rightarrow> Inr (d\<lparr>d_namespace := Some v\<rparr>))"

definition set_timeout :: "bytes \<Rightarrow> directives \<Rightarrow> directive_error + directives" where
  "set_timeout v d =
     (if d_timeout d \<noteq> None then Inl (DuplicateDirective (ascii ''timeout''))
      else case parse_uint (2 ^ 64 - 1) v of
        None \<Rightarrow> Inl (InvalidTimeout v)
      | Some n \<Rightarrow> Inr (d\<lparr>d_timeout := Some (of_nat n)\<rparr>))"

definition set_session :: "bytes \<Rightarrow> directives \<Rightarrow> directive_error + directives" where
  "set_session v d =
     (if d_session d \<noteq> None then Inl (DuplicateDirective (ascii ''session''))
      else case new_session_name v of
        Inl e \<Rightarrow> Inl (InvalidSession (v @ ascii '': '' @ show_name_error (ascii ''session name'') e))
      | Inr _ \<Rightarrow> Inr (d\<lparr>d_session := Some v\<rparr>))"

definition apply_directive :: "bytes \<Rightarrow> bytes option \<Rightarrow> directives \<Rightarrow> directive_error + directives" where
  "apply_directive key val d =
     (let v = (case val of Some x \<Rightarrow> x | None \<Rightarrow> [])
      in if key = ascii ''namespace'' then set_namespace v d
         else if key = ascii ''timeout'' then set_timeout v d
         else if key = ascii ''on-exit'' then Inr (d\<lparr>d_on_exit := d_on_exit d @ [v]\<rparr>)
         else if key = ascii ''stdin'' then
           (if v \<noteq> ascii ''pipe'' then Inl (InvalidStdin v)
            else if d_stdin_pipe d then Inl (DuplicateDirective (ascii ''stdin''))
            else Inr (d\<lparr>d_stdin_pipe := True\<rparr>))
         else if key = ascii ''cwd'' then
           (if d_cwd d \<noteq> None then Inl (DuplicateDirective (ascii ''cwd'')) else Inr (d\<lparr>d_cwd := Some v\<rparr>))
         else if key = ascii ''env'' then Inr (d\<lparr>d_env := (d_env d)(fst (env_entry v) \<mapsto> snd (env_entry v))\<rparr>)
         else if key = ascii ''replace'' then
           (if d_replace d then Inl (DuplicateDirective (ascii ''replace'')) else Inr (d\<lparr>d_replace := True\<rparr>))
         else if key = ascii ''session'' then set_session v d
         else if key = ascii ''detach'' then
           (if d_detach d then Inl (DuplicateDirective (ascii ''detach'')) else Inr (d\<lparr>d_detach := True\<rparr>))
         else Inl (UnknownDirective key))"

definition process_line :: "bytes \<Rightarrow> directives \<Rightarrow> directive_error + directives" where
  "process_line line d =
     (case strip_prefix (ascii ''#tendr: '') (trim line) of
        None \<Rightarrow> Inr d
      | Some r \<Rightarrow>
          let rest = trim r
          in if rest = [] then Inr d
             else (case split_once 0x3d rest of
                     Some (key, v) \<Rightarrow> apply_directive (trim key) (Some (trim v)) d
                   | None \<Rightarrow> apply_directive rest None d))"

fun scan_header :: "bytes list \<Rightarrow> directives \<Rightarrow> directive_error + directives" where
  "scan_header [] d = Inr d"
| "scan_header (line # ls) d =
     (let t = trim line
      in if t = [] then scan_header ls d
         else if \<not> starts_with [0x23] t then Inr d
         else case process_line t d of Inl e \<Rightarrow> Inl e | Inr d' \<Rightarrow> scan_header ls d')"

definition parse_directives :: "bytes \<Rightarrow> directive_error + directives" where
  "parse_directives content =
     (case str_lines content of
        [] \<Rightarrow> Inr no_directives
      | line # ls \<Rightarrow>
          (case (if starts_with [0x23, 0x21] line then Inr no_directives else process_line line no_directives) of
             Inl e \<Rightarrow> Inl e
           | Inr d \<Rightarrow> scan_header ls d))"

subsection \<open>The derived session name\<close>

definition rfind_byte :: "u8 \<Rightarrow> bytes \<Rightarrow> nat option" where
  "rfind_byte b s = rfind_sub [b] s"

text \<open>Without its last extension; a leading dot is not one.\<close>

definition strip_extension :: "bytes \<Rightarrow> bytes" where
  "strip_extension base =
     (case rfind_byte 0x2e base of
        None \<Rightarrow> base
      | Some 0 \<Rightarrow> (case rfind_byte 0x2e (tl base) of Some i \<Rightarrow> take i (tl base) | None \<Rightarrow> tl base)
      | Some (Suc p) \<Rightarrow> take (Suc p) base)"

definition derived_name :: "bytes \<Rightarrow> bytes" where
  "derived_name base =
     (let hyphens = map (\<lambda>b. if b = 0x2e then 0x2d else b) (strip_extension base);
          name = dropWhile (\<lambda>b. b = 0x5f \<or> b = 0x2d) hyphens
      in if 255 < length name then take (floor_boundary name 255) name else name)"

text \<open>\<open>file\<close> is the last component of the script's path, if it has one.\<close>

definition derive_session_name :: "bytes option \<Rightarrow> bytes + bytes" where
  "derive_session_name file =
     (case Option.bind file component_str of
        None \<Rightarrow> Inl (ascii ''cannot extract filename from script path'')
      | Some base \<Rightarrow>
          let name = derived_name base
          in if name = [] then
               Inl (ascii ''cannot derive session name from '' @ [0x27] @ base @ [0x27] @ ascii ''; use #tendr: session=NAME'')
             else case new_session_name name of
               Inr _ \<Rightarrow> Inr name
             | Inl e \<Rightarrow> Inl (ascii ''derived session name '' @ [0x27] @ name @ [0x27] @ ascii '' is invalid: '' @
                 show_name_error (ascii ''session name'') e @ ascii ''; use #tendr: session=NAME''))"

subsection \<open>Only the header counts\<close>

lemma scan_header_stops:
  "starts_with [0x23] (trim stop) = False \<Longrightarrow> trim stop \<noteq> [] \<Longrightarrow> scan_header (hdr @ stop # body) d = scan_header hdr d"
  by (induction hdr arbitrary: d) (auto simp: Let_def split: sum.split)

lemma parse_directives_lines:
  "parse_directives content = (case str_lines content of [] \<Rightarrow> Inr no_directives
     | line # ls \<Rightarrow> (case (if starts_with [0x23, 0x21] line then Inr no_directives else process_line line no_directives) of
          Inl e \<Rightarrow> Inl e | Inr d \<Rightarrow> scan_header ls d))"
  by (simp add: parse_directives_def)

definition directives_ok :: "directives \<Rightarrow> bool" where
  "directives_ok d \<longleftrightarrow> (\<forall>n. d_namespace d = Some n \<longrightarrow> new_namespace n = Inr (Namespace n)) \<and>
     (\<forall>n. d_session d = Some n \<longrightarrow> new_session_name n = Inr (SessionName n))"

lemma apply_directive_ok: "directives_ok d \<Longrightarrow> apply_directive key v d = Inr d' \<Longrightarrow> directives_ok d'"
  unfolding apply_directive_def set_namespace_def set_session_def set_timeout_def Let_def
  by (auto simp: directives_ok_def new_namespace_def new_session_name_def split: if_splits option.splits sum.splits)

lemma process_line_ok: "directives_ok d \<Longrightarrow> process_line line d = Inr d' \<Longrightarrow> directives_ok d'"
  by (auto simp: process_line_def Let_def split: option.splits if_splits intro: apply_directive_ok)

lemma scan_header_ok: "directives_ok d \<Longrightarrow> scan_header ls d = Inr d' \<Longrightarrow> directives_ok d'"
proof (induction ls arbitrary: d)
  case (Cons l ls)
  then show ?case by (auto simp: Let_def split: if_splits sum.splits intro: process_line_ok)
qed simp

lemma no_directives_ok: "directives_ok no_directives"
  by (simp add: directives_ok_def no_directives_def)

text \<open>Only the header of a script is read: from the first line of code on (after the first line), nothing
  in the script changes the result. The namespace and session a header names are valid names.\<close>

theorem header_decides:
  assumes "str_lines a = line # hdr @ code # body" "str_lines b = line # hdr @ code # body'"
    and "trim code \<noteq> []" "\<not> starts_with [0x23] (trim code)"
  shows "parse_directives a = parse_directives b \<and> (\<forall>d. parse_directives a = Inr d \<longrightarrow> directives_ok d)"
proof
  show "parse_directives a = parse_directives b"
    using assms by (auto simp: parse_directives_lines scan_header_stops split: sum.split)
  show "\<forall>d. parse_directives a = Inr d \<longrightarrow> directives_ok d"
    using assms(1) no_directives_ok
    by (auto simp: parse_directives_lines split: if_splits sum.splits intro: scan_header_ok process_line_ok)
qed

lemma demo_script: "str_lines [0x23, 0x21, 0x0a, 0x6c, 0x73, 0x0a, 0x61] = [0x23, 0x21] # [] @ [0x6c, 0x73] # [[0x61]]"
  "str_lines [0x23, 0x21, 0x0a, 0x6c, 0x73] = [0x23, 0x21] # [] @ [0x6c, 0x73] # []"
  by (simp_all add: str_lines_def drop_cr_def)

lemma demo_code: "trim [0x6c, 0x73] = [0x6c, 0x73]"
  by (simp add: trim_def trim_end_def trim_start_def blank_piece_def is_whitespace_def)

theorem header_decides_witness:
  "parse_directives [0x23, 0x21, 0x0a, 0x6c, 0x73, 0x0a, 0x61] = parse_directives [0x23, 0x21, 0x0a, 0x6c, 0x73]"
  using header_decides [OF demo_script] by (simp add: demo_code starts_with_def)

subsection \<open>The derived name is valid\<close>

lemma floor_boundary_le: "floor_boundary s n \<le> n"
  by (induction n) auto

lemma floor_boundary_is: "is_char_boundary s (floor_boundary s n)"
  by (induction n) (auto simp: is_char_boundary_def)

lemma rfind_byte_Some: "rfind_byte b s = Some i \<Longrightarrow> i < length s \<and> s ! i = b"
proof -
  assume "rfind_byte b s = Some i"
  then have "starts_with [b] (drop i s)" using rfind_sub_Some by (auto simp: rfind_byte_def)
  then have d: "drop i s = b # tl (drop i s)" by (cases "drop i s") (auto simp: starts_with_def)
  then have "i < length s" by (metis drop_all list.distinct(1) linorder_not_less)
  with nth_via_drop [OF d] show ?thesis by simp
qed

lemma valid_cut:
  assumes "utf8_valid s" "i < length s" "s ! i < 128"
  shows "utf8_valid (take i s) \<and> utf8_valid (drop i s)"
proof -
  have v: "utf8_valid (take i s)" using assms by (intro utf8_valid_take) (auto simp: cont_byte_def)
  with utf8_valid_append [OF this, of "drop i s"] assms(1) show ?thesis by simp
qed

lemma utf8_valid_tl: "utf8_valid (b # s) \<Longrightarrow> b < 128 \<Longrightarrow> utf8_valid s"
  by simp

lemma strip_extension_valid: "utf8_valid s \<Longrightarrow> utf8_valid (strip_extension s)"
proof -
  assume v: "utf8_valid s"
  have cut: "utf8_valid (take i x)" if "utf8_valid x" "rfind_byte 0x2e x = Some i" for i x
    using rfind_byte_Some [OF that(2)] valid_cut [of x i] that(1) by simp
  have "utf8_valid (tl s)" if "rfind_byte 0x2e s = Some 0"
    using rfind_byte_Some [OF that] v by (cases s) auto
  with v cut show ?thesis by (auto simp: strip_extension_def split: option.split nat.split)
qed

lemma map_ascii_valid:
  assumes "\<forall>b. b \<ge> 128 \<longrightarrow> f b = b" "\<forall>b < 128. f b < 128"
  shows "utf8_valid s \<Longrightarrow> utf8_valid (map f s)"
proof (induction s rule: utf8_valid.induct)
  case (2 b bs)
  then obtain k where k: "utf8_step b bs = (True, k)" "utf8_valid (drop (k - 1) bs)"
    by (cases "utf8_step b bs") auto
  have IH: "utf8_valid (map f (drop (k - 1) bs))" using 2(1) k by simp
  show ?case
  proof (cases "b < 128")
    case True
    with k IH assms(2) show ?thesis by simp
  next
    case False
    have high: "map f (take (k - 1) bs) = take (k - 1) bs"
    proof (rule map_idI)
      fix x assume "x \<in> set (take (k - 1) bs)"
      then obtain j where j: "j < k - 1" "x = bs ! j" "j < length bs" by (auto simp: in_set_conv_nth)
      with utf8_step_cont [OF k(1), of "Suc j"] have "cont_byte x" by simp
      with assms(1) show "f x = x" by (simp add: cont_byte_def)
    qed
    have "utf8_valid (b # take (k - 1) bs)"
      using utf8_step_take [OF k(1), of "k - 1"] utf8_step_result [OF k(1)] by simp
    moreover have "map f (b # bs) = (b # take (k - 1) bs) @ map f (drop (k - 1) bs)"
      using high assms(1) False by (metis append_take_drop_id list.simps(9) map_append append_Cons linorder_not_less)
    ultimately show ?thesis using IH by (simp only: utf8_valid_append)
  qed
qed simp

lemma dropWhile_ascii_valid:
  assumes "\<forall>b. P b \<longrightarrow> b < 128"
  shows "utf8_valid s \<Longrightarrow> utf8_valid (dropWhile P s)"
proof (induction s)
  case (Cons b s)
  then show ?case using assms by (cases "P b") (auto simp del: utf8_valid.simps intro: utf8_valid_tl)
qed simp

lemma derived_name_props:
  assumes "utf8_valid base" "0x2f \<notin> set base"
  shows "utf8_valid (derived_name base)" "length (derived_name base) \<le> 255" "0x2f \<notin> set (derived_name base)"
    "0x2e \<notin> set (derived_name base)" "\<not> starts_with [0x5f] (derived_name base)"
proof -
  define h where "h = map (\<lambda>b. if b = 0x2e then 0x2d else b) (strip_extension base)"
  define n where "n = dropWhile (\<lambda>b. b = 0x5f \<or> b = 0x2d) h"
  define c where "c = floor_boundary n 255"
  have name: "derived_name base = (if 255 < length n then take c n else n)"
    by (simp add: derived_name_def Let_def h_def n_def c_def)
  have h: "utf8_valid h" unfolding h_def
    by (rule map_ascii_valid) (auto simp: assms(1) strip_extension_valid)
  then have n: "utf8_valid n" unfolding n_def by (intro dropWhile_ascii_valid) auto
  have "set (strip_extension base) \<subseteq> set base"
    by (cases base) (auto simp: strip_extension_def split: option.splits nat.splits dest: in_set_takeD)
  with assms(2) have sets: "0x2f \<notin> set h" "0x2e \<notin> set h" by (auto simp: h_def)
  then have sets: "0x2f \<notin> set n" "0x2e \<notin> set n" unfolding n_def by (auto dest: set_dropWhileD)
  have start: "\<not> starts_with [0x5f] n" "n \<noteq> [] \<longrightarrow> n ! 0 \<noteq> 0x5f"
    using hd_dropWhile [of "\<lambda>b. b = 0x5f \<or> b = 0x2d" h] unfolding n_def [symmetric]
    by (cases n; auto simp: starts_with_def)+
  have "utf8_valid (take c n)"
    using floor_boundary_is [of n 255] n unfolding c_def is_char_boundary_def by (intro utf8_valid_take) auto
  with n show "utf8_valid (derived_name base)" by (simp add: name)
  show "length (derived_name base) \<le> 255" using floor_boundary_le [of n 255] by (auto simp: name c_def)
  show "0x2f \<notin> set (derived_name base)" "0x2e \<notin> set (derived_name base)"
    using sets by (auto simp: name dest: in_set_takeD)
  show "\<not> starts_with [0x5f] (derived_name base)"
    using start by (cases n; cases c) (auto simp: name starts_with_def)
qed

text \<open>A session name derived from a script is valid, and a script without a usable name is the only one
  refused: the derived name is at most 255 bytes of whole characters, without dots or a leading
  underscore, so deriving fails only when nothing is left of the name or it contains white space.\<close>

theorem derived_name_valid:
  assumes "utf8_valid base" "0x2f \<notin> set base"
  shows "case derive_session_name (Some base) of
      Inr n \<Rightarrow> n = derived_name base \<and> utf8_valid n \<and> length n \<le> 255 \<and> new_session_name n = Inr (SessionName n)
    | Inl e \<Rightarrow> derived_name base = [] \<or> list_ex is_whitespace (utf8_chars (derived_name base))"
proof -
  note props = derived_name_props [OF assms]
  have "derived_name base \<noteq> [] \<Longrightarrow> \<not> list_ex is_whitespace (utf8_chars (derived_name base)) \<Longrightarrow>
      new_session_name (derived_name base) = Inr (SessionName (derived_name base))"
    using props validate_session_name_Inr [of "derived_name base" "()"] by (simp add: new_session_name_Inr)
  then show ?thesis
    using assms(1) props(1,2) by (cases "derived_name base = []"; cases "list_ex is_whitespace (utf8_chars (derived_name base))")
      (auto simp: derive_session_name_def component_str_def Let_def split: sum.split dest: new_session_name_Inr [THEN iffD1])
qed

theorem derived_name_valid_witness:
  "case derive_session_name (Some [0x5f, 0x61, 0x2e, 0x62, 0x2e, 0x73]) of
      Inr n \<Rightarrow> n = [0x61, 0x2d, 0x62] \<and> new_session_name n = Inr (SessionName n) | Inl e \<Rightarrow> False"
proof -
  have "derived_name [0x5f, 0x61, 0x2e, 0x62, 0x2e, 0x73] = [0x61, 0x2d, 0x62]"
    by (simp add: derived_name_def strip_extension_def rfind_byte_def starts_with_def Let_def)
  with derived_name_valid [of "[0x5f, 0x61, 0x2e, 0x62, 0x2e, 0x73]"] show ?thesis
    by (auto simp: utf8_valid_ascii utf8_chars_ascii is_whitespace_def split: sum.splits)
qed

end
