(* ===== verification/Run_Script.thy ===== *)
theory Run_Script
  imports Launch Directives "HOL-Library.List_Lexorder"
begin

text \<open>
  Running a script (\<open>src/src/commands/run.rs\<close>): the interpreter, directives merged with the command line,
  the launch, and the exit code of a run in the foreground.
\<close>

subsection \<open>The interpreter\<close>

definition to_ascii_lowercase :: "bytes \<Rightarrow> bytes" where
  "to_ascii_lowercase s = map (\<lambda>b. if 65 \<le> b \<and> b \<le> 90 then b + 32 else b) s"

text \<open>\<open>Path::extension\<close> of a file name: what follows its last dot, unless that dot is its first byte.\<close>

definition file_extension :: "bytes \<Rightarrow> bytes option" where
  "file_extension name =
     (case rfind_byte 46 name of
        None \<Rightarrow> None
      | Some i \<Rightarrow> if i = 0 then None else Some (drop (Suc i) name))"

definition launcher_argv_for_extension :: "bytes \<Rightarrow> bytes list option" where
  "launcher_argv_for_extension ext =
     (if ext = ascii ''sh'' then Some [ascii ''bash'']
      else if ext = ascii ''ps1'' then Some [ascii ''pwsh'', ascii ''-File'']
      else if ext = ascii ''py'' then Some [ascii ''python3'']
      else if ext = ascii ''rb'' then Some [ascii ''ruby'']
      else if ext = ascii ''js'' then Some [ascii ''node'']
      else None)"

text \<open>\<open>str::split_whitespace\<close>, over the characters of a string; \<open>cur\<close> is the word so far.\<close>

fun words_of :: "bytes list \<Rightarrow> bytes \<Rightarrow> bytes list" where
  "words_of [] cur = (if cur = [] then [] else [cur])"
| "words_of (p # ps) cur =
     (if blank_piece p then (if cur = [] then words_of ps [] else cur # words_of ps []) else words_of ps (cur @ p))"

definition split_whitespace :: "bytes \<Rightarrow> bytes list" where
  "split_whitespace s = words_of (utf8_pieces s) []"

text \<open>\<open>None\<close> inside is the panic of indexing no words, which cannot happen.\<close>

definition parse_shebang :: "bytes \<Rightarrow> bytes option" where
  "parse_shebang content =
     (case str_lines content of
        [] \<Rightarrow> None
      | line # _ \<Rightarrow>
          (case strip_prefix [35, 33] line of
             None \<Rightarrow> None
           | Some rest \<Rightarrow>
               if trim rest = [] then None
               else (case split_whitespace (trim rest) of
                       first # second # _ \<Rightarrow> Some (if strip_suffix_of (ascii ''/env'') first \<noteq> None then second else first)
                     | [first] \<Rightarrow> Some first
                     | [] \<Rightarrow> None)))"

definition resolve_shell_argv :: "bytes option \<Rightarrow> bytes \<Rightarrow> bool \<Rightarrow> bytes \<Rightarrow> bytes list \<Rightarrow> bytes + bytes list" where
  "resolve_shell_argv shell script is_executable content args =
     (case shell of
        Some sh \<Rightarrow> Inr ([sh, script] @ args)
      | None \<Rightarrow>
          if is_executable then Inr (script # args)
          else (case Option.bind (Option.bind (file_name script) file_extension)
                       (\<lambda>e. launcher_argv_for_extension (to_ascii_lowercase e)) of
                  Some launcher \<Rightarrow> Inr (launcher @ [script] @ args)
                | None \<Rightarrow>
                    (case parse_shebang content of
                       Some interp \<Rightarrow> Inr ([interp, script] @ args)
                     | None \<Rightarrow> Inl (ascii ''cannot determine interpreter for '' @ [39] @ script @ [39] @ [10] @
                         ascii ''  hint: use --shell to specify the interpreter'' @ [10] @
                         ascii ''  example: tendr run --shell bash '' @ script))))"

subsection \<open>Merging\<close>

record run_args =
  ra_args :: "bytes list"
  ra_shell :: "bytes option"
  ra_detach :: bool
  ra_foreground :: bool
  ra_namespace :: "namespace option"
  ra_timeout :: "u64 option"
  ra_stdin :: bool
  ra_replace :: bool
  ra_cwd :: "bytes option"
  ra_env :: "bytes list"
  ra_on_exit :: "bytes list"
  ra_after :: "bytes list"
  ra_any_exit :: bool

text \<open>The entries of the directives in the order of their keys.\<close>

definition env_values :: "(bytes \<rightharpoonup> bytes) \<Rightarrow> bytes list" where
  "env_values m = map (the \<circ> m) (sorted_list_of_set (dom m))"

text \<open>\<open>None\<close> is the panic on a directive's name space that is not valid.\<close>

definition merge_directives_with_cli :: "directives \<Rightarrow> run_args \<Rightarrow> bytes \<Rightarrow> bytes list \<Rightarrow> launch_args option" where
  "merge_directives_with_cli d a name cmd = do {
     ns \<leftarrow> (case ra_namespace a of
              Some ns \<Rightarrow> Some ns
            | None \<Rightarrow>
                (case d_namespace d of
                   Some n \<Rightarrow> (case new_namespace n of Inr ns \<Rightarrow> Some ns | Inl _ \<Rightarrow> None)
                 | None \<Rightarrow> Some default_namespace));
     Some \<lparr>la_name = name, la_cmd = cmd, la_stdin = (ra_stdin a \<or> d_stdin_pipe d), la_replace = (ra_replace a \<or> d_replace d),
       la_timeout = (case ra_timeout a of Some t \<Rightarrow> Some t | None \<Rightarrow> d_timeout d),
       la_cwd = (case ra_cwd a of Some c \<Rightarrow> Some c | None \<Rightarrow> d_cwd d),
       la_env = env_values (d_env d) @ ra_env a,
       la_on_exit = (if ra_on_exit a = [] then d_on_exit d else ra_on_exit a),
       la_after = ra_after a, la_any_exit = ra_any_exit a, la_namespace = ns, la_pty = False,
       la_exec_target = Some ExecNone, la_boundary = None\<rparr> }"

definition effective_detach :: "run_args \<Rightarrow> directives \<Rightarrow> bool" where
  "effective_detach a d = (if ra_foreground a then False else if ra_detach a then True else d_detach d)"

subsection \<open>The foreground\<close>

definition run_exit_code :: "run_status \<Rightarrow> int" where
  "run_exit_code s =
     (case s of
        Exited c how t \<Rightarrow>
          (case how of ExitedOk \<Rightarrow> 0 | ExitedError code \<Rightarrow> sint code | Killed \<Rightarrow> 137 | KilledForced \<Rightarrow> 137 | TimedOut \<Rightarrow> 124
           | SidecarFailed step \<Rightarrow> 5)
      | SpawnFailed t \<Rightarrow> 2
      | SidecarLost c t \<Rightarrow> 3
      | DependencyFailed t r \<Rightarrow> (case r of DepFailed \<Rightarrow> 4 | DepTimedOut \<Rightarrow> 124 | DepKilled \<Rightarrow> 137 | DepKilledForced \<Rightarrow> 137)
      | _ \<Rightarrow> 0)"

text \<open>What the follower asks of the record at each of its polls.\<close>

definition sees_terminal :: "(bytes \<Rightarrow> bytes + meta) \<Rightarrow> bytes option \<Rightarrow> bool" where
  "sees_terminal from_json content =
     (case content of
        None \<Rightarrow> False
      | Some txt \<Rightarrow> (case from_json txt of Inr m \<Rightarrow> is_terminal (status m) | Inl _ \<Rightarrow> False))"

text \<open>
  The follower's polls of the record, the last read and the reconciliation. \<open>None\<close> while no poll has
  seen an ended run.
\<close>

definition foreground_wait :: "command_env \<Rightarrow> bytes option list \<Rightarrow> bytes + bytes \<Rightarrow> recon_env \<Rightarrow> ((bytes + int) \<times> command_effect list) option" where
  "foreground_wait e polls final a =
     (if \<not> list_ex (sees_terminal (ce_from_json e)) polls then None
      else Some (case final of
        Inl err \<Rightarrow> (Inl err, [])
      | Inr txt \<Rightarrow>
          (case ce_from_json e txt of
             Inl err \<Rightarrow> (Inl err, [])
           | Inr m \<Rightarrow>
               (case reconcile_sidecar_gone (ce_boundary_json e) a m of
                  (_, m', effs) \<Rightarrow> (Inr (run_exit_code (status m')), map Recon effs)))))"

subsection \<open>The command\<close>

text \<open>
  What the script's path answers: its own text, whether it is there and a file, its content, its
  canonical path, and whether it may be executed.
\<close>

record script_env =
  sv_path :: bytes
  sv_exists :: bool
  sv_is_file :: bool
  sv_content :: "bytes + bytes"
  sv_canonical :: "bytes option"
  sv_executable :: bool
  sv_directive_error :: "directive_error \<Rightarrow> bytes"

definition prepare_run :: "script_env \<Rightarrow> run_args \<Rightarrow> (bytes, launch_args \<times> bool) panicking" where
  "prepare_run s a =
     (if \<not> sv_exists s then Some (Inl (ascii ''script not found: '' @ sv_path s))
      else if \<not> sv_is_file s then Some (Inl (ascii ''not a file: '' @ sv_path s))
      else case sv_content s of
        Inl err \<Rightarrow> Some (Inl (ascii ''failed to read script: '' @ sv_path s))
      | Inr content \<Rightarrow>
          (case parse_directives content of
             Inl err \<Rightarrow> Some (Inl (sv_directive_error s err))
           | Inr d \<Rightarrow>
               (case (case d_session d of Some n \<Rightarrow> Inr n | None \<Rightarrow> derive_session_name (file_name (sv_path s))) of
                  Inl err \<Rightarrow> Some (Inl err)
                | Inr name \<Rightarrow>
                    (let script = (case sv_canonical s of Some p \<Rightarrow> p | None \<Rightarrow> sv_path s)
                     in if \<not> utf8_valid script then Some (Inl (ascii ''script path is not valid UTF-8''))
                        else case resolve_shell_argv (ra_shell a) script (sv_executable s) content (ra_args a) of
                          Inl err \<Rightarrow> Some (Inl err)
                        | Inr cmd \<Rightarrow>
                            map_option (\<lambda>la. Inr (la, effective_detach a d)) (merge_directives_with_cli d a name cmd)))))"

datatype run_report = RunDetached meta | RunForeground int | RunSpawnFailed

text \<open>\<open>None\<close>: a panic, or a wait whose script ended first.\<close>

definition cmd_run :: "script_env \<Rightarrow> run_args \<Rightarrow> launch_env \<Rightarrow> command_env \<Rightarrow> bytes option list \<Rightarrow> bytes + bytes \<Rightarrow> recon_env
    \<Rightarrow> ((bytes + run_report) \<times> command_effect list) option" where
  "cmd_run s a le ce polls final re = do {
     prepared \<leftarrow> prepare_run s a;
     (case prepared of
        Inl err \<Rightarrow> Some (Inl err, [])
      | Inr (la, detach) \<Rightarrow> do {
          (launched, effs) \<leftarrow> launch_session le la;
          (case launched of
             Inl err \<Rightarrow> Some (Inl err, effs)
           | Inr m \<Rightarrow>
               (case status m of
                  SpawnFailed t \<Rightarrow> Some (Inr RunSpawnFailed, effs)
                | _ \<Rightarrow>
                    if detach then Some (Inr (RunDetached m), effs)
                    else do {
                      (code, more_effs) \<leftarrow> foreground_wait ce polls final re;
                      Some (map_sum id RunForeground code, effs @ more_effs) })) }) }"

end
