(* ===== verification/Run_Laws.thy ===== *)
theory Run_Laws
  imports Run_Script
begin

text \<open>What a script's run is launched with: the command line wins over the script's directives.\<close>

subsection \<open>Environment entries\<close>



lemma snd_env_entry [simp]: "snd (env_entry v) = v"
  by (simp add: env_entry_def split: option.splits prod.splits)

definition env_keyed :: "(bytes \<rightharpoonup> bytes) \<Rightarrow> bool" where
  "env_keyed m \<longleftrightarrow> finite (dom m) \<and> (\<forall>k v. m k = Some v \<longrightarrow> fst (env_entry v) = k)"

lemma apply_directive_keyed: "env_keyed (d_env d) \<Longrightarrow> apply_directive key v d = Inr d' \<Longrightarrow> env_keyed (d_env d')"
  unfolding apply_directive_def set_namespace_def set_session_def set_timeout_def Let_def
  by (auto simp: env_keyed_def split: if_splits option.splits sum.splits)

lemma process_line_keyed: "env_keyed (d_env d) \<Longrightarrow> process_line line d = Inr d' \<Longrightarrow> env_keyed (d_env d')"
  by (auto simp: process_line_def Let_def split: option.splits if_splits intro: apply_directive_keyed)

lemma scan_header_keyed: "env_keyed (d_env d) \<Longrightarrow> scan_header ls d = Inr d' \<Longrightarrow> env_keyed (d_env d')"
  by (induction ls d rule: scan_header.induct) (auto simp: Let_def split: if_splits sum.splits intro: process_line_keyed)

lemma parse_directives_sound: "parse_directives content = Inr d \<Longrightarrow> directives_ok d \<and> env_keyed (d_env d)"
proof -
  have start: "directives_ok no_directives" "env_keyed (d_env no_directives)"
    by (rule no_directives_ok) (simp add: env_keyed_def no_directives_def)
  assume "parse_directives content = Inr d"
  then show ?thesis using start
    by (auto simp: parse_directives_def split: list.splits if_splits sum.splits
        intro: scan_header_ok process_line_ok scan_header_keyed process_line_keyed)
qed



subsection \<open>The launch of a script\<close>

lemma merge_directives_total: "directives_ok d \<Longrightarrow> merge_directives_with_cli d a name cmd \<noteq> None"
  by (auto simp: merge_directives_with_cli_def directives_ok_def split: option.splits)

lemma prepare_run_total: "prepare_run s a \<noteq> None"
  using merge_directives_total parse_directives_sound
  by (auto simp: prepare_run_def Let_def split: sum.splits option.splits)








lemma sample_dom: "sorted_list_of_set (dom (Map.empty :: bytes \<rightharpoonup> bytes)) = []" by simp

end
