(* ===== verification/Std_BTree.thy ===== *)
theory Std_BTree
  imports "HOL-Library.List_Lexorder" Prelude
begin

text \<open>
  \<open>BTreeMap\<close> and \<open>BTreeSet\<close> of the standard library: association lists in the order of their keys, so
  that iterating is reading the list.
\<close>

fun bt_insert :: "'k::linorder \<Rightarrow> 'v \<Rightarrow> ('k \<times> 'v) list \<Rightarrow> ('k \<times> 'v) list" where
  "bt_insert k v [] = [(k, v)]"
| "bt_insert k v ((k', v') # m) =
     (if k < k' then (k, v) # (k', v') # m else if k = k' then (k, v) # m else (k', v') # bt_insert k v m)"

definition bt_remove :: "'k \<Rightarrow> ('k \<times> 'v) list \<Rightarrow> ('k \<times> 'v) list" where
  "bt_remove k m = filter (\<lambda>(k', v). k' \<noteq> k) m"

definition bt_ok :: "('k::linorder \<times> 'v) list \<Rightarrow> bool" where
  "bt_ok m \<longleftrightarrow> sorted_wrt (<) (map fst m)"

definition bt_of_list :: "('k::linorder \<times> 'v) list \<Rightarrow> ('k \<times> 'v) list" where
  "bt_of_list kvs = fold (\<lambda>(k, v). bt_insert k v) kvs []"

lemma bt_insert_keys: "fst ` set (bt_insert k v m) = insert k (fst ` set m)"
  by (induction k v m rule: bt_insert.induct) (simp_all add: insert_commute)

lemma bt_insert_lookup [simp]: "map_of (bt_insert k v m) = (map_of m)(k \<mapsto> v)"
  by (induction m) (auto simp: fun_upd_twist)

lemma bt_ok_Nil [simp]: "bt_ok []"
  by (simp add: bt_ok_def)

lemma bt_ok_Cons [simp]: "bt_ok ((k, v) # m) \<longleftrightarrow> (\<forall>k'\<in>fst ` set m. k < k') \<and> bt_ok m"
  by (auto simp: bt_ok_def)

lemma bt_insert_ok: "bt_ok m \<Longrightarrow> bt_ok (bt_insert k v m)"
  by (induction k v m rule: bt_insert.induct) (auto simp: bt_insert_keys intro: order.strict_trans)

lemma bt_remove_ok: "bt_ok m \<Longrightarrow> bt_ok (bt_remove k m)"
  by (induction m) (auto simp: bt_remove_def)

lemma bt_remove_lookup [simp]: "map_of (bt_remove k m) k' = (if k' = k then None else map_of m k')"
  by (induction m) (auto simp: bt_remove_def)

lemma bt_ok_distinct: "bt_ok m \<Longrightarrow> distinct (map fst m)"
  by (auto simp: bt_ok_def strict_sorted_iff)

text \<open>A map that is in order is determined by its lookups, and collecting it builds it again.\<close>

lemma bt_insert_least: "bt_ok ((k, v) # m) \<Longrightarrow> bt_insert k v m = (k, v) # m"
  by (cases m) auto

lemma bt_ok_eq:
  assumes "bt_ok m" "bt_ok m'" "map_of m = map_of m'"
  shows "m = m'"
proof -
  have d: "distinct (map fst m)" "distinct (map fst m')" using assms(1,2) by (simp_all add: bt_ok_distinct)
  have mem: "x \<in> set n \<longleftrightarrow> map_of n (fst x) = Some (snd x)" if "distinct (map fst n)" for x and n :: "('a \<times> 'b) list"
    using that by (metis map_of_eq_Some_iff prod.collapse)
  have same: "set m = set m'" using mem [OF d(1)] mem [OF d(2)] assms(3) by auto
  have "inj_on fst (set m \<union> set m')" using d(1) same by (simp add: distinct_map)
  moreover have "sorted (map fst m)" "sorted (map fst m')"
    using assms(1,2) by (simp_all add: bt_ok_def strict_sorted_iff)
  ultimately show ?thesis using map_sorted_distinct_set_unique [OF _ _ d(1) _ d(2) same] by blast
qed

lemma bt_of_list_fold:
  "bt_ok m \<Longrightarrow> distinct (map fst kvs) \<Longrightarrow>
   bt_ok (fold (\<lambda>(k, v). bt_insert k v) kvs m) \<and> map_of (fold (\<lambda>(k, v). bt_insert k v) kvs m) = map_of m ++ map_of kvs"
proof (induction kvs arbitrary: m)
  case (Cons kv kvs)
  obtain k v where kv: "kv = (k, v)" by (cases kv)
  have "map_of kvs k = None" using Cons.prems(2) by (simp add: kv map_of_eq_None_iff)
  then have merge: "(map_of m)(k \<mapsto> v) ++ map_of kvs = map_of m ++ (map_of kvs)(k \<mapsto> v)"
    by (auto simp: map_add_def split: option.splits)
  show ?case using Cons.IH [of "bt_insert k v m"] Cons.prems merge
    by (simp add: kv bt_insert_ok del: fun_upd_apply)
qed simp

lemma bt_of_list_id: "bt_ok m \<Longrightarrow> bt_of_list m = m"
  using bt_of_list_fold [of "[]" m] by (intro bt_ok_eq) (simp_all add: bt_of_list_def bt_ok_distinct)

end
