(* ===== verification/Event_Stream.thy ===== *)
theory Event_Stream
  imports Event_Follow Output_Log Session_Store Session_Commands Std_BTree
begin

text \<open>
  The event stream: cursors (the cursor part of \<open>src/src/events.rs\<close>) and the command that replays and follows
  the event logs of many sessions (\<open>src/src/commands/events.rs\<close>). The answers of the file system are
  arguments of each poll; base64, JSON and the clock are parameters.
\<close>

subsection \<open>Cursors\<close>

definition cursor_version :: u32 where "cursor_version = 1"

datatype cursor_error = CursorBase64 | CursorJson | UnknownVersion u32

record cursor_token =
  ct_v :: u32
  ct_s :: "(bytes \<times> nat) list"

record cursor_codec =
  cc_encode :: "bytes \<Rightarrow> bytes"
  cc_decode :: "bytes \<Rightarrow> bytes option"
  cc_ser :: "cursor_token \<Rightarrow> bytes"
  cc_parse :: "bytes \<Rightarrow> cursor_token option"

definition encode_cursor :: "cursor_codec \<Rightarrow> (bytes \<times> nat) list \<Rightarrow> bytes" where
  "encode_cursor K streams = cc_encode K (cc_ser K \<lparr>ct_v = cursor_version, ct_s = streams\<rparr>)"

definition decode_cursor :: "cursor_codec \<Rightarrow> bytes \<Rightarrow> cursor_error + (bytes \<times> nat) list" where
  "decode_cursor K token =
     (case cc_decode K token of
        None \<Rightarrow> Inl CursorBase64
      | Some bs \<Rightarrow>
          (case cc_parse K bs of
             None \<Rightarrow> Inl CursorJson
           | Some t \<Rightarrow> if ct_v t \<noteq> cursor_version then Inl (UnknownVersion (ct_v t)) else Inr (bt_of_list (ct_s t))))"

subsection \<open>The records of the stream\<close>

record event_filters =
  ef_kinds :: "bytes list"
  ef_sources :: "bytes list"
  ef_since :: "event_timestamp option"

definition passes_filters :: "event_filters \<Rightarrow> bytes \<Rightarrow> bytes \<Rightarrow> event_timestamp \<Rightarrow> bool" where
  "passes_filters f kind source ts \<longleftrightarrow>
     (ef_kinds f = [] \<or> list_ex (\<lambda>p. starts_with p kind) (ef_kinds f)) \<and>
     (ef_sources f = [] \<or> list_ex (\<lambda>p. starts_with p source) (ef_sources f)) \<and>
     (case ef_since f of None \<Rightarrow> True | Some since \<Rightarrow> since \<le> ts)"

datatype out_record = Stored event bytes nat | Derived event_timestamp nat json

fun out_key :: "out_record \<Rightarrow> event_timestamp \<times> nat \<times> nat" where
  "out_key (Stored e rel start) = merge_key e"
| "out_key (Derived ts tie v) = (ts, 0, tie)"

record 'f stream_codec =
  sc_parse :: "bytes \<Rightarrow> event option"
  sc_event :: "event \<Rightarrow> bytes"
  sc_json :: "json \<Rightarrow> bytes"
  sc_value :: "bytes \<Rightarrow> json option"
  sc_log :: "'f log_codec"
  sc_ts :: "'f \<Rightarrow> event_timestamp"

fun to_line :: "'f stream_codec \<Rightarrow> out_record \<Rightarrow> bytes" where
  "to_line C (Stored e rel start) = sc_event C e"
| "to_line C (Derived ts tie v) = sc_json C v"

record batch =
  ba_records :: "out_record list"
  ba_skipped :: nat

subsection \<open>The cursor tracker\<close>

text \<open>How far each segment was read, and the records of it that were read and not yet printed.\<close>

record cursor_tracker =
  tk_read_to :: "(bytes \<times> nat) list"
  tk_pending :: "(bytes \<times> nat list) list"

definition seed_tracker :: "(bytes \<times> nat) list \<Rightarrow> cursor_tracker" where
  "seed_tracker streams = \<lparr>tk_read_to = streams, tk_pending = []\<rparr>"

definition note_read_to :: "bytes \<Rightarrow> nat \<Rightarrow> cursor_tracker \<Rightarrow> cursor_tracker" where
  "note_read_to rel n t = t\<lparr>tk_read_to := bt_insert rel n (tk_read_to t)\<rparr>"

definition pending_starts :: "cursor_tracker \<Rightarrow> bytes \<Rightarrow> nat list" where
  "pending_starts t rel = (case map_of (tk_pending t) rel of Some ss \<Rightarrow> ss | None \<Rightarrow> [])"

definition note_pending :: "bytes \<Rightarrow> nat \<Rightarrow> cursor_tracker \<Rightarrow> cursor_tracker" where
  "note_pending rel start t = t\<lparr>tk_pending := bt_insert rel (insort_insert start (pending_starts t rel)) (tk_pending t)\<rparr>"

definition note_consumed :: "bytes \<Rightarrow> nat \<Rightarrow> cursor_tracker \<Rightarrow> cursor_tracker" where
  "note_consumed rel start t =
     (case map_of (tk_pending t) rel of
        None \<Rightarrow> t
      | Some ss \<Rightarrow>
          let rest = remove1 start ss
          in t\<lparr>tk_pending := (if rest = [] then bt_remove rel (tk_pending t) else bt_insert rel rest (tk_pending t))\<rparr>)"

definition tracker_streams :: "cursor_tracker \<Rightarrow> (bytes \<times> nat) list" where
  "tracker_streams t =
     fold (\<lambda>(rel, ss) m. case ss of [] \<Rightarrow> m | s # _ \<Rightarrow> bt_insert rel s m) (tk_pending t) (tk_read_to t)"

definition tracker_token :: "cursor_codec \<Rightarrow> cursor_tracker \<Rightarrow> bytes" where
  "tracker_token K t = encode_cursor K (tracker_streams t)"

subsection \<open>Reading\<close>

text \<open>The lines of the output log; a line that does not parse is consumed silently.\<close>

function log_loop :: "'f log_codec \<Rightarrow> nat \<Rightarrow> bytes \<Rightarrow> 'f log_line list \<times> nat" where
  "log_loop C at buf =
     (case split_once 10 buf of
        None \<Rightarrow> ([], at)
      | Some (line, rest) \<Rightarrow>
          (let raw = strip_cr line; (ls, c) = log_loop C (at + length line + 1) rest
           in (case (if utf8_valid raw then lc_parse C raw else None) of
                 Some l \<Rightarrow> (l # ls, c)
               | None \<Rightarrow> (ls, c))))"
  by pat_completeness auto

termination
  by (relation "measure (\<lambda>(C, at, buf). length buf)") (auto dest!: split_once_Some)

declare log_loop.simps [simp del]

definition read_log_lines :: "'f log_codec \<Rightarrow> bytes \<Rightarrow> nat \<Rightarrow> 'f log_line list \<times> nat" where
  "read_log_lines C content from = log_loop C from (drop from content)"

definition project_log_line :: "'f stream_codec \<Rightarrow> 'f log_line \<Rightarrow> bytes \<Rightarrow> bytes \<Rightarrow> bytes \<Rightarrow> json option" where
  "project_log_line C l ns name run =
     (if ll_tag l \<noteq> ascii ''O'' \<and> ll_tag l \<noteq> ascii ''E'' then None
      else Some (JObject [
        (ascii ''kind'', JString (if ll_tag l = ascii ''O'' then ascii ''log.stdout'' else ascii ''log.stderr'')),
        (ascii ''ts'', JString (show_timestamp (sc_ts C (ll_ts l)))), (ascii ''derived'', JBool True),
        (ascii ''namespace'', JString ns), (ascii ''session'', JString name), (ascii ''run_id'', JString run),
        (ascii ''source'', JString (ascii ''tendr.sidecar'')),
        (ascii ''data'', JObject [(ascii ''content'', JString (format_raw (sc_log C) l))])]))"

text \<open>
  What a poll finds of a session: its \<open>.jsonl\<close> files if its \<open>events\<close> directory can be listed, the output log if it
  can be read, the log's length, and the record. A file may be gone when it is read.
\<close>

datatype segment_answer = SegContent bytes | SegGone | SegFailed bytes

record session_files =
  sf_segments :: "(bytes \<times> segment_answer) list option"
  sf_log :: "bytes option"
  sf_log_len :: "nat option"
  sf_meta :: "bytes option"

record poll_world =
  pw_sessions :: "bytes + (namespace \<times> session_name) list"
  pw_files :: "namespace \<Rightarrow> session_name \<Rightarrow> session_files"

record stream_reader =
  er_explicit :: "(namespace \<times> session_name) list option"
  er_filters :: event_filters
  er_include_logs :: bool
  er_logs_from_end :: bool
  er_tracker :: cursor_tracker
  er_seg_offsets :: "(bytes \<times> nat) list"
  er_log_offsets :: "(bytes \<times> nat) list"
  er_tie :: nat

definition offset_of :: "(bytes \<times> nat) list \<Rightarrow> bytes \<Rightarrow> nat" where
  "offset_of m rel = (case map_of m rel of Some n \<Rightarrow> n | None \<Rightarrow> 0)"

definition rel_path :: "namespace \<Rightarrow> session_name \<Rightarrow> bytes \<Rightarrow> bytes" where
  "rel_path ns name f = namespace_str ns @ [47] @ session_str name @ ascii ''/events/'' @ f"

definition event_passes :: "event_filters \<Rightarrow> event \<Rightarrow> bool" where
  "event_passes f e = passes_filters f (kind_str (ev_kind e)) (source_str (ev_source e)) (ev_ts e)"

definition take_record :: "bytes \<Rightarrow> segment_record \<Rightarrow> stream_reader \<times> batch \<Rightarrow> stream_reader \<times> batch" where
  "take_record rel sr s = (case s of (r, b) \<Rightarrow>
     if event_passes (er_filters r) (sr_event sr) then
       (r\<lparr>er_tracker := note_pending rel (sr_start sr) (er_tracker r)\<rparr>,
        b\<lparr>ba_records := ba_records b @ [Stored (sr_event sr) rel (sr_start sr)]\<rparr>)
     else (r, b))"

definition read_segment :: "'f stream_codec \<Rightarrow> bytes \<Rightarrow> bytes \<Rightarrow> stream_reader \<times> batch \<Rightarrow> stream_reader \<times> batch" where
  "read_segment C rel content s = (case s of (r, b) \<Rightarrow>
     case read_segment_records (sc_parse C) content (offset_of (er_seg_offsets r) rel) of
       (rs, k, consumed) \<Rightarrow>
         fold (take_record rel) rs
           (r\<lparr>er_seg_offsets := bt_insert rel consumed (er_seg_offsets r),
              er_tracker := note_read_to rel consumed (er_tracker r)\<rparr>,
            b\<lparr>ba_skipped := ba_skipped b + k\<rparr>))"

fun poll_files :: "'f stream_codec \<Rightarrow> namespace \<Rightarrow> session_name \<Rightarrow> (bytes \<times> segment_answer) list
    \<Rightarrow> stream_reader \<times> batch \<Rightarrow> bytes + stream_reader \<times> batch" where
  "poll_files C ns name [] s = Inr s"
| "poll_files C ns name ((f, a) # segs) s =
     (if \<not> utf8_valid f then poll_files C ns name segs s
      else case a of
        SegGone \<Rightarrow> poll_files C ns name segs s
      | SegFailed e \<Rightarrow> Inl e
      | SegContent content \<Rightarrow> poll_files C ns name segs (read_segment C (rel_path ns name f) content s))"

definition poll_segments :: "'f stream_codec \<Rightarrow> session_files \<Rightarrow> namespace \<Rightarrow> session_name
    \<Rightarrow> stream_reader \<times> batch \<Rightarrow> bytes + stream_reader \<times> batch" where
  "poll_segments C fs ns name s =
     (case sf_segments fs of None \<Rightarrow> Inr s | Some segs \<Rightarrow> poll_files C ns name (sort_key fst segs) s)"

definition run_of_meta :: "'f stream_codec \<Rightarrow> bytes option \<Rightarrow> bytes" where
  "run_of_meta C meta_text =
     (case Option.bind meta_text (sc_value C) of
        None \<Rightarrow> []
      | Some v \<Rightarrow> (case as_str (json_index v (ascii ''run_id'')) of Some r \<Rightarrow> r | None \<Rightarrow> []))"

definition take_log_line :: "'f stream_codec \<Rightarrow> namespace \<Rightarrow> session_name \<Rightarrow> bytes \<Rightarrow> 'f log_line
    \<Rightarrow> stream_reader \<times> batch \<Rightarrow> stream_reader \<times> batch" where
  "take_log_line C ns name run l s = (case s of (r, b) \<Rightarrow>
     case project_log_line C l (namespace_str ns) (session_str name) run of
       None \<Rightarrow> s
     | Some v \<Rightarrow>
         let kind = (if ll_tag l = ascii ''O'' then ascii ''log.stdout'' else ascii ''log.stderr'')
         in if passes_filters (er_filters r) kind (ascii ''tendr.sidecar'') (sc_ts C (ll_ts l)) then
              (r\<lparr>er_tie := Suc (er_tie r)\<rparr>,
               b\<lparr>ba_records := ba_records b @ [Derived (sc_ts C (ll_ts l)) (er_tie r) v]\<rparr>)
            else s)"

definition poll_log :: "'f stream_codec \<Rightarrow> session_files \<Rightarrow> namespace \<Rightarrow> session_name
    \<Rightarrow> stream_reader \<times> batch \<Rightarrow> stream_reader \<times> batch" where
  "poll_log C fs ns name s = (case s of (r, b) \<Rightarrow>
     let key = namespace_str ns @ [47] @ session_str name;
         from = (case map_of (er_log_offsets r) key of
                   Some n \<Rightarrow> n
                 | None \<Rightarrow> if er_logs_from_end r then (case sf_log_len fs of Some n \<Rightarrow> n | None \<Rightarrow> 0) else 0)
     in (case sf_log fs of
           None \<Rightarrow> s
         | Some content \<Rightarrow>
             (case read_log_lines (sc_log C) content from of
                (ls, consumed) \<Rightarrow>
                  fold (take_log_line C ns name (run_of_meta C (sf_meta fs))) ls
                    (r\<lparr>er_log_offsets := bt_insert key consumed (er_log_offsets r)\<rparr>, b))))"

fun poll_targets :: "'f stream_codec \<Rightarrow> poll_world \<Rightarrow> (namespace \<times> session_name) list
    \<Rightarrow> stream_reader \<times> batch \<Rightarrow> bytes + stream_reader \<times> batch" where
  "poll_targets C w [] s = Inr s"
| "poll_targets C w ((ns, name) # targets) s =
     (case poll_segments C (pw_files w ns name) ns name s of
        Inl e \<Rightarrow> Inl e
      | Inr s' \<Rightarrow>
          poll_targets C w targets
            (if er_include_logs (fst s') then poll_log C (pw_files w ns name) ns name s' else s'))"

definition poll :: "'f stream_codec \<Rightarrow> poll_world \<Rightarrow> stream_reader \<Rightarrow> bytes + stream_reader \<times> batch" where
  "poll C w r =
     (case (case er_explicit r of Some ts \<Rightarrow> Inr ts | None \<Rightarrow> pw_sessions w) of
        Inl e \<Rightarrow> Inl e
      | Inr targets \<Rightarrow> poll_targets C w targets (r, \<lparr>ba_records = [], ba_skipped = 0\<rparr>))"

subsection \<open>Printing\<close>

text \<open>
  What was written to the buffered standard output, in order; \<open>pp_ok\<close> answers each write and flush by
  its position. What the consumer gets is a prefix of it.
\<close>

datatype out_item = RecordItem out_record | BookmarkItem event_timestamp bytes

fun item_line :: "'f stream_codec \<Rightarrow> out_item \<Rightarrow> bytes" where
  "item_line C (RecordItem r) = to_line C r"
| "item_line C (BookmarkItem ts tok) =
     sc_json C (JObject [(ascii ''kind'', JString (ascii ''cursor.bookmark'')), (ascii ''ts'', JString (show_timestamp ts)),
       (ascii ''cursor'', JString tok), (ascii ''derived'', JBool True)])"

record pipe =
  pp_ok :: "nat \<Rightarrow> bool"
  pp_now :: "nat \<Rightarrow> event_timestamp"

record emission =
  em_items :: "out_item list"
  em_ops :: nat
  em_count :: nat

definition bookmark_every_records :: nat where "bookmark_every_records = 100"
definition bookmark_idle_ms :: nat where "bookmark_idle_ms = 5000"

definition write_bookmark :: "cursor_codec \<Rightarrow> pipe \<Rightarrow> cursor_tracker \<Rightarrow> emission \<Rightarrow> bool \<times> emission" where
  "write_bookmark K P t em =
     (if pp_ok P (em_ops em) \<and> pp_ok P (Suc (em_ops em)) then
        (True, \<lparr>em_items = em_items em @ [BookmarkItem (pp_now P (em_ops em)) (tracker_token K t)],
                em_ops = em_ops em + 2, em_count = 0\<rparr>)
      else (False, em))"

definition consume_record :: "out_record \<Rightarrow> cursor_tracker \<Rightarrow> cursor_tracker" where
  "consume_record rec t = (case rec of Stored e rel start \<Rightarrow> note_consumed rel start t | Derived ts tie v \<Rightarrow> t)"

fun emit_loop :: "cursor_codec \<Rightarrow> pipe \<Rightarrow> bool \<Rightarrow> out_record list \<Rightarrow> cursor_tracker \<times> emission
    \<Rightarrow> bool \<times> cursor_tracker \<times> emission" where
  "emit_loop K P cursors [] (t, em) = (pp_ok P (em_ops em), t, em\<lparr>em_ops := Suc (em_ops em)\<rparr>)"
| "emit_loop K P cursors (rec # recs) (t, em) =
     (if \<not> pp_ok P (em_ops em) then (False, t, em)
      else let t' = consume_record rec t;
               em' = \<lparr>em_items = em_items em @ [RecordItem rec], em_ops = Suc (em_ops em), em_count = Suc (em_count em)\<rparr>
           in if cursors \<and> bookmark_every_records \<le> em_count em' then
                (case write_bookmark K P t' em' of
                   (False, em'') \<Rightarrow> (False, t', em'')
                 | (True, em'') \<Rightarrow> emit_loop K P cursors recs (t', em''))
              else emit_loop K P cursors recs (t', em'))"

text \<open>With a limit, the head of the sorted batch is consumed without being printed.\<close>

definition emit_batch :: "cursor_codec \<Rightarrow> pipe \<Rightarrow> bool \<Rightarrow> nat option \<Rightarrow> out_record list \<Rightarrow> cursor_tracker \<times> emission
    \<Rightarrow> bool \<times> cursor_tracker \<times> emission" where
  "emit_batch K P cursors limit recs s =
     (let merged = sort_key out_key recs;
          cut = (case limit of Some n \<Rightarrow> length merged - n | None \<Rightarrow> 0)
      in emit_loop K P cursors (drop cut merged) (fold consume_record (take cut merged) (fst s), snd s))"

subsection \<open>The command\<close>

record events_options =
  eo_namespace :: "bytes option"
  eo_sessions :: "bytes list"
  eo_kinds :: "bytes list"
  eo_sources :: "bytes list"
  eo_follow :: bool
  eo_from_now :: bool
  eo_from_cursor :: "bytes option"
  eo_since :: "event_timestamp option"
  eo_last :: "nat option"
  eo_cursors :: bool
  eo_include_logs :: bool
  eo_strict :: bool
  eo_ready_file :: bool

datatype events_end = EventsReturned | EventsError bytes | CursorGone "bytes list" | StrictSkipped nat

text \<open>The targets of \<open>--session\<close>: \<open>NAME\<close> or \<open>NS/NAME\<close>, those of another name space left out.\<close>

fun explicit_targets :: "namespace option \<Rightarrow> bytes list \<Rightarrow> bytes + (namespace \<times> session_name) list" where
  "explicit_targets only [] = Inr []"
| "explicit_targets only (spec # specs) =
     (let (ns, name) = (case split_once 47 spec of Some p \<Rightarrow> p | None \<Rightarrow> (ascii ''default'', spec))
      in case name_result ''namespace'' (new_namespace ns) of
           Inl e \<Rightarrow> Inl e
         | Inr namespace \<Rightarrow>
             if only \<noteq> None \<and> only \<noteq> Some namespace then explicit_targets only specs
             else (case name_result ''session name'' (new_session_name name) of
                     Inl e \<Rightarrow> Inl e
                   | Inr n \<Rightarrow> map_sum id ((#) (namespace, n)) (explicit_targets only specs)))"

definition stream_gone :: "(bytes \<Rightarrow> bool) \<Rightarrow> bytes \<Rightarrow> bool" where
  "stream_gone is_file rel \<longleftrightarrow> starts_with [47] rel \<or> ascii ''..'' \<in> set (split_on 47 rel) \<or> \<not> is_file rel"

record stream_env =
  sn_is_file :: "bytes \<Rightarrow> bool"
  sn_history :: poll_world
  sn_replay :: poll_world
  sn_pipe :: pipe
  sn_ready :: "bytes option"
  sn_rounds :: "(poll_world \<times> nat) list"

text \<open>The rounds of a follower: what each poll finds, and how long ago something was written when it is over.\<close>

fun follow_rounds :: "'f stream_codec \<Rightarrow> cursor_codec \<Rightarrow> pipe \<Rightarrow> events_options \<Rightarrow> (poll_world \<times> nat) list
    \<Rightarrow> stream_reader \<times> emission \<Rightarrow> (events_end \<times> emission) option" where
  "follow_rounds C K P opts [] (r, em) = None"
| "follow_rounds C K P opts ((w, idle) # rounds) (r, em) =
     (case poll C w r of
        Inl e \<Rightarrow> Some (EventsError e, em)
      | Inr (r1, b) \<Rightarrow>
          (case emit_batch K P (eo_cursors opts) None (ba_records b) (er_tracker r1, em) of
             (False, t, em1) \<Rightarrow> Some (EventsReturned, em1)
           | (True, t, em1) \<Rightarrow>
               if eo_strict opts \<and> 0 < ba_skipped b then Some (StrictSkipped (ba_skipped b), em1)
               else if eo_cursors opts \<and> bookmark_idle_ms \<le> idle then
                 (case write_bookmark K P t em1 of
                    (False, em2) \<Rightarrow> Some (EventsReturned, em2)
                  | (True, em2) \<Rightarrow> follow_rounds C K P opts rounds (r1\<lparr>er_tracker := t\<rparr>, em2))
               else follow_rounds C K P opts rounds (r1\<lparr>er_tracker := t\<rparr>, em1)))"

definition seeded_offsets :: "cursor_codec \<Rightarrow> (bytes \<Rightarrow> bool) \<Rightarrow> bytes option \<Rightarrow> bytes list + (bytes \<times> nat) list" where
  "seeded_offsets K is_file from_cursor =
     (case from_cursor of
        None \<Rightarrow> Inr []
      | Some tok \<Rightarrow>
          (case decode_cursor K tok of
             Inl e \<Rightarrow> Inl [tok]
           | Inr streams \<Rightarrow>
               let gone = filter (stream_gone is_file) (map fst streams)
               in if gone \<noteq> [] then Inl gone else Inr streams))"

definition exclusive_starts :: "events_options \<Rightarrow> bool" where
  "exclusive_starts opts \<longleftrightarrow>
     length (filter id [eo_from_now opts, eo_from_cursor opts \<noteq> None, eo_since opts \<noteq> None, eo_last opts \<noteq> None]) \<le> 1"

text \<open>The replay and what comes after it; \<open>None\<close> while a follower's rounds go on.\<close>

definition stream_events :: "'f stream_codec \<Rightarrow> cursor_codec \<Rightarrow> stream_env \<Rightarrow> events_options \<Rightarrow> stream_reader
    \<Rightarrow> (events_end \<times> emission) option" where
  "stream_events C K e opts r =
     (let em0 = \<lparr>em_items = [], em_ops = 0, em_count = 0\<rparr>; P = sn_pipe e
      in case poll C (sn_replay e) r of
           Inl err \<Rightarrow> Some (EventsError err, em0)
         | Inr (r1, b) \<Rightarrow>
             (case emit_batch K P (eo_cursors opts) (eo_last opts) (ba_records b) (er_tracker r1, em0) of
                (False, t, em) \<Rightarrow> Some (EventsReturned, em)
              | (True, t, em) \<Rightarrow>
                  if eo_strict opts \<and> 0 < ba_skipped b then Some (StrictSkipped (ba_skipped b), em)
                  else if \<not> eo_follow opts then
                    Some (EventsReturned, if eo_cursors opts then snd (write_bookmark K P t em) else em)
                  else if eo_ready_file opts then
                    (if \<not> pp_ok P (em_ops em) then Some (EventsReturned, em)
                     else let em' = em\<lparr>em_ops := Suc (em_ops em)\<rparr>
                          in case sn_ready e of
                               Some err \<Rightarrow> Some (EventsError err, em')
                             | None \<Rightarrow> follow_rounds C K P opts (sn_rounds e) (r1\<lparr>er_tracker := t\<rparr>, em'))
                  else follow_rounds C K P opts (sn_rounds e) (r1\<lparr>er_tracker := t\<rparr>, em)))"

definition new_reader :: "events_options \<Rightarrow> (namespace \<times> session_name) list option \<Rightarrow> (bytes \<times> nat) list \<Rightarrow> stream_reader" where
  "new_reader opts targets streams =
     \<lparr>er_explicit = targets,
      er_filters = \<lparr>ef_kinds = eo_kinds opts, ef_sources = eo_sources opts, ef_since = eo_since opts\<rparr>,
      er_include_logs = eo_include_logs opts, er_logs_from_end = (eo_from_cursor opts \<noteq> None),
      er_tracker = seed_tracker streams, er_seg_offsets = streams, er_log_offsets = [], er_tie = 0\<rparr>"

definition skip_history :: "'f stream_codec \<Rightarrow> poll_world \<Rightarrow> stream_reader \<Rightarrow> bytes + stream_reader" where
  "skip_history C w r =
     (case poll C w r of
        Inl e \<Rightarrow> Inl e
      | Inr (r1, b) \<Rightarrow> Inr (r1\<lparr>er_tracker := fold consume_record (ba_records b) (er_tracker r1)\<rparr>))"

definition cmd_events :: "'f stream_codec \<Rightarrow> cursor_codec \<Rightarrow> stream_env \<Rightarrow> events_options \<Rightarrow> (events_end \<times> emission) option" where
  "cmd_events C K e opts =
     (let none = \<lparr>em_items = [], em_ops = 0, em_count = 0\<rparr>
      in if \<not> exclusive_starts opts then
           Some (EventsError (ascii ''--from-now, --from-cursor, --since, and --last are mutually exclusive''), none)
         else case (case eo_namespace opts of None \<Rightarrow> Inr None
                    | Some n \<Rightarrow> map_sum id Some (name_result ''namespace'' (new_namespace n))) of
           Inl err \<Rightarrow> Some (EventsError err, none)
         | Inr only \<Rightarrow>
             (case (if eo_sessions opts = [] then Inr None else map_sum id Some (explicit_targets only (eo_sessions opts))) of
                Inl err \<Rightarrow> Some (EventsError err, none)
              | Inr targets \<Rightarrow>
                  (case seeded_offsets K (sn_is_file e) (eo_from_cursor opts) of
                     Inl gone \<Rightarrow> Some (CursorGone gone, none)
                   | Inr streams \<Rightarrow>
                       (case (if eo_from_now opts then skip_history C (sn_history e) (new_reader opts targets streams)
                              else Inr (new_reader opts targets streams)) of
                          Inl err \<Rightarrow> Some (EventsError err, none)
                        | Inr r \<Rightarrow> stream_events C K e opts r))))"

end
