(* ===== verification/Event_Stream_Laws.thy ===== *)
theory Event_Stream_Laws
  imports Event_Stream "HOL-Library.Sublist" "HOL-Library.Countable"
begin

text \<open>
  Resuming the event stream from a bookmark: what was printed before the bookmark and what a later
  replay prints from its cursor are together everything.
\<close>

subsection \<open>Boundaries of lines\<close>

definition at_line :: "bytes \<Rightarrow> nat \<Rightarrow> bool" where
  "at_line c n \<longleftrightarrow> n \<le> length c \<and> (n = 0 \<or> c ! (n - 1) = 0x0a)"

lemma at_line_prefix: "prefix c c' \<Longrightarrow> at_line c n \<Longrightarrow> at_line c' n"
  by (cases n) (auto simp: at_line_def prefix_def nth_append)

lemma segment_loop_record:
  assumes "segment_loop parse at buf = (rs, k, c)"
  shows "sorted_wrt (\<lambda>x y. sr_start x < sr_start y) rs"
    "(\<forall>r\<in>set rs. at \<le> sr_start r \<and> sr_start r < c \<and> at_line buf (sr_start r - at))" "at \<le> c" "at_line buf (c - at)"
proof -
  have "sorted_wrt (\<lambda>x y. sr_start x < sr_start y) (fst (segment_loop parse at buf)) \<and>
      (\<forall>r\<in>set (fst (segment_loop parse at buf)). at \<le> sr_start r \<and> sr_start r < snd (snd (segment_loop parse at buf)) \<and>
         at_line buf (sr_start r - at)) \<and>
      at \<le> snd (snd (segment_loop parse at buf)) \<and> at_line buf (snd (snd (segment_loop parse at buf)) - at)"
  proof (induction parse at buf rule: segment_loop.induct)
    case (1 parse at buf)
    show ?case
    proof (cases "split_once 0x0a buf")
      case None
      then show ?thesis by (simp add: segment_loop_None at_line_def)
    next
      case (Some lr)
      obtain line rest where s: "split_once 0x0a buf = Some (line, rest)" using Some by (cases lr) simp
      then have b: "buf = line @ 0x0a # rest" using split_once_Some by fastforce
      let ?stop = "at + length line + 1"
      obtain rs k c where l: "segment_loop parse ?stop rest = (rs, k, c)" by (cases "segment_loop parse ?stop rest")
      have IH: "sorted_wrt (\<lambda>x y. sr_start x < sr_start y) rs" "?stop \<le> c" "at_line rest (c - ?stop)"
          "\<forall>r\<in>set rs. ?stop \<le> sr_start r \<and> sr_start r < c \<and> at_line rest (sr_start r - ?stop)"
        using "1.IH" [OF s refl refl] by (simp_all add: l [simplified])
      have shift: "at_line buf (n - at)" if "?stop \<le> n" "at_line rest (n - ?stop)" for n
        using that by (auto simp: at_line_def b nth_append nth_Cons')
      have "at_line buf (c - at)" using shift IH(2,3) by blast
      moreover have "\<forall>r\<in>set rs. at \<le> sr_start r \<and> sr_start r < c \<and> at_line buf (sr_start r - at)"
        using IH(4) shift by (meson add_leD1 order.trans le_add1)
      moreover have "at_line buf 0" by (simp add: at_line_def)
      ultimately show ?thesis
        unfolding segment_loop_Some [OF s] l
        using IH by (auto simp: line_result_def Let_def split: option.splits)
    qed
  qed
  then show "sorted_wrt (\<lambda>x y. sr_start x < sr_start y) rs"
    "(\<forall>r\<in>set rs. at \<le> sr_start r \<and> sr_start r < c \<and> at_line buf (sr_start r - at))" "at \<le> c" "at_line buf (c - at)"
    using assms by simp_all
qed

lemma segment_loop_line:
  assumes "at_line buf n"
  shows "snd (snd (segment_loop parse at (take n buf))) = at + n"
proof -
  obtain rs k c where l: "segment_loop parse at (take n buf) = (rs, k, c)" by (cases "segment_loop parse at (take n buf)")
  have b: "at \<le> c" "c \<le> at + n" using segment_loop_bounds [OF l] assms by (simp_all add: at_line_def)
  show ?thesis
  proof (cases "c < at + n")
    case True
    then have "n \<noteq> 0" "c - at \<le> n - 1" using b(1) by simp_all
    then have "buf ! (n - 1) = drop (c - at) (take n buf) ! (n - 1 - (c - at))" "n - 1 - (c - at) < length (drop (c - at) (take n buf))"
      using assms by (auto simp: at_line_def)
    then have "0x0a \<in> set (drop (c - at) (take n buf))" using assms \<open>n \<noteq> 0\<close> by (metis at_line_def nth_mem)
    then show ?thesis using segment_loop_tail [of parse at "take n buf"] by (simp add: l)
  qed (use b l in simp)
qed

lemma segment_loop_split:
  assumes "at_line buf n"
  shows "segment_loop parse at buf =
    then_read (segment_loop parse at (take n buf)) (segment_loop parse (at + n) (drop n buf))"
  using segment_loop_append [of parse at "take n buf" "drop n buf"] assms
  by (simp add: Let_def segment_loop_line at_line_def)

text \<open>The records of a segment, and those that start in a range.\<close>

definition segment_records :: "(bytes \<Rightarrow> event option) \<Rightarrow> bytes \<Rightarrow> segment_record list" where
  "segment_records parse c = fst (segment_loop parse 0 c)"

definition between :: "nat \<Rightarrow> nat \<Rightarrow> segment_record list \<Rightarrow> segment_record list" where
  "between n m rs = filter (\<lambda>r. n \<le> sr_start r \<and> sr_start r < m) rs"

lemma between_split:
  assumes "sorted_wrt (\<lambda>x y. sr_start x < sr_start y) rs" "n \<le> m" "m \<le> l"
  shows "between n l rs = between n m rs @ between m l rs"
  using assms(1)
proof (induction rs)
  case (Cons r rs)
  then have IH: "between n l rs = between n m rs @ between m l rs" by simp
  have "between n m rs = []" if "m \<le> sr_start r"
    using Cons.prems that by (auto simp: between_def filter_empty_conv)
  with IH show ?case using assms(2,3) by (auto simp: between_def)
qed (simp add: between_def)

lemma segment_records_sorted: "sorted_wrt (\<lambda>x y. sr_start x < sr_start y) (segment_records parse c)"
  by (cases "segment_loop parse 0 c") (simp add: segment_records_def segment_loop_record(1))

lemma segment_records_start: "r \<in> set (segment_records parse c) \<Longrightarrow> at_line c (sr_start r)"
  by (cases "segment_loop parse 0 c") (auto simp: segment_records_def dest!: segment_loop_record(2))

text \<open>A read of a prefix of a segment gives the records of the segment in a range that ends with a line.\<close>

lemma read_prefix:
  assumes "prefix c' c" "at_line c n" "read_segment_records parse c' n = (rs, k, m)"
  shows "rs = between n m (segment_records parse c)" "n \<le> m" "at_line c m"
proof -
  obtain d where c: "c = c' @ d" using assms(1) by (auto simp: prefix_def)
  have l: "segment_loop parse n (drop n c') = (rs, k, m)" using assms(3) by (simp add: read_segment_records_def)
  note read = segment_loop_record [OF l]
  show "n \<le> m" using read(3) by blast
  show m: "at_line c m"
  proof (cases "n \<le> length c'")
    case True
    show ?thesis
    proof (cases "m = n")
      case False
      then have "m - n \<noteq> 0" "m \<le> length c'" "c' ! (m - 1) = 0x0a"
        using read(3,4) True by (auto simp: at_line_def)
      then show ?thesis by (auto simp: at_line_def c nth_append)
    qed (use assms(2) in simp)
  next
    case False
    then have "m = n" using l by (simp add: segment_loop_None)
    then show ?thesis using assms(2) by simp
  qed
  have tail: "drop n c = drop n c' @ drop (n - length c') d" by (simp add: c)
  have "segment_loop parse 0 c = then_read (segment_loop parse 0 (take n c)) (segment_loop parse n (drop n c))"
    using segment_loop_split [OF assms(2), of parse 0] by simp
  moreover have "segment_loop parse n (drop n c) =
      then_read (rs, k, m) (segment_loop parse m (drop (m - n) (drop n c)))"
  proof (cases "n \<le> length c'")
    case True
    then show ?thesis using segment_loop_append [of parse n "drop n c'" d] l read(3) by (simp add: tail Let_def)
  next
    case False
    then have "m = n" "rs = []" "k = 0" using l by (simp_all add: segment_loop_None)
    then show ?thesis by (simp add: then_read_def)
  qed
  moreover have "drop (m - n) (drop n c) = drop m c" using read(3) by simp
  ultimately have parts: "segment_records parse c =
      fst (segment_loop parse 0 (take n c)) @ rs @ fst (segment_loop parse m (drop m c))"
    by (simp add: segment_records_def then_read_def)
  have 1: "between n m (fst (segment_loop parse 0 (take n c))) = []"
    using segment_loop_record(2) [of parse 0 "take n c"] segment_loop_line [OF assms(2), of parse 0]
    by (cases "segment_loop parse 0 (take n c)") (fastforce simp: between_def filter_empty_conv)
  have 2: "between n m (fst (segment_loop parse m (drop m c))) = []"
    using segment_loop_record(2) [of parse m "drop m c"]
    by (cases "segment_loop parse m (drop m c)") (fastforce simp: between_def filter_empty_conv)
  have 3: "between n m rs = rs" using read(2) by (simp add: between_def)
  show "rs = between n m (segment_records parse c)"
    unfolding parts using 1 2 3 by (simp add: between_def)
qed

subsection \<open>The tracker\<close>

definition tracker_ok :: "cursor_tracker \<Rightarrow> bool" where
  "tracker_ok t \<longleftrightarrow> bt_ok (tk_read_to t) \<and> bt_ok (tk_pending t) \<and>
     (\<forall>rel ss. map_of (tk_pending t) rel = Some ss \<longrightarrow> ss \<noteq> [] \<and> sorted ss \<and> distinct ss)"

lemma pending_starts_ok: "tracker_ok t \<Longrightarrow> sorted (pending_starts t rel) \<and> distinct (pending_starts t rel)"
  by (auto simp: tracker_ok_def pending_starts_def split: option.split)

lemma insort_insert_nonempty: "insort_insert x xs \<noteq> []"
  by (auto simp: insort_insert_key_def)

lemma note_pending_ok: "tracker_ok t \<Longrightarrow> tracker_ok (note_pending rel s t)"
  using pending_starts_ok [of t rel]
  by (auto simp: tracker_ok_def note_pending_def bt_insert_ok insort_insert_nonempty sorted_insort_insert distinct_insort_insert)

lemma note_consumed_ok: "tracker_ok t \<Longrightarrow> tracker_ok (note_consumed rel s t)"
  by (auto simp: tracker_ok_def note_consumed_def Let_def bt_insert_ok bt_remove_ok sorted_remove1 split: option.split)

lemma note_read_to_ok: "tracker_ok t \<Longrightarrow> tracker_ok (note_read_to rel n t)"
  by (simp add: tracker_ok_def note_read_to_def bt_insert_ok)

lemma seed_tracker_ok: "bt_ok streams \<Longrightarrow> tracker_ok (seed_tracker streams)"
  by (simp add: tracker_ok_def seed_tracker_def)

lemma note_pending_starts:
  "set (pending_starts (note_pending rel s t) rel') = (if rel' = rel then insert s (set (pending_starts t rel)) else set (pending_starts t rel'))"
  by (auto simp: note_pending_def pending_starts_def set_insort_insert)

lemma note_consumed_starts:
  assumes "tracker_ok t"
  shows "set (pending_starts (note_consumed rel s t) rel') =
    (if rel' = rel then set (pending_starts t rel) - {s} else set (pending_starts t rel'))"
proof (cases "map_of (tk_pending t) rel")
  case (Some ss)
  then have "distinct ss" using assms by (simp add: tracker_ok_def)
  then have rest: "set ss - {s} = set (remove1 s ss)" by (simp add: set_remove1_eq)
  have starts: "set (pending_starts t rel) = set ss" by (simp add: pending_starts_def Some)
  show ?thesis
    unfolding starts rest
    by (cases "remove1 s ss = []") (simp_all add: note_consumed_def pending_starts_def Let_def Some)
qed (simp add: note_consumed_def pending_starts_def)

lemma tracker_frame [simp]:
  "tk_read_to (note_pending rel s t) = tk_read_to t" "tk_read_to (note_consumed rel s t) = tk_read_to t"
  "tk_read_to (note_read_to rel n t) = bt_insert rel n (tk_read_to t)"
  "pending_starts (note_read_to rel n t) rel' = pending_starts t rel'" "tk_read_to (seed_tracker m) = m"
  "pending_starts (seed_tracker m) rel' = []"
  by (auto simp: note_pending_def note_consumed_def note_read_to_def pending_starts_def seed_tracker_def Let_def split: option.split)

text \<open>The token resumes each segment at its earliest unprinted record, else where reading stopped.\<close>

lemma tracker_streams_fold:
  assumes "bt_ok m" "distinct (map fst ps)"
  shows "bt_ok (fold (\<lambda>(rel, ss) m. case ss of [] \<Rightarrow> m | s # _ \<Rightarrow> bt_insert rel s m) ps m) \<and>
    map_of (fold (\<lambda>(rel, ss) m. case ss of [] \<Rightarrow> m | s # _ \<Rightarrow> bt_insert rel s m) ps m) rel =
      (case map_of ps rel of Some (s # _) \<Rightarrow> Some s | _ \<Rightarrow> map_of m rel)"
  using assms
proof (induction ps arbitrary: m)
  case (Cons p ps)
  obtain r ss where p: "p = (r, ss)" by (cases p)
  have none: "map_of ps r = None" using Cons.prems(2) by (simp add: p map_of_eq_None_iff)
  show ?case
  proof (cases ss)
    case Nil
    then show ?thesis using Cons.IH [OF Cons.prems(1)] Cons.prems(2) none by (auto simp: p)
  next
    case (Cons s ss')
    have d: "distinct (map fst ps)" using Cons.prems(2) by simp
    show ?thesis
      using Cons.IH [OF bt_insert_ok [OF Cons.prems(1)] d, of r s] none by (auto simp: p Cons split: list.split option.split)
  qed
qed simp

lemma tracker_streams_at:
  assumes "tracker_ok t"
  shows "bt_ok (tracker_streams t)"
    "offset_of (tracker_streams t) rel =
       (if pending_starts t rel = [] then offset_of (tk_read_to t) rel else Min (set (pending_starts t rel)))"
proof -
  note streams = tracker_streams_fold [of "tk_read_to t" "tk_pending t", folded tracker_streams_def]
  have ok: "bt_ok (tk_read_to t)" "distinct (map fst (tk_pending t))"
    using assms by (simp_all add: tracker_ok_def bt_ok_distinct)
  show "bt_ok (tracker_streams t)" using streams [OF ok] by blast
  have least: "Min (set (s # ss)) = s" if "sorted (s # ss)" for s :: nat and ss
    using that by (intro Min_eqI) auto
  show "offset_of (tracker_streams t) rel =
       (if pending_starts t rel = [] then offset_of (tk_read_to t) rel else Min (set (pending_starts t rel)))"
    using conjunct2 [OF streams [OF ok, of rel]] pending_starts_ok [OF assms, of rel]
    by (auto simp: offset_of_def pending_starts_def least simp del: list.set split: option.splits list.splits)
qed

subsection \<open>Polling\<close>

text \<open>
  \<open>F\<close> gives each segment's final content: what a poll finds is a prefix of it. \<open>stored_in\<close> are the records that
  a range of it holds and that pass the filters.
\<close>

definition stored_in :: "event_filters \<Rightarrow> (bytes \<Rightarrow> event option) \<Rightarrow> (bytes \<Rightarrow> bytes) \<Rightarrow> bytes \<Rightarrow> nat \<Rightarrow> nat \<Rightarrow> out_record list" where
  "stored_in f parse F rel n m =
     map (\<lambda>r. Stored (sr_event r) rel (sr_start r))
       (filter (\<lambda>r. event_passes f (sr_event r)) (between n m (segment_records parse (F rel))))"

fun of_segment :: "bytes \<Rightarrow> out_record \<Rightarrow> bool" where
  "of_segment rel (Stored e rel' s) \<longleftrightarrow> rel' = rel"
| "of_segment rel (Derived ts tie v) \<longleftrightarrow> False"

fun start_of :: "out_record \<Rightarrow> nat" where
  "start_of (Stored e rel s) = s"
| "start_of (Derived ts tie v) = 0"

definition world_within :: "(bytes \<Rightarrow> bytes) \<Rightarrow> poll_world \<Rightarrow> bool" where
  "world_within F w \<longleftrightarrow> (\<forall>ns name segs f c. sf_segments (pw_files w ns name) = Some segs \<longrightarrow>
     (f, SegContent c) \<in> set segs \<longrightarrow> prefix c (F (rel_path ns name f)))"

definition reader_ok :: "(bytes \<Rightarrow> bytes) \<Rightarrow> stream_reader \<Rightarrow> bool" where
  "reader_ok F r \<longleftrightarrow> tracker_ok (er_tracker r) \<and> tk_read_to (er_tracker r) = er_seg_offsets r \<and>
     (\<forall>rel. at_line (F rel) (offset_of (er_seg_offsets r) rel))"

definition advanced :: "(bytes \<Rightarrow> event option) \<Rightarrow> (bytes \<Rightarrow> bytes) \<Rightarrow> stream_reader \<times> batch \<Rightarrow> stream_reader \<times> batch \<Rightarrow> bool" where
  "advanced parse F s s' \<longleftrightarrow> reader_ok F (fst s') \<and> er_filters (fst s') = er_filters (fst s) \<and> er_explicit (fst s') = er_explicit (fst s) \<and>
     (\<forall>rel. offset_of (er_seg_offsets (fst s)) rel \<le> offset_of (er_seg_offsets (fst s')) rel \<and>
        filter (of_segment rel) (ba_records (snd s')) = filter (of_segment rel) (ba_records (snd s)) @
          stored_in (er_filters (fst s)) parse F rel (offset_of (er_seg_offsets (fst s)) rel) (offset_of (er_seg_offsets (fst s')) rel) \<and>
        set (pending_starts (er_tracker (fst s')) rel) = set (pending_starts (er_tracker (fst s)) rel) \<union>
          start_of ` set (stored_in (er_filters (fst s)) parse F rel (offset_of (er_seg_offsets (fst s)) rel) (offset_of (er_seg_offsets (fst s')) rel)))"

lemma stored_in_split:
  "n \<le> m \<Longrightarrow> m \<le> l \<Longrightarrow> stored_in f parse F rel n l = stored_in f parse F rel n m @ stored_in f parse F rel m l"
  by (simp add: stored_in_def between_split [OF segment_records_sorted, of n m l])

lemma stored_in_empty [simp]: "stored_in f parse F rel n n = []"
  by (simp add: stored_in_def between_def)

lemma advanced_refl: "reader_ok F (fst s) \<Longrightarrow> advanced parse F s s"
  by (simp add: advanced_def)

lemma advanced_trans: "advanced parse F s s' \<Longrightarrow> advanced parse F s' s'' \<Longrightarrow> advanced parse F s s''"
proof -
  assume a: "advanced parse F s s'" "advanced parse F s' s''"
  have "stored_in (er_filters (fst s)) parse F rel (offset_of (er_seg_offsets (fst s)) rel) (offset_of (er_seg_offsets (fst s'')) rel) =
      stored_in (er_filters (fst s)) parse F rel (offset_of (er_seg_offsets (fst s)) rel) (offset_of (er_seg_offsets (fst s')) rel) @
      stored_in (er_filters (fst s)) parse F rel (offset_of (er_seg_offsets (fst s')) rel) (offset_of (er_seg_offsets (fst s'')) rel)" for rel
    using a by (intro stored_in_split) (simp_all add: advanced_def)
  then show ?thesis using a unfolding advanced_def by (auto intro: order_trans)
qed

lemma take_records:
  "fold (take_record rel) rs (r, b) =
     (r\<lparr>er_tracker := fold (note_pending rel) (map sr_start (filter (\<lambda>x. event_passes (er_filters r) (sr_event x)) rs)) (er_tracker r)\<rparr>,
      b\<lparr>ba_records := ba_records b @
         map (\<lambda>x. Stored (sr_event x) rel (sr_start x)) (filter (\<lambda>x. event_passes (er_filters r) (sr_event x)) rs)\<rparr>)"
  by (induction rs arbitrary: r b) (simp_all add: take_record_def)

lemma fold_note_pending:
  "tracker_ok t \<Longrightarrow> tracker_ok (fold (note_pending rel) ss t) \<and> tk_read_to (fold (note_pending rel) ss t) = tk_read_to t \<and>
   set (pending_starts (fold (note_pending rel) ss t) rel') =
     (if rel' = rel then set (pending_starts t rel) \<union> set ss else set (pending_starts t rel'))"
  by (induction ss arbitrary: t) (auto simp: note_pending_ok note_pending_starts)

lemma offset_of_insert [simp]: "offset_of (bt_insert rel n m) rel' = (if rel' = rel then n else offset_of m rel')"
  by (simp add: offset_of_def)

lemma read_segment_advanced:
  assumes "prefix content (F rel)" "reader_ok F (fst s)"
  shows "advanced (sc_parse C) F s (read_segment C rel content s)"
    "content = F rel \<Longrightarrow> snd (snd (segment_loop (sc_parse C) 0 (F rel))) \<le>
       offset_of (er_seg_offsets (fst (read_segment C rel content s))) rel"
proof -
  obtain r b where s: "s = (r, b)" by (cases s)
  let ?n = "offset_of (er_seg_offsets r) rel"
  obtain rs k m where l: "read_segment_records (sc_parse C) content ?n = (rs, k, m)" by (metis prod_cases3)
  have ok: "tracker_ok (er_tracker r)" "tk_read_to (er_tracker r) = er_seg_offsets r" "at_line (F rel) ?n"
    "\<And>rel. at_line (F rel) (offset_of (er_seg_offsets r) rel)"
    using assms(2) by (simp_all add: reader_ok_def s)
  note read = read_prefix [OF assms(1) ok(3) l]
  define hits where "hits = filter (\<lambda>x. event_passes (er_filters r) (sr_event x)) rs"
  have hits: "stored_in (er_filters r) (sc_parse C) F rel ?n m = map (\<lambda>x. Stored (sr_event x) rel (sr_start x)) hits"
    by (simp add: stored_in_def hits_def read(1))
  have starts: "start_of ` set (stored_in (er_filters r) (sc_parse C) F rel ?n m) = set (map sr_start hits)"
    by (simp add: hits image_image)
  have res: "read_segment C rel content s =
      (r\<lparr>er_seg_offsets := bt_insert rel m (er_seg_offsets r),
         er_tracker := fold (note_pending rel) (map sr_start hits) (note_read_to rel m (er_tracker r))\<rparr>,
       b\<lparr>ba_skipped := ba_skipped b + k, ba_records := ba_records b @ map (\<lambda>x. Stored (sr_event x) rel (sr_start x)) hits\<rparr>)"
    by (simp add: read_segment_def s l take_records hits_def)
  note pend = fold_note_pending [OF note_read_to_ok [OF ok(1)], of rel "map sr_start hits" rel m]
  have mine: "filter (of_segment rel) (map (\<lambda>x. Stored (sr_event x) rel (sr_start x)) hits) =
      map (\<lambda>x. Stored (sr_event x) rel (sr_start x)) hits"
    and others: "rel' \<noteq> rel \<Longrightarrow> filter (of_segment rel') (map (\<lambda>x. Stored (sr_event x) rel (sr_start x)) hits) = []" for rel'
    by (auto simp: filter_empty_conv intro!: filter_True)
  show "advanced (sc_parse C) F s (read_segment C rel content s)"
    unfolding advanced_def res
    using pend ok read(2,3) mine others fold_note_pending [OF note_read_to_ok [OF ok(1)], of rel "map sr_start hits" rel m]
    by (simp add: s reader_ok_def starts hits fold_note_pending [OF note_read_to_ok [OF ok(1)]] image_image)
  assume "content = F rel"
  then have "segment_loop (sc_parse C) ?n (drop ?n (F rel)) = (rs, k, m)"
    using l by (simp add: read_segment_records_def)
  then have "snd (snd (segment_loop (sc_parse C) 0 (F rel))) = m"
    using segment_loop_split [OF ok(3), of "sc_parse C" 0] by (simp add: then_read_def)
  then show "snd (snd (segment_loop (sc_parse C) 0 (F rel))) \<le>
       offset_of (er_seg_offsets (fst (read_segment C rel content s))) rel"
    by (simp add: res)
qed

definition end_of_lines :: "(bytes \<Rightarrow> event option) \<Rightarrow> bytes \<Rightarrow> nat" where
  "end_of_lines parse c = snd (snd (segment_loop parse 0 c))"

lemma advanced_ok: "advanced parse F s s' \<Longrightarrow> reader_ok F (fst s')"
  by (simp add: advanced_def)

lemma advanced_offset: "advanced parse F s s' \<Longrightarrow> offset_of (er_seg_offsets (fst s)) rel \<le> offset_of (er_seg_offsets (fst s')) rel"
  by (simp add: advanced_def)

lemma poll_files_advanced:
  assumes "poll_files C ns name segs s = Inr s'" "\<forall>(f, a)\<in>set segs. \<forall>c. a = SegContent c \<longrightarrow> prefix c (F (rel_path ns name f))"
    "reader_ok F (fst s)"
  shows "advanced (sc_parse C) F s s' \<and> (\<forall>f. (f, SegContent (F (rel_path ns name f))) \<in> set segs \<and> utf8_valid f \<longrightarrow>
     end_of_lines (sc_parse C) (F (rel_path ns name f)) \<le> offset_of (er_seg_offsets (fst s')) (rel_path ns name f))"
  using assms
proof (induction segs arbitrary: s)
  case Nil
  then show ?case by (auto intro: advanced_refl)
next
  case (Cons fa segs)
  obtain f a where fa: "fa = (f, a)" by (cases fa)
  show ?case
  proof (cases "utf8_valid f \<and> (\<exists>c. a = SegContent c)")
    case False
    then have "poll_files C ns name segs s = Inr s'" using Cons.prems(1) by (auto simp: fa split: segment_answer.splits if_splits)
    with Cons.IH [OF this] Cons.prems(2,3) False show ?thesis by (auto simp: fa)
  next
    case True
    then obtain c where c: "a = SegContent c" "utf8_valid f" by blast
    let ?rel = "rel_path ns name f"
    have pre: "prefix c (F ?rel)" using Cons.prems(2) by (simp add: fa c(1))
    note one = read_segment_advanced [where C = C, OF pre Cons.prems(3)]
    have run: "poll_files C ns name segs (read_segment C ?rel c s) = Inr s'" using Cons.prems(1) c by (simp add: fa)
    have rest: "\<forall>(f, a)\<in>set segs. \<forall>c. a = SegContent c \<longrightarrow> prefix c (F (rel_path ns name f))"
      using Cons.prems(2) by simp
    note IH = Cons.IH [OF run rest advanced_ok [OF one(1)]]
    have "c = F ?rel \<Longrightarrow> end_of_lines (sc_parse C) (F ?rel) \<le> offset_of (er_seg_offsets (fst s')) ?rel"
      using one(2) advanced_offset [OF conjunct1 [OF IH], of ?rel] by (simp add: end_of_lines_def)
    then show ?thesis using IH advanced_trans [OF one(1) conjunct1 [OF IH]] by (auto simp: fa c)
  qed
qed

lemma take_log_line_advanced: "reader_ok F (fst s) \<Longrightarrow> advanced parse F s (take_log_line C ns name run l s)"
  by (cases s) (auto simp: take_log_line_def Let_def advanced_def reader_ok_def split: option.split)

lemma take_log_lines_advanced: "reader_ok F (fst s) \<Longrightarrow> advanced parse F s (fold (take_log_line C ns name run) ls s)"
proof (induction ls arbitrary: s)
  case (Cons l ls)
  have one: "advanced parse F s (take_log_line C ns name run l s)" by (rule take_log_line_advanced [OF Cons.prems])
  show ?case using advanced_trans [OF one Cons.IH [OF advanced_ok [OF one]]] by simp
qed (simp add: advanced_refl)

lemma poll_log_advanced:
  assumes "reader_ok F (fst s)"
  shows "advanced parse F s (poll_log C fs ns name s)"
proof -
  obtain r b where s: "s = (r, b)" by (cases s)
  have "advanced parse F (r, b) (fold (take_log_line C ns name run) ls (r\<lparr>er_log_offsets := x\<rparr>, b))" for run ls x
  proof -
    have one: "reader_ok F (fst (r\<lparr>er_log_offsets := x\<rparr>, b))" "advanced parse F (r, b) (r\<lparr>er_log_offsets := x\<rparr>, b)"
      using assms by (simp_all add: reader_ok_def advanced_def s)
    show ?thesis by (rule advanced_trans [OF one(2) take_log_lines_advanced [OF one(1)]])
  qed
  then show ?thesis using assms by (auto simp: poll_log_def s Let_def advanced_refl split: option.split prod.split)
qed

lemma poll_targets_advanced:
  assumes "poll_targets C w targets s = Inr s'" "world_within F w" "reader_ok F (fst s)"
  shows "advanced (sc_parse C) F s s' \<and> (\<forall>(ns, name)\<in>set targets. \<forall>segs f. sf_segments (pw_files w ns name) = Some segs \<longrightarrow>
     (f, SegContent (F (rel_path ns name f))) \<in> set segs \<longrightarrow> utf8_valid f \<longrightarrow>
     end_of_lines (sc_parse C) (F (rel_path ns name f)) \<le> offset_of (er_seg_offsets (fst s')) (rel_path ns name f))"
  using assms(1,3)
proof (induction targets arbitrary: s)
  case Nil
  then show ?case by (simp add: advanced_refl)
next
  case (Cons t targets)
  obtain ns name where t: "t = (ns, name)" by (cases t)
  obtain s1 where s1: "poll_segments C (pw_files w ns name) ns name s = Inr s1"
    using Cons.prems(1) by (auto simp: t split: sum.splits)
  define s2 where "s2 = (if er_include_logs (fst s1) then poll_log C (pw_files w ns name) ns name s1 else s1)"
  have run: "poll_targets C w targets s2 = Inr s'" using Cons.prems(1) s1 by (simp add: t s2_def)
  have first: "advanced (sc_parse C) F s s1 \<and> (\<forall>segs f. sf_segments (pw_files w ns name) = Some segs \<longrightarrow>
     (f, SegContent (F (rel_path ns name f))) \<in> set segs \<longrightarrow> utf8_valid f \<longrightarrow>
     end_of_lines (sc_parse C) (F (rel_path ns name f)) \<le> offset_of (er_seg_offsets (fst s1)) (rel_path ns name f))"
  proof (cases "sf_segments (pw_files w ns name)")
    case None
    then show ?thesis using s1 Cons.prems(2) by (auto simp: poll_segments_def advanced_refl)
  next
    case (Some segs)
    have "\<forall>(f, a)\<in>set (sort_key fst segs). \<forall>c. a = SegContent c \<longrightarrow> prefix c (F (rel_path ns name f))"
      using assms(2) Some by (auto simp: world_within_def)
    from poll_files_advanced [OF _ this Cons.prems(2), of C s1] s1 show ?thesis
      by (simp add: poll_segments_def Some)
  qed
  have second: "advanced (sc_parse C) F s1 s2"
    using first by (auto simp: s2_def intro: poll_log_advanced advanced_refl dest: advanced_ok)
  have first2: "advanced (sc_parse C) F s s2" using first second advanced_trans by blast
  note IH = Cons.IH [OF run advanced_ok [OF second]]
  have "offset_of (er_seg_offsets (fst s1)) rel \<le> offset_of (er_seg_offsets (fst s')) rel" for rel
    using advanced_offset [OF second] advanced_offset [OF conjunct1 [OF IH]] by (rule order_trans)
  then show ?case
    using first IH advanced_trans [OF first2 conjunct1 [OF IH]] by (auto simp: t intro: order_trans)
qed

lemma poll_advanced:
  assumes "poll C w r = Inr (r', b)" "world_within F w" "reader_ok F r"
  shows "advanced (sc_parse C) F (r, \<lparr>ba_records = [], ba_skipped = 0\<rparr>) (r', b)"
    "er_explicit r = None \<Longrightarrow> pw_sessions w = Inr targets \<Longrightarrow> (ns, name) \<in> set targets \<Longrightarrow>
     sf_segments (pw_files w ns name) = Some segs \<Longrightarrow> (f, SegContent (F (rel_path ns name f))) \<in> set segs \<Longrightarrow> utf8_valid f \<Longrightarrow>
     end_of_lines (sc_parse C) (F (rel_path ns name f)) \<le> offset_of (er_seg_offsets r') (rel_path ns name f)"
proof -
  obtain ts where ts: "poll_targets C w ts (r, \<lparr>ba_records = [], ba_skipped = 0\<rparr>) = Inr (r', b)"
    "er_explicit r = None \<Longrightarrow> pw_sessions w = Inr ts"
    using assms(1) by (auto simp: poll_def split: sum.splits option.splits)
  note run = poll_targets_advanced [OF ts(1) assms(2), simplified, OF assms(3)]
  show "advanced (sc_parse C) F (r, \<lparr>ba_records = [], ba_skipped = 0\<rparr>) (r', b)" using run by blast
  assume "er_explicit r = None" "pw_sessions w = Inr targets" "(ns, name) \<in> set targets"
     "sf_segments (pw_files w ns name) = Some segs" "(f, SegContent (F (rel_path ns name f))) \<in> set segs" "utf8_valid f"
  then show "end_of_lines (sc_parse C) (F (rel_path ns name f)) \<le> offset_of (er_seg_offsets r') (rel_path ns name f)"
    using run ts(2) by fastforce
qed

subsection \<open>Printing\<close>

fun records_of :: "out_item list \<Rightarrow> out_record list" where
  "records_of [] = []"
| "records_of (RecordItem x # items) = x # records_of items"
| "records_of (BookmarkItem ts tok # items) = records_of items"

lemma records_of_append [simp]: "records_of (a @ b) = records_of a @ records_of b"
  by (induction a rule: records_of.induct) auto

text \<open>
  What a cursor promises: all that the segment holds before it was printed, and what was printed after it
  was printed out of order, before the record at the cursor.
\<close>

definition good_mark :: "cursor_codec \<Rightarrow> event_filters \<Rightarrow> (bytes \<Rightarrow> event option) \<Rightarrow> (bytes \<Rightarrow> bytes) \<Rightarrow> (bytes \<Rightarrow> nat)
    \<Rightarrow> out_record list \<Rightarrow> bytes \<Rightarrow> bool" where
  "good_mark K f parse F base printed tok \<longleftrightarrow> (\<exists>streams. tok = encode_cursor K streams \<and> bt_ok streams \<and>
     (\<forall>rel. at_line (F rel) (offset_of streams rel) \<and> distinct (filter (of_segment rel) printed) \<and>
        set (filter (of_segment rel) printed) \<subseteq> set (stored_in f parse F rel (base rel) (end_of_lines parse (F rel))) \<and>
        set (stored_in f parse F rel (base rel) (offset_of streams rel)) \<subseteq> set printed \<and>
        (\<forall>x\<in>set printed. of_segment rel x \<longrightarrow> offset_of streams rel \<le> start_of x \<longrightarrow>
           (\<exists>y. y \<in> set (stored_in f parse F rel (offset_of streams rel) (Suc (offset_of streams rel))) \<and>
              y \<notin> set printed \<and> start_of y < start_of x))))"

definition marks_ok :: "cursor_codec \<Rightarrow> event_filters \<Rightarrow> (bytes \<Rightarrow> event option) \<Rightarrow> (bytes \<Rightarrow> bytes) \<Rightarrow> (bytes \<Rightarrow> nat)
    \<Rightarrow> out_item list \<Rightarrow> bool" where
  "marks_ok K f parse F base items \<longleftrightarrow> (\<forall>before ts tok rest. items = before @ BookmarkItem ts tok # rest \<longrightarrow>
     good_mark K f parse F base (records_of before) tok)"

lemma marks_ok_snoc:
  "marks_ok K f parse F base [] \<longleftrightarrow> True"
  "marks_ok K f parse F base (items @ [RecordItem x]) \<longleftrightarrow> marks_ok K f parse F base items"
  "marks_ok K f parse F base (items @ [BookmarkItem ts tok]) \<longleftrightarrow>
     marks_ok K f parse F base items \<and> good_mark K f parse F base (records_of items) tok"
  by (auto simp: marks_ok_def append_eq_append_conv2 append_eq_Cons_conv Cons_eq_append_conv) (metis append_Nil2)+

text \<open>Printed and unprinted records are those of each segment up to where it was read.\<close>

definition emits :: "event_filters \<Rightarrow> (bytes \<Rightarrow> event option) \<Rightarrow> (bytes \<Rightarrow> bytes) \<Rightarrow> (bytes \<Rightarrow> nat)
    \<Rightarrow> out_record list \<Rightarrow> out_record list \<Rightarrow> cursor_tracker \<Rightarrow> bool" where
  "emits f parse F base printed rest t \<longleftrightarrow> tracker_ok t \<and>
     (\<forall>rel. at_line (F rel) (offset_of (tk_read_to t) rel) \<and> base rel \<le> offset_of (tk_read_to t) rel \<and>
        set (pending_starts t rel) = start_of ` {x \<in> set rest. of_segment rel x} \<and>
        mset (filter (of_segment rel) (printed @ rest)) = mset (stored_in f parse F rel (base rel) (offset_of (tk_read_to t) rel)))"

lemma stored_in_inj: "x \<in> set (stored_in f parse F rel n m) \<Longrightarrow> y \<in> set (stored_in f parse F rel n m) \<Longrightarrow> start_of x = start_of y \<Longrightarrow> x = y"
proof -
  have "inj_on sr_start (set (segment_records parse c))" for c
    using segment_records_sorted [of parse c]
    by (auto simp: inj_on_def sorted_wrt_iff_nth_less in_set_conv_nth) (metis less_irrefl linorder_neqE_nat)
  then show "x \<in> set (stored_in f parse F rel n m) \<Longrightarrow> y \<in> set (stored_in f parse F rel n m) \<Longrightarrow> start_of x = start_of y \<Longrightarrow> x = y"
    by (auto simp: stored_in_def between_def) (metis inj_onD)
qed

lemma stored_in_distinct: "distinct (stored_in f parse F rel n m)"
proof -
  have "sorted_wrt (\<lambda>x y. start_of x < start_of y) (stored_in f parse F rel n m)"
    using segment_records_sorted [of parse "F rel"]
    by (simp add: stored_in_def between_def sorted_wrt_map sorted_wrt_filter)
  then show ?thesis by (auto simp: distinct_conv_nth sorted_wrt_iff_nth_less) (metis less_irrefl linorder_neqE_nat)
qed

lemma stored_in_mem:
  "x \<in> set (stored_in f parse F rel n m) \<longleftrightarrow> of_segment rel x \<and> n \<le> start_of x \<and> start_of x < m \<and>
     (\<exists>r\<in>set (segment_records parse (F rel)). event_passes f (sr_event r) \<and> x = Stored (sr_event r) rel (sr_start r))"
  by (auto simp: stored_in_def between_def)

lemma stored_in_whole: "x \<in> set (stored_in f parse F rel n m) \<Longrightarrow> x \<in> set (stored_in f parse F rel n (end_of_lines parse (F rel)))"
proof -
  have "\<forall>r\<in>set (segment_records parse (F rel)). sr_start r < end_of_lines parse (F rel)"
    using segment_loop_record(2) [of parse 0 "F rel"]
    by (cases "segment_loop parse 0 (F rel)") (simp add: segment_records_def end_of_lines_def)
  then show "x \<in> set (stored_in f parse F rel n m) \<Longrightarrow> x \<in> set (stored_in f parse F rel n (end_of_lines parse (F rel)))"
    by (auto simp: stored_in_mem)
qed

lemma emits_parts:
  assumes "emits f parse F base printed rest t"
  shows "\<And>x. x \<in> set (printed @ rest) \<and> of_segment rel x \<longleftrightarrow> x \<in> set (stored_in f parse F rel (base rel) (offset_of (tk_read_to t) rel))"
    "\<And>x. of_segment rel x \<Longrightarrow> x \<in> set printed \<Longrightarrow> x \<notin> set rest" "distinct (filter (of_segment rel) rest)"
    "distinct (filter (of_segment rel) printed)"
proof -
  have m: "mset (filter (of_segment rel) (printed @ rest)) = mset (stored_in f parse F rel (base rel) (offset_of (tk_read_to t) rel))"
    using assms by (simp add: emits_def)
  have d: "distinct (filter (of_segment rel) (printed @ rest))"
    using stored_in_distinct mset_eq_imp_distinct_iff [OF m] by blast
  show "\<And>x. x \<in> set (printed @ rest) \<and> of_segment rel x \<longleftrightarrow> x \<in> set (stored_in f parse F rel (base rel) (offset_of (tk_read_to t) rel))"
    using mset_eq_setD [OF m] by auto
  show "\<And>x. of_segment rel x \<Longrightarrow> x \<in> set printed \<Longrightarrow> x \<notin> set rest" "distinct (filter (of_segment rel) rest)"
    "distinct (filter (of_segment rel) printed)"
    using d by auto
qed

lemma emits_mark:
  assumes e: "emits f parse F base printed rest t"
  shows "good_mark K f parse F base printed (tracker_token K t)"
proof -
  have ok: "tracker_ok t" using e by (simp add: emits_def)
  note streams = tracker_streams_at [OF ok]
  have "at_line (F rel) (offset_of (tracker_streams t) rel) \<and> distinct (filter (of_segment rel) printed) \<and>
      set (filter (of_segment rel) printed) \<subseteq> set (stored_in f parse F rel (base rel) (end_of_lines parse (F rel))) \<and>
      set (stored_in f parse F rel (base rel) (offset_of (tracker_streams t) rel)) \<subseteq> set printed \<and>
      (\<forall>x\<in>set printed. of_segment rel x \<longrightarrow> offset_of (tracker_streams t) rel \<le> start_of x \<longrightarrow>
         (\<exists>y. y \<in> set (stored_in f parse F rel (offset_of (tracker_streams t) rel) (Suc (offset_of (tracker_streams t) rel))) \<and>
            y \<notin> set printed \<and> start_of y < start_of x))" (is "?P (offset_of (tracker_streams t) rel)") for rel
  proof -
    let ?m = "offset_of (tk_read_to t) rel"
    have pend: "set (pending_starts t rel) = start_of ` {x \<in> set rest. of_segment rel x}" "at_line (F rel) ?m"
      using e by (simp_all add: emits_def)
    note parts = emits_parts [OF e, where rel = rel]
    have whole: "distinct (filter (of_segment rel) printed)"
      "set (filter (of_segment rel) printed) \<subseteq> set (stored_in f parse F rel (base rel) (end_of_lines parse (F rel)))"
      using parts(4) parts(1) by (auto intro: stored_in_whole)
    show ?thesis
    proof (cases "pending_starts t rel = []")
      case True
      then have "{x \<in> set rest. of_segment rel x} = {}" using pend(1) by simp
      then have all: "x \<in> set (stored_in f parse F rel (base rel) ?m) \<longleftrightarrow> x \<in> set printed \<and> of_segment rel x" for x
        using parts(1) [of x] by auto
      have "set (stored_in f parse F rel (base rel) ?m) \<subseteq> set printed" using all by blast
      moreover have "start_of x < ?m" if "x \<in> set printed" "of_segment rel x" for x
        using all [of x] that stored_in_mem [of x] by blast
      ultimately have p: "?P ?m" using pend(2) whole by (meson not_less)
      have eq: "offset_of (tracker_streams t) rel = ?m" using streams(2) [of rel] True by simp
      show ?thesis unfolding eq by (rule p)
    next
      case False
      define n where "n = Min (set (pending_starts t rel))"
      have n: "n \<in> set (pending_starts t rel)" "\<And>s. s \<in> set (pending_starts t rel) \<Longrightarrow> n \<le> s"
        using False by (simp_all add: n_def)
      obtain y where y: "y \<in> set rest" "of_segment rel y" "start_of y = n" using n(1) pend(1) by auto
      have ym: "y \<in> set (stored_in f parse F rel (base rel) ?m)" using parts(1) [of y] y by simp
      have "at_line (F rel) n" using ym y(3) segment_records_start by (auto simp: stored_in_mem)
      moreover have "set (stored_in f parse F rel (base rel) n) \<subseteq> set printed"
      proof
        fix x assume x: "x \<in> set (stored_in f parse F rel (base rel) n)"
        then have "x \<in> set (stored_in f parse F rel (base rel) ?m)" using ym y(3) by (auto simp: stored_in_mem)
        then have "x \<in> set (printed @ rest)" "of_segment rel x" using parts(1) by blast+
        moreover have "x \<notin> set rest" using x n(2) [of "start_of x"] pend(1) \<open>of_segment rel x\<close> by (auto simp: stored_in_mem)
        ultimately show "x \<in> set printed" by simp
      qed
      moreover have "y \<notin> set printed" using parts(2) [of y] y by blast
      moreover have "y \<in> set (stored_in f parse F rel n (Suc n))" using ym y(3) by (auto simp: stored_in_mem)
      moreover have "start_of y < start_of x" if "x \<in> set printed" "of_segment rel x" "n \<le> start_of x" for x
      proof -
        have "x \<in> set (stored_in f parse F rel (base rel) ?m)" using parts(1) [of x] that by simp
        then have "x = y" if "start_of x = n" using stored_in_inj [OF _ ym] y(3) that by simp
        then show ?thesis using that \<open>y \<notin> set printed\<close> y(3) by (cases "start_of x = n") auto
      qed
      ultimately have p: "?P n" using whole by blast
      have eq: "offset_of (tracker_streams t) rel = n" using streams(2) [of rel] False by (simp add: n_def)
      show ?thesis unfolding eq by (rule p)
    qed
  qed
  then show ?thesis unfolding good_mark_def tracker_token_def using streams(1) by blast
qed

lemma emits_perm: "mset rest = mset rest' \<Longrightarrow> emits f parse F base printed rest t \<Longrightarrow> emits f parse F base printed rest' t"
proof -
  assume m: "mset rest = mset rest'" and e: "emits f parse F base printed rest t"
  have "set rest = set rest'" using m by (rule mset_eq_setD)
  then show ?thesis using e m by (simp add: emits_def)
qed

lemma emits_consume:
  assumes e: "emits f parse F base printed (x # rest) t"
  shows "emits f parse F base (printed @ [x]) rest (consume_record x t)"
proof -
  have ok: "tracker_ok t" using e by (simp add: emits_def)
  have "tracker_ok (consume_record x t)" "tk_read_to (consume_record x t) = tk_read_to t"
    using ok by (simp_all add: consume_record_def note_consumed_ok split: out_record.split)
  moreover have "set (pending_starts (consume_record x t) rel) = start_of ` {y \<in> set rest. of_segment rel y}" for rel
  proof -
    have p: "set (pending_starts t rel) = start_of ` {y \<in> set (x # rest). of_segment rel y}" using e by (simp add: emits_def)
    show ?thesis
    proof (cases "of_segment rel x")
      case False
      then have "set (pending_starts (consume_record x t) rel) = set (pending_starts t rel)"
        using ok by (cases x) (auto simp: consume_record_def note_consumed_starts)
      then show ?thesis using p False by auto
    next
      case True
      note parts = emits_parts [OF e, where rel = rel]
      have "x \<notin> set rest" using parts(3) True by simp
      have "start_of x \<notin> start_of ` {y \<in> set rest. of_segment rel y}"
      proof
        assume "start_of x \<in> start_of ` {y \<in> set rest. of_segment rel y}"
        then obtain y where y: "y \<in> set rest" "of_segment rel y" "start_of x = start_of y" by auto
        have "x = y" using stored_in_inj [OF _ _ y(3)] parts(1) [of x] parts(1) [of y] True y(1,2) by (metis in_set_conv_decomp list.set_intros set_append UnI2 Un_iff)
        then show False using y(1) \<open>x \<notin> set rest\<close> by blast
      qed
      moreover have less: "set (pending_starts (consume_record x t) rel) = set (pending_starts t rel) - {start_of x}"
        using ok True by (cases x) (auto simp: consume_record_def note_consumed_starts)
      moreover have ins: "{y \<in> set (x # rest). of_segment rel y} = insert x {y \<in> set rest. of_segment rel y}" using True by auto
      ultimately show ?thesis unfolding less p ins image_insert by blast
    qed
  qed
  ultimately show ?thesis using e by (simp add: emits_def)
qed

lemma write_bookmark_marks:
  assumes "write_bookmark K P t em = (ok, em')" "emits f parse F base (records_of (em_items em)) rest t"
    "marks_ok K f parse F base (em_items em)"
  shows "marks_ok K f parse F base (em_items em')" "records_of (em_items em') = records_of (em_items em)"
  using assms by (auto simp: write_bookmark_def marks_ok_snoc emits_mark split: if_splits)

lemma emit_loop_marks:
  assumes "emit_loop K P cursors recs (t, em) = (ok, t', em')" "emits f parse F base (records_of (em_items em)) recs t"
    "marks_ok K f parse F base (em_items em)"
  shows "marks_ok K f parse F base (em_items em') \<and> tk_read_to t' = tk_read_to t \<and>
    (ok \<longrightarrow> emits f parse F base (records_of (em_items em')) [] t' \<and>
       records_of (em_items em') = records_of (em_items em) @ recs)"
  using assms
proof (induction recs arbitrary: t em)
  case Nil
  then show ?case by auto
next
  case (Cons x recs)
  define t1 where "t1 = consume_record x t"
  define em1 where "em1 = \<lparr>em_items = em_items em @ [RecordItem x], em_ops = Suc (em_ops em), em_count = Suc (em_count em)\<rparr>"
  have frame: "tk_read_to t1 = tk_read_to t" by (simp add: t1_def consume_record_def split: out_record.split)
  have e1: "emits f parse F base (records_of (em_items em1)) recs t1" "marks_ok K f parse F base (em_items em1)"
      "records_of (em_items em1) = records_of (em_items em) @ [x]"
    using emits_consume [OF Cons.prems(2)] Cons.prems(3) by (simp_all add: em1_def t1_def marks_ok_snoc)
  have step: "emit_loop K P cursors (x # recs) (t, em) =
      (if \<not> pp_ok P (em_ops em) then (False, t, em)
       else if cursors \<and> bookmark_every_records \<le> em_count em1 then
         (case write_bookmark K P t1 em1 of (False, em2) \<Rightarrow> (False, t1, em2) | (True, em2) \<Rightarrow> emit_loop K P cursors recs (t1, em2))
       else emit_loop K P cursors recs (t1, em1))"
    unfolding t1_def em1_def by (simp add: Let_def)
  obtain okb em2 where mark: "write_bookmark K P t1 em1 = (okb, em2)" by (metis surj_pair)
  note marked = write_bookmark_marks [OF mark e1(1,2)]
  have e2: "emits f parse F base (records_of (em_items em2)) recs t1" using e1(1) marked(2) by simp
  show ?case
  proof (cases "pp_ok P (em_ops em)")
    case False
    then have "em' = em" "t' = t" "\<not> ok" using Cons.prems(1) unfolding step by simp_all
    then show ?thesis using Cons.prems(3) by simp
  next
    case go: True
    show ?thesis
    proof (cases "cursors \<and> bookmark_every_records \<le> em_count em1")
      case False
      then have "emit_loop K P cursors recs (t1, em1) = (ok, t', em')" using Cons.prems(1) go unfolding step by auto
      from Cons.IH [OF this e1(1,2)] show ?thesis unfolding frame e1(3) append_assoc append_Cons append_Nil .
    next
      case due: True
      show ?thesis
      proof (cases okb)
        case True
        then have "emit_loop K P cursors recs (t1, em2) = (ok, t', em')" using Cons.prems(1) go due unfolding step mark by simp
        from Cons.IH [OF this e2 marked(1)] show ?thesis
          unfolding frame marked(2) e1(3) append_assoc append_Cons append_Nil .
      next
        case False
        then have "em' = em2" "t' = t1" "\<not> ok" using Cons.prems(1) go due unfolding step mark by simp_all
        then show ?thesis using marked(1) frame by simp
      qed
    qed
  qed
qed

lemma emit_batch_marks:
  assumes "emit_batch K P cursors None recs (t, em) = (ok, t', em')" "emits f parse F base (records_of (em_items em)) recs t"
    "marks_ok K f parse F base (em_items em)"
  shows "marks_ok K f parse F base (em_items em') \<and> tk_read_to t' = tk_read_to t \<and>
    (ok \<longrightarrow> emits f parse F base (records_of (em_items em')) [] t' \<and>
       records_of (em_items em') = records_of (em_items em) @ sort_key out_key recs)"
proof -
  have run: "emit_loop K P cursors (sort_key out_key recs) (t, em) = (ok, t', em')" using assms(1) by (simp add: emit_batch_def)
  have "emits f parse F base (records_of (em_items em)) (sort_key out_key recs) t" using assms(2) by (rule emits_perm [rotated]) simp
  then show ?thesis by (rule emit_loop_marks [OF run _ assms(3)])
qed

lemma emits_reader_ok:
  "emits f parse F base printed rest (er_tracker r) \<Longrightarrow> tk_read_to (er_tracker r) = er_seg_offsets r \<Longrightarrow> reader_ok F r"
  by (simp add: emits_def reader_ok_def)

lemma emits_poll:
  assumes "poll C w r = Inr (r1, b)" "world_within F w" "emits f (sc_parse C) F base printed [] (er_tracker r)"
    "tk_read_to (er_tracker r) = er_seg_offsets r" "er_filters r = f"
  shows "emits f (sc_parse C) F base printed (ba_records b) (er_tracker r1)" "tk_read_to (er_tracker r1) = er_seg_offsets r1"
    "er_filters r1 = f"
proof -
  note adv = poll_advanced(1) [OF assms(1,2) emits_reader_ok [OF assms(3,4)]]
  have ok: "reader_ok F r1" using adv by (simp add: advanced_def)
  then show "tk_read_to (er_tracker r1) = er_seg_offsets r1" by (simp add: reader_ok_def)
  show "er_filters r1 = f" using adv assms(5) by (simp add: advanced_def)
  have "base rel \<le> offset_of (er_seg_offsets r) rel" "offset_of (er_seg_offsets r) rel \<le> offset_of (er_seg_offsets r1) rel"
    "mset (filter (of_segment rel) printed) = mset (stored_in f (sc_parse C) F rel (base rel) (offset_of (er_seg_offsets r) rel))"
    "filter (of_segment rel) (ba_records b) = stored_in f (sc_parse C) F rel (offset_of (er_seg_offsets r) rel) (offset_of (er_seg_offsets r1) rel)"
    "set (pending_starts (er_tracker r1) rel) =
       start_of ` set (stored_in f (sc_parse C) F rel (offset_of (er_seg_offsets r) rel) (offset_of (er_seg_offsets r1) rel))" for rel
    using assms(3-5) adv by (simp_all add: emits_def advanced_def)
  note step = this
  have "mset (filter (of_segment rel) (printed @ ba_records b)) =
      mset (stored_in f (sc_parse C) F rel (base rel) (offset_of (er_seg_offsets r1) rel))" for rel
    by (simp only: filter_append mset_append step(3,4) stored_in_split [OF step(1) step(2), of f "sc_parse C" F rel])
  moreover have "set (pending_starts (er_tracker r1) rel) = start_of ` {x \<in> set (ba_records b). of_segment rel x}" for rel
    using step(5) [of rel] step(4) [of rel] by (metis set_filter)
  ultimately show "emits f (sc_parse C) F base printed (ba_records b) (er_tracker r1)"
    using ok order_trans [OF step(1) step(2)] by (simp add: emits_def reader_ok_def)
qed

subsection \<open>The command\<close>

lemma follow_rounds_marks:
  assumes "follow_rounds C K P opts rounds (r, em) = Some (res, em')" "\<forall>(w, idle)\<in>set rounds. world_within F w"
    "emits f (sc_parse C) F base (records_of (em_items em)) [] (er_tracker r)" "tk_read_to (er_tracker r) = er_seg_offsets r"
    "er_filters r = f" "marks_ok K f (sc_parse C) F base (em_items em)"
  shows "marks_ok K f (sc_parse C) F base (em_items em')"
  using assms
proof (induction rounds arbitrary: r em)
  case (Cons round rounds)
  obtain w idle where wi: "round = (w, idle)" by (cases round)
  show ?case
  proof (cases "poll C w r")
    case (Inl err)
    then show ?thesis using Cons.prems(1,6) by (simp add: wi)
  next
    case (Inr rb)
    obtain r1 b where p: "poll C w r = Inr (r1, b)" using Inr by (cases rb) simp
    have w: "world_within F w" using Cons.prems(2) by (simp add: wi)
    note polled = emits_poll [OF p w Cons.prems(3-5)]
    obtain ok t em1 where b: "emit_batch K P (eo_cursors opts) None (ba_records b) (er_tracker r1, em) = (ok, t, em1)"
      by (metis prod_cases3)
    note printed = emit_batch_marks [OF b polled(1) Cons.prems(6)]
    obtain okb em2 where m: "write_bookmark K P t em1 = (okb, em2)" by (metis surj_pair)
    define r2 where "r2 = r1\<lparr>er_tracker := t\<rparr>"
    have r2: "er_tracker r2 = t" "tk_read_to (er_tracker r2) = er_seg_offsets r2" "er_filters r2 = f"
      using printed polled by (simp_all add: r2_def)
    have rest: "\<forall>(w, idle)\<in>set rounds. world_within F w" using Cons.prems(2) by simp
    show ?thesis
    proof (cases ok)
      case False
      then show ?thesis using Cons.prems(1) printed by (simp add: wi p b)
    next
      case True
      then have e1: "emits f (sc_parse C) F base (records_of (em_items em1)) [] t" "marks_ok K f (sc_parse C) F base (em_items em1)"
        using printed by blast+
      note mark = write_bookmark_marks [OF m e1]
      have e2: "emits f (sc_parse C) F base (records_of (em_items em2)) [] t" using e1(1) mark(2) by simp
      consider "em' = em1" | "em' = em2" | "follow_rounds C K P opts rounds (r2, em2) = Some (res, em')"
        | "follow_rounds C K P opts rounds (r2, em1) = Some (res, em')"
        using Cons.prems(1) True by (cases okb) (auto simp: wi p b m r2_def split: if_splits)
      then show ?thesis
      proof cases
        case 3
        show ?thesis using Cons.IH [OF 3 rest] e2 r2 mark(1) by simp
      next
        case 4
        show ?thesis using Cons.IH [OF 4 rest] e1 r2 by simp
      qed (use e1(2) mark(1) in simp_all)
    qed
  qed
qed simp

lemma stream_events_marks:
  assumes "stream_events C K e opts r = Some (res, em)" "world_within F (sn_replay e)"
    "\<forall>(w, idle)\<in>set (sn_rounds e). world_within F w" "emits f (sc_parse C) F base [] [] (er_tracker r)"
    "tk_read_to (er_tracker r) = er_seg_offsets r" "er_filters r = f" "eo_last opts = None"
  shows "marks_ok K f (sc_parse C) F base (em_items em)"
proof -
  let ?em0 = "\<lparr>em_items = [], em_ops = 0, em_count = 0\<rparr>"
  have none: "marks_ok K f (sc_parse C) F base []" by (simp add: marks_ok_snoc)
  show ?thesis
  proof (cases "poll C (sn_replay e) r")
    case (Inl err)
    then show ?thesis using assms(1) none by (auto simp: stream_events_def)
  next
    case (Inr rb)
    obtain r1 b where p: "poll C (sn_replay e) r = Inr (r1, b)" using Inr by (cases rb) simp
    note polled = emits_poll [OF p assms(2,4-6)]
    obtain ok t em1 where b: "emit_batch K (sn_pipe e) (eo_cursors opts) None (ba_records b) (er_tracker r1, ?em0) = (ok, t, em1)"
      by (metis prod_cases3)
    have polled0: "emits f (sc_parse C) F base (records_of (em_items ?em0)) (ba_records b) (er_tracker r1)" using polled(1) by simp
    have none0: "marks_ok K f (sc_parse C) F base (em_items ?em0)" using none by simp
    note printed = emit_batch_marks [OF b polled0 none0]
    obtain okb em2 where m: "write_bookmark K (sn_pipe e) t em1 = (okb, em2)" by (metis surj_pair)
    define r2 where "r2 = r1\<lparr>er_tracker := t\<rparr>"
    have r2: "er_tracker r2 = t" "tk_read_to (er_tracker r2) = er_seg_offsets r2" "er_filters r2 = f"
      using printed polled by (simp_all add: r2_def)
    show ?thesis
    proof (cases ok)
      case False
      then show ?thesis using assms(1,7) printed by (simp add: stream_events_def p b)
    next
      case True
      then have e1: "emits f (sc_parse C) F base (records_of (em_items em1)) [] t" "marks_ok K f (sc_parse C) F base (em_items em1)"
        using printed by blast+
      note mark = write_bookmark_marks [OF m e1]
      consider "em_items em = em_items em1" | "em = em2"
        | em3 where "follow_rounds C K (sn_pipe e) opts (sn_rounds e) (r2, em3) = Some (res, em)" "em_items em3 = em_items em1"
        using assms(1,7) True by (auto simp: stream_events_def p b m r2_def Let_def split: if_splits option.splits)
      then show ?thesis
      proof cases
        case 3
        show ?thesis using follow_rounds_marks [OF 3(1) assms(3)] e1 r2 3(2) by simp
      qed (use e1(2) mark(1) in simp_all)
    qed
  qed
qed

lemma emit_loop_ok: "\<forall>n. pp_ok P n \<Longrightarrow> fst (emit_loop K P cursors recs s)"
  by (induction K P cursors recs s rule: emit_loop.induct) (auto simp: Let_def write_bookmark_def split: prod.splits bool.splits)

text \<open>A replay that is not followed prints all that there is from its start on.\<close>

lemma replay_prints:
  assumes "stream_events C K e opts r = Some (EventsReturned, em)" "world_within F (sn_replay e)" "\<not> eo_follow opts"
    "emits f (sc_parse C) F base [] [] (er_tracker r)" "tk_read_to (er_tracker r) = er_seg_offsets r" "er_filters r = f"
    "eo_last opts = None" "\<forall>n. pp_ok (sn_pipe e) n" "er_explicit r = None"
    and shown: "pw_sessions (sn_replay e) = Inr targets" "(ns, name) \<in> set targets"
      "sf_segments (pw_files (sn_replay e) ns name) = Some segs" "(file, SegContent (F (rel_path ns name file))) \<in> set segs" "utf8_valid file"
  shows "mset (filter (of_segment (rel_path ns name file)) (records_of (em_items em))) =
    mset (stored_in f (sc_parse C) F (rel_path ns name file) (base (rel_path ns name file)) (end_of_lines (sc_parse C) (F (rel_path ns name file))))"
proof -
  let ?em0 = "\<lparr>em_items = [], em_ops = 0, em_count = 0\<rparr>" and ?rel = "rel_path ns name file"
  obtain r1 b where p: "poll C (sn_replay e) r = Inr (r1, b)"
    using assms(1) by (auto simp: stream_events_def Let_def split: sum.splits)
  note polled = emits_poll [OF p assms(2,4-6)]
  obtain ok t em1 where b: "emit_batch K (sn_pipe e) (eo_cursors opts) None (ba_records b) (er_tracker r1, ?em0) = (ok, t, em1)"
    by (metis prod_cases3)
  have polled0: "emits f (sc_parse C) F base (records_of (em_items ?em0)) (ba_records b) (er_tracker r1)" using polled(1) by simp
  have none0: "marks_ok K f (sc_parse C) F base (em_items ?em0)" by (simp add: marks_ok_snoc)
  have ok: ok using emit_loop_ok [OF assms(8)] b by (metis emit_batch_def fst_conv)
  note printed = emit_batch_marks [OF b polled0 none0]
  have e1: "emits f (sc_parse C) F base (records_of (em_items em1)) [] t" "marks_ok K f (sc_parse C) F base (em_items em1)"
    "tk_read_to t = er_seg_offsets r1"
    using printed ok polled(2) by (blast, blast, simp)
  have "records_of (em_items em) = records_of (em_items em1)"
    using assms(1,3,7) ok write_bookmark_marks(2) [OF _ e1(1,2)]
    by (cases "write_bookmark K (sn_pipe e) t em1") (auto simp: stream_events_def p b Let_def split: if_splits)
  moreover have "end_of_lines (sc_parse C) (F ?rel) \<le> offset_of (er_seg_offsets r1) ?rel"
    by (rule poll_advanced(2) [OF p assms(2) emits_reader_ok [OF assms(4,5)] assms(9) shown])
  then have "set (stored_in f (sc_parse C) F ?rel (base ?rel) (offset_of (er_seg_offsets r1) ?rel)) =
      set (stored_in f (sc_parse C) F ?rel (base ?rel) (end_of_lines (sc_parse C) (F ?rel)))"
    by (auto intro: stored_in_whole) (auto simp: stored_in_mem)
  then have "mset (stored_in f (sc_parse C) F ?rel (base ?rel) (offset_of (er_seg_offsets r1) ?rel)) =
      mset (stored_in f (sc_parse C) F ?rel (base ?rel) (end_of_lines (sc_parse C) (F ?rel)))"
    using set_eq_iff_mset_eq_distinct [OF stored_in_distinct stored_in_distinct] by blast
  ultimately show ?thesis using e1(1,3) by (simp add: emits_def)
qed

lemma emits_start:
  assumes "bt_ok streams" "\<forall>rel. at_line (F rel) (offset_of streams rel)"
  shows "emits f parse F (offset_of streams) [] [] (er_tracker (new_reader opts targets streams))"
    "tk_read_to (er_tracker (new_reader opts targets streams)) = er_seg_offsets (new_reader opts targets streams)"
  using assms by (simp_all add: emits_def new_reader_def seed_tracker_ok)

definition option_filters :: "events_options \<Rightarrow> event_filters" where
  "option_filters opts = \<lparr>ef_kinds = eo_kinds opts, ef_sources = eo_sources opts, ef_since = eo_since opts\<rparr>"

lemma cmd_events_run:
  assumes "cmd_events C K e opts = Some (res, em)" "eo_sessions opts = []" "\<not> eo_from_now opts"
  shows "em_items em = [] \<and> res \<noteq> EventsReturned \<or> (\<exists>streams. seeded_offsets K (sn_is_file e) (eo_from_cursor opts) = Inr streams \<and>
    exclusive_starts opts \<and> stream_events C K e opts (new_reader opts None streams) = Some (res, em))"
  using assms by (auto simp: cmd_events_def Let_def split: sum.splits if_splits)

lemma decode_encode:
  assumes "\<forall>x. cc_decode K (cc_encode K x) = Some x" "\<forall>s. cc_parse K (cc_ser K \<lparr>ct_v = 1, ct_s = s\<rparr>) = Some \<lparr>ct_v = 1, ct_s = s\<rparr>"
    "bt_ok streams"
  shows "decode_cursor K (encode_cursor K streams) = Inr streams"
  using assms by (simp add: decode_cursor_def encode_cursor_def cursor_version_def bt_of_list_id)

text \<open>What a bookmark promises is what a replay from it completes.\<close>

definition completes :: "out_record list \<Rightarrow> out_record list \<Rightarrow> out_record list \<Rightarrow> bool" where
  "completes everything old new \<longleftrightarrow> set old \<union> set new = set everything \<and> distinct old \<and> distinct new \<and>
     (\<forall>x\<in>set old \<inter> set new. \<exists>y\<in>set everything. y \<notin> set old \<and> start_of y < start_of x)"

lemma good_mark_completes:
  assumes "good_mark K f parse F (\<lambda>rel. 0) printed tok"
  obtains streams where "tok = encode_cursor K streams" "bt_ok streams" "\<forall>rel. at_line (F rel) (offset_of streams rel)"
    "\<And>rel new. mset (filter (of_segment rel) new) = mset (stored_in f parse F rel (offset_of streams rel) (end_of_lines parse (F rel))) \<Longrightarrow>
       completes (stored_in f parse F rel 0 (end_of_lines parse (F rel))) (filter (of_segment rel) printed) (filter (of_segment rel) new)"
proof -
  obtain streams where s: "tok = encode_cursor K streams" "bt_ok streams" "\<forall>rel. at_line (F rel) (offset_of streams rel)"
    and mark: "\<And>rel. distinct (filter (of_segment rel) printed)"
      "\<And>rel. set (filter (of_segment rel) printed) \<subseteq> set (stored_in f parse F rel 0 (end_of_lines parse (F rel)))"
      "\<And>rel. set (stored_in f parse F rel 0 (offset_of streams rel)) \<subseteq> set printed"
      "\<And>rel x. x \<in> set printed \<Longrightarrow> of_segment rel x \<Longrightarrow> offset_of streams rel \<le> start_of x \<Longrightarrow>
         \<exists>y. y \<in> set (stored_in f parse F rel (offset_of streams rel) (Suc (offset_of streams rel))) \<and>
            y \<notin> set printed \<and> start_of y < start_of x"
    using assms unfolding good_mark_def by blast
  have "completes (stored_in f parse F rel 0 (end_of_lines parse (F rel))) (filter (of_segment rel) printed) (filter (of_segment rel) new)"
    if new: "mset (filter (of_segment rel) new) = mset (stored_in f parse F rel (offset_of streams rel) (end_of_lines parse (F rel)))" for rel new
  proof -
    let ?all = "stored_in f parse F rel 0 (end_of_lines parse (F rel))" and ?o = "offset_of streams rel"
    have news: "set (filter (of_segment rel) new) = set (stored_in f parse F rel ?o (end_of_lines parse (F rel)))"
      using new by (rule mset_eq_setD)
    have split: "x \<in> set ?all \<longleftrightarrow> x \<in> set (stored_in f parse F rel 0 ?o) \<or> x \<in> set (stored_in f parse F rel ?o (end_of_lines parse (F rel)))" for x
      using stored_in_whole [of x f parse F rel 0 ?o] by (auto simp: stored_in_mem)
    have dups: "\<exists>y\<in>set ?all. y \<notin> set printed \<and> start_of y < start_of x"
      if x: "x \<in> set printed" "x \<in> set (stored_in f parse F rel ?o (end_of_lines parse (F rel)))" for x
    proof -
      have at: "of_segment rel x" "?o \<le> start_of x" using x(2) by (auto simp: stored_in_mem)
      obtain y where y: "y \<in> set (stored_in f parse F rel ?o (Suc ?o))" "y \<notin> set printed" "start_of y < start_of x"
        using mark(4) [OF x(1) at] by (elim exE conjE)
      then show ?thesis using split [of y] stored_in_whole [OF y(1)] by blast
    qed
    have seg: "x \<in> set (stored_in f parse F rel n m) \<Longrightarrow> of_segment rel x" for x n m by (simp add: stored_in_mem)
    have "set (filter (of_segment rel) printed) \<union> set (filter (of_segment rel) new) = set ?all"
    proof (intro equalityI subsetI)
      fix x assume "x \<in> set (filter (of_segment rel) printed) \<union> set (filter (of_segment rel) new)"
      then show "x \<in> set ?all" using subsetD [OF mark(2) [of rel]] split [of x] unfolding news by blast
    next
      fix x assume x: "x \<in> set ?all"
      then have "x \<in> set printed \<or> x \<in> set (filter (of_segment rel) new)"
        using subsetD [OF mark(3) [of rel]] split [of x] unfolding news by blast
      then show "x \<in> set (filter (of_segment rel) printed) \<union> set (filter (of_segment rel) new)"
        using seg [OF x] by auto
    qed
    moreover have "distinct (filter (of_segment rel) new)"
      using mset_eq_imp_distinct_iff [OF new] stored_in_distinct by blast
    moreover have "\<forall>x\<in>set (filter (of_segment rel) printed) \<inter> set (filter (of_segment rel) new).
        \<exists>y\<in>set ?all. y \<notin> set (filter (of_segment rel) printed) \<and> start_of y < start_of x"
    proof
      fix x assume "x \<in> set (filter (of_segment rel) printed) \<inter> set (filter (of_segment rel) new)"
      then obtain y where "y \<in> set ?all" "y \<notin> set printed" "start_of y < start_of x"
        using dups [of x] unfolding news by auto
      then show "\<exists>y\<in>set ?all. y \<notin> set (filter (of_segment rel) printed) \<and> start_of y < start_of x" by auto
    qed
    ultimately show ?thesis using mark(1) [of rel] by (simp add: completes_def)
  qed
  then show thesis using s that by blast
qed

text \<open>C9: Resuming from a bookmark drops nothing. Whatever a run that reads everything printed before a bookmark,
  while segments grew and records came in any order, and whatever its end: a replay from that bookmark
  prints, with it, every record of a segment that passes the filters, each at most once in each run and nothing else (\<open>completes\<close>). A record is
  printed by both only if it was printed out of order, before an earlier record of its segment.\<close>

theorem cursor_resumes:
  assumes codec: "\<forall>x. cc_decode K (cc_encode K x) = Some x"
      "\<forall>s. cc_parse K (cc_ser K \<lparr>ct_v = 1, ct_s = s\<rparr>) = Some \<lparr>ct_v = 1, ct_s = s\<rparr>"
    and first: "cmd_events C K e opts = Some (res, em)" "eo_from_cursor opts = None" "eo_sessions opts = []"
      "world_within F (sn_replay e)" "\<forall>(w, idle)\<in>set (sn_rounds e). world_within F w"
      "em_items em = before @ BookmarkItem ts tok # rest"
    and again: "cmd_events C K e' (opts\<lparr>eo_from_cursor := Some tok, eo_follow := False\<rparr>) = Some (EventsReturned, em')"
      "\<forall>n. pp_ok (sn_pipe e') n" "world_within F (sn_replay e')"
    and shown: "pw_sessions (sn_replay e') = Inr targets" "(ns, name) \<in> set targets"
      "sf_segments (pw_files (sn_replay e') ns name) = Some segs" "(seg, SegContent (F (rel_path ns name seg))) \<in> set segs" "utf8_valid seg"
  shows "let rel = rel_path ns name seg; all = stored_in (option_filters opts) (sc_parse C) F rel 0 (end_of_lines (sc_parse C) (F rel));
      old = filter (of_segment rel) (records_of before); new = filter (of_segment rel) (records_of (em_items em'))
    in completes all old new"
proof -
  define rel where "rel = rel_path ns name seg"
  let ?o2 = "opts\<lparr>eo_from_cursor := Some tok, eo_follow := False\<rparr>" and ?f = "option_filters opts" and ?stop = "end_of_lines (sc_parse C) (F rel)"
  have sessions: "eo_sessions ?o2 = []" using first(3) by simp
  have "exclusive_starts ?o2" using again(1) by (auto simp: cmd_events_def Let_def split: if_splits)
  then have starts: "\<not> eo_from_now opts" "eo_since opts = None" "eo_last opts = None"
    by (auto simp: exclusive_starts_def split: if_splits)
  have now: "\<not> eo_from_now ?o2" using starts(1) by simp
  have run1: "stream_events C K e opts (new_reader opts None []) = Some (res, em)"
    using cmd_events_run [OF first(1,3) starts(1)] first(2,6) by (auto simp: seeded_offsets_def)
  have zero: "offset_of [] = (\<lambda>rel. 0)" "\<forall>rel. at_line (F rel) (offset_of [] rel)" by (simp_all add: offset_of_def at_line_def fun_eq_iff)
  have "marks_ok K ?f (sc_parse C) F (offset_of []) (em_items em)"
    by (rule stream_events_marks [OF run1 first(4,5) emits_start [OF bt_ok_Nil zero(2)] _ starts(3)])
      (simp add: new_reader_def option_filters_def)
  then have "good_mark K ?f (sc_parse C) F (\<lambda>rel. 0) (records_of before) tok"
    using first(6) unfolding marks_ok_def zero(1) by blast
  then obtain streams where s: "tok = encode_cursor K streams" "bt_ok streams" "\<forall>rel. at_line (F rel) (offset_of streams rel)"
    and complete: "\<And>new. mset (filter (of_segment rel) new) = mset (stored_in ?f (sc_parse C) F rel (offset_of streams rel) ?stop) \<Longrightarrow>
       completes (stored_in ?f (sc_parse C) F rel 0 ?stop) (filter (of_segment rel) (records_of before)) (filter (of_segment rel) new)"
    by (rule good_mark_completes) blast
  have seeded: "seeded_offsets K (sn_is_file e') (eo_from_cursor ?o2) = Inr s' \<Longrightarrow> s' = streams" for s'
    using decode_encode [OF codec s(2)] by (auto simp: seeded_offsets_def s(1) Let_def split: if_splits)
  have run2: "stream_events C K e' ?o2 (new_reader ?o2 None streams) = Some (EventsReturned, em')"
    using cmd_events_run [OF again(1) sessions now] seeded by blast
  have follow: "\<not> eo_follow ?o2" and last: "eo_last ?o2 = None" and filters: "er_filters (new_reader ?o2 None streams) = ?f"
    and listed: "er_explicit (new_reader ?o2 None streams) = None"
    using starts(3) by (simp_all add: new_reader_def option_filters_def)
  show ?thesis
    using complete [OF replay_prints [OF run2 again(3) follow emits_start [OF s(2,3)] filters last again(2) listed shown, folded rel_def]]
    by (simp add: rel_def)
qed

definition demo_cursors :: cursor_codec where
  "demo_cursors = \<lparr>cc_encode = id, cc_decode = Some, cc_ser = (\<lambda>t. replicate (to_nat (map (map_prod (map unat) id) (ct_s t))) 0),
     cc_parse = (\<lambda>bs. Some \<lparr>ct_v = 1, ct_s = map (map_prod (map of_nat) id) (from_nat (length bs))\<rparr>)\<rparr>"

definition demo_stream_codec :: "nat stream_codec" where
  "demo_stream_codec = \<lparr>sc_parse = (\<lambda>_. Some demo_event), sc_event = (\<lambda>_. []), sc_json = (\<lambda>_. []), sc_value = (\<lambda>_. None),
     sc_log = \<lparr>lc_parse = (\<lambda>_. None), lc_ser = (\<lambda>_. []), lc_json = (\<lambda>_. []), lc_us = of_nat\<rparr>, sc_ts = (\<lambda>_. EventTimestamp 0 0)\<rparr>"

definition demo_world :: poll_world where
  "demo_world = \<lparr>pw_sessions = Inr [(Namespace [0x64], SessionName [0x73])],
     pw_files = (\<lambda>_ _. \<lparr>sf_segments = Some [([0x61], SegContent [0x78, 0x0a])], sf_log = None, sf_log_len = None, sf_meta = None\<rparr>)\<rparr>"

definition demo_stream :: stream_env where
  "demo_stream = \<lparr>sn_is_file = (\<lambda>_. True), sn_history = demo_world, sn_replay = demo_world,
     sn_pipe = \<lparr>pp_ok = (\<lambda>_. True), pp_now = (\<lambda>_. EventTimestamp 0 0)\<rparr>, sn_ready = None, sn_rounds = []\<rparr>"

definition demo_options :: "bytes option \<Rightarrow> events_options" where
  "demo_options from_cursor = \<lparr>eo_namespace = None, eo_sessions = [], eo_kinds = [], eo_sources = [], eo_follow = False, eo_from_now = False,
     eo_from_cursor = from_cursor, eo_since = None, eo_last = None, eo_cursors = True, eo_include_logs = False, eo_strict = False,
     eo_ready_file = False\<rparr>"

definition demo_rel :: bytes where "demo_rel = rel_path (Namespace [0x64]) (SessionName [0x73]) [0x61]"

lemma demo_rel_value: "demo_rel = [0x64, 0x2f, 0x73, 0x2f, 0x65, 0x76, 0x65, 0x6e, 0x74, 0x73, 0x2f, 0x61]"
  unfolding demo_rel_def by code_simp

lemma demo_cursor_law: "cc_parse demo_cursors (cc_ser demo_cursors \<lparr>ct_v = 1, ct_s = s\<rparr>) = Some \<lparr>ct_v = 1, ct_s = s\<rparr>"
  by (simp add: demo_cursors_def prod.map_comp comp_def prod.map_ident map_idI)

lemma demo_segment_reads: "segment_loop (\<lambda>_. Some demo_event) 0 [0x78, 0x0a] = ([\<lparr>sr_event = demo_event, sr_start = 0, sr_end = 2\<rparr>], 0, 2)"
  "segment_loop (\<lambda>_. Some demo_event) 2 [] = ([], 0, 2)"
  by (simp_all add: segment_loop.simps [of _ 0] segment_loop.simps [of _ 2] segment_loop.simps [of _ "Suc (Suc 0)"]
      strip_cr_def parse_line_def)

lemma demo_stream_run:
  "cmd_events demo_stream_codec demo_cursors demo_stream (demo_options None) = Some (EventsReturned,
     \<lparr>em_items = [RecordItem (Stored demo_event demo_rel 0), BookmarkItem (EventTimestamp 0 0) (encode_cursor demo_cursors [(demo_rel, 2)])],
      em_ops = 4, em_count = 0\<rparr>)"
  by (simp add: cmd_events_def demo_options_def exclusive_starts_def seeded_offsets_def new_reader_def seed_tracker_def
      stream_events_def poll_def poll_segments_def demo_stream_def demo_world_def demo_stream_codec_def demo_rel_def [symmetric]
      read_segment_def read_segment_records_def demo_segment_reads offset_of_def take_record_def event_passes_def passes_filters_def
      note_read_to_def note_pending_def pending_starts_def note_consumed_def emit_batch_def consume_record_def
      bookmark_every_records_def write_bookmark_def tracker_token_def tracker_streams_def bt_remove_def insort_insert_key_def Let_def)

lemma demo_resumed_run:
  "cmd_events demo_stream_codec demo_cursors demo_stream (demo_options (Some (encode_cursor demo_cursors [(demo_rel, 2)]))) = Some (EventsReturned,
     \<lparr>em_items = [BookmarkItem (EventTimestamp 0 0) (encode_cursor demo_cursors [(demo_rel, 2)])], em_ops = 3, em_count = 0\<rparr>)"
proof -
  have "decode_cursor demo_cursors (encode_cursor demo_cursors [(demo_rel, 2)]) = Inr [(demo_rel, 2)]"
    by (rule decode_encode) (simp_all add: demo_cursor_law, simp add: demo_cursors_def)
  moreover have "\<not> stream_gone (\<lambda>_. True) demo_rel" unfolding demo_rel_value by code_simp
  ultimately show ?thesis
  by (simp add: cmd_events_def demo_options_def exclusive_starts_def seeded_offsets_def new_reader_def seed_tracker_def
      stream_events_def poll_def poll_segments_def demo_stream_def demo_world_def demo_stream_codec_def demo_rel_def [symmetric]
      read_segment_def read_segment_records_def demo_segment_reads offset_of_def take_record_def event_passes_def passes_filters_def
      note_read_to_def note_pending_def pending_starts_def note_consumed_def emit_batch_def consume_record_def
      bookmark_every_records_def write_bookmark_def tracker_token_def tracker_streams_def bt_remove_def insort_insert_key_def Let_def)
qed

theorem cursor_resumes_witness:
  "completes (stored_in (option_filters (demo_options None)) (sc_parse demo_stream_codec) (\<lambda>_. [0x78, 0x0a]) demo_rel 0
       (end_of_lines (sc_parse demo_stream_codec) [0x78, 0x0a])) [Stored demo_event demo_rel 0] []"
proof -
  have opts: "(demo_options None)\<lparr>eo_from_cursor := Some tok, eo_follow := False\<rparr> = demo_options (Some tok)" for tok
    by (simp add: demo_options_def)
  have within: "world_within (\<lambda>_. [0x78, 0x0a]) demo_world" by (auto simp: world_within_def demo_world_def)
  show ?thesis
    using cursor_resumes [where K = demo_cursors and C = demo_stream_codec and e = demo_stream and opts = "demo_options None"
        and F = "\<lambda>_. [0x78, 0x0a]" and before = "[RecordItem (Stored demo_event demo_rel 0)]" and e' = demo_stream
        and ns = "Namespace [0x64]" and name = "SessionName [0x73]" and seg = "[0x61]" and rest = "[]",
        OF _ _ demo_stream_run _ _ _ _ _ demo_resumed_run [folded opts]] demo_cursor_law within
    by (simp add: demo_rel_def [symmetric] Let_def demo_stream_def demo_world_def)
      (simp add: demo_cursors_def demo_options_def)
qed

end
