(* ===== verification/Attach_Escape.thy ===== *)
theory Attach_Escape
  imports Std_Text Interfaces "HOL-Library.Sublist"
begin

text \<open>
  The attach client's detach escape, \<open>src/src/attach_escape.rs\<close>: keystrokes are cut into tokens
  (single bytes and CSI sequences), each classified as a press of the prefix key, a press of the
  detach key, an incidental event or anything else, and forwarded, held or swallowed. An
  \<open>Instant\<close> is a number of milliseconds, given to every operation that reads the clock. The
  operations return the new parser with the bytes they append to \<open>forward\<close>.
\<close>

subsection \<open>Constants, keys and tokens\<close>

definition prefix_byte :: u8 where "prefix_byte = 0x1c"
definition detach_byte :: u8 where "detach_byte = 0x64"
definition partial_hold :: nat where "partial_hold = 20"
definition esc :: u8 where "esc = 0x1b"
definition max_sequence :: nat where "max_sequence = 64"
definition key_backslash :: u32 where "key_backslash = 92"
definition key_d :: u32 where "key_d = 100"
definition mod_ctrl :: u32 where "mod_ctrl = 4"
definition mod_locks :: u32 where "mod_locks = 64 OR 128"
definition event_press :: u32 where "event_press = 1"
definition event_repeat :: u32 where "event_repeat = 2"
definition event_release :: u32 where "event_release = 3"

lemmas escape_consts = prefix_byte_def detach_byte_def partial_hold_def esc_def max_sequence_def
  key_backslash_def key_d_def mod_ctrl_def mod_locks_def event_press_def event_repeat_def
  event_release_def

datatype escape_mode = CtrlBackslash | EscapeDisabled

datatype escape = EscapeContinue | EscapeDetach

datatype key = PrefixKey | DetachKey | Incidental bool | OtherKey

datatype key_token = Complete nat key | Unfinished

text \<open>\<open>e_since\<close> is when the unfinished sequence \<open>e_partial\<close> began to be held.\<close>

record escape_parser =
  e_mode :: escape_mode
  e_prefix :: "bytes option"
  e_between :: bytes
  e_between_kept :: bytes
  e_partial :: bytes
  e_since :: "nat option"

subsection \<open>Classification of CSI sequences\<close>

definition number :: "bytes \<Rightarrow> u32 option" where
  "number ds =
     (if ds = [] \<or> \<not> utf8_valid ds then None else map_option of_nat (parse_uint (2 ^ 32 - 1) ds))"

definition number_or :: "bytes option \<Rightarrow> u32 \<Rightarrow> u32 option" where
  "number_or digits dflt =
     (case digits of None \<Rightarrow> Some dflt | Some ds \<Rightarrow> if ds = [] then Some dflt else number ds)"

definition is_modifier_key :: "u32 \<Rightarrow> bool" where
  "is_modifier_key code \<longleftrightarrow> 57358 \<le> code \<and> code \<le> 57360 \<or> 57441 \<le> code \<and> code \<le> 57454"

definition key_event :: "u32 \<Rightarrow> u32 \<Rightarrow> u32 \<Rightarrow> key" where
  "key_event code modifiers event =
     (if modifiers = 0 then OtherKey
      else let held = (modifiers - 1) AND NOT mod_locks in
        if code = key_backslash \<and> held = mod_ctrl \<and> event = event_press then PrefixKey
        else if code = key_d \<and> held = 0 \<and> event = event_press then DetachKey
        else OtherKey)"

text \<open>The bytes the classification accepts as parameters: digits, \<open>:\<close> and \<open>;\<close>.\<close>

definition param_char :: "u8 \<Rightarrow> bool" where
  "param_char b \<longleftrightarrow> is_digit b \<or> b = 0x3a \<or> b = 0x3b"

definition kitty_final :: "u8 \<Rightarrow> bool" where
  "kitty_final b \<longleftrightarrow> b \<in> {0x75, 0x7e} \<or> 0x41 \<le> b \<and> b \<le> 0x46 \<or> b \<in> {0x48, 0x50, 0x51, 0x53}"

text \<open>The first \<open>:\<close>-separated part of a key field, as a number.\<close>

definition key_code :: "bytes \<Rightarrow> u32 option" where
  "key_code field = number (split_on 0x3a field ! 0)"

definition classify_csi :: "bytes \<Rightarrow> u8 \<Rightarrow> key option" where
  "classify_csi params final =
     (if \<not> list_all param_char params then None
      else let fields = split_on 0x3b params in
        if final = 0x7e \<and> length fields = 3 \<and> fields ! 0 = [0x32, 0x37] then
          do { code \<leftarrow> number (fields ! 2);
               modifiers \<leftarrow> number (fields ! 1);
               Some (key_event code modifiers event_press) }
        else if \<not> kitty_final final \<or> length fields > 3 then None
        else let modifier = split_on 0x3a (case at_index fields 1 of Some m \<Rightarrow> m | None \<Rightarrow> []) in
          do { modifiers \<leftarrow> number_or (at_index modifier 0) 1;
               event \<leftarrow> number_or (at_index modifier 1) event_press;
               if length modifier > 2 then None
               else let code = key_code (fields ! 0) in
                 if event = event_release then
                   Some (Incidental (final = 0x75 \<and> code = Some key_backslash))
                 else if final \<noteq> 0x75 \<or> event \<notin> {event_press, event_repeat} then None
                 else do { c \<leftarrow> code;
                   if event = event_repeat \<and> c = key_backslash then Some (Incidental True)
                   else if is_modifier_key c then Some (Incidental False)
                   else Some (key_event c modifiers event) } })"

definition csi_key :: "bytes \<Rightarrow> u8 \<Rightarrow> key" where
  "csi_key params final = (case classify_csi params final of Some k \<Rightarrow> k | None \<Rightarrow> OtherKey)"

subsection \<open>Tokens\<close>

text \<open>The loop over the bytes of a CSI from index \<open>i\<close> up to the limit.\<close>

definition csi_param :: "u8 \<Rightarrow> bool" where
  "csi_param b \<longleftrightarrow> 0x20 \<le> b \<and> b \<le> 0x3f"

fun csi_loop :: "bytes \<Rightarrow> nat \<Rightarrow> bytes \<Rightarrow> key_token option" where
  "csi_loop input i [] = None"
| "csi_loop input i (b # bs) =
     (if csi_param b then csi_loop input (Suc i) bs
      else if 0x40 \<le> b \<and> b \<le> 0x7e then
        Some (Complete (i + 1) (csi_key (take (i - 2) (drop 2 input)) b))
      else Some (Complete i OtherKey))"

definition escape_sequence :: "bytes \<Rightarrow> key_token" where
  "escape_sequence input =
     (case at_index input 1 of
        None \<Rightarrow> Unfinished
      | Some b \<Rightarrow>
          if b \<noteq> 0x5b then Complete 1 OtherKey
          else (case csi_loop input 2 (drop 2 (take (min (length input) max_sequence) input)) of
                  Some t \<Rightarrow> t
                | None \<Rightarrow> if length input \<ge> max_sequence then Complete max_sequence OtherKey
                          else Unfinished))"

text \<open>Only called with at least one byte.\<close>

fun token :: "bytes \<Rightarrow> key_token" where
  "token (b # bs) =
     (if b = prefix_byte then Complete 1 PrefixKey
      else if b = detach_byte then Complete 1 DetachKey
      else if b = esc then escape_sequence (b # bs)
      else Complete 1 OtherKey)"

text \<open>Whether an unfinished sequence could still become a press of the prefix key.\<close>

definition could_become_prefix :: "bytes \<Rightarrow> bool" where
  "could_become_prefix unfinished =
     (case strip_prefix [esc] unfinished of
        None \<Rightarrow> False
      | Some rest \<Rightarrow>
        (case strip_prefix [0x5b] rest of
           None \<Rightarrow> rest = []
         | Some params \<Rightarrow>
             if \<not> list_all param_char params then False
             else let fields = split_on 0x3b params;
                      key = fields ! 0;
                      code = split_on 0x3a key ! 0;
                      kitty =
                        (if length fields = 1 \<and> length code = length key
                         then starts_with code [0x39, 0x32]
                         else code = [0x39, 0x32] \<and> length fields \<le> 3 \<and>
                           (case at_index fields 1 of None \<Rightarrow> True
                            | Some m \<Rightarrow> length (filter (\<lambda>b. b = 0x3a) m) \<le> 1));
                      xterm =
                        (if length fields = 1 then starts_with key [0x32, 0x37]
                         else key = [0x32, 0x37] \<and> length fields \<le> 3 \<and> 0x3a \<notin> set (fields ! 1) \<and>
                           (case at_index fields 2 of None \<Rightarrow> True
                            | Some c \<Rightarrow> starts_with c [0x39, 0x32]))
                  in kitty \<or> xterm))"

subsection \<open>The parser\<close>

definition new_parser :: "escape_mode \<Rightarrow> escape_parser" where
  "new_parser m = \<lparr>e_mode = m, e_prefix = None, e_between = [], e_between_kept = [],
     e_partial = [], e_since = None\<rparr>"

definition decide :: "bytes \<Rightarrow> key \<Rightarrow> escape_parser \<Rightarrow> escape_parser \<times> bytes \<times> escape" where
  "decide bs k s =
     (case e_prefix s of
        None \<Rightarrow>
          if k = PrefixKey then (s\<lparr>e_prefix := Some bs\<rparr>, [], EscapeContinue)
          else (s, bs, EscapeContinue)
      | Some p \<Rightarrow>
          (case k of
             Incidental of_backslash \<Rightarrow>
               (s\<lparr>e_between := e_between s @ bs,
                  e_between_kept := (if of_backslash then e_between_kept s
                                     else e_between_kept s @ bs)\<rparr>, [], EscapeContinue)
           | DetachKey \<Rightarrow>
               (s\<lparr>e_prefix := None, e_between := [], e_between_kept := []\<rparr>,
                e_between_kept s, EscapeDetach)
           | PrefixKey \<Rightarrow>
               (s\<lparr>e_prefix := None, e_between := [], e_between_kept := []\<rparr>,
                e_between_kept s @ bs, EscapeContinue)
           | OtherKey \<Rightarrow>
               (s\<lparr>e_prefix := None, e_between := [], e_between_kept := []\<rparr>,
                p @ e_between s @ bs, EscapeContinue)))"

lemma csi_loop_length:
  "csi_loop input i bs = Some (Complete n k) \<Longrightarrow> i \<le> n \<and> n \<le> i + length bs"
  by (induction bs arbitrary: i) (fastforce split: if_splits)+

text \<open>A token is at least one byte long and lies within the input.\<close>

lemma token_length:
  "token (b # bs) = Complete n k \<Longrightarrow> 0 < n \<and> n \<le> Suc (length bs)"
  by (auto simp: escape_sequence_def max_sequence_def at_index_def split: if_splits option.splits
      dest!: csi_loop_length)

text \<open>
  The loop of \<open>feed\<close> at index \<open>at\<close>, with \<open>rest = &bytes[at..]\<close>; the result is the parser, the
  bytes appended to \<open>forward\<close> and the decision.
\<close>

function feed_loop :: "nat \<Rightarrow> nat \<Rightarrow> bytes \<Rightarrow> escape_parser \<Rightarrow> escape_parser \<times> bytes \<times> escape" where
  "feed_loop now at [] s = (s\<lparr>e_since := None\<rparr>, [], EscapeContinue)"
| "feed_loop now at (b # bs) s =
     (case token (b # bs) of
        Complete n k \<Rightarrow>
          (let (s1, o1, d) = decide (take n (b # bs)) k s in
           if d = EscapeDetach then (s1\<lparr>e_since := None\<rparr>, o1, EscapeDetach)
           else let (s2, o2, d2) = feed_loop now (at + n) (drop n (b # bs)) s1 in (s2, o1 @ o2, d2))
      | Unfinished \<Rightarrow>
          if e_prefix s \<noteq> None \<or> could_become_prefix (b # bs) then
            (s\<lparr>e_since := (if at > 0 \<or> e_since s = None then Some now else e_since s),
               e_partial := b # bs\<rparr>, [], EscapeContinue)
          else (s\<lparr>e_since := None\<rparr>, b # bs, EscapeContinue))"
  by pat_completeness auto

termination
proof (relation "measure (\<lambda>(now, at, rest, s). length rest)", goal_cases)
  case 1
  show ?case by simp
next
  case (2 now at b bs s n k x s1 y o1 d)
  then have "0 < n" using token_length by blast
  then show ?case by simp
qed

definition feed :: "nat \<Rightarrow> bytes \<Rightarrow> escape_parser \<Rightarrow> escape_parser \<times> bytes \<times> escape" where
  "feed now input s =
     (if e_mode s = EscapeDisabled then (s, input, EscapeContinue)
      else feed_loop now 0 (e_partial s @ input) (s\<lparr>e_partial := []\<rparr>))"

definition partial_deadline :: "escape_parser \<Rightarrow> nat option" where
  "partial_deadline s = map_option (\<lambda>since. since + partial_hold) (e_since s)"

definition flush_expired :: "nat \<Rightarrow> escape_parser \<Rightarrow> escape_parser \<times> bytes" where
  "flush_expired now s =
     (case partial_deadline s of
        None \<Rightarrow> (s, [])
      | Some due \<Rightarrow>
          if now < due then (s, [])
          else let (s1, o1, _) = decide (e_partial s) OtherKey (s\<lparr>e_since := None, e_partial := []\<rparr>)
               in (s1, o1))"

subsection \<open>The client's keyboard loop\<close>

text \<open>
  The part of the client's loop (\<open>src/src/commands/attach.rs\<close>) that drives the parser: a read of
  the keyboard feeds it, a wait that ends without keystrokes flushes it. The result is the parser
  (\<open>None\<close> once the loop ended in a detach) with the bytes queued for the session.
\<close>

datatype keyboard_event = KeysRead nat bytes | KeyboardIdle nat

fun relay_event :: "keyboard_event \<Rightarrow> escape_parser option \<Rightarrow> escape_parser option \<times> bytes" where
  "relay_event ev None = (None, [])"
| "relay_event (KeysRead now input) (Some s) =
     (case feed now input s of (s1, o1, d) \<Rightarrow> (if d = EscapeDetach then None else Some s1, o1))"
| "relay_event (KeyboardIdle now) (Some s) =
     (case flush_expired now s of (s1, o1) \<Rightarrow> (Some s1, o1))"

fun relay :: "keyboard_event list \<Rightarrow> escape_parser option \<Rightarrow> escape_parser option \<times> bytes" where
  "relay [] st = (st, [])"
| "relay (e # es) st =
     (let (st1, o1) = relay_event e st; (st2, o2) = relay es st1 in (st2, o1 @ o2))"

text \<open>Everything typed, and when the reads took place.\<close>

fun typed :: "keyboard_event list \<Rightarrow> bytes" where
  "typed [] = []"
| "typed (KeysRead now input # es) = input @ typed es"
| "typed (KeyboardIdle now # es) = typed es"

fun read_times :: "keyboard_event list \<Rightarrow> nat list" where
  "read_times [] = []"
| "read_times (KeysRead now input # es) = now # read_times es"
| "read_times (KeyboardIdle now # es) = read_times es"

end
