(* ===== verification/Attach_Client.thy ===== *)
theory Attach_Client
  imports Attach_Escape Attach_Proto Session_Commands
begin

text \<open>
  The attach client (\<open>src/src/commands/attach.rs\<close>): the checks before it connects, the hello, the outbox
  that the sender thread empties, the relay of the terminal, its signals and how it ends. What the socket,
  the terminal and the clock answer is an argument.
\<close>

subsection \<open>Connecting\<close>

datatype attach_failure = SocketMissing | ConnectFailed | PeerRefused error_kind | HandshakeFailed | SessionRefused reject_class bytes
  | UnexpectedReply frame | UnknownReply u8 | MalformedReply protocol_error | NoReply | ClosedBeforeReply error_kind

definition failure_code :: "attach_failure \<Rightarrow> pty_exit_code" where
  "failure_code f =
     (case f of
        SocketMissing \<Rightarrow> RuntimeExit
      | ConnectFailed \<Rightarrow> RuntimeExit
      | PeerRefused e \<Rightarrow> of_peer_check e
      | HandshakeFailed \<Rightarrow> RuntimeExit
      | SessionRefused c reason \<Rightarrow> reject_exit c
      | UnexpectedReply r \<Rightarrow> ProtocolExit
      | UnknownReply t \<Rightarrow> ProtocolExit
      | MalformedReply e \<Rightarrow> ProtocolExit
      | NoReply \<Rightarrow> ProtocolExit
      | ClosedBeforeReply e \<Rightarrow> RuntimeExit)"

text \<open>\<open>timed_out\<close> tells the kinds of error that a deadline gives, besides \<open>WouldBlock\<close>.\<close>

definition hello_reply :: "(error_kind \<Rightarrow> bool) \<Rightarrow> frame_error + frame \<Rightarrow> attach_failure + unit" where
  "hello_reply timed_out reply =
     (case reply of
        Inr (AcceptedAt e) \<Rightarrow> Inr ()
      | Inr (Rejected c reason) \<Rightarrow> Inl (SessionRefused c reason)
      | Inr other \<Rightarrow> Inl (UnexpectedReply other)
      | Inl (FrameUnknown t) \<Rightarrow> Inl (UnknownReply t)
      | Inl (FrameMalformed e) \<Rightarrow> Inl (MalformedReply e)
      | Inl (FrameIo k) \<Rightarrow> Inl (if k = WouldBlock \<or> timed_out k then NoReply else ClosedBeforeReply k))"

record hello_env =
  he_timeout_set :: bool
  he_nonblocking_set :: bool
  he_sent :: bool
  he_reply :: "frame_error + frame"
  he_timeout_cleared :: bool

text \<open>Without a read timeout the hello is not written, and what can be read without waiting decides.\<close>

definition client_hello :: "(error_kind \<Rightarrow> bool) \<Rightarrow> hello_env \<Rightarrow> attach_failure + unit" where
  "client_hello timed_out e =
     (if \<not> he_timeout_set e \<and> \<not> he_nonblocking_set e then Inl HandshakeFailed
      else if \<not> (he_timeout_set e \<and> he_sent e) \<and> (case he_reply e of Inl (FrameIo k) \<Rightarrow> True | _ \<Rightarrow> False) then Inl HandshakeFailed
      else case hello_reply timed_out (he_reply e) of
        Inl f \<Rightarrow> Inl f
      | Inr _ \<Rightarrow> if he_timeout_cleared e then Inr () else Inl HandshakeFailed)"

record connect_env =
  co_socket :: "bytes option"
  co_connected :: bool
  co_peer :: "error_kind option"
  co_hello :: hello_env

definition connect :: "(error_kind \<Rightarrow> bool) \<Rightarrow> connect_env \<Rightarrow> attach_failure + unit" where
  "connect timed_out e =
     (if co_socket e = None then Inl SocketMissing
      else if \<not> co_connected e then Inl ConnectFailed
      else case co_peer e of
        Some k \<Rightarrow> Inl (PeerRefused k)
      | None \<Rightarrow> client_hello timed_out (co_hello e))"

text \<open>A failure of a command: its exit code, if it has one of its own, and why.\<close>

datatype client_end = ClientOk | ClientFailed "pty_exit_code option" bytes | ClientRefused attach_failure | SignalExit

definition client_code :: "client_end \<Rightarrow> int" where
  "client_code r =
     (case r of
        ClientOk \<Rightarrow> 0
      | ClientFailed c why \<Rightarrow> exit_code [c]
      | ClientRefused f \<Rightarrow> exit_code [Some (failure_code f)]
      | SignalExit \<Rightarrow> 1)"

definition is_running_status :: "run_status \<Rightarrow> bool" where
  "is_running_status s = (case s of Running c \<Rightarrow> True | _ \<Rightarrow> False)"

text \<open>The checks of \<open>cmd_attach\<close>; \<open>Inr\<close> goes on to connect.\<close>

definition attach_checks :: "(bytes \<Rightarrow> bytes + meta) \<Rightarrow> namespace \<Rightarrow> bytes \<Rightarrow> bool \<Rightarrow> session_look \<Rightarrow> session_look \<Rightarrow> bool
    \<Rightarrow> client_end + mode" where
  "attach_checks from_json ns raw take_over opened looked isatty =
     (case name_result ''session name'' (new_session_name raw) of
        Inl err \<Rightarrow> Inl (ClientFailed None err)
      | Inr name \<Rightarrow>
          (case look_open ns name opened of
             Inl err \<Rightarrow> Inl (ClientFailed None (show_session_error err))
           | Inr None \<Rightarrow> Inl (ClientFailed None (ascii ''session not found: '' @ raw))
           | Inr (Some _) \<Rightarrow>
               (case look_meta from_json name looked of
                  Inl err \<Rightarrow> Inl (ClientFailed None (show_session_error err))
                | Inr m \<Rightarrow>
                    (case pty m of
                       None \<Rightarrow> Inl (ClientFailed None (ascii ''session is not PTY-enabled''))
                     | Some p \<Rightarrow>
                         if \<not> is_running_status (status m) then Inl (ClientFailed (Some ControlExit) (ascii ''session is not running''))
                         else if \<not> take_over \<and> pty_control p = HumanControl then
                           Inl (ClientFailed (Some ControlExit)
                             (ascii ''session is already under human control (use --takeover to take it over)''))
                         else if \<not> isatty then Inl (ClientFailed None (ascii ''attach requires an interactive terminal on stdin''))
                         else Inr (if take_over then Takeover else Attach)))))"

subsection \<open>The outbox\<close>

definition outbox_data_limit :: nat where "outbox_data_limit = 2 ^ 20"

record outbox =
  ob_controls :: "frame list"
  ob_data :: "bytes list"
  ob_bytes :: nat
  ob_sending_control :: bool
  ob_closed :: bool

definition new_outbox :: outbox where
  "new_outbox = \<lparr>ob_controls = [], ob_data = [], ob_bytes = 0, ob_sending_control = False, ob_closed = False\<rparr>"

definition push_control_frame :: "frame \<Rightarrow> outbox \<Rightarrow> outbox" where
  "push_control_frame f b = b\<lparr>ob_controls := ob_controls b @ [f]\<rparr>"

definition push_data :: "bytes \<Rightarrow> outbox \<Rightarrow> bool \<times> outbox" where
  "push_data bs b =
     (if outbox_data_limit < ob_bytes b + length bs then (False, b)
      else (True, b\<lparr>ob_bytes := ob_bytes b + length bs, ob_data := ob_data b @ [bs]\<rparr>))"

datatype next_message = BoxClosed | BoxEmpty | NextFrame frame

definition outbox_next :: "outbox \<Rightarrow> next_message \<times> outbox" where
  "outbox_next b =
     (if ob_closed b then (BoxClosed, b)
      else case ob_controls b of
        c # cs \<Rightarrow> (NextFrame c, b\<lparr>ob_controls := cs, ob_sending_control := True\<rparr>)
      | [] \<Rightarrow>
          (case ob_data b of
             d # ds \<Rightarrow> (NextFrame (Data d), b\<lparr>ob_data := ds, ob_bytes := ob_bytes b - length d\<rparr>)
           | [] \<Rightarrow> (BoxEmpty, b)))"

definition sent_frame :: "outbox \<Rightarrow> outbox" where
  "sent_frame b = b\<lparr>ob_sending_control := False\<rparr>"

definition close_outbox :: "outbox \<Rightarrow> outbox" where
  "close_outbox b = b\<lparr>ob_closed := True\<rparr>"

definition controls_sent :: "outbox \<Rightarrow> bool" where
  "controls_sent b \<longleftrightarrow> ob_closed b \<or> ob_controls b = [] \<and> \<not> ob_sending_control b"

subsection \<open>The client\<close>

text \<open>
  The state that the client's threads share, with what was sent whole, what was dropped, and every
  piece that was accepted (the last two are there for the statements).
\<close>

datatype sender_state = SenderIdle | SenderWriting frame | SenderEnded

record client =
  cl_box :: outbox
  cl_sender :: sender_state
  cl_reading :: bool
  cl_closed :: bool
  cl_retired :: bool
  cl_parser :: escape_parser
  cl_size :: "geometry option"
  cl_dropped :: nat
  cl_sent :: "frame list"
  cl_shown :: bytes
  cl_queued :: "bytes list"

text \<open>One step of the sender: it takes the next message, or its write ends, with success or not.\<close>

definition sender_move :: "bool \<Rightarrow> client \<Rightarrow> client" where
  "sender_move ok s =
     (case cl_sender s of
        SenderEnded \<Rightarrow> s
      | SenderIdle \<Rightarrow>
          (case outbox_next (cl_box s) of
             (BoxClosed, b) \<Rightarrow> s\<lparr>cl_sender := SenderEnded\<rparr>
           | (BoxEmpty, b) \<Rightarrow> s
           | (NextFrame f, b) \<Rightarrow> s\<lparr>cl_sender := SenderWriting f, cl_box := b\<rparr>)
      | SenderWriting f \<Rightarrow>
          if ok then s\<lparr>cl_sender := SenderIdle, cl_box := sent_frame (cl_box s), cl_sent := cl_sent s @ [f]\<rparr>
          else s\<lparr>cl_sender := SenderEnded, cl_box := close_outbox (sent_frame (cl_box s)), cl_closed := True\<rparr>)"

text \<open>One frame read by the reader, while it goes on, and whether the terminal took what it holds.\<close>

definition reader_move :: "frame_error + frame \<Rightarrow> bool \<Rightarrow> client \<Rightarrow> client" where
  "reader_move r shown s =
     (if \<not> cl_reading s then s
      else case r of
        Inr (Data payload) \<Rightarrow>
          if shown then s\<lparr>cl_shown := cl_shown s @ payload\<rparr> else s\<lparr>cl_closed := True, cl_reading := False\<rparr>
      | Inr (RetiredAt e) \<Rightarrow> s\<lparr>cl_retired := True\<rparr>
      | Inl (FrameIo k) \<Rightarrow> s\<lparr>cl_closed := True, cl_reading := False\<rparr>
      | _ \<Rightarrow> s)"

definition queue_keystrokes :: "bytes \<Rightarrow> client \<Rightarrow> client" where
  "queue_keystrokes bs s =
     (if bs = [] then s
      else case push_data bs (cl_box s) of
        (True, b) \<Rightarrow> s\<lparr>cl_box := b, cl_queued := cl_queued s @ [bs]\<rparr>
      | (False, b) \<Rightarrow> s\<lparr>cl_dropped := cl_dropped s + length bs\<rparr>)"

definition queue_resize :: "geometry \<Rightarrow> client \<Rightarrow> client" where
  "queue_resize g s = s\<lparr>cl_box := push_control_frame (ResizeTo g) (cl_box s)\<rparr>"

subsection \<open>Signals\<close>

unbundle bit_operations_syntax

datatype cancel = Hangup | Terminate | Interrupt

definition all_cancels :: "cancel list" where "all_cancels = [Hangup, Terminate, Interrupt]"

fun cancel_number :: "cancel \<Rightarrow> nat" where
  "cancel_number Hangup = 1"
| "cancel_number Terminate = 15"
| "cancel_number Interrupt = 2"

definition sigwinch :: nat where "sigwinch = 28"

definition signal_bit :: "nat \<Rightarrow> u32" where
  "signal_bit n = push_bit (n mod 32) 1"

definition on_signal :: "nat \<Rightarrow> u32 \<Rightarrow> u32" where
  "on_signal n pending = pending OR signal_bit n"

text \<open>What arrived since the last time, and an empty set of pending signals.\<close>

definition take_signals :: "u32 \<Rightarrow> (cancel option \<times> bool) \<times> u32" where
  "take_signals pending =
     ((List.find (\<lambda>c. pending AND signal_bit (cancel_number c) \<noteq> 0) all_cancels, pending AND signal_bit sigwinch \<noteq> 0), 0)"

datatype disposition = SigDefault | SigIgnored | SigOther nat | OnSignal

text \<open>
  Installing the handlers over a table of dispositions; \<open>ok\<close> says of each signal whether it can be
  queried and whether it can be set (a wake pipe that cannot be made is a first signal that cannot be
  queried). The list is what dropping the handlers restores.
\<close>

definition wanted_signals :: "(nat \<times> bool) list" where
  "wanted_signals = map (\<lambda>c. (cancel_number c, True)) all_cancels @ [(sigwinch, False)]"

fun install_handlers :: "(nat \<Rightarrow> bool \<times> bool) \<Rightarrow> (nat \<times> bool) list \<Rightarrow> (nat \<Rightarrow> disposition) \<times> (nat \<times> disposition) list
    \<Rightarrow> bool \<times> (nat \<Rightarrow> disposition) \<times> (nat \<times> disposition) list" where
  "install_handlers ok [] s = (True, s)"
| "install_handlers ok ((n, keep_ignored) # ws) (t, previous) =
     (if \<not> fst (ok n) then (False, t, previous)
      else if keep_ignored \<and> t n = SigIgnored then install_handlers ok ws (t, previous)
      else if \<not> snd (ok n) then (False, t, previous)
      else install_handlers ok ws (t(n := OnSignal), previous @ [(n, t n)]))"

definition drop_handlers :: "(nat \<times> disposition) list \<Rightarrow> (nat \<Rightarrow> disposition) \<Rightarrow> nat \<Rightarrow> disposition" where
  "drop_handlers previous t = foldr (\<lambda>(n, old) t. t(n := old)) previous t"

subsection \<open>The relay\<close>

datatype keyboard_read = KeyboardData bytes | KeyboardEof | KeyboardInterrupted | KeyboardFailed

text \<open>
  One turn of the main thread: the other threads' moves before it and in between, what the poll and the
  signals say, whether the size is due, the size, and the read with its time.
\<close>

datatype other_move = SenderMove bool | ReaderMove "frame_error + frame" bool

fun move_other :: "other_move \<Rightarrow> client \<Rightarrow> client" where
  "move_other (SenderMove ok) s = sender_move ok s"
| "move_other (ReaderMove r shown) s = reader_move r shown s"

record relay_turn =
  rt_before :: "other_move list"
  rt_signal :: bool
  rt_received :: u32
  rt_size_due :: bool
  rt_size :: "geometry option"
  rt_between :: "other_move list"
  rt_keyboard :: bool
  rt_read :: keyboard_read
  rt_now :: nat

datatype ending = Detached | SessionClosed | KeyboardClosed | Signalled cancel

definition check_size :: "bool \<Rightarrow> geometry option \<Rightarrow> client \<Rightarrow> client" where
  "check_size due size_now s =
     (case size_now of
        Some g \<Rightarrow> if due \<and> size_now \<noteq> cl_size s then queue_resize g (s\<lparr>cl_size := size_now\<rparr>) else s
      | None \<Rightarrow> s)"

definition turn_keyboard :: "relay_turn \<Rightarrow> client \<Rightarrow> ending option \<times> client" where
  "turn_keyboard t s =
     (if \<not> rt_keyboard t then
        (case flush_expired (rt_now t) (cl_parser s) of
           (p, out) \<Rightarrow> (None, queue_keystrokes out (s\<lparr>cl_parser := p\<rparr>)))
      else case rt_read t of
        KeyboardEof \<Rightarrow> (Some KeyboardClosed, s)
      | KeyboardFailed \<Rightarrow> (Some KeyboardClosed, s)
      | KeyboardInterrupted \<Rightarrow> (None, s)
      | KeyboardData input \<Rightarrow>
          (case feed (rt_now t) input (cl_parser s) of
             (p, out, decision) \<Rightarrow>
               (if decision = EscapeDetach then Some Detached else None, queue_keystrokes out (s\<lparr>cl_parser := p\<rparr>))))"

definition take_turn :: "relay_turn \<Rightarrow> client \<Rightarrow> ending option \<times> client" where
  "take_turn t s0 =
     (let s = fold move_other (rt_before t) s0
      in if cl_closed s then (Some SessionClosed, s)
         else let (cancel, winch) = (if rt_signal t then fst (take_signals (rt_received t)) else (None, False))
              in case cancel of
                   Some c \<Rightarrow> (Some (Signalled c), s)
                 | None \<Rightarrow> turn_keyboard t (fold move_other (rt_between t) (check_size (rt_size_due t \<or> winch) (rt_size t) s)))"

fun relay_loop :: "relay_turn list \<Rightarrow> client \<Rightarrow> (ending \<times> client) option" where
  "relay_loop [] s = None"
| "relay_loop (t # ts) s =
     (case take_turn t s of
        (Some e, s') \<Rightarrow> Some (e, s')
      | (None, s') \<Rightarrow> relay_loop ts s')"

text \<open>
  The way out: a detach is queued as a control and waited for until it is written, the outbox is closed
  or the grace is over; the moves are those of the other threads until then. Then the socket is shut down.
\<close>

definition leave :: "ending \<Rightarrow> other_move list \<Rightarrow> client \<Rightarrow> client" where
  "leave e moves s =
     (let s1 = (case e of
                  Detached \<Rightarrow> s\<lparr>cl_box := push_control_frame Detach (cl_box s)\<rparr>
                | Signalled c \<Rightarrow> s\<lparr>cl_box := push_control_frame Detach (cl_box s)\<rparr>
                | _ \<Rightarrow> s);
          s2 = fold move_other moves s1
      in s2\<lparr>cl_box := close_outbox (cl_box s2)\<rparr>)"

datatype leave_note = EndedBy cancel | TakenOver | DroppedBytes nat

definition is_signalled :: "ending \<Rightarrow> bool" where
  "is_signalled e = (case e of Signalled c \<Rightarrow> True | _ \<Rightarrow> False)"

definition relay_notes :: "ending \<Rightarrow> client \<Rightarrow> leave_note list" where
  "relay_notes e s =
     (case e of Signalled c \<Rightarrow> [EndedBy c] | _ \<Rightarrow> []) @
     (if e = Detached then []
      else (if cl_retired s \<and> is_signalled e then [TakenOver] else []) @
           (if 0 < cl_dropped s then [DroppedBytes (cl_dropped s)] else []))"

definition relay_result :: "ending \<Rightarrow> client \<Rightarrow> client_end" where
  "relay_result e s =
     (if is_signalled e then SignalExit
      else if e \<noteq> Detached \<and> cl_retired s then
        ClientFailed (Some ControlExit) (ascii ''tendr: another client took over this session'')
      else ClientOk)"

definition new_client :: "escape_mode \<Rightarrow> geometry option \<Rightarrow> client" where
  "new_client m size0 =
     (let s = \<lparr>cl_box = new_outbox, cl_sender = SenderIdle, cl_reading = True, cl_closed = False, cl_retired = False, cl_parser = new_parser m,
               cl_size = size0, cl_dropped = 0, cl_sent = [], cl_shown = [], cl_queued = []\<rparr>
      in case size0 of Some g \<Rightarrow> queue_resize g s | None \<Rightarrow> s)"

text \<open>Raw mode: entered, or the attributes could not be read, or not be set.\<close>

datatype raw_answer = RawEntered | NoAttributes | RawRefused

definition raw_failure :: "raw_answer \<Rightarrow> bytes option" where
  "raw_failure a =
     (case a of
        RawEntered \<Rightarrow> None
      | NoAttributes \<Rightarrow> Some (ascii ''failed to get terminal attributes'')
      | RawRefused \<Rightarrow> Some (ascii ''failed to set raw mode''))"

record relay_env =
  re_cloned :: bool
  re_handlers :: "nat \<Rightarrow> bool \<times> bool"
  re_dispositions :: "nat \<Rightarrow> disposition"
  re_raw :: raw_answer
  re_size :: "geometry option"
  re_turns :: "relay_turn list"
  re_leaving :: "other_move list"

text \<open>What a relay leaves: the result and the notes, the dispositions of the signals, the client if it came to that.\<close>

record relay_left =
  rl_end :: client_end
  rl_notes :: "leave_note list"
  rl_dispositions :: "nat \<Rightarrow> disposition"
  rl_client :: "client option"

text \<open>\<open>None\<close> while the relay goes on.\<close>

definition client_relay :: "relay_env \<Rightarrow> escape_mode \<Rightarrow> relay_left option" where
  "client_relay e m =
     (let failed = (\<lambda>r t. Some \<lparr>rl_end = r, rl_notes = [], rl_dispositions = t, rl_client = None\<rparr>)
      in if \<not> re_cloned e then failed (ClientFailed (Some RuntimeExit) (ascii ''attach socket'')) (re_dispositions e)
      else case install_handlers (re_handlers e) wanted_signals (re_dispositions e, []) of
        (False, t, previous) \<Rightarrow>
          failed (ClientFailed None (ascii ''failed to install attach signal handlers'')) (drop_handlers previous t)
      | (True, t, previous) \<Rightarrow>
          (case raw_failure (re_raw e) of
             Some why \<Rightarrow> failed (ClientFailed None why) (drop_handlers previous t)
           | None \<Rightarrow>
               (case relay_loop (re_turns e) (new_client m (re_size e)) of
                  None \<Rightarrow> None
                | Some (ending, s) \<Rightarrow>
                    let s' = leave ending (re_leaving e) s
                    in Some \<lparr>rl_end = relay_result ending s', rl_notes = relay_notes ending s',
                             rl_dispositions = drop_handlers previous t, rl_client = Some s'\<rparr>)))"

subsection \<open>The command\<close>

record attach_call =
  ac_open :: session_look
  ac_read :: session_look
  ac_isatty :: bool
  ac_connect :: "mode \<Rightarrow> connect_env"
  ac_relay :: relay_env

text \<open>\<open>Inl\<close> is a failure before the relay.\<close>

definition cmd_attach :: "(error_kind \<Rightarrow> bool) \<Rightarrow> (bytes \<Rightarrow> bytes + meta) \<Rightarrow> attach_call \<Rightarrow> bytes \<Rightarrow> namespace
    \<Rightarrow> bool \<Rightarrow> escape_mode \<Rightarrow> (client_end + relay_left) option" where
  "cmd_attach timed_out from_json c raw ns take_over m =
     (case attach_checks from_json ns raw take_over (ac_open c) (ac_read c) (ac_isatty c) of
        Inl r \<Rightarrow> Some (Inl r)
      | Inr md \<Rightarrow>
          (case connect timed_out (ac_connect c md) of
             Inl f \<Rightarrow> Some (Inl (ClientRefused f))
           | Inr _ \<Rightarrow> map_option Inr (client_relay (ac_relay c) m)))"

subsection \<open>What was sent\<close>

fun data_bytes :: "frame list \<Rightarrow> bytes" where
  "data_bytes [] = []"
| "data_bytes (Data bs # fs) = bs @ data_bytes fs"
| "data_bytes (_ # fs) = data_bytes fs"

lemma data_bytes_append [simp]: "data_bytes (a @ b) = data_bytes a @ data_bytes b"
  by (induction a rule: data_bytes.induct) auto

text \<open>What the keyboard gave in one turn, for the keyboard loop of the detach escape.\<close>

definition turn_event :: "relay_turn \<Rightarrow> keyboard_event list" where
  "turn_event t =
     (if \<not> rt_keyboard t then [KeyboardIdle (rt_now t)]
      else case rt_read t of KeyboardData input \<Rightarrow> [KeysRead (rt_now t) input] | _ \<Rightarrow> [])"

end
