(* ===== verification/Attach_Escape_Props.thy ===== *)
theory Attach_Escape_Props
  imports Attach_Escape
begin

text \<open>
  Correctness of the detach escape: tokens do not depend on bytes that follow them, a sequence
  that is no longer held could not have become the prefix, so how the keystrokes are cut into
  reads does not change what is forwarded; what is forwarded is what was typed, in order; a
  detach follows a press of the prefix; and nothing unfinished is held past its deadline.
\<close>

subsection \<open>Tokens and their extensions\<close>

lemma csi_loop_None: "csi_loop inp i bs = None \<longleftrightarrow> list_all csi_param bs"
  by (induction bs arbitrary: i) auto

lemma csi_loop_stop:
  "list_all csi_param q \<Longrightarrow> \<not> csi_param b \<Longrightarrow>
   csi_loop inp i (q @ b # z) =
     Some (if 0x40 \<le> b \<and> b \<le> 0x7e
           then Complete (i + length q + 1) (csi_key (take (i + length q - 2) (drop 2 inp)) b)
           else Complete (i + length q) OtherKey)"
  by (induction q arbitrary: i) auto

lemma not_all_split:
  "\<not> list_all P xs \<Longrightarrow> \<exists>q b z. xs = q @ b # z \<and> list_all P q \<and> \<not> P b"
proof (induction xs)
  case Nil
  then show ?case by simp
next
  case (Cons x xs)
  show ?case
  proof (cases "P x")
    case True
    with Cons obtain q b z where "xs = q @ b # z" "list_all P q" "\<not> P b" by auto
    with True have "x # xs = (x # q) @ b # z \<and> list_all P (x # q) \<and> \<not> P b" by simp
    then show ?thesis by blast
  next
    case False
    then have "x # xs = [] @ x # xs \<and> list_all P [] \<and> \<not> P x" by simp
    then show ?thesis by blast
  qed
qed

lemma token_single:
  "b \<noteq> esc \<Longrightarrow> token (b # bs) = Complete 1
     (if b = prefix_byte then PrefixKey else if b = detach_byte then DetachKey else OtherKey)"
  by simp

lemma token_esc: "token [esc] = Unfinished"
  by (simp add: escape_sequence_def at_index_def escape_consts)

lemma token_esc_other: "c \<noteq> 0x5b \<Longrightarrow> token (esc # c # bs) = Complete 1 OtherKey"
  by (simp add: escape_sequence_def at_index_def escape_consts)

lemma token_csi_eq:
  "token (esc # 0x5b # r) =
     (case csi_loop (esc # 0x5b # r) 2 (take 62 r) of
        Some t \<Rightarrow> t
      | None \<Rightarrow> if length r \<ge> 62 then Complete 64 OtherKey else Unfinished)"
proof -
  have "min (Suc (Suc (length r))) 64 = Suc (Suc (min (length r) 62))" by simp
  then show ?thesis
    by (auto simp: escape_sequence_def at_index_def escape_consts split: option.splits)
qed

lemma token_csi_params:
  "list_all csi_param (take 62 r) \<Longrightarrow>
   token (esc # 0x5b # r) = (if length r \<ge> 62 then Complete 64 OtherKey else Unfinished)"
  using csi_loop_None [of "esc # 0x5b # r" 2 "take 62 r"] by (simp add: token_csi_eq del: token.simps)

lemma token_csi_stop:
  assumes "list_all csi_param q" "\<not> csi_param b" "length q < 62"
  shows "token (esc # 0x5b # q @ b # z) =
    (if 0x40 \<le> b \<and> b \<le> 0x7e then Complete (length q + 3) (csi_key q b)
     else Complete (length q + 2) OtherKey)"
proof -
  have "take 62 (q @ b # z) = q @ b # take (61 - length q) z"
    using assms(3) by (simp add: take_Cons' diff_diff_left)
  then show ?thesis
    using assms by (simp add: token_csi_eq csi_loop_stop del: token.simps)
qed

declare token.simps [simp del]

text \<open>The shapes of the input at the start of a token.\<close>

lemma token_cases:
  assumes "x \<noteq> []"
  obtains (single) b bs where "x = b # bs" "b \<noteq> esc"
  | (esc) "x = [esc]"
  | (other) c bs where "x = esc # c # bs" "c \<noteq> 0x5b"
  | (short) r where "x = esc # 0x5b # r" "list_all csi_param r" "length r < 62"
  | (long) r where "x = esc # 0x5b # r" "list_all csi_param (take 62 r)" "62 \<le> length r"
  | (stop) q b z where "x = esc # 0x5b # q @ b # z" "list_all csi_param q" "\<not> csi_param b" "length q < 62"
proof -
  consider b bs where "x = b # bs" "b \<noteq> esc" | "x = [esc]" | c bs where "x = esc # c # bs" "c \<noteq> 0x5b"
    | r where "x = esc # 0x5b # r"
    using assms by (metis neq_Nil_conv)
  then show thesis
  proof cases
    case 4
    show thesis
    proof (cases "list_all csi_param (take 62 r)")
      case True
      with 4 show thesis by (cases "length r < 62") (auto intro: short long)
    next
      case False
      then obtain q b z where *: "take 62 r = q @ b # z" "list_all csi_param q" "\<not> csi_param b"
        using not_all_split by blast
      then have "r = q @ b # z @ drop 62 r"
        using append_take_drop_id [of 62 r] by simp
      moreover have "length q < 62"
        using arg_cong [OF *(1), of length] by simp
      ultimately show thesis using * stop 4 by blast
    qed
  qed (auto intro: single esc other)
qed

lemma token_append:
  assumes "x \<noteq> []" "token x = Complete n k"
  shows "token (x @ y) = Complete n k"
  using assms(1)
proof (cases rule: token_cases)
  case (single b bs)
  then show ?thesis using assms by (simp add: token_single)
next
  case esc
  then show ?thesis using assms by (simp add: token_esc)
next
  case (other c bs)
  then show ?thesis using assms by (simp add: token_esc_other)
next
  case (short r)
  then show ?thesis using assms by (simp add: token_csi_params)
next
  case (long r)
  then show ?thesis using assms by (simp add: token_csi_params)
next
  case (stop q b z)
  then show ?thesis using assms token_csi_stop [of q b z] token_csi_stop [of q b "z @ y"] by simp
qed

lemma token_Unfinished:
  assumes "x \<noteq> []"
  shows "token x = Unfinished \<longleftrightarrow>
    x = [esc] \<or> (\<exists>r. x = esc # 0x5b # r \<and> list_all csi_param r \<and> length r < 62)"
  using assms
proof (cases rule: token_cases)
  case (stop q b z)
  then show ?thesis using token_csi_stop [of q b z] by simp
qed (auto simp: token_single token_esc token_esc_other token_csi_params)

subsection \<open>What a held sequence could become\<close>

lemma split_on_snoc:
  "split_on s (x @ [b]) =
     (if b = s then split_on s x @ [[]]
      else butlast (split_on s x) @ [List.last (split_on s x) @ [b]])"
  by (induction x) (auto split: list.splits)

lemma split_on_hd_snoc:
  "split_on s (x @ [b]) ! 0 =
     (if b \<noteq> s \<and> length (split_on s x) = 1 then split_on s x ! 0 @ [b] else split_on s x ! 0)"
  by (cases "split_on s x" rule: rev_cases) (auto simp: split_on_snoc nth_append)

lemma length_split_on: "length (split_on s xs) = Suc (length (filter (\<lambda>b. b = s) xs))"
  by (induction xs) (auto split: list.splits)

lemma split_on_hd_length: "s \<in> set xs \<Longrightarrow> length (split_on s xs ! 0) < length xs"
  by (induction xs) (auto split: list.splits simp: nth_Cons')

lemma split_on_hd_whole: "length (split_on s xs ! 0) = length xs \<longleftrightarrow> s \<notin> set xs"
  using split_on_hd_length [of s xs] split_on_no_sep [of s xs] by fastforce

lemma starts_with_prefix: "starts_with p xs \<longleftrightarrow> prefix p xs"
  by (metis append_eq_conv_conj append_take_drop_id prefix_def starts_with_def)

lemma starts_with_refl [simp]: "starts_with p p"
  by (simp add: starts_with_prefix)

lemma starts_with_snocD: "starts_with (c @ [b]) p \<Longrightarrow> starts_with c p"
  by (simp add: starts_with_prefix append_prefixD)

text \<open>The two ways to become the prefix, on the parameter bytes.\<close>

definition kitty_possible :: "bytes \<Rightarrow> bool" where
  "kitty_possible ps =
     (let fields = split_on 0x3b ps; key = fields ! 0; code = split_on 0x3a key ! 0
      in if length fields = 1 \<and> length code = length key then starts_with code [0x39, 0x32]
         else code = [0x39, 0x32] \<and> length fields \<le> 3 \<and>
           (case at_index fields 1 of None \<Rightarrow> True
            | Some m \<Rightarrow> length (filter (\<lambda>b. b = 0x3a) m) \<le> 1))"

definition xterm_possible :: "bytes \<Rightarrow> bool" where
  "xterm_possible ps =
     (let fields = split_on 0x3b ps; key = fields ! 0
      in if length fields = 1 then starts_with key [0x32, 0x37]
         else key = [0x32, 0x37] \<and> length fields \<le> 3 \<and> 0x3a \<notin> set (fields ! 1) \<and>
           (case at_index fields 2 of None \<Rightarrow> True | Some c \<Rightarrow> starts_with c [0x39, 0x32]))"

lemma could_csi:
  "could_become_prefix (esc # 0x5b # ps) \<longleftrightarrow>
     list_all param_char ps \<and> (kitty_possible ps \<or> xterm_possible ps)"
  by (simp add: could_become_prefix_def strip_prefix_def starts_with_def kitty_possible_def
      xterm_possible_def Let_def)

lemma could_esc: "could_become_prefix [esc]"
  by (simp add: could_become_prefix_def strip_prefix_def starts_with_def)

lemma kitty_one_field:
  "0x3b \<notin> set l \<Longrightarrow> kitty_possible l \<longleftrightarrow>
     (if 0x3a \<in> set l then split_on 0x3a l ! 0 = [0x39, 0x32] else starts_with l [0x39, 0x32])"
  using split_on_hd_whole [of "0x3a" l]
  by (auto simp: kitty_possible_def split_on_no_sep at_index_def Let_def)

lemma split_fields_cases:
  obtains (one) "split_on s ps = [ps]" "s \<notin> set ps"
  | (more) k l where "ps = k @ s # l" "s \<notin> set k" "split_on s ps = k # split_on s l"
  by (metis split_list_first split_on_append_sep split_on_no_sep)

lemma kitty_fields:
  "0x3b \<notin> set k \<Longrightarrow> kitty_possible (k @ 0x3b # l) \<longleftrightarrow>
     split_on 0x3a k ! 0 = [0x39, 0x32] \<and> length (split_on 0x3b l) \<le> 2 \<and>
     length (filter (\<lambda>b. b = 0x3a) (split_on 0x3b l ! 0)) \<le> 1"
  by (auto simp: kitty_possible_def split_on_append_sep at_index_def Let_def)

text \<open>The fields after \<open>27;\<close>: modifiers and the start of the code.\<close>

definition xterm_tail :: "bytes \<Rightarrow> bool" where
  "xterm_tail l \<longleftrightarrow> length (split_on 0x3b l) \<le> 2 \<and> 0x3a \<notin> set (split_on 0x3b l ! 0) \<and>
     (length (split_on 0x3b l) = 2 \<longrightarrow> starts_with (split_on 0x3b l ! 1) [0x39, 0x32])"

lemma xterm_fields:
  "0x3b \<notin> set k \<Longrightarrow> xterm_possible (k @ 0x3b # l) \<longleftrightarrow> k = [0x32, 0x37] \<and> xterm_tail l"
  by (auto simp: xterm_possible_def xterm_tail_def split_on_append_sep at_index_def Let_def)

lemma xterm_tail_snocD: "xterm_tail (l @ [b]) \<Longrightarrow> xterm_tail l"
proof (cases rule: split_fields_cases [of "0x3b" l])
  case one
  assume "xterm_tail (l @ [b])"
  then show ?thesis using one by (auto simp: xterm_tail_def split_on_snoc split: if_splits)
next
  case (more k m)
  assume "xterm_tail (l @ [b])"
  then show ?thesis using more
    by (cases rule: split_fields_cases [of "0x3b" m])
       (auto simp: xterm_tail_def split_on_append_sep split_on_snoc dest: starts_with_snocD
         split: if_splits)
qed

lemma xterm_one_field:
  "0x3b \<notin> set l \<Longrightarrow> xterm_possible l \<longleftrightarrow> starts_with l [0x32, 0x37]"
  by (auto simp: xterm_possible_def split_on_no_sep Let_def)

lemma kitty_possible_snocD: "kitty_possible (ps @ [b]) \<Longrightarrow> kitty_possible ps"
proof (cases rule: split_fields_cases [of "0x3b" ps])
  case one
  assume k: "kitty_possible (ps @ [b])"
  show ?thesis
  proof (cases "b = 0x3b")
    case True
    then show ?thesis using k one kitty_fields [of ps "[]"]
      by (auto simp: kitty_one_field split_on_no_sep starts_with_prefix)
  next
    case False
    then show ?thesis using k one
      by (auto simp: kitty_one_field split_on_hd_snoc split_on_no_sep length_split_on
          filter_empty_conv dest: starts_with_snocD split: if_splits)
  qed
next
  case (more k l)
  assume "kitty_possible (ps @ [b])"
  then show ?thesis using more
    by (auto simp: kitty_fields split_on_hd_snoc length_split_on split: if_splits)
qed

lemma xterm_possible_snocD: "xterm_possible (ps @ [b]) \<Longrightarrow> xterm_possible ps"
proof (cases rule: split_fields_cases [of "0x3b" ps])
  case one
  assume k: "xterm_possible (ps @ [b])"
  show ?thesis
  proof (cases "b = 0x3b")
    case True
    then show ?thesis using k one xterm_fields [of ps "[]"]
      by (auto simp: xterm_one_field starts_with_def)
  next
    case False
    then show ?thesis using k one
      by (auto simp: xterm_one_field dest: starts_with_snocD)
  qed
next
  case (more k l)
  assume "xterm_possible (ps @ [b])"
  then have "k = [0x32, 0x37] \<and> xterm_tail (l @ [b])"
    using more(1) xterm_fields [OF more(2), of "l @ [b]"] by simp
  then show ?thesis
    unfolding more(1) xterm_fields [OF more(2)] using xterm_tail_snocD by blast
qed

lemma could_prefix_closed:
  assumes "x \<noteq> []" "could_become_prefix (x @ y)"
  shows "could_become_prefix x"
  using assms(2)
proof (induction y rule: rev_induct)
  case Nil
  then show ?case by simp
next
  case (snoc b y)
  have "could_become_prefix (x @ y)"
  proof (cases "\<exists>ps. x @ y = esc # 0x5b # ps")
    case True
    then obtain ps where ps: "x @ y = esc # 0x5b # ps" ..
    then have "could_become_prefix (esc # 0x5b # ps @ [b])"
      using snoc.prems by (metis append_Cons append_assoc)
    then show ?thesis
      unfolding ps could_csi by (auto dest: kitty_possible_snocD xterm_possible_snocD)
  next
    case False
    then show ?thesis using snoc.prems assms(1)
      by (cases x; cases y; cases "tl x")
         (auto simp: could_become_prefix_def strip_prefix_def starts_with_def split: if_splits option.splits)
  qed
  then show ?case by (rule snoc.IH)
qed

subsection \<open>The numbers of a prefix press\<close>

text \<open>
  The classification reads numbers by value, \<open>could_become_prefix\<close> by spelling. They agree on
  numbers without leading zeros, which is how terminals write them.
\<close>

definition padded :: "bytes \<Rightarrow> bool" where
  "padded f \<longleftrightarrow> 2 \<le> length f \<and> hd f = 0x30"

definition padded_sequence :: "bytes \<Rightarrow> bool" where
  "padded_sequence t \<longleftrightarrow> starts_with [esc, 0x5b] t \<and>
     list_ex padded (split_on 0x3b (takeWhile param_char (drop 2 t)))"

text \<open>Some CSI sequence in \<open>bs\<close> has a parameter written with a leading zero.\<close>

definition zero_padded :: "bytes \<Rightarrow> bool" where
  "zero_padded bs \<longleftrightarrow> list_ex padded_sequence (suffixes bs)"

lemma foldl_digits_ge: "n \<le> foldl (\<lambda>n d. n * 10 + (unat (d :: u8) - 48)) n ds"
proof (induction ds arbitrary: n)
  case Nil
  then show ?case by simp
next
  case (Cons d ds)
  have "n \<le> n * 10 + (unat d - 48)" by simp
  then show ?case using Cons [of "n * 10 + (unat d - 48)"] by (simp add: le_trans)
qed

lemma is_digit_unat: "is_digit b \<Longrightarrow> 48 \<le> unat b \<and> unat b \<le> 57"
  by (simp add: is_digit_def word_le_nat_alt)

lemma unat_eqD: "unat (b :: u8) = n \<Longrightarrow> b = of_nat n"
  by auto

lemma digits_92:
  assumes "list_all is_digit ds" "digits_val ds = 92" "\<not> padded ds"
  shows "ds = [0x39, 0x32]"
proof (cases ds)
  case Nil
  then show ?thesis using assms by (simp add: digits_val_def)
next
  case (Cons a xs)
  then have a: "48 \<le> unat a" "unat a \<le> 57" using assms is_digit_unat by auto
  show ?thesis
  proof (cases xs)
    case Nil
    then show ?thesis using a assms(2) Cons by (simp add: digits_val_def)
  next
    case (Cons b ys)
    then have b: "48 \<le> unat b" "unat b \<le> 57" using assms(1) \<open>ds = a # xs\<close> is_digit_unat by auto
    have "unat a \<noteq> 48"
      using assms(3) \<open>ds = a # xs\<close> Cons unat_eqD [of a 48] by (auto simp: padded_def)
    show ?thesis
    proof (cases ys)
      case Nil
      then have "(unat a - 48) * 10 + (unat b - 48) = 92"
        using assms(2) \<open>ds = a # xs\<close> Cons by (simp add: digits_val_def)
      then have "unat a = 57" "unat b = 50" using a b by presburger+
      then show ?thesis using \<open>ds = a # xs\<close> Cons Nil unat_eqD [of a 57] unat_eqD [of b 50] by simp
    next
      case (Cons c zs)
      have "100 \<le> ((unat a - 48) * 10 + (unat b - 48)) * 10 + (unat c - 48)"
        using a \<open>unat a \<noteq> 48\<close> by arith
      also have "\<dots> \<le> digits_val ds"
        using foldl_digits_ge [of _ zs] \<open>ds = a # xs\<close> \<open>xs = b # ys\<close> Cons
        by (simp add: digits_val_def)
      finally show ?thesis using assms(2) by simp
    qed
  qed
qed

lemma number_92:
  assumes "number ds = Some key_backslash" "list_all param_char ds" "\<not> padded ds"
  shows "ds = [0x39, 0x32]"
proof -
  from assms(1) obtain n where n: "parse_uint (2 ^ 32 - 1) ds = Some n" "(of_nat n :: u32) = 92"
    by (auto simp: number_def key_backslash_def split: if_splits)
  have "ds \<noteq> []" using assms(1) by (auto simp: number_def)
  then have "parse_uint (2 ^ 32 - 1) ds = parse_digits (2 ^ 32 - 1) ds"
    using assms(2) by (cases ds) (auto simp: parse_uint_def param_char_def is_digit_def)
  then have "list_all is_digit ds" "digits_val ds = n" "n < 2 ^ 32"
    using n(1) by (auto simp: parse_digits_def split: if_splits)
  moreover have "n = 92"
    using n(2) \<open>n < 2 ^ 32\<close> unat_of_nat [of n, where ?'a = 32] by simp
  ultimately show ?thesis using digits_92 assms(3) by blast
qed

lemma key_event_prefix: "key_event c m e = PrefixKey \<Longrightarrow> c = key_backslash"
  by (auto simp: key_event_def Let_def split: if_splits)

lemma split_on_hd_prefix: "prefix (split_on s xs ! 0) xs"
  by (induction xs) (auto split: list.splits)

lemma set_split_on: "f \<in> set (split_on s xs) \<Longrightarrow> set f \<subseteq> set xs"
  by (induction xs arbitrary: f) (fastforce split: list.splits if_splits)+

lemma padded_hd_part: "padded (split_on s f ! 0) \<Longrightarrow> padded f"
proof -
  assume p: "padded (split_on s f ! 0)"
  obtain z where "f = split_on s f ! 0 @ z"
    using split_on_hd_prefix [of s f] by (auto simp: prefix_def)
  then show ?thesis using p unfolding padded_def
    by (metis add_leD1 hd_append2 length_append list.size(3) not_numeral_le_zero trans_le_add1)
qed

lemma number_digits: "number ds = Some n \<Longrightarrow> list_all param_char ds \<Longrightarrow> 0x3a \<notin> set ds"
  by (auto simp: number_def parse_uint_def parse_digits_def list_all_iff is_digit_def param_char_def
      split: list.splits if_splits)

lemma field_params:
  "list_all param_char ps \<Longrightarrow> f \<in> set (split_on s ps) \<Longrightarrow> list_all param_char f"
  using set_split_on [of f s ps] by (auto simp: list_all_iff)

lemma xterm_prefix_possible:
  assumes ps: "list_all param_char ps" and np: "\<not> list_ex padded (split_on 0x3b ps)"
    and len: "length (split_on 0x3b ps) = 3" and f0: "split_on 0x3b ps ! 0 = [0x32, 0x37]"
    and c: "number (split_on 0x3b ps ! 2) = Some c" and m: "number (split_on 0x3b ps ! 1) = Some m"
    and k: "key_event c m e = PrefixKey"
  shows "xterm_possible ps"
proof -
  have mem: "split_on 0x3b ps ! i \<in> set (split_on 0x3b ps)" if "i < 3" for i
    using that len by simp
  have "split_on 0x3b ps ! 2 = [0x39, 0x32]"
    using number_92 [OF _ field_params [OF ps mem]] c key_event_prefix [OF k] np mem
    by (auto simp: list_ex_iff)
  moreover have "0x3a \<notin> set (split_on 0x3b ps ! 1)"
    using number_digits [OF m field_params [OF ps mem]] by simp
  ultimately show ?thesis using len f0 by (simp add: xterm_possible_def at_index_def Let_def)
qed

lemma kitty_prefix_possible:
  assumes ps: "list_all param_char ps" and np: "\<not> list_ex padded (split_on 0x3b ps)"
    and len: "length (split_on 0x3b ps) \<le> 3"
    and m: "length (split_on 0x3a (case at_index (split_on 0x3b ps) 1 of Some m \<Rightarrow> m | None \<Rightarrow> [])) \<le> 2"
    and c: "key_code (split_on 0x3b ps ! 0) = Some key_backslash"
  shows "kitty_possible ps"
proof -
  define key where "key = split_on 0x3b ps ! 0"
  have mem: "key \<in> set (split_on 0x3b ps)" by (simp add: key_def)
  have "split_on 0x3a key ! 0 \<in> set (split_on 0x3a key)" by simp
  then have "list_all param_char (split_on 0x3a key ! 0)"
    using field_params [OF field_params [OF ps mem]] by blast
  moreover have "\<not> padded (split_on 0x3a key ! 0)"
    using np mem padded_hd_part by (auto simp: list_ex_iff)
  ultimately have "split_on 0x3a key ! 0 = [0x39, 0x32]"
    using number_92 c by (simp add: key_code_def key_def)
  then show ?thesis using len m
    by (auto simp: kitty_possible_def key_def length_split_on at_index_def Let_def split: if_splits)
qed

lemma prefix_key_possible:
  assumes "csi_key ps b = PrefixKey" "\<not> list_ex padded (split_on 0x3b ps)"
  shows "could_become_prefix (esc # 0x5b # ps)"
proof -
  have c: "classify_csi ps b = Some PrefixKey"
    using assms(1) by (auto simp: csi_key_def split: option.splits)
  then have ps: "list_all param_char ps"
    by (auto simp: classify_csi_def split: if_splits)
  show ?thesis
  proof (cases "b = 0x7e \<and> length (split_on 0x3b ps) = 3 \<and> split_on 0x3b ps ! 0 = [0x32, 0x37]")
    case True
    then obtain code m where "number (split_on 0x3b ps ! 2) = Some code"
        "number (split_on 0x3b ps ! 1) = Some m" "key_event code m event_press = PrefixKey"
      using c ps by (auto simp: classify_csi_def Let_def bind_eq_Some_conv)
    then show ?thesis using xterm_prefix_possible [OF ps assms(2)] True ps could_csi by blast
  next
    case False
    then have "length (split_on 0x3b ps) \<le> 3"
        "length (split_on 0x3a (case at_index (split_on 0x3b ps) 1 of Some m \<Rightarrow> m | None \<Rightarrow> [])) \<le> 2"
        "key_code (split_on 0x3b ps ! 0) = Some key_backslash"
      using c ps by (auto simp: classify_csi_def Let_def bind_eq_Some_conv dest: key_event_prefix
          split: if_splits)
    then show ?thesis using kitty_prefix_possible [OF ps assms(2)] ps could_csi by blast
  qed
qed

subsection \<open>The loop without its clock\<close>

abbreviation forget :: "escape_parser \<Rightarrow> escape_parser" where
  "forget s \<equiv> s\<lparr>e_since := None\<rparr>"

lemma decide_forget:
  "decide bs k (s\<lparr>e_since := t\<rparr>) = (case decide bs k s of (s1, o1, d) \<Rightarrow> (s1\<lparr>e_since := t\<rparr>, o1, d))"
  by (auto simp: decide_def split: option.splits key.splits)

definition scan :: "bytes \<Rightarrow> escape_parser \<Rightarrow> escape_parser \<times> bytes \<times> escape" where
  "scan bs s = (case feed_loop 0 0 bs s of (s1, o1, d) \<Rightarrow> (forget s1, o1, d))"

text \<open>Only the clock field depends on the clock.\<close>

lemma feed_loop_scan:
  "(case feed_loop now at bs s of (s1, o1, d) \<Rightarrow> (forget s1, o1, d)) =
   (case feed_loop now' at' bs (s\<lparr>e_since := t\<rparr>) of (s1, o1, d) \<Rightarrow> (forget s1, o1, d))"
proof (induction now at bs s arbitrary: now' at' t rule: feed_loop.induct)
  case (1 now at s)
  then show ?case by simp
next
  case (2 now at b bs s)
  show ?case
  proof (cases "token (b # bs)")
    case (Complete n k)
    obtain s1 o1 d where d: "decide (take n (b # bs)) k s = (s1, o1, d)" by (metis prod_cases3)
    show ?thesis
      using "2.IH" [OF Complete d [symmetric] refl refl, of now' "at' + n" t] Complete d
      by (auto simp: decide_forget split: prod.splits)
  next
    case Unfinished
    then show ?thesis by simp
  qed
qed

lemma scan_eq: "(case feed_loop now at bs s of (s1, o1, d) \<Rightarrow> (forget s1, o1, d)) = scan bs s"
  using feed_loop_scan [of now at bs s 0 0 "e_since s"] by (simp add: scan_def)

lemma scan_forget [simp]: "scan bs (s\<lparr>e_since := t\<rparr>) = scan bs s"
  using feed_loop_scan [of 0 0 bs s 0 0 t] by (simp add: scan_def)

lemma scan_Nil [simp]: "scan [] s = (forget s, [], EscapeContinue)"
  by (simp add: scan_def)

lemma scan_Complete:
  assumes "bs \<noteq> []" "token bs = Complete n k" "decide (take n bs) k s = (s1, o1, d)"
  shows "scan bs s =
    (if d = EscapeDetach then (forget s1, o1, EscapeDetach)
     else case scan (drop n bs) s1 of (s2, o2, d2) \<Rightarrow> (s2, o1 @ o2, d2))"
  using assms scan_eq [of 0 n "drop n bs" s1]
  by (cases bs) (auto simp: scan_def split: prod.splits)

lemma scan_Unfinished:
  assumes "bs \<noteq> []" "token bs = Unfinished"
  shows "scan bs s =
    (if e_prefix s \<noteq> None \<or> could_become_prefix bs
     then (forget (s\<lparr>e_partial := bs\<rparr>), [], EscapeContinue)
     else (forget s, bs, EscapeContinue))"
  using assms by (cases bs) (auto simp: scan_def)

lemma feed_scan:
  "(case feed now input s of (s1, o1, d) \<Rightarrow> (forget s1, o1, d)) =
   (if e_mode s = EscapeDisabled then (forget s, input, EscapeContinue)
    else scan (e_partial s @ input) (s\<lparr>e_partial := []\<rparr>))"
  using scan_eq [of now 0 "e_partial s @ input" "s\<lparr>e_partial := []\<rparr>"] by (auto simp: feed_def)

subsection \<open>Cutting the input anywhere\<close>

text \<open>Printable bytes are tokens of their own, forwarded when no prefix is held.\<close>

lemma scan_plain:
  "list_all (\<lambda>b. 0x20 \<le> b \<and> b \<le> 0x7e) q \<Longrightarrow> e_prefix s = None \<Longrightarrow>
   scan (q @ y) s = (case scan y s of (s1, o1, d) \<Rightarrow> (s1, q @ o1, d))"
proof (induction q)
  case Nil
  then show ?case by simp
next
  case (Cons b q)
  then have "b \<noteq> esc" "b \<noteq> prefix_byte" by (auto simp: escape_consts)
  then obtain k where "token ((b # q) @ y) = Complete 1 k" "k \<noteq> PrefixKey"
    by (auto simp: token_single)
  then have "scan ((b # q) @ y) s = (case scan (q @ y) s of (s1, o1, d) \<Rightarrow> (s1, [b] @ o1, d))"
    using Cons.prems(2) by (subst scan_Complete [where k = k and n = 1]) (auto simp: decide_def)
  then show ?case using Cons by (auto split: prod.splits)
qed

lemma csi_param_plain: "csi_param b \<Longrightarrow> 0x20 \<le> b \<and> b \<le> 0x7e"
  by (auto simp: csi_param_def elim: order_trans)

lemma zero_padded_suffix: "zero_padded y \<Longrightarrow> zero_padded (x @ y)"
  by (auto simp: zero_padded_def list_ex_iff suffix_appendI)

lemma unpadded_prefix:
  assumes "\<not> zero_padded (esc # 0x5b # ps @ b # z)" "csi_key ps b = PrefixKey"
    "0x40 \<le> b"
  shows "could_become_prefix (esc # 0x5b # ps)"
proof -
  have ps: "list_all param_char ps"
    using assms(2) by (auto simp: csi_key_def classify_csi_def split: option.splits if_splits)
  have "\<not> param_char b"
    using assms(3) by (auto simp: param_char_def is_digit_def word_le_nat_alt)
  then have "takeWhile param_char (ps @ b # z) = ps"
    using ps by (simp add: takeWhile_tail takeWhile_append list_all_iff)
  moreover have "\<not> padded_sequence (esc # 0x5b # ps @ b # z)"
    using assms(1) by (auto simp: zero_padded_def list_ex_iff)
  ultimately show ?thesis
    using prefix_key_possible [OF assms(2)] by (simp add: padded_sequence_def starts_with_def)
qed

lemma stop_beyond:
  "list_all P r \<Longrightarrow> \<not> P c \<Longrightarrow> r @ y = q @ c # z \<Longrightarrow> \<exists>q'. q = r @ q' \<and> y = q' @ c # z"
proof (induction r arbitrary: q)
  case (Cons a r)
  then show ?case by (cases q) auto
qed simp

lemma no_partial: "e_partial s = [] \<Longrightarrow> s\<lparr>e_partial := []\<rparr> = s"
  by (cases s) simp

lemma scan_same: "e_partial s = [] \<Longrightarrow> scan y (s\<lparr>e_partial := [], e_since := None\<rparr>) = scan y s"
  "e_partial s = [] \<Longrightarrow> scan y (s\<lparr>e_since := None, e_partial := []\<rparr>) = scan y s"
proof -
  assume p: "e_partial s = []"
  then show "scan y (s\<lparr>e_partial := [], e_since := None\<rparr>) = scan y s"
    by (simp only: no_partial scan_forget)
  have "s\<lparr>e_since := None, e_partial := []\<rparr> = s\<lparr>e_partial := [], e_since := None\<rparr>" by simp
  then show "scan y (s\<lparr>e_since := None, e_partial := []\<rparr>) = scan y s"
    using p by (simp only: no_partial scan_forget)
qed

text \<open>An unfinished sequence not held is forwarded byte by byte all the same.\<close>

lemma scan_released:
  assumes r: "list_all csi_param r" "length r < 62"
    and p: "e_prefix s = None" and nc: "\<not> could_become_prefix (esc # 0x5b # r)"
    and nz: "\<not> zero_padded (esc # 0x5b # r @ y)"
  shows "scan (esc # 0x5b # r @ y) s =
    (case scan y s of (s1, o1, d) \<Rightarrow> (s1, esc # 0x5b # r @ o1, d))"
proof -
  let ?x = "esc # 0x5b # r"
  have fwd: "scan (?x @ q @ z) s = (case scan (q @ z) s of (s1, o1, d) \<Rightarrow> (s1, ?x @ o1, d))"
    if "token (?x @ q @ z) = Complete (length (?x @ q)) k" "k \<noteq> PrefixKey"
      "list_all (\<lambda>b. 0x20 \<le> b \<and> b \<le> 0x7e) q" for q z k
    using that p scan_plain [OF that(3) p, of z]
    by (subst scan_Complete [where k = k and n = "length (?x @ q)"])
       (auto simp: decide_def split: prod.splits)
  have "?x @ y \<noteq> []" by simp
  then show ?thesis
  proof (cases rule: token_cases)
    case (short r')
    then have y: "list_all (\<lambda>b. 0x20 \<le> b \<and> b \<le> 0x7e) y"
      using csi_param_plain by (auto simp: list_all_iff)
    have "token (?x @ y) = Unfinished"
      using short token_csi_params [of r'] by simp
    moreover have "\<not> could_become_prefix (?x @ y)"
      using could_prefix_closed [of ?x y] nc by auto
    ultimately show ?thesis
      using p scan_plain [OF y p, of "[]"] by (simp add: scan_Unfinished)
  next
    case (long r')
    define n where "n = 62 - length r"
    have n: "list_all (\<lambda>b. 0x20 \<le> b \<and> b \<le> 0x7e) (take n y)"
      using long r(2) csi_param_plain by (auto simp: list_all_iff n_def)
    have "token (?x @ take n y @ drop n y) = Complete 64 OtherKey"
      using long token_csi_params [of r'] by simp
    moreover have "length (?x @ take n y) = 64"
      using long r(2) by (auto simp: n_def)
    ultimately show ?thesis using fwd [OF _ _ n, of "drop n y" OtherKey] by simp
  next
    case (stop q c z)
    have "r @ y = q @ c # z" using stop(1) by simp
    then obtain q' where q': "q = r @ q'" "y = q' @ c # z"
      using stop_beyond [OF r(1) stop(3)] by blast
    have plain: "list_all (\<lambda>b. 0x20 \<le> b \<and> b \<le> 0x7e) q'"
      using stop(2) q'(1) csi_param_plain by (auto simp: list_all_iff)
    show ?thesis
    proof (cases "0x40 \<le> c \<and> c \<le> 0x7e")
      case True
      have "csi_key q c \<noteq> PrefixKey"
      proof
        assume "csi_key q c = PrefixKey"
        then have "could_become_prefix (?x @ q')"
          using unpadded_prefix [of q c z] nz True q' by simp
        then show False using could_prefix_closed nc by blast
      qed
      moreover have "(0x20::u8) \<le> c" using True order_trans [of "0x20" "0x40" c] by simp
      ultimately show ?thesis
        using fwd [of "q' @ [c]" z "csi_key q c"] plain True stop q' token_csi_stop [OF stop(2-4), of z]
        by simp
    next
      case False
      then show ?thesis
        using fwd [OF _ _ plain, of "c # z" OtherKey] stop q' token_csi_stop [OF stop(2-4), of z]
        by auto
    qed
  qed auto
qed

text \<open>The rest of a scan, after the piece that led to a result.\<close>

definition scan_on :: "bytes \<Rightarrow> escape_parser \<times> bytes \<times> escape \<Rightarrow> escape_parser \<times> bytes \<times> escape" where
  "scan_on y res = (case res of (s1, o1, d) \<Rightarrow>
     if d = EscapeDetach then (s1, o1, d)
     else case scan (e_partial s1 @ y) (s1\<lparr>e_partial := []\<rparr>) of (s2, o2, d2) \<Rightarrow> (s2, o1 @ o2, d2))"

lemma decide_partial: "decide bs k s = (s1, o1, d) \<Longrightarrow> e_partial s1 = e_partial s \<and> e_mode s1 = e_mode s"
  by (auto simp: decide_def split: option.splits key.splits if_splits)

lemma scan_append:
  "e_partial s = [] \<Longrightarrow> \<not> zero_padded (x @ y) \<Longrightarrow> scan (x @ y) s = scan_on y (scan x s)"
proof (induction x arbitrary: s rule: length_induct)
  case (1 x)
  show ?case
  proof (cases "x = []")
    case True
    then show ?thesis using "1.prems" by (simp add: scan_on_def scan_same)
  next
    case x: False
    show ?thesis
    proof (cases "token x")
      case (Complete n k)
      obtain s1 o1 d where d: "decide (take n x) k s = (s1, o1, d)" by (metis prod_cases3)
      have n: "0 < n" "n \<le> length x" using Complete x token_length by (cases x; fastforce)+
      have "scan (drop n x @ y) s1 = scan_on y (scan (drop n x) s1)"
        using "1.IH" n x decide_partial [OF d] "1.prems" zero_padded_suffix [of "drop n x @ y" "take n x"]
        by (metis append.assoc append_take_drop_id diff_less length_drop length_greater_0_conv)
      moreover have "scan (x @ y) s = (if d = EscapeDetach then (forget s1, o1, EscapeDetach)
          else case scan (drop n x @ y) s1 of (s2, o2, d2) \<Rightarrow> (s2, o1 @ o2, d2))"
        using scan_Complete [of "x @ y" n k s s1 o1 d] token_append [OF x Complete] d n x by simp
      ultimately show ?thesis
        using scan_Complete [OF x Complete d] by (auto simp: scan_on_def split: prod.splits)
    next
      case Unfinished
      show ?thesis
      proof (cases "e_prefix s \<noteq> None \<or> could_become_prefix x")
        case True
        then show ?thesis using scan_Unfinished [OF x Unfinished, of s] "1.prems"
          by (simp add: scan_on_def scan_same)
      next
        case False
        then obtain r where "x = esc # 0x5b # r" "list_all csi_param r" "length r < 62"
          using token_Unfinished [OF x] Unfinished could_esc by blast
        then show ?thesis
          using scan_released [of r s y] scan_Unfinished [OF x Unfinished, of s] False "1.prems"
          by (auto simp: scan_on_def scan_same split: prod.splits)
      qed
    qed
  qed
qed

text \<open>What a scan leaves held is an unfinished tail of its input.\<close>

definition held_ok :: "escape_parser \<Rightarrow> bool" where
  "held_ok s \<longleftrightarrow> e_partial s \<noteq> [] \<longrightarrow>
     token (e_partial s) = Unfinished \<and> (e_prefix s \<noteq> None \<or> could_become_prefix (e_partial s))"

lemma scan_held:
  "e_partial s = [] \<Longrightarrow> scan x s = (s1, o1, d) \<Longrightarrow>
   held_ok s1 \<and> suffix (e_partial s1) x \<and> e_mode s1 = e_mode s \<and> e_since s1 = None"
proof (induction x arbitrary: s o1 rule: length_induct)
  case (1 x)
  show ?case
  proof (cases "x = []")
    case True
    then show ?thesis using "1.prems" by (auto simp: held_ok_def)
  next
    case x: False
    show ?thesis
    proof (cases "token x")
      case (Complete n k)
      obtain s' o' d' where d: "decide (take n x) k s = (s', o', d')" by (metis prod_cases3)
      have n: "0 < n" "n \<le> length x" using Complete x token_length by (cases x; fastforce)+
      have s': "e_partial s' = []" "e_mode s' = e_mode s" using decide_partial [OF d] "1.prems" by auto
      show ?thesis
      proof (cases "d' = EscapeDetach")
        case True
        then show ?thesis using scan_Complete [OF x Complete d] "1.prems" s'
          by (auto simp: held_ok_def)
      next
        case False
        then obtain o2 where "scan (drop n x) s' = (s1, o2, d)"
          using scan_Complete [OF x Complete d] "1.prems" by (auto split: prod.splits)
        then show ?thesis
          using "1.IH" n s' suffix_drop [of n x] suffix_order.trans
          by (metis diff_less length_drop length_greater_0_conv x)
      qed
    next
      case Unfinished
      then show ?thesis using scan_Unfinished [OF x Unfinished, of s] "1.prems"
        by (auto simp: held_ok_def split: if_splits)
    qed
  qed
qed

text \<open>
  The client's reads without the clock, as an incremental consumer of keystrokes: \<open>None\<close> is the
  client after a detach.
\<close>

definition feed_keys :: "escape_parser option \<Rightarrow> bytes \<Rightarrow> escape_parser option \<times> bytes" where
  "feed_keys st input =
     (case st of None \<Rightarrow> (None, [])
      | Some s \<Rightarrow> (case feed 0 input s of (s1, o1, d) \<Rightarrow>
          (if d = EscapeDetach then None else Some (forget s1), o1)))"

definition may_feed :: "escape_parser option \<Rightarrow> bytes \<Rightarrow> bool" where
  "may_feed st rest =
     (case st of None \<Rightarrow> True
      | Some s \<Rightarrow> e_since s = None \<and>
          (e_mode s = EscapeDisabled \<or> held_ok s \<and> \<not> zero_padded (e_partial s @ rest)))"

lemma feed_keys_scan:
  "feed_keys (Some s) input =
     (if e_mode s = EscapeDisabled then (Some (forget s), input)
      else case scan (e_partial s @ input) (s\<lparr>e_partial := []\<rparr>) of
        (s1, o1, d) \<Rightarrow> (if d = EscapeDetach then None else Some s1, o1))"
  using feed_scan [of 0 input s] by (auto simp: feed_keys_def split: prod.splits if_splits)

lemma feed_keys_None [simp]: "feed_keys None input = (None, [])"
  by (simp add: feed_keys_def)

interpretation keys: incremental feed_keys may_feed
proof (unfold_locales, goal_cases)
  case (1 st)
  show ?case
  proof (cases st)
    case (Some s)
    show ?thesis
    proof (cases "e_mode s = EscapeDisabled \<or> e_partial s = []")
      case True
      then show ?thesis using 1 Some no_partial [of s]
        by (cases s) (auto simp: feed_keys_scan may_feed_def)
    next
      case False
      then show ?thesis using 1 Some scan_Unfinished [of "e_partial s" "s\<lparr>e_partial := []\<rparr>"]
        by (cases s) (auto simp: feed_keys_scan may_feed_def held_ok_def)
    qed
  qed simp
next
  case (2 st a b)
  show ?case
  proof (cases st)
    case (Some s)
    show ?thesis
    proof (cases "e_mode s = EscapeDisabled")
      case True
      then show ?thesis using Some by (simp add: feed_keys_scan)
    next
      case False
      then have nz: "\<not> zero_padded ((e_partial s @ a) @ b)" using 2 Some by (simp add: may_feed_def)
      obtain s1 o1 d where r: "scan (e_partial s @ a) (s\<lparr>e_partial := []\<rparr>) = (s1, o1, d)"
        by (metis prod_cases3)
      then have "scan ((e_partial s @ a) @ b) (s\<lparr>e_partial := []\<rparr>) = scan_on b (s1, o1, d)"
        using scan_append [OF _ nz] by simp
      moreover have "e_mode s1 = CtrlBackslash"
        using scan_held [OF _ r] False by (cases "e_mode s1") auto
      ultimately show ?thesis using r False Some
        by (auto simp: feed_keys_scan scan_on_def split: prod.splits)
    qed
  qed simp
next
  case (3 st a b)
  show ?case
  proof (cases st)
    case (Some s)
    show ?thesis
    proof (cases "e_mode s = EscapeDisabled")
      case True
      then show ?thesis using Some by (simp add: feed_keys_scan may_feed_def)
    next
      case False
      obtain s1 o1 d where r: "scan (e_partial s @ a) (s\<lparr>e_partial := []\<rparr>) = (s1, o1, d)"
        by (metis prod_cases3)
      then have s1: "held_ok s1" "suffix (e_partial s1) (e_partial s @ a)" "e_since s1 = None"
        using scan_held [OF _ r] by auto
      then obtain x where "e_partial s @ a = x @ e_partial s1" by (auto simp: suffix_def)
      then have "\<not> zero_padded (e_partial s1 @ b)"
        using 3 Some False zero_padded_suffix [of "e_partial s1 @ b" x]
        by (auto simp: may_feed_def simp flip: append_assoc)
      then show ?thesis using r s1 False Some
        by (auto simp: feed_keys_scan may_feed_def split: prod.splits)
    qed
  qed (simp add: may_feed_def)
qed

text \<open>The client's reads, whenever they take place, are the pieces fed.\<close>

lemma scan_forget_partial: "scan bs (s\<lparr>e_since := None, e_partial := p\<rparr>) = scan bs (s\<lparr>e_partial := p\<rparr>)"
proof -
  have "s\<lparr>e_since := None, e_partial := p\<rparr> = (s\<lparr>e_partial := p\<rparr>)\<lparr>e_since := None\<rparr>" by simp
  then show ?thesis by (simp only: scan_forget)
qed

lemma relay_event_keys:
  "(case relay_event (KeysRead now input) st of (s, out) \<Rightarrow> (map_option forget s, out)) =
   feed_keys (map_option forget st) input"
proof (cases st)
  case (Some s)
  have "(case feed now input s of (s1, o1, d) \<Rightarrow> (forget s1, o1, d)) =
      (case feed 0 input (forget s) of (s1, o1, d) \<Rightarrow> (forget s1, o1, d))"
    unfolding feed_scan by (simp add: scan_forget_partial)
  then show ?thesis using Some by (auto simp: feed_keys_def split: prod.splits)
qed simp

lemma relay_reads:
  "(case relay (map (case_prod KeysRead) rs) st of (s, out) \<Rightarrow> (map_option forget s, out)) =
   feed_pieces feed_keys (map_option forget st) (map snd rs)"
proof (induction rs arbitrary: st)
  case Nil
  then show ?case by simp
next
  case (Cons r rs)
  obtain now input where r: "r = (now, input)" by (cases r)
  obtain st1 o1 where e: "relay_event (KeysRead now input) st = (st1, o1)" by (metis prod.exhaust)
  have "feed_keys (map_option forget st) input = (map_option forget st1, o1)"
    using relay_event_keys [of now input st] e by simp
  then show ?case using Cons [of st1] r e by (auto split: prod.splits)
qed

end
