(* ===== verification/Attach_Escape_Laws.thy ===== *)
theory Attach_Escape_Laws
  imports Attach_Escape_Props
begin

text \<open>
  The properties of the detach escape: an invariant that accounts for every byte typed, carried
  through the parser and the client's keyboard loop, and the theorems that rest on it.
\<close>

subsection \<open>Every byte is accounted for\<close>

text \<open>\<open>one_key k bs\<close>: the bytes are exactly one token, of class \<open>k\<close>.\<close>

definition one_key :: "key \<Rightarrow> bytes \<Rightarrow> bool" where
  "one_key k bs \<longleftrightarrow> bs \<noteq> [] \<and> token bs = Complete (length bs) k"

text \<open>A run of complete incidental events.\<close>

inductive incidental :: "bytes \<Rightarrow> bool" where
  incidental_Nil: "incidental []"
| incidental_snoc: "incidental m \<Longrightarrow> one_key (Incidental b) a \<Longrightarrow> incidental (m @ a)"

text \<open>
  \<open>accounted t s out\<close>: having typed \<open>t\<close> (the unfinished sequence held not included), \<open>out\<close> was
  forwarded and the rest is held.
\<close>

definition accounted :: "bytes \<Rightarrow> escape_parser \<Rightarrow> bytes \<Rightarrow> bool" where
  "accounted t s out \<longleftrightarrow>
     (case e_prefix s of
        None \<Rightarrow> e_between s = [] \<and> e_between_kept s = [] \<and> subseq out t
      | Some p \<Rightarrow> (\<exists>x. t = x @ p @ e_between s \<and> subseq out x \<and>
          one_key PrefixKey p \<and> incidental (e_between s) \<and>
          subseq (e_between_kept s) (e_between s)))"

definition detached :: "bytes \<Rightarrow> bytes \<Rightarrow> bool" where
  "detached t out \<longleftrightarrow>
     (\<exists>x p m d. t = x @ p @ m @ d \<and> one_key PrefixKey p \<and> incidental m \<and>
        one_key DetachKey d \<and> subseq out (x @ m))"

lemma subseq_mid: "subseq out x \<Longrightarrow> subseq kept m \<Longrightarrow> subseq (out @ kept @ d) (x @ p @ m @ d)"
  by (intro list_emb_append_mono list_emb_append2) auto

lemma decide_accounted:
  assumes t: "k \<noteq> OtherKey \<Longrightarrow> one_key k bs"
    and a: "accounted t s out" and d: "decide bs k s = (s1, o1, d)"
  shows "if d = EscapeDetach then detached (t @ bs) (out @ o1) else accounted (t @ bs) s1 (out @ o1)"
proof (cases "e_prefix s")
  case None
  show ?thesis
  proof (cases "k = PrefixKey")
    case True
    then show ?thesis using a d t None
      by (auto simp: accounted_def decide_def intro: incidental_Nil)
  next
    case False
    then show ?thesis using a d None
      by (auto simp: accounted_def decide_def intro: list_emb_append_mono)
  qed
next
  case (Some p)
  with a obtain x where x: "t = x @ p @ e_between s" "subseq out x"
      "one_key PrefixKey p" "incidental (e_between s)"
      "subseq (e_between_kept s) (e_between s)"
    by (auto simp: accounted_def)
  show ?thesis
  proof (cases k)
    case PrefixKey
    then show ?thesis using d Some x subseq_mid [OF x(2,5)]
      by (auto simp: accounted_def decide_def)
  next
    case DetachKey
    have "subseq (out @ e_between_kept s) (x @ e_between s)"
      using x(2,5) by (rule list_emb_append_mono)
    then have "detached (t @ bs) (out @ e_between_kept s)"
      unfolding detached_def using x t DetachKey by fastforce
    then show ?thesis using d Some DetachKey by (auto simp: decide_def)
  next
    case (Incidental b)
    then have "incidental (e_between s @ bs)" using x(4) t incidental_snoc by blast
    then show ?thesis using d Some Incidental x
      by (auto simp: accounted_def decide_def intro: list_emb_append_mono)
  next
    case OtherKey
    have "subseq (out @ p @ e_between s @ bs) (x @ p @ e_between s @ bs)"
      using x(2) by (intro list_emb_append_mono) auto
    then show ?thesis using d Some x OtherKey
      by (auto simp: accounted_def decide_def)
  qed
qed

lemma token_take:
  assumes "x \<noteq> []" "token x = Complete n k" "k \<noteq> OtherKey"
  shows "token (take n x) = Complete n k" and "length (take n x) = n"
proof -
  show "token (take n x) = Complete n k" using assms(1)
  proof (cases rule: token_cases)
    case (stop q b z)
    have "take (length q + 3) (esc # 0x5b # q @ b # z) = esc # 0x5b # q @ [b]"
      by (simp add: numeral_eq_Suc)
    then show ?thesis using stop assms token_csi_stop [of q b z] token_csi_stop [of q b "[]"]
      by (auto split: if_splits)
  qed (use assms in \<open>auto simp: token_single token_esc token_esc_other token_csi_params\<close>)
  show "length (take n x) = n" using assms token_length by (cases x) fastforce+
qed

lemma feed_loop_accounted:
  "accounted t s out \<Longrightarrow> e_partial s = [] \<Longrightarrow> feed_loop now at x s = (s1, o1, d) \<Longrightarrow>
   if d = EscapeDetach then \<exists>c z. x = c @ z \<and> detached (t @ c) (out @ o1)
   else \<exists>c. x = c @ e_partial s1 \<and> accounted (t @ c) s1 (out @ o1)"
proof (induction now at x s arbitrary: t out o1 rule: feed_loop.induct)
  case (1 now at s)
  then show ?case by (cases "e_prefix s") (auto simp: accounted_def)
next
  case (2 now at b bs s)
  let ?x = "b # bs"
  show ?case
  proof (cases "token ?x")
    case (Complete n k)
    obtain s' o' d' where d: "decide (take n ?x) k s = (s', o', d')" by (metis prod_cases3)
    have k: "one_key k (take n ?x)" if "k \<noteq> OtherKey"
      using token_take [OF _ Complete that] token_length [OF Complete] by (auto simp: one_key_def)
    note acc = decide_accounted [OF k "2.prems"(1) d]
    show ?thesis
    proof (cases "d' = EscapeDetach")
      case True
      then have "detached (t @ take n ?x) (out @ o')" using acc by simp
      moreover have "d = EscapeDetach" "o1 = o'"
        using "2.prems"(3) Complete d True by auto
      ultimately show ?thesis by (metis append_take_drop_id)
    next
      case False
      then obtain o2 where o2: "feed_loop now (at + n) (drop n ?x) s' = (s1, o2, d)" "o1 = o' @ o2"
        using "2.prems"(3) Complete d by (auto split: prod.splits)
      have "e_partial s' = []" using decide_partial [OF d] "2.prems"(2) by simp
      then have "if d = EscapeDetach then \<exists>c z. drop n ?x = c @ z \<and> detached ((t @ take n ?x) @ c) ((out @ o') @ o2)
        else \<exists>c. drop n ?x = c @ e_partial s1 \<and> accounted ((t @ take n ?x) @ c) s1 ((out @ o') @ o2)"
        using acc False by (intro "2.IH" [OF Complete d [symmetric] refl refl False _ _ o2(1)]) simp_all
      then show ?thesis using o2(2) by (metis append.assoc append_take_drop_id)
    qed
  next
    case Unfinished
    then show ?thesis using "2.prems"
      by (auto simp: accounted_def intro: list_emb_append_mono split: option.splits if_splits)
  qed
qed

lemma feed_loop_Complete:
  "bs \<noteq> [] \<Longrightarrow> token bs = Complete n k \<Longrightarrow> feed_loop now at bs s =
     (case decide (take n bs) k s of (s1, o1, d) \<Rightarrow>
        if d = EscapeDetach then (s1\<lparr>e_since := None\<rparr>, o1, EscapeDetach)
        else case feed_loop now (at + n) (drop n bs) s1 of (s2, o2, d2) \<Rightarrow> (s2, o1 @ o2, d2))"
  by (cases bs) (auto split: prod.splits)

text \<open>The clock and the unfinished sequence are not part of the account.\<close>

lemma accounted_update [simp]:
  "accounted t (s\<lparr>e_partial := p\<rparr>) out = accounted t s out"
  "accounted t (s\<lparr>e_since := c\<rparr>) out = accounted t s out"
  by (auto simp: accounted_def split: option.splits)

subsection \<open>Deadlines\<close>

text \<open>An unfinished sequence is held from the time of one of the reads \<open>ts\<close>.\<close>

definition timely :: "nat set \<Rightarrow> escape_parser \<Rightarrow> bool" where
  "timely ts s \<longleftrightarrow>
     (if e_partial s = [] then e_since s = None
      else length (e_partial s) < 64 \<and> (\<exists>t\<in>ts. e_since s = Some t))"

lemma decide_since: "decide bs k s = (s1, o1, d) \<Longrightarrow> e_since s1 = e_since s"
  by (auto simp: decide_def split: option.splits key.splits if_splits)

lemma unfinished_short: "x \<noteq> [] \<Longrightarrow> token x = Unfinished \<Longrightarrow> length x < 64"
  by (auto simp: token_Unfinished)

lemma feed_loop_timely:
  "e_partial s = [] \<Longrightarrow> e_since s = None \<or> (\<exists>t\<in>ts. e_since s = Some t) \<Longrightarrow>
   feed_loop now at x s = (s1, o1, d) \<Longrightarrow> timely (insert now ts) s1 \<and> e_mode s1 = e_mode s"
proof (induction now at x s arbitrary: o1 rule: feed_loop.induct)
  case (1 now at s)
  then show ?case by (auto simp: timely_def)
next
  case (2 now at b bs s)
  show ?case
  proof (cases "token (b # bs)")
    case (Complete n k)
    obtain s' o' d' where d: "decide (take n (b # bs)) k s = (s', o', d')" by (metis prod_cases3)
    note keep = decide_partial [OF d] decide_since [OF d]
    show ?thesis
    proof (cases "d' = EscapeDetach")
      case True
      then show ?thesis using "2.prems" Complete d keep by (auto simp: timely_def)
    next
      case False
      then obtain o2 where "feed_loop now (at + n) (drop n (b # bs)) s' = (s1, o2, d)"
        using "2.prems"(3) Complete d by (auto split: prod.splits)
      then show ?thesis
        using "2.IH" [OF Complete d [symmetric] refl refl False] "2.prems"(1,2) keep by simp
    qed
  next
    case Unfinished
    then show ?thesis using "2.prems" unfinished_short [of "b # bs"]
      by (auto simp: timely_def split: if_splits)
  qed
qed

subsection \<open>The client's loop\<close>

text \<open>What holds of the parser between two events of the client's loop.\<close>

definition parser_ok :: "nat set \<Rightarrow> escape_parser \<Rightarrow> bool" where
  "parser_ok ts s \<longleftrightarrow>
     timely ts s \<and> (e_mode s = EscapeDisabled \<longrightarrow> e_prefix s = None \<and> e_partial s = [])"

lemma new_parser_ok: "parser_ok ts (new_parser m)" "accounted [] (new_parser m) []"
  by (simp_all add: parser_ok_def timely_def accounted_def new_parser_def)

lemma feed_step:
  assumes ok: "parser_ok ts s" and a: "accounted t s out" and f: "feed now input s = (s1, o1, d)"
  shows "if d = EscapeDetach then \<exists>c z. e_partial s @ input = c @ z \<and> detached (t @ c) (out @ o1)
    else parser_ok (insert now ts) s1 \<and>
      (\<exists>c. e_partial s @ input = c @ e_partial s1 \<and> accounted (t @ c) s1 (out @ o1))"
proof (cases "e_mode s = EscapeDisabled")
  case True
  then have "accounted (t @ input) s (out @ input)"
    using ok a by (auto simp: parser_ok_def accounted_def intro: list_emb_append_mono)
  then show ?thesis using True ok f by (auto simp: feed_def parser_ok_def timely_def)
next
  case False
  let ?s0 = "s\<lparr>e_partial := []\<rparr>"
  have fl: "feed_loop now 0 (e_partial s @ input) ?s0 = (s1, o1, d)"
    using f False by (simp add: feed_def)
  have acc: "accounted t ?s0 out" using a by simp
  have "e_since ?s0 = None \<or> (\<exists>t\<in>ts. e_since ?s0 = Some t)"
    using ok by (auto simp: parser_ok_def timely_def split: if_splits)
  then have "parser_ok (insert now ts) s1"
    using feed_loop_timely [OF _ _ fl] False by (simp add: parser_ok_def)
  then show ?thesis
    using feed_loop_accounted [OF acc _ fl] by (cases d) auto
qed

lemma flush_step:
  assumes ok: "parser_ok ts s" and a: "accounted t s out" and f: "flush_expired now s = (s1, o1)"
  shows "parser_ok ts s1 \<and> (\<exists>c. e_partial s = c @ e_partial s1 \<and> accounted (t @ c) s1 (out @ o1))"
proof (cases "partial_deadline s = None \<or> now < the (partial_deadline s)")
  case True
  then have "s1 = s" "o1 = []" using f by (auto simp: flush_expired_def split: option.splits)
  then show ?thesis using ok a by simp
next
  case False
  let ?s0 = "s\<lparr>e_since := None, e_partial := []\<rparr>"
  obtain d where d: "decide (e_partial s) OtherKey ?s0 = (s1, o1, d)"
    using f False by (auto simp: flush_expired_def split: prod.splits)
  then have nd: "d \<noteq> EscapeDetach" by (auto simp: decide_def split: option.splits)
  have acc: "accounted t ?s0 out" using a by simp
  have "accounted (t @ e_partial s) s1 (out @ o1)"
    using decide_accounted [OF _ acc d] nd by simp
  moreover have "e_prefix s1 = None"
    using d by (auto simp: decide_def split: option.splits)
  ultimately show ?thesis
    using decide_partial [OF d] decide_since [OF d] by (auto simp: parser_ok_def timely_def)
qed

lemma relay_None: "relay es None = (None, [])"
  by (induction es) auto

text \<open>How a run that was fed \<open>input\<close> ended.\<close>

definition relayed ::
  "nat set \<Rightarrow> bytes \<Rightarrow> bytes \<Rightarrow> bytes \<Rightarrow> escape_parser option \<Rightarrow> bytes \<Rightarrow> bool" where
  "relayed ts t out input st o1 =
     (case st of
        None \<Rightarrow> \<exists>c z. input = c @ z \<and> detached (t @ c) (out @ o1)
      | Some s \<Rightarrow> parser_ok ts s \<and> (\<exists>c. input = c @ e_partial s \<and> accounted (t @ c) s (out @ o1)))"

lemma relayed_after:
  "relayed ts (t @ c) (out @ o1) rest st o2 \<Longrightarrow> relayed ts t out (c @ rest) st (o1 @ o2)"
  unfolding relayed_def by (cases st) (simp_all, (metis append.assoc)+)

lemma relay_run:
  "parser_ok ts s \<Longrightarrow> accounted t s out \<Longrightarrow> relay es (Some s) = (st, o') \<Longrightarrow>
   relayed (set (read_times es) \<union> ts) t out (e_partial s @ typed es) st o'"
proof (induction es arbitrary: ts s t out o')
  case Nil
  then show ?case by (auto simp: relayed_def)
next
  case (Cons ev es)
  show ?case
  proof (cases ev)
    case (KeysRead now input)
    obtain s1 o1 d where f: "feed now input s = (s1, o1, d)" by (metis prod_cases3)
    note step = feed_step [OF Cons.prems(1,2) f]
    show ?thesis
    proof (cases "d = EscapeDetach")
      case True
      then obtain c z where c: "e_partial s @ input = c @ z" "detached (t @ c) (out @ o1)"
        using step by auto
      have "e_partial s @ input @ typed es = c @ z @ typed es"
        using c(1) by (metis append.assoc)
      moreover have "relayed ts' t out (c @ z @ typed es) None o1" for ts'
        using c(2) by (auto simp: relayed_def)
      ultimately have "relayed ts' t out (e_partial s @ input @ typed es) None o1" for ts'
        by metis
      then show ?thesis using True Cons.prems(3) KeysRead f
        by (simp add: relay_None)
    next
      case False
      obtain o2 where r: "relay es (Some s1) = (st, o2)" "o' = o1 @ o2"
        using Cons.prems(3) KeysRead f False by (auto split: prod.splits)
      from step False obtain c where c: "parser_ok (insert now ts) s1"
          "e_partial s @ input = c @ e_partial s1" "accounted (t @ c) s1 (out @ o1)" by auto
      have e: "e_partial s @ input @ typed es = c @ e_partial s1 @ typed es"
        using c(2) by (metis append.assoc)
      show ?thesis
        using relayed_after [OF Cons.IH [OF c(1,3) r(1)]] r(2) KeysRead by (simp add: e)
    qed
  next
    case (KeyboardIdle now)
    obtain s1 o1 where f: "flush_expired now s = (s1, o1)" by fastforce
    from flush_step [OF Cons.prems(1,2) f] obtain c where c: "parser_ok ts s1"
        "e_partial s = c @ e_partial s1" "accounted (t @ c) s1 (out @ o1)" by auto
    obtain o2 where r: "relay es (Some s1) = (st, o2)" "o' = o1 @ o2"
      using Cons.prems(3) KeyboardIdle f by (auto split: prod.splits)
    show ?thesis
      using relayed_after [OF Cons.IH [OF c(1,3) r(1)]] r(2) c(2) KeyboardIdle by simp
  qed
qed

lemma relay_fresh:
  "relay es (Some (new_parser m)) = (st, out) \<Longrightarrow>
   relayed (set (read_times es)) [] [] (typed es) st out"
  using relay_run [of "{}" "new_parser m" "[]" "[]" es st out] new_parser_ok
  by (simp add: new_parser_def)

lemmas relay_eval = feed_def token.simps decide_def new_parser_def escape_consts
  escape_sequence_def at_index_def csi_param_def

lemmas csi_eval = param_char_def is_digit_def kitty_final_def key_code_def number_def number_or_def
  parse_uint_def parse_digits_def digits_val_def at_index_def key_event_def escape_consts
  is_modifier_key_def

lemma padded_press: "csi_key [0x30, 0x39, 0x32, 0x3b, 0x35] 0x75 = PrefixKey"
  by (simp add: csi_key_def classify_csi_def csi_eval)

lemma padded_not_held: "\<not> could_become_prefix [0x1b, 0x5b, 0x30]"
  by (simp add: could_become_prefix_def strip_prefix_def starts_with_def csi_eval)

subsection \<open>Numbers in key encodings\<close>

lemma show_u32:
  "length (show_nat (unat (c :: u32))) \<le> 10" "list_all is_digit (show_nat (unat c))"
  "number (show_nat (unat c)) = Some c"
proof -
  have b: "unat c < 2 ^ 32" using unsigned_less [of c, where ?'a = nat] by simp
  then show "length (show_nat (unat c)) \<le> 10" using length_show_nat [of "unat c" 9] by simp
  show d: "list_all is_digit (show_nat (unat c))" by (rule show_nat_digits)
  have "\<forall>b \<in> set (show_nat (unat c)). b < 128"
    using d by (auto simp: list_all_iff is_digit_def word_less_nat_alt word_le_nat_alt)
  then have "utf8_valid (show_nat (unat c))" by (rule utf8_valid_ascii)
  then show "number (show_nat (unat c)) = Some c"
    using parse_uint_show_nat [of "unat c" "2 ^ 32 - 1"] b show_nat_nonempty by (simp add: number_def)
qed

lemma digits_sep: "list_all is_digit ds \<Longrightarrow> 0x3b \<notin> set ds \<and> 0x3a \<notin> set ds"
  by (auto simp: list_all_iff is_digit_def)

lemma digits_params: "list_all is_digit ds \<Longrightarrow> list_all param_char ds"
  by (auto simp: list_all_iff param_char_def)

lemma params_csi: "list_all param_char ps \<Longrightarrow> list_all csi_param ps"
  by (auto simp: list_all_iff param_char_def csi_param_def is_digit_def word_le_nat_alt)

lemma split_show [simp]:
  "split_on 0x3b (show_nat (unat (c :: u32)) @ 0x3b # r) = show_nat (unat c) # split_on 0x3b r"
  "split_on 0x3b (show_nat (unat c)) = [show_nat (unat c)]"
  "split_on 0x3a (show_nat (unat c)) = [show_nat (unat c)]"
  using digits_sep [OF show_u32(2) [of c]] by (simp_all add: split_on_append_sep split_on_no_sep)

lemma one_key_csi:
  assumes "list_all param_char ps" "length ps < 62" "0x40 \<le> b" "b \<le> 0x7e"
  shows "one_key (csi_key ps b) (esc # 0x5b # ps @ [b])"
proof -
  have "\<not> csi_param b" using assms(3) by (auto simp: csi_param_def word_le_nat_alt)
  then show ?thesis
    using token_csi_stop [OF params_csi [OF assms(1)], of b "[]"] assms by (simp add: one_key_def)
qed

subsection \<open>Properties\<close>

text \<open>C38: How the keystrokes are cut into reads, and when the reads take place, does not matter:
  as long as no sequence carries a number with a leading zero, two series of reads of the same
  keystrokes forward the same bytes, both detach or neither does, and leave the same parser up
  to the clock.\<close>

theorem reads_irrelevant:
  assumes "concat (map snd rs) = concat (map snd qs)"
    and "\<not> zero_padded (concat (map snd rs))"
  shows "(case relay (map (case_prod KeysRead) rs) (Some (new_parser m)) of
            (s, out) \<Rightarrow> (map_option (\<lambda>s. s\<lparr>e_since := None\<rparr>) s, out)) =
         (case relay (map (case_prod KeysRead) qs) (Some (new_parser m)) of
            (s, out) \<Rightarrow> (map_option (\<lambda>s. s\<lparr>e_since := None\<rparr>) s, out))"
proof -
  have "may_feed (Some (forget (new_parser m))) (concat (map snd rs))"
    using assms(2) by (simp add: may_feed_def new_parser_def held_ok_def)
  then have "feed_pieces feed_keys (Some (forget (new_parser m))) (map snd rs) =
      feed_pieces feed_keys (Some (forget (new_parser m))) (map snd qs)"
    using assms(1) by (rule keys.pieces_irrelevant)
  then show ?thesis
    unfolding relay_reads option.map(2) .
qed

theorem reads_irrelevant_witness:
  "concat (map snd [(0::nat, [0x1b]), (5, [0x5b, 0x39, 0x32]), (9, [0x3b, 0x35, 0x75, 0x64])]) =
     concat (map snd [(0::nat, [0x1b :: u8, 0x5b, 0x39, 0x32, 0x3b, 0x35, 0x75, 0x64])]) \<and>
   \<not> zero_padded (concat (map snd [(0::nat, [0x1b]), (5, [0x5b, 0x39, 0x32]), (9, [0x3b, 0x35, 0x75, 0x64])])) \<and>
   (case relay [KeysRead 0 [0x1b], KeysRead 5 [0x5b, 0x39, 0x32], KeysRead 9 [0x3b, 0x35, 0x75, 0x64]]
        (Some (new_parser CtrlBackslash)) of
            (s, out) \<Rightarrow> (map_option (\<lambda>s. s\<lparr>e_since := None\<rparr>) s, out)) =
   (case relay [KeysRead 0 [0x1b, 0x5b, 0x39, 0x32, 0x3b, 0x35, 0x75, 0x64]]
        (Some (new_parser CtrlBackslash)) of
            (s, out) \<Rightarrow> (map_option (\<lambda>s. s\<lparr>e_since := None\<rparr>) s, out))"
proof (intro conjI)
  show 1: "concat (map snd [(0::nat, [0x1b]), (5, [0x5b, 0x39, 0x32]), (9, [0x3b, 0x35, 0x75, 0x64])]) =
     concat (map snd [(0::nat, [0x1b :: u8, 0x5b, 0x39, 0x32, 0x3b, 0x35, 0x75, 0x64])])" by simp
  show 2: "\<not> zero_padded (concat (map snd [(0::nat, [0x1b]), (5, [0x5b, 0x39, 0x32]), (9, [0x3b, 0x35, 0x75, 0x64])]))"
    by code_simp
  show "(case relay [KeysRead 0 [0x1b], KeysRead 5 [0x5b, 0x39, 0x32], KeysRead 9 [0x3b, 0x35, 0x75, 0x64]]
        (Some (new_parser CtrlBackslash)) of
            (s, out) \<Rightarrow> (map_option (\<lambda>s. s\<lparr>e_since := None\<rparr>) s, out)) =
   (case relay [KeysRead 0 [0x1b, 0x5b, 0x39, 0x32, 0x3b, 0x35, 0x75, 0x64]]
        (Some (new_parser CtrlBackslash)) of
            (s, out) \<Rightarrow> (map_option (\<lambda>s. s\<lparr>e_since := None\<rparr>) s, out))"
    using reads_irrelevant [OF 1 2, of CtrlBackslash] by simp
qed

text \<open>A sequence with a leading zero is read differently in two reads than in one: \<open>ESC [ 092 ; 5 u\<close>
  followed by \<open>d\<close> detaches in one read, and is forwarded when the first read ends after the zero.\<close>

theorem padded_split_differs:
  "fst (relay [KeysRead 0 [0x1b, 0x5b, 0x30, 0x39, 0x32, 0x3b, 0x35, 0x75, 0x64]]
     (Some (new_parser CtrlBackslash))) = None \<and>
   relay [KeysRead 0 [0x1b, 0x5b, 0x30], KeysRead 0 [0x39, 0x32, 0x3b, 0x35, 0x75, 0x64]]
     (Some (new_parser CtrlBackslash)) =
     (Some (new_parser CtrlBackslash), [0x1b, 0x5b, 0x30, 0x39, 0x32, 0x3b, 0x35, 0x75, 0x64])"
  using padded_press padded_not_held by (simp add: relay_eval)

text \<open>While the client stays attached, what it forwarded, followed by what the parser still holds,
  is the typed bytes in their order, less what a doubled prefix swallowed: nothing is invented,
  duplicated or reordered.\<close>

theorem forwarded_in_order:
  assumes "relay es (Some (new_parser m)) = (Some s, out)"
  shows "subseq (out @ (case e_prefix s of Some p \<Rightarrow> p | None \<Rightarrow> []) @ e_between s @ e_partial s) (typed es)"
  using relay_fresh [OF assms]
  by (auto simp: relayed_def accounted_def intro: list_emb_append_mono split: option.splits)

theorem forwarded_in_order_witness:
  "\<exists>s out. relay [KeysRead 0 [0x61, 0x1c]] (Some (new_parser CtrlBackslash)) = (Some s, out) \<and>
     subseq (out @ (case e_prefix s of Some p \<Rightarrow> p | None \<Rightarrow> []) @ e_between s @ e_partial s)
       (typed [KeysRead 0 [0x61, 0x1c]])"
proof -
  have "relay [KeysRead 0 [0x61, 0x1c]] (Some (new_parser CtrlBackslash)) =
      (Some ((new_parser CtrlBackslash)\<lparr>e_prefix := Some [0x1c]\<rparr>), [0x61])"
    by code_simp
  then show ?thesis using forwarded_in_order by blast
qed

text \<open>C39: The client detaches only when a press of the prefix was followed, with nothing but incidental
  events between, by a press of the detach key; neither press nor anything after them is forwarded.\<close>

theorem detach_needs_sequence:
  assumes "relay es (Some (new_parser m)) = (None, out)"
  shows "\<exists>x p i d z. typed es = x @ p @ i @ d @ z \<and> one_key PrefixKey p \<and>
    incidental i \<and> one_key DetachKey d \<and> subseq out (x @ i)"
  using relay_fresh [OF assms] by (fastforce simp: relayed_def detached_def)

theorem detach_needs_sequence_witness:
  "relay [KeysRead 0 [0x61, 0x1c, 0x64]] (Some (new_parser CtrlBackslash)) = (None, [0x61]) \<and>
   (\<exists>x p i d z. typed [KeysRead 0 [0x61, 0x1c, 0x64]] = x @ p @ i @ d @ z \<and>
      one_key PrefixKey p \<and>
      incidental i \<and> one_key DetachKey d \<and> subseq [0x61] (x @ i))"
proof (rule conjI)
  show 1: "relay [KeysRead 0 [0x61, 0x1c, 0x64]] (Some (new_parser CtrlBackslash)) = (None, [0x61])"
    by (simp add: relay_eval)
  show "\<exists>x p i d z. typed [KeysRead 0 [0x61, 0x1c, 0x64]] = x @ p @ i @ d @ z \<and>
      one_key PrefixKey p \<and>
      incidental i \<and> one_key DetachKey d \<and> subseq [0x61] (x @ i)"
    by (rule detach_needs_sequence [OF 1])
qed

text \<open>In any of their encodings, the prefix followed by the detach key detaches and forwards
  nothing, a doubled prefix forwards the second one, and the prefix followed by an ordinary key
  forwards both.\<close>

theorem escape_pairs:
  assumes "one_key PrefixKey p" and "one_key PrefixKey p'" and "one_key DetachKey d" and "one_key OtherKey k"
  shows "feed now (p @ d @ z) (new_parser CtrlBackslash) = (new_parser CtrlBackslash, [], EscapeDetach) \<and>
    feed now (p @ p') (new_parser CtrlBackslash) = (new_parser CtrlBackslash, p', EscapeContinue) \<and>
    feed now (p @ k) (new_parser CtrlBackslash) = (new_parser CtrlBackslash, p @ k, EscapeContinue)"
proof -
  let ?s = "new_parser CtrlBackslash"
  have first: "feed now (p @ y) ?s =
      (if y = [] then (?s\<lparr>e_prefix := Some p\<rparr>, [], EscapeContinue)
       else feed_loop now (length p) y (?s\<lparr>e_prefix := Some p\<rparr>))" for y
    using feed_loop_Complete [of "p @ y" "length p" PrefixKey now 0 ?s] assms(1) token_append
    by (auto simp: feed_def one_key_def new_parser_def decide_def split: prod.splits)
  have second: "feed_loop now (length p) (k' @ y) (?s\<lparr>e_prefix := Some p\<rparr>) =
      (case decide k' c (?s\<lparr>e_prefix := Some p\<rparr>) of (s1, o1, e) \<Rightarrow>
         if e = EscapeDetach then (s1\<lparr>e_since := None\<rparr>, o1, EscapeDetach)
         else case feed_loop now (length p + length k') y s1 of (s2, o2, d2) \<Rightarrow> (s2, o1 @ o2, d2))"
    if "one_key c k'" for c k' y
    using feed_loop_Complete [of "k' @ y" "length k'" c now "length p" "?s\<lparr>e_prefix := Some p\<rparr>"] that token_append
    by (auto simp: one_key_def split: prod.splits)
  have "d @ z \<noteq> []" "p' \<noteq> []" "k \<noteq> []" using assms(2-4) by (auto simp: one_key_def)
  then have *: "feed now (p @ d @ z) ?s = feed_loop now (length p) (d @ z) (?s\<lparr>e_prefix := Some p\<rparr>)"
      "feed now (p @ p') ?s = feed_loop now (length p) p' (?s\<lparr>e_prefix := Some p\<rparr>)"
      "feed now (p @ k) ?s = feed_loop now (length p) k (?s\<lparr>e_prefix := Some p\<rparr>)"
    using first by presburger+
  show ?thesis
    unfolding * using second [OF assms(3), of z] second [OF assms(2), of "[]"] second [OF assms(4), of "[]"]
    by (simp add: decide_def new_parser_def)
qed

theorem escape_pairs_witness:
  "one_key PrefixKey [0x1c] \<and> one_key DetachKey [0x64] \<and> one_key OtherKey [0x61] \<and>
   feed 0 ([0x1c] @ [0x64] @ [0x61]) (new_parser CtrlBackslash) = (new_parser CtrlBackslash, [], EscapeDetach) \<and>
   feed 0 ([0x1c] @ [0x1c]) (new_parser CtrlBackslash) = (new_parser CtrlBackslash, [0x1c], EscapeContinue) \<and>
   feed 0 ([0x1c] @ [0x61]) (new_parser CtrlBackslash) = (new_parser CtrlBackslash, [0x1c] @ [0x61], EscapeContinue)"
proof -
  have "one_key PrefixKey [0x1c]" "one_key DetachKey [0x64]" "one_key OtherKey [0x61]"
    by (simp_all add: one_key_def token.simps escape_consts)
  then show ?thesis using escape_pairs [of "[0x1c]" "[0x1c]" "[0x64]" "[0x61]" 0 "[0x61]"] by simp
qed

text \<open>A press of key \<open>c\<close> with encoded modifiers \<open>m\<close> is recognized alike in kitty's and in xterm's
  encoding, for every 32-bit \<open>c\<close> and \<open>m\<close>, and is a press of the prefix exactly for the backslash
  with ctrl, and of the detach key exactly for \<open>d\<close> without modifiers, locks ignored.\<close>

theorem press_encodings:
  "one_key (if is_modifier_key c then Incidental False else key_event c m event_press)
     (esc # 0x5b # show_nat (unat c) @ 0x3b # show_nat (unat m) @ [0x75]) \<and>
   one_key (key_event c m event_press)
     (esc # 0x5b # [0x32, 0x37, 0x3b] @ show_nat (unat m) @ 0x3b # show_nat (unat c) @ [0x7e]) \<and>
   (key_event c m event_press = PrefixKey \<longleftrightarrow>
     c = 92 \<and> m \<noteq> 0 \<and> (m - 1) AND NOT (64 OR 128) = 4) \<and>
   (key_event c m event_press = DetachKey \<longleftrightarrow>
     c = 100 \<and> m \<noteq> 0 \<and> (m - 1) AND NOT (64 OR 128) = 0)"
proof (intro conjI)
  let ?kitty = "show_nat (unat c) @ 0x3b # show_nat (unat m)"
  let ?xterm = "[0x32, 0x37, 0x3b] @ show_nat (unat m) @ 0x3b # show_nat (unat c)"
  note digits = digits_params [OF show_u32(2)]
  have params: "list_all param_char ?kitty" "list_all param_char ?xterm"
    using digits by (simp_all add: param_char_def is_digit_def)
  have len: "length ?kitty < 62" "length ?xterm < 62"
    using show_u32(1) [of c] show_u32(1) [of m] by simp_all
  have "csi_key ?kitty 0x75 = (if is_modifier_key c then Incidental False else key_event c m event_press)"
    using params(1) show_nat_nonempty
    by (simp add: csi_key_def classify_csi_def kitty_final_def at_index_def number_or_def show_u32(3)
        key_code_def Let_def escape_consts)
  then show "one_key (if is_modifier_key c then Incidental False else key_event c m event_press)
     (esc # 0x5b # show_nat (unat c) @ 0x3b # show_nat (unat m) @ [0x75])"
    using one_key_csi [OF params(1) len(1), of "0x75"] by simp
  have "csi_key ?xterm 0x7e = key_event c m event_press"
    using params(2) show_nat_nonempty
    by (simp add: csi_key_def classify_csi_def show_u32(3) Let_def)
  then show "one_key (key_event c m event_press)
     (esc # 0x5b # [0x32, 0x37, 0x3b] @ show_nat (unat m) @ 0x3b # show_nat (unat c) @ [0x7e])"
    using one_key_csi [OF params(2) len(2), of "0x7e"] by simp
  show "key_event c m event_press = PrefixKey \<longleftrightarrow>
     c = 92 \<and> m \<noteq> 0 \<and> (m - 1) AND NOT (64 OR 128) = 4"
    by (simp add: key_event_def escape_consts Let_def)
  show "key_event c m event_press = DetachKey \<longleftrightarrow>
     c = 100 \<and> m \<noteq> 0 \<and> (m - 1) AND NOT (64 OR 128) = 0"
    by (auto simp: key_event_def escape_consts Let_def)
qed

text \<open>Nothing unfinished is held past its deadline: once the client has waited 20 ms after its last
  read, an idle wait leaves no unfinished sequence held, and never more than 63 bytes of one are.\<close>

theorem partial_flushed:
  assumes "relay es (Some (new_parser m)) = (Some s, out)"
    and "list_all (\<lambda>t. t + partial_hold \<le> now) (read_times es)"
    and "flush_expired now s = (s1, o1)"
  shows "length (e_partial s) < 64 \<and> e_partial s1 = [] \<and> e_since s1 = None \<and>
    o1 = (if e_partial s = [] then [] else (case e_prefix s of Some p \<Rightarrow> p @ e_between s | None \<Rightarrow> []) @ e_partial s)"
proof -
  have t: "timely (set (read_times es)) s"
    using relay_fresh [OF assms(1)] by (simp add: relayed_def parser_ok_def)
  show ?thesis
  proof (cases "e_partial s = []")
    case True
    then show ?thesis using t assms(3)
      by (auto simp: timely_def flush_expired_def partial_deadline_def)
  next
    case False
    then obtain u where "u \<in> set (read_times es)" "e_since s = Some u"
      using t by (auto simp: timely_def)
    moreover have "u + partial_hold \<le> now"
      using assms(2) calculation by (auto simp: list_all_iff)
    ultimately show ?thesis using t assms(3) False
      by (auto simp: timely_def flush_expired_def partial_deadline_def decide_def split: option.splits)
  qed
qed

theorem partial_flushed_witness:
  "\<exists>s out s1 o1. relay [KeysRead 3 [0x1b]] (Some (new_parser CtrlBackslash)) = (Some s, out) \<and>
     list_all (\<lambda>t. t + partial_hold \<le> 23) (read_times [KeysRead 3 [0x1b]]) \<and>
     flush_expired 23 s = (s1, o1) \<and>
     length (e_partial s) < 64 \<and> e_partial s1 = [] \<and> e_since s1 = None \<and>
     o1 = (if e_partial s = [] then [] else (case e_prefix s of Some p \<Rightarrow> p @ e_between s | None \<Rightarrow> []) @ e_partial s)"
proof -
  let ?s = "(new_parser CtrlBackslash)\<lparr>e_partial := [0x1b], e_since := Some 3\<rparr>"
  have 1: "relay [KeysRead 3 [0x1b]] (Some (new_parser CtrlBackslash)) = (Some ?s, [])"
    by code_simp
  have 2: "list_all (\<lambda>t. t + partial_hold \<le> 23) (read_times [KeysRead 3 [0x1b]])"
    by (simp add: partial_hold_def)
  obtain s1 o1 where 3: "flush_expired 23 ?s = (s1, o1)" by fastforce
  show ?thesis using 1 2 3 partial_flushed [OF 1 2 3] by blast
qed

end
