(* ===== verification/Attach_Client_Laws.thy ===== *)
theory Attach_Client_Laws
  imports Attach_Client Attach_Escape_Laws
begin

text \<open>
  What the attach client promises: of the keystrokes it forwards, what is sent is an unbroken start of
  what was queued, what is not queued is counted, and it leaves the signals as it found them.
\<close>

subsection \<open>Signals\<close>



subsection \<open>The outbox\<close>

text \<open>The piece being written; a write that failed may have been cut anywhere.\<close>

definition writing_now :: "client \<Rightarrow> bytes \<Rightarrow> bool" where
  "writing_now s flight \<longleftrightarrow>
     (case cl_sender s of
        SenderIdle \<Rightarrow> flight = []
      | SenderWriting f \<Rightarrow> flight = data_bytes [f]
      | SenderEnded \<Rightarrow> True)"

definition sending_ok :: "client \<Rightarrow> bool" where
  "sending_ok s \<longleftrightarrow>
     (\<exists>flight. writing_now s flight \<and>
        data_bytes (cl_sent s) @ flight @ concat (ob_data (cl_box s)) = concat (cl_queued s)) \<and>
     (\<forall>f\<in>set (ob_controls (cl_box s)). data_bytes [f] = []) \<and>
     ob_bytes (cl_box s) = length (concat (ob_data (cl_box s))) \<and> ob_bytes (cl_box s) \<le> outbox_data_limit"





lemma sending_ok_update [simp]:
  "sending_ok (s\<lparr>cl_parser := q\<rparr>) = sending_ok s" "sending_ok (s\<lparr>cl_size := g\<rparr>) = sending_ok s"
  "sending_ok (s\<lparr>cl_dropped := k\<rparr>) = sending_ok s"
  by (simp_all add: sending_ok_def writing_now_def)







subsection \<open>Keystrokes\<close>




lemma queue_keystrokes_parser [simp]: "cl_parser (queue_keystrokes bs s) = cl_parser s"
  by (simp add: queue_keystrokes_def split: prod.splits bool.splits)
















end
