(* ===== verification/Push_Client.thy ===== *)
theory Push_Client
  imports Attach_Client Attach_Conns
begin

text \<open>
  The push client (\<open>src/src/commands/push.rs\<close>), and what it and the sidecar's push handler achieve
  together.
\<close>

subsection \<open>Sending\<close>

datatype stdin_read = StdinData bytes | StdinEof | StdinInterrupted | StdinFailed bytes

text \<open>
  Standard input is sent in frames of at most 64 KiB until it ends or a write fails; with each read comes the
  answer of the write that may follow. The result is the number of bytes, whether that was all, and the
  frames written; \<open>None\<close> is a read that still waits.
\<close>

fun push_send :: "(stdin_read \<times> bool) list \<Rightarrow> u64 \<Rightarrow> (bytes + u64 \<times> bool) option \<times> frame list" where
  "push_send [] sent = (None, [])"
| "push_send ((r, ok) # rs) sent =
     (case r of
        StdinEof \<Rightarrow> (Some (Inr (sent, True)), [])
      | StdinInterrupted \<Rightarrow> push_send rs sent
      | StdinFailed e \<Rightarrow> (Some (Inl e), [])
      | StdinData bs \<Rightarrow>
          if ok then map_prod id ((#) (Data bs)) (push_send rs (sent + of_nat (length bs)))
          else (Some (Inr (sent, False)), []))"

definition push_outcome_end :: "push_outcome \<Rightarrow> u64 \<Rightarrow> bool \<Rightarrow> client_end" where
  "push_outcome_end x sent all_sent =
     (case x of
        push_outcome.Written n \<Rightarrow> ClientOk
      | Revoked p \<Rightarrow> if all_sent \<and> prog_accepted p = sent then ClientOk
                     else ClientFailed (Some RuntimeExit) (ascii ''push revoked: another client took control of the terminal'')
      | Closed p \<Rightarrow> if all_sent \<and> prog_accepted p = sent then ClientOk
                    else ClientFailed (Some RuntimeExit) (ascii ''push stopped: the session stopped accepting input''))"

fun await_outcome :: "(frame_error + frame) list \<Rightarrow> u64 \<Rightarrow> bool \<Rightarrow> client_end option" where
  "await_outcome [] sent all_sent = None"
| "await_outcome (r # rs) sent all_sent =
     (case r of
        Inr (InputDone x) \<Rightarrow> Some (push_outcome_end x sent all_sent)
      | Inl (FrameMalformed e) \<Rightarrow> Some (ClientFailed (Some ProtocolExit) (ascii ''malformed push outcome from the session''))
      | Inl (FrameIo k) \<Rightarrow> Some (ClientFailed (Some RuntimeExit) (ascii ''the session closed the push without reporting an outcome''))
      | _ \<Rightarrow> await_outcome rs sent all_sent)"

record push_client_env =
  pc_connect :: connect_env
  pc_stdin :: "(stdin_read \<times> bool) list"
  pc_detach_sent :: bool
  pc_replies :: "(frame_error + frame) list"

definition push_over_attach_socket :: "(error_kind \<Rightarrow> bool) \<Rightarrow> push_client_env \<Rightarrow> (client_end \<times> frame list) option" where
  "push_over_attach_socket timed_out e =
     (case connect timed_out (pc_connect e) of
        Inl f \<Rightarrow> Some (ClientRefused f, [])
      | Inr _ \<Rightarrow>
          (case push_send (pc_stdin e) 0 of
             (None, frames) \<Rightarrow> None
           | (Some (Inl err), frames) \<Rightarrow> Some (ClientFailed None err, frames)
           | (Some (Inr (sent, all_sent)), frames) \<Rightarrow>
               map_option (\<lambda>r. (r, frames @ (if pc_detach_sent e then [Detach] else [])))
                 (await_outcome (pc_replies e) sent all_sent)))"

subsection \<open>The command\<close>

text \<open>The FIFO of a pipe session: open, no reader yet (with the record read then), or an error.\<close>

datatype fifo_open = FifoOpen | FifoNoReader session_look | FifoOpenFailed bytes

fun open_fifo :: "(bytes \<Rightarrow> bytes + meta) \<Rightarrow> session_name \<Rightarrow> fifo_open list \<Rightarrow> (bytes + unit) option" where
  "open_fifo from_json name [] = None"
| "open_fifo from_json name (x # xs) =
     (case x of
        FifoOpen \<Rightarrow> Some (Inr ())
      | FifoOpenFailed e \<Rightarrow> Some (Inl (ascii ''failed to open stdin pipe: '' @ e))
      | FifoNoReader l \<Rightarrow>
          (case look_meta from_json name l of
             Inl err \<Rightarrow> Some (Inl (show_session_error err))
           | Inr m \<Rightarrow> if is_running_status (status m) then open_fifo from_json name xs
                      else Some (Inl (ascii ''session exited before push could connect''))))"

record push_call =
  pc_open :: session_look
  pc_read :: session_look
  pc_fifo :: "fifo_open list"
  pc_copied :: "bytes + unit"
  pc_socket :: push_client_env

definition cmd_push :: "(error_kind \<Rightarrow> bool) \<Rightarrow> (bytes \<Rightarrow> bytes + meta) \<Rightarrow> push_call \<Rightarrow> namespace \<Rightarrow> bytes
    \<Rightarrow> (client_end \<times> frame list) option" where
  "cmd_push timed_out from_json c ns raw =
     (case name_result ''session name'' (new_session_name raw) of
        Inl err \<Rightarrow> Some (ClientFailed None err, [])
      | Inr name \<Rightarrow>
          (case look_open ns name (pc_open c) of
             Inl err \<Rightarrow> Some (ClientFailed None (show_session_error err), [])
           | Inr None \<Rightarrow> Some (ClientFailed None (ascii ''session not found: '' @ raw), [])
           | Inr (Some _) \<Rightarrow>
               (case look_meta from_json name (pc_read c) of
                  Inl err \<Rightarrow> Some (ClientFailed None (show_session_error err), [])
                | Inr m \<Rightarrow>
                    if stdin_mode (launch_spec m) \<noteq> StdinPipe then
                      Some (ClientFailed None (ascii ''session was not started with --stdin''), [])
                    else if \<not> is_running_status (status m) then
                      Some (ClientFailed (if pty m \<noteq> None then Some ControlExit else None) (ascii ''session is not running''), [])
                    else case pty m of
                      Some p \<Rightarrow>
                        if pty_control p = HumanControl then
                          Some (ClientFailed (Some ControlExit) (ascii ''session is under human control''), [])
                        else push_over_attach_socket timed_out (pc_socket c)
                    | None \<Rightarrow>
                        (case open_fifo from_json name (pc_fifo c) of
                           None \<Rightarrow> None
                         | Some (Inl err) \<Rightarrow> Some (ClientFailed None err, [])
                         | Some (Inr _) \<Rightarrow>
                             Some (case pc_copied c of Inl err \<Rightarrow> ClientFailed None err | Inr _ \<Rightarrow> ClientOk, [])))))"

subsection \<open>Client and session together\<close>

fun stdin_bytes :: "(stdin_read \<times> bool) list \<Rightarrow> bytes" where
  "stdin_bytes [] = []"
| "stdin_bytes ((StdinData bs, ok) # rs) = bs @ stdin_bytes rs"
| "stdin_bytes ((StdinInterrupted, ok) # rs) = stdin_bytes rs"
| "stdin_bytes (_ # rs) = []"

lemma push_send_frames:
  "push_send rs sent = (Some (Inr (n, all_sent)), frames) \<Longrightarrow>
   n = sent + of_nat (length (data_bytes frames)) \<and> (\<forall>f\<in>set frames. \<exists>bs. f = Data bs) \<and> (all_sent \<longrightarrow> data_bytes frames = stdin_bytes rs)"
proof (induction rs arbitrary: sent n frames)
  case (Cons x rs)
  obtain r ok where x: "x = (r, ok)" by (cases x)
  show ?case
  proof (cases "\<exists>bs. r = StdinData bs \<and> ok")
    case True
    then obtain bs fs where r: "r = StdinData bs" ok "push_send rs (sent + of_nat (length bs)) = (Some (Inr (n, all_sent)), fs)" "frames = Data bs # fs"
      using Cons.prems by (auto simp: x map_prod_def split: prod.splits)
    from Cons.IH [OF r(3)] show ?thesis by (simp add: x r(1,4))
  next
    case False
    then show ?thesis using Cons.prems Cons.IH by (cases r) (auto simp: x)
  qed
qed simp

lemma push_send_all: "push_send rs sent = (Some (Inr (n, all_sent)), frames) \<Longrightarrow> \<forall>(r, ok)\<in>set rs. ok \<Longrightarrow> all_sent"
proof (induction rs arbitrary: sent n frames)
  case (Cons x rs)
  obtain r ok where x: "x = (r, ok)" by (cases x)
  show ?case using Cons.prems Cons.IH by (cases r) (auto simp: x map_prod_def split: prod.splits if_splits)
qed simp

lemma await_outcome_told: "await_outcome rs sent all_sent = Some ClientOk \<Longrightarrow>
    \<exists>y. Inr (InputDone y) \<in> set rs \<and> push_outcome_end y sent all_sent = ClientOk"
  by (induction rs) (auto split: sum.splits frame.splits frame_error.splits)

text \<open>The session reads the frames that were written, in order, and after them only the end of the connection.\<close>

definition reads_stream :: "push_event list \<Rightarrow> frame list \<Rightarrow> bool" where
  "reads_stream es frames \<longleftrightarrow> (\<exists>rest. (\<forall>r\<in>set rest. \<exists>k. r = Inl (FrameIo k)) \<and> prefix (map pe_read es) (map Inr frames @ rest))"

lemma only_mark:
  assumes "fs @ end_mark = before @ a # later" "a \<notin> set fs" "end_mark = [] \<or> end_mark = [a]"
  shows "end_mark = [a] \<and> before = fs"
proof (cases later rule: rev_cases)
  case Nil
  then show ?thesis using assms by auto
next
  case (snoc ys y)
  then show ?thesis using assms by (auto dest: arg_cong [of _ _ set] simp: append_eq_append_conv2 append_eq_Cons_conv)
qed

lemma head_after_end:
  "\<forall>r\<in>set rest. \<exists>k. r = Inl (FrameIo k) \<Longrightarrow> prefix (x # xs) rest \<Longrightarrow> \<exists>k. x = Inl (FrameIo k)"
  by (cases rest) auto

lemma push_writes_stream:
  assumes "reads_stream es frames"
  shows "prefix (concat (map fst (push_writes es))) (data_bytes frames)"
proof -
  obtain rest where r: "\<forall>r\<in>set rest. \<exists>k. r = Inl (FrameIo k)" "prefix (map pe_read es) (map Inr frames @ rest)"
    using assms by (auto simp: reads_stream_def)
  from r(2) show ?thesis
  proof (induction es arbitrary: frames)
    case (Cons e es)
    show ?case
    proof (cases frames)
      case Nil
      then obtain k where "pe_read e = Inl (FrameIo k)" using head_after_end [OF r(1)] Cons.prems by fastforce
      then show ?thesis by simp
    next
      case (Cons f fs)
      then have step: "pe_read e = Inr f" "prefix (map pe_read es) (map Inr fs @ rest)" using Cons.prems by auto
      note IH = Cons.IH [OF step(2)]
      show ?thesis using IH by (cases f) (auto simp: Cons step(1) split: option.splits push_write.splits input_outcome.splits)
    qed
  qed simp
qed

lemma written_reads_detach:
  "push_loop h es written = Some (acts, PushReport (push_outcome.Written n)) \<Longrightarrow> prefix (map pe_read es) (map Inr frames @ rest) \<Longrightarrow>
   \<forall>r\<in>set rest. \<exists>k. r = Inl (FrameIo k) \<Longrightarrow> \<exists>before after. frames = before @ Detach # after \<and> concat (map fst (push_writes es)) = data_bytes before"
proof (induction es arbitrary: frames written acts)
  case (Cons e es)
  show ?case
  proof (cases frames)
    case Nil
    then obtain k where "pe_read e = Inl (FrameIo k)" using head_after_end [OF Cons.prems(3)] Cons.prems(2) by fastforce
    then show ?thesis using Cons.prems(1) by (auto split: if_splits)
  next
    case (Cons f fs)
    then have step: "pe_read e = Inr f" "prefix (map pe_read es) (map Inr fs @ rest)" using Cons.prems(2) by auto
    show ?thesis
    proof (cases "f = Detach")
      case True
      then show ?thesis using step(1) Cons by (intro exI [of _ "[]"] exI [of _ fs]) simp
    next
      case False
      obtain acts' w' where l: "push_loop h es w' = Some (acts', PushReport (push_outcome.Written n))"
        and w: "concat (map fst (push_writes (e # es))) = data_bytes [f] @ concat (map fst (push_writes es))"
        using Cons.prems(1) step(1) False
        by (cases f) (auto simp: Let_def split: if_splits option.splits push_write.splits input_outcome.splits incomplete_reason.splits)
      from Cons.IH [OF l step(2) Cons.prems(3)] obtain before after
        where "fs = before @ Detach # after" "concat (map fst (push_writes es)) = data_bytes before" by blast
      then show ?thesis using Cons w by (intro exI [of _ "f # before"] exI [of _ after]) (cases f; simp)
    qed
  qed
qed simp

lemma u64_count_eq: "(of_nat a :: u64) = of_nat b \<Longrightarrow> a \<le> b \<Longrightarrow> b < 2 ^ 64 \<Longrightarrow> a = b"
  by (drule arg_cong [of _ _ unat]) (simp add: unat_of_nat)

lemma push_over_socket_parts:
  assumes "push_over_attach_socket timed_out c = Some (ClientOk, frames)"
  obtains sent all_sent fs where "push_send (pc_stdin c) 0 = (Some (Inr (sent, all_sent)), fs)"
    "await_outcome (pc_replies c) sent all_sent = Some ClientOk" "frames = fs @ (if pc_detach_sent c then [Detach] else [])"
proof -
  obtain r fs where send: "push_send (pc_stdin c) 0 = (r, fs)" by fastforce
  show thesis
  proof (cases "connect timed_out (pc_connect c)")
    case (Inr u)
    then obtain sent all_sent where r: "r = Some (Inr (sent, all_sent))"
      using assms unfolding push_over_attach_socket_def send by (cases r) (simp_all split: sum.splits, metis surj_pair)
    show thesis by (rule that [of sent all_sent fs]) (use assms in \<open>simp_all add: push_over_attach_socket_def send r Inr\<close>)
  qed (use assms in \<open>simp add: push_over_attach_socket_def\<close>)
qed

lemma prefix_same: "prefix a b \<Longrightarrow> length a = length b \<Longrightarrow> a = b"
  by (auto simp: prefix_def)

lemma offered_length: "offered ws = length (concat (map fst ws))"
  by (induction ws) (auto simp: offered_def)

text \<open>C17: A push into a terminal that succeeds delivered standard input: the session took every byte of it, in the
  order it was read, whatever cut it into frames and whatever else happened to the connection.\<close>

theorem push_delivers_stdin:
  assumes client: "push_over_attach_socket timed_out c = Some (ClientOk, frames)" "\<forall>r\<in>set (pc_replies c). \<forall>y. r = Inr (InputDone y) \<longrightarrow> y = x"
      "pc_detach_sent c \<longrightarrow> (\<forall>(r, ok)\<in>set (pc_stdin c). ok)"
    and server: "handle_push_connection e holder = Some acts" "SendFrame (InputDone x) ok \<in> set acts"
      "\<forall>(p, w)\<in>set (push_writes (pu_events e)). frame_taken p w \<le> length p"
    and stream: "reads_stream (pu_events e) frames" "length (stdin_bytes (pc_stdin c)) < 2 ^ 64"
  shows "concat (map fst (push_writes (pu_events e))) = stdin_bytes (pc_stdin c) \<and>
    taken (push_writes (pu_events e)) = length (stdin_bytes (pc_stdin c))"
proof -
  let ?ws = "push_writes (pu_events e)" and ?in = "stdin_bytes (pc_stdin c)"
  obtain sent all_sent fs where send: "push_send (pc_stdin c) 0 = (Some (Inr (sent, all_sent)), fs)"
    and waited: "await_outcome (pc_replies c) sent all_sent = Some ClientOk"
    and frames: "frames = fs @ (if pc_detach_sent c then [Detach] else [])"
    using push_over_socket_parts [OF client(1)] by blast
  obtain y where y: "Inr (InputDone y) \<in> set (pc_replies c)" "push_outcome_end y sent all_sent = ClientOk"
    using await_outcome_told [OF waited] by (elim exE conjE)
  have told: "push_outcome_end x sent all_sent = ClientOk" using y(2) client(2) [rule_format, OF y(1) refl] by simp
  note sends = push_send_frames [OF send]
  have data: "data_bytes frames = data_bytes fs" by (simp add: frames)
  have pre: "prefix (concat (map fst ?ws)) (data_bytes fs)" using push_writes_stream [OF stream(1)] by (simp add: data)
  obtain h subs where loop: "push_loop h (pu_events e) 0 = Some (subs, PushReport x)" using push_report_parts [OF server(1,2)] by blast
  have counts: "fst (outcome_counts x) = of_nat (taken ?ws)" using push_loop_counts(1) [OF loop] by simp
  have "concat (map fst ?ws) = ?in \<and> taken ?ws = offered ?ws"
  proof (cases "\<exists>n. x = push_outcome.Written n")
    case True
    then obtain n where n: "push_loop h (pu_events e) 0 = Some (subs, PushReport (push_outcome.Written n))" using loop by auto
    obtain rest where "\<forall>r\<in>set rest. \<exists>k. r = Inl (FrameIo k)" "prefix (map pe_read (pu_events e)) (map Inr frames @ rest)"
      using stream(1) by (auto simp: reads_stream_def)
    then obtain before later where split: "frames = before @ Detach # later" "concat (map fst ?ws) = data_bytes before"
      using written_reads_detach [OF n] by blast
    have no: "Detach \<notin> set fs" using sends by auto
    then have d: "pc_detach_sent c" "before = fs" using split(1) frames
      using only_mark [of fs "if pc_detach_sent c then [Detach] else []" before Detach later] by (auto split: if_splits)
    have "all_sent" using push_send_all [OF send] client(3) d(1) by blast
    moreover have "\<forall>(p, w)\<in>set ?ws. frame_taken p w = length p" using written_all_accepted [OF n] by auto
    then have "taken ?ws = offered ?ws" unfolding taken_def offered_def by (intro arg_cong [of _ _ sum_list] map_cong) auto
    ultimately show ?thesis using split(2) d(2) sends by simp
  next
    case False
    have "all_sent \<and> fst (outcome_counts x) = sent"
      using told False by (cases x) (simp_all add: push_outcome_end_def split: if_splits)
    then have all: "all_sent" "fst (outcome_counts x) = sent" by blast+
    have "taken ?ws \<le> offered ?ws"
      using server(3) unfolding taken_def offered_def by (intro sum_list_mono) auto
    moreover have le: "offered ?ws \<le> length ?in" using prefix_length_le [OF pre] sends all(1) by (simp add: offered_length)
    moreover have "(of_nat (taken ?ws) :: u64) = of_nat (length ?in)" using counts all sends by simp
    moreover have "taken ?ws \<le> length ?in" using \<open>taken ?ws \<le> offered ?ws\<close> le by simp
    ultimately have "taken ?ws = length ?in" using u64_count_eq stream(2) by blast
    then have same: "offered ?ws = length ?in" "taken ?ws = offered ?ws" using \<open>taken ?ws \<le> offered ?ws\<close> le by simp_all
    have "data_bytes fs = ?in" using sends all(1) by simp
    then have "concat (map fst ?ws) = ?in" using prefix_same [OF pre] same(1) by (simp add: offered_length)
    then show ?thesis using same(2) by (rule conjI)
  qed
  then show ?thesis by (simp add: offered_length)
qed

text \<open>
  Two frames are taken, and a takeover ends the connection before the mark of the end is read: the push is
  revoked with nothing left over, and succeeds.
\<close>

definition late_takeover :: push_outcome where
  "late_takeover = Revoked \<lparr>prog_accepted = 2, prog_unwritten = 0\<rparr>"

definition demo_client :: push_client_env where
  "demo_client = \<lparr>pc_connect = \<lparr>co_socket = Some [47, 115], co_connected = True, co_peer = None,
       co_hello = \<lparr>he_timeout_set = True, he_nonblocking_set = True, he_sent = True,
         he_reply = Inr (AcceptedAt (ControllerEpoch 1)), he_timeout_cleared = True\<rparr>\<rparr>,
     pc_stdin = [(StdinData [104], True), (StdinInterrupted, True), (StdinData [105], True), (StdinEof, True)],
     pc_detach_sent = False, pc_replies = [Inr (InputDone late_takeover)]\<rparr>"

definition demo_session :: push_env where
  "demo_session = \<lparr>pu_cloned = True, pu_registered = True, pu_claim = Inr demo_key, pu_accept_sent = True,
     pu_events =
       [\<lparr>pe_read = Inr (Data [104]), pe_polls = [PollOutcome (Accepted (RequestId 0) (ControllerEpoch 1) 1)], pe_revoked = False\<rparr>,
        \<lparr>pe_read = Inr (Data [105]), pe_polls = [PollOutcome (Accepted (RequestId 1) (ControllerEpoch 1) 1)], pe_revoked = False\<rparr>,
        \<lparr>pe_read = Inl (FrameIo UnexpectedEof), pe_polls = [], pe_revoked = True\<rparr>],
     pu_reply_sent = True\<rparr>"

definition demo_served :: "conn_action list" where
  "demo_served = the (handle_push_connection demo_session (HolderId 4))"

lemma demo_session_run: "handle_push_connection demo_session (HolderId 4) = Some demo_served"
  "SendFrame (InputDone late_takeover) True \<in> set demo_served"
  by (simp_all add: demo_served_def handle_push_connection_def demo_session_def demo_key_def late_takeover_def u64_len_def Let_def)

lemma demo_client_run: "push_over_attach_socket (\<lambda>k. False) demo_client = Some (ClientOk, [Data [104], Data [105]])"
  by (simp add: push_over_attach_socket_def demo_client_def connect_def client_hello_def hello_reply_def push_outcome_end_def late_takeover_def)

lemma demo_push_stream: "reads_stream (pu_events demo_session) [Data [104], Data [105]]"
  unfolding reads_stream_def by (intro exI [of _ "[Inl (FrameIo UnexpectedEof)]"]) (simp add: demo_session_def)

theorem push_delivers_stdin_witness:
  "push_over_attach_socket (\<lambda>k. False) demo_client = Some (ClientOk, [Data [104], Data [105]]) \<and>
   concat (map fst (push_writes (pu_events demo_session))) = stdin_bytes (pc_stdin demo_client) \<and>
   taken (push_writes (pu_events demo_session)) = length (stdin_bytes (pc_stdin demo_client))"
  using push_delivers_stdin [OF demo_client_run _ _ demo_session_run _ demo_push_stream] demo_client_run
  by (simp add: demo_client_def demo_session_def)

end
